(* ===== verification/Py_Prelude.thy ===== *)
theory Py_Prelude
  imports Complex_Main "HOL-Library.Multiset" "HOL-Library.Char_ord" "HOL-Library.List_Lexorder"
begin

text \<open>
  Shared ground of the development: the Python the modelled scripts use.  Exceptions are
  values of \<open>exn\<close>; a computation that may raise returns \<open>exn + 'a\<close>.  Strings are
  \<open>char list\<close>, dictionaries are association lists in insertion order, and the string,
  path and number formatting operations of the standard library the scripts call are
  written out as functions that compute.
\<close>

section \<open>Exceptions as values\<close>

datatype exn =
    IndexError
  | KeyError
  | ValueError
  | TypeError
  | AttributeError
  | UnboundLocalError
  | NameError
  | ZeroDivisionError
  | OSError
  | AssertionError
  | RuntimeError
  | UserException string
  | SystemExit int

type_synonym 'a res = "exn + 'a"

definition res_bind :: "'a res \<Rightarrow> ('a \<Rightarrow> 'b res) \<Rightarrow> 'b res" where
  "res_bind m f = (case m of Inl e \<Rightarrow> Inl e | Inr x \<Rightarrow> f x)"

text \<open>Unfolding of the result monad, and introduction of its successful runs.\<close>

named_theorems res_simps
named_theorems str_simps

lemma res_bind_Inl [simp, res_simps]: "res_bind (Inl e) f = Inl e"
  by (simp add: res_bind_def)

lemma res_bind_Inr [simp, res_simps]: "res_bind (Inr x) f = f x"
  by (simp add: res_bind_def)

lemma res_bind_eq_Inr [res_simps]:
  "res_bind m f = Inr y \<longleftrightarrow> (\<exists>x. m = Inr x \<and> f x = Inr y)"
  by (cases m) auto

lemma res_bind_eq_Inl:
  "res_bind m f = Inl e \<longleftrightarrow> m = Inl e \<or> (\<exists>x. m = Inr x \<and> f x = Inl e)"
  by (cases m) auto

lemma res_bind_assoc: "res_bind (res_bind m f) g = res_bind m (\<lambda>x. res_bind (f x) g)"
  by (cases m) auto

lemma res_bind_cong [fundef_cong]:
  "m = m' \<Longrightarrow> (\<And>x. m' = Inr x \<Longrightarrow> f x = f' x) \<Longrightarrow> res_bind m f = res_bind m' f'"
  by (cases m') auto

text \<open>A loop whose body writes, or raises.\<close>

fun concat_res :: "('a \<Rightarrow> 'b list res) \<Rightarrow> 'a list \<Rightarrow> 'b list res" where
  "concat_res f [] = Inr []"
| "concat_res f (x # xs) = res_bind (f x) (\<lambda>a. res_bind (concat_res f xs) (\<lambda>b. Inr (a @ b)))"

lemma concat_res_cong [fundef_cong]:
  "xs = ys \<Longrightarrow> (\<And>x. x \<in> set ys \<Longrightarrow> f x = g x) \<Longrightarrow> concat_res f xs = concat_res g ys"
  by (induction xs arbitrary: ys) auto

lemma concat_res_append:
  "concat_res f (xs @ ys) = res_bind (concat_res f xs) (\<lambda>a. res_bind (concat_res f ys) (\<lambda>b. Inr (a @ b)))"
proof (induction xs)
  case Nil
  show ?case by (cases "concat_res f ys") simp_all
next
  case (Cons x xs)
  show ?case
    by (cases "f x"; cases "concat_res f xs"; cases "concat_res f ys") (simp_all add: Cons.IH)
qed

lemma concat_res_Inr: "(\<And>x. x \<in> set xs \<Longrightarrow> f x = Inr (g x)) \<Longrightarrow> concat_res f xs = Inr (concat (map g xs))"
  by (induction xs) auto

lemma concat_res_sum:
  assumes "\<And>x a. x \<in> set xs \<Longrightarrow> f x = Inr a \<Longrightarrow> count_list a c = n x"
  shows "concat_res f xs = Inr ops \<Longrightarrow> count_list ops c = sum_list (map n xs)"
  using assms by (induction xs arbitrary: ops) (auto simp: res_bind_eq_Inr)

section \<open>Strings\<close>

text \<open>The newline, tab, quote characters and the one-character string of a newline.\<close>

abbreviation NL :: char where "NL \<equiv> CHR 0x0A"
abbreviation TAB :: char where "TAB \<equiv> CHR 0x09"
abbreviation DQ :: string where "DQ \<equiv> [CHR 0x22]"
abbreviation nl :: string where "nl \<equiv> [CHR 0x0A]"

definition is_digit :: "char \<Rightarrow> bool" where
  "is_digit c \<longleftrightarrow> 48 \<le> (of_char c :: nat) \<and> (of_char c :: nat) \<le> 57"

text \<open>The characters \<open>str.strip\<close> removes, within Latin-1.\<close>

definition is_space :: "char \<Rightarrow> bool" where
  "is_space c \<longleftrightarrow> (let n = (of_char c :: nat) in
     (9 \<le> n \<and> n \<le> 13) \<or> (28 \<le> n \<and> n \<le> 32) \<or> n = 133 \<or> n = 160)"

definition lstrip :: "string \<Rightarrow> string" where
  "lstrip s = dropWhile is_space s"

definition rstrip :: "string \<Rightarrow> string" where
  "rstrip s = rev (dropWhile is_space (rev s))"

definition strip :: "string \<Rightarrow> string" where
  "strip s = rstrip (lstrip s)"

definition startswith :: "string \<Rightarrow> string \<Rightarrow> bool" where
  "startswith s p \<longleftrightarrow> take (length p) s = p"

definition endswith :: "string \<Rightarrow> string \<Rightarrow> bool" where
  "endswith s p \<longleftrightarrow> startswith (rev s) (rev p)"

text \<open>The substring test \<open>p in s\<close>.\<close>

fun substr_in :: "string \<Rightarrow> string \<Rightarrow> bool" where
  "substr_in p [] = (p = [])"
| "substr_in p (c # s) = (startswith (c # s) p \<or> substr_in p s)"

text \<open>\<open>s.split(c)\<close>: all the fields between the occurrences of \<open>c\<close>.\<close>

fun split_on :: "char \<Rightarrow> string \<Rightarrow> string list" where
  "split_on c [] = [[]]"
| "split_on c (x # xs) =
     (if x = c then [] # split_on c xs
      else (case split_on c xs of [] \<Rightarrow> [[x]] | f # fs \<Rightarrow> (x # f) # fs))"

text \<open>\<open>s.split(c, 1)\<close>: at the first occurrence only; one field when there is none.\<close>

fun split_once :: "char \<Rightarrow> string \<Rightarrow> string list" where
  "split_once c s =
     (let a = takeWhile (\<lambda>x. x \<noteq> c) s in
      if c \<in> set s then [a, drop (Suc (length a)) s] else [s])"

text \<open>Iterating over a text file: the lines, each with its newline.\<close>

fun file_lines :: "string \<Rightarrow> string list" where
  "file_lines [] = []"
| "file_lines (x # xs) =
     (if x = NL then [NL] # file_lines xs
      else (case file_lines xs of
              [] \<Rightarrow> [[x]]
            | f # fs \<Rightarrow> (x # f) # fs))"

fun join :: "string \<Rightarrow> string list \<Rightarrow> string" where
  "join sep [] = []"
| "join sep [x] = x"
| "join sep (x # y # ys) = x @ sep @ join sep (y # ys)"

text \<open>\<open>"%d" % n\<close> and \<open>int(s)\<close> on a string of decimal digits.\<close>

fun str_nat :: "nat \<Rightarrow> string" where
  "str_nat n = (if n < 10 then [char_of (48 + n)]
                else str_nat (n div 10) @ [char_of (48 + n mod 10)])"

declare str_nat.simps [simp del]

definition str_int :: "int \<Rightarrow> string" where
  "str_int i = (if i < 0 then CHR ''-'' # str_nat (nat (- i)) else str_nat (nat i))"

definition digit_val :: "char \<Rightarrow> nat" where
  "digit_val c = of_char c - 48"

definition nat_of_digits :: "string \<Rightarrow> nat" where
  "nat_of_digits s = foldl (\<lambda>n c. 10 * n + digit_val c) 0 s"

text \<open>
  \<open>"%.3f" % x\<close> for an exact value: the nearest multiple of a thousandth, ties to even,
  as the C library rounds.
\<close>

definition round_half_even :: "rat \<Rightarrow> int" where
  "round_half_even x =
     (let f = floor x; d = x - of_int f in
      if d < 1 / 2 then f else if d > 1 / 2 then f + 1
      else if even f then f else f + 1)"

definition pad3 :: "nat \<Rightarrow> string" where
  "pad3 n = [char_of (48 + n div 100 mod 10), char_of (48 + n div 10 mod 10), char_of (48 + n mod 10)]"

definition fmt_f3 :: "rat \<Rightarrow> string" where
  "fmt_f3 x =
     (let k = round_half_even (abs x * 1000); a = nat k in
      (if x < 0 then ''-'' else []) @ str_nat (a div 1000) @ ''.'' @ pad3 (a mod 1000))"

text \<open>\<open>os.path.join\<close> and \<open>os.path.basename\<close> on POSIX.\<close>

definition path_join :: "string \<Rightarrow> string \<Rightarrow> string" where
  "path_join a b =
     (if startswith b ''/'' then b
      else if a = [] \<or> endswith a ''/'' then a @ b
      else a @ ''/'' @ b)"

definition basename :: "string \<Rightarrow> string" where
  "basename p = rev (takeWhile (\<lambda>c. c \<noteq> CHR ''/'') (rev p))"

text \<open>\<open>(.*)$\<close> at the current position: the rest of the line, which may end in one newline.\<close>

definition re_rest :: "string \<Rightarrow> string option" where
  "re_rest s = (let b = takeWhile (\<lambda>c. c \<noteq> NL) s in
                if s = b \<or> s = b @ nl then Some b else None)"

text \<open>A literal prefix of a pattern: what follows it in the subject.\<close>

fun re_lit :: "string \<Rightarrow> string \<Rightarrow> string option" where
  "re_lit [] s = Some s"
| "re_lit (p # ps) [] = None"
| "re_lit (p # ps) (x # xs) = (if p = x then re_lit ps xs else None)"

text \<open>A greedy class repeated at least once, where what follows is not of the class.\<close>

definition re_plus :: "(char \<Rightarrow> bool) \<Rightarrow> string \<Rightarrow> (string \<times> string) option" where
  "re_plus P s = (case takeWhile P s of [] \<Rightarrow> None
                  | c # cs \<Rightarrow> Some (c # cs, dropWhile P s))"

section \<open>Lemmas on strings\<close>

lemma re_lit_append [simp, str_simps]: "re_lit p (p @ s) = Some s"
  by (induction p) auto

lemma re_lit_self [simp, str_simps]: "re_lit p p = Some []"
  using re_lit_append [of p "[]"] by simp

lemma re_lit_eq_Some [str_simps]: "re_lit p s = Some t \<longleftrightarrow> s = p @ t"
  by (induction p s rule: re_lit.induct) auto

lemma re_lit_eq_None: "re_lit p s = None \<longleftrightarrow> (\<forall>t. s \<noteq> p @ t)"
  by (metis not_None_eq re_lit_eq_Some)

lemma takeWhile_no_nl: "NL \<notin> set s \<Longrightarrow> takeWhile (\<lambda>c. c \<noteq> NL) s = s"
  by (induction s) auto

lemma takeWhile_line: "NL \<notin> set s \<Longrightarrow> takeWhile (\<lambda>c. c \<noteq> NL) (s @ NL # t) = s"
  by (induction s) auto

lemma re_rest_nl [simp, str_simps]: "NL \<notin> set s \<Longrightarrow> re_rest (s @ nl) = Some s"
  by (subst re_rest_def, subst takeWhile_line) (simp_all add: Let_def)

lemma re_rest_plain [simp, str_simps]: "NL \<notin> set s \<Longrightarrow> re_rest s = Some s"
  by (subst re_rest_def, subst takeWhile_no_nl) (simp_all add: Let_def)

lemma re_rest_no_nl: "re_rest s = Some t \<Longrightarrow> NL \<notin> set t"
  by (auto simp: re_rest_def Let_def split: if_splits dest: set_takeWhileD)

lemma re_rest_SomeD: "re_rest s = Some t \<Longrightarrow> s = t \<or> s = t @ nl"
  by (auto simp: re_rest_def Let_def split: if_splits)

lemma of_char_digit [simp]: "n < 10 \<Longrightarrow> (of_char (char_of (48 + n) :: char) :: nat) = 48 + n"
  by simp

lemma is_digit_digit [simp]: "(n::nat) < 10 \<Longrightarrow> is_digit (char_of (48 + n))"
  by (simp add: is_digit_def)

lemma digit_val_digit [simp]: "n < 10 \<Longrightarrow> digit_val (char_of (48 + n)) = n"
  by (simp add: digit_val_def)

lemma str_nat_digits: "list_all is_digit (str_nat n)"
proof (induction n rule: str_nat.induct)
  case (1 n)
  then show ?case by (cases "n < 10") (simp_all add: str_nat.simps [of n])
qed

lemma str_nat_nonempty [simp]: "str_nat n \<noteq> []"
  by (subst str_nat.simps) simp

lemma nat_of_digits_snoc: "nat_of_digits (s @ [c]) = 10 * nat_of_digits s + digit_val c"
  by (simp add: nat_of_digits_def)

lemma nat_of_digits_str_nat [simp, str_simps]: "nat_of_digits (str_nat n) = n"
proof (induction n rule: str_nat.induct)
  case (1 n)
  show ?case
  proof (cases "n < 10")
    case True
    then show ?thesis by (simp add: str_nat.simps [of n] nat_of_digits_def)
  next
    case False
    with 1 show ?thesis
      by (simp add: str_nat.simps [of n] nat_of_digits_snoc)
  qed
qed

lemma str_nat_inject [simp]: "str_nat m = str_nat n \<longleftrightarrow> m = n"
  by (metis nat_of_digits_str_nat)

lemma str_int_of_nat [simp]: "str_int (int n) = str_nat n"
  by (simp add: str_int_def)

lemma not_digit_blank [simp]: "\<not> is_digit CHR '' ''"
  by (simp add: is_digit_def)

lemma nl_not_digit [simp]: "\<not> is_digit NL"
  by (simp add: is_digit_def)

lemma nl_notin_str_nat [simp]: "NL \<notin> set (str_nat n)"
  using str_nat_digits [of n] nl_not_digit by (metis list_all_iff)

lemma re_plus_digits [str_simps]:
  assumes "\<not> is_digit c"
  shows "re_plus is_digit (str_nat n @ c # s) = Some (str_nat n, c # s)"
proof -
  have d: "\<forall>x \<in> set (str_nat n). is_digit x" using str_nat_digits by (simp add: list_all_iff)
  then have "takeWhile is_digit (str_nat n @ c # s) = str_nat n"
    using assms by (simp add: takeWhile_append)
  moreover have "dropWhile is_digit (str_nat n @ c # s) = c # s"
    using d assms by (simp add: dropWhile_append)
  moreover obtain x xs where "str_nat n = x # xs" by (cases "str_nat n") auto
  ultimately show ?thesis by (simp add: re_plus_def)
qed

lemma file_lines_nil_iff [simp]: "file_lines s = [] \<longleftrightarrow> s = []"
  by (induction s) (auto split: list.splits)

lemma concat_file_lines [simp]: "concat (file_lines s) = s"
  by (induction s) (auto split: list.splits)

lemma file_lines_line [simp, str_simps]:
  "NL \<notin> set s \<Longrightarrow> file_lines (s @ NL # t) = (s @ nl) # file_lines t"
  by (induction s) auto

lemma file_lines_line' [simp]:
  "NL \<notin> set s \<Longrightarrow> file_lines (s @ nl) = [s @ nl]"
  using file_lines_line [of s "[]"] by simp

lemma file_lines_concat:
  "(\<And>l. l \<in> set ls \<Longrightarrow> \<exists>b. l = b @ nl \<and> NL \<notin> set b) \<Longrightarrow> file_lines (concat ls @ t) = ls @ file_lines t"
proof (induction ls)
  case (Cons l ls)
  then obtain b where b: "l = b @ nl" "NL \<notin> set b" by auto
  have "file_lines (concat (l # ls) @ t) = file_lines (b @ NL # (concat ls @ t))"
    using b by simp
  also have "\<dots> = (b @ nl) # file_lines (concat ls @ t)"
    by (rule file_lines_line) (rule b)
  also have "\<dots> = l # ls @ file_lines t"
    using b Cons by simp
  finally show ?case by simp
qed simp

lemma split_on_join [simp]:
  "xs \<noteq> [] \<Longrightarrow> (\<And>x. x \<in> set xs \<Longrightarrow> c \<notin> set x) \<Longrightarrow> split_on c (join [c] xs) = xs"
proof (induction xs rule: induct_list012)
  case (2 x)
  have "c \<notin> set x \<Longrightarrow> split_on c x = [x]"
    by (induction x) auto
  with 2 show ?case by simp
next
  case (3 x y zs)
  have "c \<notin> set x \<Longrightarrow> split_on c (x @ c # r) = x # split_on c r" for r
    by (induction x) auto
  with 3 show ?case by simp
qed simp

lemma startswith_append [simp, str_simps]: "startswith (p @ s) p"
  by (simp add: startswith_def)

lemma startswith_iff: "startswith s p \<longleftrightarrow> (\<exists>t. s = p @ t)"
  by (metis append_take_drop_id append_eq_conv_conj startswith_def)

lemma substr_in_iff: "substr_in p s \<longleftrightarrow> (\<exists>a b. s = a @ p @ b)"
proof (induction s)
  case (Cons c s)
  show ?case
  proof
    assume "substr_in p (c # s)"
    then consider t where "c # s = p @ t" | a b where "s = a @ p @ b"
      using Cons by (auto simp: startswith_iff)
    then show "\<exists>a b. c # s = a @ p @ b"
    proof cases
      case 1 then show ?thesis by (metis append_Nil)
    next
      case 2 then show ?thesis by (metis append_Cons)
    qed
  next
    assume "\<exists>a b. c # s = a @ p @ b"
    then obtain a b where ab: "c # s = a @ p @ b" by blast
    show "substr_in p (c # s)"
    proof (cases a)
      case Nil
      with ab have "startswith (c # s) p" by (simp add: startswith_iff)
      then show ?thesis by simp
    next
      case (Cons d a')
      with ab have "s = a' @ p @ b" by simp
      with Cons.IH show ?thesis by auto
    qed
  qed
qed auto

section \<open>Dictionaries\<close>

text \<open>
  A dictionary is an association list with distinct keys; a store to a new key goes to the
  end, a store to an old key keeps its place (the iteration order of Python 3.7 and later).
\<close>

fun dict_set :: "'k \<Rightarrow> 'v \<Rightarrow> ('k \<times> 'v) list \<Rightarrow> ('k \<times> 'v) list" where
  "dict_set k v [] = [(k, v)]"
| "dict_set k v ((a, b) # d) = (if a = k then (k, v) # d else (a, b) # dict_set k v d)"

fun dict_del :: "'k \<Rightarrow> ('k \<times> 'v) list \<Rightarrow> ('k \<times> 'v) list" where
  "dict_del k [] = []"
| "dict_del k ((a, b) # d) = (if a = k then d else (a, b) # dict_del k d)"

abbreviation dict_has :: "('k \<times> 'v) list \<Rightarrow> 'k \<Rightarrow> bool" where
  "dict_has d k \<equiv> map_of d k \<noteq> None"

lemma map_of_dict_set [simp]: "map_of (dict_set k v d) = (map_of d)(k \<mapsto> v)"
  by (induction d) (auto simp: fun_eq_iff)

lemma keys_dict_set: "set (map fst (dict_set k v d)) = insert k (set (map fst d))"
proof (induction d)
  case (Cons p d)
  then show ?case by (cases p; cases "fst p = k") auto
qed simp

lemma keys_dict_set' [simp]: "fst ` set (dict_set k v d) = insert k (fst ` set d)"
  using keys_dict_set [of k v d] by simp

lemma distinct_dict_set [simp]:
  "distinct (map fst d) \<Longrightarrow> distinct (map fst (dict_set k v d))"
  by (induction d) auto

lemma map_of_dict_del [simp]:
  "distinct (map fst d) \<Longrightarrow> map_of (dict_del k d) = (map_of d)(k := None)"
proof (induction d)
  case (Cons p d)
  then have "fst p = k \<Longrightarrow> map_of d k = None" by (auto simp: map_of_eq_None_iff)
  with Cons show ?case by (cases p; cases "fst p = k") (auto simp: fun_eq_iff)
qed simp

lemma keys_dict_del [simp]:
  "distinct (map fst d) \<Longrightarrow> fst ` set (dict_del k d) = fst ` set d - {k}"
proof (induction d)
  case (Cons p d)
  then show ?case by (cases p; cases "fst p = k") (simp_all add: insert_Diff_if)
qed simp

lemma distinct_dict_del [simp]:
  "distinct (map fst d) \<Longrightarrow> distinct (map fst (dict_del k d))"
proof (induction d)
  case (Cons p d)
  then show ?case by (cases p; cases "fst p = k") simp_all
qed simp

end
