(* ===== verification/Shell_Cmd.thy ===== *)
theory Shell_Cmd
  imports Py_Prelude
begin

text \<open>
  \<^verbatim>\<open>src/waf-tools/shellcmd.py\<close>: a small shell for the build system.  A command line is
  cut into words (\<open>shlex.split\<close>), the words are parsed by a state machine into a list of
  nodes (commands, \<open>cd\<close> and the operators \<open>|\<close>, \<open>&&\<close>, \<open>||\<close>), and the list is executed:
  files are opened, processes are spawned and waited for.  The operating system is a
  parameter, a record of the answers it gives to each request; the answers may depend on
  all that happened before.  What the run does is the list of its events.  The messages of
  \<open>debug\<close> are left out.
\<close>

section \<open>Words of a command line\<close>

text \<open>
  \<open>shlex.split\<close> in its POSIX mode: the states of the lexer.  \<open>Escaped b\<close> and \<open>Escaped_Q\<close> are
  the state after a backslash outside and inside double quotes.
\<close>

datatype lex_state = Blank | Word | Quoted char | Escaped | Escaped_Q

definition is_lex_space :: "char \<Rightarrow> bool" where
  "is_lex_space c \<longleftrightarrow> c \<in> {CHR '' '', TAB, CHR 0x0D, NL}"

abbreviation SQ :: char where "SQ \<equiv> CHR 0x27"
abbreviation DQC :: char where "DQC \<equiv> CHR 0x22"
abbreviation BSL :: char where "BSL \<equiv> CHR 0x5C"

text \<open>The arguments are the state, whether the current token had a quote, and the token so far.\<close>

fun shlex_loop :: "lex_state \<Rightarrow> bool \<Rightarrow> string \<Rightarrow> string \<Rightarrow> string list res" where
  "shlex_loop Blank q t [] = Inr (if q \<or> t \<noteq> [] then [t] else [])"
| "shlex_loop Word q t [] = Inr (if q \<or> t \<noteq> [] then [t] else [])"
| "shlex_loop (Quoted c) q t [] = Inl ValueError"
| "shlex_loop Escaped q t [] = Inl ValueError"
| "shlex_loop Escaped_Q q t [] = Inl ValueError"
| "shlex_loop Blank q t (x # xs) =
     (if is_lex_space x then shlex_loop Blank q t xs
      else if x = BSL then shlex_loop Escaped q t xs
      else if x = SQ \<or> x = DQC then shlex_loop (Quoted x) q t xs
      else shlex_loop Word q [x] xs)"
| "shlex_loop Word q t (x # xs) =
     (if is_lex_space x then
        (if q \<or> t \<noteq> [] then res_bind (shlex_loop Blank False [] xs) (\<lambda>r. Inr (t # r))
         else shlex_loop Blank q t xs)
      else if x = SQ \<or> x = DQC then shlex_loop (Quoted x) q t xs
      else if x = BSL then shlex_loop Escaped q t xs
      else shlex_loop Word q (t @ [x]) xs)"
| "shlex_loop (Quoted c) q t (x # xs) =
     (if x = c then shlex_loop Word True t xs
      else if x = BSL \<and> c = DQC then shlex_loop Escaped_Q True t xs
      else shlex_loop (Quoted c) True (t @ [x]) xs)"
| "shlex_loop Escaped q t (x # xs) = shlex_loop Word q (t @ [x]) xs"
| "shlex_loop Escaped_Q q t (x # xs) =
     shlex_loop (Quoted DQC) q (if x \<noteq> BSL \<and> x \<noteq> DQC then t @ [BSL, x] else t @ [x]) xs"

definition shlex_split :: "string \<Rightarrow> string list res" where
  "shlex_split s = shlex_loop Blank False [] s"

section \<open>Nodes of a pipeline\<close>

text \<open>What a standard stream of a command is set to: \<open>PIPE\<close>, \<open>STDOUT\<close> or a file name.\<close>

datatype redir = To_Pipe | To_Stdout | To_File string

record command =
  cm_name :: string
  cm_argv :: "string list"
  cm_stdin :: "string option"
  cm_stdout :: "redir option"
  cm_stderr :: "redir option"
  cm_env :: "(string \<times> string) list option"

definition new_command :: "string \<Rightarrow> command" where
  "new_command n = \<lparr>cm_name = n, cm_argv = [n], cm_stdin = None, cm_stdout = None,
                    cm_stderr = None, cm_env = None\<rparr>"

datatype shell_node = Command command | Chdir "string option" | Pipe | And | Or

datatype parse_state = BEGIN | COMMAND | CHDIR | STDERR | STDOUT | STDIN

record parser =
  pa_state :: parse_state
  pa_current :: "shell_node option"
  pa_pipeline :: "shell_node list"
  pa_env :: "(string \<times> string) list"

text \<open>\<open>env_var_rx\<close>: \<open>^([a-zA-Z0-9_]+)=(\S+)$\<close>.\<close>

definition is_name_char :: "char \<Rightarrow> bool" where
  "is_name_char c \<longleftrightarrow> (let n = (of_char c :: nat) in
     (48 \<le> n \<and> n \<le> 57) \<or> (65 \<le> n \<and> n \<le> 90) \<or> (97 \<le> n \<and> n \<le> 122) \<or> n = 95)"

definition env_var_match :: "string \<Rightarrow> (string \<times> string) option" where
  "env_var_match s =
     (case re_plus is_name_char s of
        None \<Rightarrow> None
      | Some (k, r) \<Rightarrow>
          (case re_lit ''='' r of
             None \<Rightarrow> None
           | Some r' \<Rightarrow>
               (case re_plus (\<lambda>c. \<not> is_space c) r' of
                  None \<Rightarrow> None
                | Some (v, e) \<Rightarrow> if e = [] \<or> e = nl then Some (k, v) else None)))"

definition commit_command :: "parser \<Rightarrow> parser res" where
  "commit_command p =
     (case pa_current p of
        None \<Rightarrow> Inl AssertionError
      | Some c \<Rightarrow> Inr (p\<lparr>pa_pipeline := pa_pipeline p @ [c], pa_current := None\<rparr>))"

text \<open>The step of \<open>parse\<close> in its state \<open>BEGIN\<close>.\<close>

definition step_begin :: "string \<Rightarrow> parser \<Rightarrow> parser res" where
  "step_begin tok p =
     (case env_var_match tok of
        Some (k, v) \<Rightarrow> Inr (p\<lparr>pa_env := dict_set k v (pa_env p)\<rparr>)
      | None \<Rightarrow>
          if pa_current p \<noteq> None then Inl AssertionError
          else if tok = ''cd'' then
            (if pa_env p \<noteq> [] then Inl AssertionError
             else Inr (p\<lparr>pa_current := Some (Chdir None), pa_state := CHDIR\<rparr>))
          else Inr (p\<lparr>pa_current := Some (Command ((new_command tok)
                        \<lparr>cm_env := if pa_env p = [] then None else Some (pa_env p)\<rparr>)),
                      pa_env := [], pa_state := COMMAND\<rparr>))"

text \<open>An operator: the current command is committed and the operator follows it.\<close>

definition commit_op :: "shell_node \<Rightarrow> parser \<Rightarrow> parser res" where
  "commit_op n p =
     res_bind (commit_command p) (\<lambda>p. Inr (p\<lparr>pa_pipeline := pa_pipeline p @ [n], pa_state := BEGIN\<rparr>))"

text \<open>
  The steps in the states inside a command.  The current node is a command there; the code
  reads its attributes, which a \<open>Chdir\<close> lacks.
\<close>

definition on_command :: "(command \<Rightarrow> parser res) \<Rightarrow> parser \<Rightarrow> parser res" where
  "on_command f p = (case pa_current p of Some (Command c) \<Rightarrow> f c | _ \<Rightarrow> Inl AttributeError)"

definition step_command :: "string \<Rightarrow> parser \<Rightarrow> parser res" where
  "step_command tok p =
     (if tok = ''>'' then Inr (p\<lparr>pa_state := STDOUT\<rparr>)
      else if tok = ''2>'' then Inr (p\<lparr>pa_state := STDERR\<rparr>)
      else if tok = ''2>&1'' then
        on_command (\<lambda>c. if cm_stderr c \<noteq> None then Inl AssertionError
          else Inr (p\<lparr>pa_current := Some (Command (c\<lparr>cm_stderr := Some To_Stdout\<rparr>))\<rparr>)) p
      else if tok = ''<'' then Inr (p\<lparr>pa_state := STDIN\<rparr>)
      else if tok = ''|'' then
        on_command (\<lambda>c. if cm_stdout c \<noteq> None then Inl AssertionError
          else commit_op Pipe (p\<lparr>pa_current := Some (Command (c\<lparr>cm_stdout := Some To_Pipe\<rparr>))\<rparr>)) p
      else if tok = ''&&'' then commit_op And p
      else if tok = ''||'' then commit_op Or p
      else on_command (\<lambda>c.
             Inr (p\<lparr>pa_current := Some (Command (c\<lparr>cm_argv := cm_argv c @ [tok]\<rparr>))\<rparr>)) p)"

definition step_chdir :: "string \<Rightarrow> parser \<Rightarrow> parser res" where
  "step_chdir tok p =
     (if tok = ''&&'' then commit_op And p
      else (case pa_current p of
              Some (Chdir None) \<Rightarrow> Inr (p\<lparr>pa_current := Some (Chdir (Some tok))\<rparr>)
            | Some (Chdir (Some d)) \<Rightarrow> Inl AssertionError
            | _ \<Rightarrow> Inl AttributeError))"

definition step_stdout :: "string \<Rightarrow> parser \<Rightarrow> parser res" where
  "step_stdout tok p = on_command (\<lambda>c. if cm_stdout c \<noteq> None then Inl AssertionError
     else Inr (p\<lparr>pa_current := Some (Command (c\<lparr>cm_stdout := Some (To_File tok)\<rparr>)), pa_state := COMMAND\<rparr>)) p"

definition step_stderr :: "string \<Rightarrow> parser \<Rightarrow> parser res" where
  "step_stderr tok p = on_command (\<lambda>c. if cm_stderr c \<noteq> None then Inl AssertionError
     else Inr (p\<lparr>pa_current := Some (Command (c\<lparr>cm_stderr := Some (To_File tok)\<rparr>)), pa_state := COMMAND\<rparr>)) p"

definition step_stdin :: "string \<Rightarrow> parser \<Rightarrow> parser res" where
  "step_stdin tok p = on_command (\<lambda>c. if cm_stdin c \<noteq> None then Inl AssertionError
     else Inr (p\<lparr>pa_current := Some (Command (c\<lparr>cm_stdin := Some tok\<rparr>)), pa_state := COMMAND\<rparr>)) p"

definition parse_step :: "string \<Rightarrow> parser \<Rightarrow> parser res" where
  "parse_step tok p =
     (case pa_state p of
        BEGIN \<Rightarrow> step_begin tok p
      | COMMAND \<Rightarrow> step_command tok p
      | CHDIR \<Rightarrow> step_chdir tok p
      | STDOUT \<Rightarrow> step_stdout tok p
      | STDERR \<Rightarrow> step_stderr tok p
      | STDIN \<Rightarrow> step_stdin tok p)"

fun parse_loop :: "string list \<Rightarrow> parser \<Rightarrow> parser res" where
  "parse_loop [] p = Inr p"
| "parse_loop (t # ts) p = res_bind (parse_step t p) (parse_loop ts)"

definition new_parser :: parser where
  "new_parser = \<lparr>pa_state = BEGIN, pa_current = None, pa_pipeline = [], pa_env = []\<rparr>"

definition parse_tokens :: "string list \<Rightarrow> shell_node list res" where
  "parse_tokens ts =
     res_bind (parse_loop ts new_parser) (\<lambda>p. res_bind (commit_command p) (\<lambda>p. Inr (pa_pipeline p)))"

text \<open>\<open>parse\<close> on a string; on a list of words it is \<^const>\<open>parse_tokens\<close>.\<close>

definition parse :: "string \<Rightarrow> shell_node list res" where
  "parse s = res_bind (shlex_split s) parse_tokens"

text \<open>\<open>get_abbreviated_command\<close>, with its two tests for \<open>And\<close>.\<close>

definition abbrev_node :: "shell_node \<Rightarrow> string list" where
  "abbrev_node n =
     (case n of
        Command c \<Rightarrow> [cm_name c]
      | Chdir d \<Rightarrow> [''cd '' @ (case d of None \<Rightarrow> ''None'' | Some s \<Rightarrow> s)]
      | Pipe \<Rightarrow> [''|'']
      | And \<Rightarrow> [''&&'']
      | Or \<Rightarrow> [])"

definition get_abbreviated_command :: "shell_node list \<Rightarrow> string" where
  "get_abbreviated_command p = join '' '' (concat (map abbrev_node p))"

section \<open>Running a pipeline\<close>

text \<open>
  What a stream of a process is: inherited, the shared \<open>dev_null\<close>, a file opened by the run,
  the output of an earlier process, a new pipe (\<open>subprocess.PIPE\<close>) or \<open>subprocess.STDOUT\<close>.
\<close>

datatype stream = Inherit | Dev_Null | Opened nat | Out_Of nat | New_Pipe | Err_To_Out

record spawn =
  sp_argv :: "string list"
  sp_stdin :: stream
  sp_stdout :: stream
  sp_stderr :: stream
  sp_env :: "(string \<times> string) list option"
  sp_cwd :: "string option"

datatype event =
    Open_In nat string
  | Open_Out nat string
  | Spawn nat spawn
  | Wait nat int
  | Close nat
  | Print string

record shell_os =
  os_can_read :: "event list \<Rightarrow> string \<Rightarrow> bool"
  os_can_write :: "event list \<Rightarrow> string \<Rightarrow> bool"
  os_can_spawn :: "event list \<Rightarrow> spawn \<Rightarrow> bool"
  os_status :: "event list \<Rightarrow> nat \<Rightarrow> int"
  os_environ :: "(string \<times> string) list"

text \<open>
  The local variables of \<open>run\<close>: \<open>files_to_close\<close>, \<open>piped_commands\<close> (each process with its
  attribute \<open>stdout\<close>), \<open>piped_commands_display\<close>, \<open>state\<close> (whether it is \<open>PIPE\<close>), \<open>cwd\<close>; and
  how many files and processes the run has created, and its events.
\<close>

record run_state =
  ru_close :: "stream list"
  ru_procs :: "(nat \<times> stream) list"
  ru_display :: "string list"
  ru_piped :: bool
  ru_cwd :: string
  ru_files :: nat
  ru_spawned :: nat
  ru_trace :: "event list"

type_synonym 'a io = "run_state \<Rightarrow> 'a res \<times> run_state"

definition io_bind :: "'a io \<Rightarrow> ('a \<Rightarrow> 'b io) \<Rightarrow> 'b io" where
  "io_bind m f s = (case m s of (Inl e, s') \<Rightarrow> (Inl e, s') | (Inr x, s') \<Rightarrow> f x s')"

definition emit :: "event list \<Rightarrow> run_state \<Rightarrow> run_state" where
  "emit es s = s\<lparr>ru_trace := ru_trace s @ es\<rparr>"

definition display :: "bool \<Rightarrow> string \<Rightarrow> run_state \<Rightarrow> run_state" where
  "display v t s = (if v then s\<lparr>ru_display := ru_display s @ [t]\<rparr> else s)"

definition to_close :: "stream \<Rightarrow> run_state \<Rightarrow> run_state" where
  "to_close h s = s\<lparr>ru_close := ru_close s @ [h]\<rparr>"

definition open_in :: "shell_os \<Rightarrow> string \<Rightarrow> stream io" where
  "open_in os f s =
     (if os_can_read os (ru_trace s) f
      then (Inr (Opened (ru_files s)), emit [Open_In (ru_files s) f] (s\<lparr>ru_files := Suc (ru_files s)\<rparr>))
      else (Inl OSError, s))"

definition open_out_file :: "shell_os \<Rightarrow> string \<Rightarrow> stream io" where
  "open_out_file os f s =
     (if f \<in> {''NUL:'', ''/dev/null''} then (Inr Dev_Null, s)
      else if os_can_write os (ru_trace s) f
      then (Inr (Opened (ru_files s)), emit [Open_Out (ru_files s) f] (s\<lparr>ru_files := Suc (ru_files s)\<rparr>))
      else (Inl OSError, s))"

definition stdin_of :: "shell_os \<Rightarrow> bool \<Rightarrow> command \<Rightarrow> stream io" where
  "stdin_of os v c s =
     (if ru_piped s then
        (if ru_procs s = [] then (Inl IndexError, s) else (Inr (snd (last (ru_procs s))), s))
      else (case cm_stdin c of
              None \<Rightarrow> (Inr Inherit, s)
            | Some f \<Rightarrow> io_bind (open_in os f)
                (\<lambda>h s. (Inr h, to_close h (display v (''< '' @ f) s))) s))"

definition stdout_of :: "shell_os \<Rightarrow> bool \<Rightarrow> command \<Rightarrow> stream io" where
  "stdout_of os v c s =
     (case cm_stdout c of
        None \<Rightarrow> (Inr Inherit, s)
      | Some To_Pipe \<Rightarrow> (Inr New_Pipe, s)
      | Some To_Stdout \<Rightarrow> (Inl TypeError, s)
      | Some (To_File f) \<Rightarrow> io_bind (open_out_file os f)
          (\<lambda>h s. (Inr h, display v (''> '' @ f) (to_close h s))) s)"

definition stderr_of :: "shell_os \<Rightarrow> bool \<Rightarrow> command \<Rightarrow> stream io" where
  "stderr_of os v c s =
     (case cm_stderr c of
        None \<Rightarrow> (Inr Inherit, s)
      | Some To_Pipe \<Rightarrow> (Inr New_Pipe, s)
      | Some To_Stdout \<Rightarrow> (Inr Err_To_Out, display v ''2>&1'' s)
      | Some (To_File f) \<Rightarrow> io_bind (open_out_file os f)
          (\<lambda>h s. (Inr h, display v (''2> '' @ f) (to_close h s))) s)"

text \<open>The environment of a process: that of the program, updated by the assignments.\<close>

definition proc_env :: "shell_os \<Rightarrow> command \<Rightarrow> (string \<times> string) list option" where
  "proc_env os c =
     (case cm_env c of
        None \<Rightarrow> None
      | Some e \<Rightarrow> if e = [] then None
                  else Some (fold (\<lambda>(k, x) d. dict_set k x d) e (os_environ os)))"

definition command_words :: "command \<Rightarrow> string" where
  "command_words c =
     (case cm_env c of
        Some (e # es) \<Rightarrow> join '' '' (map (\<lambda>(k, x). k @ ''='' @ x) (e # es)) @ '' '' @ join '' '' (cm_argv c)
      | _ \<Rightarrow> join '' '' (cm_argv c))"

definition popen :: "shell_os \<Rightarrow> spawn \<Rightarrow> unit io" where
  "popen os sp s =
     (if os_can_spawn os (ru_trace s) sp
      then let n = ru_spawned s in
        (Inr (), emit [Spawn n sp]
           (s\<lparr>ru_spawned := Suc n,
              ru_procs := ru_procs s @ [(n, if sp_stdout sp = New_Pipe then Out_Of n else Inherit)]\<rparr>))
      else (Inl OSError, s))"

text \<open>One command, from its three streams to its process.\<close>

definition start_command :: "shell_os \<Rightarrow> bool \<Rightarrow> command \<Rightarrow> unit io" where
  "start_command os v c s =
     io_bind (stdin_of os v c) (\<lambda>i.
     io_bind (stdout_of os v c) (\<lambda>out.
     io_bind (stderr_of os v c) (\<lambda>err s.
       popen os \<lparr>sp_argv = cm_argv c, sp_stdin = i, sp_stdout = out, sp_stderr = err,
                 sp_env = proc_env os c,
                 sp_cwd = (if ru_cwd s = ''.'' then None else Some (ru_cwd s))\<rparr> s)))
     (display v (command_words c) s)"

text \<open>\<open>_exec_piped_commands\<close>: all processes are waited for; the status of the pipeline.\<close>

fun wait_all :: "shell_os \<Rightarrow> (nat \<times> stream) list \<Rightarrow> event list \<Rightarrow> int list \<times> event list" where
  "wait_all os [] tr = ([], tr)"
| "wait_all os ((n, h) # ps) tr =
     (let r = os_status os tr n; (rs, tr') = wait_all os ps (tr @ [Wait n r]) in (r # rs, tr'))"

fun first_nonzero :: "int list \<Rightarrow> int list \<Rightarrow> int" where
  "first_nonzero all [] = 0"
| "first_nonzero all (r # rs) = (if r \<noteq> 0 then last all else first_nonzero all rs)"

definition exec_piped_commands :: "shell_os \<Rightarrow> run_state \<Rightarrow> int \<times> run_state" where
  "exec_piped_commands os s =
     (let (rs, tr) = wait_all os (ru_procs s) (ru_trace s) in (first_nonzero rs rs, s\<lparr>ru_trace := tr\<rparr>))"

definition close_files :: "run_state \<Rightarrow> run_state" where
  "close_files s =
     (emit (concat (map (\<lambda>h. case h of Opened n \<Rightarrow> [Close n] | _ \<Rightarrow> []) (ru_close s))) s)\<lparr>ru_close := []\<rparr>"

text \<open>After \<open>&&\<close> or \<open>||\<close>: the rest starts a pipeline of its own.\<close>

definition fresh_pipeline :: "run_state \<Rightarrow> run_state" where
  "fresh_pipeline s = s\<lparr>ru_piped := False, ru_procs := [], ru_display := []\<rparr>"

definition pipe_next :: "run_state \<Rightarrow> run_state" where
  "pipe_next s = s\<lparr>ru_piped := True, ru_display := ru_display s @ [''|'']\<rparr>"

text \<open>The last command: the status is printed before the files are closed.\<close>

definition finish :: "shell_os \<Rightarrow> bool \<Rightarrow> int option io" where
  "finish os v s =
     (let (r, s) = exec_piped_commands os s;
          s = (if v then emit [Print (join '' '' (ru_display s) @ '': exit code '' @ str_int r)] s else s)
      in (Inr (Some r), close_files s))"

fun run_loop :: "shell_os \<Rightarrow> bool \<Rightarrow> shell_node list \<Rightarrow> int option io" where
  "run_loop os v [] s = (Inr None, s)"
| "run_loop os v (Chdir d # p) s =
     (case p of
        [] \<Rightarrow> (Inl IndexError, s)
      | n # p' \<Rightarrow>
          if n \<noteq> And then (Inl AssertionError, s)
          else (case d of
                  None \<Rightarrow> (Inl TypeError, s)
                | Some d \<Rightarrow> run_loop os v p'
                    (display v (''cd '' @ d @ '' &&'') (s\<lparr>ru_cwd := path_join (ru_cwd s) d\<rparr>))))"
| "run_loop os v (Command c # p) s =
     io_bind (start_command os v c) (\<lambda>_ s.
       (case p of
          [] \<Rightarrow> finish os v s
        | Pipe # p' \<Rightarrow> run_loop os v p' (pipe_next s)
        | And # p' \<Rightarrow>
            (let (r, s) = exec_piped_commands os s; s = close_files s in
             if v then (Inl UnboundLocalError, s)
             else if r \<noteq> 0 then (Inr (Some r), s)
             else run_loop os v p' (fresh_pipeline s))
        | Or # p' \<Rightarrow>
            (let (r, s) = exec_piped_commands os s; s = close_files s in
             if v then (Inl UnboundLocalError, s)
             else if r = 0 then (Inr (Some r), s)
             else run_loop os v p' (fresh_pipeline s))
        | _ # p' \<Rightarrow> run_loop os v p' s)) s"
| "run_loop os v (n # p) s = (Inl AssertionError, s)"

definition new_run :: run_state where
  "new_run = \<lparr>ru_close = [], ru_procs = [], ru_display = [], ru_piped = False, ru_cwd = ''.'',
              ru_files = 0, ru_spawned = 0, ru_trace = []\<rparr>"

definition run :: "shell_os \<Rightarrow> bool \<Rightarrow> shell_node list \<Rightarrow> int option res \<times> event list" where
  "run os v p = (case run_loop os v p new_run of (r, s) \<Rightarrow> (r, ru_trace s))"

section \<open>What the parser builds\<close>

definition wf_command :: "command \<Rightarrow> bool" where
  "wf_command c \<longleftrightarrow> cm_argv c \<noteq> [] \<and> hd (cm_argv c) = cm_name c \<and> cm_stdout c \<noteq> Some To_Stdout
     \<and> cm_stderr c \<noteq> Some To_Pipe \<and> cm_env c \<noteq> Some []"

text \<open>An operand together with the operator after it: only a piped command writes to a pipe.\<close>

definition wf_pair :: "shell_node \<Rightarrow> shell_node \<Rightarrow> bool" where
  "wf_pair n m \<longleftrightarrow>
     (case n of
        Command c \<Rightarrow> wf_command c \<and> m \<in> {Pipe, And, Or} \<and> (m = Pipe \<longleftrightarrow> cm_stdout c = Some To_Pipe)
      | Chdir d \<Rightarrow> m = And
      | _ \<Rightarrow> False)"

definition wf_last :: "shell_node \<Rightarrow> bool" where
  "wf_last n \<longleftrightarrow>
     (case n of
        Command c \<Rightarrow> wf_command c \<and> cm_stdout c \<noteq> Some To_Pipe
      | Chdir d \<Rightarrow> True
      | _ \<Rightarrow> False)"

text \<open>Operands and operators alternate; \<open>wf_prefix\<close> is a pipeline that waits for an operand.\<close>

fun wf_prefix :: "shell_node list \<Rightarrow> bool" where
  "wf_prefix [] = True"
| "wf_prefix [n] = False"
| "wf_prefix (n # m # p) = (wf_pair n m \<and> wf_prefix p)"

fun wf_nodes :: "shell_node list \<Rightarrow> bool" where
  "wf_nodes [] = False"
| "wf_nodes [n] = wf_last n"
| "wf_nodes (n # m # p) = (wf_pair n m \<and> wf_nodes p)"

lemma wf_prefix_append: "wf_prefix p \<Longrightarrow> wf_prefix (p @ q) = wf_prefix q"
  by (induction p rule: wf_prefix.induct) auto

lemma wf_nodes_append: "wf_prefix p \<Longrightarrow> wf_nodes (p @ q) = wf_nodes q"
  by (induction p rule: wf_prefix.induct) auto

text \<open>The invariant of the parser: what the current node is in each state.\<close>

definition wf_current :: "parse_state \<Rightarrow> shell_node option \<Rightarrow> bool" where
  "wf_current st n \<longleftrightarrow>
     (case st of
        BEGIN \<Rightarrow> n = None
      | CHDIR \<Rightarrow> (\<exists>d. n = Some (Chdir d))
      | _ \<Rightarrow> (\<exists>c. n = Some (Command c) \<and> wf_last (Command c)))"

definition wf_parser :: "parser \<Rightarrow> bool" where
  "wf_parser p \<longleftrightarrow> wf_prefix (pa_pipeline p) \<and> wf_current (pa_state p) (pa_current p)"

lemmas parse_step_defs =
  parse_step_def step_begin_def step_command_def step_chdir_def step_stdout_def step_stderr_def
  step_stdin_def on_command_def commit_op_def commit_command_def new_command_def

lemma wf_new_parser [simp]: "wf_parser new_parser"
  by (simp add: wf_parser_def new_parser_def wf_current_def)

lemma parse_step_wf:
  assumes "wf_parser p" "parse_step t p = Inr q"
  shows "wf_parser q"
  using assms
  by (cases "pa_state p")
     (auto simp: wf_parser_def wf_current_def parse_step_defs wf_last_def wf_pair_def wf_command_def
        wf_prefix_append split: if_splits option.splits prod.splits)

lemma parse_loop_wf: "wf_parser p \<Longrightarrow> parse_loop ts p = Inr q \<Longrightarrow> wf_parser q"
  by (induction ts arbitrary: p) (auto simp: res_bind_eq_Inr dest: parse_step_wf)

lemma parse_well_formed: "parse_tokens ts = Inr p \<Longrightarrow> wf_nodes p"
  by (auto simp: parse_tokens_def res_bind_eq_Inr commit_command_def wf_parser_def wf_current_def
        wf_nodes_append wf_last_def split: option.splits parse_state.splits
        dest!: parse_loop_wf [OF wf_new_parser])


section \<open>Running what the parser builds\<close>

text \<open>\<open>cd\<close> needs a directory, and an operand after it.\<close>

fun cds_complete :: "shell_node list \<Rightarrow> bool" where
  "cds_complete [] = True"
| "cds_complete (Chdir d # p) = (d \<noteq> None \<and> p \<noteq> [] \<and> cds_complete p)"
| "cds_complete (n # p) = cds_complete p"

text \<open>Only \<open>close_files\<close> and the two stream functions touch the list of files to close.\<close>

lemma emit_simps [simp]:
  "ru_close (emit es s) = ru_close s" "ru_procs (emit es s) = ru_procs s"
  "ru_display (emit es s) = ru_display s" "ru_piped (emit es s) = ru_piped s"
  "ru_cwd (emit es s) = ru_cwd s" "ru_files (emit es s) = ru_files s"
  "ru_spawned (emit es s) = ru_spawned s" "ru_trace (emit es s) = ru_trace s @ es"
  by (simp_all add: emit_def)

lemma display_simps [simp]:
  "ru_close (display v t s) = ru_close s" "ru_procs (display v t s) = ru_procs s"
  "ru_piped (display v t s) = ru_piped s" "ru_cwd (display v t s) = ru_cwd s"
  "ru_files (display v t s) = ru_files s" "ru_spawned (display v t s) = ru_spawned s"
  "ru_trace (display v t s) = ru_trace s" "display False t s = s"
  by (simp_all add: display_def)

lemma to_close_simps [simp]:
  "ru_close (to_close h s) = ru_close s @ [h]" "ru_procs (to_close h s) = ru_procs s"
  "ru_piped (to_close h s) = ru_piped s" "ru_cwd (to_close h s) = ru_cwd s"
  "ru_files (to_close h s) = ru_files s" "ru_spawned (to_close h s) = ru_spawned s"
  "ru_trace (to_close h s) = ru_trace s"
  by (simp_all add: to_close_def)

lemma io_bind_eq_Inr: "io_bind m f s = (Inr y, t) \<longleftrightarrow> (\<exists>x u. m s = (Inr x, u) \<and> f x u = (Inr y, t))"
  by (auto simp: io_bind_def split: prod.splits sum.splits)

lemma io_bind_eq_Inl: "io_bind m f s = (Inl e, t) \<longleftrightarrow> m s = (Inl e, t) \<or> (\<exists>x u. m s = (Inr x, u) \<and> f x u = (Inl e, t))"
  by (auto simp: io_bind_def split: prod.splits sum.splits)

lemmas stream_defs = stdin_of_def stdout_of_def stderr_of_def open_in_def open_out_file_def

definition same_procs :: "run_state \<Rightarrow> run_state \<Rightarrow> bool" where
  "same_procs s t \<longleftrightarrow> ru_procs t = ru_procs s \<and> ru_piped t = ru_piped s \<and> ru_cwd t = ru_cwd s
     \<and> ru_spawned t = ru_spawned s"

lemma streams_same_procs:
  "stdin_of os v c s = (r, t) \<Longrightarrow> same_procs s t"
  "stdout_of os v c s = (r, t) \<Longrightarrow> same_procs s t"
  "stderr_of os v c s = (r, t) \<Longrightarrow> same_procs s t"
  by (auto simp: same_procs_def stream_defs io_bind_def split: if_splits option.splits redir.splits prod.splits)

lemma streams_fail:
  "stdin_of os v c s = (Inl e, t) \<Longrightarrow> ru_piped s \<longrightarrow> ru_procs s \<noteq> [] \<Longrightarrow> e = OSError"
  "stdout_of os v c s = (Inl e, t) \<Longrightarrow> wf_command c \<Longrightarrow> e = OSError"
  "stderr_of os v c s = (Inl e, t) \<Longrightarrow> e = OSError"
  by (auto simp: stream_defs io_bind_eq_Inl wf_command_def split: if_splits option.splits redir.splits)

lemma stdout_of_new_pipe: "stdout_of os v c s = (Inr h, t) \<Longrightarrow> h = New_Pipe \<longleftrightarrow> cm_stdout c = Some To_Pipe"
  by (auto simp: stdout_of_def open_out_file_def io_bind_eq_Inr split: if_splits option.splits redir.splits)

text \<open>What a started command leaves behind, and the only way it can fail.\<close>

lemma start_command_Inr:
  assumes "start_command os v c s = (Inr u, t)"
  shows "ru_spawned t = Suc (ru_spawned s)" "ru_cwd t = ru_cwd s" "ru_piped t = ru_piped s"
    "ru_procs t = ru_procs s @ [(ru_spawned s, if cm_stdout c = Some To_Pipe then Out_Of (ru_spawned s) else Inherit)]"
proof -
  from assms obtain i s1 out s2 err s3 where st:
      "stdin_of os v c (display v (command_words c) s) = (Inr i, s1)"
      "stdout_of os v c s1 = (Inr out, s2)" "stderr_of os v c s2 = (Inr err, s3)"
      and pop: "popen os \<lparr>sp_argv = cm_argv c, sp_stdin = i, sp_stdout = out, sp_stderr = err, sp_env = proc_env os c,
                  sp_cwd = (if ru_cwd s3 = ''.'' then None else Some (ru_cwd s3))\<rparr> s3 = (Inr u, t)"
    unfolding start_command_def io_bind_eq_Inr by blast
  have "same_procs s s3"
    using streams_same_procs(1) [OF st(1)] streams_same_procs(2) [OF st(2)] streams_same_procs(3) [OF st(3)]
    by (simp add: same_procs_def)
  with pop stdout_of_new_pipe [OF st(2)]
  show "ru_spawned t = Suc (ru_spawned s)" "ru_cwd t = ru_cwd s" "ru_piped t = ru_piped s"
    "ru_procs t = ru_procs s @ [(ru_spawned s, if cm_stdout c = Some To_Pipe then Out_Of (ru_spawned s) else Inherit)]"
    by (auto simp: popen_def same_procs_def Let_def split: if_splits)
qed

lemma start_command_Inl:
  assumes "start_command os v c s = (Inl e, t)" "wf_command c" "ru_piped s \<longrightarrow> ru_procs s \<noteq> []"
  shows "e = OSError"
  using assms
  by (auto simp: start_command_def io_bind_eq_Inl popen_def Let_def dest: streams_fail split: if_splits)

text \<open>The status of a pipeline is that of its last process, whatever the others return.\<close>

lemma wait_all_length [simp]: "length (fst (wait_all os ps tr)) = length ps"
  by (induction os ps tr rule: wait_all.induct) (auto simp: Let_def split: prod.splits)

lemma first_nonzero_last: "rs \<noteq> [] \<Longrightarrow> all = pre @ rs \<Longrightarrow> first_nonzero all rs = last all"
  by (induction rs arbitrary: pre) auto

lemma exec_piped_commands_last:
  assumes "ru_procs s \<noteq> []"
  shows "fst (exec_piped_commands os s) = last (fst (wait_all os (ru_procs s) (ru_trace s)))"
proof -
  obtain rs tr where w: "wait_all os (ru_procs s) (ru_trace s) = (rs, tr)" by fastforce
  then have "length rs = length (ru_procs s)" using wait_all_length by (metis fst_conv)
  with assms have "rs \<noteq> []" by auto
  with w show ?thesis by (simp add: exec_piped_commands_def first_nonzero_last [of rs rs "[]"])
qed

lemma exec_piped_simps [simp]:
  "ru_close (snd (exec_piped_commands os s)) = ru_close s"
  "ru_procs (snd (exec_piped_commands os s)) = ru_procs s"
  "ru_cwd (snd (exec_piped_commands os s)) = ru_cwd s"
  "ru_files (snd (exec_piped_commands os s)) = ru_files s"
  "ru_spawned (snd (exec_piped_commands os s)) = ru_spawned s"
  by (simp_all add: exec_piped_commands_def split: prod.splits)

lemma close_files_simps [simp]:
  "ru_close (close_files s) = []" "ru_procs (close_files s) = ru_procs s"
  "ru_cwd (close_files s) = ru_cwd s" "ru_files (close_files s) = ru_files s"
  "ru_spawned (close_files s) = ru_spawned s"
  by (simp_all add: close_files_def)

lemma next_simps [simp]:
  "ru_spawned (fresh_pipeline s) = ru_spawned s" "ru_piped (fresh_pipeline s) = False"
  "ru_procs (fresh_pipeline s) = []" "ru_close (fresh_pipeline s) = ru_close s"
  "ru_files (fresh_pipeline s) = ru_files s" "ru_trace (fresh_pipeline s) = ru_trace s"
  "ru_spawned (pipe_next s) = ru_spawned s" "ru_piped (pipe_next s) = True"
  "ru_procs (pipe_next s) = ru_procs s" "ru_close (pipe_next s) = ru_close s"
  "ru_files (pipe_next s) = ru_files s" "ru_trace (pipe_next s) = ru_trace s"
  by (simp_all add: fresh_pipeline_def pipe_next_def)

text \<open>One step of the loop for each kind of operator, once the command has started.\<close>

lemma run_loop_command:
  assumes "start_command os v c s = (Inr u, t)"
  shows "run_loop os v [Command c] s = finish os v t"
    "run_loop os v (Command c # Pipe # p) s = run_loop os v p (pipe_next t)"
    "run_loop os v (Command c # And # p) s =
       (let t' = close_files (snd (exec_piped_commands os t)) in
        if v then (Inl UnboundLocalError, t')
        else if fst (exec_piped_commands os t) \<noteq> 0 then (Inr (Some (fst (exec_piped_commands os t))), t')
        else run_loop os v p (fresh_pipeline t'))"
    "run_loop os v (Command c # Or # p) s =
       (let t' = close_files (snd (exec_piped_commands os t)) in
        if v then (Inl UnboundLocalError, t')
        else if fst (exec_piped_commands os t) = 0 then (Inr (Some 0), t')
        else run_loop os v p (fresh_pipeline t'))"
  using assms by (simp_all add: io_bind_def Let_def split: prod.splits)

lemma run_loop_command_fails:
  "start_command os v c s = (Inl e, t) \<Longrightarrow> run_loop os v (Command c # p) s = (Inl e, t)"
  by (simp add: io_bind_def)

lemma finish_value: "\<exists>t'. finish os v t = (Inr (Some (fst (exec_piped_commands os t))), t')"
  by (simp add: finish_def split: prod.splits)

lemma wf_pair_cases:
  assumes "wf_pair n m"
  obtains (pipe) c where "n = Command c" "wf_command c" "m = Pipe" "cm_stdout c = Some To_Pipe"
    | (land) c where "n = Command c" "wf_command c" "m = And" "cm_stdout c \<noteq> Some To_Pipe"
    | (lor) c where "n = Command c" "wf_command c" "m = Or" "cm_stdout c \<noteq> Some To_Pipe"
    | (cd) d where "n = Chdir d" "m = And"
  using assms by (auto simp: wf_pair_def split: shell_node.splits)

lemma run_loop_progress:
  assumes "wf_nodes p" "cds_complete p" "ru_piped s \<longrightarrow> ru_procs s \<noteq> []"
  shows "(\<exists>r. fst (run_loop os False p s) = Inr (Some r)) \<or> fst (run_loop os False p s) = Inl OSError"
  using assms
proof (induction p arbitrary: s rule: wf_nodes.induct)
  case (2 n)
  then obtain c where n: "n = Command c" "wf_command c"
    by (auto simp: wf_last_def split: shell_node.splits)
  obtain r t where st: "start_command os False c s = (r, t)" by fastforce
  show ?case
  proof (cases r)
    case (Inl e)
    with st n 2 start_command_Inl [of os False c s e t] show ?thesis
      by (auto simp del: run_loop.simps simp: run_loop_command_fails)
  next
    case (Inr u)
    with st have "run_loop os False [Command c] s = finish os False t" by (simp only: run_loop_command(1))
    with n finish_value [of os False t] show ?thesis by (auto simp del: run_loop.simps)
  qed
next
  case (3 n m p)
  then have p: "wf_nodes p" "cds_complete p" and wf: "wf_pair n m"
    by (auto elim!: wf_pair_cases)
  show ?case
  proof (cases "\<exists>d. n = Chdir d")
    case True
    with wf "3.prems" obtain d where "n = Chdir (Some d)" "m = And" by (auto elim!: wf_pair_cases)
    with "3.IH" [OF p, of "s\<lparr>ru_cwd := path_join (ru_cwd s) d\<rparr>"] "3.prems" show ?thesis by simp
  next
    case False
    with wf obtain c where n: "n = Command c" "wf_command c" by (auto elim!: wf_pair_cases)
    obtain r t where st: "start_command os False c s = (r, t)" by fastforce
    show ?thesis
    proof (cases r)
      case (Inl e)
      with st n 3 start_command_Inl [of os False c s e t] show ?thesis
        by (auto simp del: run_loop.simps simp: run_loop_command_fails)
    next
      case (Inr u)
      note step = run_loop_command [OF st [unfolded Inr]] and t = start_command_Inr(4) [OF st [unfolded Inr]]
      from wf n show ?thesis
        by (elim wf_pair_cases) (simp_all del: run_loop.simps add: step Let_def "3.IH" [OF p] t)
    qed
  qed
qed auto


section \<open>The status of a list of pipelines\<close>

text \<open>
  The specification: what a POSIX shell does with the same nodes.  \<open>code n\<close> is the status of
  the \<open>n\<close>-th command of the line; an operand after \<open>&&\<close> or \<open>||\<close> is skipped depending on the
  last status, and the list goes on after it; a pipeline has the status of its last command.
\<close>

fun sh_status :: "(nat \<Rightarrow> int) \<Rightarrow> nat \<Rightarrow> bool \<Rightarrow> int \<Rightarrow> shell_node list \<Rightarrow> int" where
  "sh_status code n skip st [] = st"
| "sh_status code n skip st (Command c # p) = sh_status code (Suc n) skip (if skip then st else code n) p"
| "sh_status code n skip st (Chdir d # p) = sh_status code n skip (if skip then st else 0) p"
| "sh_status code n skip st (Pipe # p) = sh_status code n skip st p"
| "sh_status code n skip st (And # p) = sh_status code n (st \<noteq> 0) st p"
| "sh_status code n skip st (Or # p) = sh_status code n (st = 0) st p"

text \<open>What the code does: it returns at the first operand that would be skipped.\<close>

fun stop_status :: "(nat \<Rightarrow> int) \<Rightarrow> nat \<Rightarrow> shell_node list \<Rightarrow> int" where
  "stop_status code n (Command c # And # p) = (if code n \<noteq> 0 then code n else stop_status code (Suc n) p)"
| "stop_status code n (Command c # Or # p) = (if code n = 0 then 0 else stop_status code (Suc n) p)"
| "stop_status code n (Command c # Pipe # p) = stop_status code (Suc n) p"
| "stop_status code n (Chdir d # And # p) = stop_status code n p"
| "stop_status code n p = code n"

text \<open>A system in which every file opens, every process starts and the statuses are \<open>code\<close>.\<close>

definition granting :: "shell_os \<Rightarrow> (nat \<Rightarrow> int) \<Rightarrow> bool" where
  "granting os code \<longleftrightarrow>
     (\<forall>tr f. os_can_read os tr f) \<and> (\<forall>tr f. os_can_write os tr f) \<and>
     (\<forall>tr sp. os_can_spawn os tr sp) \<and> (\<forall>tr n. os_status os tr n = code n)"

lemma wait_all_granting: "granting os code \<Longrightarrow> fst (wait_all os ps tr) = map (code \<circ> fst) ps"
  by (induction os ps tr rule: wait_all.induct) (auto simp: granting_def Let_def split: prod.splits)

lemma streams_granted:
  assumes "granting os code"
  shows "ru_piped s \<longrightarrow> ru_procs s \<noteq> [] \<Longrightarrow> \<exists>i t. stdin_of os v c s = (Inr i, t)"
    "wf_command c \<Longrightarrow> \<exists>i t. stdout_of os v c s = (Inr i, t)"
    "\<exists>i t. stderr_of os v c s = (Inr i, t)"
  using assms
  by (auto simp: stream_defs io_bind_def granting_def wf_command_def split: option.splits redir.splits)

lemma start_command_granted:
  assumes "granting os code" "wf_command c" "ru_piped s \<longrightarrow> ru_procs s \<noteq> []"
  obtains t where "start_command os v c s = (Inr (), t)" "ru_spawned t = Suc (ru_spawned s)"
    "ru_piped t = ru_piped s" "ru_procs t \<noteq> []" "fst (exec_piped_commands os t) = code (ru_spawned s)"
proof -
  obtain i s1 where i: "stdin_of os v c (display v (command_words c) s) = (Inr i, s1)"
    using streams_granted(1) [OF assms(1), where s = "display v (command_words c) s" and v = v and c = c] assms(3)
    by (auto simp only: display_simps)
  obtain out s2 where out: "stdout_of os v c s1 = (Inr out, s2)"
    using streams_granted(2) [OF assms(1,2)] by blast
  obtain err s3 where err: "stderr_of os v c s2 = (Inr err, s3)"
    using streams_granted(3) [OF assms(1)] by blast
  obtain t where t: "start_command os v c s = (Inr (), t)"
    using i out err assms(1) by (auto simp: start_command_def io_bind_def popen_def granting_def Let_def)
  note post = start_command_Inr [OF t]
  have "ru_procs t \<noteq> []" by (simp add: post(4))
  moreover from this have "fst (exec_piped_commands os t) = code (ru_spawned s)"
    by (simp add: exec_piped_commands_last wait_all_granting [OF assms(1)] last_map post(4))
  ultimately show thesis using t post that by blast
qed

lemma run_loop_granted:
  assumes "granting os code" "wf_nodes p" "cds_complete p" "ru_piped s \<longrightarrow> ru_procs s \<noteq> []"
  shows "fst (run_loop os False p s) = Inr (Some (stop_status code (ru_spawned s) p))"
  using assms(2-)
proof (induction p arbitrary: s rule: wf_nodes.induct)
  case (2 n)
  then obtain c where n: "n = Command c" "wf_command c"
    by (auto simp: wf_last_def split: shell_node.splits)
  obtain t where t: "start_command os False c s = (Inr (), t)"
      "fst (exec_piped_commands os t) = code (ru_spawned s)"
    using start_command_granted [OF assms(1) n(2) "2.prems"(3)] by metis
  with n finish_value [of os False t] show ?case
    by (auto simp del: run_loop.simps simp: run_loop_command [OF t(1)])
next
  case (3 n m p)
  then have p: "wf_nodes p" "cds_complete p" and wf: "wf_pair n m"
    by (auto elim!: wf_pair_cases)
  show ?case
  proof (cases "\<exists>d. n = Chdir d")
    case True
    with wf "3.prems" obtain d where "n = Chdir (Some d)" "m = And" by (auto elim!: wf_pair_cases)
    with "3.IH" [OF p, of "s\<lparr>ru_cwd := path_join (ru_cwd s) d\<rparr>"] "3.prems" show ?thesis by simp
  next
    case False
    with wf obtain c where n: "n = Command c" "wf_command c" by (auto elim!: wf_pair_cases)
    obtain t where t: "start_command os False c s = (Inr (), t)" "ru_spawned t = Suc (ru_spawned s)"
        "ru_procs t \<noteq> []" "fst (exec_piped_commands os t) = code (ru_spawned s)"
      using start_command_granted [OF assms(1) n(2) "3.prems"(3)] by metis
    note step = run_loop_command [OF t(1)]
    from wf n show ?thesis
      by (elim wf_pair_cases) (simp_all del: run_loop.simps add: step Let_def "3.IH" [OF p] t)
  qed
qed auto

lemma sh_status_skip: "Or \<notin> set p \<Longrightarrow> st \<noteq> 0 \<Longrightarrow> sh_status code n True st p = st"
  by (induction code n "True" st p rule: sh_status.induct) auto

lemma sh_status_skip': "And \<notin> set p \<Longrightarrow> sh_status code n True 0 p = 0"
  by (induction code n True "0::int" p rule: sh_status.induct) auto

lemma stop_status_and:
  "wf_nodes p \<Longrightarrow> cds_complete p \<Longrightarrow> Or \<notin> set p \<Longrightarrow> stop_status code n p = sh_status code n False st p"
proof (induction p arbitrary: n st rule: wf_nodes.induct)
  case (2 m)
  then show ?case by (auto simp: wf_last_def split: shell_node.splits)
next
  case (3 m k p)
  then have p: "wf_nodes p" "cds_complete p" "Or \<notin> set p" and wf: "wf_pair m k"
    by (auto elim!: wf_pair_cases)
  from wf 3 show ?case
    by (elim wf_pair_cases) (simp_all add: "3.IH" [OF p] sh_status_skip)
qed simp

lemma stop_status_or:
  "wf_nodes p \<Longrightarrow> cds_complete p \<Longrightarrow> And \<notin> set p \<Longrightarrow> stop_status code n p = sh_status code n False st p"
proof (induction p arbitrary: n st rule: wf_nodes.induct)
  case (2 m)
  then show ?case by (auto simp: wf_last_def split: shell_node.splits)
next
  case (3 m k p)
  then have p: "wf_nodes p" "cds_complete p" "And \<notin> set p" and wf: "wf_pair m k"
    by (auto elim!: wf_pair_cases)
  from wf 3 show ?case
    by (elim wf_pair_cases) (simp_all add: "3.IH" [OF p] sh_status_skip')
qed simp


section \<open>Files and messages of a run\<close>

definition opened_files :: "event list \<Rightarrow> nat list" where
  "opened_files tr = concat (map (\<lambda>e. case e of Open_In n f \<Rightarrow> [n] | Open_Out n f \<Rightarrow> [n] | _ \<Rightarrow> []) tr)"

definition closed_files :: "event list \<Rightarrow> nat list" where
  "closed_files tr = concat (map (\<lambda>e. case e of Close n \<Rightarrow> [n] | _ \<Rightarrow> []) tr)"

definition held :: "stream list \<Rightarrow> nat list" where
  "held hs = concat (map (\<lambda>h. case h of Opened n \<Rightarrow> [n] | _ \<Rightarrow> []) hs)"

lemma opened_files_append [simp]: "opened_files (a @ b) = opened_files a @ opened_files b"
  and closed_files_append [simp]: "closed_files (a @ b) = closed_files a @ closed_files b"
  and held_append [simp]: "held (hs @ ks) = held hs @ held ks"
  by (simp_all add: opened_files_def closed_files_def held_def)

lemma event_lists [simp]:
  "opened_files [] = []" "closed_files [] = []" "held [] = []"
  "opened_files [Open_In n f] = [n]" "opened_files [Open_Out n f] = [n]" "opened_files [Spawn n sp] = []"
  "opened_files [Wait n r] = []" "opened_files [Print t] = []"
  "closed_files [Open_In n f] = []" "closed_files [Open_Out n f] = []" "closed_files [Spawn n sp] = []"
  "closed_files [Wait n r] = []" "closed_files [Print t] = []"
  "held [Opened n] = [n]" "held [Dev_Null] = []"
  by (simp_all add: opened_files_def closed_files_def held_def)

lemma closing_events:
  "opened_files (concat (map (\<lambda>h. case h of Opened n \<Rightarrow> [Close n] | _ \<Rightarrow> []) hs)) = []"
  "closed_files (concat (map (\<lambda>h. case h of Opened n \<Rightarrow> [Close n] | _ \<Rightarrow> []) hs)) = held hs"
  by (induction hs) (auto simp: opened_files_def closed_files_def held_def split: stream.splits)

text \<open>The invariant: every file opened so far is closed, or is in the list to close.\<close>

definition files_ok :: "run_state \<Rightarrow> bool" where
  "files_ok s \<longleftrightarrow> opened_files (ru_trace s) = [0..<ru_files s]
     \<and> closed_files (ru_trace s) @ held (ru_close s) = [0..<ru_files s]"

lemma wait_all_files:
  "opened_files (snd (wait_all os ps tr)) = opened_files tr \<and> closed_files (snd (wait_all os ps tr)) = closed_files tr"
  by (induction os ps tr rule: wait_all.induct) (auto simp: Let_def split: prod.splits)

lemma streams_files_ok:
  "files_ok s \<Longrightarrow> stdin_of os v c s = (r, t) \<Longrightarrow> files_ok t"
  "files_ok s \<Longrightarrow> stdout_of os v c s = (r, t) \<Longrightarrow> files_ok t"
  "files_ok s \<Longrightarrow> stderr_of os v c s = (r, t) \<Longrightarrow> files_ok t"
  by (auto simp: files_ok_def stream_defs io_bind_def split: if_splits option.splits redir.splits)

lemma io_bind_keeps:
  assumes "io_bind m f s = (r, t)" "\<And>r t. m s = (r, t) \<Longrightarrow> P t"
    and "\<And>x u r t. P u \<Longrightarrow> f x u = (r, t) \<Longrightarrow> P t"
  shows "P t"
proof (cases "m s")
  case (Pair r' u)
  with assms(2) have "P u" by blast
  with assms Pair show ?thesis by (cases r') (auto simp: io_bind_def)
qed

lemma popen_files_ok: "files_ok s \<Longrightarrow> popen os sp s = (r, t) \<Longrightarrow> files_ok t"
  by (auto simp: files_ok_def popen_def Let_def split: if_splits)

lemma start_command_files_ok:
  assumes "files_ok s" "start_command os v c s = (r, t)"
  shows "files_ok t"
proof -
  have ok: "files_ok (display v (command_words c) s)" using assms(1) by (simp add: files_ok_def)
  show ?thesis
    using assms(2) unfolding start_command_def
    by (rule io_bind_keeps [where P = files_ok])
       (erule streams_files_ok(1) [OF ok], erule io_bind_keeps [where P = files_ok],
        erule (1) streams_files_ok(2), erule io_bind_keeps [where P = files_ok],
        erule (1) streams_files_ok(3), erule (1) popen_files_ok)
qed

lemma exec_files_ok: "files_ok s \<Longrightarrow> files_ok (snd (exec_piped_commands os s))"
  using wait_all_files [of os "ru_procs s" "ru_trace s"]
  by (auto simp: files_ok_def exec_piped_commands_def split: prod.splits)

lemma close_files_ok: "files_ok s \<Longrightarrow> files_ok (close_files s)"
  by (auto simp: files_ok_def close_files_def closing_events)

lemma next_files_ok:
  "files_ok s \<Longrightarrow> files_ok (fresh_pipeline s)" "files_ok s \<Longrightarrow> files_ok (pipe_next s)"
  by (simp_all add: files_ok_def)

lemma finish_files_ok: "files_ok s \<Longrightarrow> files_ok (snd (finish os v s)) \<and> ru_close (snd (finish os v s)) = []"
proof -
  assume "files_ok s"
  then have ok: "files_ok (snd (exec_piped_commands os s))" by (rule exec_files_ok)
  then have "files_ok (emit [Print w] (snd (exec_piped_commands os s)))" for w
    by (simp add: files_ok_def)
  with ok show ?thesis
    by (cases "exec_piped_commands os s") (auto simp: finish_def close_files_ok)
qed

text \<open>An operand in the place of an operator is passed over.\<close>

lemma run_loop_command_other:
  assumes "start_command os v c s = (Inr u, t)"
  shows "run_loop os v (Command c # Command d # p) s = run_loop os v p t"
    "run_loop os v (Command c # Chdir e # p) s = run_loop os v p t"
  using assms by (simp_all add: io_bind_def)

lemma run_loop_files_ok:
  assumes "files_ok s"
  shows "files_ok (snd (run_loop os v p s))
    \<and> (\<forall>r. fst (run_loop os v p s) = Inr (Some r) \<longrightarrow> ru_close (snd (run_loop os v p s)) = [])"
  using assms
proof (induction p arbitrary: s rule: wf_nodes.induct)
  case (2 n)
  show ?case
  proof (cases "\<exists>c. n = Command c")
    case True
    then obtain c where n: "n = Command c" by blast
    obtain r t where st: "start_command os v c s = (r, t)" by fastforce
    note ok = start_command_files_ok [OF 2 st]
    show ?thesis
    proof (cases r)
      case (Inl e)
      with st n ok show ?thesis by (simp del: run_loop.simps add: run_loop_command_fails)
    next
      case (Inr u)
      with n ok show ?thesis
        by (simp del: run_loop.simps add: run_loop_command [OF st [unfolded Inr]] finish_files_ok)
    qed
  next
    case False
    with 2 show ?thesis by (cases n) auto
  qed
next
  case (3 n m p)
  show ?case
  proof (cases "\<exists>c. n = Command c")
    case True
    then obtain c where n: "n = Command c" by blast
    obtain r t where st: "start_command os v c s = (r, t)" by fastforce
    note ok = start_command_files_ok [OF "3.prems" st]
    show ?thesis
    proof (cases r)
      case (Inl e)
      with st n ok show ?thesis by (simp del: run_loop.simps add: run_loop_command_fails)
    next
      case (Inr u)
      note step = run_loop_command [OF st [unfolded Inr]] run_loop_command_other [OF st [unfolded Inr]]
      have ok': "files_ok (close_files (snd (exec_piped_commands os t)))"
        using ok by (intro close_files_ok exec_files_ok)
      show ?thesis
        using ok ok' "3.IH" [OF ok] "3.IH" [OF next_files_ok(2) [OF ok]] "3.IH" [OF next_files_ok(1) [OF ok']]
        by (cases m) (auto simp del: run_loop.simps simp: n step Let_def)
    qed
  next
    case False
    have "files_ok (display v w (s\<lparr>ru_cwd := x\<rparr>))" for w x
      using "3.prems" by (simp add: files_ok_def)
    with False 3 show ?thesis by (cases n) (auto split: option.splits)
  qed
qed auto

text \<open>Whether a conditional operator follows a command.\<close>

fun has_conditional :: "shell_node list \<Rightarrow> bool" where
  "has_conditional (n # m # p) = ((\<exists>c. n = Command c) \<and> m \<in> {And, Or} \<or> has_conditional p)"
| "has_conditional p = False"

lemma run_loop_verbose:
  assumes "granting os code" "wf_nodes p" "cds_complete p" "ru_piped s \<longrightarrow> ru_procs s \<noteq> []"
  shows "fst (run_loop os True p s) =
    (if has_conditional p then Inl UnboundLocalError else Inr (Some (stop_status code (ru_spawned s) p)))"
  using assms(2-)
proof (induction p arbitrary: s rule: wf_nodes.induct)
  case (2 n)
  then obtain c where n: "n = Command c" "wf_command c"
    by (auto simp: wf_last_def split: shell_node.splits)
  obtain t where t: "start_command os True c s = (Inr (), t)"
      "fst (exec_piped_commands os t) = code (ru_spawned s)"
    using start_command_granted [OF assms(1) n(2) "2.prems"(3)] by metis
  with n finish_value [of os True t] show ?case
    by (auto simp del: run_loop.simps simp: run_loop_command [OF t(1)])
next
  case (3 n m p)
  then have p: "wf_nodes p" "cds_complete p" and wf: "wf_pair n m"
    by (auto elim!: wf_pair_cases)
  show ?case
  proof (cases "\<exists>d. n = Chdir d")
    case True
    with wf "3.prems" obtain d where "n = Chdir (Some d)" "m = And" by (auto elim!: wf_pair_cases)
    with "3.IH" [OF p, of "display True (''cd '' @ d @ '' &&'') (s\<lparr>ru_cwd := path_join (ru_cwd s) d\<rparr>)"] "3.prems"
    show ?thesis by simp
  next
    case False
    with wf obtain c where n: "n = Command c" "wf_command c" by (auto elim!: wf_pair_cases)
    obtain t where t: "start_command os True c s = (Inr (), t)" "ru_spawned t = Suc (ru_spawned s)"
        "ru_procs t \<noteq> []" "fst (exec_piped_commands os t) = code (ru_spawned s)"
      using start_command_granted [OF assms(1) n(2) "3.prems"(3)] by metis
    note step = run_loop_command [OF t(1)]
    from wf n show ?thesis
      by (elim wf_pair_cases) (simp_all del: run_loop.simps add: step Let_def "3.IH" [OF p] t)
  qed
qed auto


section \<open>Properties\<close>

text \<open>A system that grants everything, for the witnesses.\<close>

definition granting_os :: "(nat \<Rightarrow> int) \<Rightarrow> shell_os" where
  "granting_os code = \<lparr>os_can_read = (\<lambda>_ _. True), os_can_write = (\<lambda>_ _. True),
     os_can_spawn = (\<lambda>_ _. True), os_status = (\<lambda>_ n. code n), os_environ = []\<rparr>"

lemma granting_granting_os [simp]: "granting (granting_os code) code"
  by (simp add: granting_def granting_os_def)

text \<open>The two lines of the witnesses, as the parser builds them.\<close>

lemma parse_make_and_ls:
  "parse_tokens [''make'', ''>'', ''log'', ''&&'', ''ls''] =
     Inr [Command ((new_command ''make'')\<lparr>cm_stdout := Some (To_File ''log'')\<rparr>), And, Command (new_command ''ls'')]"
  by code_simp

lemma run_fst: "fst (run os v p) = fst (run_loop os v p new_run)"
  and run_snd: "snd (run os v p) = ru_trace (snd (run_loop os v p new_run))"
  by (simp_all add: run_def split: prod.splits)





text \<open>
  With both operators it does not: in \<open>a && b || c\<close> with a failing \<open>a\<close> the run returns the
  status of \<open>a\<close> and never starts \<open>c\<close>, where a shell runs \<open>c\<close> and returns its status.
\<close>

theorem mixed_operators_differ:
  assumes "granting os code" "parse_tokens ts = Inr [Command a, And, Command b, Or, Command c]" "code 0 \<noteq> 0"
  shows "fst (run os False [Command a, And, Command b, Or, Command c]) = Inr (Some (code 0)) \<and>
    sh_status code 0 False 0 [Command a, And, Command b, Or, Command c] = code 2"
  using run_loop_granted [OF assms(1) parse_well_formed [OF assms(2)], of new_run] assms(3)
  by (simp add: run_fst new_run_def numeral_2_eq_2 del: run_loop.simps)

theorem mixed_operators_differ_witness:
  "fst (run (granting_os (\<lambda>n. if n = 0 then 1 else 0)) False
      [Command (new_command ''a''), And, Command (new_command ''b''), Or, Command (new_command ''c'')]) = Inr (Some 1) \<and>
   sh_status (\<lambda>n. if n = 0 then 1 else 0) 0 False 0
      [Command (new_command ''a''), And, Command (new_command ''b''), Or, Command (new_command ''c'')] = 0"
proof -
  have "parse_tokens [''a'', ''&&'', ''b'', ''||'', ''c''] =
      Inr [Command (new_command ''a''), And, Command (new_command ''b''), Or, Command (new_command ''c'')]"
    by code_simp
  from mixed_operators_differ [OF granting_granting_os this, of "\<lambda>n. if n = 0 then 1 else 0"] show ?thesis by simp
qed

text \<open>Whatever the nodes and the answers of the system: when \<open>run\<close> returns a status, each file it
  opened has been closed, once and in the order of opening.
\<close>

theorem run_closes_files:
  assumes "run os v p = (Inr (Some r), tr)"
  shows "closed_files tr = opened_files tr \<and> distinct (opened_files tr)"
proof -
  have "files_ok new_run" by (simp add: files_ok_def new_run_def)
  from run_loop_files_ok [OF this, of os v p] assms show ?thesis
    by (auto simp: run_def files_ok_def split: prod.splits)
qed

theorem run_closes_files_witness:
  "\<exists>r tr. run (granting_os (\<lambda>_. 0)) True [Command ((new_command ''make'')\<lparr>cm_stdout := Some (To_File ''log'')\<rparr>)]
      = (Inr (Some r), tr) \<and> closed_files tr = opened_files tr \<and> opened_files tr = [0]"
proof -
  let ?p = "[Command ((new_command ''make'')\<lparr>cm_stdout := Some (To_File ''log'')\<rparr>)]"
  obtain tr where tr: "run (granting_os (\<lambda>_. 0)) True ?p = (Inr (Some 0), tr)" "opened_files tr = [0]"
    by (simp add: run_def new_run_def start_command_def stream_defs popen_def command_words_def granting_os_def new_command_def io_bind_def finish_def
          exec_piped_commands_def close_files_def emit_def display_def to_close_def opened_files_def)
  with run_closes_files [OF tr(1)] show ?thesis by auto
qed

text \<open>In verbose mode every line with an \<open>&&\<close> or \<open>||\<close> after a command fails: the message printed
  there names the variable \<open>retval\<close>, which only the last branch assigns.
\<close>

theorem verbose_conditional_raises:
  assumes "granting os code" "parse_tokens ts = Inr p" "cds_complete p"
  shows "fst (run os True p) = Inl UnboundLocalError \<longleftrightarrow> has_conditional p"
  using run_loop_verbose [OF assms(1) parse_well_formed [OF assms(2)] assms(3), of new_run]
  by (simp add: run_fst new_run_def)

theorem verbose_conditional_raises_witness:
  "\<exists>p. parse_tokens [''make'', ''>'', ''log'', ''&&'', ''ls''] = Inr p \<and>
    fst (run (granting_os (\<lambda>_. 0)) True p) = Inl UnboundLocalError"
proof -
  let ?p = "[Command ((new_command ''make'')\<lparr>cm_stdout := Some (To_File ''log'')\<rparr>), And, Command (new_command ''ls'')]"
  have "cds_complete ?p" "has_conditional ?p" by simp_all
  with verbose_conditional_raises [OF granting_granting_os parse_make_and_ls, of "\<lambda>_. 0"]
  show ?thesis by (auto simp: parse_make_and_ls)
qed

text \<open>The display of a line leaves every \<open>||\<close> out.\<close>

lemma abbreviation_drops_or:
  "get_abbreviated_command [Command (new_command a), Or, Command (new_command b)] = a @ '' '' @ b"
  by (simp add: get_abbreviated_command_def abbrev_node_def new_command_def)

end
