(* ===== verification/Shell_Print.thy ===== *)
theory Shell_Print
  imports Shell_Cmd
begin

text \<open>
  Printing the nodes of \<^verbatim>\<open>src/waf-tools/shellcmd.py\<close> back into a command line, and the
  proof that the parser of \<^theory_text>\<open>Shell_Cmd\<close> reads the line as the same nodes.
\<close>


definition env_tokens :: "(string \<times> string) list \<Rightarrow> string list" where
  "env_tokens e = map (\<lambda>(k, v). k @ ''='' @ v) e"

definition out_tokens :: "string \<Rightarrow> redir option \<Rightarrow> string list" where
  "out_tokens symbol r =
     (case r of None \<Rightarrow> [] | Some To_Pipe \<Rightarrow> [] | Some To_Stdout \<Rightarrow> [''2>&1''] | Some (To_File f) \<Rightarrow> [symbol, f])"

definition command_tokens :: "command \<Rightarrow> string list" where
  "command_tokens c =
     env_tokens (case cm_env c of None \<Rightarrow> [] | Some e \<Rightarrow> e) @ cm_argv c
     @ (case cm_stdin c of None \<Rightarrow> [] | Some f \<Rightarrow> [''<'', f])
     @ out_tokens ''>'' (cm_stdout c) @ out_tokens ''2>'' (cm_stderr c)"

definition node_tokens :: "shell_node \<Rightarrow> string list" where
  "node_tokens n =
     (case n of
        Command c \<Rightarrow> command_tokens c
      | Chdir d \<Rightarrow> ''cd'' # (case d of None \<Rightarrow> [] | Some d \<Rightarrow> [d])
      | Pipe \<Rightarrow> [''|''] | And \<Rightarrow> [''&&''] | Or \<Rightarrow> [''||''])"

definition pipeline_tokens :: "shell_node list \<Rightarrow> string list" where
  "pipeline_tokens p = concat (map node_tokens p)"

text \<open>What can be written as words: arguments that are no operators, proper assignments.\<close>

definition plain_word :: "string \<Rightarrow> bool" where
  "plain_word t \<longleftrightarrow> t \<notin> {''>'', ''2>'', ''2>&1'', ''<'', ''|'', ''&&'', ''||''}"

definition printable_env :: "(string \<times> string) list \<Rightarrow> bool" where
  "printable_env e \<longleftrightarrow> distinct (map fst e) \<and>
     (\<forall>(k, v) \<in> set e. k \<noteq> [] \<and> list_all is_name_char k \<and> v \<noteq> [] \<and> list_all (\<lambda>c. \<not> is_space c) v)"

definition printable_node :: "shell_node \<Rightarrow> bool" where
  "printable_node n \<longleftrightarrow>
     (case n of
        Command c \<Rightarrow> cm_name c \<noteq> ''cd'' \<and> env_var_match (cm_name c) = None \<and>
          list_all plain_word (tl (cm_argv c)) \<and> (case cm_env c of None \<Rightarrow> True | Some e \<Rightarrow> printable_env e)
      | Chdir d \<Rightarrow> d \<noteq> Some ''&&''
      | _ \<Rightarrow> True)"

lemma re_plus_all:
  assumes "k \<noteq> []" "list_all P k" "r = [] \<or> \<not> P (hd r)"
  shows "re_plus P (k @ r) = Some (k, r)"
proof -
  have "takeWhile P (k @ r) = k" "dropWhile P (k @ r) = r"
    using assms by (cases r; simp add: list_all_iff takeWhile_append dropWhile_append)+
  with assms(1) show ?thesis by (cases k) (simp_all add: re_plus_def)
qed

lemma env_var_match_assignment:
  assumes "k \<noteq> []" "list_all is_name_char k" "v \<noteq> []" "list_all (\<lambda>c. \<not> is_space c) v"
  shows "env_var_match (k @ ''='' @ v) = Some (k, v)"
proof -
  have "re_plus is_name_char (k @ ''='' @ v) = Some (k, ''='' @ v)"
    by (rule re_plus_all) (use assms in \<open>auto simp: is_name_char_def\<close>)
  moreover have "re_plus (\<lambda>c. \<not> is_space c) v = Some (v, [])"
    using re_plus_all [of v "\<lambda>c. \<not> is_space c" "[]"] assms by simp
  ultimately show ?thesis by (simp add: env_var_match_def)
qed

lemma dict_set_new: "k \<notin> fst ` set d \<Longrightarrow> dict_set k v d = d @ [(k, v)]"
  by (induction d) auto

lemma parse_loop_append: "parse_loop (ts @ us) = (\<lambda>p. res_bind (parse_loop ts p) (parse_loop us))"
  by (induction ts) (auto intro!: ext simp: res_bind_assoc)

lemma parse_env_tokens:
  assumes "pa_state p = BEGIN" "printable_env (pa_env p @ e)"
  shows "parse_loop (env_tokens e) p = Inr (p\<lparr>pa_env := pa_env p @ e\<rparr>)"
  using assms
proof (induction e arbitrary: p)
  case Nil
  then show ?case by (simp add: env_tokens_def)
next
  case (Cons a e)
  obtain k v where a: "a = (k, v)" by fastforce
  with Cons.prems have kv: "k \<noteq> []" "list_all is_name_char k" "v \<noteq> []" "list_all (\<lambda>c. \<not> is_space c) v"
      and new: "k \<notin> fst ` set (pa_env p)"
    by (auto simp: printable_env_def)
  have "parse_step (k @ ''='' @ v) p = Inr (p\<lparr>pa_env := pa_env p @ [a]\<rparr>)"
    using Cons.prems new a
    by (simp only: parse_step_def step_begin_def env_var_match_assignment [OF kv]) (simp add: dict_set_new)
  moreover have "parse_loop (env_tokens e) (p\<lparr>pa_env := pa_env p @ [a]\<rparr>) = Inr (p\<lparr>pa_env := pa_env p @ a # e\<rparr>)"
    using Cons.IH [of "p\<lparr>pa_env := pa_env p @ [a]\<rparr>"] Cons.prems by simp
  ultimately show ?case by (simp add: env_tokens_def a)
qed

lemma parse_plain_words:
  assumes "pa_state p = COMMAND" "pa_current p = Some (Command c)" "list_all plain_word ws"
  shows "parse_loop ws p = Inr (p\<lparr>pa_current := Some (Command (c\<lparr>cm_argv := cm_argv c @ ws\<rparr>))\<rparr>)"
  using assms
proof (induction ws arbitrary: p c)
  case Nil
  then show ?case by (cases p) simp
next
  case (Cons w ws)
  let ?p = "p\<lparr>pa_current := Some (Command (c\<lparr>cm_argv := cm_argv c @ [w]\<rparr>))\<rparr>"
  have "parse_step w p = Inr ?p"
    using Cons.prems by (simp add: parse_step_def step_command_def on_command_def plain_word_def)
  with Cons.IH [of ?p "c\<lparr>cm_argv := cm_argv c @ [w]\<rparr>"] Cons.prems show ?case by simp
qed

text \<open>The three redirections; a pipe is written by the operator that follows.\<close>

lemma parse_redirections:
  assumes "pa_state p = COMMAND" "pa_current p = Some (Command c)"
  shows "cm_stdin c = None \<Longrightarrow> parse_loop (case i of None \<Rightarrow> [] | Some f \<Rightarrow> [''<'', f]) p =
      Inr (p\<lparr>pa_current := Some (Command (c\<lparr>cm_stdin := i\<rparr>))\<rparr>)"
    "cm_stdout c = None \<Longrightarrow> out \<noteq> Some To_Stdout \<Longrightarrow> parse_loop (out_tokens ''>'' out) p =
      Inr (p\<lparr>pa_current := Some (Command (c\<lparr>cm_stdout := if out = Some To_Pipe then None else out\<rparr>))\<rparr>)"
    "cm_stderr c = None \<Longrightarrow> err \<noteq> Some To_Pipe \<Longrightarrow> parse_loop (out_tokens ''2>'' err) p =
      Inr (p\<lparr>pa_current := Some (Command (c\<lparr>cm_stderr := err\<rparr>))\<rparr>)"
  using assms
  by (cases p; cases c; auto simp: out_tokens_def parse_step_def step_command_def step_stdin_def step_stdout_def
       step_stderr_def on_command_def split: option.splits redir.splits)+

definition unpiped :: "command \<Rightarrow> command" where
  "unpiped c = (if cm_stdout c = Some To_Pipe then c\<lparr>cm_stdout := None\<rparr> else c)"

lemma parse_command_tokens:
  assumes p: "pa_state p = BEGIN" "pa_current p = None" "pa_env p = []"
    and c: "wf_command c" "printable_node (Command c)"
  shows "parse_loop (command_tokens c) p =
    Inr (p\<lparr>pa_state := COMMAND, pa_current := Some (Command (unpiped c))\<rparr>)"
proof -
  let ?e = "case cm_env c of None \<Rightarrow> [] | Some e \<Rightarrow> e"
  let ?c = "(new_command (cm_name c))\<lparr>cm_env := cm_env c\<rparr>"
  let ?q = "p\<lparr>pa_state := COMMAND, pa_current := Some (Command ?c)\<rparr>"
  obtain w ws where argv: "cm_argv c = w # ws" "w = cm_name c"
    using c(1) by (cases "cm_argv c") (auto simp: wf_command_def)
  have "printable_env ?e"
    using c(2) by (auto simp: printable_node_def printable_env_def split: option.splits)
  then have 1: "parse_loop (env_tokens ?e) p = Inr (p\<lparr>pa_env := ?e\<rparr>)"
    using parse_env_tokens [of p ?e] p by simp
  have "(if ?e = [] then None else Some ?e) = cm_env c"
    using c(1) by (auto simp: wf_command_def split: option.splits)
  then have 2: "parse_step w (p\<lparr>pa_env := ?e\<rparr>) = Inr ?q"
    using p c(2) argv by (auto simp: parse_step_def step_begin_def printable_node_def)
  have 3: "parse_loop ws ?q = Inr (?q\<lparr>pa_current := Some (Command (?c\<lparr>cm_argv := cm_argv c\<rparr>))\<rparr>)"
    using parse_plain_words [of ?q ?c ws] c(2) argv by (simp add: printable_node_def new_command_def)
  have "parse_loop (command_tokens c) p =
      Inr (?q\<lparr>pa_current := Some (Command (?c\<lparr>cm_argv := cm_argv c, cm_stdin := cm_stdin c,
        cm_stdout := if cm_stdout c = Some To_Pipe then None else cm_stdout c, cm_stderr := cm_stderr c\<rparr>))\<rparr>)"
    using c(1) 1 2 3
    by (simp add: command_tokens_def parse_loop_append argv(1) parse_redirections new_command_def
          wf_command_def del: parse_loop.simps(1))
  then show ?thesis
    by (cases p; cases c) (auto simp: unpiped_def new_command_def)
qed


lemma parse_pair:
  assumes p: "pa_state p = BEGIN" "pa_current p = None" "pa_env p = []"
    and n: "wf_pair n m" "printable_node n" "cds_complete [n, m]"
  shows "parse_loop (node_tokens n @ node_tokens m) p = Inr (p\<lparr>pa_pipeline := pa_pipeline p @ [n, m]\<rparr>)"
  using n(1)
proof (cases rule: wf_pair_cases)
  case (cd d)
  with n p show ?thesis
    by (cases p) (auto simp: node_tokens_def parse_step_def step_begin_def step_chdir_def commit_op_def
          commit_command_def env_var_match_def re_plus_def is_name_char_def printable_node_def split: if_splits)
qed (use n p in \<open>cases p; auto simp: node_tokens_def parse_loop_append parse_command_tokens parse_step_def
        step_command_def on_command_def commit_op_def commit_command_def unpiped_def\<close>)+

lemma parse_pipeline_tokens:
  assumes "pa_state p = BEGIN" "pa_current p = None" "pa_env p = []"
    and "wf_nodes ns" "cds_complete ns" "list_all printable_node ns"
  shows "res_bind (parse_loop (pipeline_tokens ns) p) commit_command =
    Inr (p\<lparr>pa_pipeline := pa_pipeline p @ ns, pa_state := COMMAND\<rparr>)"
  using assms
proof (induction ns arbitrary: p rule: wf_nodes.induct)
  case (2 n)
  then obtain c where n: "n = Command c" "wf_command c" "unpiped c = c"
    by (auto simp: wf_last_def unpiped_def split: shell_node.splits)
  with 2 show ?case
    by (cases p) (simp add: pipeline_tokens_def node_tokens_def parse_command_tokens commit_command_def)
next
  case (3 n m ns)
  let ?p = "p\<lparr>pa_pipeline := pa_pipeline p @ [n, m]\<rparr>"
  have "wf_pair n m" "cds_complete [n, m]" "cds_complete ns" "wf_nodes ns"
    using "3.prems" by (auto elim!: wf_pair_cases)
  with 3 have "parse_loop (node_tokens n @ node_tokens m) p = Inr ?p"
    by (intro parse_pair) auto
  moreover have "res_bind (parse_loop (pipeline_tokens ns) ?p) commit_command =
      Inr (?p\<lparr>pa_pipeline := pa_pipeline ?p @ ns, pa_state := COMMAND\<rparr>)"
    using "3.prems" \<open>cds_complete ns\<close> by (intro "3.IH") auto
  ultimately show ?case
    using parse_loop_append [of "node_tokens n @ node_tokens m" "pipeline_tokens ns"]
    by (simp add: pipeline_tokens_def)
qed auto

text \<open>Words in single quotes.\<close>

definition quote :: "string \<Rightarrow> string" where
  "quote t = SQ # t @ [SQ]"

lemma shlex_quoted: "SQ \<notin> set t \<Longrightarrow> shlex_loop (Quoted SQ) q a (t @ SQ # r) = shlex_loop Word True (a @ t) r"
  by (induction t arbitrary: a q) auto

lemma shlex_split_quotes:
  "(\<And>t. t \<in> set ts \<Longrightarrow> SQ \<notin> set t) \<Longrightarrow> shlex_split (join '' '' (map quote ts)) = Inr ts"
proof (induction ts rule: induct_list012)
  case (2 t)
  then show ?case by (simp add: shlex_split_def quote_def is_lex_space_def shlex_quoted)
next
  case (3 t u ts)
  then have "shlex_loop Blank False [] (join '' '' (map quote (u # ts))) = Inr (u # ts)"
    by (simp add: shlex_split_def)
  with 3 show ?case by (simp add: shlex_split_def quote_def [of t] is_lex_space_def shlex_quoted)
qed (simp add: shlex_split_def)


text \<open>C24: a well formed pipeline, printed as words in single quotes, is parsed as itself: lexer and
  parser lose nothing of a command's arguments, assignments and redirections.
\<close>

theorem shell_parse_print:
  assumes "wf_nodes p" "cds_complete p" "list_all printable_node p"
    and "\<forall>t \<in> set (pipeline_tokens p). SQ \<notin> set t"
  shows "parse (join '' '' (map quote (pipeline_tokens p))) = Inr p"
proof -
  have "res_bind (parse_loop (pipeline_tokens p) new_parser) commit_command =
      Inr (new_parser\<lparr>pa_pipeline := p, pa_state := COMMAND\<rparr>)"
    using parse_pipeline_tokens [of new_parser p] assms by (simp add: new_parser_def)
  then have "parse_tokens (pipeline_tokens p) = Inr p"
    unfolding parse_tokens_def by (simp flip: res_bind_assoc)
  moreover have "shlex_split (join '' '' (map quote (pipeline_tokens p))) = Inr (pipeline_tokens p)"
    using assms(4) by (intro shlex_split_quotes) blast
  ultimately show ?thesis by (simp add: parse_def)
qed

theorem shell_parse_print_witness:
  "parse (join '' '' (map quote [''CC=gcc'', ''make'', ''all'', ''>'', ''log'', ''&&'', ''ls''])) =
     Inr [Command ((new_command ''make'')\<lparr>cm_argv := [''make'', ''all''], cm_stdout := Some (To_File ''log''),
            cm_env := Some [(''CC'', ''gcc'')]\<rparr>), And, Command (new_command ''ls'')]"
proof -
  let ?p = "[Command ((new_command ''make'')\<lparr>cm_argv := [''make'', ''all''], cm_stdout := Some (To_File ''log''),
      cm_env := Some [(''CC'', ''gcc'')]\<rparr>), And, Command (new_command ''ls'')]"
  have ok: "wf_nodes ?p" "cds_complete ?p" "list_all printable_node ?p" by code_simp+
  have tokens: "pipeline_tokens ?p = [''CC=gcc'', ''make'', ''all'', ''>'', ''log'', ''&&'', ''ls'']" by code_simp
  have "\<forall>t \<in> set (pipeline_tokens ?p). SQ \<notin> set t" unfolding tokens by simp
  from shell_parse_print [OF ok this] show ?thesis unfolding tokens .
qed

end
