(* ===== verification/Waf_Run.thy ===== *)
theory Waf_Run
  imports Shell_Print
begin

text \<open>
  \<^verbatim>\<open>src/wutils.py\<close>: how \<open>waf --run\<close> finds a program and executes it.  What waf holds (task
  generators, the configuration, the options) is the record \<open>waf\<close>; the target node that waf
  declares for a generator is a field of the generator.  The process is the parameter \<open>proc\<close>
  from a request to its exit code and error output, or the exception of the system.
\<close>

section \<open>State of the build\<close>

record task_gen =
  tg_name :: string
  tg_is_program :: bool
  tg_path :: string
  tg_bld_path :: string
  tg_node :: string

record waf =
  wf_gens :: "task_gen list"
  wf_launch_dir :: string
  wf_platform :: string
  wf_environ :: "(string \<times> string) list"
  wf_module_path :: "string list"
  wf_exec_path :: "string list"
  wf_pymoddir :: string
  wf_pyvizdir :: string
  wf_valgrind :: "string list"
  wf_python :: "string list"
  wf_signals :: "(string \<times> int) list"
  wo_command_template :: string
  wo_valgrind :: bool
  wo_gdb :: bool
  wo_cwd_launch :: "string option"
  wo_default_cwd :: string

datatype waf_error =
    Conflict string string
  | No_Valgrind
  | Raised "string list"
  | Signalled "string list" string
  | Exited "string list" int
  | Not_Found string "string list"
  | Python exn

type_synonym 'a waf_res = "waf_error + 'a"

definition waf_bind :: "'a waf_res \<Rightarrow> ('a \<Rightarrow> 'b waf_res) \<Rightarrow> 'b waf_res" where
  "waf_bind m f = (case m of Inl e \<Rightarrow> Inl e | Inr x \<Rightarrow> f x)"

definition of_python :: "'a res \<Rightarrow> 'a waf_res" where
  "of_python m = (case m of Inl e \<Rightarrow> Inl (Python e) | Inr x \<Rightarrow> Inr x)"

definition get_command_template :: "waf \<Rightarrow> string list \<Rightarrow> string" where
  "get_command_template w arguments =
     foldl (\<lambda>cmd arg. cmd @ '' '' @ arg) (if wo_command_template w = [] then ''%s'' else wo_command_template w) arguments"

section \<open>Finding a program\<close>

text \<open>
  \<open>os.path.relpath\<close> of absolute normal paths, and the version for old Pythons, which does not
  leave out the empty component of the root.
\<close>

fun common_length :: "'a list \<Rightarrow> 'a list \<Rightarrow> nat" where
  "common_length (a # as) (b # bs) = (if a = b then Suc (common_length as bs) else 0)"
| "common_length _ _ = 0"

definition rel_list :: "string list \<Rightarrow> string list \<Rightarrow> string list" where
  "rel_list start_list path_list =
     (let i = common_length start_list path_list in
      replicate (length start_list - i) ''..'' @ drop i path_list)"

definition rel_text :: "string list \<Rightarrow> string" where
  "rel_text r = (case r of [] \<Rightarrow> ''.'' | x # xs \<Rightarrow> foldl path_join x xs)"

definition relpath :: "string \<Rightarrow> string \<Rightarrow> string" where
  "relpath path start =
     rel_text (rel_list (filter (\<lambda>x. x \<noteq> []) (split_on CHR ''/'' start))
                        (filter (\<lambda>x. x \<noteq> []) (split_on CHR ''/'' path)))"

definition relpath_old :: "string \<Rightarrow> string \<Rightarrow> string res" where
  "relpath_old path start =
     (if path = [] then Inl ValueError
      else Inr (rel_text (rel_list (split_on CHR ''/'' start) (split_on CHR ''/'' path))))"

definition in_launch_dir :: "waf \<Rightarrow> task_gen \<Rightarrow> bool" where
  "in_launch_dir w obj \<longleftrightarrow>
     startswith (tg_path obj) (wf_launch_dir w) \<or> startswith (tg_bld_path obj) (wf_launch_dir w)"

definition program_names :: "waf \<Rightarrow> task_gen \<Rightarrow> string list" where
  "program_names w obj =
     [tg_name obj, path_join (relpath (tg_path obj) (wf_launch_dir w)) (tg_name obj)]"

fun find_gen :: "waf \<Rightarrow> string \<Rightarrow> task_gen list \<Rightarrow> string list \<Rightarrow> task_gen waf_res" where
  "find_gen w name [] found_programs = Inl (Not_Found name found_programs)"
| "find_gen w name (obj # objs) found_programs =
     (if \<not> tg_is_program obj \<or> \<not> in_launch_dir w obj then find_gen w name objs found_programs
      else if name \<in> set (program_names w obj) then Inr obj
      else find_gen w name objs (found_programs @ program_names w obj))"

definition find_program :: "waf \<Rightarrow> string \<Rightarrow> task_gen waf_res" where
  "find_program w name = find_gen w name (wf_gens w) []"

section \<open>The environment of a process\<close>

definition pathsep :: "waf \<Rightarrow> string" where
  "pathsep w = (if wf_platform w = ''win32'' then '';'' else '':'')"

definition library_pathvar :: "waf \<Rightarrow> string" where
  "library_pathvar w =
     (if wf_platform w = ''linux2'' \<or> wf_platform w = ''linux'' then ''LD_LIBRARY_PATH''
      else if wf_platform w = ''darwin'' then ''DYLD_LIBRARY_PATH''
      else if wf_platform w = ''win32'' then ''PATH''
      else if wf_platform w = ''cygwin'' then ''PATH''
      else ''LD_LIBRARY_PATH'')"

definition dict_update :: "('k \<times> 'v) list \<Rightarrow> ('k \<times> 'v) list \<Rightarrow> ('k \<times> 'v) list" where
  "dict_update d e = foldl (\<lambda>d (k, v). dict_set k v d) d e"

definition extend_path :: "waf \<Rightarrow> string \<Rightarrow> string list \<Rightarrow> (string \<times> string) list \<Rightarrow> (string \<times> string) list" where
  "extend_path w var dirs penv =
     (case map_of penv var of
        Some old \<Rightarrow> dict_set var (join (pathsep w) (dirs @ [old])) penv
      | None \<Rightarrow> dict_set var (join (pathsep w) dirs) penv)"

definition get_proc_env :: "waf \<Rightarrow> (string \<times> string) list option \<Rightarrow> (string \<times> string) list" where
  "get_proc_env w os_env =
     (let penv = (case os_env of None \<Rightarrow> wf_environ w | Some e \<Rightarrow> dict_update (wf_environ w) e);
          penv = extend_path w (library_pathvar w) (wf_module_path w) penv;
          penv = extend_path w ''PYTHONPATH'' [wf_pymoddir w, wf_pyvizdir w] penv
      in extend_path w ''PATH'' (wf_exec_path w) penv)"

section \<open>Running a process\<close>

record request =
  rq_argv :: "string list"
  rq_env :: "(string \<times> string) list"
  rq_cwd :: "string option"
  rq_pipe_stderr :: bool

type_synonym process = "request \<Rightarrow> (int \<times> string) res"

text \<open>The name under which \<open>signal\<close> lists the number of a signal.\<close>

definition signal_name :: "waf \<Rightarrow> int \<Rightarrow> string option" where
  "signal_name w retval =
     (if retval < 0 then
        map_option fst (find (\<lambda>(name, v). length name > 3 \<and> take 3 name = ''SIG'' \<and> name ! 3 \<noteq> CHR ''_''
                                        \<and> v = - retval) (wf_signals w))
      else None)"

definition check_retval :: "waf \<Rightarrow> string list \<Rightarrow> int \<Rightarrow> int waf_res" where
  "check_retval w argv retval =
     (if retval \<noteq> 0 then
        (case signal_name w retval of
           Some s \<Rightarrow> Inl (Signalled argv s)
         | None \<Rightarrow> Inl (Exited argv retval))
      else Inr retval)"

text \<open>
  \<open>run_argv\<close>: the result and the requests made.  Iterating over the decoded error output
  gives its characters.
\<close>

definition run_argv ::
  "waf \<Rightarrow> process \<Rightarrow> string list \<Rightarrow> (string \<times> string) list option \<Rightarrow> string option \<Rightarrow> bool \<Rightarrow>
   int waf_res \<times> request list" where
  "run_argv w proc argv os_env cwd force_no_valgrind =
     (let rq = \<lparr>rq_argv = argv, rq_env = get_proc_env w os_env, rq_cwd = cwd, rq_pipe_stderr = False\<rparr> in
      if wo_valgrind w \<and> wo_command_template w \<noteq> [] then (Inl (Conflict ''--command-template'' ''--valgrind''), [])
      else if wo_gdb w \<and> wo_command_template w \<noteq> [] then (Inl (Conflict ''--command-template'' ''--gdb''), [])
      else if wo_gdb w \<and> wo_valgrind w then (Inl (Conflict ''--valgrind'' ''--gdb''), [])
      else if wo_gdb w then
        (let rq = rq\<lparr>rq_argv := [''gdb'', ''--args''] @ argv\<rparr> in
         (waf_bind (of_python (proc rq)) (\<lambda>(retval, err). Inr retval), [rq]))
      else if wo_valgrind w \<and> \<not> force_no_valgrind then
        (case wf_valgrind w of
           [] \<Rightarrow> (Inl No_Valgrind, [])
         | v # _ \<Rightarrow>
             (let argv = [v, ''--leak-check=full'', ''--show-reachable=yes'', ''--error-exitcode=1''] @ argv;
                  rq = rq\<lparr>rq_argv := argv, rq_pipe_stderr := True\<rparr> in
              (waf_bind (of_python (proc rq)) (\<lambda>(retval, err).
                 let error = list_ex (\<lambda>c. substr_in ''== LEAK SUMMARY'' [c]) err;
                     retval = (if retval = 0 \<and> error then 1 else retval)
                 in check_retval w argv retval), [rq])))
      else
        ((case proc rq of
            Inl OSError \<Rightarrow> if wf_platform w = ''win32'' then Inl (Raised argv) else Inl (Python OSError)
          | Inl e \<Rightarrow> Inl (Python e)
          | Inr (retval, err) \<Rightarrow> check_retval w argv retval), [rq]))"

section \<open>The program of a command line\<close>

text \<open>\<open>name.rsplit('.', 1)[0]\<close> of a name that ends in \<open>.cc\<close>.\<close>

definition strip_cc :: "string \<Rightarrow> string" where
  "strip_cc name = (if endswith name ''.cc'' then take (length name - 3) name else name)"

text \<open>
  \<open>template % (path,)\<close> for templates whose conversions are \<open>%s\<close> and \<open>%%\<close>; any other is refused.
  The second argument counts the conversions done.
\<close>

fun percent_loop :: "string \<Rightarrow> nat \<Rightarrow> string \<Rightarrow> string res" where
  "percent_loop a n [] = (if n = 1 then Inr [] else Inl TypeError)"
| "percent_loop a n (c # s) =
     (if c = CHR ''%'' then
        (case s of
           [] \<Rightarrow> Inl ValueError
         | d # s' \<Rightarrow>
             if d = CHR ''%'' then res_bind (percent_loop a n s') (\<lambda>r. Inr (CHR ''%'' # r))
             else if d = CHR ''s'' then
               (if n = 0 then res_bind (percent_loop a 1 s') (\<lambda>r. Inr (a @ r)) else Inl TypeError)
             else Inl ValueError)
      else res_bind (percent_loop a n s) (\<lambda>r. Inr (c # r)))"

definition percent_format :: "string \<Rightarrow> string \<Rightarrow> string res" where
  "percent_format template a = percent_loop a 0 template"

definition double_backslashes :: "string \<Rightarrow> string" where
  "double_backslashes s = concat (map (\<lambda>c. if c = BSL then [BSL, BSL] else [c]) s)"

definition get_run_program :: "waf \<Rightarrow> string \<Rightarrow> string option \<Rightarrow> (string \<times> string list) waf_res" where
  "get_run_program w program_string command_template =
     (if command_template = None \<or> command_template = Some ''%s'' then
        waf_bind (of_python (shlex_split program_string)) (\<lambda>argv.
        case argv of
          [] \<Rightarrow> Inl (Python IndexError)
        | a # args \<Rightarrow>
            waf_bind (find_program w (strip_cc a)) (\<lambda>obj.
            Inr (strip_cc a, tg_node obj # args)))
      else
        waf_bind (find_program w (strip_cc program_string)) (\<lambda>obj.
        waf_bind (of_python (percent_format (the command_template) (tg_node obj))) (\<lambda>tmpl.
        waf_bind (of_python (shlex_split (double_backslashes tmpl))) (\<lambda>execvec.
        Inr (strip_cc program_string, execvec)))))"

definition launch_cwd :: "waf \<Rightarrow> string" where
  "launch_cwd w = (case wo_cwd_launch w of
     Some d \<Rightarrow> if d = [] then wo_default_cwd w else d | None \<Rightarrow> wo_default_cwd w)"

definition visual_option :: string where
  "visual_option = ''--SimulatorImplementationType=ns3::VisualSimulatorImpl''"

definition run_program ::
  "waf \<Rightarrow> process \<Rightarrow> string \<Rightarrow> string option \<Rightarrow> string option \<Rightarrow> bool \<Rightarrow> int waf_res \<times> request list" where
  "run_program w proc program_string command_template cwd visualize =
     (case get_run_program w program_string command_template of
        Inl e \<Rightarrow> (Inl e, [])
      | Inr (name, execvec) \<Rightarrow>
          run_argv w proc (if visualize then execvec @ [visual_option] else execvec) None
            (Some (case cwd of None \<Rightarrow> launch_cwd w | Some d \<Rightarrow> d)) False)"

definition run_python_program ::
  "waf \<Rightarrow> process \<Rightarrow> string \<Rightarrow> bool \<Rightarrow> int waf_res \<times> request list" where
  "run_python_program w proc program_string visualize =
     (case of_python (shlex_split program_string) of
        Inl e \<Rightarrow> (Inl e, [])
      | Inr execvec \<Rightarrow>
          (case wf_python w of
             [] \<Rightarrow> (Inl (Python IndexError), [])
           | p # _ \<Rightarrow>
               run_argv w proc (p # (if visualize then execvec @ [visual_option] else execvec)) None
                 (Some (launch_cwd w)) False))"

text \<open>The list comprehension of \<open>uniquify_list\<close>, with its set.\<close>

fun uniquify_seen :: "'a set \<Rightarrow> 'a list \<Rightarrow> 'a list" where
  "uniquify_seen seen [] = []"
| "uniquify_seen seen (x # xs) =
     (if x \<in> seen then uniquify_seen seen xs else x # uniquify_seen (insert x seen) xs)"

definition uniquify_list :: "'a list \<Rightarrow> 'a list" where
  "uniquify_list seq = uniquify_seen {} seq"


section \<open>Properties\<close>

definition candidate :: "waf \<Rightarrow> task_gen \<Rightarrow> bool" where
  "candidate w obj \<longleftrightarrow> tg_is_program obj \<and> in_launch_dir w obj"

lemma find_gen_spec:
  "find_gen w name gens found =
     (case find (\<lambda>g. candidate w g \<and> name \<in> set (program_names w g)) gens of
        Some g \<Rightarrow> Inr g
      | None \<Rightarrow> Inl (Not_Found name (found @ concat (map (program_names w) (filter (candidate w) gens)))))"
  by (induction gens arbitrary: found) (auto simp: candidate_def split: option.splits)

text \<open>
  \<open>find_program\<close> returns the first program of the launch directory that has the name, bare or
  with its path from the launch directory; otherwise it fails and reports the two names of
  each program there.
\<close>

theorem find_program_first:
  "find_program w name =
     (case find (\<lambda>g. candidate w g \<and> name \<in> set (program_names w g)) (wf_gens w) of
        Some g \<Rightarrow> Inr g
      | None \<Rightarrow> Inl (Not_Found name (concat (map (program_names w) (filter (candidate w) (wf_gens w))))))"
  by (simp only: find_program_def find_gen_spec append_Nil)

text \<open>A sibling directory whose name extends that of the launch directory counts as below it.\<close>

lemma launch_dir_matches_sibling:
  "in_launch_dir (w\<lparr>wf_launch_dir := ''/ns3/src''\<rparr>) (g\<lparr>tg_path := ''/ns3/src-old''\<rparr>)"
  by (simp add: in_launch_dir_def startswith_def)

lemma relpath_tail:
  "rel_list (x # start) (x # path) = rel_list start path"
  by (simp add: rel_list_def Let_def)

lemma split_path:
  assumes "cs \<noteq> []" "list_all (\<lambda>c. c \<noteq> [] \<and> CHR ''/'' \<notin> set c) cs"
  shows "split_on CHR ''/'' (CHR ''/'' # join ''/'' cs) = [] # cs"
  using assms split_on_join [of cs "CHR ''/''"] by (auto simp: list_all_iff)

text \<open>For absolute normal paths other than the root the two versions of \<open>relpath\<close> agree.\<close>

lemma relpath_versions_agree:
  assumes "cs \<noteq> []" "list_all (\<lambda>c. c \<noteq> [] \<and> CHR ''/'' \<notin> set c) cs"
    and "ds \<noteq> []" "list_all (\<lambda>c. c \<noteq> [] \<and> CHR ''/'' \<notin> set c) ds"
  shows "relpath_old (CHR ''/'' # join ''/'' cs) (CHR ''/'' # join ''/'' ds) =
    Inr (relpath (CHR ''/'' # join ''/'' cs) (CHR ''/'' # join ''/'' ds))"
proof -
  have f: "filter (\<lambda>x. x \<noteq> []) ([] # as) = as" if "list_all (\<lambda>c. c \<noteq> [] \<and> CHR ''/'' \<notin> set c) as" for as
    using that by (auto simp: list_all_iff)
  show ?thesis
    unfolding relpath_old_def relpath_def split_path [OF assms(1,2)] split_path [OF assms(3,4)]
      f [OF assms(2)] f [OF assms(4)] relpath_tail by simp
qed

lemma relpath_old_root: "relpath_old ''/a'' ''/'' = Inr ''../a'' \<and> relpath ''/a'' ''/'' = ''a''"
  by (simp add: relpath_old_def relpath_def rel_list_def rel_text_def path_join_def startswith_def endswith_def)

text \<open>What the environment of a process says: three search paths are extended at the front.\<close>

definition extended :: "waf \<Rightarrow> string list \<Rightarrow> string option \<Rightarrow> string" where
  "extended w dirs old = join (pathsep w) (dirs @ (case old of None \<Rightarrow> [] | Some s \<Rightarrow> [s]))"

lemma map_of_extend_path:
  "map_of (extend_path w var dirs e) k = (if k = var then Some (extended w dirs (map_of e var)) else map_of e k)"
  by (simp add: extend_path_def extended_def split: option.splits)

lemma map_of_dict_update:
  "map_of (dict_update d e) k = (case map_of (rev e) k of None \<Rightarrow> map_of d k | Some v \<Rightarrow> Some v)"
  by (induction e arbitrary: d) (auto simp: dict_update_def map_add_def split: option.splits)

text \<open>
  The process sees the environment of waf, overridden by that of the call, with the module
  path, the Python directories and the executable path in front of what the three search
  variables held; where the library path is \<open>PATH\<close> itself, both go into it.
\<close>

theorem get_proc_env_extends:
  fixes w :: waf and os_env :: "(string \<times> string) list option"
  defines "old k \<equiv> (case map_of (rev (case os_env of None \<Rightarrow> [] | Some e \<Rightarrow> e)) k of
                      None \<Rightarrow> map_of (wf_environ w) k | Some v \<Rightarrow> Some v)"
  shows "map_of (get_proc_env w os_env) k =
    (if k = ''PYTHONPATH'' then Some (extended w [wf_pymoddir w, wf_pyvizdir w] (old k))
     else if k = ''PATH'' then
       Some (extended w (wf_exec_path w)
         (if library_pathvar w = ''PATH'' then Some (extended w (wf_module_path w) (old k)) else old k))
     else if k = library_pathvar w then Some (extended w (wf_module_path w) (old k))
     else old k)"
proof -
  have v: "library_pathvar w \<noteq> ''PYTHONPATH''" by (simp add: library_pathvar_def)
  have o: "map_of (case os_env of None \<Rightarrow> wf_environ w | Some e \<Rightarrow> dict_update (wf_environ w) e) j = old j" for j
    by (simp add: old_def map_of_dict_update split: option.splits)
  show ?thesis
    using v by (auto simp: get_proc_env_def Let_def map_of_extend_path o)
qed

text \<open>Words of a text without quotes, as whitespace separates them.\<close>

fun words_loop :: "string \<Rightarrow> string \<Rightarrow> string list" where
  "words_loop t [] = (if t \<noteq> [] then [t] else [])"
| "words_loop t (c # s) =
     (if is_lex_space c then (if t \<noteq> [] then t # words_loop [] s else words_loop [] s)
      else words_loop (t @ [c]) s)"

definition words :: "string \<Rightarrow> string list" where
  "words s = words_loop [] s"

lemma double_backslashes_Cons:
  "double_backslashes (c # s) = (if c = BSL then [BSL, BSL] else [c]) @ double_backslashes s"
  by (simp add: double_backslashes_def)

lemma shlex_words:
  assumes "SQ \<notin> set s" "DQC \<notin> set s"
  shows "shlex_loop Blank False [] (double_backslashes s) = Inr (words_loop [] s)"
    and "t \<noteq> [] \<Longrightarrow> shlex_loop Word False t (double_backslashes s) = Inr (words_loop t s)"
  using assms
proof (induction s arbitrary: t)
  case Nil
  { case 1 show ?case by (simp add: double_backslashes_def) }
  { case 2 then show ?case by (simp add: double_backslashes_def) }
next
  case (Cons c s)
  have b: "\<not> is_lex_space BSL" by (simp add: is_lex_space_def)
  { case 1
    then show ?case using Cons.IH b by (auto simp: double_backslashes_Cons) }
  { case 2
    then show ?case using Cons.IH b by (auto simp: double_backslashes_Cons) }
qed

text \<open>With a command template without quotes that names \<open>%s\<close> once, the program is executed with the
  words of the template in which the path of the program stands for \<open>%s\<close>: backslashes of the
  path are kept, and no word is changed otherwise.
\<close>

theorem template_gives_words:
  assumes "t \<noteq> ''%s''" "percent_format t (tg_node obj) = Inr line" "SQ \<notin> set line" "DQC \<notin> set line"
    and "find_program w (strip_cc name) = Inr obj"
  shows "get_run_program w name (Some t) = Inr (strip_cc name, words line)"
  using assms shlex_words(1) [OF assms(3,4)]
  by (simp add: get_run_program_def waf_bind_def of_python_def shlex_split_def words_def)

definition demo_gen :: task_gen where
  "demo_gen = \<lparr>tg_name = ''udp'', tg_is_program = True, tg_path = ''/ns3/src'', tg_bld_path = ''/ns3/build/src'',
     tg_node = ''C:'' @ [BSL] @ ''udp''\<rparr>"

definition demo_waf :: waf where
  "demo_waf = \<lparr>wf_gens = [demo_gen\<lparr>tg_is_program := False\<rparr>, demo_gen], wf_launch_dir = ''/ns3'',
     wf_platform = ''linux'', wf_environ = [(''PATH'', ''/bin'')], wf_module_path = [''/ns3/build/lib''],
     wf_exec_path = [''/ns3/build''], wf_pymoddir = ''/ns3/build/bindings'', wf_pyvizdir = ''/ns3/viz'',
     wf_valgrind = [''valgrind''], wf_python = [''python3''], wf_signals = [(''SIGSEGV'', 11)],
     wo_command_template = [], wo_valgrind = False, wo_gdb = False, wo_cwd_launch = None,
     wo_default_cwd = ''/ns3''\<rparr>"

lemma demo_find: "find_program demo_waf (strip_cc ''src/udp.cc'') = Inr demo_gen"
  by code_simp

theorem template_gives_words_witness:
  "get_run_program demo_waf ''src/udp.cc'' (Some ''nice %s -x'') =
     Inr (''src/udp'', [''nice'', ''C:'' @ [BSL] @ ''udp'', ''-x''])"
proof -
  have 1: "percent_format ''nice %s -x'' (tg_node demo_gen) = Inr (''nice C:'' @ [BSL] @ ''udp -x'')" by code_simp
  have 2: "SQ \<notin> set (''nice C:'' @ [BSL] @ ''udp -x'')" "DQC \<notin> set (''nice C:'' @ [BSL] @ ''udp -x'')" by simp_all
  have 3: "words (''nice C:'' @ [BSL] @ ''udp -x'') = [''nice'', ''C:'' @ [BSL] @ ''udp'', ''-x'']" by code_simp
  have 4: "strip_cc ''src/udp.cc'' = ''src/udp''" by code_simp
  show ?thesis using template_gives_words [OF _ 1 2 demo_find] unfolding 3 4 by simp
qed

text \<open>A blank in the path of the program splits it.\<close>

lemma template_splits_path:
  "find_program w (strip_cc name) = Inr obj \<Longrightarrow> tg_node obj = ''/my ns3/p'' \<Longrightarrow>
   get_run_program w name (Some ''gdb %s'') = Inr (strip_cc name, [''gdb'', ''/my'', ''ns3/p''])"
  by (simp add: get_run_program_def waf_bind_def of_python_def percent_format_def shlex_split_def
      double_backslashes_def is_lex_space_def)



text \<open>
  Under valgrind a leak summary in the error output never makes a run fail: the loop is
  over the characters of the text, and none holds the phrase.
\<close>

theorem valgrind_leak_summary_ignored:
  assumes "wo_valgrind w" "\<not> wo_gdb w" "wo_command_template w = []" "wf_valgrind w \<noteq> []" "\<And>rq. proc rq = Inr (0, err)"
  shows "fst (run_argv w proc argv os_env cwd False) = Inr 0"
proof -
  have "\<not> substr_in ''== LEAK SUMMARY'' [c]" for c by (simp add: startswith_def)
  then have "\<not> list_ex (\<lambda>c. substr_in ''== LEAK SUMMARY'' [c]) err" by (simp add: list_ex_iff)
  then show ?thesis
    using assms by (cases "wf_valgrind w") (simp_all add: run_argv_def waf_bind_def of_python_def check_retval_def)
qed

theorem valgrind_leak_summary_ignored_witness:
  "fst (run_argv (demo_waf\<lparr>wo_valgrind := True\<rparr>) (\<lambda>_. Inr (0, ''==1== LEAK SUMMARY:'')) [''p''] None None False) = Inr 0"
  by (rule valgrind_leak_summary_ignored) (simp_all add: demo_waf_def)

lemma uniquify_seen_spec: "uniquify_seen seen xs = filter (\<lambda>x. x \<notin> seen) (uniquify_seen {} xs)"
proof (induction xs arbitrary: seen)
  case (Cons x xs)
  show ?case
    using Cons.IH [of "insert x seen"] Cons.IH [of "{x}"] Cons.IH [of seen]
    by (auto simp: filter_id_conv intro!: filter_cong)
qed simp

lemma uniquify_list_distinct: "distinct (uniquify_list xs) \<and> set (uniquify_list xs) = set xs"
proof -
  have "distinct (uniquify_seen seen xs) \<and> set (uniquify_seen seen xs) = set xs - seen" for seen
    by (induction xs arbitrary: seen) auto
  then show ?thesis by (simp add: uniquify_list_def)
qed

end
