(* ===== verification/Waf_Command.thy ===== *)
theory Waf_Command
  imports Shell_Print
begin

text \<open>
  \<^verbatim>\<open>src/waf-tools/command.py\<close>: the waf task that runs a command line.  The line is parsed by
  \<^theory_text>\<open>Shell_Cmd\<close>, \<open>$$\<close> and \<open>${expression}\<close> are substituted in its words, and it is run.  Python's
  \<open>eval\<close> in the namespace of the task is the parameter \<open>ev\<close>; the nodes of waf are their paths.
\<close>

section \<open>Substitution\<close>

record wnode =
  nd_src :: string
  nd_bld :: string

text \<open>What an expression evaluates to: \<open>Inputs\<close> and \<open>Outputs\<close> are the lists of the task itself.\<close>

datatype subst_value =
    A_Node wnode
  | Inputs
  | Outputs
  | A_List "subst_value list"
  | A_Str string
  | A_None
  | Other

text \<open>What \<open>repl\<close> gives \<open>re.sub\<close>: a string, nothing for \<open>None\<close>, or another object, \<open>None\<close> here.\<close>

definition piece_of :: "subst_value \<Rightarrow> string option" where
  "piece_of v = (case v of A_Str s \<Rightarrow> Some s | A_None \<Rightarrow> Some [] | _ \<Rightarrow> None)"

definition repl_value :: "wnode list \<Rightarrow> wnode list \<Rightarrow> string \<Rightarrow> subst_value \<Rightarrow> string option res" where
  "repl_value inputs outputs var result =
     (case result of
        A_Node n \<Rightarrow>
          if var = ''TGT'' then Inr (Some (nd_bld n))
          else if var = ''SRC'' then Inr (Some (nd_src n))
          else Inl ValueError
      | Inputs \<Rightarrow> (case inputs of [n] \<Rightarrow> Inr (Some (nd_src n)) | _ \<Rightarrow> Inl ValueError)
      | Outputs \<Rightarrow> (case outputs of [n] \<Rightarrow> Inr (Some (nd_bld n)) | _ \<Rightarrow> Inl ValueError)
      | A_List vs \<Rightarrow> (case vs of [v] \<Rightarrow> Inr (piece_of v) | _ \<Rightarrow> Inl AssertionError)
      | v \<Rightarrow> Inr (piece_of v))"

text \<open>
  \<open>\{(?P<var>\w+)(?P<code>.*?)\}\<close> after a dollar, on ASCII: the variable, the code up to the first
  closing brace of the line, and what follows.
\<close>

definition re_subst :: "string \<Rightarrow> (string \<times> string \<times> string) option" where
  "re_subst s =
     (case re_lit [CHR 0x7B] s of
        None \<Rightarrow> None
      | Some r \<Rightarrow>
          (case re_plus is_name_char r of
             None \<Rightarrow> None
           | Some (var, r) \<Rightarrow>
               (let code = takeWhile (\<lambda>c. c \<noteq> CHR 0x7D) r; rest = drop (length code) r in
                if rest = [] \<or> NL \<in> set code then None else Some (var, code, tl rest))))"

lemma re_subst_shorter: "re_subst s = Some (v, c, r) \<Longrightarrow> length r < length s"
  using length_dropWhile_le [of is_name_char "tl s"]
  by (auto simp: re_subst_def re_lit_eq_Some re_plus_def Let_def split: option.splits if_splits list.splits)

function subst_pieces ::
  "(string \<Rightarrow> subst_value res) \<Rightarrow> wnode list \<Rightarrow> wnode list \<Rightarrow> string \<Rightarrow> string option list res" where
  "subst_pieces ev inputs outputs s =
     (case s of
        [] \<Rightarrow> Inr []
      | c # s' \<Rightarrow>
          if c \<noteq> CHR ''$'' then res_bind (subst_pieces ev inputs outputs s') (\<lambda>r. Inr (Some [c] # r))
          else if s' \<noteq> [] \<and> hd s' = CHR ''$'' then
            res_bind (subst_pieces ev inputs outputs (tl s')) (\<lambda>r. Inr (Some ''$'' # r))
          else (case re_subst s' of
                  None \<Rightarrow> res_bind (subst_pieces ev inputs outputs s') (\<lambda>r. Inr (Some [c] # r))
                | Some (var, code, rest) \<Rightarrow>
                    res_bind (res_bind (ev (var @ code)) (repl_value inputs outputs var)) (\<lambda>x.
                    res_bind (subst_pieces ev inputs outputs rest) (\<lambda>r. Inr (x # r)))))"
  by pat_completeness auto
termination
  by (relation "measure (\<lambda>(ev, inputs, outputs, s). length s)")
     (auto dest!: re_subst_shorter simp: neq_Nil_conv)

declare subst_pieces.simps [simp del]

text \<open>The pieces are joined at the end, where one that is no string raises.\<close>

definition subst_arg ::
  "(string \<Rightarrow> subst_value res) \<Rightarrow> wnode list \<Rightarrow> wnode list \<Rightarrow> string \<Rightarrow> string res" where
  "subst_arg ev inputs outputs s =
     res_bind (subst_pieces ev inputs outputs s)
       (\<lambda>ps. if None \<in> set ps then Inl TypeError else Inr (concat (map the ps)))"

section \<open>The task\<close>

record waf_task =
  wt_command :: string
  wt_inputs :: "wnode list"
  wt_outputs :: "wnode list"

definition opt_res :: "('a \<Rightarrow> 'a res) \<Rightarrow> 'a option \<Rightarrow> 'a option res" where
  "opt_res f x = (case x of None \<Rightarrow> Inr None | Some y \<Rightarrow> res_bind (f y) (\<lambda>z. Inr (Some z)))"

definition subst_redir :: "(string \<Rightarrow> string res) \<Rightarrow> redir \<Rightarrow> redir res" where
  "subst_redir f r = (case r of To_File n \<Rightarrow> res_bind (f n) (\<lambda>m. Inr (To_File m)) | _ \<Rightarrow> Inr r)"

fun map_res :: "('a \<Rightarrow> 'b res) \<Rightarrow> 'a list \<Rightarrow> 'b list res" where
  "map_res f [] = Inr []"
| "map_res f (x # xs) = res_bind (f x) (\<lambda>y. res_bind (map_res f xs) (\<lambda>ys. Inr (y # ys)))"

definition subst_node :: "(string \<Rightarrow> string res) \<Rightarrow> shell_node \<Rightarrow> shell_node res" where
  "subst_node f n =
     (case n of
        Command c \<Rightarrow>
          res_bind (opt_res f (cm_stdin c)) (\<lambda>i.
          res_bind (opt_res (subst_redir f) (cm_stdout c)) (\<lambda>out.
          res_bind (opt_res (subst_redir f) (cm_stderr c)) (\<lambda>err.
          res_bind (map_res f (cm_argv c)) (\<lambda>argv.
          res_bind (opt_res (map_res (\<lambda>(k, v). res_bind (f v) (\<lambda>w. Inr (k, w)))) (cm_env c)) (\<lambda>env.
          Inr (Command (c\<lparr>cm_stdin := i, cm_stdout := out, cm_stderr := err, cm_argv := argv, cm_env := env\<rparr>)))))))
      | Chdir None \<Rightarrow> Inl TypeError
      | Chdir (Some d) \<Rightarrow> res_bind (f d) (\<lambda>e. Inr (Chdir (Some e)))
      | _ \<Rightarrow> Inr n)"

definition run_task ::
  "shell_os \<Rightarrow> bool \<Rightarrow> (string \<Rightarrow> subst_value res) \<Rightarrow> waf_task \<Rightarrow> int option res \<times> event list" where
  "run_task os verbose ev t =
     (case res_bind (parse (wt_command t))
             (map_res (subst_node (subst_arg ev (wt_inputs t) (wt_outputs t)))) of
        Inl e \<Rightarrow> (Inl e, [])
      | Inr p \<Rightarrow> run os verbose p)"

text \<open>\<open>__str__\<close>, with the paths that waf shows for the nodes.\<close>

definition task_str :: "(wnode \<Rightarrow> string) \<Rightarrow> waf_task \<Rightarrow> string res" where
  "task_str bldpath t =
     res_bind (parse (wt_command t)) (\<lambda>p.
       Inr (''command ('' @ get_abbreviated_command p @ ''): '' @ join '' '' (map bldpath (wt_inputs t))
            @ (if wt_outputs t = [] then [] else '' -> '') @ join '' '' (map bldpath (wt_outputs t))))"

section \<open>Properties\<close>

lemma subst_pieces_Nil [simp]: "subst_pieces ev i out [] = Inr []"
  by (subst subst_pieces.simps) simp

lemma subst_pieces_plain:
  "c \<noteq> CHR ''$'' \<Longrightarrow>
   subst_pieces ev i out (c # s) = res_bind (subst_pieces ev i out s) (\<lambda>r. Inr (Some [c] # r))"
  by (subst subst_pieces.simps) simp

lemma subst_pieces_dollar:
  "subst_pieces ev i out (CHR ''$'' # CHR ''$'' # s) =
   res_bind (subst_pieces ev i out s) (\<lambda>r. Inr (Some ''$'' # r))"
  by (subst subst_pieces.simps) simp

definition escape_dollars :: "string \<Rightarrow> string" where
  "escape_dollars s = concat (map (\<lambda>c. if c = CHR ''$'' then ''$$'' else [c]) s)"

lemma subst_pieces_escaped:
  "subst_pieces ev i out (escape_dollars s) = Inr (map (\<lambda>c. Some [c]) s)"
proof (induction s)
  case (Cons c s)
  then show ?case
    by (cases "c = CHR ''$''") (simp_all add: escape_dollars_def subst_pieces_plain subst_pieces_dollar)
qed (simp add: escape_dollars_def)

text \<open>Any word can be written: with its dollars doubled it is substituted by itself.\<close>

theorem subst_escaped: "subst_arg ev i out (escape_dollars s) = Inr s"
proof -
  have "None \<notin> set (map (\<lambda>c. Some [c]) s)" "concat (map the (map (\<lambda>c. Some [c]) s)) = s"
    by (auto simp: comp_def)
  then show ?thesis by (simp add: subst_arg_def subst_pieces_escaped)
qed

lemma escape_plain: "CHR ''$'' \<notin> set s \<Longrightarrow> escape_dollars s = s"
  by (induction s) (auto simp: escape_dollars_def)

definition node_words :: "shell_node \<Rightarrow> string list" where
  "node_words n =
     (case n of
        Command c \<Rightarrow> (case cm_stdin c of None \<Rightarrow> [] | Some f \<Rightarrow> [f])
          @ concat (map (\<lambda>r. case r of Some (To_File f) \<Rightarrow> [f] | _ \<Rightarrow> []) [cm_stdout c, cm_stderr c])
          @ cm_argv c @ (case cm_env c of None \<Rightarrow> [] | Some e \<Rightarrow> map snd e)
      | Chdir (Some d) \<Rightarrow> [d]
      | _ \<Rightarrow> [])"

lemma map_res_same: "(\<And>x. x \<in> set xs \<Longrightarrow> f x = Inr x) \<Longrightarrow> map_res f xs = Inr xs"
  by (induction xs) auto

lemma subst_node_same:
  assumes "n \<noteq> Chdir None" "\<And>s. s \<in> set (node_words n) \<Longrightarrow> f s = Inr s"
  shows "subst_node f n = Inr n"
proof (cases n)
  case (Command c)
  have "map_res f (cm_argv c) = Inr (cm_argv c)"
    by (rule map_res_same) (use assms(2) Command in \<open>auto simp: node_words_def\<close>)
  moreover have "opt_res f (cm_stdin c) = Inr (cm_stdin c)"
    using assms(2) Command by (auto simp: node_words_def opt_res_def split: option.splits)
  moreover have "opt_res (subst_redir f) (cm_stdout c) = Inr (cm_stdout c)"
    using assms(2) Command by (auto simp: node_words_def opt_res_def subst_redir_def split: option.splits redir.splits)
  moreover have "opt_res (subst_redir f) (cm_stderr c) = Inr (cm_stderr c)"
    using assms(2) Command by (auto simp: node_words_def opt_res_def subst_redir_def split: option.splits redir.splits)
  moreover have "opt_res (map_res (\<lambda>(k, v). res_bind (f v) (\<lambda>w. Inr (k, w)))) (cm_env c) = Inr (cm_env c)"
  proof (cases "cm_env c")
    case (Some e)
    have "map_res (\<lambda>(k, v). res_bind (f v) (\<lambda>w. Inr (k, w))) e = Inr e"
      by (rule map_res_same) (use assms(2) Command Some in \<open>force simp: node_words_def\<close>)
    then show ?thesis using Some by (simp add: opt_res_def)
  qed (simp add: opt_res_def)
  ultimately show ?thesis using Command by (simp add: subst_node_def)
next
  case (Chdir d)
  then show ?thesis using assms by (cases d) (simp_all add: subst_node_def node_words_def)
qed (simp_all add: subst_node_def)

text \<open>A task whose words have no dollar runs as the shell of \<^theory_text>\<open>Shell_Cmd\<close> runs its command line; only a
  \<open>cd\<close> without a directory fails earlier, in the substitution.
\<close>

theorem task_without_dollars:
  assumes "parse (wt_command t) = Inr p" "\<forall>n \<in> set p. \<forall>s \<in> set (node_words n). CHR ''$'' \<notin> set s"
  shows "run_task os v ev t = (if Chdir None \<in> set p then (Inl TypeError, []) else run os v p)"
proof -
  let ?f = "subst_arg ev (wt_inputs t) (wt_outputs t)"
  have same: "?f s = Inr s" if "CHR ''$'' \<notin> set s" for s
    using subst_escaped [of ev "wt_inputs t" "wt_outputs t" s] by (simp add: escape_plain [OF that])
  have all: "subst_node ?f n = (if n = Chdir None then Inl TypeError else Inr n)" if "n \<in> set p" for n
    using subst_node_same [of n ?f] same that assms(2) by (auto simp: subst_node_def)
  have "map_res (subst_node ?f) p = (if Chdir None \<in> set p then Inl TypeError else Inr p)"
    using all by (induction p) auto
  then show ?thesis using assms(1) by (simp add: run_task_def)
qed

theorem task_without_dollars_witness:
  "run_task (granting_os (\<lambda>_. 0)) False (\<lambda>_. Inl NameError) \<lparr>wt_command = ''cp a b'', wt_inputs = [], wt_outputs = []\<rparr>
   = run (granting_os (\<lambda>_. 0)) False [Command ((new_command ''cp'')\<lparr>cm_argv := [''cp'', ''a'', ''b'']\<rparr>)]"
proof -
  let ?t = "\<lparr>wt_command = ''cp a b'', wt_inputs = [], wt_outputs = []\<rparr>"
  let ?p = "[Command ((new_command ''cp'')\<lparr>cm_argv := [''cp'', ''a'', ''b'']\<rparr>)]"
  have 1: "parse (wt_command ?t) = Inr ?p" by code_simp
  have 2: "\<forall>n \<in> set ?p. \<forall>s \<in> set (node_words n). CHR ''$'' \<notin> set s"
    by (simp add: node_words_def new_command_def)
  show ?thesis using task_without_dollars [OF 1 2] by simp
qed

text \<open>The one source and the one target of a task, by name.\<close>

lemma subst_source:
  "ev ''SRC'' = Inr Inputs \<Longrightarrow> subst_arg ev [n] out (''${SRC}'') = Inr (nd_src n)"
  by (simp add: subst_arg_def subst_pieces.simps re_subst_def re_plus_def is_name_char_def repl_value_def Let_def)

lemma subst_sources_ambiguous:
  "ev ''SRC'' = Inr Inputs \<Longrightarrow> subst_arg ev [n, m] out (''${SRC}'') = Inl ValueError"
  by (simp add: subst_arg_def subst_pieces.simps re_subst_def re_plus_def is_name_char_def repl_value_def Let_def)

end
