(* ===== verification/Py2_Num.thy ===== *)
theory Py2_Num
  imports Py_Prelude
begin

text \<open>
  The numbers of the plotting tool \<^verbatim>\<open>utils/grid.py\<close>, which is written for Python 2
  (\<open>has_key\<close>, \<open>sort\<close> with a comparison function, \<open>gtk\<close>): an \<open>int\<close> or a \<open>float\<close>.
  Arithmetic on two ints stays in the ints and \<open>/\<close> rounds down there; as soon as a float
  takes part the result is a float.  Floats are exact rationals: rounding is not modelled.
  Division and remainder raise on a zero divisor.
\<close>

datatype pynum = PInt int | PFlt rat

fun num_val :: "pynum \<Rightarrow> rat" where
  "num_val (PInt i) = of_int i"
| "num_val (PFlt x) = x"

fun num_op :: "(int \<Rightarrow> int \<Rightarrow> int) \<Rightarrow> (rat \<Rightarrow> rat \<Rightarrow> rat) \<Rightarrow> pynum \<Rightarrow> pynum \<Rightarrow> pynum" where
  "num_op f g (PInt a) (PInt b) = PInt (f a b)"
| "num_op f g a b = PFlt (g (num_val a) (num_val b))"

instantiation pynum :: "{plus, minus, times, uminus, ord, zero, one}"
begin

definition plus_pynum :: "pynum \<Rightarrow> pynum \<Rightarrow> pynum" where
  "plus_pynum = num_op (+) (+)"

definition minus_pynum :: "pynum \<Rightarrow> pynum \<Rightarrow> pynum" where
  "minus_pynum = num_op (-) (-)"

definition times_pynum :: "pynum \<Rightarrow> pynum \<Rightarrow> pynum" where
  "times_pynum = num_op (*) (*)"

definition uminus_pynum :: "pynum \<Rightarrow> pynum" where
  "uminus_pynum a = (case a of PInt i \<Rightarrow> PInt (- i) | PFlt x \<Rightarrow> PFlt (- x))"

definition less_eq_pynum :: "pynum \<Rightarrow> pynum \<Rightarrow> bool" where
  "less_eq_pynum a b \<longleftrightarrow> num_val a \<le> num_val b"

definition less_pynum :: "pynum \<Rightarrow> pynum \<Rightarrow> bool" where
  "less_pynum a b \<longleftrightarrow> num_val a < num_val b"

definition zero_pynum :: pynum where "zero_pynum = PInt 0"

definition one_pynum :: pynum where "one_pynum = PInt 1"

instance ..

end

text \<open>The order is Python's comparison of values; \<open>1\<close> and \<open>1.0\<close> compare equal.\<close>

instance pynum :: preorder
  by standard (auto simp: less_eq_pynum_def less_pynum_def)

text \<open>\<open>max(a, b)\<close> and \<open>min(a, b)\<close> keep the first argument when both have the same value.\<close>

definition py_max :: "pynum \<Rightarrow> pynum \<Rightarrow> pynum" where
  "py_max a b = (if b > a then b else a)"

definition py_min :: "pynum \<Rightarrow> pynum \<Rightarrow> pynum" where
  "py_min a b = (if b < a then b else a)"

fun py_div :: "pynum \<Rightarrow> pynum \<Rightarrow> pynum res" where
  "py_div (PInt a) (PInt b) = (if b = 0 then Inl ZeroDivisionError else Inr (PInt (a div b)))"
| "py_div a b = (if num_val b = 0 then Inl ZeroDivisionError else Inr (PFlt (num_val a / num_val b)))"

fun py_mod :: "pynum \<Rightarrow> pynum \<Rightarrow> pynum res" where
  "py_mod (PInt a) (PInt b) = (if b = 0 then Inl ZeroDivisionError else Inr (PInt (a mod b)))"
| "py_mod a b = (if num_val b = 0 then Inl ZeroDivisionError
     else Inr (PFlt (num_val a - num_val b * of_int (floor (num_val a / num_val b)))))"

text \<open>\<open>int(x)\<close> truncates towards zero.\<close>

fun py_int :: "pynum \<Rightarrow> int" where
  "py_int (PInt i) = i"
| "py_int (PFlt x) = (if x < 0 then - floor (- x) else floor x)"

definition py_abs :: "pynum \<Rightarrow> pynum" where
  "py_abs a = (if a < PInt 0 then - a else a)"

definition py_float :: "pynum \<Rightarrow> pynum" where
  "py_float a = PFlt (num_val a)"

named_theorems num_simps

lemma num_val_plus [simp, num_simps]: "num_val (a + b) = num_val a + num_val b"
  by (cases a; cases b) (simp_all add: plus_pynum_def)

lemma num_val_minus [simp, num_simps]: "num_val (a - b) = num_val a - num_val b"
  by (cases a; cases b) (simp_all add: minus_pynum_def)

lemma num_val_times [simp, num_simps]: "num_val (a * b) = num_val a * num_val b"
  by (cases a; cases b) (simp_all add: times_pynum_def)

lemma num_val_uminus [simp, num_simps]: "num_val (- a) = - num_val a"
  by (cases a) (simp_all add: uminus_pynum_def)

lemma num_le [num_simps]: "a \<le> b \<longleftrightarrow> num_val a \<le> num_val b"
  by (simp add: less_eq_pynum_def)

lemma num_less [num_simps]: "a < b \<longleftrightarrow> num_val a < num_val b"
  by (simp add: less_pynum_def)

lemma num_val_max [simp, num_simps]: "num_val (py_max a b) = max (num_val a) (num_val b)"
  by (auto simp: py_max_def num_simps)

lemma num_val_min [simp, num_simps]: "num_val (py_min a b) = min (num_val a) (num_val b)"
  by (auto simp: py_min_def num_simps)

lemma num_val_float [simp, num_simps]: "num_val (py_float a) = num_val a"
  by (simp add: py_float_def)

lemma num_val_abs [simp, num_simps]: "num_val (py_abs a) = abs (num_val a)"
  by (auto simp: py_abs_def num_simps)

lemma num_int_ops [simp]:
  "PInt a + PInt b = PInt (a + b)" "PInt a - PInt b = PInt (a - b)" "PInt a * PInt b = PInt (a * b)"
  by (simp_all add: plus_pynum_def minus_pynum_def times_pynum_def)

lemma py_div_zero: "num_val b = 0 \<Longrightarrow> py_div a b = Inl ZeroDivisionError"
  by (cases a; cases b) simp_all

lemma py_div_float:
  "num_val b \<noteq> 0 \<Longrightarrow> (\<nexists>i. a = PInt i) \<or> (\<nexists>i. b = PInt i) \<Longrightarrow> py_div a b = Inr (PFlt (num_val a / num_val b))"
  by (cases a; cases b) simp_all

lemma py_div_Inr: "num_val b \<noteq> 0 \<Longrightarrow> \<exists>q. py_div a b = Inr q"
  by (cases a; cases b) simp_all

lemma of_int_div_le: "of_int (a div b) \<le> (of_int a / of_int b :: rat)"
  by (metis floor_divide_of_int_eq of_int_floor_le)

lemma py_div_le: "py_div a b = Inr q \<Longrightarrow> num_val q \<le> num_val a / num_val b"
  by (cases a; cases b) (auto simp: of_int_div_le split: if_splits)

lemma py_div_gt: "py_div a b = Inr q \<Longrightarrow> num_val a / num_val b - 1 < num_val q"
  by (cases a; cases b)
     (auto split: if_splits simp: floor_divide_of_int_eq [symmetric, where 'a = rat], linarith)

end
