(* ===== verification/Rad_Util.thy ===== *)
theory Rad_Util
  imports Py2_Num
begin

text \<open>
  \<^verbatim>\<open>src/bindings/python/rad_util.py\<close>, the utility functions beside the dependency sorting
  of the binding generator: rotations, permutations, number formats, common divisors,
  duplicates, bits, command line options.  The module is written for Python 2 (its numbers
  are taken from \<open>int\<close>: an integer \<open>/\<close> rounds down); functions on floats, and those that
  look at modules or the clock, are left out.
\<close>

section \<open>Sequences\<close>

text \<open>\<open>reverse\<close>, and \<open>transpose\<close>: \<open>zip\<close> stops at the end of the shortest row.\<close>

definition reverse :: "string \<Rightarrow> string" where
  "reverse s = rev s"

definition transpose_rows :: "'a list list \<Rightarrow> 'a list list" where
  "transpose_rows m =
     (if m = [] then []
      else map (\<lambda>i. map (\<lambda>r. r ! i) m) [0..<Min (set (map length m))])"

text \<open>\<open>new_list.insert(i, item)\<close> at every position of the list.\<close>

definition insert_at :: "nat \<Rightarrow> 'a \<Rightarrow> 'a list \<Rightarrow> 'a list" where
  "insert_at i x xs = take i xs @ x # drop i xs"

fun permutations :: "'a list \<Rightarrow> 'a list list" where
  "permutations (x # y # xs) =
     concat (map (\<lambda>sub. map (\<lambda>i. insert_at i x sub) [0..<length (x # y # xs)]) (permutations (y # xs)))"
| "permutations xs = [xs]"

text \<open>
  \<open>uniquify\<close> keeps the first of equal items; without \<open>preserve_order\<close> it returns the keys of
  a dictionary, in the order \<open>ord\<close> of its keys, if the items are hashable.
\<close>

fun uniquify_loop :: "'a list \<Rightarrow> 'a list \<Rightarrow> 'a list" where
  "uniquify_loop result [] = result"
| "uniquify_loop result (x # xs) = uniquify_loop (if x \<in> set result then result else result @ [x]) xs"

definition uniquify :: "('a list \<Rightarrow> 'a list) \<Rightarrow> bool \<Rightarrow> bool \<Rightarrow> 'a list \<Rightarrow> 'a list" where
  "uniquify ord hashable preserve_order xs =
     (if hashable \<and> \<not> preserve_order then ord (map fst (foldl (\<lambda>d x. dict_set x () d) [] xs))
      else uniquify_loop [] xs)"

definition reverse_dict :: "('k \<times> 'v) list \<Rightarrow> ('v \<times> 'k) list" where
  "reverse_dict d = foldl (\<lambda>r (k, v). dict_set v k r) [] d"

text \<open>\<open>find_common_fixes\<close>: the common prefix, and the common suffix read from the end.\<close>

fun common_prefix :: "string \<Rightarrow> string \<Rightarrow> string" where
  "common_prefix (a # as) (b # bs) = (if a = b then a # common_prefix as bs else [])"
| "common_prefix _ _ = []"

definition find_common_fixes :: "string \<Rightarrow> string \<Rightarrow> string \<times> string" where
  "find_common_fixes s1 s2 = (common_prefix s1 s2, rev (common_prefix (rev s1) (rev s2)))"

text \<open>\<open>is_rotated\<close>: the window of the doubled list at each occurrence of the head of the other.\<close>

definition start_indexes :: "'a \<Rightarrow> 'a list \<Rightarrow> nat list" where
  "start_indexes h xs = filter (\<lambda>i. xs ! i = h) [0..<length xs]"

definition is_rotated :: "'a list \<Rightarrow> 'a list \<Rightarrow> bool res" where
  "is_rotated seq1 seq2 =
     (if length seq1 \<noteq> length seq2 then Inr False
      else if seq2 = [] then Inl IndexError
      else Inr (\<exists>i \<in> set (start_indexes (hd seq2) seq1).
                  take (length seq1) (drop i (seq1 @ seq1)) = seq2))"

lemma window_rotate: "i < length xs \<Longrightarrow> take (length xs) (drop i (xs @ xs)) = rotate i xs"
  by (simp add: rotate_drop_take)

lemma hd_rotate: "i < length xs \<Longrightarrow> hd (rotate i xs) = xs ! i"
  by (subst hd_rotate_conv_nth) auto

lemma is_rotated_iff:
  assumes "seq2 \<noteq> []"
  shows "is_rotated seq1 seq2 = Inr (\<exists>n. rotate n seq1 = seq2)"
proof (cases "length seq1 = length seq2")
  case True
  with assms have ne: "seq1 \<noteq> []" by auto
  have "(\<exists>n. rotate n seq1 = seq2) \<longleftrightarrow> (\<exists>i < length seq1. rotate i seq1 = seq2)"
    by (metis rotate_conv_mod ne length_greater_0_conv mod_less_divisor)
  also have "\<dots> \<longleftrightarrow> (\<exists>i \<in> set (start_indexes (hd seq2) seq1). take (length seq1) (drop i (seq1 @ seq1)) = seq2)"
    by (auto simp: start_indexes_def rotate_drop_take hd_rotate [symmetric])
  finally show ?thesis using True assms by (simp add: is_rotated_def)
next
  case False
  then show ?thesis by (auto simp: is_rotated_def)
qed

section \<open>Common divisors\<close>

text \<open>\<open>gcf\<close> on integers, where \<open>epsilon\<close> only excludes the remainder 0.\<close>

function gcf_loop :: "int \<Rightarrow> int \<Rightarrow> int" where
  "gcf_loop result remainder =
     (if remainder \<noteq> 0 then gcf_loop remainder (result mod remainder) else result)"
  by pat_completeness auto

termination
  by (relation "measure (\<lambda>(a, b). nat \<bar>b\<bar>)") (auto simp: abs_mod_less)

declare gcf_loop.simps [simp del]

definition gcf :: "int \<Rightarrow> int \<Rightarrow> int" where
  "gcf a b = \<bar>gcf_loop (max a b) (min a b)\<bar>"

definition lcm_of :: "int \<Rightarrow> int \<Rightarrow> int" where
  "lcm_of a b = (let denom = gcf a b in if denom = 0 then 0 else a * (b div denom))"

definition reduce_fraction :: "int \<times> int \<Rightarrow> (int \<times> int) res" where
  "reduce_fraction f =
     (case f of (n, d) \<Rightarrow>
        let c = \<bar>gcf n d\<bar> in
        if c = 0 then Inl ZeroDivisionError else Inr (n div c, d div c))"

section \<open>Binary numbers\<close>

text \<open>The slices \<open>s[:k]\<close> and \<open>s[k:]\<close> for any integer \<open>k\<close>.\<close>

definition slice_to :: "'a list \<Rightarrow> int \<Rightarrow> 'a list" where
  "slice_to s k = (if 0 \<le> k then take (nat k) s else take (length s - nat (- k)) s)"

definition slice_from :: "'a list \<Rightarrow> int \<Rightarrow> 'a list" where
  "slice_from s k = (if 0 \<le> k then drop (nat k) s else drop (length s - nat (- k)) s)"

text \<open>The hexadecimal digits of a number, and the four bits of one digit (\<open>hex2bin\<close>).\<close>

fun hex_digits :: "nat \<Rightarrow> nat list" where
  "hex_digits n = (if n < 16 then [n] else hex_digits (n div 16) @ [n mod 16])"

declare hex_digits.simps [simp del]

definition bit_char :: "bool \<Rightarrow> char" where
  "bit_char b = (if b then CHR ''1'' else CHR ''0'')"

definition hex2bin :: "nat \<Rightarrow> string" where
  "hex2bin d = map bit_char [8 \<le> d, 4 \<le> d mod 8, 2 \<le> d mod 4, odd d]"

text \<open>
  \<open>hex\<close> of a negative number starts with \<open>-0x\<close>: its third character \<open>x\<close> is no key of the
  table.  A width of 0 makes both slices useless, as \<open>-n\<close> is 0.
\<close>

definition int2bin :: "int \<Rightarrow> int \<Rightarrow> string res" where
  "int2bin i n =
     (if i < 0 then Inl KeyError
      else let result = concat (map hex2bin (hex_digits (nat i))) in
        if CHR ''1'' \<in> set (slice_to result (- n)) then Inl ValueError
        else let result = slice_from result (- n) in
          Inr (replicate (nat (n - int (length result))) CHR ''0'' @ result))"

text \<open>\<open>int(s, 2)\<close>: blanks around, a sign and the prefix \<open>0b\<close> are accepted.\<close>

definition is_blank :: "char \<Rightarrow> bool" where
  "is_blank c \<longleftrightarrow> (let n = (of_char c :: nat) in (9 \<le> n \<and> n \<le> 13) \<or> n = 32)"

definition strip_blanks :: "string \<Rightarrow> string" where
  "strip_blanks s = rev (dropWhile is_blank (rev (dropWhile is_blank s)))"

definition bits_value :: "string \<Rightarrow> int" where
  "bits_value s = foldl (\<lambda>n c. 2 * n + (if c = CHR ''1'' then 1 else 0)) 0 s"

definition bits_res :: "string \<Rightarrow> int res" where
  "bits_res s =
     (let s = (if startswith s ''0b'' \<or> startswith s ''0B'' then drop 2 s else s) in
      if s \<noteq> [] \<and> set s \<subseteq> {CHR ''0'', CHR ''1''} then Inr (bits_value s) else Inl ValueError)"

definition bin2int :: "string \<Rightarrow> int res" where
  "bin2int s =
     (case strip_blanks s of
        [] \<Rightarrow> Inl ValueError
      | c # r \<Rightarrow> if c = CHR ''-'' then res_bind (bits_res r) (\<lambda>v. Inr (- v))
                 else if c = CHR ''+'' then bits_res r else bits_res (c # r))"

text \<open>\<open>lsb\<close> and \<open>gray_encode\<close>.\<close>

definition lsb :: "int \<Rightarrow> nat \<Rightarrow> int" where
  "lsb x n = and x (2 ^ n - 1)"

definition gray_encode :: "int \<Rightarrow> int" where
  "gray_encode i = xor i (drop_bit 1 i)"

text \<open>
  \<open>binary_range\<close>: the bits are counted up, least significant first; \<open>ripple\<close> is the inner loop,
  whose last toggle tells that the count has wrapped around.
\<close>

fun ripple :: "string \<Rightarrow> string \<times> bool" where
  "ripple [] = ([], True)"
| "ripple (c # cs) =
     (if c = CHR ''0'' then (CHR ''1'' # cs, False) else (let (r, t) = ripple cs in (CHR ''0'' # r, t)))"

fun ones :: "string \<Rightarrow> nat" where
  "ones [] = 0"
| "ones (c # cs) = (if c = CHR ''0'' then 0 else 1) + 2 * ones cs"

lemma ones_bound: "ones v < 2 ^ length v"
  by (induction v) auto

lemma ripple_ones:
  "ripple v = (v', t) \<Longrightarrow> length v' = length v \<and> (if t then Suc (ones v) = 2 ^ length v \<and> ones v' = 0 else ones v' = Suc (ones v))"
  by (induction v arbitrary: v' t) (auto split: prod.splits if_splits)

function binary_loop :: "string \<Rightarrow> bool \<Rightarrow> string list" where
  "binary_loop v finished =
     (if finished then [] else rev v # (let (v', t) = ripple v in binary_loop v' t))"
  by pat_completeness auto

termination
proof (relation "measure (\<lambda>(v, finished). if finished then 0 else 2 ^ length v - ones v)", goal_cases)
  case 1
  show ?case by simp
next
  case (2 v finished s v' t)
  then have "ripple v = (v', t)" by simp
  from ripple_ones [OF this] ones_bound [of v] ones_bound [of v'] 2(1) show ?case by auto
qed

declare binary_loop.simps [simp del]

definition binary_range :: "nat \<Rightarrow> string list" where
  "binary_range bits = binary_loop (replicate bits CHR ''0'') (bits = 0)"

text \<open>
  \<open>random_vec\<close>: the draws \<open>int(2**10 * random.random())\<close> are an argument, as many as the loop
  takes.
\<close>

definition random_vec :: "(nat \<Rightarrow> int) \<Rightarrow> nat \<Rightarrow> int option \<Rightarrow> string res" where
  "random_vec draw bits max_value =
     res_bind (concat_res (\<lambda>k. int2bin (draw k) 10) [0..<bits div 10 + 1]) (\<lambda>vector.
     res_bind
       (case max_value of
          None \<Rightarrow> Inr vector
        | Some m \<Rightarrow>
            if m \<noteq> 0 \<and> m < 2 ^ bits - 1 then
              res_bind (bin2int vector) (\<lambda>v. int2bin ((v div (2 ^ bits - 1)) * m) (int bits))
            else Inr vector)
       (\<lambda>vector. Inr (take bits vector)))"

section \<open>Rounding to a grid, quantiles\<close>

text \<open>\<open>round_grid\<close>: on the grid, the modes 1 and -1 leave \<open>add_one\<close> without a value.\<close>

definition round_grid :: "pynum \<Rightarrow> pynum \<Rightarrow> int \<Rightarrow> pynum res" where
  "round_grid value grid mode =
     res_bind (py_mod value grid) (\<lambda>off_grid.
     res_bind (py_div grid (PFlt 2)) (\<lambda>half.
     let add_one =
       (if mode = 0 then Some (if off_grid \<ge> half then 1 else 0)
        else if mode = 1 \<and> num_val off_grid \<noteq> 0 then Some 1
        else if mode = - 1 \<and> num_val off_grid \<noteq> 0 then Some 0
        else None)
     in case add_one of
          None \<Rightarrow> Inl UnboundLocalError
        | Some k \<Rightarrow> res_bind (py_div value grid) (\<lambda>q. Inr (PInt (py_int q + k) * grid))))"

definition py_index :: "'a list \<Rightarrow> int \<Rightarrow> 'a res" where
  "py_index l i =
     (let k = (if i < 0 then i + int (length l) else i) in
      if 0 \<le> k \<and> k < int (length l) then Inr (l ! nat k) else Inl IndexError)"

definition sort_nums :: "pynum list \<Rightarrow> pynum list" where
  "sort_nums l = sort_key num_val l"

definition quantile :: "pynum list \<Rightarrow> pynum \<Rightarrow> pynum res" where
  "quantile l p =
     (let l_sort = sort_nums l; n = int (length l);
          r = PInt 1 + PInt (n - 1) * p;
          i = py_int r; f = r - PInt i
      in if i < n then
           res_bind (py_index l_sort (i - 1)) (\<lambda>a.
           res_bind (py_index l_sort i) (\<lambda>b. Inr ((PInt 1 - f) * a + f * b)))
         else py_index l_sort (i - 1))"

text \<open>\<open>trim\<close>: the median is computed and not used, but it makes an empty list raise.\<close>

definition trim :: "pynum list \<Rightarrow> pynum list res" where
  "trim l =
     (let l_sort = sort_nums l; index = int (length l_sort) div 2 in
      res_bind (py_index l_sort index) (\<lambda>_.
      res_bind (quantile l_sort (PFlt (1 / 4))) (\<lambda>q1.
      res_bind (quantile l_sort (PFlt (3 / 4))) (\<lambda>q3.
      let i = (q3 - q1) * PFlt (3 / 2) in
      Inr (filter (\<lambda>x. x \<ge> q1 - i \<and> x \<le> q3 + i) l_sort)))))"

text \<open>
  \<open>polygon_area\<close> scales the points in place and closes the polygon in place: the second
  component is what it leaves in the caller's list.
\<close>

fun shoelace :: "(int \<times> int) list \<Rightarrow> int" where
  "shoelace ((x, y) # (x', y') # ps) = x' * y - y' * x + shoelace ((x', y') # ps)"
| "shoelace ps = 0"

definition polygon_area :: "(pynum \<times> pynum) list \<Rightarrow> int \<Rightarrow> (pynum \<times> (int \<times> int) list) res" where
  "polygon_area points precision =
     (if points = [] then Inl IndexError
      else
        let ps = map (\<lambda>(x, y). (py_int (x * PInt precision), py_int (y * PInt precision))) points;
            ps = (if last ps \<noteq> hd ps then ps @ [hd ps] else ps)
        in if precision = 0 then Inl ZeroDivisionError
           else Inr (PFlt (of_int \<bar>shoelace ps div 2\<bar> / of_int (precision ^ 2)), ps))"

section \<open>Command line\<close>

datatype arg_value = ANone | AString string | AList "string list"

fun get_args_loop :: "string list \<Rightarrow> (string \<times> arg_value) list \<Rightarrow> string list \<Rightarrow> (string \<times> arg_value) list \<times> string list" where
  "get_args_loop [] d args = (d, args)"
| "get_args_loop (arg # argv) d args =
     (if startswith arg ''-'' then
        (case split_on CHR ''='' (dropWhile (\<lambda>c. c = CHR ''-'') arg) of
           [k, v] \<Rightarrow> get_args_loop argv (dict_set k (AString v) d) args
         | k # _ \<Rightarrow> get_args_loop argv (dict_set k ANone d) args
         | [] \<Rightarrow> get_args_loop argv d args)
      else get_args_loop argv d (args @ [arg]))"

definition get_args :: "string list \<Rightarrow> (string \<times> arg_value) list" where
  "get_args argv = (let (d, args) = get_args_loop argv [] [] in dict_set ''args'' (AList args) d)"

section \<open>Lemmas\<close>

lemma gcf_loop_gcd: "\<bar>gcf_loop a b\<bar> = gcd a b"
proof (induction a b rule: gcf_loop.induct)
  case (1 a b)
  then show ?case
    by (cases "b = 0") (simp_all add: gcf_loop.simps [of a b] gcf_loop.simps [of a 0] gcd_red_int [of a b])
qed

lemma gcf_gcd: "gcf a b = gcd a b"
  by (cases "a \<le> b") (simp_all add: gcf_def gcf_loop_gcd max_def min_def gcd.commute)

lemma lcm_of_lcm: "\<bar>lcm_of a b\<bar> = lcm a b"
proof (cases "gcd a b = 0")
  case False
  define c where "c = b div gcd a b"
  have b: "b = gcd a b * c" by (simp add: c_def)
  have "\<bar>b\<bar> = gcd a b * \<bar>c\<bar>" using arg_cong [OF b, of abs] by (simp add: abs_mult)
  then have "gcd a b * (\<bar>a\<bar> * \<bar>c\<bar>) = \<bar>a\<bar> * \<bar>b\<bar>" by simp
  also have "\<dots> = gcd a b * lcm a b" by (rule prod_gcd_lcm_int)
  finally have "\<bar>a\<bar> * \<bar>c\<bar> = lcm a b" using mult_left_cancel [OF False] by blast
  moreover have "lcm_of a b = a * c" using False by (simp add: lcm_of_def gcf_gcd c_def Let_def)
  ultimately show ?thesis by (simp add: abs_mult)
qed (simp add: lcm_of_def gcf_gcd)

lemma bits_value_append: "bits_value (a @ b) = bits_value a * 2 ^ length b + bits_value b"
proof (induction b rule: rev_induct)
  case (snoc x xs)
  then show ?case by (simp add: bits_value_def algebra_simps)
qed (simp add: bits_value_def)

lemma bits_value_bound: "0 \<le> bits_value s \<and> bits_value s < 2 ^ length s"
  by (induction s rule: rev_induct) (auto simp: bits_value_def)

lemma bits_value_zero: "CHR ''1'' \<notin> set s \<Longrightarrow> bits_value s = 0"
  by (induction s rule: rev_induct) (auto simp: bits_value_def)

lemma bits_value_pos: "CHR ''1'' \<in> set s \<Longrightarrow> 0 < bits_value s"
proof (induction s rule: rev_induct)
  case (snoc x xs)
  then show ?case using bits_value_bound [of xs] by (auto simp: bits_value_def)
qed simp

lemma hex2bin_value: "d < 16 \<Longrightarrow> bits_value (hex2bin d) = int d \<and> length (hex2bin d) = 4"
proof -
  assume "d < 16"
  then have "d \<in> set [0..<16]" by simp
  moreover have "\<forall>d \<in> set [0..<16]. bits_value (hex2bin d) = int d \<and> length (hex2bin d) = 4" by code_simp
  ultimately show ?thesis by blast
qed

lemma hex2bin_chars: "set (hex2bin d) \<subseteq> {CHR ''0'', CHR ''1''}"
  by (auto simp: hex2bin_def bit_char_def)

lemma hex_digits_value: "bits_value (concat (map hex2bin (hex_digits n))) = int n"
proof (induction n rule: hex_digits.induct)
  case (1 n)
  show ?case
  proof (cases "n < 16")
    case True
    then show ?thesis by (simp add: hex_digits.simps [of n] hex2bin_value)
  next
    case False
    moreover have "int (n div 16) * 16 + int (n mod 16) = int n"
      by (metis div_mult_mod_eq of_nat_add of_nat_mult of_nat_numeral)
    ultimately show ?thesis using 1 hex2bin_value [of "n mod 16"]
      by (simp add: hex_digits.simps [of n] bits_value_append)
  qed
qed

lemma bits_res_bits:
  "s \<noteq> [] \<Longrightarrow> set s \<subseteq> {CHR ''0'', CHR ''1''} \<Longrightarrow> bits_res s = Inr (bits_value s)"
  by (cases s; cases "tl s") (auto simp: bits_res_def Let_def startswith_def)

lemma bin2int_bits:
  assumes "s \<noteq> []" "set s \<subseteq> {CHR ''0'', CHR ''1''}"
  shows "bin2int s = Inr (bits_value s)"
proof -
  have nb: "\<not> is_blank c" if "c \<in> set s" for c using that assms(2) by (auto simp: is_blank_def)
  then have "dropWhile is_blank s = s" using assms(1) by (cases s) auto
  moreover have "dropWhile is_blank (rev s) = rev s"
    using nb assms(1) by (cases s rule: rev_cases) auto
  ultimately have "strip_blanks s = s" by (simp add: strip_blanks_def)
  with assms show ?thesis by (cases s) (auto simp: bin2int_def bits_res_bits)
qed

lemma int2bin_cases:
  assumes "0 \<le> i" "0 < n"
  shows "if i < 2 ^ n then \<exists>s. int2bin i (int n) = Inr s \<and> length s = n \<and> set s \<subseteq> {CHR ''0'', CHR ''1''} \<and> bits_value s = i
    else int2bin i (int n) = Inl ValueError"
proof -
  define b where "b = concat (map hex2bin (hex_digits (nat i)))"
  define pre where "pre = take (length b - n) b"
  define suf where "suf = drop (length b - n) b"
  have b: "bits_value b = i" "set b \<subseteq> {CHR ''0'', CHR ''1''}"
    using assms(1) hex_digits_value hex2bin_chars by (auto simp: b_def)
  have split: "b = pre @ suf" by (simp add: pre_def suf_def)
  have len: "length suf \<le> n" "length b \<le> n \<longrightarrow> pre = []" "n \<le> length b \<longrightarrow> length suf = n"
    by (auto simp: pre_def suf_def)
  have nat_diff: "nat (int n - int k) = n - k" for k by linarith
  have run: "int2bin i (int n) = (if CHR ''1'' \<in> set pre then Inl ValueError
      else Inr (replicate (n - length suf) CHR ''0'' @ suf))"
    using assms by (simp add: int2bin_def b_def [symmetric] slice_to_def slice_from_def pre_def [symmetric]
        suf_def [symmetric] Let_def nat_diff)
  show ?thesis
  proof (cases "CHR ''1'' \<in> set pre")
    case True
    then have "pre \<noteq> []" by auto
    with len have "length suf = n" by auto
    moreover have "1 * 2 ^ length suf \<le> bits_value pre * 2 ^ length suf"
      using bits_value_pos [OF True] by (intro mult_right_mono) simp_all
    then have "2 ^ length suf \<le> bits_value b"
      using bits_value_bound [of suf] unfolding split bits_value_append by linarith
    ultimately show ?thesis using b(1) run True by simp
  next
    case False
    then have "bits_value suf = i" using b(1) by (simp add: split bits_value_append bits_value_zero)
    moreover have "bits_value (replicate k CHR ''0'' @ suf) = bits_value suf" for k
      by (simp add: bits_value_append bits_value_zero)
    moreover have "bits_value suf < 2 ^ n"
      using bits_value_bound [of suf] len(1) by (meson order_less_le_trans power_increasing one_le_numeral)
    moreover have "set suf \<subseteq> set b" by (simp add: split)
    ultimately show ?thesis using run False b(2) len(1) by auto
  qed
qed

lemma ones_value: "set v \<subseteq> {CHR ''0'', CHR ''1''} \<Longrightarrow> bits_value (rev v) = int (ones v)"
  by (induction v) (auto simp: bits_value_def)

lemma ripple_chars: "set v \<subseteq> {CHR ''0'', CHR ''1''} \<Longrightarrow> set (fst (ripple v)) \<subseteq> {CHR ''0'', CHR ''1''}"
  by (induction v) (auto split: prod.splits)

lemma binary_loop_values:
  assumes "set v \<subseteq> {CHR ''0'', CHR ''1''}"
  shows "map bits_value (binary_loop v False) = map int [ones v..<2 ^ length v]
    \<and> (\<forall>s \<in> set (binary_loop v False). length s = length v \<and> set s \<subseteq> {CHR ''0'', CHR ''1''})"
  using assms
proof (induction "2 ^ length v - ones v" arbitrary: v rule: less_induct)
  case less
  obtain v' t where r: "ripple v = (v', t)" by fastforce
  note step = ripple_ones [OF r]
  have loop: "binary_loop v False = rev v # binary_loop v' t"
    by (simp add: binary_loop.simps [of v False] r)
  have front: "[ones v..<2 ^ length v] = ones v # [Suc (ones v)..<2 ^ length v]"
    using ones_bound [of v] by (simp add: upt_conv_Cons)
  show ?case
  proof (cases t)
    case True
    with step show ?thesis
      using less.prems by (simp add: loop front binary_loop.simps [of v' True] ones_value)
  next
    case False
    then have v': "length v' = length v" "ones v' = Suc (ones v)" using step by simp_all
    have chars: "set v' \<subseteq> {CHR ''0'', CHR ''1''}" using ripple_chars [OF less.prems] r by simp
    have "2 ^ length v' - ones v' < 2 ^ length v - ones v"
      unfolding v' using ones_bound [of v] by simp
    from less.hyps [OF this chars] have ih: "map bits_value (binary_loop v' False) = map int [Suc (ones v)..<2 ^ length v]"
        "\<forall>s \<in> set (binary_loop v' False). length s = length v \<and> set s \<subseteq> {CHR ''0'', CHR ''1''}"
      unfolding v' by blast+
    have "map bits_value (binary_loop v False) = map int [ones v..<2 ^ length v]"
      unfolding loop front using ih(1) False less.prems by (simp only: list.map ones_value)
    moreover have "\<forall>s \<in> set (binary_loop v False). length s = length v \<and> set s \<subseteq> {CHR ''0'', CHR ''1''}"
      unfolding loop using ih(2) False less.prems by simp
    ultimately show ?thesis by blast
  qed
qed

lemma set_permutations: "set (permutations xs) = {ys. mset ys = mset xs}"
proof (induction xs rule: permutations.induct)
  case (1 x y xs)
  have "ys \<in> set (permutations (x # y # xs)) \<longleftrightarrow> mset ys = mset (x # y # xs)" for ys
  proof
    assume "ys \<in> set (permutations (x # y # xs))"
    then obtain sub i where "mset sub = mset (y # xs)" "ys = insert_at i x sub"
      using 1 by (auto simp del: mset.simps)
    then show "mset ys = mset (x # y # xs)"
      by (metis append_take_drop_id insert_at_def mset.simps(2) mset_append union_mset_add_mset_right)
  next
    assume m: "mset ys = mset (x # y # xs)"
    then have "x \<in> set ys" by (metis list.set_intros(1) set_mset_mset)
    then obtain a b where ys: "ys = a @ x # b" by (meson split_list)
    with m have ab: "mset (a @ b) = mset (y # xs)" by simp
    then have "a @ b \<in> set (permutations (y # xs))" using 1 by simp
    moreover have "length (a @ b) = length (y # xs)" using ab by (rule mset_eq_length)
    then have "length a < length (x # y # xs)" by simp
    then have "length a \<in> set [0..<length (x # y # xs)]" by (simp only: set_upt atLeastLessThan_iff, simp)
    moreover have "ys = insert_at (length a) x (a @ b)" by (simp add: ys insert_at_def)
    ultimately have "ys \<in> set (map (\<lambda>i. insert_at i x (a @ b)) [0..<length (x # y # xs)])"
      unfolding set_map by (intro image_eqI)
    with \<open>a @ b \<in> set (permutations (y # xs))\<close> show "ys \<in> set (permutations (x # y # xs))"
      unfolding permutations.simps set_concat set_map [of _ "permutations (y # xs)"] by (rule UnionI [OF imageI [OF imageI]])
  qed
  then show ?case by blast
qed auto

lemma uniquify_loop_remdups:
  "distinct r \<Longrightarrow> distinct (uniquify_loop r xs) \<and> set (uniquify_loop r xs) = set r \<union> set xs"
  by (induction r xs rule: uniquify_loop.induct) auto

lemma common_prefix_take: "common_prefix a b = take (length (common_prefix a b)) a \<and> common_prefix a b = take (length (common_prefix a b)) b"
  by (induction a b rule: common_prefix.induct) auto

section \<open>Properties\<close>

text \<open>Printing a number in \<open>n > 0\<close> bits succeeds exactly for the numbers from 0 to \<open>2^n - 1\<close>, gives \<open>n\<close>
  characters, and reading them back with \<open>bin2int\<close> gives the number.
\<close>

theorem int2bin_roundtrip:
  assumes "0 < n"
  shows "if 0 \<le> i \<and> i < 2 ^ n then \<exists>s. int2bin i (int n) = Inr s \<and> length s = n \<and> bin2int s = Inr i
    else int2bin i (int n) = Inl (if i < 0 then KeyError else ValueError)"
proof (cases "0 \<le> i")
  case True
  note cases = int2bin_cases [OF True assms]
  show ?thesis
  proof (cases "i < 2 ^ n")
    case lt: True
    with cases obtain s where s: "int2bin i (int n) = Inr s" "length s = n" "set s \<subseteq> {CHR ''0'', CHR ''1''}" "bits_value s = i"
      by auto
    with assms have "s \<noteq> []" by auto
    from bin2int_bits [OF this s(3)] s have "bin2int s = Inr i" by simp
    with s True lt show ?thesis by auto
  next
    case False
    with cases True show ?thesis by simp
  qed
next
  case False
  then show ?thesis by (simp add: int2bin_def)
qed

theorem int2bin_roundtrip_witness:
  "\<exists>s. int2bin 123 8 = Inr s \<and> length s = 8 \<and> bin2int s = Inr 123"
  using int2bin_roundtrip [of 8 123] by simp

text \<open>A width of 0 is not checked: any number is printed in full.\<close>

lemma int2bin_zero_width: "0 \<le> i \<Longrightarrow> int2bin i 0 = Inr (concat (map hex2bin (hex_digits (nat i))))"
  by (simp add: int2bin_def slice_to_def slice_from_def Let_def)

text \<open>
  \<open>binary_range\<close> of \<open>n\<close> bits lists the \<open>n\<close>-bit numerals of the numbers from 0 to \<open>2^n - 1\<close> in
  order; for 0 bits it is empty.
\<close>

theorem binary_range_spec:
  "map bin2int (binary_range n) = (if n = 0 then [] else map (\<lambda>k. Inr (int k)) [0..<2 ^ n]) \<and>
   (\<forall>s \<in> set (binary_range n). length s = n)"
proof (cases "n = 0")
  case True
  then show ?thesis by (simp add: binary_range_def binary_loop.simps)
next
  case False
  let ?v = "replicate n CHR ''0''"
  have "ones ?v = 0" by (induction n) auto
  then have l: "map bits_value (binary_range n) = map int [0..<2 ^ n]"
      "\<forall>s \<in> set (binary_range n). length s = n \<and> set s \<subseteq> {CHR ''0'', CHR ''1''}"
    using binary_loop_values [of ?v] False by (simp_all add: binary_range_def)
  then have "map bin2int (binary_range n) = map (\<lambda>s. Inr (bits_value s)) (binary_range n)"
    using False by (intro map_cong refl bin2int_bits) auto
  also have "\<dots> = map (Inr :: int \<Rightarrow> int res) (map bits_value (binary_range n))" by simp
  also have "\<dots> = map (\<lambda>k. Inr (int k)) [0..<2 ^ n]" unfolding l(1) by simp
  finally show ?thesis using l(2) False by simp
qed

theorem binary_range_spec_witness:
  "map bin2int (binary_range 2) = [Inr 0, Inr 1, Inr 2, Inr 3]"
  using binary_range_spec [of 2] by (simp add: numeral_eq_Suc)

text \<open>
  The Euclidean loop computes the greatest common divisor, also of negative numbers; the
  reduced fraction has the same value and no common factor, and only \<open>(0, 0)\<close> has none.
\<close>

theorem reduce_fraction_reduces:
  "reduce_fraction (n, d) =
     (if n = 0 \<and> d = 0 then Inl ZeroDivisionError else Inr (n div gcd n d, d div gcd n d)) \<and>
   (n \<noteq> 0 \<or> d \<noteq> 0 \<longrightarrow> coprime (n div gcd n d) (d div gcd n d) \<and> n * (d div gcd n d) = d * (n div gcd n d))"
proof -
  have "n * (d div gcd n d) = d * (n div gcd n d)"
    by (metis div_mult_swap gcd_dvd1 gcd_dvd2 mult.commute)
  moreover have "n \<noteq> 0 \<or> d \<noteq> 0 \<Longrightarrow> coprime (n div gcd n d) (d div gcd n d)"
    by (rule div_gcd_coprime) simp
  ultimately show ?thesis
    by (simp add: reduce_fraction_def gcf_gcd Let_def)
qed

theorem reduce_fraction_reduces_witness: "reduce_fraction (14, 7) = Inr (2, 1)"
  using reduce_fraction_reduces [of 14 7] by simp

text \<open>The permutations are all rearrangements of the list.\<close>

theorem permutations_all: "ys \<in> set (permutations xs) \<longleftrightarrow> mset ys = mset xs"
  by (simp add: set_permutations)

text \<open>
  On a multiple of the grid the modes 1 and -1 raise: \<open>add_one\<close> is assigned only for values
  off the grid.
\<close>

theorem round_grid_on_grid_raises:
  assumes "g \<noteq> 0" "mode = 1 \<or> mode = - 1"
  shows "round_grid (PInt (k * g)) (PInt g) mode = Inl UnboundLocalError"
  using assms by (auto simp: round_grid_def Let_def)

theorem round_grid_on_grid_raises_witness:
  "round_grid (PInt 10) (PInt 5) 1 = Inl UnboundLocalError"
  using round_grid_on_grid_raises [of 5 1 2] by simp

text \<open>An option whose value holds an equals sign loses the value; positional arguments win over an option named \<open>args\<close>.\<close>

lemma get_args_args: "map_of (get_args argv) ''args'' = Some (AList (snd (get_args_loop argv [] [])))"
  by (simp add: get_args_def split: prod.splits)

lemma get_args_value_with_equals: "map_of (get_args [''--opt=a=b'']) ''opt'' = Some ANone"
  by code_simp


end
