(* ===== verification/Topsort.thy ===== *)
theory Topsort
  imports Rad_Util
begin

text \<open>
  \<^verbatim>\<open>src/bindings/python/topsort.py\<close>: the dependency sorting of the binding generator, which
  runs under Python 2.  Dictionaries are association lists; the order in which a dictionary
  gives its keys is unspecified there and is a parameter \<open>ord\<close>, of which the proofs use
  that it permutes the keys (locale \<open>key_order\<close>).  A generator is the list of what it yields
  with the way it ends.
\<close>

section \<open>Model\<close>

type_synonym 'a counts = "('a \<times> int) list"
type_synonym 'a succs = "('a \<times> 'a list) list"

text \<open>The error carries the state in which no element without a parent is left.\<close>

datatype 'a top_error = CycleError "'a list" "'a counts" "'a succs" | Key_Error

definition setdefault :: "'k \<Rightarrow> 'v \<Rightarrow> ('k \<times> 'v) list \<Rightarrow> ('k \<times> 'v) list" where
  "setdefault k v d = (if dict_has d k then d else dict_set k v d)"

text \<open>The first loop: \<open>num_parents\<close> and \<open>children\<close>.\<close>

definition add_pair :: "'a counts \<times> 'a succs \<Rightarrow> 'a \<times> 'a \<Rightarrow> 'a counts \<times> 'a succs" where
  "add_pair s e =
     (case (s, e) of ((np, ch), (parent, child)) \<Rightarrow>
        let np = setdefault child 0 (setdefault parent 0 np);
            np = dict_set child (the (map_of np child) + 1) np;
            ch = setdefault parent [] ch
        in (np, dict_set parent (the (map_of ch parent) @ [child]) ch))"

definition build_graph :: "('a \<times> 'a) list \<Rightarrow> 'a counts \<times> 'a succs" where
  "build_graph pairs = foldl add_pair ([], []) pairs"

text \<open>
  The children of one parent lose a parent each; those left without one are appended.  A
  missing key raises.
\<close>

fun knock_down :: "'a list \<Rightarrow> 'a counts \<Rightarrow> ('a counts \<times> 'a list) option" where
  "knock_down [] np = Some (np, [])"
| "knock_down (c # cs) np =
     (case map_of np c of
        None \<Rightarrow> None
      | Some n \<Rightarrow>
          (case knock_down cs (dict_set c (n - 1) np) of
             None \<Rightarrow> None
           | Some (np', new) \<Rightarrow> Some (np', if n - 1 = 0 then c # new else new)))"

lemma length_dict_set: "k \<in> fst ` set d \<Longrightarrow> length (dict_set k v d) = length d"
  by (induction k v d rule: dict_set.induct) auto

lemma length_dict_del: "k \<in> fst ` set d \<Longrightarrow> Suc (length (dict_del k d)) = length d"
proof (induction k d rule: dict_del.induct)
  case (2 k a b d)
  then show ?case by (cases "a = k") simp_all
qed simp

lemma dict_has_iff: "map_of d k \<noteq> None \<longleftrightarrow> k \<in> fst ` set d"
  by (simp add: map_of_eq_None_iff)

lemma map_of_SomeD_key: "map_of d k = Some v \<Longrightarrow> k \<in> fst ` set d"
  using dict_has_iff [of d k] by simp

text \<open>One step of the loop, taken apart.\<close>

lemma knock_down_ConsE:
  assumes "knock_down (c # cs) np = Some (np', new)"
  obtains n new' where "map_of np c = Some n" "knock_down cs (dict_set c (n - 1) np) = Some (np', new')"
    "new = (if n - 1 = 0 then c # new' else new')"
  using assms by (simp split: option.splits prod.splits)

lemma knock_down_length: "knock_down cs np = Some (np', new) \<Longrightarrow> length np' = length np"
proof (induction cs arbitrary: np new)
  case (Cons c cs)
  from Cons.prems obtain n new' where n: "map_of np c = Some n"
      and step: "knock_down cs (dict_set c (n - 1) np) = Some (np', new')"
    by (rule knock_down_ConsE)
  from Cons.IH [OF step] length_dict_set [OF map_of_SomeD_key [OF n]] show ?case by simp
qed simp

text \<open>The loop over \<open>answer\<close>, which grows while it runs: the answer so far and its unvisited rest.\<close>

function topsort_loop ::
  "'a list \<Rightarrow> 'a list \<Rightarrow> 'a counts \<Rightarrow> 'a succs \<Rightarrow> ('a list \<times> 'a counts \<times> 'a succs) option" where
  "topsort_loop answer [] np ch = Some (answer, np, ch)"
| "topsort_loop answer (parent # rest) np ch =
     (if \<not> dict_has np parent then None
      else case knock_down (case map_of ch parent of None \<Rightarrow> [] | Some cs \<Rightarrow> cs) (dict_del parent np) of
             None \<Rightarrow> None
           | Some (np', new) \<Rightarrow>
               topsort_loop (answer @ new) (rest @ new) np' (dict_del parent ch))"
  by pat_completeness auto

termination
proof (relation "measure (\<lambda>(answer, todo, np, ch). length np)", goal_cases)
  case 1
  show ?case by simp
next
  case (2 answer parent rest np ch s np' new)
  have "length np' = length (dict_del parent np)" by (rule knock_down_length [OF 2(2) [folded 2(3)]])
  moreover have "Suc (length (dict_del parent np)) = length np"
    using 2(1) by (intro length_dict_del) (simp add: dict_has_iff [symmetric])
  ultimately show ?case by simp
qed

definition topsort :: "('a counts \<Rightarrow> 'a list) \<Rightarrow> ('a \<times> 'a) list \<Rightarrow> 'a top_error + 'a list" where
  "topsort ord pairs =
     (let (np, ch) = build_graph pairs;
          answer = filter (\<lambda>x. map_of np x = Some 0) (ord np)
      in case topsort_loop answer answer np ch of
           None \<Rightarrow> Inl Key_Error
         | Some (answer, np, ch) \<Rightarrow>
             if np \<noteq> [] then Inl (CycleError answer np ch) else Inr answer)"

text \<open>\<open>topsort_levels_core\<close>: one level removes its elements and their edges.\<close>

fun remove_level :: "'a list \<Rightarrow> 'a counts \<Rightarrow> 'a succs \<Rightarrow> ('a counts \<times> 'a succs) option" where
  "remove_level [] np ch = Some (np, ch)"
| "remove_level (p # ps) np ch =
     (if \<not> dict_has np p then None
      else case knock_down (case map_of ch p of None \<Rightarrow> [] | Some cs \<Rightarrow> cs) (dict_del p np) of
             None \<Rightarrow> None
           | Some (np', _) \<Rightarrow> remove_level ps np' (dict_del p ch))"

lemma remove_level_length:
  "remove_level ps np ch = Some (np', ch') \<Longrightarrow> length np' + length ps = length np"
proof (induction ps np ch arbitrary: np' ch' rule: remove_level.induct)
  case (2 p ps np ch)
  then obtain np1 new where k: "knock_down (case map_of ch p of None \<Rightarrow> [] | Some cs \<Rightarrow> cs) (dict_del p np) = Some (np1, new)"
      and has: "dict_has np p" and rem: "remove_level ps np1 (dict_del p ch) = Some (np', ch')"
    by (auto split: if_splits option.splits)
  from "2.IH" [of "(np1, new)" np1 new np' ch'] k has rem have "length np' + length ps = length np1" by simp
  with knock_down_length [OF k] length_dict_del [of p np] has dict_has_iff [of np p] show ?case by simp
qed simp

text \<open>The levels it yields, and how it ends.\<close>

function levels_loop ::
  "('a counts \<Rightarrow> 'a list) \<Rightarrow> 'a counts \<Rightarrow> 'a succs \<Rightarrow> 'a list list \<times> ('a top_error + unit)" where
  "levels_loop ord np ch =
     (let level = filter (\<lambda>x. map_of np x = Some 0) (ord np) in
      if level = [] then ([], if np \<noteq> [] then Inl (CycleError [] np ch) else Inr ())
      else case remove_level level np ch of
             None \<Rightarrow> ([level], Inl Key_Error)
           | Some (np', ch') \<Rightarrow> (let (ls, r) = levels_loop ord np' ch' in (level # ls, r)))"
  by pat_completeness auto

termination
proof (relation "measure (\<lambda>(ord, np, ch). length np)", goal_cases)
  case 1
  show ?case by simp
next
  case (2 ord np ch level s np' ch')
  have "length np' + length level = length np" by (rule remove_level_length [OF 2(3) [folded 2(4)]])
  moreover have "length level > 0" using 2(2) by simp
  ultimately have "length np' < length np" by linarith
  then show ?case unfolding 2(4) [symmetric] by simp
qed

declare levels_loop.simps [simp del]

definition topsort_levels :: "('a counts \<Rightarrow> 'a list) \<Rightarrow> ('a \<times> 'a) list \<Rightarrow> 'a list list \<times> ('a top_error + unit)" where
  "topsort_levels ord pairs = (let (np, ch) = build_graph pairs in levels_loop ord np ch)"

section \<open>The graph of the pairs\<close>

text \<open>
  The abstract view of the two dictionaries, for the pairs \<open>E\<close> and the set \<open>V\<close> of elements
  already removed, which holds the parents of its elements: each other element is counted
  with its pairs whose parent is left.
\<close>

definition nodes :: "('a \<times> 'a) list \<Rightarrow> 'a set" where
  "nodes E = fst ` set E \<union> snd ` set E"

definition in_count :: "('a \<times> 'a) list \<Rightarrow> 'a set \<Rightarrow> 'a \<Rightarrow> nat" where
  "in_count E V x = length (filter (\<lambda>e. snd e = x \<and> fst e \<notin> V) E)"

definition succs_of :: "('a \<times> 'a) list \<Rightarrow> 'a \<Rightarrow> 'a list" where
  "succs_of E p = map snd (filter (\<lambda>e. fst e = p) E)"

definition graph_inv :: "('a \<times> 'a) list \<Rightarrow> 'a set \<Rightarrow> 'a counts \<Rightarrow> 'a succs \<Rightarrow> bool" where
  "graph_inv E V np ch \<longleftrightarrow> distinct (map fst np) \<and> distinct (map fst ch) \<and>
     (\<forall>e \<in> set E. snd e \<in> V \<longrightarrow> fst e \<in> V) \<and>
     map_of np = (\<lambda>x. if x \<in> nodes E - V then Some (int (in_count E V x)) else None) \<and>
     map_of ch = (\<lambda>p. if p \<notin> V \<and> succs_of E p \<noteq> [] then Some (succs_of E p) else None)"

lemma map_of_setdefault:
  "map_of (setdefault k v d) = (map_of d)(k \<mapsto> (case map_of d k of None \<Rightarrow> v | Some w \<Rightarrow> w))"
  by (auto simp: setdefault_def fun_eq_iff split: option.splits)

lemma distinct_setdefault: "distinct (map fst d) \<Longrightarrow> distinct (map fst (setdefault k v d))"
  by (simp add: setdefault_def)

lemma in_count_zero_iff: "in_count E V x = 0 \<longleftrightarrow> (\<forall>e \<in> set E. snd e = x \<longrightarrow> fst e \<in> V)"
  by (auto simp: in_count_def filter_empty_conv)

lemma succs_of_nil_iff: "succs_of E p = [] \<longleftrightarrow> p \<notin> fst ` set E"
  by (auto simp: succs_of_def filter_empty_conv)

lemma set_succs_of: "set (succs_of E p) = {x. (p, x) \<in> set E}"
  by (force simp: succs_of_def)

lemma finite_nodes [simp]: "finite (nodes E)"
  by (simp add: nodes_def)

lemma in_count_outside: "x \<notin> nodes E \<Longrightarrow> in_count E V x = 0"
  by (auto simp: in_count_zero_iff nodes_def)

lemma graph_inv_build: "case build_graph E of (np, ch) \<Rightarrow> graph_inv E {} np ch"
proof (induction E rule: rev_induct)
  case Nil
  show ?case by (simp add: build_graph_def graph_inv_def nodes_def succs_of_def)
next
  case (snoc e E)
  obtain np ch where b: "build_graph E = (np, ch)" by fastforce
  obtain a c where e: "e = (a, c)" by fastforce
  have inv: "graph_inv E {} np ch" using snoc b by simp
  let ?np = "setdefault c 0 (setdefault a 0 np)" and ?ch = "setdefault a [] ch"
  let ?np' = "dict_set c (the (map_of ?np c) + 1) ?np" and ?ch' = "dict_set a (the (map_of ?ch a) @ [c]) ?ch"
  have step: "build_graph (E @ [e]) = (?np', ?ch')"
    using b e by (simp add: build_graph_def add_pair_def Let_def)
  have count: "in_count (E @ [e]) {} x = in_count E {} x + (if x = c then 1 else 0)" for x
    by (simp add: in_count_def e)
  have succs: "succs_of (E @ [e]) p = succs_of E p @ (if p = a then [c] else [])" for p
    by (simp add: succs_of_def e)
  have nodes: "nodes (E @ [e]) = insert a (insert c (nodes E))" by (auto simp: nodes_def e)
  have np: "map_of np x = (if x \<in> nodes E then Some (int (in_count E {} x)) else None)"
    and ch: "map_of ch p = (if succs_of E p \<noteq> [] then Some (succs_of E p) else None)" for x p
    using inv by (simp_all add: graph_inv_def)
  have "map_of ?np' x = (if x \<in> nodes (E @ [e]) then Some (int (in_count (E @ [e]) {} x)) else None)" for x
    using in_count_outside [of x E "{}"] by (auto simp: map_of_setdefault np nodes count)
  moreover have "map_of ?ch' p = (if succs_of (E @ [e]) p \<noteq> [] then Some (succs_of (E @ [e]) p) else None)" for p
    by (auto simp: map_of_setdefault ch succs)
  ultimately show ?case
    using inv by (simp add: step graph_inv_def distinct_setdefault fun_eq_iff)
qed

section \<open>One removal\<close>

lemma knock_down_counts:
  assumes "distinct (map fst np)"
    and "\<And>c. c \<in> set cs \<Longrightarrow> \<exists>n. map_of np c = Some n \<and> int (count_list cs c) \<le> n"
  shows "\<exists>np' new. knock_down cs np = Some (np', new) \<and> distinct (map fst np') \<and> distinct new \<and>
    map_of np' = (\<lambda>x. map_option (\<lambda>n. n - int (count_list cs x)) (map_of np x)) \<and>
    set new = {x \<in> set cs. map_of np x = Some (int (count_list cs x))}"
  using assms
proof (induction cs arbitrary: np)
  case Nil
  then show ?case by (simp add: option.map_ident)
next
  case (Cons c cs)
  then obtain n where n: "map_of np c = Some n" "int (count_list (c # cs) c) \<le> n" by (meson list.set_intros(1))
  let ?np = "dict_set c (n - 1) np"
  have "\<exists>m. map_of ?np d = Some m \<and> int (count_list cs d) \<le> m" if "d \<in> set cs" for d
    using Cons.prems(2) [of d] that n by (cases "d = c") auto
  from Cons.IH [OF distinct_dict_set [OF Cons.prems(1)] this] obtain np' new
    where ih: "knock_down cs ?np = Some (np', new)" "distinct (map fst np')" "distinct new"
      "map_of np' = (\<lambda>x. map_option (\<lambda>n. n - int (count_list cs x)) (map_of ?np x))"
      "set new = {x \<in> set cs. map_of ?np x = Some (int (count_list cs x))}" by blast
  have step: "knock_down (c # cs) np = Some (np', if n - 1 = 0 then c # new else new)"
    using n ih(1) by simp
  have zero: "count_list cs c = 0" if "n = 1" using n(2) that by simp
  then have cs: "c \<notin> set cs" if "n = 1" using that by (simp add: count_list_0_iff)
  have "map_of np' x = map_option (\<lambda>n. n - int (count_list (c # cs) x)) (map_of np x)" for x
    using n(1) by (cases "x = c") (simp_all add: ih(4))
  moreover have "x \<in> set (if n - 1 = 0 then c # new else new) \<longleftrightarrow>
      x \<in> set (c # cs) \<and> map_of np x = Some (int (count_list (c # cs) x))" for x
  proof (cases "x = c")
    case True
    show ?thesis
    proof (cases "n = 1")
      case 1: True
      from True zero [OF 1] n(1) 1 show ?thesis by simp
    next
      case 1: False
      have "c \<in> set cs \<or> count_list cs c = 0" by (simp add: count_list_0_iff)
      then have "c \<in> set cs \<and> n - 1 = int (count_list cs c) \<longleftrightarrow> n = int (count_list cs c) + 1"
        using 1 by (elim disjE) (simp_all, arith+)
      with True n(1) 1 show ?thesis by (simp add: ih(5) add.commute)
    qed
  next
    case False
    then show ?thesis by (cases "n = 1") (simp_all add: ih(5))
  qed
  moreover have "distinct (if n - 1 = 0 then c # new else new)"
    using ih(3) cs by (cases "n = 1") (simp_all add: ih(5))
  ultimately show ?case using step ih(2) by blast
qed

lemma in_count_insert:
  "p \<notin> V \<Longrightarrow> in_count E V x = in_count E (insert p V) x + count_list (succs_of E p) x"
  by (induction E) (auto simp: in_count_def succs_of_def)

lemma remove_parent:
  assumes inv: "graph_inv E V np ch" and p: "p \<in> nodes E - V" "in_count E V p = 0"
  obtains np' new where
    "knock_down (case map_of ch p of None \<Rightarrow> [] | Some cs \<Rightarrow> cs) (dict_del p np) = Some (np', new)"
    "graph_inv E (insert p V) np' (dict_del p ch)" "distinct new"
    "set new = {x \<in> nodes E - insert p V. in_count E V x \<noteq> 0 \<and> in_count E (insert p V) x = 0}"
proof -
  let ?cs = "succs_of E p" and ?np = "dict_del p np"
  have cs: "(case map_of ch p of None \<Rightarrow> [] | Some cs \<Rightarrow> cs) = ?cs"
    using inv p(1) by (simp add: graph_inv_def)
  have np: "map_of ?np = (\<lambda>x. if x \<in> nodes E - insert p V then Some (int (in_count E V x)) else None)"
  proof
    fix x
    have "map_of ?np x = (if x = p then None else map_of np x)"
      using inv by (simp add: graph_inv_def)
    with inv show "map_of ?np x = (if x \<in> nodes E - insert p V then Some (int (in_count E V x)) else None)"
      by (simp add: graph_inv_def)
  qed
  have count: "in_count E V x = in_count E (insert p V) x + count_list ?cs x" for x
    by (rule in_count_insert) (use p in simp)
  have sub: "set ?cs \<subseteq> nodes E - insert p V"
  proof
    fix c
    assume "c \<in> set ?cs"
    then have e: "(p, c) \<in> set E" by (simp add: set_succs_of)
    then have "c \<in> nodes E" by (auto simp: nodes_def rev_image_eqI)
    moreover have "\<forall>e \<in> set E. snd e \<in> V \<longrightarrow> fst e \<in> V" using inv by (simp add: graph_inv_def)
    with e p(1) have "c \<notin> V" by fastforce
    moreover have "c \<noteq> p" using e p by (auto simp: in_count_zero_iff)
    ultimately show "c \<in> nodes E - insert p V" by simp
  qed
  then have "\<exists>n. map_of ?np c = Some n \<and> int (count_list ?cs c) \<le> n" if "c \<in> set ?cs" for c
    using that by (auto simp: np count)
  moreover have "distinct (map fst ?np)" using inv by (simp add: graph_inv_def)
  ultimately obtain np' new where k: "knock_down ?cs ?np = Some (np', new)" "distinct (map fst np')" "distinct new"
    "map_of np' = (\<lambda>x. map_option (\<lambda>n. n - int (count_list ?cs x)) (map_of ?np x))"
    "set new = {x \<in> set ?cs. map_of ?np x = Some (int (count_list ?cs x))}"
    using knock_down_counts [of ?np ?cs] by blast
  have "graph_inv E (insert p V) np' (dict_del p ch)"
  proof -
    have "\<forall>e \<in> set E. snd e \<in> insert p V \<longrightarrow> fst e \<in> insert p V"
      using inv p(2) by (auto simp: graph_inv_def in_count_zero_iff)
    moreover have "map_of np' = (\<lambda>x. if x \<in> nodes E - insert p V then Some (int (in_count E (insert p V) x)) else None)"
      by (simp add: k(4) np count fun_eq_iff)
    moreover have "map_of (dict_del p ch) = (\<lambda>q. if q \<notin> insert p V \<and> succs_of E q \<noteq> [] then Some (succs_of E q) else None)"
    proof
      fix q
      have "map_of (dict_del p ch) q = (if q = p then None else map_of ch q)"
        using inv by (simp add: graph_inv_def)
      with inv show "map_of (dict_del p ch) q =
          (if q \<notin> insert p V \<and> succs_of E q \<noteq> [] then Some (succs_of E q) else None)"
        by (simp add: graph_inv_def)
    qed
    ultimately show ?thesis using inv k(2) by (simp add: graph_inv_def)
  qed
  moreover have "set new = {x \<in> nodes E - insert p V. in_count E V x \<noteq> 0 \<and> in_count E (insert p V) x = 0}"
    using sub k(5) by (auto simp: np count count_list_0_iff)
  ultimately show thesis using that k(1,3) cs by simp
qed

section \<open>The order\<close>

definition before :: "'a list \<Rightarrow> 'a \<Rightarrow> 'a \<Rightarrow> bool" where
  "before xs a b \<longleftrightarrow> (\<exists>ys zs. xs = ys @ b # zs \<and> a \<in> set ys)"

lemma before_append: "before xs a b \<Longrightarrow> before (xs @ ys) a b"
  by (force simp: before_def)

lemma before_snoc: "a \<in> set xs \<Longrightarrow> before (xs @ [b]) a b"
  by (auto simp: before_def)

text \<open>
  The invariant of the loop: \<open>V\<close> is visited, \<open>T\<close> is the rest of the answer; what is left
  and has no parent left is in \<open>T\<close>, and the visited part is in dependency order.
\<close>

definition loop_inv :: "('a \<times> 'a) list \<Rightarrow> 'a list \<Rightarrow> 'a list \<Rightarrow> bool" where
  "loop_inv E V T \<longleftrightarrow> distinct (V @ T) \<and> set V \<subseteq> nodes E \<and>
     set T = {x \<in> nodes E - set V. in_count E (set V) x = 0} \<and>
     (\<forall>(a, b) \<in> set E. b \<in> set V \<longrightarrow> before V a b)"

lemma loop_inv_step:
  assumes inv: "loop_inv E V (p # T)" and new: "distinct new"
    "set new = {x \<in> nodes E - insert p (set V). in_count E (set V) x \<noteq> 0 \<and> in_count E (insert p (set V)) x = 0}"
  shows "loop_inv E (V @ [p]) (T @ new)"
proof -
  have p: "p \<in> nodes E" "p \<notin> set V" "in_count E (set V) p = 0"
    and T: "set (p # T) = {x \<in> nodes E - set V. in_count E (set V) x = 0}"
    using inv by (auto simp: loop_inv_def)
  have mono: "in_count E (insert p (set V)) x = 0" if "in_count E (set V) x = 0" for x
    using that by (auto simp: in_count_zero_iff)
  have "set (T @ new) = {x \<in> nodes E - set (V @ [p]). in_count E (set (V @ [p])) x = 0}"
    using T new(2) mono inv by (auto simp: loop_inv_def)
  moreover have "distinct ((V @ [p]) @ (T @ new))"
    using inv new by (auto simp: loop_inv_def)
  moreover have "\<forall>(a, b) \<in> set E. b \<in> set (V @ [p]) \<longrightarrow> before (V @ [p]) a b"
    using inv p(3) by (force simp: loop_inv_def in_count_zero_iff intro: before_append before_snoc)
  ultimately show ?thesis using inv p by (simp add: loop_inv_def)
qed

lemma topsort_loop_inv:
  assumes "graph_inv E (set V) np ch" "loop_inv E V T"
  shows "\<exists>W np' ch'. topsort_loop (V @ T) T np ch = Some (W, np', ch') \<and> graph_inv E (set W) np' ch' \<and> loop_inv E W []"
  using assms
proof (induction "length np" arbitrary: V T np ch rule: less_induct)
  case less
  show ?case
  proof (cases T)
    case Nil
    with less.prems show ?thesis by auto
  next
    case (Cons p T')
    have p: "p \<in> nodes E - set V" "in_count E (set V) p = 0"
      using less.prems(2) Cons by (auto simp: loop_inv_def)
    obtain np' new where k:
      "knock_down (case map_of ch p of None \<Rightarrow> [] | Some cs \<Rightarrow> cs) (dict_del p np) = Some (np', new)"
      "graph_inv E (insert p (set V)) np' (dict_del p ch)" "distinct new"
      "set new = {x \<in> nodes E - insert p (set V). in_count E (set V) x \<noteq> 0 \<and> in_count E (insert p (set V)) x = 0}"
      using remove_parent [OF less.prems(1) p] .
    have has: "map_of np p \<noteq> None" using less.prems(1) p by (simp add: graph_inv_def)
    have "length np' < length np"
      using knock_down_length [OF k(1)] length_dict_del [of p np] has dict_has_iff [of np p] by simp
    moreover have "graph_inv E (set (V @ [p])) np' (dict_del p ch)" using k(2) by simp
    moreover have "loop_inv E (V @ [p]) (T' @ new)"
      using loop_inv_step [OF _ k(3,4)] less.prems(2) Cons by simp
    ultimately have "\<exists>W np2 ch2. topsort_loop ((V @ [p]) @ (T' @ new)) (T' @ new) np' (dict_del p ch) = Some (W, np2, ch2)
        \<and> graph_inv E (set W) np2 ch2 \<and> loop_inv E W []"
      by (rule less.hyps)
    then show ?thesis using Cons k(1) has by simp
  qed
qed

text \<open>What is left over at the end has a parent left, so it lies on or behind a cycle.\<close>

lemma index_less: "distinct xs \<Longrightarrow> before xs a b \<Longrightarrow>
    length (takeWhile (\<lambda>x. x \<noteq> a) xs) < length (takeWhile (\<lambda>x. x \<noteq> b) xs)"
  by (auto simp: before_def takeWhile_append split_list dest!: split_list)

lemma loop_inv_end:
  assumes "loop_inv E W []"
  shows "nodes E \<subseteq> set W \<longleftrightarrow> acyclic (set E)"
proof
  assume "nodes E \<subseteq> set W"
  then have "\<forall>(a, b) \<in> set E. before W a b"
    using assms by (force simp: loop_inv_def nodes_def)
  then have "- int (length (takeWhile (\<lambda>x. x \<noteq> b) W)) < - int (length (takeWhile (\<lambda>x. x \<noteq> a) W))"
    if "(a, b) \<in> set E" for a b
    using that index_less [of W a b] assms by (auto simp: loop_inv_def)
  then show "acyclic (set E)" by (rule acyclicI_order)
next
  assume ac: "acyclic (set E)"
  show "nodes E \<subseteq> set W"
  proof (rule ccontr)
    assume "\<not> nodes E \<subseteq> set W"
    then obtain x where x: "x \<in> nodes E - set W" by auto
    have "wf (set E)" by (rule finite_acyclic_wf) (simp_all add: ac)
    then obtain z where z: "z \<in> nodes E - set W" "\<And>y. (y, z) \<in> set E \<Longrightarrow> y \<notin> nodes E - set W"
      using x by (rule wfE_min) blast
    then have "in_count E (set W) z = 0" by (force simp: in_count_zero_iff nodes_def)
    with z(1) assms show False by (auto simp: loop_inv_def)
  qed
qed


section \<open>Sorting with any order of the keys\<close>

text \<open>What the code relies on of the dictionaries: each key is given once.\<close>

locale key_order =
  fixes ord :: "'a counts \<Rightarrow> 'a list"
  assumes keys_once: "mset (ord np) = mset (map fst np)"
begin

lemma set_ord: "set (ord np) = fst ` set np"
  by (metis keys_once list.set_map set_mset_mset)

lemma distinct_ord: "distinct (ord np) \<longleftrightarrow> distinct (map fst np)"
  by (metis keys_once mset_eq_imp_distinct_iff)

text \<open>The elements without a parent, of the elements that are left.\<close>

lemma free_elements:
  assumes "graph_inv E V np ch"
  shows "set (filter (\<lambda>x. map_of np x = Some 0) (ord np)) = {x \<in> nodes E - V. in_count E V x = 0}"
    "distinct (filter (\<lambda>x. map_of np x = Some 0) (ord np))"
proof -
  have "map_of np = (\<lambda>x. if x \<in> nodes E - V then Some (int (in_count E V x)) else None)"
    using assms by (simp add: graph_inv_def)
  then have "map_of np x = Some 0 \<longleftrightarrow> x \<in> nodes E - V \<and> in_count E V x = 0" for x by simp
  moreover have "map_of np x = Some 0 \<Longrightarrow> x \<in> set (ord np)" for x
    by (simp add: set_ord map_of_SomeD_key)
  ultimately show "set (filter (\<lambda>x. map_of np x = Some 0) (ord np)) = {x \<in> nodes E - V. in_count E V x = 0}"
    by (auto simp: set_filter)
  show "distinct (filter (\<lambda>x. map_of np x = Some 0) (ord np))"
    using assms by (simp add: distinct_ord graph_inv_def)
qed

lemma topsort_cases:
  "\<exists>W np ch. loop_inv E W [] \<and> (np = [] \<longleftrightarrow> nodes E \<subseteq> set W) \<and>
     topsort ord E = (if np \<noteq> [] then Inl (CycleError W np ch) else Inr W)"
proof -
  obtain np ch where b: "build_graph E = (np, ch)" by fastforce
  then have inv: "graph_inv E {} np ch" using graph_inv_build [of E] by simp
  let ?a = "filter (\<lambda>x. map_of np x = Some 0) (ord np)"
  have "loop_inv E [] ?a"
    using free_elements [OF inv] by (simp add: loop_inv_def)
  then obtain W np' ch' where w: "topsort_loop ?a ?a np ch = Some (W, np', ch')"
      "graph_inv E (set W) np' ch'" "loop_inv E W []"
    using topsort_loop_inv [of E "[]" np ch ?a] inv by auto
  have "np' = [] \<longleftrightarrow> map_of np' = Map.empty" by simp
  also have "\<dots> \<longleftrightarrow> nodes E \<subseteq> set W"
    using w(2) by (auto simp: graph_inv_def fun_eq_iff split: if_splits)
  finally have "np' = [] \<longleftrightarrow> nodes E \<subseteq> set W" .
  moreover have "topsort ord E = (if np' \<noteq> [] then Inl (CycleError W np' ch') else Inr W)"
    using b w(1) by (simp add: topsort_def)
  ultimately show ?thesis using w(3) by blast
qed

lemma topsort_Inr:
  assumes "topsort ord E = Inr ans"
  shows "distinct ans" "set ans = nodes E" "(a, b) \<in> set E \<Longrightarrow> before ans a b"
proof -
  from topsort_cases [of E] assms have w: "loop_inv E ans []" "nodes E \<subseteq> set ans"
    by (auto split: if_splits)
  then show "distinct ans" "set ans = nodes E" by (auto simp: loop_inv_def)
  assume "(a, b) \<in> set E"
  moreover from this have "b \<in> set ans" using w(2) by (auto simp: nodes_def rev_image_eqI)
  ultimately show "before ans a b" using w(1) by (auto simp: loop_inv_def)
qed

lemma topsort_succeeds_iff: "(\<exists>ans. topsort ord E = Inr ans) \<longleftrightarrow> acyclic (set E)"
proof -
  obtain W np ch where w: "loop_inv E W []" "np = [] \<longleftrightarrow> nodes E \<subseteq> set W"
      "topsort ord E = (if np \<noteq> [] then Inl (CycleError W np ch) else Inr W)"
    using topsort_cases [of E] by blast
  have "np = [] \<longleftrightarrow> acyclic (set E)" using w(2) loop_inv_end [OF w(1)] by blast
  then show ?thesis using w(3) by simp
qed

lemma remove_level_inv:
  assumes "graph_inv E V np ch" "distinct ps" "set ps \<subseteq> {x \<in> nodes E - V. in_count E V x = 0}"
  shows "\<exists>np' ch'. remove_level ps np ch = Some (np', ch') \<and> graph_inv E (V \<union> set ps) np' ch'"
  using assms
proof (induction ps arbitrary: V np ch)
  case (Cons p ps)
  then have p: "p \<in> nodes E - V" "in_count E V p = 0" by auto
  obtain np' new where k:
    "knock_down (case map_of ch p of None \<Rightarrow> [] | Some cs \<Rightarrow> cs) (dict_del p np) = Some (np', new)"
    "graph_inv E (insert p V) np' (dict_del p ch)"
    using remove_parent [OF Cons.prems(1) p] by metis
  have "set ps \<subseteq> {x \<in> nodes E - insert p V. in_count E (insert p V) x = 0}"
    using Cons.prems by (force simp: in_count_zero_iff)
  with Cons.IH [OF k(2)] Cons.prems(2) obtain np2 ch2
    where "remove_level ps np' (dict_del p ch) = Some (np2, ch2)" "graph_inv E (insert p V \<union> set ps) np2 ch2"
    by auto
  moreover have "map_of np p \<noteq> None" using Cons.prems(1) p by (simp add: graph_inv_def)
  ultimately show ?case using k(1) by auto
qed simp

end

text \<open>Python 3.7 and later give the keys in the order of insertion.\<close>

interpretation insertion: key_order "map fst"
  by unfold_locales simp

section \<open>Levels\<close>

text \<open>
  The specification of the levels: each holds all elements that are left and whose parents
  are all in the levels before; the last leaves no such element.
\<close>

fun level_seq :: "('a \<times> 'a) list \<Rightarrow> 'a set \<Rightarrow> 'a list list \<Rightarrow> bool" where
  "level_seq E V [] = ({x \<in> nodes E - V. \<forall>(a, b) \<in> set E. b = x \<longrightarrow> a \<in> V} = {})"
| "level_seq E V (l # ls) =
     (l \<noteq> [] \<and> distinct l \<and> set l = {x \<in> nodes E - V. \<forall>(a, b) \<in> set E. b = x \<longrightarrow> a \<in> V} \<and>
      level_seq E (V \<union> set l) ls)"

lemma in_count_zero_pairs: "in_count E V x = 0 \<longleftrightarrow> (\<forall>(a, b) \<in> set E. b = x \<longrightarrow> a \<in> V)"
  by (auto simp: in_count_zero_iff)

context key_order
begin

lemma levels_loop_spec:
  assumes "graph_inv E V np ch" "levels_loop ord np ch = (ls, r)"
  shows "level_seq E V ls \<and> distinct (concat ls) \<and> V \<inter> set (concat ls) = {} \<and> set (concat ls) \<subseteq> nodes E \<and>
    (r = Inr () \<longleftrightarrow> nodes E \<subseteq> V \<union> set (concat ls))"
  using assms
proof (induction "length np" arbitrary: V np ch ls r rule: less_induct)
  case less
  let ?l = "filter (\<lambda>x. map_of np x = Some 0) (ord np)"
  note free = free_elements [OF less.prems(1)]
  have np_nil: "np = [] \<longleftrightarrow> nodes E \<subseteq> V"
  proof -
    have "np = [] \<longleftrightarrow> map_of np = Map.empty" by simp
    also have "\<dots> \<longleftrightarrow> nodes E \<subseteq> V"
      using less.prems(1) by (auto simp: graph_inv_def fun_eq_iff split: if_splits)
    finally show ?thesis .
  qed
  show ?case
  proof (cases "?l = []")
    case True
    with less.prems(2) have "ls = []" "r = (if np \<noteq> [] then Inl (CycleError [] np ch) else Inr ())"
      by (simp_all add: levels_loop.simps [of ord np ch] Let_def)
    with free(1) True np_nil show ?thesis by (auto simp: in_count_zero_pairs)
  next
    case False
    obtain np' ch' where rem: "remove_level ?l np ch = Some (np', ch')" "graph_inv E (V \<union> set ?l) np' ch'"
      using remove_level_inv [OF less.prems(1) free(2)] free(1) by blast
    obtain ls' where ls: "ls = ?l # ls'" "levels_loop ord np' ch' = (ls', r)"
      using less.prems(2) False rem(1)
      by (simp add: levels_loop.simps [of ord np ch] Let_def split: prod.splits)
    have "length ?l > 0" using False by (simp only: length_greater_0_conv not_False_eq_True)
    then have "length np' < length np" using remove_level_length [OF rem(1)] by linarith
    from less.hyps [OF this rem(2) ls(2)]
    have ih: "level_seq E (V \<union> set ?l) ls'" "distinct (concat ls')" "(V \<union> set ?l) \<inter> set (concat ls') = {}"
      "set (concat ls') \<subseteq> nodes E" "r = Inr () \<longleftrightarrow> nodes E \<subseteq> V \<union> set ?l \<union> set (concat ls')" by auto
    define l where "l = ?l"
    have l: "l \<noteq> []" "distinct l" "set l = {x \<in> nodes E - V. \<forall>(a, b) \<in> set E. b = x \<longrightarrow> a \<in> V}"
      using False free unfolding l_def by (simp_all only: in_count_zero_pairs not_False_eq_True)
    then have sub: "set l \<subseteq> nodes E - V" by blast
    note ih = ih [folded l_def]
    have "level_seq E V (l # ls')" using l ih(1) by simp
    moreover have "distinct (concat (l # ls'))" using l(2) ih(2,3) by auto
    moreover have "V \<inter> set (concat (l # ls')) = {}" using sub ih(3) by auto
    moreover have "set (concat (l # ls')) \<subseteq> nodes E" using sub ih(4) by auto
    moreover have "r = Inr () \<longleftrightarrow> nodes E \<subseteq> V \<union> set (concat (l # ls'))" using ih(5) by (simp add: Un_assoc)
    ultimately show ?thesis unfolding ls(1) l_def [symmetric] by blast
  qed
qed

end

text \<open>The levels, one after the other, are a complete run of the other sorting.\<close>

lemma level_seq_loop_inv:
  assumes "level_seq E (set W) ls" "distinct W" "set W \<subseteq> nodes E"
    "\<forall>(a, b) \<in> set E. b \<in> set W \<longrightarrow> before W a b"
  shows "loop_inv E (W @ concat ls) []"
  using assms
proof (induction ls arbitrary: W)
  case Nil
  then have "{x \<in> nodes E - set W. in_count E (set W) x = 0} = {}" by (simp only: level_seq.simps in_count_zero_pairs)
  with Nil show ?case by (simp add: loop_inv_def)
next
  case (Cons l ls)
  have l: "distinct l" "set l = {x \<in> nodes E - set W. \<forall>(a, b) \<in> set E. b = x \<longrightarrow> a \<in> set W}"
    "level_seq E (set (W @ l)) ls"
    using Cons.prems(1) unfolding level_seq.simps set_append by blast+
  have "before (W @ l) a b" if e: "(a, b) \<in> set E" "b \<in> set (W @ l)" for a b
  proof (cases "b \<in> set W")
    case True
    with Cons.prems(4) e show ?thesis by (auto intro: before_append)
  next
    case False
    with e l(2) have a: "a \<in> set W" and "b \<in> set l" by auto
    then obtain l1 l2 where "l = l1 @ b # l2" by (meson split_list)
    with a show ?thesis unfolding before_def by (metis Un_iff append.assoc set_append)
  qed
  then have "\<forall>(a, b) \<in> set E. b \<in> set (W @ l) \<longrightarrow> before (W @ l) a b" by blast
  moreover have "distinct (W @ l)" "set (W @ l) \<subseteq> nodes E" using Cons.prems(2,3) l(1,2) by auto
  ultimately have "loop_inv E ((W @ l) @ concat ls) []" using l(3) by (intro Cons.IH)
  then show ?case by simp
qed

section \<open>Properties of the sorting\<close>

text \<open>C6: whatever order the dictionary gives its keys in: a returned list holds every element of
  the pairs exactly once, each parent before its children.
\<close>

theorem topsort_sorts:
  assumes "\<And>np. mset (ord np) = mset (map fst np)" "topsort ord pairs = Inr ans"
  shows "distinct ans \<and> set ans = nodes pairs \<and> (\<forall>(a, b) \<in> set pairs. before ans a b)"
  using key_order.topsort_Inr [OF key_order.intro [OF assms(1)] assms(2)] by blast

theorem topsort_sorts_witness:
  "\<exists>ans. topsort (map fst) [(1::nat, 2), (1, 3), (2, 4), (3, 4)] = Inr ans \<and> distinct ans \<and>
     set ans = {1, 2, 3, 4} \<and> before ans 3 4"
proof -
  have a: "topsort (map fst) [(1::nat, 2), (1, 3), (2, 4), (3, 4)] = Inr [1, 2, 3, 4]"
    by code_simp
  from topsort_sorts [OF _ a] have "distinct [1::nat, 2, 3, 4]" "before [1, 2, 3, 4::nat] 3 4"
    by (simp_all add: nodes_def)
  with a show ?thesis by auto
qed

text \<open>The pairs are sorted exactly when they have no cycle; otherwise \<open>CycleError\<close> is raised, with
  the elements that are left, and no other error occurs.
\<close>

theorem topsort_detects_cycles:
  assumes "\<And>np. mset (ord np) = mset (map fst np)"
  shows "if acyclic (set pairs) then \<exists>ans. topsort ord pairs = Inr ans
    else \<exists>answer np ch. topsort ord pairs = Inl (CycleError answer np ch) \<and> np \<noteq> []"
proof -
  note ko = key_order.intro [OF assms]
  note iff = key_order.topsort_succeeds_iff [OF ko, of pairs]
  obtain W np ch where "topsort ord pairs = (if np \<noteq> [] then Inl (CycleError W np ch) else Inr W)"
    using key_order.topsort_cases [OF ko, of pairs] by blast
  then show ?thesis using iff by (cases "np = []") simp_all
qed

theorem topsort_detects_cycles_witness:
  "\<not> acyclic (set [(1::nat, 2), (2, 3), (3, 2)]) \<and>
   (\<exists>answer np ch. topsort (map fst) [(1::nat, 2), (2, 3), (3, 2)] = Inl (CycleError answer np ch) \<and> np \<noteq> [])"
proof -
  have "(2, 2) \<in> (set [(1::nat, 2), (2, 3), (3, 2)])\<^sup>+"
    by (rule trancl_into_trancl [of 2 3]) auto
  then have "\<not> acyclic (set [(1::nat, 2), (2, 3), (3, 2)])" unfolding acyclic_def by blast
  moreover have "\<And>np. mset (map fst np) = mset (map fst (np :: nat counts))" by (rule refl)
  note topsort_detects_cycles [of "map fst" "[(1::nat, 2), (2, 3), (3, 2)]", OF this]
  ultimately show ?thesis by (simp only: if_False simp_thms)
qed

text \<open>Each level that \<open>topsort_levels\<close> yields holds exactly the elements whose parents are all in
  earlier levels; it ends without an error exactly when there is no cycle, and has then
  yielded the elements that \<open>topsort\<close> returns.
\<close>

theorem topsort_levels_correct:
  assumes "\<And>np. mset (ord np) = mset (map fst np)" "topsort_levels ord pairs = (ls, r)"
  shows "level_seq pairs {} ls \<and> (r = Inr () \<longleftrightarrow> acyclic (set pairs)) \<and>
    (\<forall>ans. topsort ord pairs = Inr ans \<longrightarrow> mset (concat ls) = mset ans)"
proof -
  note ko = key_order.intro [OF assms(1)]
  obtain np ch where b: "build_graph pairs = (np, ch)" by fastforce
  then have "graph_inv pairs {} np ch" "levels_loop ord np ch = (ls, r)"
    using graph_inv_build [of pairs] assms(2) by (simp_all add: topsort_levels_def)
  from key_order.levels_loop_spec [OF ko this]
  have ls: "level_seq pairs {} ls" "distinct (concat ls)" "set (concat ls) \<subseteq> nodes pairs"
    "r = Inr () \<longleftrightarrow> nodes pairs \<subseteq> set (concat ls)" by simp_all
  have "loop_inv pairs (concat ls) []" using level_seq_loop_inv [of pairs "[]" ls] ls(1) by simp
  from loop_inv_end [OF this] ls(4) have r: "r = Inr () \<longleftrightarrow> acyclic (set pairs)" by simp
  have "mset (concat ls) = mset ans" if t: "topsort ord pairs = Inr ans" for ans
  proof -
    from key_order.topsort_Inr [OF ko t] have "distinct ans" "set ans = nodes pairs" by blast+
    moreover have "set (concat ls) = nodes pairs"
      using ls(3,4) r t key_order.topsort_succeeds_iff [OF ko, of pairs] by blast
    ultimately show ?thesis using ls(2) by (metis mset_set_set)
  qed
  with ls(1) r show ?thesis by blast
qed

theorem topsort_levels_correct_witness:
  "\<exists>ls r. topsort_levels (map fst) [(1::nat, 2), (1, 3), (2, 3)] = (ls, r) \<and>
     level_seq [(1::nat, 2), (1, 3), (2, 3)] {} ls \<and> ls = [[1], [2], [3]]"
proof -
  have ls: "topsort_levels (map fst) [(1::nat, 2), (1, 3), (2, 3)] = ([[1], [2], [3]], Inr ())"
    by code_simp
  have "\<And>np. mset (map fst np) = mset (map fst (np :: nat counts))" by (rule refl)
  from topsort_levels_correct [OF this ls] show ?thesis using ls by blast
qed


end
