(* ===== verification/Find_Cycles.thy ===== *)
theory Find_Cycles
  imports Rad_Util
begin

text \<open>
  \<open>find_cycles\<close> of \<^verbatim>\<open>src/bindings/python/topsort.py\<close>: a search with a stack of paths
  that yields the cycles of a graph, given as a dictionary from parents to children.  The
  order in which the dictionary gives its keys is the argument \<open>keys\<close>; the stack is a list
  with its top first; what the generator yields is a list.  The proofs show that exactly one
  rotation of each cycle is yielded.
\<close>

section \<open>Model\<close>

type_synonym 'a graph = "('a \<times> 'a list) list"

text \<open>\<open>is_dup\<close>: whether the cycle is a rotation of one yielded before.\<close>

fun is_dup :: "'a list list \<Rightarrow> 'a list \<Rightarrow> bool res" where
  "is_dup [] cycle = Inr False"
| "is_dup (other # cycles) cycle =
     res_bind (is_rotated other cycle) (\<lambda>r. if r then Inr True else is_dup cycles cycle)"

text \<open>The loop over the children of the end of a path: yielded cycles, pushed paths, visited nodes.\<close>

fun scan_children ::
  "'a list \<Rightarrow> 'a list \<Rightarrow> 'a list list \<Rightarrow> 'a list list \<Rightarrow> 'a list \<Rightarrow> ('a list list \<times> 'a list list \<times> 'a list) res" where
  "scan_children path [] cycles pushed visited = Inr (cycles, pushed, visited)"
| "scan_children path (child # children) cycles pushed visited =
     (if child \<in> set path then
        (let cycle = dropWhile (\<lambda>x. x \<noteq> child) path in
         res_bind (is_dup cycles cycle) (\<lambda>dup.
           scan_children path children (if dup then cycles else cycles @ [cycle]) pushed visited))
      else scan_children path children cycles (pushed @ [path @ [child]]) (List.insert child visited))"

definition targets :: "'a graph \<Rightarrow> 'a set" where
  "targets g = (\<Union>e \<in> set g. set (snd e))"

lemma finite_targets [simp]: "finite (targets g)"
  by (simp add: targets_def)

lemma scan_children_pushed:
  "scan_children path children cycles pushed visited = Inr (cycles', pushed', visited') \<Longrightarrow>
    pushed' = pushed @ map (\<lambda>c. path @ [c]) (filter (\<lambda>c. c \<notin> set path) children)"
  by (induction path children cycles pushed visited rule: scan_children.induct)
     (auto simp: Let_def res_bind_eq_Inr split: if_splits)

text \<open>A path is replaced by longer ones without repetition: fewer nodes are left to each.\<close>

definition left_over :: "'a graph \<Rightarrow> 'a list list \<Rightarrow> nat multiset" where
  "left_over g paths = mset (map (\<lambda>p. card (targets g - set p)) paths)"

lemma left_over_replace:
  assumes "\<And>p. p \<in> set new \<Longrightarrow> card (targets g - set p) < card (targets g - set path)"
  shows "(left_over g (new @ paths), left_over g (path # paths)) \<in> mult less_than"
proof -
  have "(left_over g paths + left_over g new, left_over g paths + {#card (targets g - set path)#}) \<in> mult less_than"
    by (rule one_step_implies_mult) (use assms in \<open>auto simp: left_over_def\<close>)
  then show ?thesis by (simp add: left_over_def add.commute)
qed

function find_loop :: "'a graph \<Rightarrow> 'a list list \<Rightarrow> 'a list list \<Rightarrow> 'a list \<Rightarrow> ('a list list \<times> 'a list) res" where
  "find_loop g [] cycles visited = Inr (cycles, visited)"
| "find_loop g (path # paths) cycles visited =
     (case map_of g (last path) of
        None \<Rightarrow> find_loop g paths cycles visited
      | Some children \<Rightarrow>
          (case scan_children path children cycles [] visited of
             Inl e \<Rightarrow> Inl e
           | Inr (cycles', pushed, visited') \<Rightarrow> find_loop g (rev pushed @ paths) cycles' visited'))"
  by pat_completeness auto

termination
proof (relation "inv_image (mult less_than) (\<lambda>(g, paths, cycles, visited). left_over g paths)", goal_cases)
  case 1
  show ?case by (simp add: wf_mult)
next
  case (2 g path paths cycles visited)
  show ?case using left_over_replace [of "[]" g path paths] by simp
next
  case (3 g path paths cycles visited children s cycles' t pushed visited')
  then have "pushed = map (\<lambda>c. path @ [c]) (filter (\<lambda>c. c \<notin> set path) children)"
    using scan_children_pushed [of path children cycles "[]" visited cycles' pushed visited'] by simp
  moreover have "c \<in> targets g" if "c \<in> set children" for c
    using that map_of_SomeD [OF 3(1)] by (force simp: targets_def)
  ultimately have "card (targets g - set p) < card (targets g - set path)" if "p \<in> set (rev pushed)" for p
    using that by (auto intro!: psubset_card_mono)
  then show ?case using left_over_replace [of "rev pushed" g path paths] by simp
qed

fun find_roots :: "'a graph \<Rightarrow> 'a list \<Rightarrow> 'a list list \<Rightarrow> 'a list \<Rightarrow> 'a list list res" where
  "find_roots g [] cycles visited = Inr cycles"
| "find_roots g (r # rs) cycles visited =
     (if r \<in> set visited then find_roots g rs cycles visited
      else res_bind (find_loop g [[r]] cycles visited) (\<lambda>(cycles, visited). find_roots g rs cycles visited))"

definition find_cycles :: "'a list \<Rightarrow> 'a graph \<Rightarrow> 'a list list res" where
  "find_cycles keys parent_children = find_roots parent_children keys [] []"

section \<open>Paths and cycles of a graph\<close>

definition edge :: "'a graph \<Rightarrow> 'a \<Rightarrow> 'a \<Rightarrow> bool" where
  "edge g a b \<longleftrightarrow> (\<exists>cs. map_of g a = Some cs \<and> b \<in> set cs)"

definition simple_path :: "'a graph \<Rightarrow> 'a list \<Rightarrow> bool" where
  "simple_path g p \<longleftrightarrow> p \<noteq> [] \<and> distinct p \<and> successively (edge g) p"

definition is_cycle :: "'a graph \<Rightarrow> 'a list \<Rightarrow> bool" where
  "is_cycle g c \<longleftrightarrow> simple_path g c \<and> edge g (last c) (hd c)"

text \<open>A cycle is known when a rotation of it has been yielded.\<close>

definition known :: "'a list list \<Rightarrow> 'a list \<Rightarrow> bool" where
  "known cycles c \<longleftrightarrow> (\<exists>d \<in> set cycles. \<exists>n. rotate n d = c)"

definition all_different :: "'a list list \<Rightarrow> bool" where
  "all_different cycles \<longleftrightarrow> sorted_wrt (\<lambda>a b. \<forall>n. rotate n a \<noteq> b) cycles"

lemma known_mono: "known cycles c \<Longrightarrow> set cycles \<subseteq> set cycles' \<Longrightarrow> known cycles' c"
  by (auto simp: known_def)

lemma is_dup_known:
  "c \<noteq> [] \<Longrightarrow> is_dup cycles c = Inr (known cycles c)"
  by (induction cycles) (auto simp: is_rotated_iff known_def)

lemma simple_path_snoc:
  "p \<noteq> [] \<Longrightarrow> simple_path g (p @ [c]) \<longleftrightarrow> simple_path g p \<and> c \<notin> set p \<and> edge g (last p) c"
  by (auto simp: simple_path_def successively_append_iff)

lemma simple_path_prefix: "simple_path g (p @ q) \<Longrightarrow> p \<noteq> [] \<Longrightarrow> simple_path g p"
  by (auto simp: simple_path_def successively_append_iff)

lemma back_edge_cycle:
  assumes "simple_path g p" "c \<in> set p" "edge g (last p) c"
  shows "is_cycle g (dropWhile (\<lambda>x. x \<noteq> c) p)"
proof -
  obtain p1 p2 where p: "p = p1 @ c # p2" "c \<notin> set p1" using assms(2) by (meson split_list_first)
  then have "dropWhile (\<lambda>x. x \<noteq> c) p = c # p2" by (induction p1 arbitrary: p) auto
  with assms p show ?thesis
    by (auto simp: is_cycle_def simple_path_def successively_append_iff)
qed

section \<open>The search\<close>

lemma dropWhile_member: "c \<in> set p \<Longrightarrow> dropWhile (\<lambda>x. x \<noteq> c) p \<noteq> []"
  by (induction p) auto

text \<open>One path: its back edges are known afterwards, and nothing else is added.\<close>

lemma scan_children_spec:
  "\<exists>cycles' pushed' visited'. scan_children path children cycles pushed visited = Inr (cycles', pushed', visited') \<and>
     set visited' = set visited \<union> {c \<in> set children. c \<notin> set path} \<and>
     set cycles \<subseteq> set cycles' \<and>
     (\<forall>c \<in> set children. c \<in> set path \<longrightarrow> known cycles' (dropWhile (\<lambda>x. x \<noteq> c) path)) \<and>
     (\<forall>d \<in> set cycles'. d \<in> set cycles \<or> (\<exists>c \<in> set children. c \<in> set path \<and> d = dropWhile (\<lambda>x. x \<noteq> c) path)) \<and>
     (all_different cycles \<longrightarrow> all_different cycles')"
proof (induction children arbitrary: cycles pushed visited)
  case (Cons c cs)
  show ?case
  proof (cases "c \<in> set path")
    case False
    obtain cycles' pushed' visited' where ih:
      "scan_children path cs cycles (pushed @ [path @ [c]]) (List.insert c visited) = Inr (cycles', pushed', visited')"
      "set visited' = set (List.insert c visited) \<union> {c \<in> set cs. c \<notin> set path}"
      "set cycles \<subseteq> set cycles'"
      "\<forall>c \<in> set cs. c \<in> set path \<longrightarrow> known cycles' (dropWhile (\<lambda>x. x \<noteq> c) path)"
      "\<forall>d \<in> set cycles'. d \<in> set cycles \<or> (\<exists>c \<in> set cs. c \<in> set path \<and> d = dropWhile (\<lambda>x. x \<noteq> c) path)"
      "all_different cycles \<longrightarrow> all_different cycles'"
      using Cons.IH [of cycles "pushed @ [path @ [c]]" "List.insert c visited"] by blast
    have "set visited' = set visited \<union> {c' \<in> set (c # cs). c' \<notin> set path}" using ih(2) False by auto
    moreover have "scan_children path (c # cs) cycles pushed visited = Inr (cycles', pushed', visited')"
      using ih(1) False by simp
    moreover have "\<forall>c' \<in> set (c # cs). c' \<in> set path \<longrightarrow> known cycles' (dropWhile (\<lambda>x. x \<noteq> c') path)"
      using ih(4) False by simp
    moreover have "d \<in> set cycles \<or> (\<exists>c' \<in> set (c # cs). c' \<in> set path \<and> d = dropWhile (\<lambda>x. x \<noteq> c') path)"
      if "d \<in> set cycles'" for d
      using that ih(5) by (metis list.set_intros(2))
    ultimately show ?thesis using ih(3,6) by blast
  next
    case True
    let ?d = "dropWhile (\<lambda>x. x \<noteq> c) path"
    let ?cycles = "if known cycles ?d then cycles else cycles @ [?d]"
    have dup: "is_dup cycles ?d = Inr (known cycles ?d)" by (rule is_dup_known) (rule dropWhile_member [OF True])
    have known: "known ?cycles ?d"
    proof (cases "known cycles ?d")
      case False
      then show ?thesis by (auto simp: known_def intro: exI [of _ 0])
    qed simp
    have different: "all_different cycles \<longrightarrow> all_different ?cycles"
      by (auto simp: all_different_def sorted_wrt_append known_def)
    have new: "set cycles \<subseteq> set ?cycles" "\<forall>d \<in> set ?cycles. d \<in> set cycles \<or> d = ?d" by auto
    obtain cycles' pushed' visited' where ih:
      "scan_children path cs ?cycles pushed visited = Inr (cycles', pushed', visited')"
      "set visited' = set visited \<union> {c \<in> set cs. c \<notin> set path}"
      "set ?cycles \<subseteq> set cycles'"
      "\<forall>c \<in> set cs. c \<in> set path \<longrightarrow> known cycles' (dropWhile (\<lambda>x. x \<noteq> c) path)"
      "\<forall>d \<in> set cycles'. d \<in> set ?cycles \<or> (\<exists>c \<in> set cs. c \<in> set path \<and> d = dropWhile (\<lambda>x. x \<noteq> c) path)"
      "all_different ?cycles \<longrightarrow> all_different cycles'"
      using Cons.IH [of ?cycles pushed visited] by blast
    have "scan_children path (c # cs) cycles pushed visited = Inr (cycles', pushed', visited')"
      using ih(1) True dup by (simp add: Let_def)
    moreover have "set visited' = set visited \<union> {c' \<in> set (c # cs). c' \<notin> set path}" using ih(2) True by auto
    moreover have "set cycles \<subseteq> set cycles'" using ih(3) new(1) by (rule order_trans [rotated])
    moreover have "\<forall>c' \<in> set (c # cs). c' \<in> set path \<longrightarrow> known cycles' (dropWhile (\<lambda>x. x \<noteq> c') path)"
      using ih(4) known_mono [OF known ih(3)] by simp
    moreover have "d \<in> set cycles \<or> (\<exists>c' \<in> set (c # cs). c' \<in> set path \<and> d = dropWhile (\<lambda>x. x \<noteq> c') path)"
      if "d \<in> set cycles'" for d
      using that ih(5) new(2) True by (metis list.set_intros)
    moreover have "all_different cycles \<longrightarrow> all_different cycles'" using ih(6) different by blast
    ultimately show ?thesis by blast
  qed
qed simp

text \<open>
  What the loop promises for its stack: each simple path that extends one of the stack has its
  back edges known at the end; what it adds is a cycle, different from the others; visited
  nodes are ends of such paths.
\<close>

definition complete_for :: "'a graph \<Rightarrow> 'a list list \<Rightarrow> 'a list \<Rightarrow> bool" where
  "complete_for g cycles p \<longleftrightarrow>
     (\<forall>q c. simple_path g (p @ q) \<longrightarrow> c \<in> set (p @ q) \<longrightarrow> edge g (last (p @ q)) c \<longrightarrow>
        known cycles (dropWhile (\<lambda>x. x \<noteq> c) (p @ q)))"

lemma find_loop_spec:
  assumes "\<forall>p \<in> set paths. simple_path g p"
  shows "\<exists>cycles' visited'. find_loop g paths cycles visited = Inr (cycles', visited') \<and>
    set cycles \<subseteq> set cycles' \<and>
    (\<forall>d \<in> set cycles'. d \<in> set cycles \<or> is_cycle g d) \<and>
    (all_different cycles \<longrightarrow> all_different cycles') \<and>
    (\<forall>p \<in> set paths. complete_for g cycles' p) \<and>
    (\<forall>v \<in> set visited'. v \<in> set visited \<or> (\<exists>p \<in> set paths. \<exists>q. simple_path g (p @ q) \<and> last (p @ q) = v))"
  using assms
proof (induction g paths cycles visited rule: find_loop.induct)
  case (1 g cycles visited)
  show ?case by simp
next
  case (2 g path paths cycles visited)
  have path: "simple_path g path" and paths: "\<forall>p \<in> set paths. simple_path g p" using "2.prems" by simp_all
  then have ne: "path \<noteq> []" by (simp add: simple_path_def)
  show ?case
  proof (cases "map_of g (last path)")
    case None
    then have no_edge: "\<not> edge g (last path) c" for c by (simp add: edge_def)
    have "complete_for g cs path" for cs
    proof (unfold complete_for_def, intro allI impI)
      fix q c
      assume q: "simple_path g (path @ q)" "edge g (last (path @ q)) c"
      have "q = []"
      proof (rule ccontr)
        assume "q \<noteq> []"
        with q(1) ne have "edge g (last path) (hd q)" by (simp add: simple_path_def successively_append_iff)
        with no_edge show False by blast
      qed
      with q no_edge show "known cs (dropWhile (\<lambda>x. x \<noteq> c) (path @ q))" by simp
    qed
    with "2.IH"(1) [OF None paths] None show ?thesis by fastforce
  next
    case (Some children)
    obtain cycles1 pushed visited1 where sc: "scan_children path children cycles [] visited = Inr (cycles1, pushed, visited1)"
        "set visited1 = set visited \<union> {c \<in> set children. c \<notin> set path}" "set cycles \<subseteq> set cycles1"
        "\<forall>c \<in> set children. c \<in> set path \<longrightarrow> known cycles1 (dropWhile (\<lambda>x. x \<noteq> c) path)"
        "\<forall>d \<in> set cycles1. d \<in> set cycles \<or> (\<exists>c \<in> set children. c \<in> set path \<and> d = dropWhile (\<lambda>x. x \<noteq> c) path)"
        "all_different cycles \<longrightarrow> all_different cycles1"
      using scan_children_spec [of path children cycles "[]" visited] by blast
    have pushed: "set pushed = (\<lambda>c. path @ [c]) ` {c \<in> set children. c \<notin> set path}"
      using scan_children_pushed [OF sc(1)] by auto
    have edges: "edge g (last path) c \<longleftrightarrow> c \<in> set children" for c using Some by (simp add: edge_def)
    have "\<forall>p \<in> set (rev pushed @ paths). simple_path g p"
      using paths path ne by (auto simp: pushed simple_path_snoc edges)
    from "2.IH"(2) [OF Some sc(1) refl refl this] obtain cycles2 visited2 where
      ih: "find_loop g (rev pushed @ paths) cycles1 visited1 = Inr (cycles2, visited2)" "set cycles1 \<subseteq> set cycles2"
        "\<forall>d \<in> set cycles2. d \<in> set cycles1 \<or> is_cycle g d" "all_different cycles1 \<longrightarrow> all_different cycles2"
        "\<forall>p \<in> set (rev pushed @ paths). complete_for g cycles2 p"
        "\<forall>v \<in> set visited2. v \<in> set visited1 \<or>
           (\<exists>p \<in> set (rev pushed @ paths). \<exists>q. simple_path g (p @ q) \<and> last (p @ q) = v)"
      by blast
    have "complete_for g cycles2 path"
    proof (unfold complete_for_def, intro allI impI)
      fix q c
      assume q: "simple_path g (path @ q)" "c \<in> set (path @ q)" "edge g (last (path @ q)) c"
      show "known cycles2 (dropWhile (\<lambda>x. x \<noteq> c) (path @ q))"
      proof (cases q)
        case Nil
        with q sc(4) edges ih(2) show ?thesis by (auto intro: known_mono)
      next
        case (Cons x q')
        then have "simple_path g (path @ [x])" using q(1) simple_path_prefix [of g "path @ [x]" q'] by simp
        then have "path @ [x] \<in> set pushed" using ne by (auto simp: pushed simple_path_snoc edges)
        with ih(5) have "complete_for g cycles2 (path @ [x])" by simp
        with q Cons show ?thesis unfolding complete_for_def by fastforce
      qed
    qed
    moreover have "is_cycle g d" if "d \<in> set cycles1" "d \<notin> set cycles" for d
      using sc(5) that back_edge_cycle [OF path] edges by blast
    moreover have "\<exists>p \<in> set (path # paths). \<exists>q. simple_path g (p @ q) \<and> last (p @ q) = v"
      if v: "v \<in> set visited2" "v \<notin> set visited" for v
    proof -
      consider "v \<in> set children" "v \<notin> set path"
        | p q where "p \<in> set pushed" "simple_path g (p @ q)" "last (p @ q) = v"
        | p q where "p \<in> set paths" "simple_path g (p @ q)" "last (p @ q) = v"
        using ih(6) v sc(2) by auto
      then show ?thesis
      proof cases
        case 1
        with path ne have "simple_path g (path @ [v]) \<and> last (path @ [v]) = v" by (simp add: simple_path_snoc edges)
        then show ?thesis by (meson list.set_intros(1))
      next
        case 2
        then show ?thesis by (auto simp: pushed)
      next
        case 3
        then show ?thesis by auto
      qed
    qed
    ultimately show ?thesis
      using Some sc(1,3,6) ih by (simp, blast)
  qed
qed


lemma complete_for_mono: "complete_for g cycles p \<Longrightarrow> set cycles \<subseteq> set cycles' \<Longrightarrow> complete_for g cycles' p"
  by (auto simp: complete_for_def intro: known_mono)

text \<open>A node is covered when it can be reached from a start whose paths are complete.\<close>

definition covered :: "'a graph \<Rightarrow> 'a list list \<Rightarrow> 'a \<Rightarrow> bool" where
  "covered g cycles v \<longleftrightarrow> (\<exists>r q. complete_for g cycles [r] \<and> simple_path g (r # q) \<and> last (r # q) = v)"

lemma covered_mono: "covered g cycles v \<Longrightarrow> set cycles \<subseteq> set cycles' \<Longrightarrow> covered g cycles' v"
  unfolding covered_def using complete_for_mono by blast

lemma simple_path_single [simp]: "simple_path g [r]"
  by (simp add: simple_path_def)

lemma find_roots_spec:
  assumes "\<forall>v \<in> set visited. covered g cycles v" "\<forall>d \<in> set cycles. is_cycle g d" "all_different cycles"
  shows "\<exists>cycles'. find_roots g rs cycles visited = Inr cycles' \<and> set cycles \<subseteq> set cycles' \<and>
    (\<forall>d \<in> set cycles'. is_cycle g d) \<and> all_different cycles' \<and> (\<forall>v \<in> set rs. covered g cycles' v)"
  using assms
proof (induction rs arbitrary: cycles visited)
  case (Cons r rs)
  show ?case
  proof (cases "r \<in> set visited")
    case True
    with Cons.IH [OF Cons.prems] obtain cycles' where "find_roots g rs cycles visited = Inr cycles'"
      "set cycles \<subseteq> set cycles'" "\<forall>d \<in> set cycles'. is_cycle g d" "all_different cycles'"
      "\<forall>v \<in> set rs. covered g cycles' v" by blast
    moreover from this True Cons.prems(1) have "covered g cycles' r" by (meson covered_mono)
    ultimately show ?thesis using True by (metis find_roots.simps(2) set_ConsD)
  next
    case False
    have single: "\<forall>p \<in> set [[r]]. simple_path g p" by simp
    obtain cycles1 visited1 where f: "find_loop g [[r]] cycles visited = Inr (cycles1, visited1)" "set cycles \<subseteq> set cycles1"
      "\<forall>d \<in> set cycles1. d \<in> set cycles \<or> is_cycle g d" "all_different cycles \<longrightarrow> all_different cycles1"
      "\<forall>p \<in> set [[r]]. complete_for g cycles1 p"
      "\<forall>v \<in> set visited1. v \<in> set visited \<or> (\<exists>p \<in> set [[r]]. \<exists>q. simple_path g (p @ q) \<and> last (p @ q) = v)"
      using find_loop_spec [OF single, of cycles visited] by blast
    have r: "complete_for g cycles1 [r]" using f(5) by simp
    have "\<forall>v \<in> set visited1. covered g cycles1 v"
    proof
      fix v assume "v \<in> set visited1"
      then have "v \<in> set visited \<or> (\<exists>p \<in> set [[r]]. \<exists>q. simple_path g (p @ q) \<and> last (p @ q) = v)"
        using f(6) by blast
      then consider "v \<in> set visited" | q where "simple_path g (r # q)" "last (r # q) = v"
        by (auto simp del: last.simps)
      then show "covered g cycles1 v"
      proof cases
        case 1
        show ?thesis by (rule covered_mono [OF bspec [OF Cons.prems(1) 1] f(2)])
      next
        case 2
        with r show ?thesis unfolding covered_def by blast
      qed
    qed
    moreover have "\<forall>d \<in> set cycles1. is_cycle g d" using f(3) Cons.prems(2) by blast
    moreover have "all_different cycles1" using f(4) Cons.prems(3) by blast
    ultimately obtain cycles' where ih: "find_roots g rs cycles1 visited1 = Inr cycles'"
      "set cycles1 \<subseteq> set cycles'" "\<forall>d \<in> set cycles'. is_cycle g d" "all_different cycles'"
      "\<forall>v \<in> set rs. covered g cycles' v" using Cons.IH by blast
    have "covered g cycles1 r"
      using r simple_path_single unfolding covered_def by (metis last.simps)
    then have "covered g cycles' r" using ih(2) by (rule covered_mono)
    moreover have "set cycles \<subseteq> set cycles'" using f(2) ih(2) by (rule order_trans)
    moreover have "find_roots g (r # rs) cycles visited = Inr cycles'" using f(1) ih(1) False by simp
    ultimately show ?thesis using ih(3-5) by (metis set_ConsD)
  qed
qed simp

text \<open>A cycle met by a covered node is known: the path to its first node, and around it.\<close>

lemma rotate_cycle:
  "is_cycle g (a @ b) \<Longrightarrow> is_cycle g (b @ a)"
  by (cases "a = []"; cases "b = []") (auto simp: is_cycle_def simple_path_def successively_append_iff)

lemma covered_known:
  assumes v: "covered g cycles v" "v \<in> set c" and c: "is_cycle g c"
  shows "known cycles c"
proof -
  obtain r q where r: "complete_for g cycles [r]" "simple_path g (r # q)" "last (r # q) = v"
    using v(1) unfolding covered_def by blast
  have "\<exists>w \<in> set (r # q). w \<in> set c" using r(3) v(2) by (metis last_in_set list.distinct(1))
  then obtain q1 w q2 where q: "r # q = q1 @ w # q2" "w \<in> set c" "\<forall>x \<in> set q1. x \<notin> set c"
    using split_list_first_prop [of "r # q" "\<lambda>w. w \<in> set c"] by blast
  obtain c1 c2 where c12: "c = c1 @ w # c2" using q(2) by (meson split_list)
  let ?d = "w # c2 @ c1"
  have d: "is_cycle g ?d" using rotate_cycle [of g c1 "w # c2"] c unfolding c12 by simp
  have path: "simple_path g (q1 @ ?d)"
  proof -
    have "simple_path g (q1 @ [w])" using r(2) simple_path_prefix [of g "q1 @ [w]" q2] q(1) by simp
    moreover have "set q1 \<inter> set ?d = {}" using q(3) c12 by auto
    ultimately show ?thesis
      using d by (auto simp: simple_path_def is_cycle_def successively_append_iff)
  qed
  have hd: "\<exists>t. q1 @ ?d = [r] @ t" using q(1) by (cases q1) auto
  then obtain t where t: "q1 @ ?d = [r] @ t" by blast
  have "edge g (last (q1 @ ?d)) w" using d by (simp add: is_cycle_def)
  with path r(1) have "known cycles (dropWhile (\<lambda>x. x \<noteq> w) (q1 @ ?d))"
    unfolding complete_for_def t by (metis Un_iff append_Cons list.set_intros(1) set_append t)
  moreover have "dropWhile (\<lambda>x. x \<noteq> w) (q1 @ ?d) = ?d"
    using q(2,3) by (induction q1) auto
  ultimately obtain d' n where "d' \<in> set cycles" "rotate n d' = ?d" by (auto simp: known_def)
  moreover have "rotate (length (w # c2)) ?d = c"
    unfolding c12 using rotate_append [of "w # c2" c1] by simp
  ultimately show ?thesis unfolding known_def by (metis rotate_rotate)
qed

text \<open>C7: for every order of the keys the search ends without an error, every list it yields is a
  simple cycle of the graph, no two are rotations of each other, and every simple cycle of
  the graph is a rotation of one that is yielded.
\<close>

theorem find_cycles_correct:
  assumes "set keys = fst ` set g"
  shows "\<exists>cycles. find_cycles keys g = Inr cycles \<and> (\<forall>c \<in> set cycles. is_cycle g c) \<and>
    all_different cycles \<and> (\<forall>c. is_cycle g c \<longrightarrow> (\<exists>d \<in> set cycles. \<exists>n. rotate n d = c))"
proof -
  obtain cycles where f: "find_roots g keys [] [] = Inr cycles" "\<forall>d \<in> set cycles. is_cycle g d"
      "all_different cycles" "\<forall>v \<in> set keys. covered g cycles v"
    using find_roots_spec [of "[]" g "[]" keys] by (auto simp: all_different_def)
  have "known cycles c" if c: "is_cycle g c" for c
  proof -
    have "c \<noteq> []" using c by (simp add: is_cycle_def simple_path_def)
    moreover have "edge g (last c) (hd c)" using c by (simp add: is_cycle_def)
    then have "last c \<in> set keys" using assms by (force simp: edge_def dest: map_of_SomeD)
    ultimately show ?thesis using f(4) c covered_known by (meson last_in_set)
  qed
  with f show ?thesis unfolding find_cycles_def known_def by blast
qed

theorem find_cycles_correct_witness:
  "\<exists>cycles. find_cycles [1, 2, 3::nat] [(1, [2]), (2, [1, 3]), (3, [2])] = Inr cycles \<and>
     (\<forall>c \<in> set cycles. is_cycle [(1, [2]), (2, [1, 3]), (3, [2])] c) \<and> length cycles = 2"
proof -
  have "set [1, 2, 3::nat] = fst ` set [(1, [2::nat]), (2, [1, 3]), (3, [2])]" by simp
  from find_cycles_correct [OF this] obtain cycles
    where "find_cycles [1, 2, 3::nat] [(1, [2]), (2, [1, 3]), (3, [2])] = Inr cycles"
      "\<forall>c \<in> set cycles. is_cycle [(1, [2]), (2, [1, 3]), (3, [2])] c" by blast
  moreover have "find_cycles [1, 2, 3::nat] [(1, [2]), (2, [1, 3]), (3, [2])] = Inr [[1, 2], [2, 3]]"
    by code_simp
  ultimately show ?thesis by simp
qed


end
