(* ===== verification/Compiler_Flags.thy ===== *)
theory Compiler_Flags
  imports Py_Prelude
begin

text \<open>
  \<^verbatim>\<open>src/waf-tools/cflags.py\<close>: the build profiles and the compiler flags they stand for.  A
  compiler traits object is a record of its three methods; the waf environment is a
  dictionary from variables to lists of flags, where a missing variable reads as the empty
  list.
\<close>

section \<open>Compiler traits\<close>

datatype compiler = Gcc | Icc | Msvc

definition warnings_table :: "compiler \<Rightarrow> string list list" where
  "warnings_table c =
     (case c of
        Gcc \<Rightarrow> [[''-Wall''], [''-Werror''], [''-Wextra'']]
      | Icc \<Rightarrow> [[], [], [''-Wall'']]
      | Msvc \<Rightarrow> [[''/W2''], [''/WX''], [''/Wall'']])"

text \<open>The loop over the levels; it stops behind the end of the table.\<close>

fun warnings_loop :: "string list list \<Rightarrow> int list \<Rightarrow> string list \<Rightarrow> string list" where
  "warnings_loop table [] warnings = warnings"
| "warnings_loop table (l # ls) warnings =
     (if l < int (length table) then warnings_loop table ls (warnings @ table ! nat l) else warnings)"

definition get_warnings_flags :: "compiler \<Rightarrow> int \<Rightarrow> string list" where
  "get_warnings_flags c level = warnings_loop (warnings_table c) [0..level - 1] []"

text \<open>A level without a branch returns \<open>None\<close>.\<close>

definition get_optimization_flags :: "compiler \<Rightarrow> int \<Rightarrow> string list option" where
  "get_optimization_flags c level =
     (case c of
        Msvc \<Rightarrow>
          (if level = 0 then Some [''/Od''] else if level = 1 then Some []
           else if level = 2 then Some [''/O2''] else if level = 3 then Some [''/Ox''] else None)
      | _ \<Rightarrow>
          (if level = 0 then Some [''-O0''] else if level = 1 then Some [''-O'']
           else if level = 2 then Some [''-O2''] else if level = 3 then Some [''-O3''] else None))"

definition get_debug_flags :: "compiler \<Rightarrow> int \<Rightarrow> (string list \<times> string list) option" where
  "get_debug_flags c level =
     (case c of
        Msvc \<Rightarrow>
          (if level = 0 then Some ([], [''NDEBUG''])
           else if level = 1 then Some ([''/ZI'', ''/RTC1''], [])
           else if level \<ge> 2 then Some ([''/ZI'', ''/RTC1''], [''_DEBUG'']) else None)
      | _ \<Rightarrow>
          (if level = 0 then Some ([''-g0''], [''NDEBUG''])
           else if level = 1 then Some ([''-g''], [])
           else if level \<ge> 2 then Some ([''-ggdb'', ''-g3''], [''_DEBUG'']) else None))"

definition compiler_mapping :: "(string \<times> compiler) list" where
  "compiler_mapping =
     [(''gcc'', Gcc), (''g++'', Gcc), (''msvc'', Msvc), (''icc'', Icc), (''icpc'', Icc),
      (''clang'', Gcc), (''clang++'', Gcc)]"

text \<open>Profile name: optimization level, warnings level, debug level.\<close>

definition profiles :: "(string \<times> int \<times> int \<times> int) list" where
  "profiles = [(''default'', 2, 1, 1), (''debug'', 0, 2, 3), (''release'', 3, 1, 0)]"

definition default_profile :: string where
  "default_profile = ''default''"

section \<open>Options\<close>

text \<open>
  An option added by \<open>options\<close>: its flags, its destination, its default (a string or a switch)
  and the values allowed.  Help texts are left out.
\<close>

datatype default_value = DString string | DBool bool

record opt_spec =
  op_flags :: "string list"
  op_dest :: string
  op_default :: default_value
  op_choices :: "string list"

definition options :: "opt_spec list res" where
  "options =
     (if default_profile \<notin> set (map fst profiles) then Inl AssertionError
      else Inr
        [\<lparr>op_flags = [''-d'', ''--build-profile''], op_dest = ''build_profile'',
           op_default = DString default_profile, op_choices = map fst profiles\<rparr>,
         \<lparr>op_flags = [''--check-profile''], op_dest = ''check_profile'', op_default = DBool False, op_choices = []\<rparr>,
         \<lparr>op_flags = [''--disable-werror''], op_dest = ''disable_werror'', op_default = DBool False, op_choices = []\<rparr>])"

section \<open>Configuration\<close>

type_synonym waf_env = "(string \<times> string list) list"

definition env_get :: "waf_env \<Rightarrow> string \<Rightarrow> string list" where
  "env_get env k = (case map_of env k of None \<Rightarrow> [] | Some v \<Rightarrow> v)"

definition append_value :: "string \<Rightarrow> string list \<Rightarrow> waf_env \<Rightarrow> waf_env" where
  "append_value k v env = dict_set k (env_get env k @ v) env"

text \<open>The traits of the C compiler, or else those of the C++ compiler.\<close>

definition find_traits :: "string option \<Rightarrow> string option \<Rightarrow> compiler option" where
  "find_traits cc cxx =
     (case Option.bind cc (map_of compiler_mapping) of
        Some c \<Rightarrow> Some c
      | None \<Rightarrow> Option.bind cxx (map_of compiler_mapping))"

definition add_flags :: "string \<Rightarrow> string \<Rightarrow> string list \<Rightarrow> string list \<Rightarrow> string list \<Rightarrow> string list \<Rightarrow> waf_env \<Rightarrow> waf_env" where
  "add_flags flags defines optimizations debug warnings debug_defs env =
     append_value defines debug_defs (append_value flags warnings (append_value flags debug
       (append_value flags optimizations env)))"

text \<open>
  \<open>configure\<close>: the two compilers are \<open>None\<close> when their variable is missing or empty.  An unknown
  compiler leaves the environment alone (a warning is logged).
\<close>

definition configure :: "string option \<Rightarrow> string option \<Rightarrow> string \<Rightarrow> bool \<Rightarrow> waf_env \<Rightarrow> waf_env res" where
  "configure cc cxx build_profile disable_werror env =
     (if cc = None \<and> cxx = None then Inl (UserException ''WafError'')
      else case find_traits cc cxx of
        None \<Rightarrow> Inr env
      | Some compiler \<Rightarrow>
          (case map_of profiles build_profile of
             None \<Rightarrow> Inl KeyError
           | Some (opt_level, warn_level, dbg_level) \<Rightarrow>
               (case (get_optimization_flags compiler opt_level, get_debug_flags compiler dbg_level) of
                  (Some optimizations, Some (debug, debug_defs)) \<Rightarrow>
                    (let warnings = get_warnings_flags compiler warn_level;
                         warnings = (if disable_werror then remove1 ''-Werror'' warnings else warnings);
                         env = (if cc \<noteq> None \<and> env_get env ''CCFLAGS'' = []
                                then add_flags ''CCFLAGS'' ''CCDEFINES'' optimizations debug warnings debug_defs env
                                else env);
                         env = (if cxx \<noteq> None \<and> env_get env ''CXXFLAGS'' = []
                                then add_flags ''CXXFLAGS'' ''CXXDEFINES'' optimizations debug warnings debug_defs env
                                else env)
                     in Inr env)
                | _ \<Rightarrow> Inl TypeError)))"

section \<open>Lemmas\<close>

lemma env_get_append [simp]:
  "env_get (append_value k v env) k' = (if k' = k then env_get env k @ v else env_get env k')"
  by (simp add: env_get_def append_value_def)

text \<open>The levels of the three profiles lie in the tables of every compiler.\<close>

lemma profile_levels:
  assumes "map_of profiles p = Some (opt_level, warn_level, dbg_level)"
  shows "\<exists>x xs. get_optimization_flags c opt_level = Some (x # xs)"
    "\<exists>d ds. get_debug_flags c dbg_level = Some (d, ds)"
  using assms
  by (cases c; auto simp: profiles_def get_optimization_flags_def get_debug_flags_def split: if_splits)+

definition profile_flags :: "compiler \<Rightarrow> string \<Rightarrow> bool \<Rightarrow> string list" where
  "profile_flags c p disable_werror =
     (case map_of profiles p of
        None \<Rightarrow> []
      | Some (opt_level, warn_level, dbg_level) \<Rightarrow>
          the (get_optimization_flags c opt_level) @ fst (the (get_debug_flags c dbg_level)) @
          (let w = get_warnings_flags c warn_level in if disable_werror then remove1 ''-Werror'' w else w))"

lemma profile_flags_ne:
  assumes "map_of profiles p = Some (opt_level, warn_level, dbg_level)"
  shows "profile_flags c p w \<noteq> []"
proof -
  obtain x xs where "get_optimization_flags c opt_level = Some (x # xs)" using profile_levels(1) [OF assms] by blast
  with assms show ?thesis by (simp add: profile_flags_def)
qed

lemma find_traits_some: "find_traits cc cxx = Some c \<Longrightarrow> \<not> (cc = None \<and> cxx = None)"
  by (cases cc; cases cxx) (simp_all add: find_traits_def)

lemma configure_unfold:
  assumes "find_traits cc cxx = Some c" "map_of profiles p = Some (opt_level, warn_level, dbg_level)"
    "get_optimization_flags c opt_level = Some opts" "get_debug_flags c dbg_level = Some (d, ds)"
  shows "configure cc cxx p w env =
    (let warnings = (if w then remove1 ''-Werror'' (get_warnings_flags c warn_level) else get_warnings_flags c warn_level);
         env = (if cc \<noteq> None \<and> env_get env ''CCFLAGS'' = []
                then add_flags ''CCFLAGS'' ''CCDEFINES'' opts d warnings ds env else env)
     in Inr (if cxx \<noteq> None \<and> env_get env ''CXXFLAGS'' = []
             then add_flags ''CXXFLAGS'' ''CXXDEFINES'' opts d warnings ds env else env))"
  using find_traits_some [OF assms(1)] assms by (simp add: configure_def Let_def)

lemma add_flags_get:
  "f \<noteq> g \<Longrightarrow> env_get (add_flags f g opts d ws ds env) k =
     (if k = f then env_get env f @ opts @ d @ ws else if k = g then env_get env g @ ds else env_get env k)"
  by (simp add: add_flags_def)

lemma configure_lemma:
  assumes "find_traits cc cxx = Some c" "map_of profiles p \<noteq> None"
  shows "\<exists>env'. configure cc cxx p w env = Inr env' \<and>
    (\<forall>k. k \<notin> {''CCFLAGS'', ''CCDEFINES'', ''CXXFLAGS'', ''CXXDEFINES''} \<longrightarrow> env_get env' k = env_get env k) \<and>
    env_get env' ''CCFLAGS'' = (if cc \<noteq> None \<and> env_get env ''CCFLAGS'' = [] then profile_flags c p w else env_get env ''CCFLAGS'') \<and>
    env_get env' ''CXXFLAGS'' = (if cxx \<noteq> None \<and> env_get env ''CXXFLAGS'' = [] then profile_flags c p w else env_get env ''CXXFLAGS'')"
proof -
  obtain ol wl dl where p: "map_of profiles p = Some (ol, wl, dl)" using assms(2) by auto
  obtain opts d ds where f: "get_optimization_flags c ol = Some opts" "get_debug_flags c dl = Some (d, ds)"
    using profile_levels [OF p] by blast
  show ?thesis
    by (simp add: configure_unfold [OF assms(1) p f] Let_def add_flags_get profile_flags_def p f)
qed

text \<open>With a known compiler and a profile of the table, \<open>configure\<close> succeeds.  The C flags, if the
  user gave none, become the optimization, debug and warning flags of the profile, the C++
  flags likewise; flags of the user and all other variables but the defines stay.
\<close>

theorem configure_sets_profile:
  assumes "find_traits cc cxx = Some c" "map_of profiles p \<noteq> None"
  shows "\<exists>env'. configure cc cxx p w env = Inr env' \<and>
    (\<forall>k. k \<notin> {''CCFLAGS'', ''CCDEFINES'', ''CXXFLAGS'', ''CXXDEFINES''} \<longrightarrow> env_get env' k = env_get env k) \<and>
    env_get env' ''CCFLAGS'' = (if cc \<noteq> None \<and> env_get env ''CCFLAGS'' = [] then profile_flags c p w else env_get env ''CCFLAGS'') \<and>
    env_get env' ''CXXFLAGS'' = (if cxx \<noteq> None \<and> env_get env ''CXXFLAGS'' = [] then profile_flags c p w else env_get env ''CXXFLAGS'')"
  by (rule configure_lemma [OF assms])

theorem configure_sets_profile_witness:
  "\<exists>env'. configure (Some ''gcc'') (Some ''g++'') ''debug'' True [(''CCFLAGS'', [''-O9''])] = Inr env' \<and>
     env_get env' ''CCFLAGS'' = [''-O9''] \<and> env_get env' ''CXXFLAGS'' = [''-O0'', ''-ggdb'', ''-g3'', ''-Wall'']"
proof -
  have flags: "profile_flags Gcc ''debug'' True = [''-O0'', ''-ggdb'', ''-g3'', ''-Wall'']" by code_simp
  have "find_traits (Some ''gcc'') (Some ''g++'') = Some Gcc" "map_of profiles ''debug'' \<noteq> None"
    by (simp_all add: find_traits_def compiler_mapping_def profiles_def)
  from configure_sets_profile [OF this, of True "[(''CCFLAGS'', [''-O9''])]"]
  show ?thesis by (auto simp: flags env_get_def)
qed

text \<open>Once configured, the environment is not changed by configuring again, whatever profile and
  warning option are then chosen: the flags of the first run count as flags of the user.
\<close>

theorem configure_again_changes_nothing:
  assumes "configure cc cxx p w env = Inr env'" "map_of profiles p' \<noteq> None"
  shows "configure cc cxx p' w' env' = Inr env'"
proof (cases "find_traits cc cxx")
  case None
  with assms(1) show ?thesis by (simp add: configure_def split: if_splits)
next
  case (Some c)
  have "map_of profiles p \<noteq> None" using assms(1) Some by (auto simp: configure_def split: if_splits option.splits)
  then obtain ol wl dl where p: "map_of profiles p = Some (ol, wl, dl)" by auto
  have ne: "profile_flags c p w \<noteq> []" by (rule profile_flags_ne [OF p])
  have set: "cc \<noteq> None \<longrightarrow> env_get env' ''CCFLAGS'' \<noteq> []" "cxx \<noteq> None \<longrightarrow> env_get env' ''CXXFLAGS'' \<noteq> []"
    using configure_lemma [OF Some, of p w env] p assms(1) ne by auto
  obtain ol' wl' dl' where p': "map_of profiles p' = Some (ol', wl', dl')" using assms(2) by auto
  obtain opts d ds where f: "get_optimization_flags c ol' = Some opts" "get_debug_flags c dl' = Some (d, ds)"
    using profile_levels [OF p'] by blast
  from set have "\<not> (cc \<noteq> None \<and> env_get env' ''CCFLAGS'' = [])" "\<not> (cxx \<noteq> None \<and> env_get env' ''CXXFLAGS'' = [])"
    by blast+
  then show ?thesis by (simp only: configure_unfold [OF Some p' f] Let_def if_False)
qed

theorem configure_again_changes_nothing_witness:
  "\<exists>env'. configure (Some ''gcc'') None ''debug'' False [] = Inr env' \<and>
     configure (Some ''gcc'') None ''release'' True env' = Inr env'"
proof -
  obtain env' where env': "configure (Some ''gcc'') None ''debug'' False [] = Inr env'"
    using configure_lemma [of "Some ''gcc''" None Gcc "''debug''" False "[]"]
    by (auto simp: find_traits_def compiler_mapping_def profiles_def)
  have "map_of profiles ''release'' \<noteq> None" by (simp add: profiles_def)
  from configure_again_changes_nothing [OF env' this] env' show ?thesis by blast
qed

text \<open>\<open>--disable-werror\<close> removes the flag of gcc, but not that of msvc, \<open>/WX\<close>.\<close>

lemma disable_werror_gcc: "''-Werror'' \<notin> set (profile_flags Gcc p True)"
proof (cases "map_of profiles p")
  case (Some l)
  then have "p \<in> {''default'', ''debug'', ''release''}"
    by (auto simp: profiles_def split: if_splits)
  then show ?thesis by (elim insertE emptyE; hypsubst; code_simp)
qed (simp add: profile_flags_def)

lemma disable_werror_keeps_wx: "''/WX'' \<in> set (profile_flags Msvc ''debug'' True)"
  by code_simp

end
