(* ===== verification/Module_Templates.thy ===== *)
theory Module_Templates
  imports Py_Prelude
begin

text \<open>
  The templates of \<^verbatim>\<open>src/utils/create-module.py\<close>, line by line, and the part of
  \<open>str.format\<close> they use: \<open>{{\<close> and \<open>}}\<close> for braces, \<open>{NAME}\<close> and \<open>{NAME!r}\<close> for the value of a
  keyword and its \<open>repr\<close>.  Names are ASCII.
\<close>

section \<open>Formatting\<close>

abbreviation LBRACE :: char where "LBRACE \<equiv> CHR 0x7B"
abbreviation RBRACE :: char where "RBRACE \<equiv> CHR 0x7D"

text \<open>\<open>repr\<close> of a string without quotes, backslashes and control characters other than a newline.\<close>

definition repr_char :: "char \<Rightarrow> string" where
  "repr_char c = (if c = NL then [CHR 0x5C, CHR ''n''] else [c])"

definition repr :: "string \<Rightarrow> string" where
  "repr s = CHR 0x27 # concat (map repr_char s) @ [CHR 0x27]"

definition field_value :: "(string \<times> string) list \<Rightarrow> string \<Rightarrow> string res" where
  "field_value kw f =
     (let (name, conv) = (if endswith f ''!r'' then (take (length f - 2) f, repr) else (f, \<lambda>x. x)) in
      case map_of kw name of None \<Rightarrow> Inl KeyError | Some v \<Rightarrow> Inr (conv v))"

text \<open>The scan of a template: \<open>acc\<close> is the field being read, if any.\<close>

fun format_loop :: "(string \<times> string) list \<Rightarrow> string option \<Rightarrow> string \<Rightarrow> string res" where
  "format_loop kw None [] = Inr []"
| "format_loop kw (Some acc) [] = Inl ValueError"
| "format_loop kw None (c # s) =
     (if c = LBRACE then
        (case s of
           [] \<Rightarrow> Inl ValueError
         | d # s' \<Rightarrow> if d = LBRACE then res_bind (format_loop kw None s') (\<lambda>r. Inr (LBRACE # r))
                      else format_loop kw (Some []) s)
      else if c = RBRACE then
        (case s of
           [] \<Rightarrow> Inl ValueError
         | d # s' \<Rightarrow> if d = RBRACE then res_bind (format_loop kw None s') (\<lambda>r. Inr (RBRACE # r))
                      else Inl ValueError)
      else res_bind (format_loop kw None s) (\<lambda>r. Inr (c # r)))"
| "format_loop kw (Some acc) (c # s) =
     (if c = RBRACE then
        res_bind (field_value kw acc) (\<lambda>v. res_bind (format_loop kw None s) (\<lambda>r. Inr (v @ r)))
      else format_loop kw (Some (acc @ [c])) s)"

definition template_text :: "string list \<Rightarrow> string" where
  "template_text ls = concat (map (\<lambda>l. l @ nl) ls)"

definition format_template :: "string list \<Rightarrow> (string \<times> string) list \<Rightarrow> string res" where
  "format_template t kw = format_loop kw None (template_text t)"

section \<open>Templates\<close>

definition wscript_template_1 :: "string list" where
  \<open>wscript_template_1 =
     [''# -*- Mode: python; py-indent-offset: 4; indent-tabs-mode: nil; coding: utf-8; -*-'',
      [],
      ''# def options(opt):'',
      ''#     pass'',
      [],
      ''# def configure(conf):'',
      ''#     conf.check_nonfatal(header_name='stdint.h', define_name='HAVE_STDINT_H')'',
      [],
      ''def build(bld):'',
      ''    module = bld.create_ns3_module({MODULE!r}, ['core'])'',
      ''    module.source = ['',
      ''        'model/{MODULE}.cc','',
      ''        'helper/{MODULE}-helper.cc','',
      ''        ]'',
      [],
      ''    module_test = bld.create_ns3_module_test_library('{MODULE}')'',
      ''    module_test.source = ['',
      ''        'test/{MODULE}-test-suite.cc','',
      ''        ]'',
      ''    # Tests encapsulating example programs should be listed here'',
      ''    if (bld.env['ENABLE_EXAMPLES']):'',
      ''        module_test.source.extend(['',
      ''        #    'test/{MODULE}-examples-test-suite.cc','',
      ''             ])'',
      [],
      ''    headers = bld(features='ns3header')'',
      ''    headers.module = {MODULE!r}'',
      ''    headers.source = ['',
      ''        'model/{MODULE}.h','',
      ''        'helper/{MODULE}-helper.h','',
      ''        ]'',
      []]\<close>

definition wscript_template_2 :: "string list" where
  \<open>wscript_template_2 =
     [''    if bld.env.ENABLE_EXAMPLES:'',
      ''        bld.recurse('examples')'',
      [],
      ''    # bld.ns3_python_bindings()'',
      []]\<close>

definition wscript_template :: "string list" where
  "wscript_template = wscript_template_1 @ wscript_template_2"

definition model_cc_template :: "string list" where
  \<open>model_cc_template =
     [''/* -*- Mode:C++; c-file-style:"gnu"; indent-tabs-mode:nil; -*- */'',
      [],
      ''#include "{MODULE}.h"'',
      [],
      ''namespace ns3 {{'',
      [],
      ''/* ... */'',
      [],
      [],
      ''}}'',
      []]\<close>

definition model_h_template :: "string list" where
  \<open>model_h_template =
     [''/* -*- Mode:C++; c-file-style:"gnu"; indent-tabs-mode:nil; -*- */'',
      ''#ifndef {INCLUDE_GUARD}'',
      ''#define {INCLUDE_GUARD}'',
      [],
      ''namespace ns3 {{'',
      [],
      ''/* ... */'',
      [],
      ''}}'',
      [],
      ''#endif /* {INCLUDE_GUARD} */'',
      []]\<close>

definition helper_cc_template :: "string list" where
  \<open>helper_cc_template =
     [''/* -*- Mode:C++; c-file-style:"gnu"; indent-tabs-mode:nil; -*- */'',
      [],
      ''#include "{MODULE}-helper.h"'',
      [],
      ''namespace ns3 {{'',
      [],
      ''/* ... */'',
      [],
      [],
      ''}}'',
      []]\<close>

definition helper_h_template :: "string list" where
  \<open>helper_h_template =
     [''/* -*- Mode:C++; c-file-style:"gnu"; indent-tabs-mode:nil; -*- */'',
      ''#ifndef {INCLUDE_GUARD}'',
      ''#define {INCLUDE_GUARD}'',
      [],
      ''#include "ns3/{MODULE}.h"'',
      [],
      ''namespace ns3 {{'',
      [],
      ''/* ... */'',
      [],
      ''}}'',
      [],
      ''#endif /* {INCLUDE_GUARD} */'',
      []]\<close>

definition examples_wscript_template :: "string list" where
  \<open>examples_wscript_template =
     [''# -*- Mode: python; py-indent-offset: 4; indent-tabs-mode: nil; coding: utf-8; -*-'',
      [],
      ''def build(bld):'',
      ''    obj = bld.create_ns3_program('{MODULE}-example', [{MODULE!r}])'',
      ''    obj.source = '{MODULE}-example.cc'' @ [CHR 0x27],
      []]\<close>

definition example_cc_template :: "string list" where
  \<open>example_cc_template =
     [''/* -*- Mode:C++; c-file-style:"gnu"; indent-tabs-mode:nil; -*- */'',
      [],
      ''#include "ns3/core-module.h"'',
      ''#include "ns3/{MODULE}-helper.h"'',
      [],
      ''using namespace ns3;'',
      [],
      [],
      ''int '',
      ''main (int argc, char *argv[])'',
      ''{{'',
      ''  bool verbose = true;'',
      [],
      ''  CommandLine cmd (__FILE__);'',
      ''  cmd.AddValue ("verbose", "Tell application to log if true", verbose);'',
      [],
      ''  cmd.Parse (argc,argv);'',
      [],
      ''  /* ... */'',
      [],
      ''  Simulator::Run ();'',
      ''  Simulator::Destroy ();'',
      ''  return 0;'',
      ''}}'',
      [],
      []]\<close>

definition test_cc_template_1 :: "string list" where
  \<open>test_cc_template_1 =
     [''/* -*- Mode:C++; c-file-style:"gnu"; indent-tabs-mode:nil; -*- */'',
      [],
      ''// Include a header file from your module to test.'',
      ''#include "ns3/{MODULE}.h"'',
      [],
      ''// An essential include is test.h'',
      ''#include "ns3/test.h"'',
      [],
      ''// Do not put your test classes in namespace ns3.  You may find it useful'',
      ''// to use the using directive to access the ns3 namespace directly'',
      ''using namespace ns3;'',
      [],
      ''// This is an example TestCase.'',
      ''class {CAPITALIZED}TestCase1 : public TestCase'',
      ''{{'',
      ''public:'',
      ''  {CAPITALIZED}TestCase1 ();'',
      ''  virtual ~{CAPITALIZED}TestCase1 ();'',
      [],
      ''private:'',
      ''  virtual void DoRun (void);'',
      ''}};'',
      [],
      ''// Add some help text to this case to describe what it is intended to test'',
      ''{CAPITALIZED}TestCase1::{CAPITALIZED}TestCase1 ()'',
      ''  : TestCase ("{CAPITALIZED} test case (does nothing)")'',
      ''{{'',
      ''}}'',
      [],
      ''// This destructor does nothing but we include it as a reminder that'',
      ''// the test case should clean up after itself'',
      ''{CAPITALIZED}TestCase1::~{CAPITALIZED}TestCase1 ()'']\<close>

definition test_cc_template_2 :: "string list" where
  \<open>test_cc_template_2 =
     [''{{'',
      ''}}'',
      [],
      ''//'',
      ''// This method is the pure virtual method from class TestCase that every'',
      ''// TestCase must implement'',
      ''//'',
      ''void'',
      ''{CAPITALIZED}TestCase1::DoRun (void)'',
      ''{{'',
      ''  // A wide variety of test macros are available in src/core/test.h'',
      ''  NS_TEST_ASSERT_MSG_EQ (true, true, "true doesn't equal true for some reason");'',
      ''  // Use this one for floating point comparisons'',
      ''  NS_TEST_ASSERT_MSG_EQ_TOL (0.01, 0.01, 0.001, "Numbers are not equal within tolerance");'',
      ''}}'',
      [],
      ''// The TestSuite class names the TestSuite, identifies what type of TestSuite,'',
      ''// and enables the TestCases to be run.  Typically, only the constructor for'',
      ''// this class must be defined'',
      ''//'',
      ''class {CAPITALIZED}TestSuite : public TestSuite'',
      ''{{'',
      ''public:'',
      ''  {CAPITALIZED}TestSuite ();'',
      ''}};'',
      [],
      ''{CAPITALIZED}TestSuite::{CAPITALIZED}TestSuite ()'',
      ''  : TestSuite ("{MODULE}", UNIT)'',
      ''{{'',
      ''  // TestDuration for TestCase can be QUICK, EXTENSIVE or TAKES_FOREVER'',
      ''  AddTestCase (new {CAPITALIZED}TestCase1, TestCase::QUICK);'',
      ''}}'']\<close>

definition test_cc_template_3 :: "string list" where
  \<open>test_cc_template_3 =
     [[],
      ''// Do not forget to allocate an instance of this TestSuite'',
      ''static {CAPITALIZED}TestSuite s{COMPOUND}TestSuite;'',
      []]\<close>

definition test_cc_template :: "string list" where
  "test_cc_template = test_cc_template_1 @ test_cc_template_2 @ test_cc_template_3"

definition doc_rst_template_1 :: "string list" where
  \<open>doc_rst_template_1 =
     [''Example Module Documentation'',
      ''----------------------------'',
      [],
      ''.. include:: replace.txt'',
      ''.. highlight:: cpp'',
      [],
      ''.. heading hierarchy:'',
      ''   ------------- Chapter'',
      ''   ************* Section (#.#)'',
      ''   ============= Subsection (#.#.#)'',
      ''   ############# Paragraph (no number)'',
      [],
      ''This is a suggested outline for adding new module documentation to |ns3|.'',
      ''See ``src/click/doc/click.rst`` for an example.'',
      [],
      ''The introductory paragraph is for describing what this code is trying to'',
      ''model.'',
      [],
      ''For consistency (italicized formatting), please use |ns3| to refer to'',
      ''ns-3 in the documentation (and likewise, |ns2| for ns-2).  These macros'',
      ''are defined in the file ``replace.txt``.'',
      [],
      ''Model Description'',
      ''*****************'',
      [],
      ''The source code for the new module lives in the directory ``{MODULE_DIR}``.'',
      [],
      ''Add here a basic description of what is being modeled.'',
      [],
      ''Design'',
      ''======'',
      []]\<close>

definition doc_rst_template_2 :: "string list" where
  \<open>doc_rst_template_2 =
     [''Briefly describe the software design of the model and how it fits into '',
      ''the existing ns-3 architecture. '',
      [],
      ''Scope and Limitations'',
      ''====================='',
      [],
      ''What can the model do?  What can it not do?  Please use this section to'',
      ''describe the scope and limitations of the model.'',
      [],
      ''References'',
      ''=========='',
      [],
      ''Add academic citations here, such as if you published a paper on this'',
      ''model, or if readers should read a particular specification or other work.'',
      [],
      ''Usage'',
      ''*****'',
      [],
      ''This section is principally concerned with the usage of your model, using'',
      ''the public API.  Focus first on most common usage patterns, then go'',
      ''into more advanced topics.'',
      [],
      ''Building New Module'',
      ''==================='',
      [],
      ''Include this subsection only if there are special build instructions or'',
      ''platform limitations.'',
      [],
      ''Helpers'',
      ''======='',
      [],
      ''What helper API will users typically use?  Describe it here.'']\<close>

definition doc_rst_template_3 :: "string list" where
  \<open>doc_rst_template_3 =
     [[],
      ''Attributes'',
      ''=========='',
      [],
      ''What classes hold attributes, and what are the key ones worth mentioning?'',
      [],
      ''Output'',
      ''======'',
      [],
      ''What kind of data does the model generate?  What are the key trace'',
      ''sources?   What kind of logging output can be enabled?'',
      [],
      ''Advanced Usage'',
      ''=============='',
      [],
      ''Go into further details (such as using the API outside of the helpers)'',
      ''in additional sections, as needed.'',
      [],
      ''Examples'',
      ''========'',
      [],
      ''What examples using this new code are available?  Describe them here.'',
      [],
      ''Troubleshooting'',
      ''==============='',
      [],
      ''Add any tips for avoiding pitfalls, etc.'',
      [],
      ''Validation'',
      ''**********'',
      [],
      ''Describe how the model has been tested/validated.  What tests run in the'']\<close>

definition doc_rst_template_4 :: "string list" where
  \<open>doc_rst_template_4 =
     [''test suite?  How much API and code is covered by the tests?  Again, '',
      ''references to outside published work may help here.'']\<close>

definition doc_rst_template :: "string list" where
  "doc_rst_template = doc_rst_template_1 @ doc_rst_template_2 @ doc_rst_template_3 @ doc_rst_template_4"

end
