(* ===== verification/Create_Module.thy ===== *)
theory Create_Module
  imports Module_Templates
begin

text \<open>
  \<^verbatim>\<open>src/utils/create-module.py\<close>: the files of a new module are written from the templates
  of \<^theory_text>\<open>Module_Templates\<close>.  The file system is a dictionary from absolute paths (their
  components) to directories and texts; the answer of the system to a creation is a
  parameter that may depend on the state, so every creation can be refused; \<open>rmtree\<close> succeeds.  What argparse returns
  (\<open>--project\<close> and the module names) is an argument of \<open>main\<close>; the help texts are left out.
\<close>

section \<open>Paths\<close>

text \<open>A \<open>pathlib\<close> path on POSIX: its root and its components, without empty ones and dots.\<close>

record pure_path =
  pp_root :: string
  pp_comps :: "string list"

definition Path :: "string \<Rightarrow> pure_path" where
  "Path s =
     \<lparr>pp_root = (if startswith s ''//'' \<and> \<not> startswith s ''///'' then ''//''
                else if startswith s ''/'' then ''/'' else []),
      pp_comps = filter (\<lambda>c. c \<noteq> [] \<and> c \<noteq> ''.'') (split_on CHR ''/'' s)\<rparr>"

definition parts :: "pure_path \<Rightarrow> string list" where
  "parts p = (if pp_root p = [] then pp_comps p else pp_root p # pp_comps p)"

text \<open>\<open>relative_to(os.sep)\<close>: only the root \<open>/\<close> is taken off.\<close>

definition relative_to_sep :: "pure_path \<Rightarrow> pure_path res" where
  "relative_to_sep p = (if pp_root p = ''/'' then Inr (p\<lparr>pp_root := []\<rparr>) else Inl ValueError)"

definition strip_sep :: "string \<Rightarrow> string" where
  "strip_sep s = rev (dropWhile (\<lambda>c. c = CHR ''/'') (rev (dropWhile (\<lambda>c. c = CHR ''/'') s)))"

text \<open>\<open>^(\w|-)+$\<close> on ASCII: the end of the pattern also matches before a final newline.\<close>

definition is_word_char :: "char \<Rightarrow> bool" where
  "is_word_char c \<longleftrightarrow> (let n = (of_char c :: nat) in
     (48 \<le> n \<and> n \<le> 57) \<or> (65 \<le> n \<and> n \<le> 90) \<or> (97 \<le> n \<and> n \<le> 122) \<or> n = 95)"

definition allowed_name :: "string \<Rightarrow> bool" where
  "allowed_name s \<longleftrightarrow>
     (let t = (if s \<noteq> [] \<and> last s = NL then butlast s else s) in
      t \<noteq> [] \<and> list_all (\<lambda>c. is_word_char c \<or> c = CHR ''-'') t)"

section \<open>File system\<close>

datatype entry = Dir | Text string

type_synonym path = "string list"
type_synonym fs = "(path \<times> entry) list"

text \<open>\<open>can_create fs p\<close>: whether the system lets the script create or overwrite \<open>p\<close>.\<close>

record world =
  can_create :: "fs \<Rightarrow> path \<Rightarrow> bool"
  cwd_path :: path

definition exists_path :: "fs \<Rightarrow> path \<Rightarrow> bool" where
  "exists_path f p \<longleftrightarrow> p = [] \<or> dict_has f p"

definition is_dir :: "fs \<Rightarrow> path \<Rightarrow> bool" where
  "is_dir f p \<longleftrightarrow> p = [] \<or> map_of f p = Some Dir"

text \<open>\<open>os.mkdir\<close>, and \<open>Path.mkdir(parents=True)\<close>: the missing parents come first.\<close>

definition os_mkdir :: "world \<Rightarrow> path \<Rightarrow> fs \<Rightarrow> unit res \<times> fs" where
  "os_mkdir w p f =
     (if exists_path f p \<or> \<not> is_dir f (butlast p) \<or> \<not> can_create w f p then (Inl OSError, f)
      else (Inr (), dict_set p Dir f))"

fun make_parents :: "world \<Rightarrow> path list \<Rightarrow> fs \<Rightarrow> unit res \<times> fs" where
  "make_parents w [] f = (Inr (), f)"
| "make_parents w (p # ps) f =
     (if is_dir f p then make_parents w ps f
      else (case os_mkdir w p f of
              (Inl e, f') \<Rightarrow> (Inl e, f')
            | (Inr _, f') \<Rightarrow> make_parents w ps f'))"

definition ancestors :: "path \<Rightarrow> path list" where
  "ancestors p = map (\<lambda>k. take k p) [1..<length p]"

definition mkdir :: "world \<Rightarrow> path \<Rightarrow> fs \<Rightarrow> unit res \<times> fs" where
  "mkdir w p f =
     (case make_parents w (ancestors p) f of
        (Inl e, f') \<Rightarrow> (Inl e, f')
      | (Inr _, f') \<Rightarrow> os_mkdir w p f')"

text \<open>\<open>open("wt")\<close> and \<open>write\<close>: the file is created or emptied before the text is formatted.\<close>

definition create_file :: "world \<Rightarrow> path \<Rightarrow> string list \<Rightarrow> (string \<times> string) list \<Rightarrow> fs \<Rightarrow> unit res \<times> fs" where
  "create_file w p template kw f =
     (if \<not> is_dir f (butlast p) \<or> is_dir f p \<or> \<not> can_create w f p then (Inl OSError, f)
      else (case format_template template kw of
              Inl e \<Rightarrow> (Inl e, dict_set p (Text []) f)
            | Inr t \<Rightarrow> (Inr (), dict_set p (Text t) f)))"

definition under :: "path \<Rightarrow> path \<Rightarrow> bool" where
  "under d p \<longleftrightarrow> take (length d) p = d"

definition rmtree :: "path \<Rightarrow> fs \<Rightarrow> fs" where
  "rmtree d f = filter (\<lambda>(p, _). \<not> under d p) f"

section \<open>The files of a module\<close>

text \<open>A sequence of file operations, up to the first that raises.\<close>

fun run_steps :: "(fs \<Rightarrow> unit res \<times> fs) list \<Rightarrow> fs \<Rightarrow> unit res \<times> fs" where
  "run_steps [] f = (Inr (), f)"
| "run_steps (s # ss) f = (case s f of (Inl e, f') \<Rightarrow> (Inl e, f') | (Inr _, f') \<Rightarrow> run_steps ss f')"

definition upper_char :: "char \<Rightarrow> char" where
  "upper_char c = (let n = (of_char c :: nat) in if 97 \<le> n \<and> n \<le> 122 then char_of (n - 32) else c)"

definition lower_char :: "char \<Rightarrow> char" where
  "lower_char c = (let n = (of_char c :: nat) in if 65 \<le> n \<and> n \<le> 90 then char_of (n + 32) else c)"

definition capitalize :: "string \<Rightarrow> string" where
  "capitalize s = (case s of [] \<Rightarrow> [] | c # cs \<Rightarrow> upper_char c # map lower_char cs)"

text \<open>\<open>modname.replace('-', '_').upper()\<close> with the ending of an include guard.\<close>

definition guard_of :: "string \<Rightarrow> string \<Rightarrow> string" where
  "guard_of modname ending = map (\<lambda>c. upper_char (if c = CHR ''-'' then CHR ''_'' else c)) modname @ ending"

text \<open>A name accepted by the pattern has no dot, so \<open>with_suffix\<close> appends.\<close>

definition with_suffix :: "string \<Rightarrow> string \<Rightarrow> string" where
  "with_suffix name suffix =
     (let stem = rev (dropWhile (\<lambda>c. c \<noteq> CHR ''.'') (rev name)) in
      if length stem \<le> 1 \<or> length stem = length name then name @ suffix else butlast stem @ suffix)"

definition make_wscript :: "world \<Rightarrow> path \<Rightarrow> string \<Rightarrow> fs \<Rightarrow> unit res \<times> fs" where
  "make_wscript w d m = create_file w (d @ [''wscript'']) wscript_template [(''MODULE'', m)]"

definition make_model :: "world \<Rightarrow> path \<Rightarrow> string \<Rightarrow> fs \<Rightarrow> unit res \<times> fs" where
  "make_model w d m = run_steps
     [mkdir w (d @ [''model'']),
      create_file w (d @ [''model'', with_suffix m ''.cc'']) model_cc_template [(''MODULE'', m)],
      create_file w (d @ [''model'', with_suffix m ''.h'']) model_h_template
        [(''MODULE'', m), (''INCLUDE_GUARD'', guard_of m ''_H'')]]"

definition capitalized :: "string \<Rightarrow> string" where
  "capitalized m = concat (map capitalize (split_on CHR ''-'' m))"

definition compound :: "string \<Rightarrow> string" where
  "compound m = (case split_on CHR ''-'' m of [] \<Rightarrow> [] | x # xs \<Rightarrow> x @ concat (map capitalize xs))"

definition make_test :: "world \<Rightarrow> path \<Rightarrow> string \<Rightarrow> fs \<Rightarrow> unit res \<times> fs" where
  "make_test w d m = run_steps
     [mkdir w (d @ [''test'']),
      create_file w (d @ [''test'', with_suffix (m @ ''-test-suite'') ''.cc'']) test_cc_template
        [(''MODULE'', m), (''CAPITALIZED'', capitalized m), (''COMPOUND'', compound m)]]"

definition make_helper :: "world \<Rightarrow> path \<Rightarrow> string \<Rightarrow> fs \<Rightarrow> unit res \<times> fs" where
  "make_helper w d m = run_steps
     [mkdir w (d @ [''helper'']),
      create_file w (d @ [''helper'', with_suffix (m @ ''-helper'') ''.cc'']) helper_cc_template [(''MODULE'', m)],
      create_file w (d @ [''helper'', with_suffix (m @ ''-helper'') ''.h'']) helper_h_template
        [(''MODULE'', m), (''INCLUDE_GUARD'', guard_of m ''_HELPER_H'')]]"

definition make_examples :: "world \<Rightarrow> path \<Rightarrow> string \<Rightarrow> fs \<Rightarrow> unit res \<times> fs" where
  "make_examples w d m = run_steps
     [mkdir w (d @ [''examples'']),
      create_file w (d @ [''examples'', ''wscript'']) examples_wscript_template [(''MODULE'', m)],
      create_file w (d @ [''examples'', with_suffix (m @ ''-example'') ''.cc'']) example_cc_template [(''MODULE'', m)]]"

text \<open>\<open>os.path.relpath\<close> to the current directory, on components.\<close>

fun rel_comps :: "path \<Rightarrow> path \<Rightarrow> path" where
  "rel_comps (a # as) (b # bs) = (if a = b then rel_comps as bs else map (\<lambda>_. ''..'') (a # as) @ b # bs)"
| "rel_comps as bs = map (\<lambda>_. ''..'') as @ bs"

definition relpath_to :: "path \<Rightarrow> path \<Rightarrow> string" where
  "relpath_to start p = (case rel_comps start p of [] \<Rightarrow> ''.'' | r \<Rightarrow> join ''/'' r)"

definition make_doc :: "world \<Rightarrow> path \<Rightarrow> string \<Rightarrow> fs \<Rightarrow> unit res \<times> fs" where
  "make_doc w d m = run_steps
     [mkdir w (d @ [''doc'']),
      create_file w (d @ [''doc'', m @ ''.rst'']) doc_rst_template
        [(''MODULE'', m), (''MODULE_DIR'', relpath_to (cwd_path w) d)]]"

text \<open>
  \<open>make_module\<close>: an existing path is refused; when anything raises, what was created below the
  module's directory is removed.
\<close>

definition make_artifacts :: "world \<Rightarrow> path \<Rightarrow> string \<Rightarrow> fs \<Rightarrow> unit res \<times> fs" where
  "make_artifacts w d m = run_steps
     [mkdir w d, make_wscript w d m, make_model w d m, make_test w d m, make_helper w d m,
      make_examples w d m, make_doc w d m]"

definition make_module :: "world \<Rightarrow> path \<Rightarrow> string \<Rightarrow> fs \<Rightarrow> bool \<times> fs" where
  "make_module w modpath m f =
     (let d = modpath @ [m] in
      if exists_path f d then (False, f)
      else (case make_artifacts w d m f of
              (Inr _, f') \<Rightarrow> (True, f')
            | (Inl e, f') \<Rightarrow> (False, if exists_path f' d then rmtree d f' else f')))"

section \<open>Main\<close>

text \<open>\<open>all(make_module(*module) for module in modules)\<close> stops at the first failure.\<close>

fun make_all :: "world \<Rightarrow> (path \<times> string) list \<Rightarrow> fs \<Rightarrow> bool \<times> fs" where
  "make_all w [] f = (True, f)"
| "make_all w ((modpath, m) # ms) f =
     (case make_module w modpath m f of (True, f') \<Rightarrow> make_all w ms f' | (False, f') \<Rightarrow> (False, f'))"

text \<open>The project path, checked; \<open>parser.error\<close> exits with status 2.\<close>

definition project_path :: "string \<Rightarrow> pure_path option res" where
  "project_path project =
     (if project = [] then Inr None
      else res_bind (if pp_root (Path project) \<noteq> [] then relative_to_sep (Path project) else Inr (Path project))
        (\<lambda>p. if list_all allowed_name (parts p) then Inr (Some p) else Inl (SystemExit 2)))"

text \<open>
  One name of the command line: \<open>None\<close> when it is skipped, otherwise the directory and the name
  of the module.
\<close>

definition check_name :: "path \<Rightarrow> string \<Rightarrow> pure_path option \<Rightarrow> string \<Rightarrow> (path \<times> string) option res" where
  "check_name base project proj_path name =
     (let name = (if name \<noteq> [] then strip_sep name else name) in
      if name = [] then Inr None
      else
        let ps = parts (Path name) in
        if length ps > 2 then Inr None
        else if ps = [] then Inl IndexError
        else if hd ps = ''src'' \<and> project \<noteq> [] then Inl (SystemExit 2)
        else
          let (modpath, ps) =
            (if hd ps = ''src'' then (base @ [''src''], tl ps)
             else if hd ps = ''contrib'' then (base @ [''contrib''], tl ps)
             else (base @ [''contrib''], ps));
              modpath = (case proj_path of None \<Rightarrow> modpath | Some p \<Rightarrow> base @ [''contrib''] @ pp_comps p)
          in if ps = [] then Inl IndexError
             else if \<not> allowed_name (hd ps) then Inr None
             else Inr (Some (modpath, hd ps)))"

fun check_names :: "path \<Rightarrow> string \<Rightarrow> pure_path option \<Rightarrow> string list \<Rightarrow> (path \<times> string) list res" where
  "check_names base project proj_path [] = Inr []"
| "check_names base project proj_path (n # ns) =
     res_bind (check_name base project proj_path n) (\<lambda>x.
     res_bind (check_names base project proj_path ns) (\<lambda>xs.
     Inr (case x of None \<Rightarrow> xs | Some y \<Rightarrow> y # xs)))"

definition main :: "world \<Rightarrow> string \<Rightarrow> string list \<Rightarrow> fs \<Rightarrow> int res \<times> fs" where
  "main w project modnames f =
     (let base = cwd_path w in
      if \<not> is_dir f (base @ [''src'']) \<or> \<not> is_dir f (base @ [''contrib'']) then (Inl (SystemExit 2), f)
      else (case res_bind (project_path project) (\<lambda>pp. check_names base project pp modnames) of
              Inl e \<Rightarrow> (Inl e, f)
            | Inr modules \<Rightarrow> (Inr 0, snd (make_all w modules f))))"

text \<open>The exit status: \<open>Exception\<close> is caught and gives 1, \<open>SystemExit\<close> is not caught.\<close>

definition exit_status :: "world \<Rightarrow> string \<Rightarrow> string list \<Rightarrow> fs \<Rightarrow> int \<times> fs" where
  "exit_status w project modnames f =
     (case main w project modnames f of
        (Inr k, f') \<Rightarrow> (k, f')
      | (Inl (SystemExit k), f') \<Rightarrow> (k, f')
      | (Inl e, f') \<Rightarrow> (1, f'))"

end
