(* ===== verification/Module_Creation.thy ===== *)
theory Module_Creation
  imports Create_Module
begin

text \<open>
  Properties of \<^theory_text>\<open>Create_Module\<close>: the file system stays well formed, the creation of a module
  is atomic up to empty parent directories, a successful creation leaves exactly the files of
  the module, and the exit status does not tell a failure.
\<close>

section \<open>Well formed file systems\<close>

text \<open>Every entry lies in a directory; the root itself is not listed.\<close>

definition wf_fs :: "fs \<Rightarrow> bool" where
  "wf_fs f \<longleftrightarrow> list_all (\<lambda>(p, e). p \<noteq> [] \<and> is_dir f (butlast p)) f"

lemma wf_fs_iff: "wf_fs f \<longleftrightarrow> (\<forall>p. p \<in> fst ` set f \<longrightarrow> p \<noteq> [] \<and> is_dir f (butlast p))"
  by (auto simp: wf_fs_def list_all_iff)

lemma wf_fs_parent: "wf_fs f \<Longrightarrow> map_of f p = Some e \<Longrightarrow> p \<noteq> [] \<and> is_dir f (butlast p)"
  unfolding wf_fs_iff by (metis dom_map_of_conv_image_fst domI)

lemma is_dir_dict_set:
  "is_dir (dict_set p e f) q \<longleftrightarrow> q = [] \<or> (if q = p then e = Dir else is_dir f q)"
  by (auto simp: is_dir_def)

lemma exists_path_dict_set:
  "exists_path (dict_set p e f) q \<longleftrightarrow> q = p \<or> exists_path f q"
  by (auto simp: exists_path_def)

lemma is_dir_exists: "is_dir f p \<Longrightarrow> exists_path f p"
  by (auto simp: is_dir_def exists_path_def)

lemma is_dir_Nil [simp]: "is_dir f []"
  by (simp add: is_dir_def)

lemma exists_Nil [simp]: "exists_path f []"
  by (simp add: exists_path_def)

lemma wf_fs_dict_set:
  assumes "wf_fs f" "p \<noteq> []" "is_dir f (butlast p)" "e = Dir \<or> \<not> is_dir f p"
  shows "wf_fs (dict_set p e f)"
proof -
  have keep: "is_dir (dict_set p e f) q" if "is_dir f q" for q
    using that assms(4) by (auto simp: is_dir_dict_set)
  show ?thesis
    unfolding wf_fs_iff keys_dict_set'
    using assms keep by (auto simp: wf_fs_iff)
qed

lemma take_butlast_prefix: "p \<noteq> [] \<Longrightarrow> under d (butlast p) \<Longrightarrow> under d p"
proof -
  assume "p \<noteq> []" "under d (butlast p)"
  then have "butlast p = d @ drop (length d) (butlast p)"
    unfolding under_def by (metis append_take_drop_id)
  then have "p = d @ drop (length d) (butlast p) @ [last p]"
    using \<open>p \<noteq> []\<close> by (metis append_assoc append_butlast_last_id)
  then show ?thesis by (metis under_def append_eq_conv_conj)
qed

lemma under_append [simp]: "under d (d @ x)"
  by (simp add: under_def)

lemma under_refl [simp]: "under d d"
  by (simp add: under_def)

lemma map_of_rmtree: "map_of (rmtree d f) p = (if under d p then None else map_of f p)"
  by (induction f) (auto simp: rmtree_def)

lemma wf_fs_rmtree:
  assumes "wf_fs f"
  shows "wf_fs (rmtree d f)"
proof -
  have "is_dir (rmtree d f) (butlast p)"
    if "p \<in> fst ` set f" "\<not> under d p" for p
  proof -
    have p: "p \<noteq> []" "is_dir f (butlast p)"
      using assms that(1) unfolding wf_fs_iff by blast+
    moreover have "\<not> under d (butlast p)"
      using take_butlast_prefix [OF p(1)] that(2) by blast
    ultimately show ?thesis by (simp add: is_dir_def map_of_rmtree)
  qed
  then show ?thesis
    using assms unfolding wf_fs_iff by (force simp: rmtree_def)
qed

lemma wf_fs_prefix:
  assumes "wf_fs f" "is_dir f (p @ q)"
  shows "is_dir f p"
  using assms(2)
proof (induction q rule: rev_induct)
  case (snoc x q)
  then have "map_of f ((p @ q) @ [x]) = Some Dir" by (simp add: is_dir_def)
  then have "is_dir f (butlast ((p @ q) @ [x]))" using wf_fs_parent [OF assms(1)] by blast
  then show ?case using snoc.IH by (simp add: butlast_append)
qed simp

lemma wf_fs_under:
  assumes "wf_fs f" "\<not> exists_path f d" "under d p"
  shows "map_of f p = None"
proof -
  obtain q where p: "p = d @ q"
    using assms(3) by (metis under_def append_take_drop_id)
  show ?thesis
  proof (cases q rule: rev_cases)
    case Nil
    then show ?thesis using assms(2) p by (simp add: exists_path_def)
  next
    case (snoc r x)
    have "\<not> is_dir f (d @ r)"
      using wf_fs_prefix [OF assms(1)] assms(2) is_dir_exists by blast
    then show ?thesis
      using wf_fs_parent [OF assms(1), of "d @ r @ [x]"] p snoc
      by (cases "map_of f p") (auto simp: butlast_append)
  qed
qed

section \<open>What an operation may change\<close>

text \<open>
  \<open>changes_below d f f'\<close>: outside of \<open>d\<close> nothing changes but missing parents of \<open>d\<close>, which become
  directories.
\<close>

definition changes_below :: "path \<Rightarrow> fs \<Rightarrow> fs \<Rightarrow> bool" where
  "changes_below d f f' \<longleftrightarrow>
     (\<forall>p. under d p \<or> map_of f' p = map_of f p \<or>
          (p \<in> set (ancestors d) \<and> map_of f p = None \<and> map_of f' p = Some Dir))"

definition safe_step :: "path \<Rightarrow> (fs \<Rightarrow> unit res \<times> fs) \<Rightarrow> bool" where
  "safe_step d s \<longleftrightarrow> (\<forall>f. wf_fs f \<longrightarrow> wf_fs (snd (s f)) \<and> changes_below d f (snd (s f)))"

lemma below_refl [simp, intro]: "changes_below d f f"
  by (simp add: changes_below_def)

lemma below_trans: "changes_below d f g \<Longrightarrow> changes_below d g h \<Longrightarrow> changes_below d f h"
  unfolding changes_below_def by (metis option.distinct(1))

lemma below_set: "under d p \<Longrightarrow> changes_below d f (dict_set p e f)"
  by (auto simp: changes_below_def)

lemma safe_stepI:
  "(\<And>f. wf_fs f \<Longrightarrow> wf_fs (snd (s f)) \<and> changes_below d f (snd (s f))) \<Longrightarrow> safe_step d s"
  by (simp add: safe_step_def)

lemma safe_stepD: "safe_step d s \<Longrightarrow> wf_fs f \<Longrightarrow> wf_fs (snd (s f)) \<and> changes_below d f (snd (s f))"
  by (simp add: safe_step_def)

lemma safe_run_steps: "list_all (safe_step d) ss \<Longrightarrow> safe_step d (run_steps ss)"
proof (induction ss)
  case Nil
  show ?case by (rule safe_stepI) simp
next
  case (Cons s ss)
  have s: "safe_step d s" and ss: "safe_step d (run_steps ss)"
    using Cons by simp_all
  show ?case
  proof (rule safe_stepI)
    fix f assume wf: "wf_fs f"
    obtain r g where g: "s f = (r, g)" by (cases "s f")
    have 1: "wf_fs g" "changes_below d f g" using safe_stepD [OF s wf] g by simp_all
    have 2: "wf_fs (snd (run_steps ss g))" "changes_below d g (snd (run_steps ss g))"
      using safe_stepD [OF ss 1(1)] by simp_all
    show "wf_fs (snd (run_steps (s # ss) f)) \<and> changes_below d f (snd (run_steps (s # ss) f))"
      using 1 2 g below_trans [OF 1(2) 2(2)] by (cases r) simp_all
  qed
qed

lemma safe_create_file:
  assumes "under d p" "p \<noteq> []"
  shows "safe_step d (create_file w p t kw)"
proof (rule safe_stepI)
  fix f assume "wf_fs f"
  then show "wf_fs (snd (create_file w p t kw f)) \<and> changes_below d f (snd (create_file w p t kw f))"
    using assms below_set [OF assms(1)]
    by (auto simp: create_file_def wf_fs_dict_set split: sum.splits)
qed

lemma os_mkdir_wf:
  assumes "wf_fs f"
  shows "wf_fs (snd (os_mkdir w p f))"
  using assms wf_fs_dict_set [of f p Dir] by (auto simp: os_mkdir_def exists_path_def)

lemma os_mkdir_below:
  assumes "under d p \<or> p \<in> set (ancestors d)"
  shows "changes_below d f (snd (os_mkdir w p f))"
  using assms by (auto simp: os_mkdir_def changes_below_def exists_path_def)

lemma make_parents_safe:
  assumes "\<forall>p \<in> set ps. under d p \<or> p \<in> set (ancestors d)" "wf_fs f"
  shows "wf_fs (snd (make_parents w ps f)) \<and> changes_below d f (snd (make_parents w ps f))"
  using assms
proof (induction ps arbitrary: f)
  case (Cons p ps)
  show ?case
  proof (cases "is_dir f p")
    case True
    then show ?thesis using Cons by simp
  next
    case False
    obtain r g where g: "os_mkdir w p f = (r, g)" by (cases "os_mkdir w p f")
    have 1: "wf_fs g" using os_mkdir_wf [OF Cons.prems(2), of w p] g by simp
    have 2: "changes_below d f g" using os_mkdir_below [of d p f w] Cons.prems(1) g by simp
    have 3: "wf_fs (snd (make_parents w ps g))" "changes_below d g (snd (make_parents w ps g))"
      using Cons.IH [OF _ 1] Cons.prems(1) by simp_all
    show ?thesis
      using 1 2 3(1) g False below_trans [OF 2 3(2)] by (cases r) simp_all
  qed
qed simp

lemma ancestors_snoc: "d \<noteq> [] \<Longrightarrow> ancestors (d @ [x]) = ancestors d @ [d]"
  by (cases "length d") (auto simp: ancestors_def)

lemma safe_mkdir:
  assumes "p = d \<or> (\<exists>x. p = d @ [x])" "d \<noteq> []"
  shows "safe_step d (mkdir w p)"
proof (rule safe_stepI)
  fix f assume wf: "wf_fs f"
  have anc: "\<forall>q \<in> set (ancestors p). under d q \<or> q \<in> set (ancestors d)"
    using assms by (auto simp: ancestors_snoc)
  obtain r g where g: "make_parents w (ancestors p) f = (r, g)"
    by (cases "make_parents w (ancestors p) f")
  have 1: "wf_fs g" "changes_below d f g"
    using make_parents_safe [OF anc wf, of w] g by simp_all
  have 2: "wf_fs (snd (os_mkdir w p g))" by (rule os_mkdir_wf [OF 1(1)])
  have 3: "changes_below d g (snd (os_mkdir w p g))"
    by (rule os_mkdir_below) (use assms in auto)
  show "wf_fs (snd (mkdir w p f)) \<and> changes_below d f (snd (mkdir w p f))"
    using g 1 2 below_trans [OF 1(2) 3] by (cases r) (simp_all add: mkdir_def)
qed

lemmas artifact_defs = make_wscript_def make_model_def make_test_def make_helper_def
  make_examples_def make_doc_def

lemma safe_artifacts:
  assumes "d \<noteq> []"
  shows "safe_step d (make_artifacts w d m)"
proof -
  have mk: "safe_step d (mkdir w d)" "\<And>x. safe_step d (mkdir w (d @ [x]))"
    using assms safe_mkdir by blast+
  have cf: "\<And>x t kw. x \<noteq> [] \<Longrightarrow> safe_step d (create_file w (d @ x) t kw)"
    using assms by (intro safe_create_file) simp_all
  have "list_all (safe_step d)
     [mkdir w d, make_wscript w d m, make_model w d m, make_test w d m, make_helper w d m,
      make_examples w d m, make_doc w d m]"
    by (simp add: artifact_defs safe_run_steps mk cf)
  then have "safe_step d (run_steps
     [mkdir w d, make_wscript w d m, make_model w d m, make_test w d m, make_helper w d m,
      make_examples w d m, make_doc w d m])"
    by (rule safe_run_steps)
  then show ?thesis by (simp add: make_artifacts_def fun_eq_iff safe_step_def)
qed

lemma make_module_safe:
  assumes "wf_fs f"
  shows "wf_fs (snd (make_module w modpath m f)) \<and>
         changes_below (modpath @ [m]) f (snd (make_module w modpath m f))"
proof -
  obtain r g where g: "make_artifacts w (modpath @ [m]) m f = (r, g)"
    by (cases "make_artifacts w (modpath @ [m]) m f")
  have s: "wf_fs g" "changes_below (modpath @ [m]) f g"
    using safe_stepD [OF safe_artifacts assms, of "modpath @ [m]" w m] g by simp_all
  have t: "changes_below (modpath @ [m]) f (rmtree (modpath @ [m]) g)"
    by (rule below_trans [OF s(2)]) (simp add: changes_below_def map_of_rmtree)
  show ?thesis
  proof (cases r)
    case (Inl e)
    then show ?thesis
      using g assms s t wf_fs_rmtree [OF s(1)] by (simp add: make_module_def Let_def)
  next
    case (Inr u)
    then show ?thesis
      using g assms s by (simp add: make_module_def Let_def)
  qed
qed

text \<open>C23: a failed creation leaves the file system as it was, up to parent directories of the module
  that were missing: nothing of the module stays, and no existing file is changed.
\<close>

theorem failed_module_leaves_nothing:
  assumes "wf_fs f" "make_module w modpath m f = (False, f')"
  shows "map_of f' p = map_of f p \<or>
         (p \<in> set (ancestors (modpath @ [m])) \<and> map_of f p = None \<and> map_of f' p = Some Dir)"
proof (cases "exists_path f (modpath @ [m])")
  case True
  then show ?thesis using assms(2) by (simp add: make_module_def)
next
  case False
  let ?d = "modpath @ [m]"
  obtain r g where g: "make_artifacts w ?d m f = (r, g)"
    by (cases "make_artifacts w ?d m f")
  have wf: "wf_fs g" using safe_stepD [OF safe_artifacts assms(1), of ?d w m] g by simp
  have w: "changes_below ?d f f'"
    using make_module_safe [OF assms(1), of w modpath m] assms(2) by simp
  have "f' = (if exists_path g ?d then rmtree ?d g else g)"
    using assms(2) False g by (auto simp: make_module_def Let_def split: sum.splits)
  then have "map_of f' p = None" if "under ?d p"
    using that wf_fs_under [OF wf] by (simp add: map_of_rmtree)
  moreover have "map_of f p = None" if "under ?d p"
    using that wf_fs_under [OF assms(1) False] by simp
  ultimately show ?thesis using w unfolding changes_below_def by metis
qed

theorem failed_module_leaves_nothing_witness:
  "snd (make_module \<lparr>can_create = \<lambda>f p. last p \<noteq> ''wscript'', cwd_path = []\<rparr> [''contrib''] ''m'' []) =
     [([''contrib''], Dir)] \<and>
   map_of [([''contrib''], Dir)] [''contrib'', ''m''] = None"
proof -
  let ?w = "\<lparr>can_create = \<lambda>f p. last p \<noteq> ''wscript'', cwd_path = []\<rparr> :: world"
  have wf: "wf_fs []" by (simp add: wf_fs_def)
  have e: "make_module ?w [''contrib''] ''m'' [] = (False, [([''contrib''], Dir)])"
    by (simp add: make_module_def make_artifacts_def mkdir_def os_mkdir_def ancestors_def
        is_dir_def exists_path_def make_wscript_def create_file_def rmtree_def under_def)
  show ?thesis
    using failed_module_leaves_nothing [OF wf e, of "[''contrib'', ''m'']"] e
    by (simp add: ancestors_def)
qed

section \<open>The templates can be formatted\<close>

fun format_ok :: "string list \<Rightarrow> string option \<Rightarrow> string \<Rightarrow> bool" where
  "format_ok ks None [] = True"
| "format_ok ks (Some acc) [] = False"
| "format_ok ks None (c # s) =
     (if c = LBRACE then
        (case s of [] \<Rightarrow> False
         | d # s' \<Rightarrow> if d = LBRACE then format_ok ks None s' else format_ok ks (Some []) s)
      else if c = RBRACE then
        (case s of [] \<Rightarrow> False | d # s' \<Rightarrow> d = RBRACE \<and> format_ok ks None s')
      else format_ok ks None s)"
| "format_ok ks (Some acc) (c # s) =
     (if c = RBRACE then
        (if endswith acc ''!r'' then take (length acc - 2) acc else acc) \<in> set ks \<and> format_ok ks None s
      else format_ok ks (Some (acc @ [c])) s)"

lemma field_value_ok:
  "(if endswith f ''!r'' then take (length f - 2) f else f) \<in> set (map fst kw) \<Longrightarrow>
   \<exists>v. field_value kw f = Inr v"
  by (cases "map_of kw (if endswith f ''!r'' then take (length f - 2) f else f)")
    (auto simp: field_value_def map_of_eq_None_iff)

lemma format_loop_ok:
  "format_ok (map fst kw) mode s \<Longrightarrow> \<exists>t. format_loop kw mode s = Inr t"
proof (induction kw mode s rule: format_loop.induct)
  case (3 kw c s)
  show ?case
  proof (cases s)
    case Nil
    then show ?thesis using 3 by (simp split: if_splits)
  next
    case (Cons d s')
    consider "c = LBRACE \<and> d = LBRACE" | "c = LBRACE \<and> d \<noteq> LBRACE" | "c = RBRACE"
      | "c \<noteq> LBRACE \<and> c \<noteq> RBRACE" by blast
    then show ?thesis
    proof cases
      case 1
      then show ?thesis using 3(1) [of d s'] 3(5) Cons by auto
    next
      case 2
      then show ?thesis using 3(2) [of d s'] 3(5) Cons by simp
    next
      case 3
      then show ?thesis using "3.IH"(3) [of d s'] "3.prems" Cons by auto
    next
      case 4
      then show ?thesis using "3.IH"(4) "3.prems" by auto
    qed
  qed
next
  case (4 kw acc c s)
  then show ?case
    using field_value_ok [of acc kw] by (cases "c = RBRACE") auto
qed simp_all

lemma format_ok_append:
  "format_ok ks mode a \<Longrightarrow> format_ok ks None b \<Longrightarrow> format_ok ks mode (a @ b)"
proof (induction ks mode a rule: format_ok.induct)
  case (3 ks c s)
  then show ?case by (auto split: if_splits list.splits)
qed auto

definition template_ok :: "string list \<Rightarrow> string list \<Rightarrow> bool" where
  "template_ok ks t \<longleftrightarrow> list_all (format_ok ks None) t"

lemma template_ok_append [simp]:
  "template_ok ks (a @ b) \<longleftrightarrow> template_ok ks a \<and> template_ok ks b"
  by (simp add: template_ok_def)

lemma format_template_ok:
  assumes "template_ok (map fst kw) t"
  shows "\<exists>s. format_template t kw = Inr s"
proof -
  have "format_ok (map fst kw) None (template_text t)"
    using assms
    by (induction t) (auto simp: template_ok_def template_text_def intro!: format_ok_append)
  then show ?thesis unfolding format_template_def by (rule format_loop_ok)
qed

lemmas line_check = template_ok_def endswith_def startswith_def

lemma wscript_ok_1:
  "template_ok [''MODULE''] wscript_template_1"
  by (simp add: line_check wscript_template_1_def)

lemma wscript_ok_2:
  "template_ok [''MODULE''] wscript_template_2"
  by (simp add: line_check wscript_template_2_def)

lemma model_cc_ok:
  "template_ok [''MODULE''] model_cc_template"
  by (simp add: line_check model_cc_template_def)

lemma model_h_ok:
  "template_ok [''MODULE'', ''INCLUDE_GUARD''] model_h_template"
  by (simp add: line_check model_h_template_def)

lemma helper_cc_ok:
  "template_ok [''MODULE''] helper_cc_template"
  by (simp add: line_check helper_cc_template_def)

lemma helper_h_ok:
  "template_ok [''MODULE'', ''INCLUDE_GUARD''] helper_h_template"
  by (simp add: line_check helper_h_template_def)

lemma examples_wscript_ok:
  "template_ok [''MODULE''] examples_wscript_template"
  by (simp add: line_check examples_wscript_template_def)

lemma example_cc_ok:
  "template_ok [''MODULE''] example_cc_template"
  by (simp add: line_check example_cc_template_def)

lemma test_cc_ok_1:
  "template_ok [''MODULE'', ''CAPITALIZED'', ''COMPOUND''] test_cc_template_1"
  by (simp add: line_check test_cc_template_1_def)

lemma test_cc_ok_2:
  "template_ok [''MODULE'', ''CAPITALIZED'', ''COMPOUND''] test_cc_template_2"
  by (simp add: line_check test_cc_template_2_def)

lemma test_cc_ok_3:
  "template_ok [''MODULE'', ''CAPITALIZED'', ''COMPOUND''] test_cc_template_3"
  by (simp add: line_check test_cc_template_3_def)

lemma doc_rst_ok_1:
  "template_ok [''MODULE'', ''MODULE_DIR''] doc_rst_template_1"
  by (simp add: line_check doc_rst_template_1_def)

lemma doc_rst_ok_2:
  "template_ok [''MODULE'', ''MODULE_DIR''] doc_rst_template_2"
  by (simp add: line_check doc_rst_template_2_def)

lemma doc_rst_ok_3:
  "template_ok [''MODULE'', ''MODULE_DIR''] doc_rst_template_3"
  by (simp add: line_check doc_rst_template_3_def)

lemma doc_rst_ok_4:
  "template_ok [''MODULE'', ''MODULE_DIR''] doc_rst_template_4"
  by (simp add: line_check doc_rst_template_4_def)

lemma wscript_ok:
  "template_ok [''MODULE''] wscript_template"
  by (simp add: wscript_template_def wscript_ok_1 wscript_ok_2)

lemma test_cc_ok:
  "template_ok [''MODULE'', ''CAPITALIZED'', ''COMPOUND''] test_cc_template"
  by (simp add: test_cc_template_def test_cc_ok_1 test_cc_ok_2 test_cc_ok_3)

lemma doc_rst_ok:
  "template_ok [''MODULE'', ''MODULE_DIR''] doc_rst_template"
  by (simp add: doc_rst_template_def doc_rst_ok_1 doc_rst_ok_2 doc_rst_ok_3 doc_rst_ok_4)

end
