(* ===== verification/Module_Success.thy ===== *)
theory Module_Success
  imports Module_Creation
begin

text \<open>A module that is created: its directories and files, and that a willing system gets there.\<close>

section \<open>The tree of a module\<close>

definition formatted :: "string list \<Rightarrow> (string \<times> string) list \<Rightarrow> string" where
  "formatted t kw = (case format_template t kw of Inl _ \<Rightarrow> [] | Inr s \<Rightarrow> s)"

definition model_tree :: "path \<Rightarrow> string \<Rightarrow> fs" where
  "model_tree d m =
     [(d @ [''model''], Dir),
      (d @ [''model'', with_suffix m ''.cc''], Text (formatted model_cc_template [(''MODULE'', m)])),
      (d @ [''model'', with_suffix m ''.h''],
        Text (formatted model_h_template [(''MODULE'', m), (''INCLUDE_GUARD'', guard_of m ''_H'')]))]"

definition test_tree :: "path \<Rightarrow> string \<Rightarrow> fs" where
  "test_tree d m =
     [(d @ [''test''], Dir),
      (d @ [''test'', with_suffix (m @ ''-test-suite'') ''.cc''],
        Text (formatted test_cc_template
          [(''MODULE'', m), (''CAPITALIZED'', capitalized m), (''COMPOUND'', compound m)]))]"

definition helper_tree :: "path \<Rightarrow> string \<Rightarrow> fs" where
  "helper_tree d m =
     [(d @ [''helper''], Dir),
      (d @ [''helper'', with_suffix (m @ ''-helper'') ''.cc''],
        Text (formatted helper_cc_template [(''MODULE'', m)])),
      (d @ [''helper'', with_suffix (m @ ''-helper'') ''.h''],
        Text (formatted helper_h_template [(''MODULE'', m), (''INCLUDE_GUARD'', guard_of m ''_HELPER_H'')]))]"

definition examples_tree :: "path \<Rightarrow> string \<Rightarrow> fs" where
  "examples_tree d m =
     [(d @ [''examples''], Dir),
      (d @ [''examples'', ''wscript''], Text (formatted examples_wscript_template [(''MODULE'', m)])),
      (d @ [''examples'', with_suffix (m @ ''-example'') ''.cc''],
        Text (formatted example_cc_template [(''MODULE'', m)]))]"

definition doc_tree :: "path \<Rightarrow> path \<Rightarrow> string \<Rightarrow> fs" where
  "doc_tree start d m =
     [(d @ [''doc''], Dir),
      (d @ [''doc'', m @ ''.rst''],
        Text (formatted doc_rst_template [(''MODULE'', m), (''MODULE_DIR'', relpath_to start d)]))]"

definition module_tree :: "path \<Rightarrow> path \<Rightarrow> string \<Rightarrow> fs" where
  "module_tree start d m =
     [(d, Dir), (d @ [''wscript''], Text (formatted wscript_template [(''MODULE'', m)]))] @
     model_tree d m @ test_tree d m @ helper_tree d m @ examples_tree d m @ doc_tree start d m"

lemmas tree_defs = model_tree_def test_tree_def helper_tree_def examples_tree_def doc_tree_def

text \<open>\<open>put xs f\<close>: the entries are written one after the other.\<close>

definition put :: "fs \<Rightarrow> fs \<Rightarrow> fs" where
  "put xs f = fold (\<lambda>(p, e). dict_set p e) xs f"

lemma put_Nil [simp]: "put [] f = f"
  by (simp add: put_def)

lemma put_Cons [simp]: "put ((p, e) # xs) f = put xs (dict_set p e f)"
  by (simp add: put_def)

lemma put_append: "put (xs @ ys) f = put ys (put xs f)"
  by (simp add: put_def)

lemma map_of_put:
  "distinct (map fst xs) \<Longrightarrow>
   map_of (put xs f) q = (case map_of xs q of None \<Rightarrow> map_of f q | Some v \<Rightarrow> Some v)"
proof (induction xs arbitrary: f)
  case (Cons x xs)
  obtain p e where x: "x = (p, e)" by (cases x)
  have "map_of xs p = None" using Cons.prems x by (simp add: map_of_eq_None_iff)
  then show ?case using Cons x by (auto split: option.splits)
qed simp

section \<open>The steps on a willing system\<close>

definition willing :: "world \<Rightarrow> bool" where
  "willing w \<longleftrightarrow> (\<forall>g p. can_create w g p)"

definition ready :: "path \<Rightarrow> fs \<Rightarrow> bool" where
  "ready d f \<longleftrightarrow> d \<noteq> [] \<and> is_dir f d \<and> list_all (is_dir f) (ancestors d)"

lemma ancestors_shorter: "q \<in> set (ancestors d) \<Longrightarrow> length q < length d"
  by (auto simp: ancestors_def)

lemma ready_dict_set [simp]: "ready d f \<Longrightarrow> ready d (dict_set (d @ x # xs) e f)"
  using ancestors_shorter [of _ d]
  by (fastforce simp: ready_def list_all_iff is_dir_dict_set)

lemma make_parents_dirs: "list_all (is_dir f) ps \<Longrightarrow> make_parents w ps f = (Inr (), f)"
  by (induction ps) auto

lemma mkdir_ready [simp]:
  assumes "willing w" "ready d f" "\<not> exists_path f (d @ [x])"
  shows "mkdir w (d @ [x]) f = (Inr (), dict_set (d @ [x]) Dir f)"
  using assms
  by (simp add: mkdir_def ready_def ancestors_snoc make_parents_dirs os_mkdir_def willing_def)

lemma create_file_ready:
  assumes "willing w" "is_dir f (butlast p)" "\<not> is_dir f p" "template_ok (map fst kw) t"
  shows "create_file w p t kw f = (Inr (), dict_set p (Text (formatted t kw)) f)"
  using assms format_template_ok [OF assms(4)]
  by (auto simp: create_file_def willing_def formatted_def)

definition fresh :: "fs \<Rightarrow> path \<Rightarrow> bool" where
  "fresh f p \<longleftrightarrow> (\<forall>q. under p q \<longrightarrow> map_of f q = None)"

lemma fresh_exists: "fresh f p \<Longrightarrow> p \<noteq> [] \<Longrightarrow> \<not> exists_path f p"
  by (simp add: fresh_def exists_path_def)

lemma fresh_file: "fresh f (d @ [x]) \<Longrightarrow> \<not> is_dir f (d @ [x, y])"
  by (auto simp: fresh_def is_dir_def under_def)

lemma create_in:
  assumes "willing w" "is_dir f (d @ [x])" "\<not> is_dir f (d @ [x, y])" "template_ok (map fst kw) t"
  shows "create_file w (d @ [x, y]) t kw f = (Inr (), dict_set (d @ [x, y]) (Text (formatted t kw)) f)"
  using assms by (intro create_file_ready) (simp_all add: butlast_append)

lemma with_suffix_ends: "\<exists>x. with_suffix n s = x @ s"
  by (auto simp: with_suffix_def Let_def)

lemma with_suffix_neq:
  assumes "s \<noteq> []" "t \<noteq> []" "last s \<noteq> last t"
  shows "with_suffix n s \<noteq> with_suffix k t"
  using with_suffix_ends [of n s] with_suffix_ends [of k t] assms by (metis last_appendR)

lemma with_suffix_wscript: "with_suffix n ''.cc'' \<noteq> ''wscript''"
  using with_suffix_ends [of n "''.cc''"] by (auto simp: append_eq_Cons_conv)

lemma suffix_cc_h [simp]: "with_suffix n ''.cc'' \<noteq> with_suffix n ''.h''"
  by (rule with_suffix_neq) simp_all

text \<open>Each directory of the module is written as its tree says.\<close>

lemma make_dir_ready:
  assumes "willing w" "ready d f" "fresh f (d @ [x])"
    "list_all (\<lambda>(y, t, kw). template_ok (map fst kw) t) fl"
  shows "run_steps (mkdir w (d @ [x]) # map (\<lambda>(y, t, kw). create_file w (d @ [x, y]) t kw) fl) f =
         (Inr (), put ((d @ [x], Dir) # map (\<lambda>(y, t, kw). (d @ [x, y], Text (formatted t kw))) fl) f)"
proof -
  have dir: "run_steps (map (\<lambda>(y, t, kw). create_file w (d @ [x, y]) t kw) fl) g =
      (Inr (), put (map (\<lambda>(y, t, kw). (d @ [x, y], Text (formatted t kw))) fl) g)"
    if "is_dir g (d @ [x])" "\<forall>y. \<not> is_dir g (d @ [x, y])" for g
    using that assms(4)
  proof (induction fl arbitrary: g)
    case (Cons a fl)
    obtain y t kw where a: "a = (y, t, kw)" by (cases a)
    have c: "create_file w (d @ [x, y]) t kw g =
        (Inr (), dict_set (d @ [x, y]) (Text (formatted t kw)) g)"
      using Cons.prems a by (intro create_in [OF assms(1)]) simp_all
    have "run_steps (map (\<lambda>(y, t, kw). create_file w (d @ [x, y]) t kw) fl)
        (dict_set (d @ [x, y]) (Text (formatted t kw)) g) =
      (Inr (), put (map (\<lambda>(y, t, kw). (d @ [x, y], Text (formatted t kw))) fl)
        (dict_set (d @ [x, y]) (Text (formatted t kw)) g))"
      using Cons.prems a by (intro Cons.IH) (simp_all add: is_dir_dict_set)
    then show ?case using a c by simp
  qed simp
  have "\<not> exists_path f (d @ [x])" using assms(3) by (simp add: fresh_exists)
  then have m: "mkdir w (d @ [x]) f = (Inr (), dict_set (d @ [x]) Dir f)"
    using assms by simp
  have "run_steps (map (\<lambda>(y, t, kw). create_file w (d @ [x, y]) t kw) fl) (dict_set (d @ [x]) Dir f) =
      (Inr (), put (map (\<lambda>(y, t, kw). (d @ [x, y], Text (formatted t kw))) fl) (dict_set (d @ [x]) Dir f))"
    by (rule dir) (use fresh_file [OF assms(3)] in \<open>simp_all add: is_dir_dict_set\<close>)
  then show ?thesis using m by simp
qed

lemma make_model_ready:
  assumes "willing w" "ready d f" "fresh f (d @ [''model''])"
  shows "make_model w d m f = (Inr (), put (model_tree d m) f)"
  using make_dir_ready [OF assms, of
    "[(with_suffix m ''.cc'', model_cc_template, [(''MODULE'', m)]),
      (with_suffix m ''.h'', model_h_template, [(''MODULE'', m), (''INCLUDE_GUARD'', guard_of m ''_H'')])]"]
  by (simp add: make_model_def model_tree_def model_cc_ok model_h_ok)

lemma make_test_ready:
  assumes "willing w" "ready d f" "fresh f (d @ [''test''])"
  shows "make_test w d m f = (Inr (), put (test_tree d m) f)"
  using make_dir_ready [OF assms, of
    "[(with_suffix (m @ ''-test-suite'') ''.cc'', test_cc_template,
       [(''MODULE'', m), (''CAPITALIZED'', capitalized m), (''COMPOUND'', compound m)])]"]
  by (simp add: make_test_def test_tree_def test_cc_ok)

lemma make_helper_ready:
  assumes "willing w" "ready d f" "fresh f (d @ [''helper''])"
  shows "make_helper w d m f = (Inr (), put (helper_tree d m) f)"
  using make_dir_ready [OF assms, of
    "[(with_suffix (m @ ''-helper'') ''.cc'', helper_cc_template, [(''MODULE'', m)]),
      (with_suffix (m @ ''-helper'') ''.h'', helper_h_template,
       [(''MODULE'', m), (''INCLUDE_GUARD'', guard_of m ''_HELPER_H'')])]"]
  by (simp add: make_helper_def helper_tree_def helper_cc_ok helper_h_ok)

lemma make_examples_ready:
  assumes "willing w" "ready d f" "fresh f (d @ [''examples''])"
  shows "make_examples w d m f = (Inr (), put (examples_tree d m) f)"
  using make_dir_ready [OF assms, of
    "[(''wscript'', examples_wscript_template, [(''MODULE'', m)]),
      (with_suffix (m @ ''-example'') ''.cc'', example_cc_template, [(''MODULE'', m)])]"]
  by (simp add: make_examples_def examples_tree_def examples_wscript_ok example_cc_ok)

lemma make_doc_ready:
  assumes "willing w" "ready d f" "fresh f (d @ [''doc''])"
  shows "make_doc w d m f = (Inr (), put (doc_tree (cwd_path w) d m) f)"
  using make_dir_ready [OF assms, of
    "[(m @ ''.rst'', doc_rst_template, [(''MODULE'', m), (''MODULE_DIR'', relpath_to (cwd_path w) d)])]"]
  by (simp add: make_doc_def doc_tree_def doc_rst_ok)

lemma fresh_dict_set [simp]:
  "x \<noteq> y \<Longrightarrow> fresh (dict_set (d @ y # ys) e f) (d @ [x]) \<longleftrightarrow> fresh f (d @ [x])"
proof -
  assume "x \<noteq> y"
  then have "\<not> under (d @ [x]) (d @ y # ys)" by (simp add: under_def)
  then have "q \<noteq> d @ y # ys" if "under (d @ [x]) q" for q using that by blast
  then show ?thesis unfolding fresh_def map_of_dict_set fun_upd_def by metis
qed

lemma put_below:
  assumes "list_all (\<lambda>(p, e). \<exists>ys. p = d @ y # ys) xs"
  shows "ready d f \<Longrightarrow> ready d (put xs f)"
    and "x \<noteq> y \<Longrightarrow> fresh f (d @ [x]) \<Longrightarrow> fresh (put xs f) (d @ [x])"
  using assms by (induction xs arbitrary: f) auto

lemma trees_below:
  "list_all (\<lambda>(p, e). \<exists>ys. p = d @ ''model'' # ys) (model_tree d m)"
  "list_all (\<lambda>(p, e). \<exists>ys. p = d @ ''test'' # ys) (test_tree d m)"
  "list_all (\<lambda>(p, e). \<exists>ys. p = d @ ''helper'' # ys) (helper_tree d m)"
  "list_all (\<lambda>(p, e). \<exists>ys. p = d @ ''examples'' # ys) (examples_tree d m)"
  "list_all (\<lambda>(p, e). \<exists>ys. p = d @ ''doc'' # ys) (doc_tree s d m)"
  by (simp_all add: tree_defs)

lemmas ready_trees = trees_below [THEN put_below(1)]
lemmas fresh_trees = trees_below [THEN put_below(2)]

lemma make_wscript_ready:
  assumes "willing w" "ready d f" "fresh f (d @ [''wscript''])"
  shows "make_wscript w d m f =
    (Inr (), dict_set (d @ [''wscript'']) (Text (formatted wscript_template [(''MODULE'', m)])) f)"
  unfolding make_wscript_def
  by (rule create_file_ready)
    (use assms fresh_exists [OF assms(3)] is_dir_exists [of f "d @ [''wscript'']"] wscript_ok
      in \<open>auto simp: ready_def\<close>)

lemma artifacts_ready:
  assumes w: "willing w" and r: "ready d f" and fr: "\<And>x. fresh f (d @ [x])"
  shows "run_steps [make_wscript w d m, make_model w d m, make_test w d m, make_helper w d m,
      make_examples w d m, make_doc w d m] f =
    (Inr (), put (tl (module_tree (cwd_path w) d m)) f)"
  using r fr
  by (simp add: make_wscript_ready make_model_ready make_test_ready make_helper_ready
      make_examples_ready make_doc_ready w ready_trees fresh_trees module_tree_def put_append)


section \<open>The module is there\<close>

lemma make_parents_missing:
  assumes "willing w" "1 \<le> i" "i \<le> length p" "is_dir f (take (i - 1) p)"
    "\<forall>k. exists_path f (take k p) \<longrightarrow> is_dir f (take k p)"
  shows "\<exists>f'. make_parents w (map (\<lambda>k. take k p) [i..<length p]) f = (Inr (), f') \<and>
    (\<forall>q. map_of f' q = (if q \<in> (\<lambda>k. take k p) ` {i..<length p} then Some Dir else map_of f q))"
  using assms(2-)
proof (induction "length p - i" arbitrary: i f)
  case 0
  then show ?case by simp
next
  case (Suc n)
  then have i: "i < length p" by simp
  define q where "q = take i p"
  define g where "g = (if is_dir f q then f else dict_set q Dir f)"
  have q: "q \<noteq> []" "butlast q = take (i - 1) p"
    using i Suc.prems(1) by (auto simp: q_def butlast_take)
  have step: "make_parents w (q # ps) f = make_parents w ps g" for ps
    using q Suc.prems assms(1) by (auto simp: g_def os_mkdir_def willing_def q_def)
  have qg: "map_of g r = (if r = q then Some Dir else map_of f r)" for r
    using q(1) by (auto simp: g_def is_dir_def)
  have gd: "is_dir g r \<longleftrightarrow> r = q \<or> is_dir f r" "exists_path g r \<longleftrightarrow> r = q \<or> exists_path f r" for r
    using qg [of r] by (auto simp: is_dir_def exists_path_def)
  have "is_dir g (take (Suc i - 1) p)" by (simp add: gd q_def)
  moreover have "\<forall>k. exists_path g (take k p) \<longrightarrow> is_dir g (take k p)"
    using Suc.prems(4) by (auto simp: gd)
  ultimately obtain f' where f': "make_parents w (map (\<lambda>k. take k p) [Suc i..<length p]) g = (Inr (), f')"
    "\<forall>r. map_of f' r = (if r \<in> (\<lambda>k. take k p) ` {Suc i..<length p} then Some Dir else map_of g r)"
    using Suc.hyps(1) [of "Suc i" g] Suc.hyps(2) i diff_Suc [of "length p" i] by fastforce
  have u: "[i..<length p] = i # [Suc i..<length p]" "{i..<length p} = insert i {Suc i..<length p}"
    using i by (auto simp: upt_conv_Cons)
  show ?case
    using f' step [of "map (\<lambda>k. take k p) [Suc i..<length p]"] qg
    unfolding u by (auto simp: q_def)
qed

lemma distinct_module_tree: "distinct (map fst (module_tree s d m))"
  using with_suffix_wscript [of "m @ ''-example''"]
  by (auto simp: module_tree_def tree_defs)

lemma module_tree_below: "map_of (module_tree s d m) p \<noteq> None \<Longrightarrow> under d p"
  by (auto simp: module_tree_def tree_defs split: if_splits)

text \<open>The ancestors of a new module can be made where each is a directory or missing.\<close>

definition reachable_dir :: "fs \<Rightarrow> path \<Rightarrow> bool" where
  "reachable_dir f d \<longleftrightarrow> (\<forall>k < length d. exists_path f (take k d) \<longrightarrow> is_dir f (take k d))"

lemma mkdir_module:
  assumes "willing w" "wf_fs f" "\<not> exists_path f d" "reachable_dir f d"
  shows "\<exists>f'. mkdir w d f = (Inr (), f') \<and>
    (\<forall>q. map_of f' q = (if q = d \<or> q \<in> set (ancestors d) then Some Dir else map_of f q))"
proof -
  have d: "d \<noteq> []" using assms(3) by auto
  have len: "1 \<le> length d" using d by (cases d) auto
  have all: "\<forall>k. exists_path f (take k d) \<longrightarrow> is_dir f (take k d)"
  proof (intro allI impI)
    fix k assume "exists_path f (take k d)"
    then show "is_dir f (take k d)"
      using assms(3,4) by (cases "k < length d") (simp_all add: reachable_dir_def)
  qed
  have "is_dir f (take (1 - 1) d)" by simp
  then obtain g where g: "make_parents w (ancestors d) f = (Inr (), g)"
    "\<forall>q. map_of g q = (if q \<in> (\<lambda>k. take k d) ` {1..<length d} then Some Dir else map_of f q)"
    using make_parents_missing [OF assms(1) order_refl len _ all] by (auto simp: ancestors_def)
  have anc: "set (ancestors d) = (\<lambda>k. take k d) ` {1..<length d}"
    by (simp add: ancestors_def)
  have nd: "d \<notin> set (ancestors d)" using ancestors_shorter [of d d] by blast
  then have ne: "\<not> exists_path g d" using g(2) assms(3) by (simp add: anc exists_path_def)
  have "butlast d = [] \<or> butlast d \<in> set (ancestors d)"
    using ancestors_snoc [of "butlast d" "last d"] d by (cases "butlast d = []") auto
  then have "is_dir g (butlast d)" using g(2) by (auto simp: anc is_dir_def)
  then have "mkdir w d f = (Inr (), dict_set d Dir g)"
    using g(1) ne assms(1) by (simp add: mkdir_def os_mkdir_def willing_def)
  then show ?thesis using g(2) by (auto simp: anc)
qed

text \<open>A path made for a new module: the directory is ready and nothing lies in it.\<close>

definition just_made :: "path \<Rightarrow> fs \<Rightarrow> fs \<Rightarrow> bool" where
  "just_made d f g \<longleftrightarrow>
     (\<forall>q. map_of g q = (if q = d \<or> q \<in> set (ancestors d) then Some Dir else map_of f q))"

lemma just_made_empty:
  assumes "just_made d f g" "wf_fs f" "\<not> exists_path f d" "under d p" "p \<noteq> d"
  shows "map_of g p = None"
proof -
  have "\<not> length p < length d" using assms(4) unfolding under_def by (metis length_take min.strict_order_iff min.commute)
  then have "p \<notin> set (ancestors d)" using ancestors_shorter by blast
  then show ?thesis using assms wf_fs_under [OF assms(2-4)] by (simp add: just_made_def)
qed

lemma just_made_ready:
  assumes "just_made d f g" "wf_fs f" "\<not> exists_path f d"
  shows "ready d g" "fresh g (d @ [x])"
proof -
  have "d \<noteq> []" using assms(3) by auto
  then show "ready d g" using assms(1) by (auto simp: ready_def list_all_iff is_dir_def just_made_def)
  show "fresh g (d @ [x])"
    unfolding fresh_def
  proof (intro allI impI)
    fix q assume "under (d @ [x]) q"
    then have "q = d @ x # drop (Suc (length d)) q"
      unfolding under_def by (metis append.assoc append_Cons append_Nil append_take_drop_id length_append_singleton)
    then have "under d q" "q \<noteq> d" by (metis under_append, metis append_self_conv list.distinct(1))
    then show "map_of g q = None" by (rule just_made_empty [OF assms])
  qed
qed

lemma module_tree_Cons: "module_tree s d m = (d, Dir) # tl (module_tree s d m)"
  by (simp add: module_tree_def)

lemma map_of_module_tree:
  assumes "just_made d f g" "wf_fs f" "\<not> exists_path f d"
  shows "map_of (put (tl (module_tree s d m)) g) p =
    (if under d p then map_of (module_tree s d m) p
     else if p \<in> set (ancestors d) then Some Dir else map_of f p)"
proof -
  let ?t = "tl (module_tree s d m)"
  have dt: "distinct (map fst ?t)" "map_of ?t d = None"
    using distinct_module_tree [of s d m]
    by (subst (asm) module_tree_Cons, simp add: map_of_eq_None_iff)+
  have hd: "map_of (module_tree s d m) p = (if p = d then Some Dir else map_of ?t p)"
    by (subst module_tree_Cons) simp
  show ?thesis
  proof (cases "under d p")
    case True
    then show ?thesis
      using hd dt(2) just_made_empty [OF assms True] assms(1)
      by (auto simp: map_of_put [OF dt(1)] just_made_def split: option.splits)
  next
    case False
    then have "p \<noteq> d" by auto
    moreover have "map_of (module_tree s d m) p = None"
      using False module_tree_below by blast
    ultimately have "map_of ?t p = None" using hd by simp
    then show ?thesis
      using False \<open>p \<noteq> d\<close> assms(1) by (simp add: map_of_put [OF dt(1)] just_made_def)
  qed
qed

text \<open>C22: on a system that refuses nothing, a module that does not exist is created where its parents
  are directories or missing, and afterwards below its directory lie exactly the entries of
  \<open>module_tree\<close>, its parents are directories and every other path is as before.
\<close>

theorem module_created:
  assumes "willing w" "wf_fs f" "\<not> exists_path f (modpath @ [m])" "reachable_dir f (modpath @ [m])"
  shows "\<exists>f'. make_module w modpath m f = (True, f') \<and>
    (\<forall>p. map_of f' p =
       (if under (modpath @ [m]) p then map_of (module_tree (cwd_path w) (modpath @ [m]) m) p
        else if p \<in> set (ancestors (modpath @ [m])) then Some Dir else map_of f p))"
proof -
  let ?d = "modpath @ [m]"
  obtain g where g: "mkdir w ?d f = (Inr (), g)" "just_made ?d f g"
    using mkdir_module [OF assms] unfolding just_made_def by blast
  note made = just_made_ready [OF g(2) assms(2,3)]
  have "make_artifacts w ?d m f = (Inr (), put (tl (module_tree (cwd_path w) ?d m)) g)"
    unfolding make_artifacts_def
    using artifacts_ready [OF assms(1) made, of m] g(1) by simp
  then have "make_module w modpath m f = (True, put (tl (module_tree (cwd_path w) ?d m)) g)"
    using assms(3) by (simp add: make_module_def Let_def)
  then show ?thesis using map_of_module_tree [OF g(2) assms(2,3)] by blast
qed

definition ns3_dirs :: fs where
  "ns3_dirs = [([''ns3''], Dir), ([''ns3'', ''src''], Dir), ([''ns3'', ''contrib''], Dir)]"

definition ns3_world :: world where
  "ns3_world = \<lparr>can_create = \<lambda>_ _. True, cwd_path = [''ns3'']\<rparr>"

lemma ns3_dirs_wf: "wf_fs ns3_dirs"
  by code_simp

lemma ns3_willing: "willing ns3_world"
  by (simp add: willing_def ns3_world_def)

theorem module_created_witness:
  "\<exists>f'. make_module ns3_world [''ns3'', ''contrib''] ''m'' ns3_dirs = (True, f') \<and>
    (\<forall>p. map_of f' p =
       (if under [''ns3'', ''contrib'', ''m''] p
        then map_of (module_tree [''ns3''] [''ns3'', ''contrib'', ''m''] ''m'') p
        else if p \<in> set (ancestors [''ns3'', ''contrib'', ''m'']) then Some Dir
        else map_of ns3_dirs p))"
proof -
  have 1: "\<not> exists_path ns3_dirs ([''ns3'', ''contrib''] @ [''m''])"
    by (simp add: exists_path_def ns3_dirs_def)
  have 2: "reachable_dir ns3_dirs ([''ns3'', ''contrib''] @ [''m''])"
    by (auto simp: reachable_dir_def is_dir_def ns3_dirs_def less_Suc_eq)
  have c: "cwd_path ns3_world = [''ns3'']" by (simp add: ns3_world_def)
  show ?thesis
    using module_created [OF ns3_willing ns3_dirs_wf 1 2] unfolding c append_Cons append_Nil .
qed

section \<open>The whole run\<close>

lemma make_module_adds:
  assumes "wf_fs f"
  shows "map_of (snd (make_module w mp m f)) p = map_of f p \<or>
    (map_of f p = None \<and> (under (mp @ [m]) p \<or> p \<in> set (ancestors (mp @ [m]))))"
proof (cases "exists_path f (mp @ [m])")
  case True
  then show ?thesis by (simp add: make_module_def)
next
  case False
  then show ?thesis
    using make_module_safe [OF assms, of w mp m] wf_fs_under [OF assms False, of p]
    unfolding changes_below_def by metis
qed

definition below_targets :: "path \<Rightarrow> path \<Rightarrow> bool" where
  "below_targets base p \<longleftrightarrow> under (base @ [''src'']) p \<or> under (base @ [''contrib'']) p"

definition adds_below :: "path \<Rightarrow> fs \<Rightarrow> fs \<Rightarrow> bool" where
  "adds_below base f f' \<longleftrightarrow>
     (\<forall>p. map_of f' p = map_of f p \<or> (map_of f p = None \<and> below_targets base p))"

definition targets_there :: "path \<Rightarrow> fs \<Rightarrow> bool" where
  "targets_there base f \<longleftrightarrow> is_dir f (base @ [''src'']) \<and> is_dir f (base @ [''contrib''])"

lemma adds_below_trans: "adds_below b f g \<Longrightarrow> adds_below b g h \<Longrightarrow> adds_below b f h"
  unfolding adds_below_def by metis

lemma targets_there_adds: "targets_there b f \<Longrightarrow> adds_below b f g \<Longrightarrow> targets_there b g"
  unfolding targets_there_def adds_below_def is_dir_def by (metis option.distinct(1))

lemma under_trans: "under a b \<Longrightarrow> under b c \<Longrightarrow> under a c"
  unfolding under_def by (metis min_absorb1 nat_le_linear take_all take_take)

lemma ancestor_below_or_there:
  assumes "wf_fs f" "is_dir f t" "p \<in> set (ancestors (t @ x))"
  shows "under t p \<or> is_dir f p"
proof -
  obtain k where p: "p = take k (t @ x)" using assms(3) by (auto simp: ancestors_def)
  show ?thesis
  proof (cases "length t \<le> k")
    case True
    then show ?thesis by (simp add: p under_def)
  next
    case False
    then have "p = take k t" by (simp add: p)
    then show ?thesis
      using wf_fs_prefix [OF assms(1), of "take k t" "drop k t"] assms(2) by simp
  qed
qed

lemma make_module_adds_below:
  assumes "wf_fs f" "is_dir f t" "t = base @ [''src''] \<or> t = base @ [''contrib'']"
  shows "adds_below base f (snd (make_module w (t @ x) m f))"
  unfolding adds_below_def
proof
  fix p
  have u: "under t p" if "under ((t @ x) @ [m]) p"
    using under_trans [OF _ that, of t] by simp
  have a: "under t p" if "p \<in> set (ancestors ((t @ x) @ [m]))" "map_of f p = None"
  proof -
    have "p \<noteq> []" using that(1) by (auto simp: ancestors_def)
    then show ?thesis
      using ancestor_below_or_there [OF assms(1,2), of p "x @ [m]"] that by (auto simp: is_dir_def)
  qed
  show "map_of (snd (make_module w (t @ x) m f)) p = map_of f p \<or>
      map_of f p = None \<and> below_targets base p"
    using make_module_adds [OF assms(1), of w "t @ x" m p] u a assms(3)
    by (auto simp: below_targets_def)
qed

definition target_path :: "path \<Rightarrow> path \<Rightarrow> bool" where
  "target_path base mp \<longleftrightarrow> (\<exists>t x. mp = t @ x \<and> (t = base @ [''src''] \<or> t = base @ [''contrib'']))"

lemma make_all_adds:
  assumes "list_all (\<lambda>(mp, m). target_path base mp) ms" "wf_fs f" "targets_there base f"
  shows "adds_below base f (snd (make_all w ms f))"
  using assms
proof (induction ms arbitrary: f)
  case Nil
  show ?case by (simp add: adds_below_def)
next
  case (Cons a ms)
  obtain mp m where a: "a = (mp, m)" by (cases a)
  obtain t x where t: "mp = t @ x" "t = base @ [''src''] \<or> t = base @ [''contrib'']"
    using Cons.prems(1) a by (auto simp: target_path_def)
  obtain b g where g: "make_module w mp m f = (b, g)" by (cases "make_module w mp m f")
  have td: "is_dir f t" using Cons.prems(3) t by (auto simp: targets_there_def)
  have 1: "adds_below base f g"
    using make_module_adds_below [OF Cons.prems(2) td t(2), of w x m] g t(1) by simp
  have 2: "wf_fs g" using make_module_safe [OF Cons.prems(2), of w mp m] g by simp
  have 3: "adds_below base g (snd (make_all w ms g))"
    using Cons.IH [OF _ 2 targets_there_adds [OF Cons.prems(3) 1]] Cons.prems(1) by simp
  show ?case
    using 1 adds_below_trans [OF 1 3] a g by (cases b) simp_all
qed

lemma check_name_target:
  assumes "check_name base project pp n = Inr (Some (mp, m))"
  shows "target_path base mp"
proof -
  have "mp = base @ [''src''] \<or> mp = base @ [''contrib''] \<or> (\<exists>x. mp = base @ [''contrib''] @ x)"
    using assms by (auto simp: check_name_def Let_def split: if_splits option.splits)
  then show ?thesis unfolding target_path_def by (metis append.assoc append_Nil2)
qed

lemma check_names_targets:
  "check_names base project pp ns = Inr ms \<Longrightarrow> list_all (\<lambda>(mp, m). target_path base mp) ms"
proof (induction ns arbitrary: ms)
  case (Cons n ns)
  then show ?case
    using check_name_target by (fastforce simp: res_bind_eq_Inr split: option.splits)
qed simp

text \<open>C21: a run only adds paths, and only below \<open>src\<close> and \<open>contrib\<close> of the current directory:
  whatever the names, the project and the answers of the system, no entry that was there before
  is changed or removed, also when a module cannot be created and is cleaned up.
\<close>

theorem run_only_adds_below_targets:
  assumes "wf_fs f" "exit_status w project names f = (status, f')"
  shows "map_of f' p = map_of f p \<or>
    (map_of f p = None \<and>
     (under (cwd_path w @ [''src'']) p \<or> under (cwd_path w @ [''contrib'']) p))"
proof -
  obtain r g where g: "main w project names f = (r, g)" by (cases "main w project names f")
  have fg: "f' = g"
    using assms(2) g by (auto simp: exit_status_def split: sum.splits exn.splits)
  show ?thesis
  proof (cases "g = f")
    case True
    then show ?thesis using fg by simp
  next
    case False
    then obtain pp ms where ms: "check_names (cwd_path w) project pp names = Inr ms"
      "targets_there (cwd_path w) f" "g = snd (make_all w ms f)"
      using g
      by (auto simp: main_def Let_def targets_there_def res_bind_eq_Inr split: sum.splits if_splits)
    have "adds_below (cwd_path w) f g"
      using make_all_adds [OF check_names_targets [OF ms(1)] assms(1) ms(2), of w] ms(3) by simp
    then show ?thesis unfolding fg adds_below_def below_targets_def by blast
  qed
qed

theorem run_only_adds_below_targets_witness:
  "map_of (snd (exit_status ns3_world [] [''m'', ''x''] ns3_dirs)) [''ns3'', ''src''] = Some Dir"
proof -
  obtain s f' where e: "exit_status ns3_world [] [''m'', ''x''] ns3_dirs = (s, f')"
    by (cases "exit_status ns3_world [] [''m'', ''x''] ns3_dirs")
  have d: "map_of ns3_dirs [''ns3'', ''src''] = Some Dir" by (simp add: ns3_dirs_def)
  then show ?thesis
    using run_only_adds_below_targets [OF ns3_dirs_wf e, of "[''ns3'', ''src'']"] e by auto
qed

text \<open>
  A module that exists already is not told by the exit status, and the modules named after it
  are not created.
\<close>

theorem existing_module_stops_run_silently:
  assumes "targets_there (cwd_path w) f" "project_path project = Inr pp"
    "check_names (cwd_path w) project pp names = Inr ((mp, m) # ms)" "exists_path f (mp @ [m])"
  shows "exit_status w project names f = (0, f)"
  using assms
  by (simp add: exit_status_def main_def Let_def targets_there_def make_module_def)

theorem existing_module_stops_run_silently_witness:
  "exit_status \<lparr>can_create = \<lambda>_ _. True, cwd_path = []\<rparr> [] [''m'', ''k'']
     [([''src''], Dir), ([''contrib''], Dir), ([''contrib'', ''m''], Dir)] =
   (0, [([''src''], Dir), ([''contrib''], Dir), ([''contrib'', ''m''], Dir)])"
proof -
  let ?w = "\<lparr>can_create = \<lambda>_ _. True, cwd_path = []\<rparr> :: world"
  let ?f = "[([''src''], Dir), ([''contrib''], Dir), ([''contrib'', ''m''], Dir)]"
  have 1: "targets_there (cwd_path ?w) ?f" by code_simp
  have 2: "project_path [] = Inr None" by code_simp
  have 3: "check_names (cwd_path ?w) [] None [''m'', ''k''] =
    Inr [([''contrib''], ''m''), ([''contrib''], ''k'')]" by code_simp
  have 4: "exists_path ?f ([''contrib''] @ [''m''])" by code_simp
  show ?thesis by (rule existing_module_stops_run_silently [OF 1 2 3 4])
qed

lemma check_names_stops:
  "check_names b pr pp ns = Inr xs \<Longrightarrow> check_name b pr pp n = Inl e \<Longrightarrow>
   check_names b pr pp (ns @ n # rest) = Inl e"
  by (induction ns arbitrary: xs) (auto simp: res_bind_eq_Inr)

text \<open>
  A name that is only a target directory, with or without slashes around it, ends the run with
  an \<open>IndexError\<close> (exit status 1) although the names before it are fine: no module is created.
\<close>

theorem bare_target_name_raises:
  assumes "targets_there (cwd_path w) f" "strip_sep n = ''src'' \<or> strip_sep n = ''contrib''"
    "check_names (cwd_path w) [] None names = Inr ms"
  shows "main w [] (names @ n # rest) f = (Inl IndexError, f) \<and>
         exit_status w [] (names @ n # rest) f = (1, f)"
proof -
  have p: "parts (Path ''src'') = [''src'']" "parts (Path ''contrib'') = [''contrib'']"
    by code_simp+
  have n: "n \<noteq> []" using assms(2) by (auto simp: strip_sep_def)
  then have "check_name (cwd_path w) [] None n = Inl IndexError"
    using assms(2) p by (auto simp: check_name_def Let_def)
  then have c: "check_names (cwd_path w) [] None (names @ n # rest) = Inl IndexError"
    using check_names_stops [OF assms(3)] by blast
  have pp: "project_path [] = Inr None" by (simp add: project_path_def)
  have m: "main w [] (names @ n # rest) f = (Inl IndexError, f)"
    using assms(1) c pp by (simp add: main_def Let_def targets_there_def)
  then show ?thesis by (simp add: exit_status_def)
qed

theorem bare_target_name_raises_witness:
  "exit_status ns3_world [] [''m'', ''/src/'', ''k''] ns3_dirs = (1, ns3_dirs)"
proof -
  have 1: "targets_there (cwd_path ns3_world) ns3_dirs" by code_simp
  have 2: "strip_sep ''/src/'' = ''src'' \<or> strip_sep ''/src/'' = ''contrib''" by code_simp
  have 3: "check_names (cwd_path ns3_world) [] None [''m''] = Inr [([''ns3'', ''contrib''], ''m'')]"
    by code_simp
  show ?thesis using bare_target_name_raises [OF 1 2 3, of "[''k'']"] by simp
qed

text \<open>A name of two components is not refused: the first one becomes the module.\<close>

lemma path_name_creates_first_component:
  "check_name [''ns3''] [] None ''a/b'' = Inr (Some ([''ns3'', ''contrib''], ''a''))"
  by code_simp

lemma name_may_end_in_newline: "allowed_name (''m'' @ [NL])"
  by code_simp

end
