(* ===== verification/Check_Style.thy ===== *)
theory Check_Style
  imports Py_Prelude
begin

text \<open>
  The style checker \<^verbatim>\<open>utils/check-style.py\<close>: the unified-diff objects it parses, edits and
  prints back, the pass that puts trailing white space back so that a diff does not report
  it, the uncrustify configuration it writes, and the driver that compares every file with
  its re-indented copy.  The programs \<open>uncrustify\<close> and \<open>patch\<close> and the diff generator
  \<open>difflib.unified_diff\<close> are fields of the record \<open>tools\<close>.  Temporary files are their
  contents; the debug trace on standard error is left out, but not its effect on the diff
  generator, which can be read only once.
\<close>

section \<open>The lines of a patch\<close>

text \<open>\<open>__type\<close> is 0 until one of the setters has been called.\<close>

datatype line_kind = LUnset | LSrc | LDst | LBoth

record patch_chunk_line =
  pl_type :: line_kind
  pl_line :: string

definition new_patch_chunk_line :: patch_chunk_line where
  "new_patch_chunk_line = \<lparr>pl_type = LUnset, pl_line = []\<rparr>"

definition line_set_src :: "patch_chunk_line \<Rightarrow> string \<Rightarrow> patch_chunk_line" where
  "line_set_src l s = l\<lparr>pl_type := LSrc, pl_line := s\<rparr>"

definition line_set_dst :: "patch_chunk_line \<Rightarrow> string \<Rightarrow> patch_chunk_line" where
  "line_set_dst l s = l\<lparr>pl_type := LDst, pl_line := s\<rparr>"

definition line_set_both :: "patch_chunk_line \<Rightarrow> string \<Rightarrow> patch_chunk_line" where
  "line_set_both l s = l\<lparr>pl_type := LBoth, pl_line := s\<rparr>"

definition append_to_line :: "patch_chunk_line \<Rightarrow> string \<Rightarrow> patch_chunk_line" where
  "append_to_line l s = l\<lparr>pl_line := pl_line l @ s\<rparr>"

definition is_src :: "patch_chunk_line \<Rightarrow> bool" where
  "is_src l \<longleftrightarrow> pl_type l = LSrc \<or> pl_type l = LBoth"

definition is_dst :: "patch_chunk_line \<Rightarrow> bool" where
  "is_dst l \<longleftrightarrow> pl_type l = LDst \<or> pl_type l = LBoth"

definition line_write :: "patch_chunk_line \<Rightarrow> string res" where
  "line_write l = (case pl_type l of
      LSrc \<Rightarrow> Inr (''-'' @ pl_line l @ nl)
    | LDst \<Rightarrow> Inr (''+'' @ pl_line l @ nl)
    | LBoth \<Rightarrow> Inr ('' '' @ pl_line l @ nl)
    | LUnset \<Rightarrow> Inl (UserException ''invalid patch''))"

section \<open>Chunks\<close>

record patch_chunk =
  pc_lines :: "patch_chunk_line list"
  pc_src_pos :: int
  pc_dst_pos :: int

definition new_patch_chunk :: "string \<Rightarrow> string \<Rightarrow> patch_chunk" where
  "new_patch_chunk src_pos dst_pos =
     \<lparr>pc_lines = [], pc_src_pos = int (nat_of_digits src_pos), pc_dst_pos = int (nat_of_digits dst_pos)\<rparr>"

definition chunk_src_start :: "patch_chunk \<Rightarrow> int" where
  "chunk_src_start c = pc_src_pos c"

definition chunk_add_line :: "patch_chunk \<Rightarrow> patch_chunk_line \<Rightarrow> patch_chunk" where
  "chunk_add_line c l = c\<lparr>pc_lines := pc_lines c @ [l]\<rparr>"

definition chunk_src :: "patch_chunk \<Rightarrow> patch_chunk_line list" where
  "chunk_src c = filter is_src (pc_lines c)"

definition chunk_dst :: "patch_chunk \<Rightarrow> patch_chunk_line list" where
  "chunk_dst c = filter is_dst (pc_lines c)"

definition chunk_src_len :: "patch_chunk \<Rightarrow> nat" where
  "chunk_src_len c = length (chunk_src c)"

definition chunk_dst_len :: "patch_chunk \<Rightarrow> nat" where
  "chunk_dst_len c = length (chunk_dst c)"

fun write_all :: "('a \<Rightarrow> string res) \<Rightarrow> 'a list \<Rightarrow> string res" where
  "write_all w [] = Inr []"
| "write_all w (x # xs) = res_bind (w x) (\<lambda>s. res_bind (write_all w xs) (\<lambda>t. Inr (s @ t)))"

definition chunk_header :: "patch_chunk \<Rightarrow> string" where
  "chunk_header c = ''@@ -'' @ str_int (pc_src_pos c) @ '','' @ str_nat (chunk_src_len c) @
     '' +'' @ str_int (pc_dst_pos c) @ '','' @ str_nat (chunk_dst_len c) @ '' @@'' @ nl"

definition chunk_write :: "patch_chunk \<Rightarrow> string res" where
  "chunk_write c = res_bind (write_all line_write (pc_lines c)) (\<lambda>body. Inr (chunk_header c @ body))"

section \<open>Patches\<close>

record patch =
  p_src :: string
  p_dst :: string
  p_chunks :: "patch_chunk list"

definition new_patch :: patch where
  "new_patch = \<lparr>p_src = [], p_dst = [], p_chunks = []\<rparr>"

definition patch_add_chunk :: "patch \<Rightarrow> patch_chunk \<Rightarrow> patch" where
  "patch_add_chunk p c = p\<lparr>p_chunks := p_chunks p @ [c]\<rparr>"

definition patch_set_src :: "patch \<Rightarrow> string \<Rightarrow> patch" where
  "patch_set_src p s = p\<lparr>p_src := s\<rparr>"

definition patch_set_dst :: "patch \<Rightarrow> string \<Rightarrow> patch" where
  "patch_set_dst p s = p\<lparr>p_dst := s\<rparr>"

definition patch_write :: "patch \<Rightarrow> string res" where
  "patch_write p = res_bind (write_all chunk_write (p_chunks p))
     (\<lambda>body. Inr (''--- '' @ p_src p @ nl @ ''+++ '' @ p_dst p @ nl @ body))"

section \<open>Parsing a patch set\<close>

text \<open>
  The loop of \<open>parse_patchset\<close>.  \<open>current_patch\<close> is the last patch of the list (or
  \<open>None\<close>); \<open>current_chunk\<close> is a reference, kept here as the position of the patch and of
  the chunk within it, and unbound before the first chunk header.  It is not reset by a new
  file header.
\<close>

record parse_state =
  ps_patches :: "patch list"
  ps_chunk :: "(nat \<times> nat) option"

definition map_nth :: "nat \<Rightarrow> ('a \<Rightarrow> 'a) \<Rightarrow> 'a list \<Rightarrow> 'a list" where
  "map_nth i f xs = (if i < length xs then xs[i := f (xs ! i)] else xs)"

definition re_src_file :: "string \<Rightarrow> string option" where
  "re_src_file s = Option.bind (re_lit ''--- '' s) re_rest"

definition re_dst_file :: "string \<Rightarrow> string option" where
  "re_dst_file s = Option.bind (re_lit ''+++ '' s) re_rest"

definition re_chunk_start :: "string \<Rightarrow> (string \<times> string) option" where
  "re_chunk_start s =
     Option.bind (re_lit ''@@ -'' s) (\<lambda>s.
     Option.bind (re_plus is_digit s) (\<lambda>(g1, s).
     Option.bind (re_lit '','' s) (\<lambda>s.
     Option.bind (re_plus is_digit s) (\<lambda>(g2, s).
     Option.bind (re_lit '' +'' s) (\<lambda>s.
     Option.bind (re_plus is_digit s) (\<lambda>(g3, s).
     Option.bind (re_lit '','' s) (\<lambda>s.
     Option.bind (re_plus is_digit s) (\<lambda>(g4, s).
     Option.bind (re_lit '' @@'' s) (\<lambda>s. Some (g1, g3))))))))))"

definition re_src :: "string \<Rightarrow> string option" where
  "re_src s = Option.bind (re_lit ''-'' s) re_rest"

definition re_dst :: "string \<Rightarrow> string option" where
  "re_dst s = Option.bind (re_lit ''+'' s) re_rest"

definition re_both :: "string \<Rightarrow> string option" where
  "re_both s = Option.bind (re_lit '' '' s) re_rest"

definition update_last :: "('a \<Rightarrow> 'a) \<Rightarrow> 'a list \<Rightarrow> 'a list" where
  "update_last f xs = map_nth (length xs - 1) f xs"

definition add_line_to_current :: "parse_state \<Rightarrow> patch_chunk_line \<Rightarrow> parse_state res" where
  "add_line_to_current st l = (case ps_chunk st of
      None \<Rightarrow> Inl UnboundLocalError
    | Some (i, j) \<Rightarrow> Inr (st\<lparr>ps_patches := map_nth i (\<lambda>p. p\<lparr>p_chunks :=
          map_nth j (\<lambda>c. chunk_add_line c l) (p_chunks p)\<rparr>) (ps_patches st)\<rparr>))"

definition parse_line :: "parse_state \<Rightarrow> string \<Rightarrow> parse_state res" where
  "parse_line st line =
     (case re_src_file line of
        Some g \<Rightarrow> Inr (st\<lparr>ps_patches := ps_patches st @ [patch_set_src new_patch g]\<rparr>)
      | None \<Rightarrow>
     (case re_dst_file line of
        Some g \<Rightarrow> (if ps_patches st = [] then Inl AttributeError
                   else Inr (st\<lparr>ps_patches := update_last (\<lambda>p. patch_set_dst p g) (ps_patches st)\<rparr>))
      | None \<Rightarrow>
     (case re_chunk_start line of
        Some (a, b) \<Rightarrow>
          (if ps_patches st = [] then Inl AttributeError
           else Inr (st\<lparr>ps_patches := update_last (\<lambda>p. patch_add_chunk p (new_patch_chunk a b)) (ps_patches st),
                        ps_chunk := Some (length (ps_patches st) - 1,
                                          length (p_chunks (last (ps_patches st))))\<rparr>))
      | None \<Rightarrow>
     (case re_src line of
        Some g \<Rightarrow> add_line_to_current st (line_set_src new_patch_chunk_line g)
      | None \<Rightarrow>
     (case re_dst line of
        Some g \<Rightarrow> add_line_to_current st (line_set_dst new_patch_chunk_line g)
      | None \<Rightarrow>
     (case re_both line of
        Some g \<Rightarrow> add_line_to_current st (line_set_both new_patch_chunk_line g)
      | None \<Rightarrow> Inl (UserException [])))))))"

fun parse_lines :: "parse_state \<Rightarrow> string list \<Rightarrow> parse_state res" where
  "parse_lines st [] = Inr st"
| "parse_lines st (l # ls) = res_bind (parse_line st l) (\<lambda>st'. parse_lines st' ls)"

definition parse_patchset :: "string list \<Rightarrow> patch list res" where
  "parse_patchset generator =
     res_bind (parse_lines \<lparr>ps_patches = [], ps_chunk = None\<rparr> generator) (\<lambda>st. Inr (ps_patches st))"

section \<open>Undoing the changes of trailing white space\<close>

text \<open>The search of \<^verbatim>\<open>^(.*)([ \t]+)$\<close>: the first group is greedy, so the second gets one character.\<close>

definition ws_match :: "string \<Rightarrow> (string \<times> string) option" where
  "ws_match s = (case re_rest s of
      None \<Rightarrow> None
    | Some b \<Rightarrow> (if b \<noteq> [] \<and> last b \<in> {CHR '' '', TAB} then Some (butlast b, [last b]) else None))"

text \<open>
  The loop over the lines of one chunk.  \<open>chunk.src()\<close> and \<open>chunk.dst()\<close> hold references
  to the same line objects, so the lists are of positions in the chunk and an append is seen
  through both.  The flag tells that indexing \<open>dst\<close> raised, which makes the function
  return at once.
\<close>

fun ws_loop :: "nat list \<Rightarrow> nat list \<Rightarrow> patch_chunk_line list \<Rightarrow> bool \<times> patch_chunk_line list" where
  "ws_loop [] ds ls = (False, ls)"
| "ws_loop (s # ss) [] ls = (True, ls)"
| "ws_loop (s # ss) (d # ds) ls =
     ws_loop ss ds
       (case ws_match (pl_line (ls ! s)) of
          None \<Rightarrow> ls
        | Some (g1, g2) \<Rightarrow>
            (if g1 = pl_line (ls ! d) then ls[d := append_to_line (ls ! d) g2] else ls))"

definition positions :: "('a \<Rightarrow> bool) \<Rightarrow> 'a list \<Rightarrow> nat list" where
  "positions P xs = filter (\<lambda>i. P (xs ! i)) [0..<length xs]"

definition ws_chunk :: "patch_chunk \<Rightarrow> bool \<times> patch_chunk" where
  "ws_chunk c = (case ws_loop (positions is_src (pc_lines c)) (positions is_dst (pc_lines c)) (pc_lines c) of
      (stop, ls) \<Rightarrow> (stop, c\<lparr>pc_lines := ls\<rparr>))"

fun until_stop :: "('a \<Rightarrow> bool \<times> 'a) \<Rightarrow> 'a list \<Rightarrow> bool \<times> 'a list" where
  "until_stop f [] = (False, [])"
| "until_stop f (x # xs) =
     (case f x of (stop, x') \<Rightarrow>
        (if stop then (True, x' # xs)
         else (case until_stop f xs of (stop', xs') \<Rightarrow> (stop', x' # xs'))))"

definition ws_patch :: "patch \<Rightarrow> bool \<times> patch" where
  "ws_patch p = (case until_stop ws_chunk (p_chunks p) of (stop, cs) \<Rightarrow> (stop, p\<lparr>p_chunks := cs\<rparr>))"

definition remove_trailing_whitespace_changes :: "string list \<Rightarrow> patch list res" where
  "remove_trailing_whitespace_changes patch_generator =
     res_bind (parse_patchset patch_generator) (\<lambda>patchset. Inr (snd (until_stop ws_patch patchset)))"

section \<open>The uncrustify configuration\<close>

definition uncrustify_level2 :: string where
  "uncrustify_level2 = concat (map (\<lambda>l. l @ nl)
    ['''',
     ''nl_if_brace=Add'',
     ''nl_brace_else=Add'',
     ''nl_elseif_brace=Add'',
     ''nl_else_brace=Add'',
     ''nl_while_brace=Add'',
     ''nl_do_brace=Add'',
     ''nl_for_brace=Add'',
     ''nl_brace_while=Add'',
     ''nl_switch_brace=Add'',
     ''nl_after_case=True'',
     ''nl_namespace_brace=ignore'',
     ''nl_after_brace_open=True'',
     ''nl_class_leave_one_liners=False'',
     ''nl_enum_leave_one_liners=False'',
     ''nl_func_leave_one_liners=False'',
     ''nl_if_leave_one_liners=False'',
     ''nl_class_colon=Ignore'',
     ''nl_before_access_spec=2'',
     ''nl_after_access_spec=0'',
     ''indent_access_spec=-indent_columns'',
     ''nl_after_semicolon=True'',
     ''pos_class_colon=Lead'',
     ''pos_class_comma=Trail'',
     ''indent_constr_colon=true'',
     ''pos_bool=Lead'',
     ''nl_class_init_args=Add'',
     ''nl_template_class=Add'',
     ''nl_class_brace=Add'',
     ''# does not work very well'',
     ''nl_func_type_name=Ignore'',
     ''nl_func_scope_name=Ignore'',
     ''nl_func_type_name_class=Ignore'',
     ''nl_func_proto_type_name=Ignore'',
     ''# function'' @ [CHR 0x5C] @ ''n('',
     ''nl_func_paren=Remove'',
     ''nl_fdef_brace=Add'',
     ''nl_struct_brace=Add'',
     ''nl_enum_brace=Add'',
     ''nl_union_brace=Add'',
     ''mod_full_brace_do=Add'',
     ''mod_full_brace_for=Add'',
     ''mod_full_brace_if=Add'',
     ''mod_full_brace_while=Add'',
     ''mod_full_brace_for=Add'',
     ''mod_remove_extra_semicolon=True'',
     ''# max code width'',
     ''#code_width=128'',
     ''#ls_for_split_full=True'',
     ''#ls_func_split_full=True'',
     ''nl_cpp_lambda_leave_one_liners=True''])"

definition uncrustify_level1 :: string where
  "uncrustify_level1 = concat (map (\<lambda>l. l @ nl)
    ['''',
     ''# extra spaces here and there'',
     ''sp_brace_typedef=Add'',
     ''sp_enum_assign=Add'',
     ''sp_before_sparen=Add'',
     ''sp_after_semi_for=Add'',
     ''sp_arith=Add'',
     ''sp_assign=Add'',
     ''sp_compare=Add'',
     ''sp_func_class_paren=Add'',
     ''sp_after_type=Add'',
     ''sp_type_func=Add'',
     ''sp_angle_paren=Add''])"

definition uncrustify_level0 :: string where
  "uncrustify_level0 = concat (map (\<lambda>l. l @ nl)
    ['''',
     ''sp_func_proto_paren=Add'',
     ''sp_func_def_paren=Add'',
     ''sp_func_call_paren=Add'',
     ''sp_after_semi_for=Ignore'',
     ''sp_before_sparen=Ignore'',
     ''sp_before_ellipsis=Remove'',
     ''sp_type_func=Ignore'',
     ''sp_after_type=Ignore'',
     ''nl_class_leave_one_liners=True'',
     ''nl_enum_leave_one_liners=True'',
     ''nl_func_leave_one_liners=True'',
     ''nl_assign_leave_one_liners=True'',
     ''nl_collapse_empty_body=True'',
     ''nl_getset_leave_one_liners=True'',
     ''nl_if_leave_one_liners=True'',
     ''nl_fdef_brace=Ignore'',
     ''# finally, indentation configuration'',
     ''indent_with_tabs=0'',
     ''indent_namespace=false'',
     ''indent_columns=2'',
     ''indent_brace=2'',
     ''indent_case_brace=indent_columns'',
     ''indent_class=true'',
     ''indent_class_colon=True'',
     ''indent_switch_case=indent_columns'',
     ''# alignment'',
     ''indent_align_assign=False'',
     ''align_left_shift=True'',
     ''# comment reformating disabled'',
     ''cmt_reflow_mode=1 # do not touch comments at all'',
     ''cmt_indent_multi=False # really, do not touch them'',
     ''disable_processing_cmt= '' @ DQ @ '' *NS_CHECK_STYLE_OFF*'' @ DQ,
     ''enable_processing_cmt=  '' @ DQ @ '' *NS_CHECK_STYLE_ON*'' @ DQ])"

definition uncrustify_config_file :: "int \<Rightarrow> string" where
  "uncrustify_config_file level = uncrustify_level0
     @ (if level \<ge> 1 then uncrustify_level1 else [])
     @ (if level \<ge> 2 then uncrustify_level2 else [])"

section \<open>Indenting a file and comparing\<close>

record tools =
  t_uncrustify :: "string \<Rightarrow> string \<Rightarrow> string option"
    \<comment> \<open>configuration and file contents to the contents of the output; none if not installed\<close>
  t_unified_diff :: "string list \<Rightarrow> string list \<Rightarrow> string \<Rightarrow> string \<Rightarrow> string list"
  t_patch :: "string \<Rightarrow> string \<Rightarrow> string" \<comment> \<open>\<open>patch -p1\<close>: diff and contents to contents\<close>
  t_tempname :: "string \<Rightarrow> string" \<comment> \<open>the temporary output file of a source file\<close>

type_synonym files = "string \<Rightarrow> string option"

definition open_read :: "files \<Rightarrow> string \<Rightarrow> string res" where
  "open_read fs f = (case fs f of None \<Rightarrow> Inl OSError | Some txt \<Rightarrow> Inr txt)"

definition copy_file :: "files \<Rightarrow> string \<Rightarrow> string res" where
  "copy_file fs filename = res_bind (open_read fs filename) (\<lambda>txt. Inr (concat (file_lines txt)))"

text \<open>What \<open>indent\<close> leaves in its temporary output file.\<close>

definition indent :: "tools \<Rightarrow> files \<Rightarrow> string \<Rightarrow> bool \<Rightarrow> int \<Rightarrow> string res" where
  "indent T fs source debug level =
     (case t_uncrustify T (uncrustify_config_file level) (case fs source of None \<Rightarrow> [] | Some t \<Rightarrow> t) of
        None \<Rightarrow> Inl (UserException ''uncrustify not installed'')
      | Some output \<Rightarrow>
          res_bind (open_read fs source) (\<lambda>src.
          let diff = t_unified_diff T (file_lines src) (file_lines output) source (t_tempname T source);
              diff = (if debug then [] else diff) \<comment> \<open>the debug copy has read the generator to its end\<close>
          in res_bind
               (if level < 3 then
                  res_bind (remove_trailing_whitespace_changes diff) (\<lambda>patchset.
                    (if length patchset \<noteq> 0 then patch_write (hd patchset) else Inr []))
                else Inr (concat diff))
               (\<lambda>final_diff. Inr (t_patch T final_diff src))))"

fun indent_each :: "tools \<Rightarrow> files \<Rightarrow> bool \<Rightarrow> int \<Rightarrow> string list \<Rightarrow> (string \<times> string) list res" where
  "indent_each T fs debug level [] = Inr []"
| "indent_each T fs debug level (f # rest) =
     res_bind (indent T fs f debug level) (\<lambda>dst.
     res_bind (indent_each T fs debug level rest) (\<lambda>output. Inr ((f, dst) # output)))"

definition badly_indented :: "files \<Rightarrow> (string \<times> string) list \<Rightarrow> (string \<times> string) list" where
  "badly_indented fs output = filter (\<lambda>(src, dst). fs src \<noteq> Some dst) output"

definition diff_report :: "tools \<Rightarrow> files \<Rightarrow> (string \<times> string) list \<Rightarrow> string" where
  "diff_report T fs failed = concat (map (\<lambda>(src, dst). concat
     (t_unified_diff T (file_lines (case fs src of None \<Rightarrow> [] | Some t \<Rightarrow> t)) (file_lines dst) src (t_tempname T src))) failed)"

text \<open>The result of the check, the files afterwards and what was printed.\<close>

definition indent_files ::
  "tools \<Rightarrow> files \<Rightarrow> string list \<Rightarrow> bool \<Rightarrow> bool \<Rightarrow> int \<Rightarrow> bool \<Rightarrow> (bool \<times> files \<times> string) res" where
  "indent_files T fs names diff debug level inplace =
     res_bind (indent_each T fs debug level names) (\<lambda>output.
       if inplace then
         Inr (True, foldl (\<lambda>fs (src, dst). fs(src \<mapsto> dst)) fs output, [])
       else
         let failed = badly_indented fs output in
         if length failed > 0 then
           Inr (False, fs,
             if \<not> diff then
               ''Found '' @ str_nat (length failed) @ '' badly indented files:'' @ nl @
               concat (map (\<lambda>(src, dst). ''  '' @ src @ nl) failed)
             else diff_report T fs failed)
         else Inr (True, fs, []))"

definition git_modified_files :: "string list \<Rightarrow> string \<Rightarrow> string list" where
  "git_modified_files diff_lines root_dir =
     (let files_changed = map strip diff_lines;
          files_changed = filter (\<lambda>item. endswith item ''.h'' \<or> endswith item ''.cc'') files_changed
      in map (\<lambda>filename. butlast root_dir @ ''/'' @ strip filename) files_changed)"

record style_options =
  so_debug :: bool
  so_level :: int
  so_git :: bool
  so_file :: string
  so_diff :: bool
  so_in_place :: bool

text \<open>
  The exit status, the files afterwards and what was printed.  An exception that leaves
  \<open>run_as_main\<close> becomes exit status 1 in the last lines of the script.
\<close>

definition run_as_main ::
  "tools \<Rightarrow> files \<Rightarrow> string list \<Rightarrow> string \<Rightarrow> style_options \<Rightarrow> int \<times> files \<times> string" where
  "run_as_main T fs git_diff root_dir opts =
     (let outcome = (\<lambda>r. case r of
            Inl e \<Rightarrow> (1, fs, [])
          | Inr (style_is_correct, fs', out) \<Rightarrow> (if \<not> style_is_correct then (1, fs', out) else (0, fs', out)))
      in if so_git opts then
           outcome (indent_files T fs (git_modified_files git_diff root_dir)
             (so_diff opts) (so_debug opts) (so_level opts) (so_in_place opts))
         else if so_file opts \<noteq> [] then
           (if fs (so_file opts) = None then
              (1, fs, ''file '' @ so_file opts @ '' does not exist'' @ nl)
            else outcome (indent_files T fs [so_file opts]
              (so_diff opts) (so_debug opts) (so_level opts) (so_in_place opts)))
         else (1, fs, []))"

section \<open>Printing and parsing back\<close>

text \<open>
  The patch sets the printed form determines: every line has a type and no newline of its
  own, a removed line does not start with \<open>-- \<close> and an added one not with \<open>++ \<close> (their
  printed forms would be file headers), and the positions are those of a diff.
\<close>

definition wf_line :: "patch_chunk_line \<Rightarrow> bool" where
  "wf_line l \<longleftrightarrow> pl_type l \<noteq> LUnset \<and> NL \<notin> set (pl_line l)
     \<and> (pl_type l = LSrc \<longrightarrow> re_lit ''-- '' (pl_line l) = None)
     \<and> (pl_type l = LDst \<longrightarrow> re_lit ''++ '' (pl_line l) = None)"

definition wf_chunk :: "patch_chunk \<Rightarrow> bool" where
  "wf_chunk c \<longleftrightarrow> list_all wf_line (pc_lines c) \<and> 0 \<le> pc_src_pos c \<and> 0 \<le> pc_dst_pos c"

definition wf_patch :: "patch \<Rightarrow> bool" where
  "wf_patch p \<longleftrightarrow> list_all wf_chunk (p_chunks p) \<and> NL \<notin> set (p_src p) \<and> NL \<notin> set (p_dst p)"

definition line_text :: "patch_chunk_line \<Rightarrow> string" where
  "line_text l = (case pl_type l of LSrc \<Rightarrow> ''-'' | LDst \<Rightarrow> ''+'' | LBoth \<Rightarrow> '' '' | LUnset \<Rightarrow> []) @ pl_line l @ nl"

definition chunk_texts :: "patch_chunk \<Rightarrow> string list" where
  "chunk_texts c = chunk_header c # map line_text (pc_lines c)"

definition patch_texts :: "patch \<Rightarrow> string list" where
  "patch_texts p = (''--- '' @ p_src p @ nl) # (''+++ '' @ p_dst p @ nl) # concat (map chunk_texts (p_chunks p))"

lemma write_all_Inr:
  "(\<And>x. x \<in> set xs \<Longrightarrow> w x = Inr (t x)) \<Longrightarrow> write_all w xs = Inr (concat (map t xs))"
  by (induction xs) auto

lemma line_write_wf: "wf_line l \<Longrightarrow> line_write l = Inr (line_text l)"
  by (auto simp: wf_line_def line_write_def line_text_def split: line_kind.splits)

lemma chunk_write_wf: "wf_chunk c \<Longrightarrow> chunk_write c = Inr (concat (chunk_texts c))"
  by (simp add: wf_chunk_def chunk_write_def chunk_texts_def write_all_Inr [where t = line_text]
      line_write_wf list_all_iff)

lemma concat_concat: "concat (concat xss) = concat (map concat xss)"
  by (induction xss) auto

lemma patch_write_wf: "wf_patch p \<Longrightarrow> patch_write p = Inr (concat (patch_texts p))"
  by (simp add: wf_patch_def patch_write_def patch_texts_def list_all_iff comp_def concat_concat
      write_all_Inr [where t = "\<lambda>c. concat (chunk_texts c)"] chunk_write_wf)

lemma patches_write_wf:
  "list_all wf_patch ps \<Longrightarrow> write_all patch_write ps = Inr (concat (concat (map patch_texts ps)))"
  by (simp add: list_all_iff concat_concat comp_def
      write_all_Inr [where t = "\<lambda>p. concat (patch_texts p)"] patch_write_wf)

text \<open>Every printed line is one line of the file.\<close>

definition text_line :: "string \<Rightarrow> bool" where
  "text_line l \<longleftrightarrow> (\<exists>b. l = b @ nl \<and> NL \<notin> set b)"

lemma nl_notin_str_int: "0 \<le> i \<Longrightarrow> NL \<notin> set (str_int i)"
  by (simp add: str_int_def)

lemma text_line_header: "wf_chunk c \<Longrightarrow> text_line (chunk_header c)"
  unfolding text_line_def chunk_header_def wf_chunk_def
  by (rule exI [of _ "''@@ -'' @ str_int (pc_src_pos c) @ '','' @ str_nat (chunk_src_len c) @
     '' +'' @ str_int (pc_dst_pos c) @ '','' @ str_nat (chunk_dst_len c) @ '' @@''"])
     (simp add: nl_notin_str_int)

lemma text_line_line: "wf_line l \<Longrightarrow> text_line (line_text l)"
  unfolding text_line_def line_text_def wf_line_def
  by (rule exI [of _ "(case pl_type l of LSrc \<Rightarrow> ''-'' | LDst \<Rightarrow> ''+'' | LBoth \<Rightarrow> '' '' | LUnset \<Rightarrow> []) @ pl_line l"])
     (auto split: line_kind.splits)

lemma text_line_Cons_app: "NL \<notin> set a \<Longrightarrow> NL \<notin> set b \<Longrightarrow> text_line (a @ b @ nl)"
  unfolding text_line_def by (rule exI [of _ "a @ b"]) simp

lemma text_line_chunk: "wf_chunk c \<Longrightarrow> l \<in> set (chunk_texts c) \<Longrightarrow> text_line l"
  by (auto simp: chunk_texts_def text_line_header text_line_line wf_chunk_def list_all_iff)

lemma text_line_patch:
  assumes "wf_patch p" and "l \<in> set (patch_texts p)"
  shows "text_line l"
proof -
  have h: "text_line (''--- '' @ p_src p @ nl)" "text_line (''+++ '' @ p_dst p @ nl)"
    using assms(1) text_line_Cons_app [of "''--- ''" "p_src p"] text_line_Cons_app [of "''+++ ''" "p_dst p"]
    by (simp_all add: wf_patch_def)
  have c: "text_line l" if "l \<in> set (concat (map chunk_texts (p_chunks p)))"
    using that assms(1) text_line_chunk by (auto simp: wf_patch_def list_all_iff)
  show ?thesis using assms(2) h c by (auto simp: patch_texts_def)
qed

lemma file_lines_texts:
  assumes "list_all wf_patch ps"
  shows "file_lines (concat (concat (map patch_texts ps))) = concat (map patch_texts ps)"
proof -
  have "\<exists>b. l = b @ nl \<and> NL \<notin> set b" if "l \<in> set (concat (map patch_texts ps))" for l
  proof -
    from that obtain p where "p \<in> set ps" "l \<in> set (patch_texts p)" by auto
    with assms have "text_line l" by (intro text_line_patch [of p]) (auto simp: list_all_iff)
    then show ?thesis by (simp add: text_line_def)
  qed
  from file_lines_concat [of "concat (map patch_texts ps)" "[]", OF this]
  show ?thesis by simp
qed

subsection \<open>One step of the parser on each printed line\<close>

lemma parse_src_header: "NL \<notin> set g \<Longrightarrow>
  parse_line st (''--- '' @ g @ nl) = Inr (st\<lparr>ps_patches := ps_patches st @ [patch_set_src new_patch g]\<rparr>)"
  by (simp add: parse_line_def re_src_file_def)

lemma parse_dst_header: "NL \<notin> set g \<Longrightarrow> ps_patches st \<noteq> [] \<Longrightarrow>
  parse_line st (''+++ '' @ g @ nl)
    = Inr (st\<lparr>ps_patches := update_last (\<lambda>p. patch_set_dst p g) (ps_patches st)\<rparr>)"
  by (simp add: parse_line_def re_src_file_def re_dst_file_def)

lemma not_digit_punct: "\<not> is_digit CHR '',''" "\<not> is_digit CHR '' ''"
  by (simp_all add: is_digit_def)

lemma re_plus_comma: "re_plus is_digit (str_nat n @ '','' @ s) = Some (str_nat n, '','' @ s)"
  and re_plus_blank: "re_plus is_digit (str_nat n @ '' +'' @ s) = Some (str_nat n, '' +'' @ s)"
  and re_plus_end: "re_plus is_digit (str_nat n @ '' @@'' @ s) = Some (str_nat n, '' @@'' @ s)"
  by (simp_all add: re_plus_digits not_digit_punct)

lemma re_chunk_start_print:
  "re_chunk_start (''@@ -'' @ str_nat a @ '','' @ str_nat b @ '' +'' @ str_nat c @ '','' @ str_nat d @ '' @@'' @ t)
     = Some (str_nat a, str_nat c)"
  by (simp only: re_chunk_start_def re_lit_append re_plus_comma re_plus_blank re_plus_end
      Option.bind.bind_lunit prod.case)

lemma parse_chunk_header:
  assumes "wf_chunk c" and "ps_patches st \<noteq> []"
  shows "parse_line st (chunk_header c) =
    Inr (st\<lparr>ps_patches := update_last (\<lambda>p. patch_add_chunk p (c\<lparr>pc_lines := []\<rparr>)) (ps_patches st),
           ps_chunk := Some (length (ps_patches st) - 1, length (p_chunks (last (ps_patches st))))\<rparr>)"
proof -
  obtain a b where ab: "pc_src_pos c = int a" "pc_dst_pos c = int b"
    using assms(1) by (metis wf_chunk_def zero_le_imp_eq_int)
  have "re_src_file (chunk_header c) = None" "re_dst_file (chunk_header c) = None"
    by (simp_all add: chunk_header_def re_src_file_def re_dst_file_def)
  moreover have "re_chunk_start (chunk_header c) = Some (str_nat a, str_nat b)"
    unfolding chunk_header_def ab str_int_of_nat by (rule re_chunk_start_print)
  moreover have "new_patch_chunk (str_nat a) (str_nat b) = c\<lparr>pc_lines := []\<rparr>"
    by (cases c) (use ab in \<open>simp add: new_patch_chunk_def\<close>)
  ultimately show ?thesis using assms(2) by (simp add: parse_line_def)
qed

lemma re_lit_snoc_nl: "NL \<notin> set p \<Longrightarrow> re_lit p s = None \<Longrightarrow> re_lit p (s @ nl) = None"
  by (induction p s rule: re_lit.induct) (auto split: if_splits elim: list.set_cases)

lemma parse_chunk_line:
  assumes "wf_line l"
  shows "parse_line st (line_text l) = add_line_to_current st l"
proof -
  have nl: "NL \<notin> set (pl_line l)" using assms by (simp add: wf_line_def)
  have c: "re_chunk_start (x # s) = None" if "x \<noteq> CHR ''@''" for x s
    using that by (simp add: re_chunk_start_def)
  have sh: "re_src_file (''-'' @ pl_line l @ nl) = None" if "pl_type l = LSrc"
    using assms that re_lit_snoc_nl [of "''-- ''" "pl_line l"]
    by (simp add: re_src_file_def wf_line_def)
  have dh: "re_dst_file (''+'' @ pl_line l @ nl) = None" if "pl_type l = LDst"
    using assms that re_lit_snoc_nl [of "''++ ''" "pl_line l"]
    by (simp add: re_dst_file_def wf_line_def)
  show ?thesis
  proof (cases "pl_type l")
    case LUnset
    with assms show ?thesis by (simp add: wf_line_def)
  next
    case LSrc
    then have "line_text l = ''-'' @ pl_line l @ nl" by (simp add: line_text_def)
    moreover have "line_set_src new_patch_chunk_line (pl_line l) = l"
      by (cases l) (use LSrc in \<open>simp add: line_set_src_def new_patch_chunk_line_def\<close>)
    ultimately show ?thesis
      using sh [OF LSrc] c nl by (simp add: parse_line_def re_src_def re_dst_file_def)
  next
    case LDst
    then have "line_text l = ''+'' @ pl_line l @ nl" by (simp add: line_text_def)
    moreover have "line_set_dst new_patch_chunk_line (pl_line l) = l"
      by (cases l) (use LDst in \<open>simp add: line_set_dst_def new_patch_chunk_line_def\<close>)
    ultimately show ?thesis
      using dh [OF LDst] c nl by (simp add: parse_line_def re_src_def re_dst_def re_src_file_def)
  next
    case LBoth
    then have "line_text l = '' '' @ pl_line l @ nl" by (simp add: line_text_def)
    moreover have "line_set_both new_patch_chunk_line (pl_line l) = l"
      by (cases l) (use LBoth in \<open>simp add: line_set_both_def new_patch_chunk_line_def\<close>)
    ultimately show ?thesis
      using c nl by (simp add: parse_line_def re_src_def re_dst_def re_both_def re_src_file_def re_dst_file_def)
  qed
qed

subsection \<open>The parser over a chunk, a patch and a patch set\<close>

lemma parse_lines_append:
  "parse_lines st (xs @ ys) = res_bind (parse_lines st xs) (\<lambda>st'. parse_lines st' ys)"
  by (induction xs arbitrary: st) (auto simp: res_bind_assoc)

lemma update_last_snoc [simp]: "update_last f (xs @ [x]) = xs @ [f x]"
  by (simp add: update_last_def map_nth_def)

lemma map_nth_snoc [simp]: "map_nth (length xs) f (xs @ [x]) = xs @ [f x]"
  by (simp add: map_nth_def)

lemma parse_chunk_lines:
  "list_all wf_line ls \<Longrightarrow>
   parse_lines \<lparr>ps_patches = ps @ [p\<lparr>p_chunks := cs @ [c]\<rparr>], ps_chunk = Some (length ps, length cs)\<rparr> (map line_text ls)
   = Inr \<lparr>ps_patches = ps @ [p\<lparr>p_chunks := cs @ [c\<lparr>pc_lines := pc_lines c @ ls\<rparr>]\<rparr>],
          ps_chunk = Some (length ps, length cs)\<rparr>"
proof (induction ls arbitrary: c)
  case (Cons l ls)
  from Cons.prems have "parse_line \<lparr>ps_patches = ps @ [p\<lparr>p_chunks := cs @ [c]\<rparr>], ps_chunk = Some (length ps, length cs)\<rparr> (line_text l)
    = Inr \<lparr>ps_patches = ps @ [p\<lparr>p_chunks := cs @ [chunk_add_line c l]\<rparr>], ps_chunk = Some (length ps, length cs)\<rparr>"
    by (simp add: parse_chunk_line add_line_to_current_def)
  with Cons show ?case by (simp add: chunk_add_line_def)
qed simp

lemma parse_chunk_texts:
  assumes "wf_chunk c"
  shows "parse_lines \<lparr>ps_patches = ps @ [p\<lparr>p_chunks := cs\<rparr>], ps_chunk = k\<rparr> (chunk_texts c)
    = Inr \<lparr>ps_patches = ps @ [p\<lparr>p_chunks := cs @ [c]\<rparr>], ps_chunk = Some (length ps, length cs)\<rparr>"
  using assms parse_chunk_lines [where ls = "pc_lines c" and p = p and c = "c\<lparr>pc_lines := []\<rparr>"]
  by (simp add: chunk_texts_def parse_chunk_header patch_add_chunk_def wf_chunk_def)

lemma parse_chunks:
  "list_all wf_chunk ds \<Longrightarrow>
   \<exists>k'. parse_lines \<lparr>ps_patches = ps @ [p\<lparr>p_chunks := cs\<rparr>], ps_chunk = k\<rparr> (concat (map chunk_texts ds))
    = Inr \<lparr>ps_patches = ps @ [p\<lparr>p_chunks := cs @ ds\<rparr>], ps_chunk = k'\<rparr>"
proof (induction ds arbitrary: cs k)
  case (Cons d ds)
  then show ?case
    using Cons.IH [of "cs @ [d]" "Some (length ps, length cs)"]
    by (simp add: parse_lines_append parse_chunk_texts)
qed simp

lemma parse_patch:
  assumes "wf_patch p"
  shows "\<exists>k'. parse_lines \<lparr>ps_patches = ps, ps_chunk = k\<rparr> (patch_texts p)
    = Inr \<lparr>ps_patches = ps @ [p], ps_chunk = k'\<rparr>"
proof -
  let ?p0 = "patch_set_dst (patch_set_src new_patch (p_src p)) (p_dst p)"
  have p: "?p0\<lparr>p_chunks := p_chunks p\<rparr> = p" and p0: "?p0\<lparr>p_chunks := []\<rparr> = ?p0"
    by (cases p; simp add: patch_set_dst_def patch_set_src_def new_patch_def)+
  have "list_all wf_chunk (p_chunks p)" using assms by (simp add: wf_patch_def)
  from parse_chunks [where p = ?p0 and cs = "[]", OF this, of ps k]
  obtain k' where "parse_lines \<lparr>ps_patches = ps @ [?p0], ps_chunk = k\<rparr> (concat (map chunk_texts (p_chunks p)))
    = Inr \<lparr>ps_patches = ps @ [p], ps_chunk = k'\<rparr>"
    unfolding p0 append_Nil p by blast
  then show ?thesis
    using assms by (simp add: patch_texts_def parse_src_header parse_dst_header wf_patch_def del: append.simps)
qed

lemma parse_patches:
  "list_all wf_patch qs \<Longrightarrow>
   \<exists>k'. parse_lines \<lparr>ps_patches = ps, ps_chunk = k\<rparr> (concat (map patch_texts qs))
     = Inr \<lparr>ps_patches = ps @ qs, ps_chunk = k'\<rparr>"
proof (induction qs arbitrary: ps k)
  case (Cons q qs)
  from Cons.prems have "wf_patch q" by simp
  from parse_patch [OF this] obtain k1 where 1: "parse_lines \<lparr>ps_patches = ps, ps_chunk = k\<rparr> (patch_texts q)
      = Inr \<lparr>ps_patches = ps @ [q], ps_chunk = k1\<rparr>"
    by blast
  with Cons show ?case using Cons.IH [of "ps @ [q]" k1] by (simp add: parse_lines_append)
qed simp

text \<open>C17: a patch set that is printed and read back is the same patch set: header names,
  chunk positions and every source, destination and context line, in order.\<close>

theorem parse_write_roundtrip:
  "list_all wf_patch ps \<Longrightarrow>
   \<exists>txt. write_all patch_write ps = Inr txt \<and> parse_patchset (file_lines txt) = Inr ps"
  using parse_patches [of ps "[]" None]
  by (auto simp: patches_write_wf file_lines_texts parse_patchset_def)

theorem parse_write_roundtrip_witness:
  "\<exists>txt. write_all patch_write [\<lparr>p_src = ''a.cc'', p_dst = ''b.cc'', p_chunks = [\<lparr>pc_lines =
      [\<lparr>pl_type = LSrc, pl_line = ''x ''\<rparr>, \<lparr>pl_type = LDst, pl_line = ''x''\<rparr>], pc_src_pos = 7, pc_dst_pos = 7\<rparr>]\<rparr>] = Inr txt \<and>
    parse_patchset (file_lines txt) = Inr [\<lparr>p_src = ''a.cc'', p_dst = ''b.cc'', p_chunks = [\<lparr>pc_lines =
      [\<lparr>pl_type = LSrc, pl_line = ''x ''\<rparr>, \<lparr>pl_type = LDst, pl_line = ''x''\<rparr>], pc_src_pos = 7, pc_dst_pos = 7\<rparr>]\<rparr>]"
  by (rule parse_write_roundtrip) (simp add: wf_patch_def wf_chunk_def wf_line_def)

subsection \<open>What the parser rejects\<close>

text \<open>A hunk header whose range has the short form \<open>-a +b\<close> (the form a unified diff
  uses for a range of one line) matches none of the patterns, so the parser raises.\<close>

theorem parse_short_header_raises:
  "parse_line st (''@@ -'' @ str_nat a @ '' +'' @ str_nat b @ '' @@'' @ nl) = Inl (UserException [])"
  by (simp add: parse_line_def re_src_file_def re_dst_file_def re_src_def re_dst_def re_both_def
      re_chunk_start_def re_plus_blank [simplified])

section \<open>The white space pass\<close>

lemma set_positions [simp]: "set (positions P xs) = {i. i < length xs \<and> P (xs ! i)}"
  by (auto simp: positions_def)

lemma distinct_positions [simp]: "distinct (positions P xs)"
  by (simp add: positions_def)

lemma map_positions: "map ((!) xs) (positions P xs) = filter P xs"
proof -
  have "filter P xs = filter P (map ((!) xs) [0..<length xs])" by (simp add: map_nth)
  also have "\<dots> = map ((!) xs) (positions P xs)" by (simp add: filter_map positions_def comp_def)
  finally show ?thesis by simp
qed

text \<open>One line after the pass: as it was, or a destination line with one blank or tab added.\<close>

definition ws_edit :: "patch_chunk_line \<Rightarrow> patch_chunk_line \<Rightarrow> bool" where
  "ws_edit l l' \<longleftrightarrow> l' = l \<or> (is_dst l \<and> (\<exists>w \<in> {CHR '' '', TAB}. l' = append_to_line l [w]))"

definition chunk_edit :: "patch_chunk \<Rightarrow> patch_chunk \<Rightarrow> bool" where
  "chunk_edit c c' \<longleftrightarrow> pc_src_pos c' = pc_src_pos c \<and> pc_dst_pos c' = pc_dst_pos c
     \<and> list_all2 ws_edit (pc_lines c) (pc_lines c')"

definition patch_edit :: "patch \<Rightarrow> patch \<Rightarrow> bool" where
  "patch_edit p p' \<longleftrightarrow> p_src p' = p_src p \<and> p_dst p' = p_dst p \<and> list_all2 chunk_edit (p_chunks p) (p_chunks p')"

lemma ws_edit_refl [simp]: "ws_edit l l"
  by (simp add: ws_edit_def)

lemma chunk_edit_refl [simp]: "chunk_edit c c"
  by (simp add: chunk_edit_def list.rel_refl)

lemma patch_edit_refl [simp]: "patch_edit p p"
  by (simp add: patch_edit_def list.rel_refl)

lemma ws_match_Some: "ws_match s = Some (g1, g2) \<Longrightarrow> \<exists>w \<in> {CHR '' '', TAB}. g2 = [w] \<and> re_rest s = Some (g1 @ [w])"
  by (auto simp: ws_match_def split: option.splits if_splits) (metis append_butlast_last_id)+

lemma ws_loop_edit:
  "distinct ds \<Longrightarrow> \<forall>d \<in> set ds. d < length ls \<and> is_dst (ls ! d) \<Longrightarrow> ws_loop ss ds ls = (stop, ls') \<Longrightarrow>
   length ls' = length ls \<and> (\<forall>i < length ls. ws_edit (ls ! i) (ls' ! i)) \<and>
   (\<forall>i < length ls. i \<notin> set ds \<longrightarrow> ls' ! i = ls ! i)"
proof (induction ss ds ls rule: ws_loop.induct)
  case (3 s ss d ds ls)
  define ls1 where "ls1 = (case ws_match (pl_line (ls ! s)) of None \<Rightarrow> ls
     | Some (g1, g2) \<Rightarrow> (if g1 = pl_line (ls ! d) then ls[d := append_to_line (ls ! d) g2] else ls))"
  have d: "ws_edit (ls ! d) (ls1 ! d)" and other: "\<And>i. i \<noteq> d \<Longrightarrow> ls1 ! i = ls ! i" and len: "length ls1 = length ls"
    using "3.prems"(2) by (auto simp: ls1_def ws_edit_def dest!: ws_match_Some split: option.splits)
  have "\<forall>e \<in> set ds. e < length ls1 \<and> is_dst (ls1 ! e)"
    using "3.prems"(1,2) other len by (metis distinct.simps(2) list.set_intros(2))
  then have IH: "length ls' = length ls1" "\<forall>i < length ls1. ws_edit (ls1 ! i) (ls' ! i)"
      "\<forall>i < length ls1. i \<notin> set ds \<longrightarrow> ls' ! i = ls1 ! i"
    using "3.IH" [folded ls1_def] "3.prems" by (simp_all add: ls1_def)
  have "ws_edit (ls ! i) (ls' ! i)" if "i < length ls" for i
    using IH that d other len "3.prems"(1) by (cases "i = d") auto
  with IH other len show ?case by auto
qed auto

lemma ws_chunk_edit: "chunk_edit c (snd (ws_chunk c))"
proof -
  obtain stop ls where w: "ws_loop (positions is_src (pc_lines c)) (positions is_dst (pc_lines c)) (pc_lines c) = (stop, ls)"
    by (cases "ws_loop (positions is_src (pc_lines c)) (positions is_dst (pc_lines c)) (pc_lines c)")
  have "list_all2 ws_edit (pc_lines c) ls"
    using ws_loop_edit [OF _ _ w] by (auto simp: list_all2_conv_all_nth)
  with w show ?thesis by (simp add: ws_chunk_def chunk_edit_def)
qed

lemma until_stop_rel:
  "(\<And>x. R x (snd (f x))) \<Longrightarrow> (\<And>x. R x x) \<Longrightarrow> list_all2 R xs (snd (until_stop f xs))"
proof (induction xs)
  case (Cons x xs)
  from Cons.prems(1) [of x] Cons.prems(2) Cons.IH [OF Cons.prems] show ?case
    by (auto split: prod.splits intro: list.rel_refl)
qed simp

lemma ws_patch_edit: "patch_edit p (snd (ws_patch p))"
  using until_stop_rel [of chunk_edit ws_chunk "p_chunks p", OF ws_chunk_edit chunk_edit_refl]
  by (auto simp: ws_patch_def patch_edit_def split: prod.splits)

text \<open>C30: the white space pass keeps the file names, the positions and the type of every line
  (so the counts of every chunk header stay right), leaves every removed line alone, and adds
  at most one blank or tab to an added or context line.\<close>

theorem whitespace_pass_edits_only_blanks:
  "remove_trailing_whitespace_changes g = Inr qs \<Longrightarrow>
   \<exists>ps. parse_patchset g = Inr ps \<and> list_all2 patch_edit ps qs"
  using until_stop_rel [of patch_edit ws_patch, OF ws_patch_edit patch_edit_refl]
  by (auto simp: remove_trailing_whitespace_changes_def res_bind_eq_Inr)

definition demo_diff :: "string list" where
  "demo_diff = [''--- a'' @ nl, ''+++ b'' @ nl, ''@@ -1,3 +1,3 @@'' @ nl,
     '' int x;'' @ nl, ''-int y; '' @ nl, ''+int y;'' @ nl, '' int z;'' @ nl]"

definition demo_patched :: "patch list" where
  "demo_patched = [\<lparr>p_src = ''a'', p_dst = ''b'', p_chunks = [\<lparr>pc_lines =
     [\<lparr>pl_type = LBoth, pl_line = ''int x;''\<rparr>, \<lparr>pl_type = LSrc, pl_line = ''int y; ''\<rparr>,
      \<lparr>pl_type = LDst, pl_line = ''int y; ''\<rparr>, \<lparr>pl_type = LBoth, pl_line = ''int z;''\<rparr>],
     pc_src_pos = 1, pc_dst_pos = 1\<rparr>]\<rparr>]"

lemma demo_diff_patched: "remove_trailing_whitespace_changes demo_diff = Inr demo_patched"
  by code_simp

theorem whitespace_pass_edits_only_blanks_witness:
  "\<exists>ps. parse_patchset demo_diff = Inr ps \<and> list_all2 patch_edit ps demo_patched"
  using whitespace_pass_edits_only_blanks [OF demo_diff_patched] .

subsection \<open>Aligned chunks\<close>

text \<open>
  A chunk is aligned when it has as many source as destination lines and a context line has
  the same place among both: the shape of a change that only touches lines in place.
\<close>

definition ws_aligned :: "patch_chunk \<Rightarrow> bool" where
  "ws_aligned c \<longleftrightarrow> list_all2 (\<lambda>s d. s = d \<or> \<not> is_src (pc_lines c ! d))
     (positions is_src (pc_lines c)) (positions is_dst (pc_lines c))"

text \<open>What a destination line becomes, given the source line it replaces.\<close>

definition ws_fix :: "string \<Rightarrow> string \<Rightarrow> string" where
  "ws_fix x y = (if x = y @ '' '' \<or> x = y @ [TAB] then x else y)"

lemma ws_fix_same [simp]: "ws_fix x x = x"
  by (simp add: ws_fix_def)

lemma ws_match_snoc: "NL \<notin> set x \<Longrightarrow> ws_match x = (if x \<noteq> [] \<and> last x \<in> {CHR '' '', TAB} then Some (butlast x, [last x]) else None)"
  by (simp add: ws_match_def)

lemma butlast_neq: "x \<noteq> [] \<Longrightarrow> butlast x \<noteq> x"
  by (metis length_butlast diff_less length_greater_0_conv less_irrefl zero_less_one)

lemma ws_step_fix:
  assumes "NL \<notin> set x"
  shows "(case ws_match x of None \<Rightarrow> y | Some (g1, g2) \<Rightarrow> (if g1 = y then y @ g2 else y)) = ws_fix x y"
proof (cases "x = []")
  case True
  then show ?thesis by (simp add: ws_match_snoc ws_fix_def)
next
  case False
  then obtain b c where "x = b @ [c]" by (metis append_butlast_last_id)
  with assms show ?thesis by (auto simp: ws_match_snoc ws_fix_def)
qed

lemma ws_loop_aligned:
  "length ss = length ds \<Longrightarrow> distinct ds \<Longrightarrow> set ss \<subseteq> S \<Longrightarrow> list_all2 (\<lambda>s d. s = d \<or> d \<notin> S) ss ds \<Longrightarrow>
   \<forall>d \<in> set ds. d < length ls \<Longrightarrow> \<forall>s \<in> set ss. NL \<notin> set (pl_line (ls ! s)) \<Longrightarrow>
   \<exists>ls'. ws_loop ss ds ls = (False, ls') \<and>
     list_all2 (\<lambda>s d. pl_line (ls' ! d) = ws_fix (pl_line (ls ! s)) (pl_line (ls ! d))) ss ds \<and>
     (\<forall>i. i \<notin> set ds \<or> i \<in> S \<longrightarrow> ls' ! i = ls ! i)"
proof (induction ss ds ls rule: ws_loop.induct)
  case (3 s ss d ds ls)
  let ?x = "pl_line (ls ! s)" and ?y = "pl_line (ls ! d)"
  define ls1 where "ls1 = (case ws_match ?x of None \<Rightarrow> ls
     | Some (g1, g2) \<Rightarrow> (if g1 = ?y then ls[d := append_to_line (ls ! d) g2] else ls))"
  have len: "length ls1 = length ls" and other: "\<And>i. i \<noteq> d \<Longrightarrow> ls1 ! i = ls ! i"
    by (auto simp: ls1_def split: option.splits)
  have "pl_line (ls1 ! d) = (case ws_match ?x of None \<Rightarrow> ?y | Some (g1, g2) \<Rightarrow> (if g1 = ?y then ?y @ g2 else ?y))"
    using "3.prems"(5) by (auto simp: ls1_def append_to_line_def split: option.splits)
  also have "\<dots> = ws_fix ?x ?y"
    using "3.prems"(6) by (intro ws_step_fix) simp
  finally have at_d: "pl_line (ls1 ! d) = ws_fix ?x ?y" .
  have same: "ls1 ! i = ls ! i" if "i \<in> S" for i
  proof (cases "d \<in> S")
    case True
    with "3.prems"(4) have "s = d" by simp
    with "3.prems"(6) have "ls1 = ls"
      by (auto simp: ls1_def ws_match_snoc butlast_neq)
    then show ?thesis by simp
  next
    case False
    with that have "i \<noteq> d" by auto
    then show ?thesis by (rule other)
  qed
  have "\<exists>ls'. ws_loop ss ds ls1 = (False, ls') \<and>
     list_all2 (\<lambda>s d. pl_line (ls' ! d) = ws_fix (pl_line (ls1 ! s)) (pl_line (ls1 ! d))) ss ds \<and>
     (\<forall>i. i \<notin> set ds \<or> i \<in> S \<longrightarrow> ls' ! i = ls1 ! i)"
    using "3.prems" same len by (intro "3.IH" [folded ls1_def]) (auto simp: subset_eq)
  then obtain ls' where ls': "ws_loop ss ds ls1 = (False, ls')"
     "list_all2 (\<lambda>s d. pl_line (ls' ! d) = ws_fix (pl_line (ls1 ! s)) (pl_line (ls1 ! d))) ss ds"
     "\<forall>i. i \<notin> set ds \<or> i \<in> S \<longrightarrow> ls' ! i = ls1 ! i" by blast
  have "list_all2 (\<lambda>s d. pl_line (ls' ! d) = ws_fix (pl_line (ls ! s)) (pl_line (ls ! d))) ss ds"
    using ls'(2)
  proof (rule list.rel_mono_strong)
    fix s' d' assume "s' \<in> set ss" "d' \<in> set ds"
      and eq: "pl_line (ls' ! d') = ws_fix (pl_line (ls1 ! s')) (pl_line (ls1 ! d'))"
    then have "s' \<in> S" "d' \<noteq> d" using "3.prems"(2,3) by auto
    then have "ls1 ! s' = ls ! s'" "ls1 ! d' = ls ! d'" by (auto intro: same other)
    with eq show "pl_line (ls' ! d') = ws_fix (pl_line (ls ! s')) (pl_line (ls ! d'))" by simp
  qed
  moreover have "pl_line (ls' ! d) = ws_fix ?x ?y"
    using ls'(3) "3.prems"(2) at_d by auto
  moreover have "\<forall>i. i \<notin> set (d # ds) \<or> i \<in> S \<longrightarrow> ls' ! i = ls ! i"
    using ls'(3) other same by auto
  ultimately show ?case using ls'(1) by (auto simp: ls1_def)
qed auto

lemma positions_lt: "i \<in> set (positions P xs) \<Longrightarrow> i < length xs"
  by simp

text \<open>On an aligned chunk the pass never stops early, keeps the source side as it is, and
  gives every destination line that differs from its source line by one trailing blank or tab
  the text of the source line; every other destination line keeps its text.\<close>

theorem whitespace_pass_restores_aligned:
  assumes al: "ws_aligned c" and nonl: "\<forall>l \<in> set (pc_lines c). NL \<notin> set (pl_line l)"
  shows "\<exists>c'. ws_chunk c = (False, c') \<and> chunk_src c' = chunk_src c \<and>
    map pl_line (chunk_dst c') = map2 ws_fix (map pl_line (chunk_src c)) (map pl_line (chunk_dst c))"
proof -
  let ?ls = "pc_lines c" and ?S = "set (positions is_src (pc_lines c))"
  let ?ss = "positions is_src ?ls" and ?ds = "positions is_dst ?ls"
  have len: "length ?ss = length ?ds"
    using al by (simp add: ws_aligned_def list_all2_lengthD)
  have al': "list_all2 (\<lambda>s d. s = d \<or> d \<notin> ?S) ?ss ?ds"
    using al unfolding ws_aligned_def by (rule list.rel_mono_strong) auto
  have lt: "\<forall>d \<in> set ?ds. d < length ?ls" by simp
  have nl': "\<forall>s \<in> set ?ss. NL \<notin> set (pl_line (?ls ! s))" using nonl by simp
  from ws_loop_aligned [OF len distinct_positions subset_refl al' lt nl']
  obtain ls' where w: "ws_loop ?ss ?ds ?ls = (False, ls')"
     and fix2: "list_all2 (\<lambda>s d. pl_line (ls' ! d) = ws_fix (pl_line (?ls ! s)) (pl_line (?ls ! d))) ?ss ?ds"
     and keep: "\<forall>i. i \<notin> set ?ds \<or> i \<in> ?S \<longrightarrow> ls' ! i = ?ls ! i"
    by blast
  have ed: "length ls' = length ?ls" "\<forall>i < length ?ls. ws_edit (?ls ! i) (ls' ! i)"
    using ws_loop_edit [OF distinct_positions _ w] by auto
  have kinds: "pl_type (ls' ! i) = pl_type (?ls ! i)" if "i < length ?ls" for i
    using ed that by (auto simp: ws_edit_def append_to_line_def)
  have pos: "positions is_src ls' = ?ss" "positions is_dst ls' = ?ds"
    unfolding positions_def ed(1) by (auto intro!: filter_cong simp: kinds is_src_def is_dst_def)
  have "chunk_src (c\<lparr>pc_lines := ls'\<rparr>) = map ((!) ls') ?ss"
    using map_positions [of ls' is_src] pos by (simp add: chunk_src_def)
  also have "\<dots> = map ((!) ?ls) ?ss" using keep by (auto intro!: map_cong)
  finally have src: "chunk_src (c\<lparr>pc_lines := ls'\<rparr>) = chunk_src c"
    by (simp add: map_positions chunk_src_def)
  have "chunk_dst (c\<lparr>pc_lines := ls'\<rparr>) = map ((!) ls') ?ds"
    using map_positions [of ls' is_dst] pos by (simp add: chunk_dst_def)
  then have "map pl_line (chunk_dst (c\<lparr>pc_lines := ls'\<rparr>)) = map (\<lambda>d. pl_line (ls' ! d)) ?ds"
    by simp
  also have "\<dots> = map2 (\<lambda>s d. ws_fix (pl_line (?ls ! s)) (pl_line (?ls ! d))) ?ss ?ds"
    using fix2 len by (intro nth_equalityI) (auto simp: list_all2_conv_all_nth)
  also have "\<dots> = map2 ws_fix (map pl_line (map ((!) ?ls) ?ss)) (map pl_line (map ((!) ?ls) ?ds))"
    by (simp add: zip_map_map comp_def case_prod_beta)
  finally have "map pl_line (chunk_dst (c\<lparr>pc_lines := ls'\<rparr>))
      = map2 ws_fix (map pl_line (chunk_src c)) (map pl_line (chunk_dst c))"
    by (simp only: map_positions chunk_src_def chunk_dst_def)
  with w src show ?thesis by (simp add: ws_chunk_def)
qed

definition demo_chunk :: patch_chunk where
  "demo_chunk = \<lparr>pc_lines =
     [\<lparr>pl_type = LBoth, pl_line = ''a ''\<rparr>, \<lparr>pl_type = LSrc, pl_line = ''b ''\<rparr>, \<lparr>pl_type = LSrc, pl_line = ''c''\<rparr>,
      \<lparr>pl_type = LDst, pl_line = ''b''\<rparr>, \<lparr>pl_type = LDst, pl_line = ''d''\<rparr>],
     pc_src_pos = 1, pc_dst_pos = 1\<rparr>"

theorem whitespace_pass_restores_aligned_witness:
  "\<exists>c'. ws_chunk demo_chunk = (False, c') \<and> map pl_line (chunk_dst c') = [''a '', ''b '', ''d'']"
proof -
  have a: "ws_aligned demo_chunk" by code_simp
  have n: "\<forall>l \<in> set (pc_lines demo_chunk). NL \<notin> set (pl_line l)" by (simp add: demo_chunk_def)
  have "map2 ws_fix (map pl_line (chunk_src demo_chunk)) (map pl_line (chunk_dst demo_chunk)) = [''a '', ''b '', ''d'']"
    by code_simp
  with whitespace_pass_restores_aligned [OF a n] show ?thesis by auto
qed

text \<open>More than one character of trailing white space is never put back: on a removed line
  \<open>y\<close> with two or more blanks or tabs and the added line without them, the pass changes
  nothing.\<close>

theorem whitespace_pass_misses_longer_blanks:
  assumes "NL \<notin> set y" and "set ws \<subseteq> {CHR '' '', TAB}" and "2 \<le> length ws"
  shows "ws_chunk \<lparr>pc_lines = [\<lparr>pl_type = LSrc, pl_line = y @ ws\<rparr>, \<lparr>pl_type = LDst, pl_line = y\<rparr>],
      pc_src_pos = a, pc_dst_pos = b\<rparr>
    = (False, \<lparr>pc_lines = [\<lparr>pl_type = LSrc, pl_line = y @ ws\<rparr>, \<lparr>pl_type = LDst, pl_line = y\<rparr>],
      pc_src_pos = a, pc_dst_pos = b\<rparr>)"
proof -
  have nonl: "NL \<notin> set (y @ ws)" using assms by auto
  obtain c ws' where ws: "ws = ws' @ [c]" and "ws' \<noteq> []"
    using assms(3) by (cases ws rule: rev_cases) (auto simp: Suc_le_eq)
  then have "butlast (y @ ws) \<noteq> y" by (simp add: butlast_append)
  then show ?thesis using nonl
    by (auto simp: ws_chunk_def positions_def is_src_def is_dst_def ws_match_snoc upt_rec)
qed

theorem whitespace_pass_misses_longer_blanks_witness:
  "ws_chunk \<lparr>pc_lines = [\<lparr>pl_type = LSrc, pl_line = ''x'' @ [CHR '' '', TAB]\<rparr>, \<lparr>pl_type = LDst, pl_line = ''x''\<rparr>],
      pc_src_pos = 4, pc_dst_pos = 4\<rparr>
    = (False, \<lparr>pc_lines = [\<lparr>pl_type = LSrc, pl_line = ''x'' @ [CHR '' '', TAB]\<rparr>, \<lparr>pl_type = LDst, pl_line = ''x''\<rparr>],
      pc_src_pos = 4, pc_dst_pos = 4\<rparr>)"
  by (rule whitespace_pass_misses_longer_blanks) simp_all

text \<open>Source and destination lists share the context lines: when a removed line with a
  trailing blank stands before a context line of the same text, the context line itself gets
  the blank, so the chunk's source side no longer matches the file it was made from.\<close>

theorem whitespace_pass_corrupts_context:
  "NL \<notin> set x \<Longrightarrow>
   chunk_src (snd (ws_chunk \<lparr>pc_lines = [\<lparr>pl_type = LSrc, pl_line = x @ '' ''\<rparr>, \<lparr>pl_type = LBoth, pl_line = x\<rparr>],
      pc_src_pos = a, pc_dst_pos = b\<rparr>))
    = [\<lparr>pl_type = LSrc, pl_line = x @ '' ''\<rparr>, \<lparr>pl_type = LBoth, pl_line = x @ '' ''\<rparr>]"
  by (simp add: ws_chunk_def positions_def is_src_def is_dst_def ws_match_snoc append_to_line_def
      chunk_src_def upt_rec)

theorem whitespace_pass_corrupts_context_witness:
  "chunk_src (snd (ws_chunk \<lparr>pc_lines = [\<lparr>pl_type = LSrc, pl_line = ''x'' @ '' ''\<rparr>, \<lparr>pl_type = LBoth, pl_line = ''x''\<rparr>],
      pc_src_pos = 1, pc_dst_pos = 1\<rparr>))
    = [\<lparr>pl_type = LSrc, pl_line = ''x'' @ '' ''\<rparr>, \<lparr>pl_type = LBoth, pl_line = ''x'' @ '' ''\<rparr>]"
  by (rule whitespace_pass_corrupts_context) simp

section \<open>The checker\<close>

lemma uncrustify_config_file_extends:
  "level \<le> level' \<Longrightarrow> \<exists>rest. uncrustify_config_file level' = uncrustify_config_file level @ rest"
  by (auto simp: uncrustify_config_file_def)

lemma indent_each_Inr:
  "indent_each T fs debug level names = Inr outs \<Longrightarrow>
   map fst outs = names \<and> (\<forall>(f, dst) \<in> set outs. indent T fs f debug level = Inr dst)"
  by (induction names arbitrary: outs) (auto simp: res_bind_eq_Inr)

text \<open>Without \<open>--in-place\<close> the checker changes no file, and it accepts exactly when every
  file it was given is unchanged by re-indenting; files it cannot process make it raise.\<close>

theorem indent_files_verdict:
  assumes "indent_files T fs names diff debug level False = Inr (ok, fs', out)"
  shows "fs' = fs \<and> (ok \<longleftrightarrow> (\<forall>f \<in> set names. \<exists>txt. fs f = Some txt \<and> indent T fs f debug level = Inr txt))"
proof -
  obtain outs where outs: "indent_each T fs debug level names = Inr outs"
    using assms by (auto simp: indent_files_def res_bind_eq_Inr)
  have "names = map fst outs" and ind: "\<forall>(f, dst) \<in> set outs. indent T fs f debug level = Inr dst"
    using indent_each_Inr [OF outs] by simp_all
  then have names: "set names = fst ` set outs" by simp
  have "fs' = fs \<and> ok = (badly_indented fs outs = [])"
    using assms outs by (auto simp: indent_files_def Let_def split: if_splits)
  moreover have "badly_indented fs outs = [] \<longleftrightarrow>
      (\<forall>f \<in> set names. \<exists>txt. fs f = Some txt \<and> indent T fs f debug level = Inr txt)"
    using ind unfolding names badly_indented_def by (fastforce simp: filter_empty_conv)
  ultimately show ?thesis by simp
qed

text \<open>Tools that leave the text alone, and a checker run on one file with them.\<close>

definition identity_tools :: tools where
  "identity_tools = \<lparr>t_uncrustify = \<lambda>cfg txt. Some txt, t_unified_diff = \<lambda>a b f t. [],
     t_patch = \<lambda>d txt. txt, t_tempname = \<lambda>f. ''/tmp/out''\<rparr>"

theorem indent_files_verdict_witness:
  "\<exists>fs'. indent_files identity_tools [''a.cc'' \<mapsto> ''int x;''] [''a.cc''] False False 0 False = Inr (True, fs', [])
    \<and> fs' = [''a.cc'' \<mapsto> ''int x;'']"
proof -
  have r: "indent_files identity_tools [''a.cc'' \<mapsto> ''int x;''] [''a.cc''] False False 0 False
      = Inr (True, [''a.cc'' \<mapsto> ''int x;''], [])"
    by (simp add: indent_files_def indent_def identity_tools_def open_read_def badly_indented_def
        remove_trailing_whitespace_changes_def parse_patchset_def)
  from indent_files_verdict [OF r] r show ?thesis by simp
qed

text \<open>With \<open>--debug\<close> at a level below 3 the diff has already been read when it is parsed, so
  for a \<open>patch\<close> program that leaves a file alone on an empty diff every readable file is
  returned as it was: nothing is ever reported or re-indented.\<close>

theorem indent_debug_never_changes:
  assumes "\<And>txt. t_patch T [] txt = txt" and "fs source = Some txt" and "level < 3"
    and "t_uncrustify T (uncrustify_config_file level) txt \<noteq> None"
  shows "indent T fs source True level = Inr txt"
  using assms by (auto simp: indent_def open_read_def remove_trailing_whitespace_changes_def parse_patchset_def)

definition upcase_tools :: tools where
  "upcase_tools = \<lparr>t_uncrustify = \<lambda>cfg txt. Some (txt @ '';''),
     t_unified_diff = \<lambda>a b f t. [''--- '' @ f @ nl, ''+++ '' @ t @ nl, ''@@ -1,1 +1,1 @@'' @ nl],
     t_patch = \<lambda>d txt. (if d = [] then txt else txt @ '';''), t_tempname = \<lambda>f. ''/tmp/out''\<rparr>"

theorem indent_debug_never_changes_witness:
  "indent upcase_tools [''a.cc'' \<mapsto> ''int x''] ''a.cc'' True 0 = Inr ''int x''
   \<and> indent upcase_tools [''a.cc'' \<mapsto> ''int x''] ''a.cc'' False 0 = Inr ''int x;''"
proof
  show "indent upcase_tools [''a.cc'' \<mapsto> ''int x''] ''a.cc'' True 0 = Inr ''int x''"
    by (rule indent_debug_never_changes) (simp_all add: upcase_tools_def)
  have "remove_trailing_whitespace_changes
      [''--- a.cc'' @ nl, ''+++ /tmp/out'' @ nl, ''@@ -1,1 +1,1 @@'' @ nl]
    = Inr [\<lparr>p_src = ''a.cc'', p_dst = ''/tmp/out'', p_chunks = [\<lparr>pc_lines = [], pc_src_pos = 1, pc_dst_pos = 1\<rparr>]\<rparr>]"
    by code_simp
  then show "indent upcase_tools [''a.cc'' \<mapsto> ''int x''] ''a.cc'' False 0 = Inr ''int x;''"
    by (simp add: indent_def upcase_tools_def open_read_def patch_write_def chunk_write_def)
qed

lemma run_as_main_no_target:
  "\<not> so_git opts \<Longrightarrow> so_file opts = [] \<Longrightarrow> run_as_main T fs gd rd opts = (1, fs, [])"
  by (simp add: run_as_main_def)

end
