(* ===== verification/Grid_Data.thy ===== *)
theory Grid_Data
  imports Py2_Num
begin

text \<open>
  The data of the plotting tool \<^verbatim>\<open>utils/grid.py\<close>: ranges and events on named
  timelines, the two binary searches and the windows they select, sorting and bounds, the
  table of colours with its stack of default colours, and the reader of the data file.
  Objects the code shares by reference (a timeline, a row of ranges) are held in one place
  and returned as an index into it.
\<close>

section \<open>Ranges and events\<close>

record data_range =
  dr_start :: int
  dr_end :: int
  dr_value :: string

definition new_data_range :: "int \<Rightarrow> int \<Rightarrow> string \<Rightarrow> data_range" where
  "new_data_range start fin value = \<lparr>dr_start = start, dr_end = fin, dr_value = value\<rparr>"

text \<open>\<open>EventString\<close>, \<open>EventFloat\<close> and \<open>EventInt\<close> differ only in the type of the value.\<close>

record 'v event =
  ev_at :: int
  ev_value :: 'v

definition ranges_cmp :: "data_range \<Rightarrow> data_range \<Rightarrow> int" where
  "ranges_cmp a b = (let diff = dr_start a - dr_start b in
     if diff < 0 then -1 else if diff > 0 then 1 else 0)"

definition events_cmp :: "'v event \<Rightarrow> 'v event \<Rightarrow> int" where
  "events_cmp a b = (let diff = ev_at a - ev_at b in
     if diff < 0 then -1 else if diff > 0 then 1 else 0)"

text \<open>\<open>list.sort(cmp)\<close>: stable insertion by a three-way comparison.\<close>

fun insert_cmp :: "('a \<Rightarrow> 'a \<Rightarrow> int) \<Rightarrow> 'a \<Rightarrow> 'a list \<Rightarrow> 'a list" where
  "insert_cmp c x [] = [x]"
| "insert_cmp c x (y # ys) = (if c x y \<le> 0 then x # y # ys else y # insert_cmp c x ys)"

fun sort_cmp :: "('a \<Rightarrow> 'a \<Rightarrow> int) \<Rightarrow> 'a list \<Rightarrow> 'a list" where
  "sort_cmp c [] = []"
| "sort_cmp c (x # xs) = insert_cmp c x (sort_cmp c xs)"

text \<open>A slice \<open>xs[a:b]\<close> with bounds that are not negative.\<close>

definition slice :: "'a list \<Rightarrow> int \<Rightarrow> int \<Rightarrow> 'a list" where
  "slice xs a b = take (nat b - nat a) (drop (nat a) xs)"

section \<open>A row of ranges\<close>

record timeline_data_range =
  tdr_name :: string
  tdr_ranges :: "data_range list"

definition new_tdr :: "string \<Rightarrow> timeline_data_range" where
  "new_tdr name = \<lparr>tdr_name = name, tdr_ranges = []\<rparr>"

function range_search_loop :: "data_range list \<Rightarrow> pynum \<Rightarrow> int \<Rightarrow> int \<Rightarrow> int" where
  "range_search_loop ranges key l u =
     (if l \<le> u then
        let i = (l + u) div 2; r = ranges ! nat i in
        if key \<ge> PInt (dr_start r) \<and> key \<le> PInt (dr_end r) then i
        else if key < PInt (dr_start r) then range_search_loop ranges key l (i - 1)
        else range_search_loop ranges key (i + 1) u
      else - 1)"
  by pat_completeness auto
termination
  by (relation "measure (\<lambda>(rs, k, l, u). nat (u - l + 1))") auto

declare range_search_loop.simps [simp del]

definition range_search :: "timeline_data_range \<Rightarrow> pynum \<Rightarrow> int" where
  "range_search t key = range_search_loop (tdr_ranges t) key 0 (int (length (tdr_ranges t)) - 1)"

definition add_range :: "timeline_data_range \<Rightarrow> data_range \<Rightarrow> timeline_data_range" where
  "add_range t r = t\<lparr>tdr_ranges := tdr_ranges t @ [r]\<rparr>"

definition get_ranges :: "timeline_data_range \<Rightarrow> pynum \<Rightarrow> pynum \<Rightarrow> data_range list" where
  "get_ranges t start fin =
     (let s = range_search t start; e = range_search t fin in
      if s = - 1 \<and> e = - 1 then []
      else if s = - 1 then slice (tdr_ranges t) 0 (e + 1)
      else if e = - 1 then slice (tdr_ranges t) s (int (length (tdr_ranges t)))
      else slice (tdr_ranges t) s (e + 1))"

definition get_ranges_bounds :: "timeline_data_range \<Rightarrow> pynum \<Rightarrow> pynum \<Rightarrow> int \<times> int" where
  "get_ranges_bounds t start fin =
     (let s = range_search t start; e = range_search t fin in
      if s = - 1 \<and> e = - 1 then (0, 0)
      else if s = - 1 then (0, e + 1)
      else if e = - 1 then (s, int (length (tdr_ranges t)))
      else (s, e + 1))"

definition tdr_sort :: "timeline_data_range \<Rightarrow> timeline_data_range" where
  "tdr_sort t = t\<lparr>tdr_ranges := sort_cmp ranges_cmp (tdr_ranges t)\<rparr>"

definition tdr_bounds :: "timeline_data_range \<Rightarrow> int \<times> int" where
  "tdr_bounds t = (if length (tdr_ranges t) > 0
     then (dr_start (tdr_ranges t ! 0), dr_end (tdr_ranges t ! (length (tdr_ranges t) - 1)))
     else (0, 0))"

section \<open>A row of events\<close>

record 'v timeline_event =
  te_name :: string
  te_events :: "'v event list"

definition new_te :: "string \<Rightarrow> 'v timeline_event" where
  "new_te name = \<lparr>te_name = name, te_events = []\<rparr>"

function event_search_loop :: "'v event list \<Rightarrow> pynum \<Rightarrow> int \<Rightarrow> int \<Rightarrow> int" where
  "event_search_loop events key l u =
     (if l \<le> u then
        let i = (l + u) div 2; a = PInt (ev_at (events ! nat i)) in
        if num_val key = num_val a then i
        else if key < a then event_search_loop events key l (i - 1)
        else event_search_loop events key (i + 1) u
      else l)"
  by pat_completeness auto
termination
  by (relation "measure (\<lambda>(es, k, l, u). nat (u - l + 1))") auto

declare event_search_loop.simps [simp del]

definition event_search :: "'v timeline_event \<Rightarrow> pynum \<Rightarrow> int" where
  "event_search t key = event_search_loop (te_events t) key 0 (int (length (te_events t)) - 1)"

definition add_event :: "'v timeline_event \<Rightarrow> 'v event \<Rightarrow> 'v timeline_event" where
  "add_event t e = t\<lparr>te_events := te_events t @ [e]\<rparr>"

definition get_events :: "'v timeline_event \<Rightarrow> pynum \<Rightarrow> pynum \<Rightarrow> 'v event list" where
  "get_events t start fin =
     (let s = event_search t start; e = event_search t fin in slice (te_events t) s (e + 1))"

definition get_events_bounds :: "'v timeline_event \<Rightarrow> pynum \<Rightarrow> pynum \<Rightarrow> int \<times> int" where
  "get_events_bounds t start fin =
     (let s = event_search t start; e = event_search t fin in (s, e + 1))"

definition te_sort :: "'v timeline_event \<Rightarrow> 'v timeline_event" where
  "te_sort t = t\<lparr>te_events := sort_cmp events_cmp (te_events t)\<rparr>"

definition te_bounds :: "'v timeline_event \<Rightarrow> int \<times> int" where
  "te_bounds t = (if length (te_events t) > 0
     then (ev_at (te_events t ! 0), ev_at (last (te_events t)))
     else (0, 0))"

section \<open>Timelines\<close>

record timeline =
  tl_name :: string
  tl_ranges :: "timeline_data_range list"
  tl_event_str :: "string timeline_event list"
  tl_event_int :: "int timeline_event list"

definition new_timeline :: "string \<Rightarrow> timeline" where
  "new_timeline name = \<lparr>tl_name = name, tl_ranges = [], tl_event_str = [], tl_event_int = []\<rparr>"

text \<open>
  The lookups by name: the first entry of that name, or a new one at the end.  The result
  is the list afterwards and the index of the entry.
\<close>

fun find_or_add :: "('a \<Rightarrow> string) \<Rightarrow> (string \<Rightarrow> 'a) \<Rightarrow> string \<Rightarrow> 'a list \<Rightarrow> 'a list \<times> nat" where
  "find_or_add nm mk name [] = ([mk name], 0)"
| "find_or_add nm mk name (x # xs) =
     (if nm x = name then (x # xs, 0)
      else (case find_or_add nm mk name xs of (ys, i) \<Rightarrow> (x # ys, Suc i)))"

definition timeline_get_range :: "timeline \<Rightarrow> string \<Rightarrow> timeline \<times> nat" where
  "timeline_get_range t name = (case find_or_add tdr_name new_tdr name (tl_ranges t) of
     (rs, i) \<Rightarrow> (t\<lparr>tl_ranges := rs\<rparr>, i))"

definition timeline_get_event_str :: "timeline \<Rightarrow> string \<Rightarrow> timeline \<times> nat" where
  "timeline_get_event_str t name = (case find_or_add te_name new_te name (tl_event_str t) of
     (es, i) \<Rightarrow> (t\<lparr>tl_event_str := es\<rparr>, i))"

definition timeline_get_event_int :: "timeline \<Rightarrow> string \<Rightarrow> timeline \<times> nat" where
  "timeline_get_event_int t name = (case find_or_add te_name new_te name (tl_event_int t) of
     (es, i) \<Rightarrow> (t\<lparr>tl_event_int := es\<rparr>, i))"

definition timeline_sort :: "timeline \<Rightarrow> timeline" where
  "timeline_sort t = t\<lparr>tl_ranges := map tdr_sort (tl_ranges t),
     tl_event_int := map te_sort (tl_event_int t),
     tl_event_str := map te_sort (tl_event_str t)\<rparr>"

text \<open>One step of the loops that widen \<open>(lo, hi)\<close>.\<close>

definition widen :: "int \<times> int \<Rightarrow> int \<times> int \<Rightarrow> int \<times> int" where
  "widen b r = (if fst r < fst b then fst r else fst b, if snd r > snd b then snd r else snd b)"

definition timeline_bounds :: "timeline \<Rightarrow> int \<times> int" where
  "timeline_bounds t =
     foldl widen (foldl widen (foldl widen (0, 0) (map tdr_bounds (tl_ranges t)))
       (map te_bounds (tl_event_str t))) (map te_bounds (tl_event_int t))"

type_synonym timelines = "timeline list"

definition timelines_get :: "timelines \<Rightarrow> string \<Rightarrow> timelines \<times> nat" where
  "timelines_get ts name = find_or_add tl_name new_timeline name ts"

definition timelines_sort :: "timelines \<Rightarrow> timelines" where
  "timelines_sort ts = map timeline_sort ts"

definition timelines_bounds :: "timelines \<Rightarrow> int \<times> int" where
  "timelines_bounds ts = foldl widen (0, 0) (map timeline_bounds ts)"

text \<open>
  The keys of a dictionary that is stored to for every range of every timeline.  Python 2
  iterates over a dictionary in an order of its own: \<open>order\<close> is that permutation.
\<close>

definition get_all_range_values :: "(string list \<Rightarrow> string list) \<Rightarrow> timelines \<Rightarrow> string list" where
  "get_all_range_values order ts =
     order (map fst (foldl (\<lambda>d v. dict_set v (1::int) d) []
       (concat (map (\<lambda>t. concat (map (\<lambda>rs. map dr_value (tdr_ranges rs)) (tl_ranges t))) ts))))"

section \<open>Colours\<close>

record color =
  c_r :: pynum
  c_g :: pynum
  c_b :: pynum

definition rgb :: "int \<Rightarrow> int \<Rightarrow> int \<Rightarrow> color" where
  "rgb r g b = \<lparr>c_r = PInt r, c_g = PInt g, c_b = PInt b\<rparr>"

text \<open>\<open>default_colors\<close> belongs to the class and is consumed from its end.\<close>

record colors =
  co_colors :: "(string \<times> color) list"
  co_default :: "color list"

definition default_colors :: "color list" where
  "default_colors = [rgb 1 0 0, rgb 0 1 0, rgb 0 0 1, rgb 1 1 0, rgb 1 0 1, rgb 0 1 1]"

definition new_colors :: colors where
  "new_colors = \<lparr>co_colors = [], co_default = default_colors\<rparr>"

definition colors_add :: "colors \<Rightarrow> string \<Rightarrow> color \<Rightarrow> colors" where
  "colors_add cs name c = cs\<lparr>co_colors := dict_set name c (co_colors cs)\<rparr>"

definition colors_lookup :: "colors \<Rightarrow> string \<Rightarrow> (color \<times> colors) res" where
  "colors_lookup cs name =
     res_bind
       (if \<not> dict_has (co_colors cs) name then
          (if co_default cs = [] then Inl IndexError
           else Inr (colors_add (cs\<lparr>co_default := butlast (co_default cs)\<rparr>) name (last (co_default cs))))
        else Inr cs)
       (\<lambda>cs'. case map_of (co_colors cs') name of
           Some c \<Rightarrow> Inr (c, cs') | None \<Rightarrow> Inl KeyError)"

section \<open>Reading the data file\<close>

definition nonblank :: "char \<Rightarrow> bool" where
  "nonblank c \<longleftrightarrow> c \<noteq> CHR '' ''"

definition re_word :: "string \<Rightarrow> (string \<times> string) option" where
  "re_word s = re_plus nonblank s"

definition re_num :: "string \<Rightarrow> (int \<times> string) option" where
  "re_num s = map_option (\<lambda>(d, r). (int (nat_of_digits d), r)) (re_plus is_digit s)"

definition re_range :: "string \<Rightarrow> (string \<times> string \<times> string \<times> int \<times> int) option" where
  "re_range line =
     Option.bind (re_lit ''range '' line) (\<lambda>s.
     Option.bind (re_word s) (\<lambda>(a, s). Option.bind (re_lit '' '' s) (\<lambda>s.
     Option.bind (re_word s) (\<lambda>(b, s). Option.bind (re_lit '' '' s) (\<lambda>s.
     Option.bind (re_word s) (\<lambda>(v, s). Option.bind (re_lit '' '' s) (\<lambda>s.
     Option.bind (re_num s) (\<lambda>(st, s). Option.bind (re_lit '' '' s) (\<lambda>s.
     Option.bind (re_num s) (\<lambda>(en, s). Some (a, b, v, st, en)))))))))))"

definition re_event_str :: "string \<Rightarrow> (string \<times> string \<times> string \<times> int) option" where
  "re_event_str line =
     Option.bind (re_lit ''event-str '' line) (\<lambda>s.
     Option.bind (re_word s) (\<lambda>(a, s). Option.bind (re_lit '' '' s) (\<lambda>s.
     Option.bind (re_word s) (\<lambda>(b, s). Option.bind (re_lit '' '' s) (\<lambda>s.
     Option.bind (re_word s) (\<lambda>(v, s). Option.bind (re_lit '' '' s) (\<lambda>s.
     Option.bind (re_num s) (\<lambda>(t, s). Some (a, b, v, t)))))))))"

definition re_event_int :: "string \<Rightarrow> (string \<times> string \<times> int \<times> int) option" where
  "re_event_int line =
     Option.bind (re_lit ''event-int '' line) (\<lambda>s.
     Option.bind (re_word s) (\<lambda>(a, s). Option.bind (re_lit '' '' s) (\<lambda>s.
     Option.bind (re_word s) (\<lambda>(b, s). Option.bind (re_lit '' '' s) (\<lambda>s.
     Option.bind (re_num s) (\<lambda>(v, s). Option.bind (re_lit '' '' s) (\<lambda>s.
     Option.bind (re_num s) (\<lambda>(t, s). Some (a, b, v, t)))))))))"

definition hex_val :: "char \<Rightarrow> int option" where
  "hex_val c = (let n = (of_char c :: nat) in
     if 48 \<le> n \<and> n \<le> 57 then Some (int n - 48)
     else if 65 \<le> n \<and> n \<le> 70 then Some (int n - 55)
     else if 97 \<le> n \<and> n \<le> 102 then Some (int n - 87) else None)"

fun re_hex2 :: "string \<Rightarrow> (int \<times> string) option" where
  "re_hex2 (x # y # s) = (case (hex_val x, hex_val y) of
     (Some a, Some b) \<Rightarrow> Some (16 * a + b, s) | _ \<Rightarrow> None)"
| "re_hex2 s = None"

definition re_color :: "string \<Rightarrow> (string \<times> int \<times> int \<times> int) option" where
  "re_color line =
     Option.bind (re_lit ''color '' line) (\<lambda>s.
     Option.bind (re_word s) (\<lambda>(a, s). Option.bind (re_lit '' #'' s) (\<lambda>s.
     Option.bind (re_hex2 s) (\<lambda>(r, s). Option.bind (re_hex2 s) (\<lambda>(g, s).
     Option.bind (re_hex2 s) (\<lambda>(b, s). Some (a, r, g, b)))))))"

definition put_range :: "timelines \<Rightarrow> string \<Rightarrow> string \<Rightarrow> data_range \<Rightarrow> timelines" where
  "put_range ts tn rn r = (case timelines_get ts tn of (ts', i) \<Rightarrow>
     (case timeline_get_range (ts' ! i) rn of (t', j) \<Rightarrow>
        ts'[i := t'\<lparr>tl_ranges := (tl_ranges t')[j := add_range (tl_ranges t' ! j) r]\<rparr>]))"

definition put_event_str :: "timelines \<Rightarrow> string \<Rightarrow> string \<Rightarrow> string event \<Rightarrow> timelines" where
  "put_event_str ts tn en e = (case timelines_get ts tn of (ts', i) \<Rightarrow>
     (case timeline_get_event_str (ts' ! i) en of (t', j) \<Rightarrow>
        ts'[i := t'\<lparr>tl_event_str := (tl_event_str t')[j := add_event (tl_event_str t' ! j) e]\<rparr>]))"

definition put_event_int :: "timelines \<Rightarrow> string \<Rightarrow> string \<Rightarrow> int event \<Rightarrow> timelines" where
  "put_event_int ts tn en e = (case timelines_get ts tn of (ts', i) \<Rightarrow>
     (case timeline_get_event_int (ts' ! i) en of (t', j) \<Rightarrow>
        ts'[i := t'\<lparr>tl_event_int := (tl_event_int t')[j := add_event (tl_event_int t' ! j) e]\<rparr>]))"

definition read_line :: "colors \<times> timelines \<Rightarrow> string \<Rightarrow> colors \<times> timelines" where
  "read_line st line = (case st of (cs, ts) \<Rightarrow>
     (case re_range line of
        Some (a, b, v, s, e) \<Rightarrow> (cs, put_range ts a b \<lparr>dr_start = s, dr_end = e, dr_value = v\<rparr>)
      | None \<Rightarrow>
     (case re_event_str line of
        Some (a, b, v, t) \<Rightarrow> (cs, put_event_str ts a b \<lparr>ev_at = t, ev_value = v\<rparr>)
      | None \<Rightarrow>
     (case re_event_int line of
        Some (a, b, v, t) \<Rightarrow> (cs, put_event_int ts a b \<lparr>ev_at = t, ev_value = v\<rparr>)
      | None \<Rightarrow>
     (case re_color line of
        Some (a, r, g, b) \<Rightarrow> (colors_add cs a (rgb (r div 255) (g div 255) (b div 255)), ts)
      | None \<Rightarrow> (cs, ts))))))"

definition read_data :: "string list \<Rightarrow> colors \<times> timelines" where
  "read_data lines = (case foldl read_line (new_colors, []) lines of
     (cs, ts) \<Rightarrow> (cs, timelines_sort ts))"

section \<open>Sorting by a three-way comparison\<close>

locale key_cmp =
  fixes c :: "'a \<Rightarrow> 'a \<Rightarrow> int" and key :: "'a \<Rightarrow> int"
  assumes cmp_le: "c x y \<le> 0 \<longleftrightarrow> key x \<le> key y"
begin

lemma insert_is_insort: "insert_cmp c x ys = insort_key key x ys"
  by (induction ys) (auto simp: cmp_le)

lemma sort_is_sort_key: "sort_cmp c xs = sort_key key xs"
  by (induction xs) (auto simp: insert_is_insort)

lemma sort_sorted: "sorted (map key (sort_cmp c xs))"
  by (simp add: sort_is_sort_key)

lemma sort_perm: "mset (sort_cmp c xs) = mset xs"
  by (simp add: sort_is_sort_key)

lemma sort_stable: "filter (\<lambda>x. key x = k) (sort_cmp c xs) = filter (\<lambda>x. key x = k) xs"
  unfolding sort_is_sort_key by (rule sort_key_stable)

end

interpretation range_order: key_cmp ranges_cmp dr_start
  by unfold_locales (simp add: ranges_cmp_def Let_def)

interpretation event_order: key_cmp events_cmp ev_at
  by unfold_locales (simp add: events_cmp_def Let_def)

text \<open>Sorting a timeline puts every row of ranges in the order of their start times and
  every row of events in the order of their times, keeps all of them with their
  multiplicity, and keeps the order of entries of the same time.\<close>

theorem timeline_sort_spec:
  "list_all2 (\<lambda>t t'. tdr_name t' = tdr_name t \<and> sorted (map dr_start (tdr_ranges t')) \<and>
      mset (tdr_ranges t') = mset (tdr_ranges t) \<and>
      (\<forall>k. filter (\<lambda>r. dr_start r = k) (tdr_ranges t') = filter (\<lambda>r. dr_start r = k) (tdr_ranges t)))
    (tl_ranges w) (tl_ranges (timeline_sort w)) \<and>
   list_all2 (\<lambda>t t'. te_name t' = te_name t \<and> sorted (map ev_at (te_events t')) \<and>
      mset (te_events t') = mset (te_events t) \<and>
      (\<forall>k. filter (\<lambda>e. ev_at e = k) (te_events t') = filter (\<lambda>e. ev_at e = k) (te_events t)))
    (tl_event_int w) (tl_event_int (timeline_sort w)) \<and>
   list_all2 (\<lambda>t t'. te_name t' = te_name t \<and> sorted (map ev_at (te_events t')) \<and>
      mset (te_events t') = mset (te_events t) \<and>
      (\<forall>k. filter (\<lambda>e. ev_at e = k) (te_events t') = filter (\<lambda>e. ev_at e = k) (te_events t)))
    (tl_event_str w) (tl_event_str (timeline_sort w))"
  by (simp add: timeline_sort_def tdr_sort_def te_sort_def list_all2_map2 list.rel_refl
      range_order.sort_sorted range_order.sort_perm range_order.sort_stable
      event_order.sort_sorted event_order.sort_perm event_order.sort_stable)

section \<open>The search among ranges\<close>

text \<open>Ranges in order that do not touch, each with its start before its end.\<close>

definition ranges_ok :: "data_range list \<Rightarrow> bool" where
  "ranges_ok rs \<longleftrightarrow> sorted_wrt (\<lambda>a b. dr_end a < dr_start b) rs \<and> (\<forall>r \<in> set rs. dr_start r \<le> dr_end r)"

definition covers :: "data_range \<Rightarrow> pynum \<Rightarrow> bool" where
  "covers r key \<longleftrightarrow> PInt (dr_start r) \<le> key \<and> key \<le> PInt (dr_end r)"

definition overlaps :: "data_range \<Rightarrow> pynum \<Rightarrow> pynum \<Rightarrow> bool" where
  "overlaps r start fin \<longleftrightarrow> PInt (dr_start r) \<le> fin \<and> start \<le> PInt (dr_end r)"

lemma ranges_ok_nth:
  assumes "ranges_ok rs" and "i < j" and "j < length rs"
  shows "dr_end (rs ! i) < dr_start (rs ! j)"
  using assms by (auto simp: ranges_ok_def sorted_wrt_iff_nth_less)

lemma ranges_ok_nth': "ranges_ok rs \<Longrightarrow> i < length rs \<Longrightarrow> dr_start (rs ! i) \<le> dr_end (rs ! i)"
  by (auto simp: ranges_ok_def)

lemma covers_nat:
  "covers r key \<longleftrightarrow> of_int (dr_start r) \<le> num_val key \<and> num_val key \<le> of_int (dr_end r)"
  by (simp add: covers_def num_simps)

lemma range_search_loop_spec:
  "ranges_ok rs \<Longrightarrow> 0 \<le> l \<Longrightarrow> u < int (length rs) \<Longrightarrow>
    (\<And>j. j < nat l \<Longrightarrow> j < length rs \<Longrightarrow> of_int (dr_end (rs ! j)) < num_val key) \<Longrightarrow>
    (\<And>j. int j > u \<Longrightarrow> j < length rs \<Longrightarrow> num_val key < of_int (dr_start (rs ! j))) \<Longrightarrow>
    (let i = range_search_loop rs key l u in
      if i = - 1 then (\<forall>j < length rs. \<not> covers (rs ! j) key)
      else 0 \<le> i \<and> i < int (length rs) \<and> covers (rs ! nat i) key)"
proof (induction rs key l u rule: range_search_loop.induct)
  case (1 rs key l u)
  note IH = "1.IH" and ok' = "1.prems"(1) and prems = "1.prems"(2-)
  define i where "i = (l + u) div 2"
  have eq: "range_search_loop rs key l u =
     (if l \<le> u then if covers (rs ! nat i) key then i
        else if num_val key < of_int (dr_start (rs ! nat i)) then range_search_loop rs key l (i - 1)
        else range_search_loop rs key (i + 1) u
      else - 1)"
    by (subst range_search_loop.simps) (simp add: i_def Let_def covers_def num_simps)
  show ?case
  proof (cases "l \<le> u")
    case False
    have "\<not> covers (rs ! j) key" if j: "j < length rs" for j
    proof (cases "int j > u")
      case True
      with prems(4) [of j] j show ?thesis by (auto simp: covers_nat)
    next
      case le: False
      with False have "j < nat l" by linarith
      with prems(3) [of j] j show ?thesis by (auto simp: covers_nat)
    qed
    with False eq show ?thesis by simp
  next
    case True
    with prems have i: "l \<le> i" "i \<le> u" "0 \<le> i" "i < int (length rs)" by (auto simp: i_def)
    then have ni: "nat i < length rs" by linarith
    show ?thesis
    proof (cases "covers (rs ! nat i) key")
      case True
      with eq \<open>l \<le> u\<close> i show ?thesis by simp
    next
      case nc: False
      show ?thesis
      proof (cases "num_val key < of_int (dr_start (rs ! nat i))")
        case True
        have up: "num_val key < of_int (dr_start (rs ! j))" if "int j > i - 1" "j < length rs" for j
        proof (cases "j = nat i")
          case False
          with that i have "nat i < j" by linarith
          have "dr_start (rs ! nat i) \<le> dr_end (rs ! nat i)" by (rule ranges_ok_nth' [OF ok' ni])
          also have "\<dots> < dr_start (rs ! j)" using ok' \<open>nat i < j\<close> that(2) by (rule ranges_ok_nth)
          finally have "dr_start (rs ! nat i) \<le> dr_start (rs ! j)" by simp
          with True show ?thesis by (meson of_int_le_iff order_less_le_trans)
        qed (use True in simp)
        have "\<not> (key \<ge> PInt (dr_start (rs ! nat i)) \<and> key \<le> PInt (dr_end (rs ! nat i)))"
          using nc by (simp add: covers_def)
        from IH(1) [OF \<open>l \<le> u\<close> i_def refl this [folded i_def]] True ok' prems up i
        show ?thesis using eq \<open>l \<le> u\<close> nc by (simp add: num_simps)
      next
        case False
        with nc have gt: "of_int (dr_end (rs ! nat i)) < num_val key" by (simp add: covers_nat)
        have down: "of_int (dr_end (rs ! j)) < num_val key" if "j < nat (i + 1)" "j < length rs" for j
        proof (cases "j = nat i")
          case False
          with that i have "j < nat i" by linarith
          have "dr_end (rs ! j) < dr_start (rs ! nat i)" using ok' \<open>j < nat i\<close> ni by (rule ranges_ok_nth)
          also have "\<dots> \<le> dr_end (rs ! nat i)" by (rule ranges_ok_nth' [OF ok' ni])
          finally have "dr_end (rs ! j) \<le> dr_end (rs ! nat i)" by simp
          with gt show ?thesis by (meson of_int_le_iff order_le_less_trans)
        qed (use gt in simp)
        have "\<not> (key \<ge> PInt (dr_start (rs ! nat i)) \<and> key \<le> PInt (dr_end (rs ! nat i)))"
          using nc by (simp add: covers_def)
        from IH(2) [OF \<open>l \<le> u\<close> i_def refl this [folded i_def]] False ok' prems down i
        show ?thesis using eq \<open>l \<le> u\<close> nc by (simp add: num_simps)
      qed
    qed
  qed
qed

lemma range_search_spec:
  assumes "ranges_ok (tdr_ranges t)"
  shows "range_search t key = - 1 \<Longrightarrow> r \<in> set (tdr_ranges t) \<Longrightarrow> \<not> covers r key"
    and "range_search t key \<noteq> - 1 \<Longrightarrow> 0 \<le> range_search t key \<and>
      range_search t key < int (length (tdr_ranges t)) \<and> covers (tdr_ranges t ! nat (range_search t key)) key"
  using range_search_loop_spec [OF assms, of 0 "int (length (tdr_ranges t)) - 1" key]
  by (auto simp: range_search_def Let_def in_set_conv_nth split: if_splits)


definition demo_row :: timeline_data_range where
  "demo_row = \<lparr>tdr_name = ''node0'', tdr_ranges =
     [new_data_range 1 3 ''tx'', new_data_range 5 6 ''rx'', new_data_range 9 9 ''idle'']\<rparr>"

lemma demo_row_ok: "ranges_ok (tdr_ranges demo_row)"
  by (simp add: demo_row_def ranges_ok_def new_data_range_def)


section \<open>The window of ranges\<close>

lemma get_ranges_slice:
  "get_ranges t start fin = (case get_ranges_bounds t start fin of (lo, hi) \<Rightarrow> slice (tdr_ranges t) lo hi)"
  by (simp add: get_ranges_def get_ranges_bounds_def Let_def slice_def)

lemma nth_in_slice: "nat a \<le> i \<Longrightarrow> i < nat b \<Longrightarrow> i < length xs \<Longrightarrow> xs ! i \<in> set (slice xs a b)"
  unfolding slice_def in_set_conv_nth by (rule exI [of _ "i - nat a"]) auto

text \<open>When some range covers the start or the end of the window, the selected slice misses
  no range that overlaps the window.\<close>

theorem range_window_complete:
  assumes ok: "ranges_ok (tdr_ranges t)"
    and hit: "\<exists>h \<in> set (tdr_ranges t). covers h start \<or> covers h fin"
    and r: "r \<in> set (tdr_ranges t)" "overlaps r start fin"
  shows "r \<in> set (get_ranges t start fin)"
proof -
  let ?rs = "tdr_ranges t" and ?s = "range_search t start" and ?e = "range_search t fin"
  obtain i where i: "i < length ?rs" "?rs ! i = r" using r(1) by (auto simp: in_set_conv_nth)
  have ov: "of_int (dr_start r) \<le> num_val fin" "num_val start \<le> of_int (dr_end r)"
    using r(2) by (auto simp: overlaps_def num_simps)
  have low: "nat ?s \<le> i" if "?s \<noteq> - 1"
  proof (rule ccontr)
    assume "\<not> nat ?s \<le> i"
    with ranges_ok_nth [OF ok, of i "nat ?s"] range_search_spec(2) [OF ok that]
    have "dr_end r < dr_start (?rs ! nat ?s)" "of_int (dr_start (?rs ! nat ?s)) \<le> num_val start"
      using i by (auto simp: covers_nat nat_less_iff)
    with ov show False by (meson of_int_less_iff not_less order_trans)
  qed
  have high: "i < nat (?e + 1)" if "?e \<noteq> - 1"
  proof (rule ccontr)
    assume a: "\<not> i < nat (?e + 1)"
    from range_search_spec(2) [OF ok that] have e: "0 \<le> ?e" "num_val fin \<le> of_int (dr_end (?rs ! nat ?e))"
      by (auto simp: covers_nat)
    with a have "nat ?e < i" by linarith
    with ranges_ok_nth [OF ok, of "nat ?e" i] i have "dr_end (?rs ! nat ?e) < dr_start r" by simp
    with e ov show False by (meson of_int_less_iff not_less order_trans)
  qed
  have "\<not> (?s = - 1 \<and> ?e = - 1)" using hit range_search_spec(1) [OF ok] by blast
  then show ?thesis
    using low high i nth_in_slice [of _ i _ ?rs] by (auto simp: get_ranges_def Let_def)
qed

theorem range_window_complete_witness:
  "new_data_range 5 6 ''rx'' \<in> set (get_ranges demo_row (PInt 2) (PInt 8))"
  by (rule range_window_complete [OF demo_row_ok])
     (auto simp: demo_row_def new_data_range_def covers_def overlaps_def num_simps)

text \<open>When neither end of the window lies in a range the slice is empty, whatever lies
  between the two ends.\<close>

theorem range_window_gap_empty:
  assumes "ranges_ok (tdr_ranges t)"
    and "\<forall>h \<in> set (tdr_ranges t). \<not> covers h start \<and> \<not> covers h fin"
  shows "get_ranges t start fin = []"
  using range_search_spec(2) [OF assms(1)] assms(2)
  by (auto simp: get_ranges_def Let_def nat_less_iff) (metis nat_less_iff nth_mem)+

theorem range_window_gap_empty_witness:
  "get_ranges demo_row (PInt 4) (PInt 8) = [] \<and> overlaps (new_data_range 5 6 ''rx'') (PInt 4) (PInt 8)"
  by (rule conjI, rule range_window_gap_empty [OF demo_row_ok])
     (auto simp: demo_row_def new_data_range_def covers_def overlaps_def num_simps)

section \<open>The search among events\<close>

definition events_ok :: "'v event list \<Rightarrow> bool" where
  "events_ok es \<longleftrightarrow> sorted_wrt (\<lambda>a b. ev_at a < ev_at b) es"

lemma events_ok_nth: "events_ok es \<Longrightarrow> i < j \<Longrightarrow> j < length es \<Longrightarrow> ev_at (es ! i) < ev_at (es ! j)"
  by (auto simp: events_ok_def sorted_wrt_iff_nth_less)

lemma event_search_loop_spec:
  "events_ok es \<Longrightarrow> 0 \<le> l \<Longrightarrow> l \<le> u + 1 \<Longrightarrow> u < int (length es) \<Longrightarrow>
    (\<And>j. int j < l \<Longrightarrow> j < length es \<Longrightarrow> of_int (ev_at (es ! j)) < num_val key) \<Longrightarrow>
    (\<And>j. int j > u \<Longrightarrow> j < length es \<Longrightarrow> num_val key < of_int (ev_at (es ! j))) \<Longrightarrow>
    (let i = event_search_loop es key l u in 0 \<le> i \<and> i \<le> int (length es) \<and>
      (\<forall>j < length es. int j < i \<longleftrightarrow> of_int (ev_at (es ! j)) < num_val key))"
proof (induction es key l u rule: event_search_loop.induct)
  case (1 es key l u)
  note IH = "1.IH" and ok' = "1.prems"(1) and prems = "1.prems"(2-)
  define i where "i = (l + u) div 2"
  let ?at = "\<lambda>j. (of_int (ev_at (es ! j)) :: rat)"
  have eq: "event_search_loop es key l u =
     (if l \<le> u then if num_val key = ?at (nat i) then i
        else if num_val key < ?at (nat i) then event_search_loop es key l (i - 1)
        else event_search_loop es key (i + 1) u
      else l)"
    by (subst event_search_loop.simps) (simp add: i_def Let_def num_simps)
  show ?case
  proof (cases "l \<le> u")
    case False
    with prems(2) have lu: "u = l - 1" by simp
    have "(int j < l) = (?at j < num_val key)" if j: "j < length es" for j
    proof (cases "int j < l")
      case True
      with prems(4) [of j] j show ?thesis by simp
    next
      case ge: False
      with prems(5) [of j] j lu show ?thesis by simp
    qed
    with False eq prems show ?thesis by simp
  next
    case True
    with prems have i: "l \<le> i" "i \<le> u" "0 \<le> i" "i < int (length es)" by (auto simp: i_def)
    then have ni: "nat i < length es" and ii: "int (nat i) = i" by linarith+
    have before: "?at j < ?at (nat i)" if "int j < i" "j < length es" for j
      using events_ok_nth [OF ok', of j "nat i"] that ni ii by simp
    have after: "?at (nat i) < ?at j" if "i < int j" "j < length es" for j
      using events_ok_nth [OF ok', of "nat i" j] that ii by simp
    consider "num_val key = ?at (nat i)" | "num_val key < ?at (nat i)" | "num_val key > ?at (nat i)" by linarith
    then show ?thesis
    proof cases
      case 1
      have "(int j < i) = (?at j < num_val key)" if j: "j < length es" for j
        using before [of j] after [of j] j 1 ii by (cases "int j" i rule: linorder_cases) auto
      with 1 True eq i show ?thesis by simp
    next
      case 2
      have up: "num_val key < ?at j" if "int j > i - 1" "j < length es" for j
        using after [of j] that 2 ii by (cases "int j = i") fastforce+
      have step: "event_search_loop es key l u = event_search_loop es key l (i - 1)" using eq True 2 by simp
      have n1: "num_val key \<noteq> num_val (PInt (ev_at (es ! nat i)))" and n2: "key < PInt (ev_at (es ! nat i))"
        using 2 by (simp_all add: num_simps)
      show ?thesis unfolding step
        by (rule IH(1) [OF True i_def refl n1 n2 ok' prems(1) _ _ prems(4) up]) (use i in linarith)+
    next
      case 3
      have down: "?at j < num_val key" if "int j < i + 1" "j < length es" for j
        using before [of j] that 3 ii by (cases "int j = i") fastforce+
      have step: "event_search_loop es key l u = event_search_loop es key (i + 1) u" using eq True 3 by simp
      have n1: "num_val key \<noteq> num_val (PInt (ev_at (es ! nat i)))" and n2: "\<not> key < PInt (ev_at (es ! nat i))"
        using 3 by (simp_all add: num_simps)
      show ?thesis unfolding step
        by (rule IH(2) [OF True i_def refl n1 n2 ok' _ _ prems(3) down prems(5)]) (use i in linarith)+
    qed
  qed
qed

lemma event_search_spec:
  assumes "events_ok (te_events t)"
  shows "0 \<le> event_search t key" "event_search t key \<le> int (length (te_events t))"
    "j < length (te_events t) \<Longrightarrow> int j < event_search t key \<longleftrightarrow> PInt (ev_at (te_events t ! j)) < key"
  using event_search_loop_spec [OF assms, of 0 "int (length (te_events t)) - 1" key]
  by (auto simp: event_search_def Let_def num_simps)

text \<open>Splitting an ordered list at a time.\<close>

lemma take_drop_filter:
  assumes "n \<le> length xs" and "\<And>j. j < length xs \<Longrightarrow> j < n \<longleftrightarrow> P (xs ! j)"
  shows "take n xs = filter P xs" and "drop n xs = filter (\<lambda>x. \<not> P x) xs"
proof -
  have "P (xs ! j)" if "j < n" for j using assms(1) assms(2) [of j] that by simp
  then have t: "\<forall>x \<in> set (take n xs). P x" by (auto simp: in_set_conv_nth)
  have "\<not> P (xs ! j)" if "n \<le> j" "j < length xs" for j using assms(2) [of j] that by simp
  then have d: "\<forall>x \<in> set (drop n xs). \<not> P x" by (auto simp: in_set_conv_nth)
  have "filter P (take n xs @ drop n xs) = take n xs"
    unfolding filter_append using t d by (simp add: filter_id_conv filter_empty_conv)
  then show "take n xs = filter P xs" by simp
  have "filter (\<lambda>x. \<not> P x) (take n xs @ drop n xs) = drop n xs"
    unfolding filter_append using t d by (simp add: filter_id_conv filter_empty_conv)
  then show "drop n xs = filter (\<lambda>x. \<not> P x) xs" by simp
qed

lemma take_Suc_length: "take (Suc (length xs)) (xs @ ys) = xs @ take 1 ys"
  by simp

text \<open>On events with increasing times the window from \<open>start\<close> to \<open>fin\<close> selects exactly
  the events from \<open>start\<close> up to before \<open>fin\<close>, followed by the next event, if there is one:
  an event at \<open>fin\<close> itself, or else one event that lies after the window.\<close>

theorem event_window_spec:
  assumes ok: "events_ok (te_events t)" and le: "start \<le> fin"
  shows "get_events t start fin =
    filter (\<lambda>e. start \<le> PInt (ev_at e) \<and> PInt (ev_at e) < fin) (te_events t)
    @ take 1 (filter (\<lambda>e. fin \<le> PInt (ev_at e)) (te_events t))"
proof -
  let ?es = "te_events t" and ?s = "nat (event_search t start)" and ?e = "nat (event_search t fin)"
  let ?P = "\<lambda>k e. PInt (ev_at e) < k"
  note spec = event_search_spec [OF ok]
  have idx: "j < nat (event_search t k) \<longleftrightarrow> ?P k (?es ! j)" if "j < length ?es" for j k
    using spec(1) [of k] spec(3) [OF that, of k] by linarith
  have len: "nat (event_search t k) \<le> length ?es" for k
    using spec(2) [of k] by linarith
  note td = take_drop_filter [OF len idx]
  have "?s \<le> ?e"
  proof (rule ccontr)
    assume a: "\<not> ?s \<le> ?e"
    with len [of start] have "?e < length ?es" by linarith
    then have "?P start (?es ! ?e)" "\<not> ?P fin (?es ! ?e)"
      using idx [of ?e start] idx [of ?e fin] a by linarith+
    with le show False unfolding num_less num_le by linarith
  qed
  have "get_events t start fin = take (Suc ?e - ?s) (drop ?s ?es)"
    using spec(1) [of fin] spec(1) [of start]
    by (simp add: get_events_def slice_def Let_def Suc_nat_eq_nat_zadd1 add.commute)
  also have "\<dots> = drop ?s (take (Suc ?e) (take ?e ?es @ drop ?e ?es))"
    using \<open>?s \<le> ?e\<close> by (simp add: take_drop)
  also have "take (Suc ?e) (take ?e ?es @ drop ?e ?es) = take ?e ?es @ take 1 (drop ?e ?es)"
    using len [of fin] by (simp del: append_take_drop_id add: min_absorb2 Suc_diff_le)
  also have "drop ?s (take ?e ?es @ take 1 (drop ?e ?es)) = drop ?s (take ?e ?es) @ take 1 (drop ?e ?es)"
    using \<open>?s \<le> ?e\<close> len [of fin] by (simp add: min_absorb2)
  also have "drop ?s (take ?e ?es) = filter (\<lambda>e. \<not> ?P start e) (take ?e ?es)"
    using \<open>?s \<le> ?e\<close> len [of fin] idx by (intro take_drop_filter(2)) auto
  finally show ?thesis
    by (simp add: td conj_commute num_simps not_less)
qed

definition demo_events :: "int timeline_event" where
  "demo_events = \<lparr>te_name = ''cwnd'', te_events =
     [\<lparr>ev_at = 1, ev_value = 10\<rparr>, \<lparr>ev_at = 4, ev_value = 20\<rparr>, \<lparr>ev_at = 8, ev_value = 30\<rparr>, \<lparr>ev_at = 9, ev_value = 40\<rparr>]\<rparr>"

theorem event_window_spec_witness:
  "map ev_value (get_events demo_events (PInt 2) (PInt 6)) = [20, 30]"
proof -
  have ok: "events_ok (te_events demo_events)" by (simp add: demo_events_def events_ok_def)
  have le: "PInt 2 \<le> PInt 6" by (simp add: num_simps)
  show ?thesis
    unfolding event_window_spec [OF ok le] by (simp add: demo_events_def num_simps)
qed

lemma event_search_three:
  "event_search \<lparr>te_name = n, te_events = [\<lparr>ev_at = k, ev_value = a\<rparr>, \<lparr>ev_at = k, ev_value = b\<rparr>, e]\<rparr> (PInt k) = 1"
  unfolding event_search_def by (subst event_search_loop.simps) simp

text \<open>With two events at the same time the search stops at either of them: the window that
  starts at that time then misses the first of the two.\<close>

theorem event_window_misses_duplicate:
  "get_events \<lparr>te_name = n, te_events = [\<lparr>ev_at = k, ev_value = a\<rparr>, \<lparr>ev_at = k, ev_value = b\<rparr>, \<lparr>ev_at = k + 1, ev_value = c\<rparr>]\<rparr>
     (PInt k) (PInt k) = [\<lparr>ev_at = k, ev_value = b\<rparr>]"
  by (simp add: get_events_def event_search_three slice_def)

section \<open>Lookup by name\<close>

locale registry =
  fixes nm :: "'a \<Rightarrow> string" and mk :: "string \<Rightarrow> 'a"
  assumes nm_mk: "nm (mk n) = n"
begin

lemma entry: "find_or_add nm mk n xs = (ys, i) \<Longrightarrow> i < length ys \<and> nm (ys ! i) = n"
  by (induction xs arbitrary: ys i) (auto simp: nm_mk split: if_splits prod.splits)

lemma names: "find_or_add nm mk n xs = (ys, i) \<Longrightarrow>
    map nm ys = (if n \<in> set (map nm xs) then map nm xs else map nm xs @ [n])"
  by (induction xs arbitrary: ys i) (auto simp: nm_mk split: if_splits prod.splits)

lemma entries: "find_or_add nm mk n xs = (ys, i) \<Longrightarrow>
    ys = (if n \<in> set (map nm xs) then xs else xs @ [mk n])"
  by (induction xs arbitrary: ys i) (auto simp: nm_mk split: if_splits prod.splits)

lemma distinct_names: "find_or_add nm mk n xs = (ys, i) \<Longrightarrow> distinct (map nm xs) \<Longrightarrow> distinct (map nm ys)"
  using names [of n xs ys i] by simp

lemma again: "find_or_add nm mk n (fst (find_or_add nm mk n xs)) = find_or_add nm mk n xs"
proof (induction xs)
  case (Cons x xs)
  obtain ys i where "find_or_add nm mk n xs = (ys, i)" by fastforce
  with Cons show ?case by simp
qed (simp add: nm_mk)

lemma old_entry: "find_or_add nm mk n xs = (ys, i) \<Longrightarrow>
    ys ! i = (case find (\<lambda>x. nm x = n) xs of Some x \<Rightarrow> x | None \<Rightarrow> mk n)"
  by (induction xs arbitrary: ys i) (auto simp: nm_mk split: if_splits prod.splits)

lemma find_update: "find_or_add nm mk n xs = (ys, i) \<Longrightarrow> nm x' = n \<Longrightarrow>
    find (\<lambda>x. nm x = m) (ys[i := x']) = (if m = n then Some x' else find (\<lambda>x. nm x = m) xs)"
  by (induction xs arbitrary: ys i) (auto simp: nm_mk split: if_splits prod.splits)

lemma names_update: "find_or_add nm mk n xs = (ys, i) \<Longrightarrow> nm x' = n \<Longrightarrow>
    map nm (ys[i := x']) = (if n \<in> set (map nm xs) then map nm xs else map nm xs @ [n])"
  by (induction xs arbitrary: ys i) (auto simp: nm_mk split: if_splits prod.splits)

end

interpretation range_rows: registry tdr_name new_tdr
  by unfold_locales (simp add: new_tdr_def)

interpretation event_rows: registry te_name new_te
  by unfold_locales (simp add: new_te_def)

interpretation timeline_reg: registry tl_name new_timeline
  by unfold_locales (simp add: new_timeline_def)

section \<open>What the reader collects\<close>

definition find_timeline :: "timelines \<Rightarrow> string \<Rightarrow> timeline option" where
  "find_timeline ts a = find (\<lambda>t. tl_name t = a) ts"

definition find_row :: "timeline \<Rightarrow> string \<Rightarrow> timeline_data_range option" where
  "find_row t b = find (\<lambda>r. tdr_name r = b) (tl_ranges t)"

text \<open>The ranges of row \<open>b\<close> of timeline \<open>a\<close>; none if there is no such row.\<close>

definition ranges_of :: "timelines \<Rightarrow> string \<Rightarrow> string \<Rightarrow> data_range list" where
  "ranges_of ts a b = (case find_timeline ts a of None \<Rightarrow> []
     | Some t \<Rightarrow> (case find_row t b of None \<Rightarrow> [] | Some r \<Rightarrow> tdr_ranges r))"

lemma ranges_of_put_range:
  "ranges_of (put_range ts tn rn r) a b = ranges_of ts a b @ (if a = tn \<and> b = rn then [r] else [])"
proof -
  obtain ts' i where g: "timelines_get ts tn = (ts', i)" by fastforce
  obtain rs j where h: "find_or_add tdr_name new_tdr rn (tl_ranges (ts' ! i)) = (rs, j)" by fastforce
  note ti = timeline_reg.entry [OF g [unfolded timelines_get_def]]
    and told = timeline_reg.old_entry [OF g [unfolded timelines_get_def]]
    and tup = timeline_reg.find_update [OF g [unfolded timelines_get_def]]
    and ri = range_rows.entry [OF h] and rold = range_rows.old_entry [OF h]
    and rup = range_rows.find_update [OF h]
  let ?t = "(ts' ! i)\<lparr>tl_ranges := rs[j := add_range (rs ! j) r]\<rparr>"
  have p: "put_range ts tn rn r = ts'[i := ?t]"
    using g h by (simp add: put_range_def timeline_get_range_def)
  have "find_timeline (put_range ts tn rn r) a = (if a = tn then Some ?t else find_timeline ts a)"
    unfolding p find_timeline_def using ti by (intro tup) simp
  moreover have "find_row ?t b = (if b = rn then Some (add_range (rs ! j) r) else find_row (ts' ! i) b)"
    using rup [of "add_range (rs ! j) r" b] ri by (simp add: find_row_def add_range_def)
  moreover have "tdr_ranges (rs ! j) = ranges_of ts tn rn"
    using rold told by (auto simp: ranges_of_def find_timeline_def find_row_def new_tdr_def new_timeline_def split: option.splits)
  moreover have "(case find_row (ts' ! i) b of None \<Rightarrow> [] | Some r \<Rightarrow> tdr_ranges r) = ranges_of ts tn b"
    using told by (auto simp: ranges_of_def find_timeline_def find_row_def new_timeline_def split: option.splits)
  ultimately show ?thesis
    by (auto simp: ranges_of_def add_range_def split: option.splits)
qed

lemma ranges_of_update:
  assumes "timelines_get ts tn = (ts', i)" and "tl_name t = tn" and "tl_ranges t = tl_ranges (ts' ! i)"
  shows "ranges_of (ts'[i := t]) a b = ranges_of ts a b"
  using timeline_reg.find_update [OF assms(1) [unfolded timelines_get_def] assms(2), of a]
    timeline_reg.old_entry [OF assms(1) [unfolded timelines_get_def]] assms(3)
  by (auto simp: ranges_of_def find_timeline_def find_row_def new_timeline_def split: option.splits)

lemma ranges_of_put_event_str [simp]: "ranges_of (put_event_str ts tn en e) a b = ranges_of ts a b"
  using timeline_reg.entry [of tn ts]
  by (auto simp: put_event_str_def timeline_get_event_str_def timelines_get_def split: prod.splits
      intro!: ranges_of_update)

lemma ranges_of_put_event_int [simp]: "ranges_of (put_event_int ts tn en e) a b = ranges_of ts a b"
  using timeline_reg.entry [of tn ts]
  by (auto simp: put_event_int_def timeline_get_event_int_def timelines_get_def split: prod.splits
      intro!: ranges_of_update)

text \<open>The ranges a data file states for a row, in file order.\<close>

definition stated_range :: "string \<Rightarrow> string \<Rightarrow> string \<Rightarrow> data_range list" where
  "stated_range a b line = (case re_range line of
     Some (a', b', v, s, e) \<Rightarrow> (if a' = a \<and> b' = b then [\<lparr>dr_start = s, dr_end = e, dr_value = v\<rparr>] else [])
   | None \<Rightarrow> [])"

lemma ranges_of_read_line:
  "ranges_of (snd (read_line st line)) a b = ranges_of (snd st) a b @ stated_range a b line"
  by (auto simp: read_line_def stated_range_def ranges_of_put_range split: prod.splits option.splits)

lemma ranges_of_read_lines:
  "ranges_of (snd (foldl read_line st lines)) a b
     = ranges_of (snd st) a b @ concat (map (stated_range a b) lines)"
  by (induction lines arbitrary: st) (simp_all add: ranges_of_read_line)

lemma find_map: "(\<And>x. P (f x) = P x) \<Longrightarrow> find P (map f xs) = map_option f (find P xs)"
  by (induction xs) auto

lemma ranges_of_sort:
  "ranges_of (timelines_sort ts) a b = sort_key dr_start (ranges_of ts a b)"
proof -
  have "find_timeline (timelines_sort ts) a = map_option timeline_sort (find_timeline ts a)"
    unfolding find_timeline_def timelines_sort_def by (rule find_map) (simp add: timeline_sort_def)
  moreover have "find_row (timeline_sort t) b = map_option tdr_sort (find_row t b)" for t
    unfolding find_row_def timeline_sort_def by (simp add: find_map tdr_sort_def)
  ultimately show ?thesis
    by (auto simp: ranges_of_def tdr_sort_def range_order.sort_is_sort_key split: option.splits)
qed

text \<open>C19: after reading a data file, row \<open>b\<close> of timeline \<open>a\<close> holds exactly the ranges the file
  states for it, with their multiplicity, ordered by start and by file order among equals.\<close>

theorem read_data_collects_ranges:
  "ranges_of (snd (read_data lines)) a b = sort_key dr_start (concat (map (stated_range a b) lines))"
proof -
  have "ranges_of [] a b = []" by (simp add: ranges_of_def find_timeline_def)
  moreover have "snd (read_data lines) = timelines_sort (snd (foldl read_line (new_colors, []) lines))"
    by (simp add: read_data_def split: prod.splits)
  ultimately show ?thesis by (simp add: ranges_of_sort ranges_of_read_lines)
qed

lemma re_plus_takes:
  assumes "list_all P w" and "w \<noteq> []" and "\<not> P c"
  shows "re_plus P (w @ c # s) = Some (w, c # s)"
proof -
  have "takeWhile P (w @ c # s) = w" "dropWhile P (w @ c # s) = c # s"
    using assms by (simp_all add: list_all_iff takeWhile_append dropWhile_append)
  with assms(2) show ?thesis by (cases w) (simp_all add: re_plus_def)
qed

definition word_ok :: "string \<Rightarrow> bool" where
  "word_ok w \<longleftrightarrow> w \<noteq> [] \<and> list_all nonblank w"

lemma re_word_takes: "word_ok w \<Longrightarrow> re_word (w @ '' '' @ s) = Some (w, '' '' @ s)"
  by (simp add: re_word_def word_ok_def re_plus_takes nonblank_def)

lemma re_num_takes: "re_num (str_nat n @ '' '' @ s) = Some (int n, '' '' @ s)"
  by (simp add: re_num_def re_plus_digits not_digit_blank)

lemma re_num_line: "re_num (str_nat n @ nl) = Some (int n, nl)"
  by (simp add: re_num_def re_plus_digits)

text \<open>A printed range line is read back as the range it prints.\<close>

theorem range_line_roundtrip:
  assumes "word_ok a" and "word_ok b" and "word_ok v"
  shows "re_range (''range '' @ a @ '' '' @ b @ '' '' @ v @ '' '' @ str_nat s @ '' '' @ str_nat e @ nl)
    = Some (a, b, v, int s, int e)"
  using assms
  by (simp only: re_range_def re_lit_append re_word_takes re_num_takes re_num_line
      Option.bind.bind_lunit prod.case)

theorem range_line_roundtrip_witness:
  "re_range (''range '' @ ''wifi'' @ '' '' @ ''n0'' @ '' '' @ ''tx'' @ '' '' @ str_nat 100 @ '' '' @ str_nat 220 @ nl)
    = Some (''wifi'', ''n0'', ''tx'', int 100, int 220)"
  by (rule range_line_roundtrip) (simp_all add: word_ok_def nonblank_def)

section \<open>Names stay unique\<close>

definition names_ok :: "timelines \<Rightarrow> bool" where
  "names_ok ts \<longleftrightarrow> distinct (map tl_name ts) \<and>
     (\<forall>t \<in> set ts. distinct (map tdr_name (tl_ranges t)) \<and>
        distinct (map te_name (tl_event_str t)) \<and> distinct (map te_name (tl_event_int t)))"

definition rows_ok :: "timeline \<Rightarrow> bool" where
  "rows_ok t \<longleftrightarrow> distinct (map tdr_name (tl_ranges t)) \<and>
     distinct (map te_name (tl_event_str t)) \<and> distinct (map te_name (tl_event_int t))"

lemma names_ok_update:
  assumes "names_ok ts" and "timelines_get ts tn = (ts', i)"
  shows "rows_ok (ts' ! i)" and "tl_name (ts' ! i) = tn"
    and "tl_name t = tn \<Longrightarrow> rows_ok t \<Longrightarrow> names_ok (ts'[i := t])"
proof -
  note g = assms(2) [unfolded timelines_get_def]
  have all: "rows_ok x" if "x \<in> set ts'" for x
    using that assms(1) timeline_reg.entries [OF g]
    by (auto simp: names_ok_def rows_ok_def new_timeline_def split: if_splits)
  show "rows_ok (ts' ! i)" "tl_name (ts' ! i) = tn"
    using all timeline_reg.entry [OF g] by auto
  assume t: "tl_name t = tn" "rows_ok t"
  have "distinct (map tl_name (ts'[i := t]))"
    using timeline_reg.names_update [OF g t(1)] assms(1) by (simp add: names_ok_def)
  then show "names_ok (ts'[i := t])"
    using all t(2) unfolding names_ok_def rows_ok_def by (auto dest!: set_update_subset_insert [THEN subsetD])
qed

lemma rows_ok_add_range:
  assumes "rows_ok t" and "timeline_get_range t b = (t', j)"
  shows "rows_ok (t'\<lparr>tl_ranges := (tl_ranges t')[j := add_range (tl_ranges t' ! j) r]\<rparr>)"
    and "tl_name t' = tl_name t"
proof -
  obtain rs where f: "find_or_add tdr_name new_tdr b (tl_ranges t) = (rs, j)" "t' = t\<lparr>tl_ranges := rs\<rparr>"
    using assms(2) by (auto simp: timeline_get_range_def split: prod.splits)
  have "tdr_name (add_range (rs ! j) r) = b" using range_rows.entry [OF f(1)] by (simp add: add_range_def)
  from range_rows.names_update [OF f(1) this] assms(1) f(2)
  show "rows_ok (t'\<lparr>tl_ranges := (tl_ranges t')[j := add_range (tl_ranges t' ! j) r]\<rparr>)" "tl_name t' = tl_name t"
    by (simp_all add: rows_ok_def)
qed

lemma rows_ok_add_event_str:
  assumes "rows_ok t" and "timeline_get_event_str t b = (t', j)"
  shows "rows_ok (t'\<lparr>tl_event_str := (tl_event_str t')[j := add_event (tl_event_str t' ! j) e]\<rparr>)"
    and "tl_name t' = tl_name t"
proof -
  obtain es where f: "find_or_add te_name new_te b (tl_event_str t) = (es, j)" "t' = t\<lparr>tl_event_str := es\<rparr>"
    using assms(2) by (auto simp: timeline_get_event_str_def split: prod.splits)
  have "te_name (add_event (es ! j) e) = b" using event_rows.entry [OF f(1)] by (simp add: add_event_def)
  from event_rows.names_update [OF f(1) this] assms(1) f(2)
  show "rows_ok (t'\<lparr>tl_event_str := (tl_event_str t')[j := add_event (tl_event_str t' ! j) e]\<rparr>)" "tl_name t' = tl_name t"
    by (simp_all add: rows_ok_def)
qed

lemma rows_ok_add_event_int:
  assumes "rows_ok t" and "timeline_get_event_int t b = (t', j)"
  shows "rows_ok (t'\<lparr>tl_event_int := (tl_event_int t')[j := add_event (tl_event_int t' ! j) e]\<rparr>)"
    and "tl_name t' = tl_name t"
proof -
  obtain es where f: "find_or_add te_name new_te b (tl_event_int t) = (es, j)" "t' = t\<lparr>tl_event_int := es\<rparr>"
    using assms(2) by (auto simp: timeline_get_event_int_def split: prod.splits)
  have "te_name (add_event (es ! j) e) = b" using event_rows.entry [OF f(1)] by (simp add: add_event_def)
  from event_rows.names_update [OF f(1) this] assms(1) f(2)
  show "rows_ok (t'\<lparr>tl_event_int := (tl_event_int t')[j := add_event (tl_event_int t' ! j) e]\<rparr>)" "tl_name t' = tl_name t"
    by (simp_all add: rows_ok_def)
qed

lemma names_ok_put_range:
  assumes "names_ok ts"
  shows "names_ok (put_range ts a b r)"
proof -
  obtain ts' i where g: "timelines_get ts a = (ts', i)" by fastforce
  obtain t' j where h: "timeline_get_range (ts' ! i) b = (t', j)" by fastforce
  note r = rows_ok_add_range [OF names_ok_update(1) [OF assms g] h]
  show ?thesis using names_ok_update(2,3) [OF assms g] r g h by (simp add: put_range_def)
qed

lemma names_ok_put_event_str:
  assumes "names_ok ts"
  shows "names_ok (put_event_str ts a b e)"
proof -
  obtain ts' i where g: "timelines_get ts a = (ts', i)" by fastforce
  obtain t' j where h: "timeline_get_event_str (ts' ! i) b = (t', j)" by fastforce
  note r = rows_ok_add_event_str [OF names_ok_update(1) [OF assms g] h]
  show ?thesis using names_ok_update(2,3) [OF assms g] r g h by (simp add: put_event_str_def)
qed

lemma names_ok_put_event_int:
  assumes "names_ok ts"
  shows "names_ok (put_event_int ts a b e)"
proof -
  obtain ts' i where g: "timelines_get ts a = (ts', i)" by fastforce
  obtain t' j where h: "timeline_get_event_int (ts' ! i) b = (t', j)" by fastforce
  note r = rows_ok_add_event_int [OF names_ok_update(1) [OF assms g] h]
  show ?thesis using names_ok_update(2,3) [OF assms g] r g h by (simp add: put_event_int_def)
qed

lemma names_ok_read_line: "names_ok (snd st) \<Longrightarrow> names_ok (snd (read_line st line))"
  by (auto simp: read_line_def names_ok_put_range names_ok_put_event_str names_ok_put_event_int
      split: prod.splits option.splits)

lemma names_ok_read_lines: "names_ok (snd st) \<Longrightarrow> names_ok (snd (foldl read_line st lines))"
  by (induction lines arbitrary: st) (simp_all add: names_ok_read_line)

lemma names_ok_sort: "names_ok ts \<Longrightarrow> names_ok (timelines_sort ts)"
  by (simp add: names_ok_def timelines_sort_def timeline_sort_def tdr_sort_def te_sort_def comp_def)

text \<open>Whatever the data file holds, the timelines read from it have different names, and so
  have the rows of ranges and of either kind of event within a timeline.\<close>

theorem read_data_names_unique: "names_ok (snd (read_data lines))"
proof -
  have "snd (read_data lines) = timelines_sort (snd (foldl read_line (new_colors, []) lines))"
    by (simp add: read_data_def split: prod.splits)
  moreover have "names_ok (snd (new_colors, []))" by (simp add: names_ok_def)
  ultimately show ?thesis by (simp add: names_ok_sort names_ok_read_lines)
qed

section \<open>Colours\<close>

text \<open>The loop of \<open>main\<close> that gives every range value a colour.\<close>

fun lookup_each :: "colors \<Rightarrow> string list \<Rightarrow> (color list \<times> colors) res" where
  "lookup_each cs [] = Inr ([], cs)"
| "lookup_each cs (v # vs) = res_bind (colors_lookup cs v) (\<lambda>(c, cs').
     res_bind (lookup_each cs' vs) (\<lambda>(rest, cs''). Inr (c # rest, cs'')))"

lemma colors_lookup_known:
  "map_of (co_colors cs) v = Some c \<Longrightarrow> colors_lookup cs v = Inr (c, cs)"
  by (simp add: colors_lookup_def)

lemma colors_lookup_new:
  "map_of (co_colors cs) v = None \<Longrightarrow> co_default cs \<noteq> [] \<Longrightarrow>
   colors_lookup cs v = Inr (last (co_default cs),
     \<lparr>co_colors = dict_set v (last (co_default cs)) (co_colors cs), co_default = butlast (co_default cs)\<rparr>)"
  by (cases cs) (simp add: colors_lookup_def colors_add_def)

lemma colors_lookup_exhausted:
  "map_of (co_colors cs) v = None \<Longrightarrow> co_default cs = [] \<Longrightarrow> colors_lookup cs v = Inl IndexError"
  by (simp add: colors_lookup_def)

definition unknown :: "colors \<Rightarrow> string list \<Rightarrow> string set" where
  "unknown cs vs = {v \<in> set vs. map_of (co_colors cs) v = None}"

lemma finite_unknown [simp]: "finite (unknown cs vs)"
  by (simp add: unknown_def)

text \<open>Giving colours to range values succeeds exactly when the values that no \<open>color\<close> line
  names are at most as many as the default colours left; one more raises \<open>IndexError\<close>.\<close>

theorem lookup_each_succeeds_iff:
  "(\<exists>r. lookup_each cs vs = Inr r) \<longleftrightarrow> card (unknown cs vs) \<le> length (co_default cs)"
proof (induction vs arbitrary: cs)
  case Nil
  show ?case by (simp add: unknown_def)
next
  case (Cons v vs)
  show ?case
  proof (cases "map_of (co_colors cs) v")
    case (Some c)
    then have "unknown cs (v # vs) = unknown cs vs" by (auto simp: unknown_def)
    moreover have "(\<exists>r. lookup_each cs (v # vs) = Inr r) = (\<exists>r. lookup_each cs vs = Inr r)"
      using Some by (auto simp: colors_lookup_known res_bind_eq_Inr)
    ultimately show ?thesis using Cons.IH by simp
  next
    case None
    then have "unknown cs (v # vs) = insert v (unknown cs vs)" by (auto simp: unknown_def)
    then have card: "card (unknown cs (v # vs)) = Suc (card (unknown cs vs - {v}))"
      by (simp only: card.insert_remove [OF finite_unknown])
    show ?thesis
    proof (cases "co_default cs = []")
      case True
      with None card show ?thesis by (simp add: colors_lookup_exhausted)
    next
      case False
      define cs' where "cs' = \<lparr>co_colors = dict_set v (last (co_default cs)) (co_colors cs),
        co_default = butlast (co_default cs)\<rparr>"
      have "unknown cs' vs = unknown cs vs - {v}" by (auto simp: unknown_def cs'_def)
      moreover have "(\<exists>r. lookup_each cs (v # vs) = Inr r) = (\<exists>r. lookup_each cs' vs = Inr r)"
        using colors_lookup_new [OF None False] by (auto simp: cs'_def res_bind_eq_Inr)
      ultimately show ?thesis
        using Cons.IH [of cs'] card False by (simp add: cs'_def) (metis Suc_le_mono Suc_pred length_greater_0_conv)
    qed
  qed
qed

text \<open>A colour line sets each channel to 1 when its byte is FF and to 0 otherwise: the
  division by 255 is one of integers.\<close>

theorem color_line_channels:
  assumes "re_range line = None" and "re_event_str line = None" and "re_event_int line = None"
    and "re_color line = Some (a, r, g, b)"
  shows "map_of (co_colors (fst (read_line (cs, ts) line))) a
    = Some (rgb (if r = 255 then 1 else 0) (if g = 255 then 1 else 0) (if b = 255 then 1 else 0))"
proof -
  have hex: "0 \<le> x \<and> x \<le> 255" if "re_hex2 s = Some (x, t)" for s x t
  proof -
    have hv: "hex_val c = Some d \<Longrightarrow> 0 \<le> d \<and> d \<le> 15" for c d
      by (auto simp: hex_val_def Let_def split: if_splits)
    from that obtain c1 c2 d1 d2 where "hex_val c1 = Some d1" "hex_val c2 = Some d2" "x = 16 * d1 + d2"
      by (cases s rule: re_hex2.cases) (auto split: option.splits)
    with hv [of c1 d1] hv [of c2 d2] show ?thesis by auto
  qed
  have "0 \<le> r \<and> r \<le> 255" "0 \<le> g \<and> g \<le> 255" "0 \<le> b \<and> b \<le> 255"
    using assms(4) hex by (auto simp: re_color_def Option.bind_eq_Some_conv)
  then have d: "x div 255 = (if x = 255 then 1 else 0)" if "x \<in> {r, g, b}" for x
    using that by (cases "x = 255") (auto intro: div_pos_pos_trivial)
  with assms show ?thesis by (simp add: read_line_def colors_add_def)
qed

theorem color_line_channels_witness:
  "map_of (co_colors (fst (read_line (new_colors, []) (''color tx #FF80fe'' @ nl)))) ''tx'' = Some (rgb 1 0 0)"
proof -
  let ?l = "''color tx #FF80fe'' @ nl"
  have m: "re_range ?l = None" "re_event_str ?l = None" "re_event_int ?l = None"
     "re_color ?l = Some (''tx'', 255, 128, 254)" by code_simp+
  from color_line_channels [OF m, of new_colors "[]"] show ?thesis by simp
qed

end
