(* ===== verification/Grid_Render.thy ===== *)
theory Grid_Render
  imports Grid_Data
begin

text \<open>
  The layout and the drawing of \<^verbatim>\<open>utils/grid.py\<close>: the legend, the rows of the
  timelines, the two scales and the whole picture.  Drawing is the list of calls on the
  cairo context, in order.  The size of a piece of text is cairo's: a parameter \<open>ext\<close>.
  Attributes a renderer has only after its setters have run are plain fields; the program
  calls the setters first.
\<close>

section \<open>The drawing context\<close>

datatype cairo_op =
    Rectangle pynum pynum pynum pynum
  | SetSourceRgb pynum pynum pynum
  | SetLineWidth pynum
  | Stroke | StrokePreserve | Fill
  | MoveTo pynum pynum | LineTo pynum pynum | RelLineTo pynum pynum
  | ClosePath | SetOperatorSource
  | ShowText string
  | Save | Restore
  | Translate pynum pynum
  | SetDash "pynum list" pynum
  | Clip | SetSourceSurface "cairo_op list" | Paint

text \<open>The fields of \<open>text_extents\<close> the code reads.\<close>

record extents =
  x_y_bearing :: pynum
  x_width :: pynum
  x_height :: pynum

type_synonym measure_text = "string \<Rightarrow> extents"

abbreviation black :: cairo_op where "black \<equiv> SetSourceRgb (PInt 0) (PInt 0) (PInt 0)"
abbreviation white :: cairo_op where "white \<equiv> SetSourceRgb (PInt 1) (PInt 1) (PInt 1)"
abbreviation grey :: cairo_op where
  "grey \<equiv> SetSourceRgb (PFlt (9/10)) (PFlt (9/10)) (PFlt (9/10))"

text \<open>\<open>x / 2\<close>.\<close>

fun num_half :: "pynum \<Rightarrow> pynum" where
  "num_half (PInt i) = PInt (i div 2)"
| "num_half (PFlt x) = PFlt (x / 2)"

lemma py_div_2: "py_div a (PInt 2) = Inr (num_half a)"
  by (cases a) simp_all

definition alphabet :: string where
  "alphabet = ''ABCDEFGHIJKLMNOPQRSTUVWXYZabcedefghijklmnopqrstuvwxyz0123456789''"

section \<open>The legend\<close>

record top_legend =
  lg_padding :: pynum
  lg_legends :: "string list"
  lg_colors :: "color list"
  lg_width :: pynum
  lg_height :: pynum

definition new_top_legend :: top_legend where
  "new_top_legend = \<lparr>lg_padding = PInt 10, lg_legends = [], lg_colors = [], lg_width = PInt 0, lg_height = PInt 0\<rparr>"

definition set_padding :: "pynum \<Rightarrow> top_legend \<Rightarrow> top_legend" where
  "set_padding p l = l\<lparr>lg_padding := p\<rparr>"

definition set_legends :: "string list \<Rightarrow> color list \<Rightarrow> top_legend \<Rightarrow> top_legend" where
  "set_legends legends cs l = l\<lparr>lg_legends := legends, lg_colors := cs\<rparr>"

text \<open>
  The variables of the loops of \<open>layout\<close> and \<open>draw\<close>: the height of the line, the height
  above it, the width used in it; \<open>place_item\<close> is one turn, with the item's \<open>x\<close>.
\<close>

record flow =
  f_line :: pynum
  f_total :: pynum
  f_used :: pynum
  f_x :: pynum

definition flow_start :: "pynum \<Rightarrow> flow" where
  "flow_start padding = \<lparr>f_line = PInt 0, f_total = padding, f_used = padding, f_x = PInt 0\<rparr>"

definition place_item :: "pynum \<Rightarrow> pynum \<Rightarrow> extents \<Rightarrow> flow \<Rightarrow> flow" where
  "place_item padding width e f =
     (let item_width = padding + padding + x_width e + padding;
          item_height = x_height e + padding;
          line_height = (if item_height > f_line f then item_height else f_line f);
          wrap = f_used f + item_width > width;
          used = (if wrap then padding + item_width else f_used f + item_width);
          total = (if wrap then f_total f + line_height else f_total f)
      in \<lparr>f_line = line_height, f_total = total, f_used = used, f_x = used - item_width\<rparr>)"

definition legend_layout :: "measure_text \<Rightarrow> pynum \<Rightarrow> top_legend \<Rightarrow> top_legend" where
  "legend_layout ext width l =
     (let f = foldl (\<lambda>f s. place_item (lg_padding l) width (ext s) f) (flow_start (lg_padding l)) (lg_legends l)
      in l\<lparr>lg_width := width, lg_height := f_total f + f_line f\<rparr>)"

definition legend_item_ops :: "measure_text \<Rightarrow> pynum \<Rightarrow> flow \<Rightarrow> string \<Rightarrow> color \<Rightarrow> cairo_op list" where
  "legend_item_ops ext padding f s c =
     [Rectangle (f_x f) (f_total f) padding padding, black, SetLineWidth (PInt 2), StrokePreserve,
      SetSourceRgb (c_r c) (c_g c) (c_b c), Fill,
      MoveTo (f_x f + padding * PInt 2) (f_total f + x_height (ext s)), black, ShowText s]"

fun legend_draw_loop ::
  "measure_text \<Rightarrow> top_legend \<Rightarrow> flow \<Rightarrow> nat \<Rightarrow> string list \<Rightarrow> cairo_op list res" where
  "legend_draw_loop ext l f i [] = Inr []"
| "legend_draw_loop ext l f i (s # ss) =
     (let f' = place_item (lg_padding l) (lg_width l) (ext s) f in
      if i < length (lg_colors l) then
        res_bind (legend_draw_loop ext l f' (Suc i) ss) (\<lambda>ops.
          Inr (legend_item_ops ext (lg_padding l) f' s (lg_colors l ! i) @ ops))
      else Inl IndexError)"

definition legend_draw :: "measure_text \<Rightarrow> top_legend \<Rightarrow> cairo_op list res" where
  "legend_draw ext l = legend_draw_loop ext l (flow_start (lg_padding l)) 0 (lg_legends l)"

section \<open>The timelines\<close>

record timelines_renderer =
  tr_padding :: pynum
  tr_timelines :: timelines
  tr_colors :: colors
  tr_start :: pynum
  tr_end :: pynum
  tr_left_width :: pynum
  tr_right_width :: pynum
  tr_max_text_height :: pynum
  tr_width :: pynum
  tr_height :: pynum
  tr_grey :: int

definition set_timelines :: "timelines \<Rightarrow> colors \<Rightarrow> timelines_renderer \<Rightarrow> timelines_renderer" where
  "set_timelines ts cs r = r\<lparr>tr_timelines := ts, tr_colors := cs\<rparr>"

definition set_render_range :: "pynum \<Rightarrow> pynum \<Rightarrow> timelines_renderer \<Rightarrow> timelines_renderer" where
  "set_render_range start fin r = r\<lparr>tr_start := start, tr_end := fin\<rparr>"

definition get_data_x_start :: "timelines_renderer \<Rightarrow> pynum" where
  "get_data_x_start r = num_half (tr_padding r) + tr_left_width r + tr_padding r + tr_right_width r + num_half (tr_padding r)"

definition data_layout :: "measure_text \<Rightarrow> pynum \<Rightarrow> timelines_renderer \<Rightarrow> timelines_renderer" where
  "data_layout ext width r =
     (let ts = tr_timelines r;
          max_text_height = x_height (ext alphabet);
          left_width = foldl py_max (PInt 0) (map (\<lambda>t. x_width (ext (tl_name t))) ts);
          right_width = foldl py_max (PInt 0) (concat (map (\<lambda>t.
             map (\<lambda>x. x_width (ext (tdr_name x))) (tl_ranges t) @
             map (\<lambda>x. x_width (ext (te_name x))) (tl_event_int t) @
             map (\<lambda>x. x_width (ext (te_name x))) (tl_event_str t)) ts));
          left_n_lines = PInt (int (length ts));
          range_n = sum_list (map (\<lambda>t. int (length (tl_ranges t))) ts);
          eventint_n = sum_list (map (\<lambda>t. int (length (tl_event_int t))) ts);
          eventstr_n = sum_list (map (\<lambda>t. int (length (tl_event_str t))) ts);
          left_height = left_n_lines * max_text_height + (left_n_lines - PInt 1) * tr_padding r;
          right_n_lines = PInt (range_n + eventint_n + eventstr_n);
          right_height = (right_n_lines - PInt 1) * tr_padding r + right_n_lines * max_text_height;
          right_data_height = PInt (eventint_n + eventstr_n) * (max_text_height + PInt 5) + PInt range_n * PInt 10;
          right_data_height = right_data_height + (right_n_lines - PInt 1) * tr_padding r;
          height = py_max left_height right_height;
          height = py_max height right_data_height
      in r\<lparr>tr_left_width := left_width, tr_right_width := right_width,
           tr_max_text_height := max_text_height, tr_width := width,
           tr_height := height + tr_padding r\<rparr>)"

definition draw_line :: "pynum \<Rightarrow> pynum \<Rightarrow> pynum \<Rightarrow> pynum \<Rightarrow> cairo_op list" where
  "draw_line x y width height =
     [MoveTo x y, RelLineTo width height, ClosePath, SetOperatorSource, SetLineWidth (PFlt 1), black, Stroke]"

text \<open>\<open>x + (t - start) * width / (end - start)\<close>.\<close>

definition to_x :: "timelines_renderer \<Rightarrow> pynum \<Rightarrow> pynum \<Rightarrow> pynum \<Rightarrow> int res" where
  "to_x r x width t = res_bind (py_div ((t - tr_start r) * width) (tr_end r - tr_start r))
     (\<lambda>q. Inr (py_int (x + q)))"

definition row_background :: "timelines_renderer \<Rightarrow> pynum \<Rightarrow> pynum \<Rightarrow> pynum \<Rightarrow> pynum \<Rightarrow> cairo_op list" where
  "row_background r x y width height =
     (if tr_grey r mod 2 = 0
      then [Rectangle x (y - num_half (tr_padding r)) width (height + tr_padding r), grey, Fill] else [])"

fun draw_events_loop ::
  "timelines_renderer \<Rightarrow> ('v \<Rightarrow> string) \<Rightarrow> pynum \<Rightarrow> pynum \<Rightarrow> pynum \<Rightarrow> int \<Rightarrow> 'v event list \<Rightarrow> cairo_op list res" where
  "draw_events_loop r sh x y width last_x_drawn [] = Inr []"
| "draw_events_loop r sh x y width last_x_drawn (e # es) =
     res_bind (to_x r x width (PInt (ev_at e))) (\<lambda>real_x.
       if real_x > last_x_drawn + 2 then
         res_bind (draw_events_loop r sh x y width real_x es) (\<lambda>ops. Inr (
           [Rectangle (PInt real_x) y (PInt 1) (PInt 1), SetSourceRgb (PInt 1) (PInt 0) (PInt 0), Stroke,
            MoveTo (PInt real_x) (y + tr_max_text_height r), black, ShowText (sh (ev_value e))] @ ops))
       else draw_events_loop r sh x y width last_x_drawn es)"

definition draw_events ::
  "('v \<Rightarrow> string) \<Rightarrow> 'v timeline_event \<Rightarrow> pynum \<Rightarrow> pynum \<Rightarrow> pynum \<Rightarrow> pynum \<Rightarrow> timelines_renderer
     \<Rightarrow> (cairo_op list \<times> timelines_renderer) res" where
  "draw_events sh events x y width height r =
     (case get_events_bounds events (tr_start r) (tr_end r) of (lo, hi) \<Rightarrow>
       res_bind (draw_events_loop r sh x y width (py_int x) (slice (te_events events) lo hi)) (\<lambda>ops.
         Inr (row_background r x y width height @ ops, r\<lparr>tr_grey := tr_grey r + 1\<rparr>)))"

text \<open>The bars of a row; looking a colour up may take one of the default colours.\<close>

fun draw_ranges_loop ::
  "timelines_renderer \<Rightarrow> pynum \<Rightarrow> pynum \<Rightarrow> pynum \<Rightarrow> int \<Rightarrow> data_range list
     \<Rightarrow> (cairo_op list \<times> timelines_renderer) res" where
  "draw_ranges_loop r x y width last_x_drawn [] = Inr ([], r)"
| "draw_ranges_loop r x y width last_x_drawn (d # ds) =
     (let s = py_max (PInt (dr_start d)) (tr_start r); e = py_min (PInt (dr_end d)) (tr_end r) in
      res_bind (to_x r x width s) (\<lambda>x_start.
      res_bind (to_x r x width e) (\<lambda>x_end.
        if x_end > last_x_drawn then
          res_bind (colors_lookup (tr_colors r) (dr_value d)) (\<lambda>(color, cs').
          res_bind (draw_ranges_loop (r\<lparr>tr_colors := cs'\<rparr>) x y width x_end ds) (\<lambda>(ops, r').
            Inr ([Rectangle (PInt x_start) y (PInt (x_end - x_start)) (PInt 10), black, StrokePreserve,
                  SetSourceRgb (c_r color) (c_g color) (c_b color), Fill] @ ops, r')))
        else draw_ranges_loop r x y width last_x_drawn ds)))"

definition draw_ranges ::
  "timeline_data_range \<Rightarrow> pynum \<Rightarrow> pynum \<Rightarrow> pynum \<Rightarrow> pynum \<Rightarrow> timelines_renderer
     \<Rightarrow> (cairo_op list \<times> timelines_renderer) res" where
  "draw_ranges ranges x y width height r =
     (case get_ranges_bounds ranges (tr_start r) (tr_end r) of (lo, hi) \<Rightarrow>
       res_bind (draw_ranges_loop r x y width (py_int (x - PInt 1)) (slice (tdr_ranges ranges) lo hi)) (\<lambda>(ops, r').
         Inr (row_background r x y width height @ ops, r'\<lparr>tr_grey := tr_grey r' + 1\<rparr>)))"

text \<open>The geometry \<open>draw\<close> computes first.\<close>

record data_geometry =
  g_left_x_start :: pynum
  g_left_x_end :: pynum
  g_right_x_start :: pynum
  g_right_x_end :: pynum
  g_data_x_start :: pynum
  g_data_width :: pynum

definition geometry :: "timelines_renderer \<Rightarrow> data_geometry" where
  "geometry r =
     (let left_x_start = num_half (tr_padding r);
          left_x_end = left_x_start + tr_left_width r;
          right_x_start = left_x_end + tr_padding r;
          right_x_end = right_x_start + tr_right_width r;
          data_x_start = right_x_end + num_half (tr_padding r)
      in \<lparr>g_left_x_start = left_x_start, g_left_x_end = left_x_end, g_right_x_start = right_x_start,
          g_right_x_end = right_x_end, g_data_x_start = data_x_start,
          g_data_width = tr_width r - data_x_start\<rparr>)"

definition caption :: "measure_text \<Rightarrow> timelines_renderer \<Rightarrow> pynum \<Rightarrow> pynum \<Rightarrow> string \<Rightarrow> cairo_op list" where
  "caption ext r x cur_y s =
     [MoveTo x (cur_y + tr_max_text_height r - (x_height (ext s) + x_y_bearing (ext s))), ShowText s]"

definition row_line :: "timelines_renderer \<Rightarrow> pynum \<Rightarrow> cairo_op list" where
  "row_line r cur_y = draw_line (g_right_x_start (geometry r) - num_half (tr_padding r)) (cur_y - num_half (tr_padding r))
     (tr_right_width r + tr_padding r) (PInt 0)"

text \<open>
  The rows of one timeline: for each one its name, its contents and the line below it, and
  the vertical position of the next.
\<close>

fun draw_rows ::
  "measure_text \<Rightarrow> ('a \<Rightarrow> string) \<Rightarrow> ('a \<Rightarrow> pynum \<Rightarrow> timelines_renderer \<Rightarrow> (cairo_op list \<times> timelines_renderer) res)
     \<Rightarrow> (timelines_renderer \<Rightarrow> pynum) \<Rightarrow> 'a list \<Rightarrow> pynum \<Rightarrow> timelines_renderer
     \<Rightarrow> (cairo_op list \<times> pynum \<times> timelines_renderer) res" where
  "draw_rows ext nm body step [] cur_y r = Inr ([], cur_y, r)"
| "draw_rows ext nm body step (a # as) cur_y r =
     res_bind (body a cur_y r) (\<lambda>(ops, r1).
       let cur_y' = cur_y + (step r1 + tr_padding r1) in
       res_bind (draw_rows ext nm body step as cur_y' r1) (\<lambda>(ops', y', r2).
         Inr (caption ext r (g_right_x_start (geometry r)) cur_y (nm a) @ ops @ row_line r1 cur_y' @ ops', y', r2)))"

definition event_step :: "timelines_renderer \<Rightarrow> pynum" where
  "event_step r = tr_max_text_height r + PInt 5"

definition draw_timeline ::
  "measure_text \<Rightarrow> timeline \<Rightarrow> pynum \<Rightarrow> timelines_renderer \<Rightarrow> (cairo_op list \<times> pynum \<times> timelines_renderer) res" where
  "draw_timeline ext t cur_y r =
     res_bind (draw_rows ext te_name
        (\<lambda>e y r. draw_events str_int e (g_data_x_start (geometry r)) y (g_data_width (geometry r)) (event_step r) r)
        event_step (tl_event_int t) cur_y r) (\<lambda>(ops1, y1, r1).
     res_bind (draw_rows ext te_name
        (\<lambda>e y r. draw_events id e (g_data_x_start (geometry r)) y (g_data_width (geometry r)) (event_step r) r)
        event_step (tl_event_str t) y1 r1) (\<lambda>(ops2, y2, r2).
     res_bind (draw_rows ext tdr_name
        (\<lambda>d y r. draw_ranges d (g_data_x_start (geometry r)) y (g_data_width (geometry r)) (PInt 10) r)
        tr_max_text_height (tl_ranges t) y2 r2) (\<lambda>(ops3, y3, r3).
       Inr (caption ext r (g_left_x_start (geometry r)) cur_y (tl_name t) @ ops1 @ ops2 @ ops3 @
            draw_line (PInt 0) (y3 - num_half (tr_padding r3)) (tr_width r3) (PInt 0), y3, r3))))"

fun draw_timelines ::
  "measure_text \<Rightarrow> timelines \<Rightarrow> pynum \<Rightarrow> timelines_renderer \<Rightarrow> (cairo_op list \<times> pynum \<times> timelines_renderer) res" where
  "draw_timelines ext [] cur_y r = Inr ([], cur_y, r)"
| "draw_timelines ext (t # ts) cur_y r =
     res_bind (draw_timeline ext t cur_y r) (\<lambda>(ops, y, r1).
     res_bind (draw_timelines ext ts y r1) (\<lambda>(ops', y', r2). Inr (ops @ ops', y', r2)))"

definition data_draw :: "measure_text \<Rightarrow> timelines_renderer \<Rightarrow> (cairo_op list \<times> timelines_renderer) res" where
  "data_draw ext r =
     (let top_y = num_half (tr_padding r); r0 = r\<lparr>tr_grey := 1\<rparr> in
      res_bind (draw_timelines ext (tr_timelines r) top_y r0) (\<lambda>(ops, cur_y, r').
        let bot_y = cur_y - num_half (tr_padding r') in
        Inr (draw_line (PInt 0) (PInt 0) (tr_width r) (PInt 0) @ ops @
             draw_line (g_left_x_end (geometry r') + num_half (tr_padding r')) (PInt 0) (PInt 0) bot_y @
             draw_line (g_right_x_end (geometry r') + num_half (tr_padding r')) (PInt 0) (PInt 0) bot_y, r')))"

section \<open>A scale\<close>

record scale_renderer =
  sc_top :: int
  sc_lo :: pynum
  sc_hi :: pynum
  sc_delta :: pynum
  sc_width :: pynum
  sc_height :: pynum
  sc_max_text_height :: pynum

definition new_scale :: scale_renderer where
  "new_scale = \<lparr>sc_top = 0, sc_lo = PInt 0, sc_hi = PInt 0, sc_delta = PInt 1, sc_width = PInt 0,
     sc_height = PInt 0, sc_max_text_height = PInt 0\<rparr>"

definition set_bounds :: "pynum \<Rightarrow> pynum \<Rightarrow> scale_renderer \<Rightarrow> scale_renderer" where
  "set_bounds lo hi s = s\<lparr>sc_lo := lo, sc_hi := hi\<rparr>"

definition get_position :: "scale_renderer \<Rightarrow> pynum \<Rightarrow> pynum res" where
  "get_position s x = py_div ((x - sc_lo s) * sc_width s) (sc_hi s - sc_lo s)"

definition set_top :: "scale_renderer \<Rightarrow> scale_renderer" where
  "set_top s = s\<lparr>sc_top := 1\<rparr>"

definition set_bot :: "scale_renderer \<Rightarrow> scale_renderer" where
  "set_bot s = s\<lparr>sc_top := 0\<rparr>"

text \<open>
  \<open>closest\<close> starts at 1 and only grows; the guard on its sign, always true, is what makes
  the loop a total function.
\<close>

function closest_loop :: "pynum \<Rightarrow> int \<Rightarrow> int" where
  "closest_loop data_delta closest =
     (if 0 < closest \<and> PInt (closest * 10) < data_delta then closest_loop data_delta (closest * 10)
      else closest)"
  by pat_completeness auto
termination
proof (relation "measure (\<lambda>(d, c). nat (ceiling (num_val d) - c))")
  fix d c assume "0 < c \<and> PInt (c * 10) < d"
  then have "0 < c" "c * 10 < ceiling (num_val d)" by (auto simp: num_simps less_ceiling_iff)
  then show "((d, c * 10), d, c) \<in> measure (\<lambda>(d, c). nat (ceiling (num_val d) - c))" by simp
qed simp

declare closest_loop.simps [simp del]

definition scale_delta :: "pynum \<Rightarrow> pynum res" where
  "scale_delta data_delta =
     (let closest = closest_loop data_delta 1 in
      res_bind (py_div data_delta (PInt closest)) (\<lambda>q.
        if num_val q = 0 then Inr (PInt closest)
        else if num_val q = 1 then py_div (PInt closest) (PInt 10)
        else Inr (PInt closest)))"

text \<open>\<open>lo - (lo % delta) + delta\<close> and \<open>hi - (hi % delta)\<close>.\<close>

definition first_tick :: "pynum \<Rightarrow> pynum \<Rightarrow> pynum res" where
  "first_tick lo delta = res_bind (py_mod lo delta) (\<lambda>m. Inr (lo - m + delta))"

definition last_tick :: "pynum \<Rightarrow> pynum \<Rightarrow> pynum res" where
  "last_tick hi delta = res_bind (py_mod hi delta) (\<lambda>m. Inr (hi - m))"

definition scale_layout :: "measure_text \<Rightarrow> pynum \<Rightarrow> scale_renderer \<Rightarrow> scale_renderer res" where
  "scale_layout ext width s =
     res_bind (scale_delta (sc_hi s - sc_lo s)) (\<lambda>delta.
     res_bind (first_tick (sc_lo s) delta) (\<lambda>start.
     res_bind (last_tick (sc_hi s) delta) (\<lambda>fin.
       let max_text_height = x_height (ext alphabet) in
       Inr (s\<lparr>sc_delta := delta, sc_width := width, sc_max_text_height := max_text_height,
              sc_height := max_text_height + PInt 10\<rparr>))))"

definition py_range :: "int \<Rightarrow> int \<Rightarrow> int \<Rightarrow> int list res" where
  "py_range a b d = (if d = 0 then Inl ValueError
     else if d > 0 then Inr (map (\<lambda>k. a + int k * d) [0..<nat ((b - a + d - 1) div d)])
     else Inr (map (\<lambda>k. a + int k * d) [0..<nat ((a - b - d - 1) div (- d))]))"

definition tick_ops :: "measure_text \<Rightarrow> scale_renderer \<Rightarrow> pynum \<Rightarrow> int \<Rightarrow> cairo_op list res" where
  "tick_ops ext sc s x =
     res_bind (py_div ((PInt x - sc_lo sc) * sc_width sc) (sc_hi sc - sc_lo sc)) (\<lambda>real_x.
       let e = ext (str_int x);
           text_delta = (if sc_top sc \<noteq> 0 then x_height e + x_y_bearing e else - x_y_bearing e)
       in Inr [MoveTo real_x (PInt 0), LineTo real_x (PInt 5 * s), ClosePath, Stroke,
               MoveTo (real_x - num_half (x_width e)) ((PInt 5 + PInt 5 + text_delta) * s), ShowText (str_int x)])"

definition subtick_ops :: "scale_renderer \<Rightarrow> pynum \<Rightarrow> int \<Rightarrow> cairo_op list res" where
  "subtick_ops sc s x =
     res_bind (py_div ((PInt x - sc_lo sc) * sc_width sc) (sc_hi sc - sc_lo sc)) (\<lambda>real_x.
       Inr [MoveTo real_x (PInt 0), LineTo real_x (PInt 3 * s), ClosePath, Stroke])"

definition ticks :: "scale_renderer \<Rightarrow> pynum \<Rightarrow> int list res" where
  "ticks sc delta =
     res_bind (first_tick (sc_lo sc) delta) (\<lambda>start.
     res_bind (last_tick (sc_hi sc) delta) (\<lambda>fin.
       py_range (py_int start) (py_int (fin + delta)) (py_int delta)))"

definition scale_draw :: "measure_text \<Rightarrow> scale_renderer \<Rightarrow> cairo_op list res" where
  "scale_draw ext sc =
     (let s = (if sc_top sc = 1 then PInt (- 1) else PInt 1) in
      res_bind (ticks sc (sc_delta sc)) (\<lambda>xs.
      res_bind (concat_res (tick_ops ext sc s) xs) (\<lambda>ops.
      res_bind (py_div (sc_delta sc) (PInt 10)) (\<lambda>delta.
        if delta > PInt 0 then
          res_bind (ticks sc delta) (\<lambda>ys.
          res_bind (concat_res (subtick_ops sc s) ys) (\<lambda>subs.
            Inr ([black, SetLineWidth (PFlt 1)] @ ops @ subs)))
        else Inr ([black, SetLineWidth (PFlt 1)] @ ops)))))"

section \<open>The step of a scale\<close>

lemma closest_loop_spec:
  "0 < c \<Longrightarrow> c = 1 \<or> of_int c < num_val d \<Longrightarrow>
   \<exists>k. closest_loop d c = c * 10 ^ k \<and> num_val d \<le> of_int (closest_loop d c) * 10 \<and>
       (closest_loop d c = 1 \<or> of_int (closest_loop d c) < num_val d)"
proof (induction d c rule: closest_loop.induct)
  case (1 d c)
  show ?case
  proof (cases "PInt (c * 10) < d")
    case True
    with 1 obtain k where k: "closest_loop d (c * 10) = c * 10 * 10 ^ k"
      "num_val d \<le> of_int (closest_loop d (c * 10)) * 10"
      "closest_loop d (c * 10) = 1 \<or> of_int (closest_loop d (c * 10)) < num_val d"
      by (auto simp: num_simps)
    have "closest_loop d c = closest_loop d (c * 10)"
      using True 1 by (subst closest_loop.simps) simp
    with k show ?thesis by (intro exI [of _ "Suc k"]) simp
  next
    case False
    then have "closest_loop d c = c" by (subst closest_loop.simps) simp
    with False 1 show ?thesis by (intro exI [of _ 0]) (auto simp: num_simps)
  qed
qed

lemma closest_unit: "\<exists>k. closest_loop d 1 = 10 ^ k \<and> num_val d \<le> of_int (closest_loop d 1) * 10 \<and>
    (closest_loop d 1 = 1 \<or> of_int (closest_loop d 1) < num_val d)"
  using closest_loop_spec [of 1 d] by simp

lemma py_div_quotient_1:
  "0 < c \<Longrightarrow> py_div d (PInt c) = Inr q \<Longrightarrow> num_val q = 1 \<Longrightarrow> of_int c \<le> num_val d \<and> num_val d < 2 * of_int c"
proof (cases d)
  case (PInt i)
  assume "0 < c" "py_div d (PInt c) = Inr q" "num_val q = 1"
  with PInt have "i div c = 1" by (auto split: if_splits)
  moreover have "0 \<le> i mod c" "i mod c < c" using \<open>0 < c\<close> by simp_all
  ultimately have "c \<le> i" "i < 2 * c"
    using div_mult_mod_eq [of i c] by simp_all
  then have "of_int c \<le> (of_int i :: rat)" "of_int i < (of_int (2 * c) :: rat)"
    by (simp_all only: of_int_le_iff of_int_less_iff)
  with PInt show ?thesis by simp
qed (auto split: if_splits simp: field_simps)

text \<open>The step chosen for a span: a power of ten that divides the span into fewer than twenty
  parts, except for a span of exactly 1, where it is 0.\<close>

lemma scale_delta_unit: "num_val d = 1 \<Longrightarrow> scale_delta d = Inr (PInt 0)"
proof -
  assume d: "num_val d = 1"
  have c: "closest_loop d 1 = 1" using d by (subst closest_loop.simps) (simp add: num_simps)
  have "\<exists>q. py_div d (PInt 1) = Inr q \<and> num_val q = 1"
    using d by (cases d) (auto simp: of_int_eq_1_iff)
  then show ?thesis by (auto simp: scale_delta_def Let_def c)
qed

lemma scale_delta_pos:
  assumes "num_val d \<noteq> 1"
  shows "\<exists>k. scale_delta d = Inr (PInt (10 ^ k)) \<and> num_val d < 20 * 10 ^ k"
proof -
  define c where "c = closest_loop d 1"
  from closest_unit [of d, folded c_def]
  obtain k where k: "c = 10 ^ k" "num_val d \<le> of_int c * 10" "c = 1 \<or> of_int c < num_val d" by blast
  have cpos: "0 < c" by (simp add: k(1))
  obtain q where q: "py_div d (PInt c) = Inr q" using py_div_Inr [of "PInt c" d] cpos by auto
  show ?thesis
  proof (cases "num_val q = 1")
    case False
    have "scale_delta d = Inr (PInt c)" using q False by (simp add: scale_delta_def c_def [symmetric] Let_def)
    moreover have "(0::rat) < of_int c" using cpos by simp
    then have "num_val d < 20 * of_int c" using k(2) by linarith
    ultimately show ?thesis using k(1) by auto
  next
    case True
    note b = py_div_quotient_1 [OF cpos q True]
    have "k \<noteq> 0"
    proof
      assume "k = 0"
      with k(1) have c1: "c = 1" by simp
      with q True have "num_val d < 2 \<and> (\<exists>i. d = PInt i \<longrightarrow> i = 1)" using b by auto
      from c1 q True have "num_val d = 1"
        by (cases d) (auto split: if_splits)
      with assms show False by simp
    qed
    then obtain j where j: "k = Suc j" by (cases k) auto
    have "scale_delta d = Inr (PInt (10 ^ j))"
      using q True k(1) j by (simp add: scale_delta_def c_def [symmetric] Let_def)
    moreover have "num_val d < 20 * 10 ^ j" using b k(1) j by simp
    ultimately show ?thesis by auto
  qed
qed

lemma py_mod_pos: "0 < c \<Longrightarrow> \<exists>m. py_mod a (PInt c) = Inr m"
  by (cases a) auto

text \<open>Laying out a scale succeeds exactly when its span is not 1; a span of 1 raises
  \<open>ZeroDivisionError\<close>, because the step is then the integer \<open>1 / 10\<close>.\<close>

theorem scale_layout_succeeds_iff:
  "(\<exists>s'. scale_layout ext width s = Inr s') \<longleftrightarrow> num_val (sc_hi s) - num_val (sc_lo s) \<noteq> 1"
proof (cases "num_val (sc_hi s - sc_lo s) = 1")
  case True
  have "py_mod a (PInt 0) = Inl ZeroDivisionError" for a by (cases a) simp_all
  with scale_delta_unit [OF True] True show ?thesis by (simp add: scale_layout_def first_tick_def)
next
  case False
  then obtain k where "scale_delta (sc_hi s - sc_lo s) = Inr (PInt (10 ^ k))"
    using scale_delta_pos by blast
  moreover obtain m n where "py_mod (sc_lo s) (PInt (10 ^ k)) = Inr m" "py_mod (sc_hi s) (PInt (10 ^ k)) = Inr n"
    using py_mod_pos [of "10 ^ k"] by (metis zero_less_numeral zero_less_power)
  ultimately show ?thesis using False by (simp add: scale_layout_def first_tick_def last_tick_def Let_def)
qed

text \<open>A scale that has been laid out has a positive step, a power of ten, and its span is less
  than twenty steps, so no more than some twenty labels are drawn.\<close>

theorem scale_layout_step:
  assumes "scale_layout ext width s = Inr s'"
  shows "\<exists>k. sc_delta s' = PInt (10 ^ k) \<and> num_val (sc_hi s') - num_val (sc_lo s') < 20 * 10 ^ k"
proof -
  have "num_val (sc_hi s - sc_lo s) \<noteq> 1"
  proof
    assume one: "num_val (sc_hi s - sc_lo s) = 1"
    have "py_mod a (PInt 0) = Inl ZeroDivisionError" for a by (cases a) simp_all
    with scale_delta_unit [OF one] assms show False by (simp add: scale_layout_def first_tick_def)
  qed
  from scale_delta_pos [OF this] assms show ?thesis
    by (auto simp: scale_layout_def res_bind_eq_Inr Let_def)
qed

definition unit_ext :: measure_text where
  "unit_ext s = \<lparr>x_y_bearing = PFlt (- 7), x_width = PFlt (6 * of_nat (length s)), x_height = PFlt 8\<rparr>"

theorem scale_layout_step_witness:
  "\<exists>s' k. scale_layout unit_ext (PInt 500) (set_bounds (PInt 0) (PInt 170) new_scale) = Inr s' \<and>
     sc_delta s' = PInt (10 ^ k) \<and> num_val (sc_hi s') - num_val (sc_lo s') < 20 * 10 ^ k"
proof -
  obtain s' where s': "scale_layout unit_ext (PInt 500) (set_bounds (PInt 0) (PInt 170) new_scale) = Inr s'"
    using scale_delta_pos [of "PInt 170"] py_mod_pos
    by (auto simp: scale_layout_def set_bounds_def new_scale_def first_tick_def last_tick_def Let_def)
  from scale_layout_step [OF s'] s' show ?thesis by blast
qed

section \<open>The bars of a row\<close>

lemma py_int_mono: "num_val a \<le> num_val b \<Longrightarrow> py_int a \<le> py_int b"
proof -
  have tr: "py_int a = (if num_val a < 0 then ceiling (num_val a) else floor (num_val a))" for a
    by (cases a) (auto simp: ceiling_def)
  have "ceiling (num_val a) \<le> floor (num_val b)" if "num_val a < 0" "\<not> num_val b < 0"
  proof -
    have "ceiling (num_val a) \<le> 0" "0 \<le> floor (num_val b)" using that by simp_all
    then show ?thesis by (rule order_trans)
  qed
  moreover assume "num_val a \<le> num_val b"
  ultimately show ?thesis by (auto simp: tr floor_mono ceiling_mono)
qed

lemma py_div_in_unit:
  assumes "py_div (a * w) b = Inr q" and "0 \<le> num_val a" "num_val a \<le> num_val b" "0 < num_val b" "0 \<le> num_val w"
  shows "0 \<le> num_val q" "num_val q \<le> num_val w"
proof -
  have ub: "num_val a * num_val w / num_val b \<le> num_val w"
    using assms(2-5) by (simp add: pos_divide_le_eq mult.commute [of "num_val w"] mult_right_mono)
  show "num_val q \<le> num_val w" using py_div_le [OF assms(1)] ub by simp
  show "0 \<le> num_val q"
  proof (cases "(\<exists>i. a * w = PInt i) \<and> (\<exists>j. b = PInt j)")
    case True
    then obtain i j where ij: "a * w = PInt i" "b = PInt j" by blast
    then have "of_int i = num_val a * num_val w" by (metis num_val.simps(1) num_val_times)
    with assms(2,5) have "0 \<le> i" by (metis mult_nonneg_nonneg of_int_0_le_iff)
    with ij assms(1,4) show ?thesis by (auto simp: div_int_pos_iff split: if_splits)
  next
    case False
    have "0 \<le> num_val (a * w)" using assms(2,5) by simp
    with False assms(1,4) show ?thesis by (cases "a * w"; cases b) (auto split: if_splits)
  qed
qed

lemma to_x_bounds:
  assumes "to_x r x width t = Inr i" and "num_val (tr_start r) \<le> num_val t" "num_val t \<le> num_val (tr_end r)"
    and "num_val (tr_start r) < num_val (tr_end r)" and "0 \<le> num_val width"
  shows "py_int x \<le> i \<and> i \<le> py_int (x + width)"
proof -
  obtain q where q: "py_div ((t - tr_start r) * width) (tr_end r - tr_start r) = Inr q" "i = py_int (x + q)"
    using assms(1) by (auto simp: to_x_def res_bind_eq_Inr)
  have "0 \<le> num_val q" "num_val q \<le> num_val width"
    by (rule py_div_in_unit [OF q(1)]; use assms in simp)+
  then show ?thesis unfolding q(2) by (auto intro: py_int_mono)
qed

definition bars_inside :: "pynum \<Rightarrow> pynum \<Rightarrow> cairo_op list \<Rightarrow> bool" where
  "bars_inside x width ops \<longleftrightarrow> (\<forall>a b c d. Rectangle a b c d \<in> set ops \<longrightarrow>
     num_val (PInt (py_int x)) \<le> num_val a \<and> num_val (a + c) \<le> num_val (PInt (py_int (x + width))))"

lemma draw_ranges_loop_inside:
  "draw_ranges_loop r x y width l ds = Inr (ops, r') \<Longrightarrow>
   num_val (tr_start r) < num_val (tr_end r) \<Longrightarrow> 0 \<le> num_val width \<Longrightarrow>
   \<forall>d \<in> set ds. overlaps d (tr_start r) (tr_end r) \<Longrightarrow> bars_inside x width ops"
proof (induction r x y width l ds arbitrary: ops r' rule: draw_ranges_loop.induct)
  case (2 r x y width l d ds)
  define s where "s = py_max (PInt (dr_start d)) (tr_start r)"
  define e where "e = py_min (PInt (dr_end d)) (tr_end r)"
  from "2.prems"(1) obtain a b where a: "to_x r x width s = Inr a" and b: "to_x r x width e = Inr b"
    by (auto simp: res_bind_eq_Inr s_def e_def Let_def)
  have ov: "num_val (PInt (dr_start d)) \<le> num_val (tr_end r)" "num_val (tr_start r) \<le> num_val (PInt (dr_end d))"
    using "2.prems"(4) by (auto simp: overlaps_def num_simps)
  have "py_int x \<le> a"
    using to_x_bounds [OF a] ov "2.prems"(2,3) by (simp add: s_def)
  moreover have "b \<le> py_int (x + width)"
    using to_x_bounds [OF b] ov "2.prems"(2,3) by (simp add: e_def)
  ultimately have bar: "bars_inside x width [Rectangle (PInt a) y (PInt (b - a)) (PInt 10)]"
    by (simp add: bars_inside_def)
  show ?case
  proof (cases "b > l")
    case True
    with "2.prems"(1) a b obtain c cs' ops' where
      c: "colors_lookup (tr_colors r) (dr_value d) = Inr (c, cs')" and
      rest: "draw_ranges_loop (r\<lparr>tr_colors := cs'\<rparr>) x y width b ds = Inr (ops', r')" and
      ops: "ops = [Rectangle (PInt a) y (PInt (b - a)) (PInt 10), black, StrokePreserve,
                  SetSourceRgb (c_r c) (c_g c) (c_b c), Fill] @ ops'"
      by (auto simp: res_bind_eq_Inr s_def e_def Let_def)
    have "bars_inside x width ops'"
      using "2.IH"(1) [OF s_def e_def a b True c _ rest] "2.prems" by (auto split: prod.splits)
    with bar ops show ?thesis by (auto simp: bars_inside_def)
  next
    case False
    with "2.prems"(1) a b have "draw_ranges_loop r x y width l ds = Inr (ops, r')"
      by (simp add: s_def e_def Let_def)
    then show ?thesis using "2.IH"(2) [OF s_def e_def a b False] "2.prems" by auto
  qed
qed (simp add: bars_inside_def)

text \<open>The bars drawn for ranges that overlap the shown interval stay between the left and the
  right edge of the data area, whatever colours are looked up on the way.\<close>

theorem drawn_bars_inside:
  assumes "draw_ranges_loop r x y width (py_int (x - PInt 1)) ds = Inr (ops, r')"
    and "tr_start r < tr_end r" and "PInt 0 \<le> width"
    and "\<forall>d \<in> set ds. overlaps d (tr_start r) (tr_end r)"
  shows "bars_inside x width ops"
  using draw_ranges_loop_inside [OF assms(1)] assms(2-4) by (simp add: num_simps)

definition demo_renderer :: timelines_renderer where
  "demo_renderer = \<lparr>tr_padding = PInt 10, tr_timelines = [], tr_colors = new_colors,
     tr_start = PInt 0, tr_end = PInt 10, tr_left_width = PInt 0, tr_right_width = PInt 0,
     tr_max_text_height = PInt 8, tr_width = PInt 0, tr_height = PInt 0, tr_grey = 0\<rparr>"

theorem drawn_bars_inside_witness:
  "\<exists>ops r'. draw_ranges_loop demo_renderer (PInt 50) (PInt 5) (PInt 200) (py_int (PInt 50 - PInt 1))
      [new_data_range 5 6 ''rx'', new_data_range 8 12 ''tx''] = Inr (ops, r') \<and> bars_inside (PInt 50) (PInt 200) ops"
proof -
  obtain ops r' where d: "draw_ranges_loop demo_renderer (PInt 50) (PInt 5) (PInt 200) (py_int (PInt 50 - PInt 1))
      [new_data_range 5 6 ''rx'', new_data_range 8 12 ''tx''] = Inr (ops, r')"
    by (simp add: demo_renderer_def new_data_range_def to_x_def py_max_def py_min_def num_simps
        colors_lookup_def colors_add_def new_colors_def default_colors_def rgb_def)
  have "bars_inside (PInt 50) (PInt 200) ops"
    by (rule drawn_bars_inside [OF d])
       (simp_all add: demo_renderer_def new_data_range_def overlaps_def num_simps)
  with d show ?thesis by blast
qed

section \<open>Drawing changes only colours and the background counter\<close>

definition keeps_view :: "timelines_renderer \<Rightarrow> timelines_renderer \<Rightarrow> bool" where
  "keeps_view r r' \<longleftrightarrow> r' = r\<lparr>tr_colors := tr_colors r', tr_grey := tr_grey r'\<rparr>"

lemma keeps_view_refl [simp]: "keeps_view r r"
  by (simp add: keeps_view_def)

lemma keeps_view_trans: "keeps_view r r1 \<Longrightarrow> keeps_view r1 r2 \<Longrightarrow> keeps_view r r2"
  by (cases r; cases r1; cases r2) (simp add: keeps_view_def)

lemma keeps_view_colors [simp]: "keeps_view r (r\<lparr>tr_colors := cs\<rparr>)"
  and keeps_view_grey [simp]: "keeps_view r (r\<lparr>tr_grey := g\<rparr>)"
  by (simp_all add: keeps_view_def)

lemma keeps_view_fields: "keeps_view r r' \<Longrightarrow> tr_start r' = tr_start r \<and> tr_end r' = tr_end r \<and>
    tr_height r' = tr_height r \<and> tr_width r' = tr_width r \<and> get_data_x_start r' = get_data_x_start r"
  by (cases r; cases r') (simp add: keeps_view_def get_data_x_start_def)

text \<open>The instructions of a drawing that leave the saved states of the context alone.\<close>

definition no_save :: "cairo_op list \<Rightarrow> bool" where
  "no_save ops \<longleftrightarrow> Save \<notin> set ops \<and> Restore \<notin> set ops"

lemma no_save_append [simp]: "no_save (a @ b) \<longleftrightarrow> no_save a \<and> no_save b"
  by (auto simp: no_save_def)

lemma no_save_Nil [simp]: "no_save []"
  by (simp add: no_save_def)

lemma no_save_Cons [simp]: "no_save (x # b) \<longleftrightarrow> x \<noteq> Save \<and> x \<noteq> Restore \<and> no_save b"
  by (auto simp: no_save_def)

lemma no_save_line [simp]: "no_save (draw_line x y w h)"
  by (simp add: draw_line_def)

lemma no_save_row_line [simp]: "no_save (row_line r y)"
  by (simp add: row_line_def)

lemma no_save_caption [simp]: "no_save (caption ext r x y s)"
  by (simp add: caption_def)

lemma no_save_background [simp]: "no_save (row_background r x y w h)"
  by (simp add: row_background_def)

lemma draw_events_loop_ok: "draw_events_loop r sh x y width l es = Inr ops \<Longrightarrow> no_save ops"
proof (induction r sh x y width l es arbitrary: ops rule: draw_events_loop.induct)
  case (2 r sh x y width l e es)
  then obtain a where a: "to_x r x width (PInt (ev_at e)) = Inr a" by (auto simp: res_bind_eq_Inr)
  show ?case
  proof (cases "a > l + 2")
    case True
    with 2 a show ?thesis by (auto simp: res_bind_eq_Inr)
  next
    case False
    with 2 a show ?thesis by simp
  qed
qed simp

lemma draw_events_ok:
  "draw_events sh e x y w h r = Inr (ops, r') \<Longrightarrow> no_save ops \<and> keeps_view r r'"
  by (auto simp: draw_events_def res_bind_eq_Inr dest: draw_events_loop_ok split: prod.splits)

lemma draw_ranges_loop_ok:
  "draw_ranges_loop r x y width l ds = Inr (ops, r') \<Longrightarrow> no_save ops \<and> keeps_view r r'"
proof (induction r x y width l ds arbitrary: ops r' rule: draw_ranges_loop.induct)
  case (2 r x y width l d ds)
  define s where "s = py_max (PInt (dr_start d)) (tr_start r)"
  define e where "e = py_min (PInt (dr_end d)) (tr_end r)"
  from "2.prems" obtain a b where a: "to_x r x width s = Inr a" and b: "to_x r x width e = Inr b"
    by (auto simp: res_bind_eq_Inr s_def e_def Let_def)
  show ?case
  proof (cases "b > l")
    case True
    with "2.prems"(1) a b obtain c cs' ops' where
      c: "colors_lookup (tr_colors r) (dr_value d) = Inr (c, cs')" and
      rest: "draw_ranges_loop (r\<lparr>tr_colors := cs'\<rparr>) x y width b ds = Inr (ops', r')" and
      ops: "ops = [Rectangle (PInt a) y (PInt (b - a)) (PInt 10), black, StrokePreserve,
                  SetSourceRgb (c_r c) (c_g c) (c_b c), Fill] @ ops'"
      by (auto simp: res_bind_eq_Inr s_def e_def Let_def)
    have "no_save ops' \<and> keeps_view (r\<lparr>tr_colors := cs'\<rparr>) r'"
      using "2.IH"(1) [OF s_def e_def a b True c _ rest] by (auto split: prod.splits)
    then show ?thesis using ops keeps_view_trans [OF keeps_view_colors] by auto
  next
    case False
    with "2.prems"(1) a b have "draw_ranges_loop r x y width l ds = Inr (ops, r')"
      by (simp add: s_def e_def Let_def)
    then show ?thesis using "2.IH"(2) [OF s_def e_def a b False] by auto
  qed
qed simp

lemma draw_ranges_ok:
  "draw_ranges d x y w h r = Inr (ops, r') \<Longrightarrow> no_save ops \<and> keeps_view r r'"
  by (auto simp: draw_ranges_def res_bind_eq_Inr split: prod.splits
      dest!: draw_ranges_loop_ok intro: keeps_view_trans)

lemma draw_rows_ok:
  assumes body: "\<And>a y r ops r'. body a y r = Inr (ops, r') \<Longrightarrow> no_save ops \<and> keeps_view r r'"
  shows "draw_rows ext nm body step as y r = Inr (ops, y', r') \<Longrightarrow> no_save ops \<and> keeps_view r r'"
proof (induction as arbitrary: y r ops y' r')
  case (Cons a as)
  then obtain o1 r1 o2 where 1: "body a y r = Inr (o1, r1)"
    and 2: "draw_rows ext nm body step as (y + (step r1 + tr_padding r1)) r1 = Inr (o2, y', r')"
    and ops: "ops = caption ext r (g_right_x_start (geometry r)) y (nm a) @ o1 @
       row_line r1 (y + (step r1 + tr_padding r1)) @ o2"
    by (auto simp: res_bind_eq_Inr Let_def)
  from body [OF 1] Cons.IH [OF 2] ops show ?case by (auto intro: keeps_view_trans)
qed simp

lemma draw_timeline_ok:
  assumes "draw_timeline ext t y r = Inr (ops, y', r')"
  shows "no_save ops \<and> keeps_view r r'"
proof -
  from assms obtain o1 y1 r1 o2 y2 r2 o3 y3 where
    1: "draw_rows ext te_name (\<lambda>e y r. draw_events str_int e (g_data_x_start (geometry r)) y (g_data_width (geometry r)) (event_step r) r)
        event_step (tl_event_int t) y r = Inr (o1, y1, r1)" and
    2: "draw_rows ext te_name (\<lambda>e y r. draw_events id e (g_data_x_start (geometry r)) y (g_data_width (geometry r)) (event_step r) r)
        event_step (tl_event_str t) y1 r1 = Inr (o2, y2, r2)" and
    3: "draw_rows ext tdr_name (\<lambda>d y r. draw_ranges d (g_data_x_start (geometry r)) y (g_data_width (geometry r)) (PInt 10) r)
        tr_max_text_height (tl_ranges t) y2 r2 = Inr (o3, y3, r')" and
    ops: "ops = caption ext r (g_left_x_start (geometry r)) y (tl_name t) @ o1 @ o2 @ o3 @
            draw_line (PInt 0) (y3 - num_half (tr_padding r')) (tr_width r') (PInt 0)"
    by (auto simp: draw_timeline_def res_bind_eq_Inr)
  have "no_save o1 \<and> keeps_view r r1" by (rule draw_rows_ok [OF _ 1]) (rule draw_events_ok)
  moreover have "no_save o2 \<and> keeps_view r1 r2" by (rule draw_rows_ok [OF _ 2]) (rule draw_events_ok)
  moreover have "no_save o3 \<and> keeps_view r2 r'" by (rule draw_rows_ok [OF _ 3]) (rule draw_ranges_ok)
  ultimately show ?thesis using ops by (auto intro: keeps_view_trans)
qed

lemma draw_timelines_ok:
  "draw_timelines ext ts y r = Inr (ops, y', r') \<Longrightarrow> no_save ops \<and> keeps_view r r'"
proof (induction ts arbitrary: y r ops y' r')
  case (Cons t ts)
  then obtain o1 y1 r1 o2 where 1: "draw_timeline ext t y r = Inr (o1, y1, r1)"
    and 2: "draw_timelines ext ts y1 r1 = Inr (o2, y', r')" and "ops = o1 @ o2"
    by (auto simp: res_bind_eq_Inr)
  with draw_timeline_ok [OF 1] Cons.IH [OF 2] show ?case by (auto intro: keeps_view_trans)
qed simp

lemma data_draw_ok: "data_draw ext r = Inr (ops, r') \<Longrightarrow> no_save ops \<and> keeps_view r r'"
  by (auto simp: data_draw_def res_bind_eq_Inr Let_def dest!: draw_timelines_ok
      intro: keeps_view_trans [OF keeps_view_grey])

lemma legend_draw_ok: "legend_draw ext l = Inr ops \<Longrightarrow> no_save ops"
proof -
  have "legend_draw_loop ext l f i ss = Inr ops \<Longrightarrow> no_save ops" for f i ss ops
    by (induction ext l f i ss arbitrary: ops rule: legend_draw_loop.induct)
       (auto simp: Let_def res_bind_eq_Inr legend_item_ops_def split: if_splits)
  then show "legend_draw ext l = Inr ops \<Longrightarrow> no_save ops" by (simp add: legend_draw_def)
qed

lemma concat_res_ok:
  "(\<And>x a. f x = Inr a \<Longrightarrow> no_save a) \<Longrightarrow> concat_res f xs = Inr ops \<Longrightarrow> no_save ops"
  by (induction xs arbitrary: ops) (auto simp: res_bind_eq_Inr)

lemma scale_draw_ok:
  assumes "scale_draw ext sc = Inr ops"
  shows "no_save ops"
proof -
  define s where "s = (if sc_top sc = 1 then PInt (- 1) else PInt 1)"
  have t: "no_save a" if "tick_ops ext sc s x = Inr a" for x a
    using that by (auto simp: tick_ops_def res_bind_eq_Inr Let_def)
  have u: "no_save a" if "subtick_ops sc s x = Inr a" for x a
    using that by (auto simp: subtick_ops_def res_bind_eq_Inr)
  from assms obtain xs ops1 where o1: "concat_res (tick_ops ext sc s) xs = Inr ops1" and
    rest: "(\<exists>ys subs. concat_res (subtick_ops sc s) ys = Inr subs \<and> ops = [black, SetLineWidth (PFlt 1)] @ ops1 @ subs)
       \<or> ops = [black, SetLineWidth (PFlt 1)] @ ops1"
    unfolding scale_draw_def res_bind_eq_Inr Let_def s_def [symmetric]
    by (auto simp: res_bind_eq_Inr split: if_splits)
  have "no_save ops1" by (rule concat_res_ok [OF t o1])
  moreover have "no_save subs" if "concat_res (subtick_ops sc s) ys = Inr subs" for ys subs
    by (rule concat_res_ok [OF u that])
  ultimately show ?thesis using rest by auto
qed


section \<open>The legend fits the height it asks for\<close>

text \<open>The bottom of the line an item is on never moves up as the items are placed.\<close>

lemma place_item_grows:
  assumes "0 \<le> num_val (f_line f)"
  shows "num_val (f_total f + f_line f) \<le> num_val (f_total (place_item p w e f) + f_line (place_item p w e f))"
    and "x_height e + p \<le> f_line (place_item p w e f)" and "0 \<le> num_val (f_line (place_item p w e f))"
  using assms by (auto simp: place_item_def Let_def num_simps)

lemma legend_flow_grows:
  "0 \<le> num_val (f_line f) \<Longrightarrow>
   num_val (f_total f + f_line f) \<le> num_val (f_total (foldl (\<lambda>f s. place_item p w (ext s) f) f ss) +
     f_line (foldl (\<lambda>f s. place_item p w (ext s) f) f ss))"
proof (induction ss arbitrary: f)
  case (Cons s ss)
  show ?case
    using place_item_grows(1,3) [OF Cons.prems, where p = p and w = w and e = "ext s"] Cons.IH [of "place_item p w (ext s) f"] by simp
qed simp

definition above :: "pynum \<Rightarrow> cairo_op list \<Rightarrow> bool" where
  "above y ops \<longleftrightarrow> (\<forall>a b c d. Rectangle a b c d \<in> set ops \<longrightarrow> b + d \<le> y) \<and>
     (\<forall>a b. MoveTo a b \<in> set ops \<longrightarrow> b \<le> y)"

lemma legend_loop_above:
  assumes "\<And>s. 0 \<le> num_val (x_height (ext s))" and p: "0 \<le> num_val (lg_padding l)"
  shows "legend_draw_loop ext l f i ss = Inr ops \<Longrightarrow> 0 \<le> num_val (f_line f) \<Longrightarrow>
    num_val (f_total (foldl (\<lambda>f s. place_item (lg_padding l) (lg_width l) (ext s) f) f ss) +
       f_line (foldl (\<lambda>f s. place_item (lg_padding l) (lg_width l) (ext s) f) f ss)) \<le> num_val y \<Longrightarrow> above y ops"
proof (induction ss arbitrary: f i ops)
  case (Cons s ss)
  define g where "g = place_item (lg_padding l) (lg_width l) (ext s) f"
  have g: "x_height (ext s) + lg_padding l \<le> f_line g" "0 \<le> num_val (f_line g)"
    using place_item_grows [OF Cons.prems(2)] by (simp_all add: g_def)
  from Cons.prems(1) obtain rest where rest: "legend_draw_loop ext l g (Suc i) ss = Inr rest"
    and ops: "ops = legend_item_ops ext (lg_padding l) g s (lg_colors l ! i) @ rest"
    by (auto simp: g_def [symmetric] Let_def res_bind_eq_Inr split: if_split_asm)
  have "num_val (f_total g + f_line g) \<le> num_val y"
    using order_trans [OF legend_flow_grows [OF g(2)]] Cons.prems(3) by (simp add: g_def)
  then have "above y (legend_item_ops ext (lg_padding l) g s (lg_colors l ! i))"
    using g assms(1) [of s] p by (auto simp: above_def legend_item_ops_def num_simps)
  moreover have "above y rest"
    using Cons.IH [OF rest g(2)] Cons.prems(3) by (simp add: g_def)
  ultimately show ?case using ops by (auto simp: above_def)
qed (simp add: above_def)

text \<open>The legend is drawn within the height its layout computed: no coloured box and no
  caption starts or ends below it, however the items were wrapped into lines.\<close>

theorem legend_fits:
  assumes "\<And>s. 0 \<le> num_val (x_height (ext s))" and "0 \<le> num_val (lg_padding l)"
    and "legend_draw ext (legend_layout ext width l) = Inr ops"
  shows "above (lg_height (legend_layout ext width l)) ops"
  by (rule legend_loop_above [OF assms(1) _ assms(3) [unfolded legend_draw_def]])
     (simp_all add: assms(2) legend_layout_def Let_def flow_start_def)

theorem legend_fits_witness:
  "above (PInt 46) (projr (legend_draw (\<lambda>s. \<lparr>x_y_bearing = PInt 0, x_width = PInt 30, x_height = PInt 8\<rparr>)
     (legend_layout (\<lambda>s. \<lparr>x_y_bearing = PInt 0, x_width = PInt 30, x_height = PInt 8\<rparr>) (PInt 100)
       (set_legends [''tx'', ''rx''] (replicate 2 (rgb 1 0 0)) new_top_legend))))"
proof -
  define ext :: measure_text where "ext = (\<lambda>s. \<lparr>x_y_bearing = PInt 0, x_width = PInt 30, x_height = PInt 8\<rparr>)"
  define l where "l = set_legends [''tx'', ''rx''] (replicate 2 (rgb 1 0 0)) new_top_legend"
  define ops where "ops = projr (legend_draw ext (legend_layout ext (PInt 100) l))"
  have run: "legend_draw ext (legend_layout ext (PInt 100) l) = Inr ops"
    by (simp add: ops_def legend_draw_def legend_layout_def l_def set_legends_def new_top_legend_def Let_def)
  have h: "lg_height (legend_layout ext (PInt 100) l) = PInt 46"
    by (simp add: legend_layout_def l_def set_legends_def new_top_legend_def flow_start_def place_item_def
        ext_def Let_def num_simps)
  have "above (lg_height (legend_layout ext (PInt 100) l)) ops"
    by (rule legend_fits [OF _ _ run]) (simp_all add: ext_def l_def set_legends_def new_top_legend_def)
  then have "above (PInt 46) ops" by (simp only: h)
  then show ?thesis unfolding ops_def l_def ext_def .
qed

end
