(* ===== verification/Grid_View.thy ===== *)
theory Grid_View
  imports Grid_Render
begin

text \<open>
  The interactive part of \<^verbatim>\<open>utils/grid.py\<close>: the picture with its selected range
  (\<open>GraphicRenderer\<close>), the widget that zooms, drags and redraws it
  (\<open>GtkGraphicRenderer\<close>), the window's callbacks and \<open>main\<close>.  A handler takes the
  widget's state and the event and returns the new state with the handler's result; a call
  of the toolkit that asks for a redraw is recorded.
\<close>

section \<open>The picture\<close>

record graphic =
  gr_start :: pynum
  gr_end :: pynum
  gr_mid_scale :: scale_renderer
  gr_bot_scale :: scale_renderer
  gr_width :: pynum
  gr_height :: pynum
  gr_r_start :: pynum
  gr_r_end :: pynum
  gr_data :: timelines_renderer
  gr_top_legend :: top_legend

definition new_timelines_renderer :: timelines_renderer where
  "new_timelines_renderer = \<lparr>tr_padding = PInt 10, tr_timelines = [], tr_colors = new_colors,
     tr_start = PInt 0, tr_end = PInt 0, tr_left_width = PInt 0, tr_right_width = PInt 0,
     tr_max_text_height = PInt 0, tr_width = PInt 0, tr_height = PInt 0, tr_grey = 0\<rparr>"

definition new_graphic :: "pynum \<Rightarrow> pynum \<Rightarrow> graphic" where
  "new_graphic start fin = \<lparr>gr_start = py_float start, gr_end = py_float fin,
     gr_mid_scale = set_top new_scale, gr_bot_scale = set_bot (set_bounds start fin new_scale),
     gr_width = PInt 1, gr_height = PInt 1, gr_r_start = PInt 0, gr_r_end = PInt 0,
     gr_data = new_timelines_renderer, gr_top_legend = new_top_legend\<rparr>"

definition set_data :: "timelines_renderer \<Rightarrow> graphic \<Rightarrow> graphic" where
  "set_data d g = g\<lparr>gr_data := d\<rparr>"

definition set_top_legend :: "top_legend \<Rightarrow> graphic \<Rightarrow> graphic" where
  "set_top_legend l g = g\<lparr>gr_top_legend := l\<rparr>"

definition get_range :: "graphic \<Rightarrow> pynum \<times> pynum" where
  "get_range g = (gr_r_start g, gr_r_end g)"

text \<open>Rectangles as \<open>x\<close>, \<open>y\<close>, width and height.\<close>

definition get_data_rectangle :: "graphic \<Rightarrow> pynum \<times> pynum \<times> pynum \<times> pynum" where
  "get_data_rectangle g =
     (let y_start = lg_height (gr_top_legend g); x_start = get_data_x_start (gr_data g)
      in (x_start, y_start, gr_width g - x_start, tr_height (gr_data g)))"

definition scale_data :: "graphic \<Rightarrow> pynum \<Rightarrow> pynum res" where
  "scale_data g x = res_bind (py_div x (gr_width g - get_data_x_start (gr_data g)))
     (\<lambda>q. Inr (q * (gr_r_end g - gr_r_start g)))"

definition get_selection_rectangle :: "graphic \<Rightarrow> (pynum \<times> pynum \<times> pynum \<times> pynum) res" where
  "get_selection_rectangle g =
     (let y_start = lg_height (gr_top_legend g) + tr_height (gr_data g) + sc_height (gr_mid_scale g) + PInt 20;
          y_height = sc_height (gr_bot_scale g) + PInt 20
      in res_bind (get_position (gr_bot_scale g) (gr_r_start g)) (\<lambda>x_start.
         res_bind (get_position (gr_bot_scale g) (gr_r_end g)) (\<lambda>x_end.
           Inr (x_start, y_start, x_end - x_start, y_height))))"

definition scale_selection :: "graphic \<Rightarrow> pynum \<Rightarrow> pynum res" where
  "scale_selection g x = res_bind (py_div x (gr_width g)) (\<lambda>q. Inr (q * (gr_end g - gr_start g)))"

definition graphic_layout :: "measure_text \<Rightarrow> pynum \<Rightarrow> pynum \<Rightarrow> graphic \<Rightarrow> graphic res" where
  "graphic_layout ext width height g =
     (let legend = legend_layout ext width (gr_top_legend g);
          data = data_layout ext width (gr_data g)
      in res_bind (scale_layout ext (width - get_data_x_start data) (gr_mid_scale g)) (\<lambda>mid.
         res_bind (scale_layout ext width (gr_bot_scale g)) (\<lambda>bot.
           Inr (g\<lparr>gr_width := width, gr_height := height, gr_top_legend := legend, gr_data := data,
                  gr_mid_scale := mid, gr_bot_scale := bot\<rparr>))))"

definition set_range :: "measure_text \<Rightarrow> pynum \<Rightarrow> pynum \<Rightarrow> graphic \<Rightarrow> graphic res" where
  "set_range ext start fin g =
     (let s = py_min start fin; e = py_max start fin;
          start = py_max (gr_start g) s; fin = py_min (gr_end g) e
      in graphic_layout ext (gr_width g) (gr_height g)
           (g\<lparr>gr_r_start := start, gr_r_end := fin, gr_data := set_render_range start fin (gr_data g),
              gr_mid_scale := set_bounds start fin (gr_mid_scale g)\<rparr>))"

definition separator :: "pynum \<Rightarrow> pynum \<Rightarrow> cairo_op list" where
  "separator width y = [MoveTo (PInt 0) y, LineTo width y, ClosePath, SetLineWidth (PInt 2), black, Stroke]"

text \<open>\<open>draw\<close> once the positions of the selection are known.\<close>

definition selection_ops :: "graphic \<Rightarrow> pynum \<Rightarrow> pynum \<Rightarrow> pynum \<Rightarrow> cairo_op list" where
  "selection_ops g height_used select_start select_end =
     (let zero = PInt 0; w = gr_width g; below = height_used + PInt 20;
          unused_height = sc_height (gr_bot_scale g) + PInt 20 in
      [MoveTo zero height_used, LineTo (get_data_x_start (gr_data g)) height_used,
       LineTo select_start below, LineTo zero below, LineTo zero height_used,
       black, SetLineWidth (PInt 1), StrokePreserve, grey, Fill,
       MoveTo w height_used, LineTo w below, LineTo select_end below, LineTo w height_used,
       black, SetLineWidth (PInt 1), StrokePreserve, grey, Fill] @
      [Rectangle zero below select_start unused_height,
       Rectangle select_end below (w - select_end) unused_height, grey, Fill] @
      [MoveTo select_end below, LineTo w below, LineTo w (below + unused_height),
       LineTo zero (below + unused_height), LineTo zero below, LineTo select_start below,
       ClosePath, SetLineWidth (PInt 2), black, Stroke,
       MoveTo select_start below, LineTo select_end below, ClosePath, SetLineWidth (PInt 1), grey, Stroke] @
      [Save, MoveTo (py_max select_start (PInt 2)) below, RelLineTo zero unused_height,
       MoveTo (py_min select_end (w - PInt 2)) below, RelLineTo zero unused_height,
       SetDash [PInt 5] (PInt 0), black, SetLineWidth (PInt 1), Stroke, Restore])"

definition graphic_draw :: "measure_text \<Rightarrow> graphic \<Rightarrow> (cairo_op list \<times> graphic) res" where
  "graphic_draw ext g =
     (let zero = PInt 0; w = gr_width g; top_legend_height = lg_height (gr_top_legend g);
          data_x = get_data_x_start (gr_data g);
          height_used = top_legend_height + tr_height (gr_data g) + sc_height (gr_mid_scale g)
      in res_bind (legend_draw ext (gr_top_legend g)) (\<lambda>legend.
         res_bind (data_draw ext (gr_data g)) (\<lambda>(data, r).
         res_bind (scale_draw ext (gr_mid_scale g)) (\<lambda>mid.
         res_bind (get_position (gr_bot_scale g) (gr_r_start g)) (\<lambda>select_start.
         res_bind (get_position (gr_bot_scale g) (gr_r_end g)) (\<lambda>select_end.
         res_bind (scale_draw ext (gr_bot_scale g)) (\<lambda>bot.
           Inr ([Save, white, SetOperatorSource, Rectangle zero zero w (gr_height g), Fill, Save] @
                legend @ [Restore] @ separator w top_legend_height @
                [Save, Translate zero top_legend_height] @ data @ [Restore] @
                [Save, Translate data_x height_used] @ mid @ [Restore] @
                [MoveTo data_x height_used, RelLineTo zero (- sc_height (gr_mid_scale g)), ClosePath, black,
                 SetLineWidth (PInt 2), Stroke] @
                separator w height_used @
                selection_ops g height_used select_start select_end @
                [Save, Translate zero (height_used + PInt 20)] @ bot @ [Restore],
                g\<lparr>gr_data := r\<rparr>))))))))"

section \<open>The widget\<close>

text \<open>
  An attribute that only a handler sets is \<open>None\<close> before; reading it then raises.
  \<open>moving_right\<close> starts as a boolean, but \<open>motion_notify\<close> stores the width in it.
\<close>

datatype flag = FBool bool | FNum pynum

fun truth :: "flag \<Rightarrow> bool" where
  "truth (FBool b) = b"
| "truth (FNum n) = (num_val n \<noteq> 0)"

record widget =
  w_data :: graphic
  w_moving_left :: bool
  w_moving_right :: flag
  w_moving_both :: bool
  w_moving_top :: bool
  w_force_full_redraw :: bool
  w_moving_left_cur :: "pynum option"
  w_moving_right_cur :: "pynum option"
  w_moving_both_start :: "pynum option"
  w_moving_both_cur :: "pynum option"
  w_moving_top_cur :: "pynum option"
  w_moving_top_start :: "pynum option"
  w_width :: "pynum option"
  w_height :: "pynum option"
  w_buffer :: "cairo_op list option"
  w_redraws :: nat

definition new_widget :: "graphic \<Rightarrow> widget" where
  "new_widget g = \<lparr>w_data = g, w_moving_left = False, w_moving_right = FBool False,
     w_moving_both = False, w_moving_top = False, w_force_full_redraw = True,
     w_moving_left_cur = None, w_moving_right_cur = None, w_moving_both_start = None,
     w_moving_both_cur = None, w_moving_top_cur = None, w_moving_top_start = None,
     w_width = None, w_height = None, w_buffer = None, w_redraws = 0\<rparr>"

definition get_attr :: "'a option \<Rightarrow> 'a res" where
  "get_attr a = (case a of None \<Rightarrow> Inl AttributeError | Some x \<Rightarrow> Inr x)"

definition queue_draw :: "widget \<Rightarrow> widget" where
  "queue_draw w = w\<lparr>w_redraws := Suc (w_redraws w)\<rparr>"

text \<open>\<open>self.__data.set_range(a, b); self.__force_full_redraw = True; self.queue_draw()\<close>.\<close>

definition change_range :: "measure_text \<Rightarrow> pynum \<Rightarrow> pynum \<Rightarrow> widget \<Rightarrow> widget res" where
  "change_range ext a b w = res_bind (set_range ext a b (w_data w)) (\<lambda>g.
     Inr (queue_draw (w\<lparr>w_data := g, w_force_full_redraw := True\<rparr>)))"

definition set_smaller_zoom :: "measure_text \<Rightarrow> widget \<Rightarrow> widget res" where
  "set_smaller_zoom ext w = (case get_range (w_data w) of (start, fin) \<Rightarrow>
     change_range ext start (start + (fin - start) * PInt 2) w)"

definition set_bigger_zoom :: "measure_text \<Rightarrow> widget \<Rightarrow> widget res" where
  "set_bigger_zoom ext w = (case get_range (w_data w) of (start, fin) \<Rightarrow>
     change_range ext start (start + num_half (fin - start)) w)"

text \<open>The drawing that the written surface holds, and the widget after drawing.\<close>

definition output_png :: "measure_text \<Rightarrow> widget \<Rightarrow> (cairo_op list \<times> widget) res" where
  "output_png ext w =
     (let surface = [] in
      res_bind (get_attr (w_buffer w)) (\<lambda>buffer.
      res_bind (graphic_draw ext (w_data w)) (\<lambda>(ops, g).
        Inr (surface, w\<lparr>w_data := g, w_buffer := Some (buffer @ ops)\<rparr>))))"

definition strictly_in :: "pynum \<Rightarrow> pynum \<Rightarrow> pynum \<Rightarrow> bool" where
  "strictly_in a lo hi \<longleftrightarrow> a > lo \<and> a < hi"

definition button_press :: "pynum \<Rightarrow> pynum \<Rightarrow> widget \<Rightarrow> (bool \<times> widget) res" where
  "button_press ex ey w =
     res_bind (get_selection_rectangle (w_data w)) (\<lambda>(x, y, width, height).
     case get_data_rectangle (w_data w) of (d_x, d_y, d_width, d_height) \<Rightarrow>
       if strictly_in ey y (y + height) \<and> py_abs (ex - x) < PInt 5 then
         Inr (True, w\<lparr>w_moving_left := True\<rparr>)
       else if strictly_in ey y (y + height) \<and> py_abs (ex - (x + width)) < PInt 5 then
         Inr (True, w\<lparr>w_moving_right := FBool True\<rparr>)
       else if strictly_in ey y (y + height) \<and> strictly_in ex x (x + width) then
         Inr (True, w\<lparr>w_moving_both := True, w_moving_both_start := Some ex, w_moving_both_cur := Some ex\<rparr>)
       else if strictly_in ey d_y (d_y + d_height) \<and> strictly_in ex d_x (d_x + d_width) then
         Inr (True, w\<lparr>w_moving_top := True, w_moving_top_start := Some ex, w_moving_top_cur := Some ex\<rparr>)
       else Inr (False, w))"

definition button_release :: "measure_text \<Rightarrow> widget \<Rightarrow> (bool \<times> widget) res" where
  "button_release ext w =
     (if w_moving_left w then
        let w = w\<lparr>w_moving_left := False\<rparr> in
        res_bind (get_attr (w_moving_left_cur w)) (\<lambda>cur.
        res_bind (scale_selection (w_data w) cur) (\<lambda>left.
        res_bind (change_range ext left (snd (get_range (w_data w))) w) (\<lambda>w'. Inr (True, w'))))
      else if truth (w_moving_right w) then
        let w = w\<lparr>w_moving_right := FBool False\<rparr> in
        res_bind (get_attr (w_moving_right_cur w)) (\<lambda>cur.
        res_bind (scale_selection (w_data w) cur) (\<lambda>right.
        res_bind (change_range ext (fst (get_range (w_data w))) right w) (\<lambda>w'. Inr (True, w'))))
      else if w_moving_both w then
        let w = w\<lparr>w_moving_both := False\<rparr> in
        res_bind (get_attr (w_moving_both_cur w)) (\<lambda>cur.
        res_bind (get_attr (w_moving_both_start w)) (\<lambda>st.
        res_bind (scale_selection (w_data w) (cur - st)) (\<lambda>delta.
          case get_range (w_data w) of (left, right) \<Rightarrow>
          res_bind (change_range ext (left + delta) (right + delta) w) (\<lambda>w'. Inr (True, w')))))
      else if w_moving_top w then Inr (False, w\<lparr>w_moving_top := False\<rparr>)
      else Inr (False, w))"

text \<open>The cursor that \<open>motion_notify\<close> sets when nothing is being dragged.\<close>

datatype cursor = HDoubleArrow | Fleur | DefaultCursor

definition motion_notify :: "measure_text \<Rightarrow> pynum \<Rightarrow> pynum \<Rightarrow> widget \<Rightarrow> (bool \<times> cursor option \<times> widget) res" where
  "motion_notify ext ex ey w =
     res_bind (get_selection_rectangle (w_data w)) (\<lambda>(x, y, width, height).
     if w_moving_left w then
       let cur = (if ex \<le> PInt 0 then PInt 0 else if ex \<ge> x + width then x + width else ex) in
       res_bind (get_attr (w_width w)) (\<lambda>_. Inr (True, None, queue_draw (w\<lparr>w_moving_left_cur := Some cur\<rparr>)))
     else if truth (w_moving_right w) then
       res_bind (get_attr (w_width w)) (\<lambda>ww.
         Inr (True, None, queue_draw
           (if ex \<ge> ww then w\<lparr>w_moving_right := FNum ww\<rparr>
            else if ex < x then w\<lparr>w_moving_right_cur := Some x\<rparr>
            else w\<lparr>w_moving_right_cur := Some ex\<rparr>)))
     else if w_moving_both w then
       res_bind (get_attr (w_width w)) (\<lambda>ww.
       res_bind (get_attr (w_moving_both_start w)) (\<lambda>st.
         let cur_e = ww - (x + width - st); cur_s = st - x;
             cur = (if ex < cur_s then cur_s else if ex > cur_e then cur_e else ex) in
         Inr (True, None, queue_draw (w\<lparr>w_moving_both_cur := Some cur\<rparr>))))
     else if w_moving_top w then
       res_bind (get_attr (w_moving_top_start w)) (\<lambda>st.
       res_bind (scale_data (w_data w) (st - ex)) (\<lambda>delta.
         case get_range (w_data w) of (left, right) \<Rightarrow>
         res_bind (change_range ext (left + delta) (right + delta) (w\<lparr>w_moving_top_cur := Some ex\<rparr>)) (\<lambda>w'.
           Inr (True, None, w'\<lparr>w_moving_top_start := Some ex\<rparr>))))
     else
       (case get_data_rectangle (w_data w) of (d_x, d_y, d_width, d_height) \<Rightarrow>
        if strictly_in ey y (y + height) \<and> (py_abs (ex - x) < PInt 5 \<or> py_abs (ex - (x + width)) < PInt 5) then
          Inr (True, Some HDoubleArrow, w)
        else if strictly_in ey y (y + height) \<and> strictly_in ex x (x + width) then Inr (True, Some Fleur, w)
        else if strictly_in ey d_y (d_y + d_height) \<and> strictly_in ex d_x (d_x + d_width) then Inr (True, Some Fleur, w)
        else Inr (False, Some DefaultCursor, w)))"

definition size_allocate :: "measure_text \<Rightarrow> pynum \<Rightarrow> pynum \<Rightarrow> widget \<Rightarrow> widget res" where
  "size_allocate ext width height w =
     res_bind (graphic_layout ext width height (w_data w)) (\<lambda>g.
       Inr (queue_draw (w\<lparr>w_width := Some width, w_height := Some height, w_data := g, w_force_full_redraw := True\<rparr>)))"

definition cursor_line :: "pynum \<Rightarrow> pynum \<Rightarrow> pynum \<Rightarrow> cairo_op list" where
  "cursor_line x y height = [MoveTo x y, RelLineTo (PInt 0) height, ClosePath, SetLineWidth (PInt 1), black, Stroke]"

definition expose ::
  "measure_text \<Rightarrow> pynum \<times> pynum \<times> pynum \<times> pynum \<Rightarrow> widget \<Rightarrow> (cairo_op list \<times> widget) res" where
  "expose ext area w =
     res_bind
       (if w_force_full_redraw w then
          res_bind (graphic_draw ext (w_data w)) (\<lambda>(ops, g).
            Inr (w\<lparr>w_buffer := Some ops, w_data := g, w_force_full_redraw := False\<rparr>))
        else Inr w) (\<lambda>w.
     res_bind (get_attr (w_buffer w)) (\<lambda>buffer.
     res_bind (get_selection_rectangle (w_data w)) (\<lambda>(x, y, width, height).
     case area of (ax, ay, aw, ah) \<Rightarrow>
     res_bind (if w_moving_left w then
         res_bind (get_attr (w_moving_left_cur w)) (\<lambda>cur. Inr (cursor_line (py_max cur (PInt 2)) y height))
       else Inr []) (\<lambda>l.
     res_bind (if truth (w_moving_right w) then
         res_bind (get_attr (w_moving_right_cur w)) (\<lambda>cur.
         res_bind (get_attr (w_width w)) (\<lambda>ww. Inr (cursor_line (py_min cur (ww - PInt 2)) y height)))
       else Inr []) (\<lambda>r.
     res_bind (if w_moving_both w then
         res_bind (get_attr (w_moving_both_cur w)) (\<lambda>cur.
         res_bind (get_attr (w_moving_both_start w)) (\<lambda>st.
           let delta_x = cur - st in
           Inr [MoveTo (x + delta_x) y, RelLineTo (PInt 0) height, ClosePath,
                MoveTo (x + width + delta_x) y, RelLineTo (PInt 0) height, ClosePath,
                black, SetLineWidth (PInt 1), Stroke]))
       else Inr []) (\<lambda>b.
       Inr ([Rectangle ax ay aw ah, Clip, SetSourceSurface buffer, Paint] @ l @ r @ b, w)))))))"

section \<open>The program\<close>

text \<open>\<open>main\<close>: the widget that the window shows for the lines of a data file.\<close>

definition default_range :: "int \<Rightarrow> int \<Rightarrow> int \<times> int" where
  "default_range lower_bound upper_bound =
     (let range_mid = (upper_bound - lower_bound) div 2;
          range_width = (upper_bound - lower_bound) div 10;
          range_lo = range_mid - range_width div 2;
          range_hi = range_mid + range_width div 2
      in (range_lo, range_hi))"

definition grid_main :: "measure_text \<Rightarrow> (string list \<Rightarrow> string list) \<Rightarrow> string list \<Rightarrow> widget res" where
  "grid_main ext order lines =
     (case read_data lines of (cs, ts) \<Rightarrow>
      case timelines_bounds ts of (lower_bound, upper_bound) \<Rightarrow>
      let g = new_graphic (PInt lower_bound) (PInt upper_bound);
          range_values = get_all_range_values order ts in
      res_bind (lookup_each cs range_values) (\<lambda>(range_colors, cs').
        let g = set_top_legend (set_legends range_values range_colors new_top_legend) g;
            g = set_data (set_timelines ts cs' new_timelines_renderer) g in
        case default_range lower_bound upper_bound of (range_lo, range_hi) \<Rightarrow>
        res_bind (set_range ext (PInt range_lo) (PInt range_hi) g) (\<lambda>g'. Inr (new_widget g'))))"

section \<open>Saved states of the context\<close>

text \<open>Running the instructions, the number of saved states; none when \<open>Restore\<close> finds none.\<close>

fun save_depth :: "nat \<Rightarrow> cairo_op list \<Rightarrow> nat option" where
  "save_depth n [] = Some n"
| "save_depth n (Save # ops) = save_depth (Suc n) ops"
| "save_depth 0 (Restore # ops) = None"
| "save_depth (Suc n) (Restore # ops) = save_depth n ops"
| "save_depth n (x # ops) = save_depth n ops"

lemma save_depth_skip: "x \<noteq> Save \<Longrightarrow> x \<noteq> Restore \<Longrightarrow> save_depth n (x # ops) = save_depth n ops"
  by (cases x) auto

lemma save_depth_no_save: "no_save a \<Longrightarrow> save_depth n (a @ b) = save_depth n b"
  by (induction a) (auto simp: save_depth_skip)

lemma no_save_separator [simp]: "no_save (separator w y)"
  by (simp add: separator_def)

lemma save_depth_selection: "save_depth n (selection_ops g h a b @ ops) = save_depth n ops"
  by (simp add: selection_ops_def Let_def)

text \<open>A drawing of the whole picture never restores a state that was not saved, and the one
  state it saves first stays saved at the end: every call leaves one more on the context.\<close>

theorem graphic_draw_save_depth:
  assumes "graphic_draw ext g = Inr (ops, g')"
  shows "save_depth n ops = Some (Suc n)"
proof -
  from assms obtain legend data r mid a b bot where
    parts: "legend_draw ext (gr_top_legend g) = Inr legend" "data_draw ext (gr_data g) = Inr (data, r)"
      "scale_draw ext (gr_mid_scale g) = Inr mid" "scale_draw ext (gr_bot_scale g) = Inr bot" and
    ops: "ops = [Save, white, SetOperatorSource, Rectangle (PInt 0) (PInt 0) (gr_width g) (gr_height g), Fill, Save] @
                legend @ [Restore] @ separator (gr_width g) (lg_height (gr_top_legend g)) @
                [Save, Translate (PInt 0) (lg_height (gr_top_legend g))] @ data @ [Restore] @
                [Save, Translate (get_data_x_start (gr_data g)) (lg_height (gr_top_legend g) + tr_height (gr_data g) + sc_height (gr_mid_scale g))] @ mid @ [Restore] @
                [MoveTo (get_data_x_start (gr_data g)) (lg_height (gr_top_legend g) + tr_height (gr_data g) + sc_height (gr_mid_scale g)),
                 RelLineTo (PInt 0) (- sc_height (gr_mid_scale g)), ClosePath, black,
                 SetLineWidth (PInt 2), Stroke] @
                separator (gr_width g) (lg_height (gr_top_legend g) + tr_height (gr_data g) + sc_height (gr_mid_scale g)) @
                selection_ops g (lg_height (gr_top_legend g) + tr_height (gr_data g) + sc_height (gr_mid_scale g)) a b @
                [Save, Translate (PInt 0) (lg_height (gr_top_legend g) + tr_height (gr_data g) + sc_height (gr_mid_scale g) + PInt 20)] @ bot @ [Restore]"
    by (auto simp: graphic_draw_def res_bind_eq_Inr Let_def)
  have plain: "no_save legend" "no_save data" "no_save mid" "no_save bot"
    using parts legend_draw_ok data_draw_ok scale_draw_ok by blast+
  show ?thesis unfolding ops
    by (simp add: save_depth_no_save [OF plain(1)] save_depth_no_save [OF plain(2)]
        save_depth_no_save [OF plain(3)] save_depth_no_save [OF plain(4)]
        save_depth_no_save [OF no_save_separator] save_depth_selection)
qed

section \<open>The selected range\<close>

lemma graphic_layout_keeps:
  "graphic_layout ext w h g = Inr g' \<Longrightarrow> gr_start g' = gr_start g \<and> gr_end g' = gr_end g \<and>
     gr_r_start g' = gr_r_start g \<and> gr_r_end g' = gr_r_end g \<and>
     tr_start (gr_data g') = tr_start (gr_data g) \<and> tr_end (gr_data g') = tr_end (gr_data g) \<and>
     sc_lo (gr_mid_scale g') = sc_lo (gr_mid_scale g) \<and> sc_hi (gr_mid_scale g') = sc_hi (gr_mid_scale g)"
  by (auto simp: graphic_layout_def res_bind_eq_Inr Let_def scale_layout_def data_layout_def)

text \<open>The selection lies in the data's bounds, and the rows and the scale below show it.\<close>

definition view_ok :: "graphic \<Rightarrow> bool" where
  "view_ok g \<longleftrightarrow> gr_start g \<le> gr_r_start g \<and> gr_r_end g \<le> gr_end g \<and>
     tr_start (gr_data g) = gr_r_start g \<and> tr_end (gr_data g) = gr_r_end g \<and>
     sc_lo (gr_mid_scale g) = gr_r_start g \<and> sc_hi (gr_mid_scale g) = gr_r_end g"

definition same_bounds :: "graphic \<Rightarrow> graphic \<Rightarrow> bool" where
  "same_bounds g g' \<longleftrightarrow> gr_start g' = gr_start g \<and> gr_end g' = gr_end g"

lemma set_range_ok: "set_range ext a b g = Inr g' \<Longrightarrow> view_ok g' \<and> same_bounds g g'"
  by (auto simp: set_range_def Let_def view_ok_def same_bounds_def set_render_range_def set_bounds_def num_simps
      dest!: graphic_layout_keeps)

lemma graphic_layout_ok: "graphic_layout ext w h g = Inr g' \<Longrightarrow> view_ok g \<Longrightarrow> view_ok g' \<and> same_bounds g g'"
  by (auto simp: view_ok_def same_bounds_def dest!: graphic_layout_keeps)

lemma graphic_draw_ok: "graphic_draw ext g = Inr (ops, g') \<Longrightarrow> view_ok g \<Longrightarrow> view_ok g' \<and> same_bounds g g'"
  by (auto simp: graphic_draw_def res_bind_eq_Inr Let_def view_ok_def same_bounds_def
      dest!: data_draw_ok keeps_view_fields)

section \<open>The widget as a state machine\<close>

text \<open>One event of the toolkit or of the window's buttons, handled without an exception.\<close>

inductive widget_step :: "measure_text \<Rightarrow> widget \<Rightarrow> widget \<Rightarrow> bool" for ext where
  press: "button_press ex ey w = Inr (b, w') \<Longrightarrow> widget_step ext w w'"
| release: "button_release ext w = Inr (b, w') \<Longrightarrow> widget_step ext w w'"
| motion: "motion_notify ext ex ey w = Inr (b, c, w') \<Longrightarrow> widget_step ext w w'"
| allocate: "size_allocate ext wd ht w = Inr w' \<Longrightarrow> widget_step ext w w'"
| redraw: "expose ext area w = Inr (ops, w') \<Longrightarrow> widget_step ext w w'"
| zoom_out: "set_smaller_zoom ext w = Inr w' \<Longrightarrow> widget_step ext w w'"
| zoom_in: "set_bigger_zoom ext w = Inr w' \<Longrightarrow> widget_step ext w w'"
| png: "output_png ext w = Inr (ops, w') \<Longrightarrow> widget_step ext w w'"

text \<open>Besides the selection: what a drag has set when it runs.\<close>

definition drag_ok :: "widget \<Rightarrow> bool" where
  "drag_ok w \<longleftrightarrow> (w_moving_both w \<longrightarrow> w_moving_both_start w \<noteq> None \<and> w_moving_both_cur w \<noteq> None) \<and>
     (w_moving_top w \<longrightarrow> w_moving_top_start w \<noteq> None)"

definition widget_ok :: "widget \<Rightarrow> bool" where
  "widget_ok w \<longleftrightarrow> view_ok (w_data w) \<and> drag_ok w"

lemma change_range_ok:
  "change_range ext a b w = Inr w' \<Longrightarrow> view_ok (w_data w') \<and> same_bounds (w_data w) (w_data w') \<and> (drag_ok w \<longrightarrow> drag_ok w')"
  by (auto simp: change_range_def res_bind_eq_Inr queue_draw_def drag_ok_def dest!: set_range_ok)

lemma same_bounds_refl [simp]: "same_bounds g g"
  by (simp add: same_bounds_def)

lemma button_press_ok:
  assumes "button_press ex ey w = Inr (b, w')" and "widget_ok w"
  shows "widget_ok w' \<and> same_bounds (w_data w) (w_data w')"
proof -
  obtain dx dy dw dh where d: "get_data_rectangle (w_data w) = (dx, dy, dw, dh)"
    by (cases "get_data_rectangle (w_data w)") auto
  obtain x y sw sh where sel: "get_selection_rectangle (w_data w) = Inr (x, y, sw, sh)"
    using assms(1) by (auto simp: button_press_def res_bind_eq_Inr)
  have "w' = w\<lparr>w_moving_left := True\<rparr> \<or> w' = w\<lparr>w_moving_right := FBool True\<rparr> \<or>
    w' = w\<lparr>w_moving_both := True, w_moving_both_start := Some ex, w_moving_both_cur := Some ex\<rparr> \<or>
    w' = w\<lparr>w_moving_top := True, w_moving_top_start := Some ex, w_moving_top_cur := Some ex\<rparr> \<or> w' = w"
    using assms(1) unfolding button_press_def d sel res_bind_Inr prod.case
    by (simp split: if_split_asm)
  with assms(2) show ?thesis
    by (elim disjE) (simp_all add: widget_ok_def drag_ok_def)
qed

lemma button_release_ok:
  assumes "button_release ext w = Inr (b, w')" and "widget_ok w"
  shows "widget_ok w' \<and> same_bounds (w_data w) (w_data w')"
proof -
  obtain l r where lr: "get_range (w_data w) = (l, r)" by fastforce
  have d: "drag_ok (w\<lparr>w_moving_left := x\<rparr>)" "drag_ok (w\<lparr>w_moving_right := y\<rparr>)" "drag_ok (w\<lparr>w_moving_both := False\<rparr>)"
    "drag_ok (w\<lparr>w_moving_top := False\<rparr>)" for x y
    using assms(2) by (auto simp: widget_ok_def drag_ok_def)
  consider (left) v a b where "change_range ext a b (w\<lparr>w_moving_left := v\<rparr>) = Inr w'"
    | (right) v a b where "change_range ext a b (w\<lparr>w_moving_right := v\<rparr>) = Inr w'"
    | (both) a b where "change_range ext a b (w\<lparr>w_moving_both := False\<rparr>) = Inr w'"
    | (top) "w' = w\<lparr>w_moving_top := False\<rparr>" | (none) "w' = w"
    using assms(1) unfolding button_release_def
    by (auto simp: res_bind_eq_Inr Let_def lr split: if_splits)
  then show ?thesis
  proof cases
    case left
    from change_range_ok [OF this] d show ?thesis by (simp add: widget_ok_def)
  next
    case right
    from change_range_ok [OF this] d show ?thesis by (simp add: widget_ok_def)
  next
    case both
    from change_range_ok [OF this] d show ?thesis by (simp add: widget_ok_def)
  qed (use assms(2) d in \<open>simp_all add: widget_ok_def\<close>)
qed

lemma motion_notify_ok:
  assumes "motion_notify ext ex ey w = Inr (b, c, w')" and "widget_ok w"
  shows "widget_ok w' \<and> same_bounds (w_data w) (w_data w')"
proof -
  obtain dx dy dw dh where d: "get_data_rectangle (w_data w) = (dx, dy, dw, dh)"
    by (cases "get_data_rectangle (w_data w)") auto
  obtain l r where lr: "get_range (w_data w) = (l, r)" by fastforce
  obtain x y sw sh where sel: "get_selection_rectangle (w_data w) = Inr (x, y, sw, sh)"
    using assms(1) by (auto simp: motion_notify_def res_bind_eq_Inr)
  note run = assms(1) [unfolded motion_notify_def d sel lr res_bind_Inr prod.case Let_def]
  consider v where "w' = queue_draw (w\<lparr>w_moving_left_cur := v\<rparr>)"
    | v where "w' = queue_draw (w\<lparr>w_moving_right_cur := v\<rparr>)"
    | v where "w' = queue_draw (w\<lparr>w_moving_right := v\<rparr>)"
    | v where "w_moving_both w" "w' = queue_draw (w\<lparr>w_moving_both_cur := Some v\<rparr>)"
    | (top) a b v w1 where "change_range ext a b (w\<lparr>w_moving_top_cur := v\<rparr>) = Inr w1"
        "w' = w1\<lparr>w_moving_top_start := Some ex\<rparr>"
    | "w' = w"
  proof (cases "w_moving_left w")
    case True
    with run show ?thesis using that(1) by (simp add: res_bind_eq_Inr, metis)
  next
    case l: False
    show ?thesis
    proof (cases "truth (w_moving_right w)")
      case True
      with l run show ?thesis using that(2,3) by (simp add: res_bind_eq_Inr split: if_split_asm, metis+)
    next
      case r: False
      show ?thesis
      proof (cases "w_moving_both w")
        case True
        with l r run show ?thesis using that(4) by (simp add: res_bind_eq_Inr, metis)
      next
        case False
        with l r run show ?thesis using that(5,6)
          by (cases "w_moving_top w") (auto simp: res_bind_eq_Inr split: if_split_asm)
      qed
    qed
  qed
  then show ?thesis
  proof cases
    case top
    have "drag_ok (w\<lparr>w_moving_top_cur := v\<rparr>)" using assms(2) by (auto simp: widget_ok_def drag_ok_def)
    with change_range_ok [OF top(1)] top(2) show ?thesis by (auto simp: widget_ok_def drag_ok_def)
  qed (use assms(2) in \<open>auto simp: widget_ok_def drag_ok_def queue_draw_def\<close>)
qed

lemma size_allocate_ok:
  "size_allocate ext wd ht w = Inr w' \<Longrightarrow> widget_ok w \<Longrightarrow> widget_ok w' \<and> same_bounds (w_data w) (w_data w')"
  by (auto simp: size_allocate_def res_bind_eq_Inr queue_draw_def widget_ok_def drag_ok_def dest!: graphic_layout_ok)

lemma expose_ok:
  assumes "expose ext area w = Inr (ops, w')" and "widget_ok w"
  shows "widget_ok w' \<and> same_bounds (w_data w) (w_data w')"
proof -
  obtain ax ay aw ah where area: "area = (ax, ay, aw, ah)" by (cases area) auto
  from assms(1) have "w' = w \<or> (\<exists>o1 g. graphic_draw ext (w_data w) = Inr (o1, g) \<and>
      w' = w\<lparr>w_buffer := Some o1, w_data := g, w_force_full_redraw := False\<rparr>)"
    unfolding expose_def area
    by (cases "w_force_full_redraw w") (auto simp: res_bind_eq_Inr)
  with assms(2) show ?thesis
    by (auto simp: widget_ok_def drag_ok_def dest!: graphic_draw_ok)
qed

lemma zoom_ok:
  "set_smaller_zoom ext w = Inr w' \<Longrightarrow> widget_ok w \<Longrightarrow> widget_ok w' \<and> same_bounds (w_data w) (w_data w')"
  "set_bigger_zoom ext w = Inr w' \<Longrightarrow> widget_ok w \<Longrightarrow> widget_ok w' \<and> same_bounds (w_data w) (w_data w')"
  by (auto simp: set_smaller_zoom_def set_bigger_zoom_def widget_ok_def split: prod.splits dest!: change_range_ok)

lemma output_png_ok:
  "output_png ext w = Inr (ops, w') \<Longrightarrow> widget_ok w \<Longrightarrow> widget_ok w' \<and> same_bounds (w_data w) (w_data w')"
  by (auto simp: output_png_def res_bind_eq_Inr widget_ok_def drag_ok_def Let_def dest!: graphic_draw_ok)

lemma widget_step_ok: "widget_step ext w w' \<Longrightarrow> widget_ok w \<Longrightarrow> widget_ok w' \<and> same_bounds (w_data w) (w_data w')"
proof (induction rule: widget_step.induct)
  case press then show ?case by (rule button_press_ok)
next
  case release then show ?case by (rule button_release_ok)
next
  case motion then show ?case by (rule motion_notify_ok)
next
  case allocate then show ?case by (rule size_allocate_ok)
next
  case redraw then show ?case by (rule expose_ok)
next
  case zoom_out then show ?case by (rule zoom_ok(1))
next
  case zoom_in then show ?case by (rule zoom_ok(2))
next
  case png then show ?case by (rule output_png_ok)
qed

lemma grid_main_ok:
  assumes "grid_main ext order lines = Inr w"
  shows "widget_ok w \<and> gr_start (w_data w) = py_float (PInt (fst (timelines_bounds (snd (read_data lines))))) \<and>
     gr_end (w_data w) = py_float (PInt (snd (timelines_bounds (snd (read_data lines)))))"
proof -
  obtain cs ts where rd: "read_data lines = (cs, ts)" by fastforce
  obtain lo hi where b: "timelines_bounds ts = (lo, hi)" by fastforce
  obtain rl rh where dr: "default_range lo hi = (rl, rh)" by fastforce
  show ?thesis using assms unfolding grid_main_def rd b Let_def
    by (auto simp: dr rd b res_bind_eq_Inr widget_ok_def drag_ok_def new_widget_def same_bounds_def
        set_data_def set_top_legend_def new_graphic_def dest!: set_range_ok)
qed



section \<open>A concrete run\<close>

definition demo_text :: measure_text where
  "demo_text s = \<lparr>x_y_bearing = PInt (- 6), x_width = PInt (6 * int (length s)), x_height = PInt 8\<rparr>"

definition demo_lines :: "string list" where
  "demo_lines = [''range a up tx 0 60'', ''event-int a q 7 30'', ''range b up rx 40 100'']"

lemma demo_main_runs: "\<not> isl (grid_main demo_text id demo_lines)"
  by code_simp

definition demo_widget :: widget where
  "demo_widget = projr (grid_main demo_text id demo_lines)"

lemma demo_main: "grid_main demo_text id demo_lines = Inr demo_widget"
  using demo_main_runs by (simp add: demo_widget_def)

lemma demo_draw_runs: "\<not> isl (graphic_draw demo_text (w_data demo_widget))"
  by code_simp

theorem graphic_draw_save_depth_witness:
  "\<exists>ops g'. graphic_draw demo_text (w_data demo_widget) = Inr (ops, g') \<and> save_depth 0 ops = Some (Suc 0)"
proof -
  obtain ops g' where "graphic_draw demo_text (w_data demo_widget) = Inr (ops, g')"
    using demo_draw_runs by (cases "graphic_draw demo_text (w_data demo_widget)") auto
  with graphic_draw_save_depth [OF this] show ?thesis by blast
qed

lemma demo_zoom_runs: "\<not> isl (set_bigger_zoom demo_text demo_widget)"
  by code_simp



section \<open>Handlers that fail\<close>

text \<open>Pressing the button on the left handle of the selection and releasing it before the mouse
  has moved raises an \<open>AttributeError\<close>: the position it reads is only set by a motion.\<close>

theorem left_handle_click_raises:
  assumes "get_selection_rectangle (w_data w) = Inr (x, y, sw, sh)"
    and "strictly_in ey y (y + sh)" and "py_abs (ex - x) < PInt 5" and "w_moving_left_cur w = None"
  shows "\<exists>w'. button_press ex ey w = Inr (True, w') \<and> button_release ext w' = Inl AttributeError"
proof -
  have "button_press ex ey w = Inr (True, w\<lparr>w_moving_left := True\<rparr>)"
    using assms by (simp add: button_press_def split: prod.split)
  moreover have "button_release ext (w\<lparr>w_moving_left := True\<rparr>) = Inl AttributeError"
    using assms(4) by (simp add: button_release_def get_attr_def)
  ultimately show ?thesis by blast
qed

lemma demo_selection_value: "get_selection_rectangle (w_data demo_widget) = Inr (PInt 0, PInt 165, PInt 0, PInt 38)"
  by code_simp

lemma demo_no_left: "w_moving_left_cur demo_widget = None"
  by code_simp

theorem left_handle_click_raises_witness:
  "\<exists>w'. button_press (PInt 1) (PInt 180) demo_widget = Inr (True, w') \<and> button_release demo_text w' = Inl AttributeError"
  by (rule left_handle_click_raises [OF demo_selection_value])
     (simp_all add: strictly_in_def num_simps demo_no_left)

text \<open>While the right handle is dragged, a motion to the right edge of the window or beyond
  leaves the handle's position where it was - or unset - and puts the window's width into the flag
  that says the handle is being dragged; the selection does not follow the mouse to the edge.\<close>

theorem right_handle_ignores_edge:
  assumes "get_selection_rectangle (w_data w) = Inr (x, y, sw, sh)" and "\<not> w_moving_left w"
    and "truth (w_moving_right w)" and "w_width w = Some ww" and "ww \<le> ex"
  shows "\<exists>w'. motion_notify ext ex ey w = Inr (True, None, w') \<and> w_moving_right w' = FNum ww \<and>
     w_moving_right_cur w' = w_moving_right_cur w"
  using assms by (simp add: motion_notify_def get_attr_def queue_draw_def)

definition demo_drag :: widget where
  "demo_drag = demo_widget\<lparr>w_width := Some (PInt 1), w_moving_right := FBool True\<rparr>"

lemma demo_not_left: "\<not> w_moving_left demo_widget"
  by code_simp

theorem right_handle_ignores_edge_witness:
  "\<exists>w'. motion_notify demo_text (PInt 500) (PInt 180) demo_drag = Inr (True, None, w') \<and>
     w_moving_right w' = FNum (PInt 1) \<and> w_moving_right_cur w' = w_moving_right_cur demo_drag"
  by (rule right_handle_ignores_edge [where x = "PInt 0" and y = "PInt 165" and sw = "PInt 0" and sh = "PInt 38"])
     (simp_all add: demo_drag_def demo_selection_value demo_not_left num_simps)

text \<open>With times that end before 20 the range selected at the start is empty, and drawing it
  divides by zero as soon as a row shows the instant that is left: the file below opens a window
  that fails at its first redraw.\<close>

theorem short_data_fails_to_draw:
  "(0 \<le> u \<and> u < 20 \<longleftrightarrow> fst (default_range 0 u) = snd (default_range 0 u) \<and> 0 \<le> u) \<and>
   (case grid_main demo_text id [''range a up tx 0 10''] of
      Inl e \<Rightarrow> False
    | Inr w \<Rightarrow> expose demo_text (PInt 0, PInt 0, PInt 1, PInt 1) w = Inl ZeroDivisionError)"
proof -
  have "case grid_main demo_text id [''range a up tx 0 10''] of
      Inl e \<Rightarrow> False
    | Inr w \<Rightarrow> expose demo_text (PInt 0, PInt 0, PInt 1, PInt 1) w = Inl ZeroDivisionError"
    by code_simp
  moreover have "0 \<le> u \<and> u < 20 \<longleftrightarrow> fst (default_range 0 u) = snd (default_range 0 u) \<and> 0 \<le> u"
    by (auto simp: default_range_def Let_def)
  ultimately show ?thesis by blast
qed

end
