(* ===== verification/Build_Config.thy ===== *)
theory Build_Config
  imports Py_Prelude
begin

text \<open>
  The reader of configuration files, \<^verbatim>\<open>utils.py\<close>, that \<^verbatim>\<open>test.py\<close> and the waf scripts use:
  lists and booleans are looked for in files of Python assignments, line by line.  Python's
  \<open>eval\<close> is the parameter \<open>ev\<close>, and a file system maps a path to the text of the file.
\<close>

type_synonym file_system = "string \<Rightarrow> string option"

text \<open>\<open>(line, comment) = line.split('#', 1)\<close>: the part before the first \<open>#\<close>.\<close>

definition strip_comment :: "string \<Rightarrow> string" where
  "strip_comment line = takeWhile (\<lambda>c. c \<noteq> CHR ''#'') line"

text \<open>\<open>eval(s.split('=', 1)[1].strip())\<close>.\<close>

definition eval_after_eq :: "(string \<Rightarrow> 'v res) \<Rightarrow> string \<Rightarrow> 'v res" where
  "eval_after_eq ev s = (case split_once CHR ''='' s of
      [a, b] \<Rightarrow> ev (strip b)
    | _ \<Rightarrow> Inl IndexError)"

section \<open>Lists\<close>

text \<open>The loop over the lines: the text collected so far, and whether a list has begun.\<close>

fun list_loop :: "(string \<Rightarrow> 'v list res) \<Rightarrow> string \<Rightarrow> string \<Rightarrow> bool \<Rightarrow> string list \<Rightarrow> 'v list res" where
  "list_loop ev list_name list_string multi [] = Inr []"
| "list_loop ev list_name list_string multi (line # lines) =
     (let line = strip_comment line in
      if substr_in list_name line \<or> multi then
        let list_string = list_string @ line in
        if CHR '']'' \<notin> set list_string then list_loop ev list_name list_string True lines
        else eval_after_eq ev list_string
      else list_loop ev list_name list_string multi lines)"

definition get_list_from_file :: "(string \<Rightarrow> 'v list res) \<Rightarrow> file_system \<Rightarrow> string \<Rightarrow> string \<Rightarrow> 'v list res" where
  "get_list_from_file ev fs file_path list_name = (case fs file_path of
      None \<Rightarrow> Inr []
    | Some txt \<Rightarrow> list_loop ev list_name [] False (file_lines txt))"

section \<open>Booleans\<close>

text \<open>The value of the first line that mentions the name, or none.\<close>

fun bool_loop :: "(string \<Rightarrow> 'v res) \<Rightarrow> string \<Rightarrow> string list \<Rightarrow> 'v option res" where
  "bool_loop ev bool_name [] = Inr None"
| "bool_loop ev bool_name (line # lines) =
     (let line = strip_comment line in
      if substr_in bool_name line then res_bind (eval_after_eq ev line) (\<lambda>v. Inr (Some v))
      else bool_loop ev bool_name lines)"

text \<open>Without the file \<open>bool_found\<close> is never assigned, and reading it raises.\<close>

definition get_bool_from_file :: "(string \<Rightarrow> 'v res) \<Rightarrow> file_system \<Rightarrow> string \<Rightarrow> string \<Rightarrow> 'v \<Rightarrow> 'v res" where
  "get_bool_from_file ev fs file_path bool_name value_if_missing = (case fs file_path of
      None \<Rightarrow> Inl UnboundLocalError
    | Some txt \<Rightarrow> res_bind (bool_loop ev bool_name (file_lines txt)) (\<lambda>found. (case found of
          Some v \<Rightarrow> Inr v
        | None \<Rightarrow> Inr value_if_missing)))"

section \<open>The configuration file\<close>

text \<open>\<open>home\<close> is \<open>os.path.expanduser('~/')\<close>.\<close>

definition read_config_file ::
  "(string \<Rightarrow> string list res) \<Rightarrow> (string \<Rightarrow> bool res) \<Rightarrow> file_system \<Rightarrow> string
     \<Rightarrow> (bool \<times> string list \<times> bool \<times> bool) res" where
  "read_config_file evl evb fs home =
     (let all_modules = [''all_modules''];
          local = ''.ns3rc'';
          path = (if fs local \<noteq> None then Some local
                  else if fs (home @ local) \<noteq> None then Some (home @ local) else None)
      in case path of
        None \<Rightarrow> Inr (False, all_modules, False, False)
      | Some p \<Rightarrow>
          res_bind (get_list_from_file evl fs p ''modules_enabled'') (\<lambda>modules_enabled.
          let modules_enabled = (if modules_enabled = [] then all_modules else modules_enabled) in
          res_bind (get_bool_from_file evb fs p ''examples_enabled'' False) (\<lambda>examples_enabled.
          res_bind (get_bool_from_file evb fs p ''tests_enabled'' False) (\<lambda>tests_enabled.
            Inr (True, modules_enabled, examples_enabled, tests_enabled)))))"

section \<open>What is found\<close>

lemma list_loop_skips:
  "(\<forall>l \<in> set pre. \<not> substr_in nm (strip_comment l)) \<Longrightarrow>
   list_loop ev nm acc False (pre @ ls) = list_loop ev nm acc False ls"
  by (induction pre) (simp_all add: Let_def)

lemma list_loop_multi:
  "CHR '']'' \<notin> set (acc @ concat (map strip_comment mid)) \<Longrightarrow> CHR '']'' \<in> set (strip_comment fin) \<Longrightarrow>
   list_loop ev nm acc True (mid @ fin # rest) = eval_after_eq ev (acc @ concat (map strip_comment mid) @ strip_comment fin)"
  by (induction mid arbitrary: acc) (simp_all add: Let_def)

lemma split_once_eq: "c \<notin> set a \<Longrightarrow> split_once c (a @ c # b) = [a, b]"
proof -
  assume "c \<notin> set a"
  then have "takeWhile (\<lambda>x. x \<noteq> c) (a @ c # b) = a" by (induction a) auto
  then show ?thesis by simp
qed

declare split_once.simps [simp del]

lemma eval_after_eq_assign: "CHR ''='' \<notin> set a \<Longrightarrow> eval_after_eq ev (a @ CHR ''='' # b) = ev (strip b)"
  by (simp add: eval_after_eq_def split_once_eq)

text \<open>A list is read from the first line that mentions its name to the first line that closes
  a bracket, comments left out; the lines after it and the lines before it have no effect.\<close>

theorem get_list_from_file_finds:
  assumes text_of: "fs path = Some content" "file_lines content = pre @ (mid @ [fin]) @ rest"
    and pre: "\<forall>l \<in> set pre. \<not> substr_in nm (strip_comment l)"
    and first: "substr_in nm (strip_comment (hd (mid @ [fin])))"
    and closes: "CHR '']'' \<notin> set (concat (map strip_comment mid))" "CHR '']'' \<in> set (strip_comment fin)"
    and assign: "concat (map strip_comment (mid @ [fin])) = lhs @ CHR ''='' # rhs" "CHR ''='' \<notin> set lhs"
  shows "get_list_from_file ev fs path nm = ev (strip rhs)"
proof -
  have "get_list_from_file ev fs path nm = list_loop ev nm [] False (mid @ fin # rest)"
    using text_of list_loop_skips [OF pre] by (simp add: get_list_from_file_def)
  also have "\<dots> = eval_after_eq ev (concat (map strip_comment (mid @ [fin])))"
  proof (cases mid)
    case Nil
    with first closes show ?thesis by (simp add: Let_def)
  next
    case (Cons m ms)
    with first closes list_loop_multi [of "strip_comment m" ms fin ev nm rest] show ?thesis
      by (simp add: Let_def)
  qed
  also have "\<dots> = ev (strip rhs)"
    unfolding assign(1) by (rule eval_after_eq_assign [OF assign(2)])
  finally show ?thesis .
qed

definition demo_rc :: string where
  "demo_rc = ''# modules_enabled = [old]'' @ nl @ ''modules_enabled = [ # two'' @ nl @ ''core, wifi]'' @ nl @ ''x = 1'' @ nl"

theorem get_list_from_file_finds_witness:
  "get_list_from_file (\<lambda>s. Inr [s]) [''rc'' \<mapsto> demo_rc] ''rc'' ''modules_enabled'' = Inr [''[ core, wifi]'']"
proof -
  have "get_list_from_file (\<lambda>s. Inr [s]) [''rc'' \<mapsto> demo_rc] ''rc'' ''modules_enabled'' = Inr [strip ('' [ core, wifi]'' @ nl)]"
    by (rule get_list_from_file_finds [where pre = "[''# modules_enabled = [old]'' @ nl]" and
          mid = "[''modules_enabled = [ # two'' @ nl]" and fin = "''core, wifi]'' @ nl" and rest = "[''x = 1'' @ nl]"
          and lhs = "''modules_enabled ''" and content = demo_rc])
       (simp_all add: demo_rc_def strip_comment_def startswith_def)
  then show ?thesis by (simp add: strip_def lstrip_def rstrip_def is_space_def)
qed

text \<open>What is read depends only on the lines with their comments removed.\<close>

theorem get_list_from_file_ignores_comments:
  assumes "map strip_comment (file_lines t) = map strip_comment (file_lines t')"
  shows "get_list_from_file ev [p \<mapsto> t] p nm = get_list_from_file ev [p \<mapsto> t'] p nm"
proof -
  have loop: "map strip_comment ls = map strip_comment ls' \<Longrightarrow>
      list_loop ev nm acc m ls = list_loop ev nm acc m ls'" for acc m ls ls'
  proof (induction ls arbitrary: ls' acc m)
    case (Cons l ls)
    then obtain l' ls'' where "ls' = l' # ls''" "strip_comment l = strip_comment l'"
      "map strip_comment ls = map strip_comment ls''" by (cases ls') auto
    with Cons.IH show ?case by (simp add: Let_def)
  qed simp
  show ?thesis by (simp add: get_list_from_file_def loop [OF assms])
qed

theorem get_list_from_file_ignores_comments_witness:
  "get_list_from_file (\<lambda>s. Inr [s]) [''rc'' \<mapsto> ''a=[1]#b'' @ nl] ''rc'' ''a''
    = get_list_from_file (\<lambda>s. Inr [s]) [''rc'' \<mapsto> ''a=[1]# what b is'' @ nl] ''rc'' ''a''"
  by (rule get_list_from_file_ignores_comments) (simp add: strip_comment_def)

lemma bool_loop_missing:
  "(\<forall>l \<in> set ls. \<not> substr_in nm (strip_comment l)) \<Longrightarrow> bool_loop ev nm ls = Inr None"
  by (induction ls) (simp_all add: Let_def)

text \<open>The default for a missing value is returned when the file exists and does not mention
  the name; a file that is missing raises, although the documentation promises the default.\<close>

theorem get_bool_from_file_default:
  assumes "\<forall>l \<in> set (file_lines txt). \<not> substr_in nm (strip_comment l)"
  shows "get_bool_from_file ev [p \<mapsto> txt] p nm d = Inr d \<and>
    get_bool_from_file ev Map.empty p nm d = Inl UnboundLocalError"
  by (simp add: get_bool_from_file_def bool_loop_missing [OF assms])

theorem get_bool_from_file_default_witness:
  "get_bool_from_file (\<lambda>s. Inr True) [''rc'' \<mapsto> ''# tests_enabled = True'' @ nl] ''rc'' ''tests_enabled'' False = Inr False \<and>
   get_bool_from_file (\<lambda>s. Inr True) Map.empty ''rc'' ''tests_enabled'' False = Inl UnboundLocalError"
  by (rule get_bool_from_file_default) (simp add: strip_comment_def)

end
