(* ===== verification/Test_Jobs.thy ===== *)
theory Test_Jobs
  imports Build_Config
begin

text \<open>
  The unit of work of \<^verbatim>\<open>test.py\<close> and how one is run: the configuration read from waf, the
  options, \<open>Job\<close> and \<open>run_job_synchronously\<close>.  The operating system's shell is a
  parameter: from a command and a directory to the result of the process, or the exception
  of \<open>Popen\<close>.  Byte strings are lists of characters; decoded text is kept as its UTF-8 form.
  Messages of the verbose mode are left out.
\<close>

section \<open>Configuration and options\<close>

text \<open>The module's globals that \<open>read_waf_config\<close> sets; \<open>PYTHON\<close> is a list there.\<close>

record config =
  cf_basedir :: string
  cf_builddir :: string
  cf_appname :: string
  cf_version :: string
  cf_build_profile :: string
  cf_python :: "string list"
  cf_nsc_enabled :: bool
  cf_enable_examples :: bool
  cf_enable_tests :: bool
  cf_enable_python_bindings :: bool
  cf_valgrind_found :: bool
  cf_module_path :: "string list"
  cf_enabled_modules :: "string list"
  cf_contributed_modules :: "string list"
  cf_example_directories :: "string list"

record options =
  op_buildpath :: string
  op_constrain :: string
  op_duration :: bool
  op_example :: string
  op_update_data :: bool
  op_fullness :: string
  op_valgrind :: bool
  op_kinds :: bool
  op_list :: bool
  op_multiple :: bool
  op_nowaf :: bool
  op_pyexample :: string
  op_retain :: bool
  op_suite :: string
  op_text :: string
  op_verbose :: bool
  op_html :: string
  op_xml :: string
  op_nocolor :: bool
  op_process_limit :: int

definition default_options :: options where
  "default_options = \<lparr>op_buildpath = [], op_constrain = [], op_duration = False, op_example = [],
     op_update_data = False, op_fullness = ''QUICK'', op_valgrind = False, op_kinds = False, op_list = False,
     op_multiple = False, op_nowaf = False, op_pyexample = [], op_retain = False, op_suite = [], op_text = [],
     op_verbose = False, op_html = [], op_xml = [], op_nocolor = False, op_process_limit = 0\<rparr>"

definition build_profile_suffix :: "config \<Rightarrow> string" where
  "build_profile_suffix c = (if cf_build_profile c = ''release'' then [] else ''-'' @ cf_build_profile c)"

text \<open>\<open>"%s%s-%s%s" % (APPNAME, VERSION, name, BUILD_PROFILE_SUFFIX)\<close>.\<close>

definition program_name :: "config \<Rightarrow> string \<Rightarrow> string" where
  "program_name c name = cf_appname c @ cf_version c @ ''-'' @ name @ build_profile_suffix c"

definition test_runner :: "config \<Rightarrow> string" where
  "test_runner c = program_name c ''test-runner''"

section \<open>Running a command\<close>

record shell_result =
  sr_returncode :: int
  sr_stdout :: string
  sr_stderr :: string
  sr_elapsed :: rat

type_synonym shell = "string \<Rightarrow> string \<Rightarrow> shell_result res"

text \<open>The byte strings that \<open>bytes.decode()\<close> accepts.\<close>

definition utf8_cont :: "nat \<Rightarrow> bool" where
  "utf8_cont b \<longleftrightarrow> 128 \<le> b \<and> b < 192"

fun utf8_valid :: "nat list \<Rightarrow> bool" where
  "utf8_valid [] = True"
| "utf8_valid (a # s) =
     (if a < 128 then utf8_valid s
      else (case s of [] \<Rightarrow> False | b # s1 \<Rightarrow>
        if 194 \<le> a \<and> a < 224 then utf8_cont b \<and> utf8_valid s1
        else (case s1 of [] \<Rightarrow> False | c # s2 \<Rightarrow>
          if 224 \<le> a \<and> a < 240 then
            utf8_cont b \<and> utf8_cont c \<and> (a = 224 \<longrightarrow> 160 \<le> b) \<and> (a = 237 \<longrightarrow> b < 160) \<and> utf8_valid s2
          else (case s2 of [] \<Rightarrow> False | d # s3 \<Rightarrow>
            240 \<le> a \<and> a < 245 \<and> utf8_cont b \<and> utf8_cont c \<and> utf8_cont d \<and>
            (a = 240 \<longrightarrow> 144 \<le> b) \<and> (a = 244 \<longrightarrow> b < 144) \<and> utf8_valid s3))))"

datatype py_out = Text string | Bytes string

definition decode :: "string \<Rightarrow> py_out res" where
  "decode s = (if utf8_valid (map of_char s) then Inr (Text s) else Inl ValueError)"

record run_result =
  rr_retval :: int
  rr_stdout :: py_out
  rr_stderr :: py_out
  rr_elapsed :: rat

text \<open>Output that cannot be decoded stays bytes and makes the return value 1.\<close>

definition run_job_synchronously ::
  "shell \<Rightarrow> config \<Rightarrow> string \<Rightarrow> string \<Rightarrow> bool \<Rightarrow> bool \<Rightarrow> string \<Rightarrow> run_result res" where
  "run_job_synchronously sh c shell_command directory valgrind is_python build_path =
     (let suppressions_path = path_join (cf_basedir c) ''testpy.supp'' in
      res_bind
        (if is_python then
           (case cf_python c of [] \<Rightarrow> Inl IndexError
            | p # ps \<Rightarrow> Inr (p @ '' '' @ path_join (cf_basedir c) shell_command))
         else if build_path \<noteq> [] then Inr (path_join build_path shell_command)
         else Inr (path_join (cf_builddir c) shell_command)) (\<lambda>path_cmd.
      let cmd = (if valgrind then
          ''valgrind --suppressions='' @ suppressions_path @ '' --leak-check=full --show-reachable=yes'' @
          '' --error-exitcode=2 --errors-for-leak-kinds=all '' @ path_cmd
        else path_cmd) in
      res_bind (sh cmd directory) (\<lambda>p.
        let out = decode (sr_stdout p); err = decode (sr_stderr p);
            retval = sr_returncode p;
            retval = (if isl out then 1 else retval);
            retval = (if isl err then 1 else retval)
        in Inr \<lparr>rr_retval = retval,
             rr_stdout = (case out of Inl e \<Rightarrow> Bytes (sr_stdout p) | Inr t \<Rightarrow> t),
             rr_stderr = (case err of Inl e \<Rightarrow> Bytes (sr_stderr p) | Inr t \<Rightarrow> t),
             rr_elapsed = sr_elapsed p\<rparr>)))"

section \<open>Jobs\<close>

text \<open>\<open>returncode\<close> starts as \<open>False\<close>, which Python compares equal to 0.\<close>

record job =
  is_break :: bool
  is_skip :: bool
  skip_reason :: string
  is_example :: bool
  is_pyexample :: bool
  shell_command :: string
  display_name :: string
  basedir :: string
  tempdir :: string
  cwd :: string
  tmp_file_name :: string
  returncode :: int
  elapsed_time :: rat
  build_path :: string

definition new_job :: job where
  "new_job = \<lparr>is_break = False, is_skip = False, skip_reason = [], is_example = False, is_pyexample = False,
     shell_command = [], display_name = [], basedir = [], tempdir = [], cwd = [], tmp_file_name = [],
     returncode = 0, elapsed_time = 0, build_path = []\<rparr>"

definition set_is_break :: "bool \<Rightarrow> job \<Rightarrow> job" where "set_is_break b j = j\<lparr>is_break := b\<rparr>"
definition set_is_skip :: "bool \<Rightarrow> job \<Rightarrow> job" where "set_is_skip b j = j\<lparr>is_skip := b\<rparr>"
definition set_skip_reason :: "string \<Rightarrow> job \<Rightarrow> job" where "set_skip_reason s j = j\<lparr>skip_reason := s\<rparr>"
definition set_is_example :: "bool \<Rightarrow> job \<Rightarrow> job" where "set_is_example b j = j\<lparr>is_example := b\<rparr>"
definition set_is_pyexample :: "bool \<Rightarrow> job \<Rightarrow> job" where "set_is_pyexample b j = j\<lparr>is_pyexample := b\<rparr>"
definition set_shell_command :: "string \<Rightarrow> job \<Rightarrow> job" where "set_shell_command s j = j\<lparr>shell_command := s\<rparr>"
definition set_build_path :: "string \<Rightarrow> job \<Rightarrow> job" where "set_build_path s j = j\<lparr>build_path := s\<rparr>"
definition set_display_name :: "string \<Rightarrow> job \<Rightarrow> job" where "set_display_name s j = j\<lparr>display_name := s\<rparr>"
definition set_basedir :: "string \<Rightarrow> job \<Rightarrow> job" where "set_basedir s j = j\<lparr>basedir := s\<rparr>"
definition set_tempdir :: "string \<Rightarrow> job \<Rightarrow> job" where "set_tempdir s j = j\<lparr>tempdir := s\<rparr>"
definition set_cwd :: "string \<Rightarrow> job \<Rightarrow> job" where "set_cwd s j = j\<lparr>cwd := s\<rparr>"
definition set_tmp_file_name :: "string \<Rightarrow> job \<Rightarrow> job" where "set_tmp_file_name s j = j\<lparr>tmp_file_name := s\<rparr>"
definition set_returncode :: "int \<Rightarrow> job \<Rightarrow> job" where "set_returncode i j = j\<lparr>returncode := i\<rparr>"
definition set_elapsed_time :: "rat \<Rightarrow> job \<Rightarrow> job" where "set_elapsed_time t j = j\<lparr>elapsed_time := t\<rparr>"

lemmas job_setters = set_is_break_def set_is_skip_def set_skip_reason_def set_is_example_def set_is_pyexample_def
  set_shell_command_def set_build_path_def set_display_name_def set_basedir_def set_tempdir_def set_cwd_def
  set_tmp_file_name_def set_returncode_def set_elapsed_time_def

text \<open>What a worker does with a job that is neither a break nor skipped.\<close>

definition run_job :: "shell \<Rightarrow> config \<Rightarrow> options \<Rightarrow> job \<Rightarrow> job res" where
  "run_job sh c opts j =
     res_bind
       (if is_example j \<or> is_pyexample j then
          run_job_synchronously sh c (shell_command j) (cwd j) (op_valgrind opts) (is_pyexample j) (build_path j)
        else
          let update_data = (if op_update_data opts then ''--update-data'' else []) in
          run_job_synchronously sh c
            (shell_command j @ '' --xml --tempdir='' @ tempdir j @ '' --out='' @ tmp_file_name j @ '' '' @ update_data)
            (cwd j) (op_valgrind opts) False []) (\<lambda>r.
       Inr (set_elapsed_time (rr_elapsed r) (set_returncode (rr_retval r) j)))"

section \<open>Jobs keep what they are\<close>

text \<open>A job without the fields that running it changes.\<close>

definition job_key :: "job \<Rightarrow> job" where
  "job_key j = j\<lparr>is_break := False, returncode := 0, elapsed_time := 0\<rparr>"

lemma job_key_break [simp]: "job_key (set_is_break b j) = job_key j"
  by (simp add: job_key_def set_is_break_def)

lemma run_job_key: "run_job sh c opts j = Inr j' \<Longrightarrow> job_key j' = job_key j \<and> is_break j' = is_break j"
  by (auto simp: run_job_def res_bind_eq_Inr job_key_def job_setters split: if_splits)

lemma run_job_skip: "run_job sh c opts j = Inr j' \<Longrightarrow> is_skip j' = is_skip j"
  by (auto simp: run_job_def res_bind_eq_Inr job_setters split: if_splits)

text \<open>Output that is not UTF-8 makes a command count as failed with code 1, whatever the
  process returned - a crash or a valgrind error becomes a plain failure.\<close>

theorem undecodable_output_is_failure:
  assumes "run_job_synchronously sh c cmd dir vg py bp = Inr r" and "\<exists>b. rr_stdout r = Bytes b \<or> rr_stderr r = Bytes b"
  shows "rr_retval r = 1"
  using assms
  by (auto simp: run_job_synchronously_def res_bind_eq_Inr Let_def decode_def split: if_splits sum.splits)

definition demo_config :: config where
  "demo_config = \<lparr>cf_basedir = ''/ns3'', cf_builddir = ''/ns3/build'', cf_appname = ''ns'', cf_version = ''3.33'',
     cf_build_profile = ''debug'', cf_python = [''/usr/bin/python3''], cf_nsc_enabled = False, cf_enable_examples = True,
     cf_enable_tests = True, cf_enable_python_bindings = True, cf_valgrind_found = True, cf_module_path = [''/ns3/build/lib''],
     cf_enabled_modules = [''ns3-core''], cf_contributed_modules = [], cf_example_directories = [''tutorial'']\<rparr>"

theorem undecodable_output_is_failure_witness:
  "rr_retval (projr (run_job_synchronously
     (\<lambda>cmd d. Inr \<lparr>sr_returncode = 139, sr_stdout = [CHR 0xFF], sr_stderr = [], sr_elapsed = 1\<rparr>) demo_config ''x'' ''.'' False False [])) = 1"
  by (rule undecodable_output_is_failure [where sh = "\<lambda>cmd d. Inr \<lparr>sr_returncode = 139, sr_stdout = [CHR 0xFF], sr_stderr = [], sr_elapsed = 1\<rparr>"
        and c = demo_config and cmd = "''x''" and dir = "''.''" and vg = False and py = False and bp = "[]"])
     (simp_all add: run_job_synchronously_def Let_def decode_def)

end
