(* ===== verification/Test_Pool.thy ===== *)
theory Test_Pool
  imports Test_Jobs
begin

text \<open>
  The worker threads of \<^verbatim>\<open>test.py\<close>: the main thread puts the jobs and then one break job per
  worker into a queue, the workers take them from it, run them and put them into a second
  queue, from which the main thread receives as many jobs as it has put.  The threads
  interleave: a step relation, with one rule for each action that another thread can see.
\<close>

section \<open>The threads\<close>

text \<open>A worker waits for a job, holds one, runs it, has returned, or was ended by an exception.\<close>

datatype worker = Waiting | Holding job | Running job | Stopped | Died job

record pool =
  pl_todo :: "job list"
  pl_input :: "job list"
  pl_output :: "job list"
  pl_workers :: "worker list"
  pl_exit :: bool
  pl_left :: nat
  pl_received :: "job list"

definition break_job :: job where
  "break_job = set_is_break True new_job"

definition new_pool :: "int \<Rightarrow> job list \<Rightarrow> pool" where
  "new_pool processors jobs = \<lparr>pl_todo = jobs @ replicate (nat processors) break_job, pl_input = [], pl_output = [],
     pl_workers = replicate (nat processors) Waiting, pl_exit = False, pl_left = length jobs, pl_received = []\<rparr>"

definition set_worker :: "nat \<Rightarrow> worker \<Rightarrow> pool \<Rightarrow> pool" where
  "set_worker i w s = s\<lparr>pl_workers := (pl_workers s)[i := w]\<rparr>"

definition ship :: "job \<Rightarrow> pool \<Rightarrow> pool" where
  "ship j s = s\<lparr>pl_output := pl_output s @ [j]\<rparr>"

text \<open>One action: \<open>put\<close>, \<open>receive\<close> of the main thread, \<open>interrupt\<close> of the signal handler, the others of worker \<open>i\<close>.\<close>

inductive pool_step :: "(job \<Rightarrow> job res) \<Rightarrow> pool \<Rightarrow> pool \<Rightarrow> bool" for run where
  put: "pl_todo s = j # t \<Longrightarrow> pool_step run s (s\<lparr>pl_todo := t, pl_input := pl_input s @ [j]\<rparr>)"
| receive: "pl_todo s = [] \<Longrightarrow> pl_left s = Suc n \<Longrightarrow> pl_output s = j # q \<Longrightarrow>
    pool_step run s (s\<lparr>pl_left := n, pl_output := q, pl_received := pl_received s @ [j]\<rparr>)"
| interrupt: "\<not> pl_exit s \<Longrightarrow> pool_step run s (s\<lparr>pl_exit := True\<rparr>)"
| get_break: "i < length (pl_workers s) \<Longrightarrow> pl_workers s ! i = Waiting \<Longrightarrow> pl_input s = j # q \<Longrightarrow> is_break j \<Longrightarrow>
    pool_step run s (set_worker i Stopped (s\<lparr>pl_input := q\<rparr>))"
| get: "i < length (pl_workers s) \<Longrightarrow> pl_workers s ! i = Waiting \<Longrightarrow> pl_input s = j # q \<Longrightarrow> \<not> is_break j \<Longrightarrow>
    pool_step run s (set_worker i (Holding j) (s\<lparr>pl_input := q\<rparr>))"
| give_back: "i < length (pl_workers s) \<Longrightarrow> pl_workers s ! i = Holding j \<Longrightarrow> pl_exit s \<Longrightarrow>
    pool_step run s (set_worker i Waiting (ship (set_is_break True j) s))"
| skip: "i < length (pl_workers s) \<Longrightarrow> pl_workers s ! i = Holding j \<Longrightarrow> \<not> pl_exit s \<Longrightarrow> is_skip j \<Longrightarrow>
    pool_step run s (set_worker i Waiting (ship j s))"
| launch: "i < length (pl_workers s) \<Longrightarrow> pl_workers s ! i = Holding j \<Longrightarrow> \<not> pl_exit s \<Longrightarrow> \<not> is_skip j \<Longrightarrow>
    pool_step run s (set_worker i (Running j) s)"
| finish: "i < length (pl_workers s) \<Longrightarrow> pl_workers s ! i = Running j \<Longrightarrow> run j = Inr j' \<Longrightarrow>
    pool_step run s (set_worker i Waiting (ship j' s))"
| die: "i < length (pl_workers s) \<Longrightarrow> pl_workers s ! i = Running j \<Longrightarrow> run j = Inl e \<Longrightarrow>
    pool_step run s (set_worker i (Died j) s)"

inductive_cases pool_stepE: "pool_step run s s'"

text \<open>The main thread has received every job and all the threads it waits for have returned.\<close>

definition pool_done :: "pool \<Rightarrow> bool" where
  "pool_done s \<longleftrightarrow> pl_todo s = [] \<and> pl_left s = 0 \<and> (\<forall>w \<in> set (pl_workers s). w = Stopped)"

section \<open>Bookkeeping\<close>

fun in_hand :: "worker \<Rightarrow> job list" where
  "in_hand (Holding j) = [j]"
| "in_hand (Running j) = [j]"
| "in_hand (Died j) = [j]"
| "in_hand w = []"

definition waiting_jobs :: "pool \<Rightarrow> job list" where
  "waiting_jobs s = filter (\<lambda>j. \<not> is_break j) (pl_input s @ pl_todo s)"

definition held_jobs :: "pool \<Rightarrow> job list" where
  "held_jobs s = concat (map in_hand (pl_workers s))"

definition back_jobs :: "pool \<Rightarrow> job list" where
  "back_jobs s = pl_output s @ pl_received s"

lemma mset_concat_update:
  "i < length ws \<Longrightarrow> mset (concat (map f (ws[i := w]))) + mset (f (ws ! i)) = mset (concat (map f ws)) + mset (f w)"
proof (induction ws arbitrary: i)
  case (Cons v ws)
  show ?case
  proof (cases i)
    case (Suc k)
    with Cons show ?thesis using Cons.IH [of k] by (simp add: ac_simps)
  qed (simp add: ac_simps)
qed simp

lemma held_update:
  "i < length (pl_workers s) \<Longrightarrow> pl_workers s ! i = v \<Longrightarrow>
   mset (held_jobs (set_worker i w s)) + mset (in_hand v) = mset (held_jobs s) + mset (in_hand w)"
  using mset_concat_update [of i "pl_workers s" in_hand w] by (simp add: held_jobs_def set_worker_def)

lemma set_worker_fields [simp]:
  "pl_todo (set_worker i w s) = pl_todo s" "pl_input (set_worker i w s) = pl_input s"
  "pl_output (set_worker i w s) = pl_output s" "pl_exit (set_worker i w s) = pl_exit s"
  "pl_left (set_worker i w s) = pl_left s" "pl_received (set_worker i w s) = pl_received s"
  "pl_workers (set_worker i w s) = (pl_workers s)[i := w]"
  "waiting_jobs (set_worker i w s) = waiting_jobs s" "back_jobs (set_worker i w s) = back_jobs s"
  by (simp_all add: set_worker_def waiting_jobs_def back_jobs_def)

lemma ship_fields [simp]:
  "pl_todo (ship j s) = pl_todo s" "pl_input (ship j s) = pl_input s" "pl_workers (ship j s) = pl_workers s"
  "pl_exit (ship j s) = pl_exit s" "pl_left (ship j s) = pl_left s" "pl_received (ship j s) = pl_received s"
  "pl_output (ship j s) = pl_output s @ [j]" "waiting_jobs (ship j s) = waiting_jobs s" "held_jobs (ship j s) = held_jobs s"
  by (simp_all add: ship_def waiting_jobs_def held_jobs_def)

section \<open>The invariant\<close>

text \<open>Every worker that has returned took one break job, and they come after all the jobs.\<close>

definition breaks_last :: "int \<Rightarrow> pool \<Rightarrow> bool" where
  "breaks_last n s \<longleftrightarrow>
     (\<exists>js k. pl_input s @ pl_todo s = js @ replicate k break_job \<and> (\<forall>j \<in> set js. \<not> is_break j) \<and>
        k + length (filter (\<lambda>w. w = Stopped) (pl_workers s)) = nat n \<and>
        (Stopped \<in> set (pl_workers s) \<longrightarrow> js = []))"

definition pool_inv :: "int \<Rightarrow> job list \<Rightarrow> pool \<Rightarrow> bool" where
  "pool_inv n jobs s \<longleftrightarrow> length (pl_workers s) = nat n \<and> breaks_last n s \<and>
     pl_left s + length (pl_received s) = length jobs \<and>
     image_mset job_key (mset (waiting_jobs s) + mset (held_jobs s) + mset (back_jobs s)) = image_mset job_key (mset jobs)"

lemma break_job_break [simp]: "is_break break_job"
  by (simp add: break_job_def set_is_break_def)

lemma filter_break_job [simp]: "filter (\<lambda>j. \<not> is_break j) (replicate k break_job) = []"
  by (induction k) simp_all

lemma pool_inv_init: "\<forall>j \<in> set jobs. \<not> is_break j \<Longrightarrow> pool_inv n jobs (new_pool n jobs)"
  by (auto simp: pool_inv_def new_pool_def breaks_last_def waiting_jobs_def held_jobs_def back_jobs_def filter_replicate
      filter_id_conv [THEN iffD2])

lemma count_stopped_update:
  "i < length ws \<Longrightarrow> ws ! i \<noteq> Stopped \<Longrightarrow>
   length (filter (\<lambda>w. w = Stopped) (ws[i := v])) = length (filter (\<lambda>w. w = Stopped) ws) + (if v = Stopped then 1 else 0)"
proof (induction ws arbitrary: i)
  case (Cons w ws)
  then show ?case by (cases i) auto
qed simp

lemma breaks_last_update:
  assumes "breaks_last n s" and "i < length (pl_workers s)" "pl_workers s ! i \<noteq> Stopped" "v \<noteq> Stopped"
    and "pl_input s' @ pl_todo s' = pl_input s @ pl_todo s" and "pl_workers s' = (pl_workers s)[i := v]"
  shows "breaks_last n s'"
proof -
  obtain js k where *: "pl_input s @ pl_todo s = js @ replicate k break_job" "\<forall>j \<in> set js. \<not> is_break j"
    "k + length (filter (\<lambda>w. w = Stopped) (pl_workers s)) = nat n" "Stopped \<in> set (pl_workers s) \<longrightarrow> js = []"
    using assms(1) by (auto simp: breaks_last_def)
  have "Stopped \<in> set (pl_workers s') \<longrightarrow> js = []"
    using *(4) assms(2,4,6) set_update_subset_insert [of "pl_workers s" i v] by auto
  moreover have "k + length (filter (\<lambda>w. w = Stopped) (pl_workers s')) = nat n"
    using *(3) assms(2,3,4,6) by (simp add: count_stopped_update)
  ultimately show ?thesis using *(1,2) assms(5) unfolding breaks_last_def by auto
qed

lemma breaks_last_get:
  assumes "breaks_last n s" and "pl_input s = j # q" and "\<not> is_break j"
    and "i < length (pl_workers s)" "pl_workers s ! i = Waiting" "v \<noteq> Stopped"
  shows "breaks_last n (set_worker i v (s\<lparr>pl_input := q\<rparr>))"
proof -
  obtain js k where *: "pl_input s @ pl_todo s = js @ replicate k break_job" "\<forall>j \<in> set js. \<not> is_break j"
    "k + length (filter (\<lambda>w. w = Stopped) (pl_workers s)) = nat n" "Stopped \<in> set (pl_workers s) \<longrightarrow> js = []"
    using assms(1) by (auto simp: breaks_last_def)
  have "js \<noteq> []"
  proof
    assume "js = []"
    with *(1) assms(2) have "j = break_job" by (cases k) auto
    with assms(3) show False by simp
  qed
  then obtain js' where js: "js = j # js'" using *(1) assms(2) by (cases js) auto
  have "Stopped \<notin> set ((pl_workers s)[i := v])"
    using *(4) js assms(6) set_update_subset_insert [of "pl_workers s" i v] by auto
  then show ?thesis
    unfolding breaks_last_def using * js assms
    by (intro exI [of _ js'] exI [of _ k]) (simp add: count_stopped_update)
qed

lemma breaks_last_get_break:
  assumes "breaks_last n s" and "pl_input s = j # q" and "is_break j"
    and "i < length (pl_workers s)" "pl_workers s ! i = Waiting"
  shows "breaks_last n (set_worker i Stopped (s\<lparr>pl_input := q\<rparr>))"
proof -
  obtain js k where *: "pl_input s @ pl_todo s = js @ replicate k break_job" "\<forall>j \<in> set js. \<not> is_break j"
    "k + length (filter (\<lambda>w. w = Stopped) (pl_workers s)) = nat n"
    using assms(1) by (auto simp: breaks_last_def)
  have js: "js = []" using * assms(2,3) by (cases js) auto
  then obtain k' where k: "k = Suc k'" using *(1) assms(2) by (cases k) auto
  then show ?thesis
    unfolding breaks_last_def using * js assms
    by (intro exI [of _ "[]"] exI [of _ k']) (simp add: count_stopped_update)
qed


section \<open>Any runner that keeps a job's identity\<close>

locale job_runner =
  fixes run :: "job \<Rightarrow> job res"
  assumes run_key: "run j = Inr j' \<Longrightarrow> job_key j' = job_key j"
begin

lemma pool_inv_step:
  assumes "pool_step run s s'" and inv: "pool_inv n jobs s"
  shows "pool_inv n jobs s'"
proof -
  have len: "length (pl_workers s) = nat n" and bl: "breaks_last n s"
    and left: "pl_left s + length (pl_received s) = length jobs"
    and keys: "image_mset job_key (mset (waiting_jobs s) + mset (held_jobs s) + mset (back_jobs s)) = image_mset job_key (mset jobs)"
    using inv by (simp_all add: pool_inv_def)
  from assms(1) show ?thesis
  proof cases
    case (put j t)
    then show ?thesis using len bl left keys
      by (simp add: pool_inv_def breaks_last_def waiting_jobs_def held_jobs_def back_jobs_def)
  next
    case (receive m j q)
    then show ?thesis using len bl left keys
      by (simp add: pool_inv_def breaks_last_def waiting_jobs_def held_jobs_def back_jobs_def ac_simps)
  next
    case interrupt
    then show ?thesis using len bl left keys
      by (simp add: pool_inv_def breaks_last_def waiting_jobs_def held_jobs_def back_jobs_def)
  next
    case (get_break i j q)
    have "mset (held_jobs s') = mset (held_jobs s)"
      using held_update [of i "s\<lparr>pl_input := q\<rparr>" Waiting Stopped] get_break by (simp add: held_jobs_def)
    moreover have "waiting_jobs s' = waiting_jobs s" "back_jobs s' = back_jobs s"
      using get_break by (simp_all add: waiting_jobs_def back_jobs_def)
    ultimately show ?thesis using len breaks_last_get_break [OF bl, of j q i] left keys get_break
      by (simp add: pool_inv_def)
  next
    case (get i j q)
    have "mset (held_jobs s') = mset (held_jobs s) + {#j#}"
      using held_update [of i "s\<lparr>pl_input := q\<rparr>" Waiting "Holding j"] get by (simp add: held_jobs_def)
    moreover have "mset (waiting_jobs s) = mset (waiting_jobs s') + {#j#}" "back_jobs s' = back_jobs s"
      using get by (simp_all add: waiting_jobs_def back_jobs_def)
    ultimately show ?thesis using len breaks_last_get [OF bl, of j q i "Holding j"] left keys get
      by (simp add: pool_inv_def ac_simps)
  next
    case (give_back i j)
    have "mset (held_jobs s) = mset (held_jobs s') + {#j#}"
      using held_update [of i "ship (set_is_break True j) s" "Holding j" Waiting] give_back by simp
    moreover have "mset (back_jobs s') = mset (back_jobs s) + {#set_is_break True j#}" "waiting_jobs s' = waiting_jobs s"
      using give_back by (simp_all add: back_jobs_def)
    moreover have "breaks_last n s'" by (rule breaks_last_update [OF bl]) (use give_back in auto)
    ultimately show ?thesis using len left keys give_back by (simp add: pool_inv_def ac_simps)
  next
    case (skip i j)
    have "mset (held_jobs s) = mset (held_jobs s') + {#j#}"
      using held_update [of i "ship j s" "Holding j" Waiting] skip by simp
    moreover have "mset (back_jobs s') = mset (back_jobs s) + {#j#}" "waiting_jobs s' = waiting_jobs s"
      using skip by (simp_all add: back_jobs_def)
    moreover have "breaks_last n s'" by (rule breaks_last_update [OF bl]) (use skip in auto)
    ultimately show ?thesis using len left keys skip by (simp add: pool_inv_def ac_simps)
  next
    case (launch i j)
    have "mset (held_jobs s') = mset (held_jobs s)"
      using held_update [of i s "Holding j" "Running j"] launch by simp
    moreover have "breaks_last n s'" by (rule breaks_last_update [OF bl]) (use launch in auto)
    ultimately show ?thesis using len left keys launch by (simp add: pool_inv_def)
  next
    case (finish i j j')
    have "mset (held_jobs s) = mset (held_jobs s') + {#j#}"
      using held_update [of i "ship j' s" "Running j" Waiting] finish by simp
    moreover have "mset (back_jobs s') = mset (back_jobs s) + {#j'#}" "waiting_jobs s' = waiting_jobs s"
      using finish by (simp_all add: back_jobs_def)
    moreover have "breaks_last n s'" by (rule breaks_last_update [OF bl]) (use finish in auto)
    moreover have "job_key j' = job_key j" by (rule run_key) (use finish in simp)
    ultimately show ?thesis using len left keys finish by (simp add: pool_inv_def ac_simps)
  next
    case (die i j e)
    have "mset (held_jobs s') = mset (held_jobs s)"
      using held_update [of i s "Running j" "Died j"] die by simp
    moreover have "breaks_last n s'" by (rule breaks_last_update [OF bl]) (use die in auto)
    ultimately show ?thesis using len left keys die by (simp add: pool_inv_def)
  qed
qed

lemma pool_inv_steps: "(pool_step run)\<^sup>*\<^sup>* s s' \<Longrightarrow> pool_inv n jobs s \<Longrightarrow> pool_inv n jobs s'"
  by (induction rule: rtranclp_induct) (auto intro: pool_inv_step)

lemma pool_inv_reach:
  "(pool_step run)\<^sup>*\<^sup>* (new_pool n jobs) s \<Longrightarrow> \<forall>j \<in> set jobs. \<not> is_break j \<Longrightarrow> pool_inv n jobs s"
  using pool_inv_steps pool_inv_init by blast

lemma pool_inv_size:
  "pool_inv n jobs s \<Longrightarrow> length (waiting_jobs s) + length (held_jobs s) + length (pl_output s) = pl_left s"
proof -
  assume i: "pool_inv n jobs s"
  then have "size (image_mset job_key (mset (waiting_jobs s) + mset (held_jobs s) + mset (back_jobs s))) = size (image_mset job_key (mset jobs))"
    unfolding pool_inv_def by metis
  then have "length (waiting_jobs s) + length (held_jobs s) + length (back_jobs s) = length jobs"
    by (simp only: size_image_mset size_union size_mset)
  with i show ?thesis by (simp add: pool_inv_def back_jobs_def)
qed

text \<open>When the main thread has received the last job, it has received every job.\<close>

lemma received_all:
  assumes "pool_inv n jobs s" and "pl_left s = 0"
  shows "image_mset job_key (mset (pl_received s)) = image_mset job_key (mset jobs) \<and>
    (\<forall>w \<in> set (pl_workers s). w = Waiting \<or> w = Stopped)"
proof -
  have z: "waiting_jobs s = []" "held_jobs s = []" "pl_output s = []"
    using pool_inv_size [OF assms(1)] assms(2) by simp_all
  have "in_hand w = []" if "w \<in> set (pl_workers s)" for w
    using z(2) that by (auto simp: held_jobs_def)
  then have "\<forall>w \<in> set (pl_workers s). w = Waiting \<or> w = Stopped"
    by (metis in_hand.simps(1,2,3) list.distinct(1) worker.exhaust)
  with assms(1) z show ?thesis by (simp add: pool_inv_def back_jobs_def)
qed

lemma no_deadlock:
  assumes inv: "pool_inv n jobs s" and n: "0 < n" and alive: "\<forall>j. Died j \<notin> set (pl_workers s)" and "\<not> pool_done s"
  shows "\<exists>s'. pool_step run s s' \<and> pl_exit s' = pl_exit s"
proof -
  have act: "\<exists>s'. pool_step run s s' \<and> pl_exit s' = pl_exit s"
    if "i < length (pl_workers s)" "pl_workers s ! i = Holding j \<or> pl_workers s ! i = Running j" for i j
  proof (cases "pl_workers s ! i = Holding j")
    case True
    then show ?thesis
      using pool_step.give_back [OF that(1) True] pool_step.skip [OF that(1) True] pool_step.launch [OF that(1) True]
      by (metis set_worker_fields(4) ship_fields(4))
  next
    case False
    then have r: "pl_workers s ! i = Running j" using that(2) by simp
    show ?thesis
      by (cases "run j")
         (metis pool_step.die [OF that(1) r] set_worker_fields(4),
          metis pool_step.finish [OF that(1) r] set_worker_fields(4) ship_fields(4))
  qed
  have take: "\<exists>s'. pool_step run s s' \<and> pl_exit s' = pl_exit s"
    if w: "i < length (pl_workers s)" "pl_workers s ! i = Waiting" and q: "pl_input s \<noteq> []" for i
  proof -
    obtain j r where "pl_input s = j # r" using q by (cases "pl_input s") auto
    then show ?thesis using pool_step.get [OF w] pool_step.get_break [OF w]
      by (cases "is_break j") force+
  qed
  obtain js k where q: "pl_input s @ pl_todo s = js @ replicate k break_job" "\<forall>j \<in> set js. \<not> is_break j"
    "k + length (filter (\<lambda>w. w = Stopped) (pl_workers s)) = nat n" "Stopped \<in> set (pl_workers s) \<longrightarrow> js = []"
    using inv by (auto simp: pool_inv_def breaks_last_def)
  show ?thesis
  proof (cases "pl_todo s")
    case (Cons j t)
    then show ?thesis using pool_step.put [OF Cons] by force
  next
    case todo: Nil
    show ?thesis
    proof (cases "held_jobs s = []")
      case False
      then obtain w where w: "w \<in> set (pl_workers s)" "in_hand w \<noteq> []" by (auto simp: held_jobs_def)
      then obtain i where i: "i < length (pl_workers s)" "pl_workers s ! i = w" by (auto simp: in_set_conv_nth)
      have "\<forall>j. w \<noteq> Died j" using w(1) alive by metis
      then obtain j where "w = Holding j \<or> w = Running j" using w(2) by (metis in_hand.elims)
      with act [OF i(1)] i(2) show ?thesis by blast
    next
      case held: True
      then have idle: "\<forall>w \<in> set (pl_workers s). w = Waiting \<or> w = Stopped"
        by (auto simp: held_jobs_def) (metis in_hand.elims list.distinct(1))
      show ?thesis
      proof (cases "pl_output s")
        case (Cons j q)
        then obtain m where "pl_left s = Suc m"
          using pool_inv_size [OF inv] by (cases "pl_left s") auto
        then show ?thesis using pool_step.receive [OF todo _ Cons] by force
      next
        case Nil
        have "\<exists>w \<in> set (pl_workers s). w \<noteq> Stopped"
        proof (cases "pl_left s = 0")
          case True
          with assms(4) todo show ?thesis by (auto simp: pool_done_def)
        next
          case False
          then have "waiting_jobs s \<noteq> []" using pool_inv_size [OF inv] Nil held by auto
          then have "js \<noteq> []" using q(1,2) by (auto simp: waiting_jobs_def)
          moreover have "pl_workers s \<noteq> []" using inv n by (auto simp: pool_inv_def)
          ultimately show ?thesis using q(4) by (metis list.set_intros(1) neq_Nil_conv)
        qed
        then have wm: "Waiting \<in> set (pl_workers s)" using idle by metis
        then obtain i where i: "i < length (pl_workers s)" "pl_workers s ! i = Waiting"
          by (auto simp: in_set_conv_nth)
        have "length (filter (\<lambda>w. w = Stopped) (pl_workers s)) < length (pl_workers s)"
          by (rule length_filter_less [OF wm]) simp
        then have "0 < k" using q(3) inv by (simp add: pool_inv_def)
        then have "pl_input s \<noteq> []" using q(1) todo by (cases k) auto
        then show ?thesis using take i by blast
      qed
    qed
  qed
qed


text \<open>A worker that has been ended by an exception keeps its job: the main thread then waits for ever.\<close>

lemma died_stays:
  "pool_step run s s' \<Longrightarrow> i < length (pl_workers s) \<Longrightarrow> pl_workers s ! i = Died j \<Longrightarrow>
   length (pl_workers s') = length (pl_workers s) \<and> pl_workers s' ! i = Died j"
  by (erule pool_stepE) (auto simp: nth_list_update)

lemma died_stays_steps:
  "(pool_step run)\<^sup>*\<^sup>* s s' \<Longrightarrow> i < length (pl_workers s) \<Longrightarrow> pl_workers s ! i = Died j \<Longrightarrow>
   i < length (pl_workers s') \<and> pl_workers s' ! i = Died j"
proof (induction rule: rtranclp_induct)
  case (step t u)
  then show ?case using died_stays [OF step(2), of i j] by simp
qed simp

lemma died_never_done:
  assumes "pool_inv n jobs s" and "Died j \<in> set (pl_workers s)" and "(pool_step run)\<^sup>*\<^sup>* s s'"
  shows "0 < pl_left s'"
proof -
  obtain i where "i < length (pl_workers s)" "pl_workers s ! i = Died j"
    using assms(2) by (auto simp: in_set_conv_nth)
  from died_stays_steps [OF assms(3) this] have "Died j \<in> set (pl_workers s')" by (metis nth_mem)
  then have "held_jobs s' \<noteq> []" by (force simp: held_jobs_def)
  then show ?thesis using pool_inv_size [OF pool_inv_steps [OF assms(3,1)]] by (cases "held_jobs s'") auto
qed

end

section \<open>Every execution ends\<close>

fun worker_effort :: "worker \<Rightarrow> nat" where
  "worker_effort (Holding j) = 4"
| "worker_effort (Running j) = 3"
| "worker_effort w = 0"

definition effort :: "pool \<Rightarrow> nat" where
  "effort s = 6 * length (pl_todo s) + 5 * length (pl_input s) + sum_list (map worker_effort (pl_workers s)) +
     length (pl_output s) + (if pl_exit s then 0 else 1)"

lemma sum_list_update:
  "i < length ws \<Longrightarrow> sum_list (map f (ws[i := w])) + f (ws ! i) = sum_list (map f ws) + (f w :: nat)"
proof (induction ws arbitrary: i)
  case (Cons v ws)
  show ?case
  proof (cases i)
    case (Suc k)
    with Cons show ?thesis using Cons.IH [of k] by simp
  qed simp
qed simp

lemma effort_worker:
  "i < length (pl_workers s) \<Longrightarrow> pl_workers s ! i = v \<Longrightarrow>
   sum_list (map worker_effort ((pl_workers s)[i := w])) + worker_effort v = sum_list (map worker_effort (pl_workers s)) + worker_effort w"
  using sum_list_update [of i "pl_workers s" worker_effort w] by simp

lemma effort_decreases: "pool_step run s s' \<Longrightarrow> effort s' < effort s"
proof (erule pool_stepE)
  fix i j q assume a: "s' = set_worker i Stopped (s\<lparr>pl_input := q\<rparr>)" "i < length (pl_workers s)"
    "pl_workers s ! i = Waiting" "pl_input s = j # q"
  show ?thesis using effort_worker [OF a(2,3), of Stopped] a by (simp add: effort_def)
next
  fix i j q assume a: "s' = set_worker i (Holding j) (s\<lparr>pl_input := q\<rparr>)" "i < length (pl_workers s)"
    "pl_workers s ! i = Waiting" "pl_input s = j # q"
  show ?thesis using effort_worker [OF a(2,3), of "Holding j"] a by (simp add: effort_def)
next
  fix i j assume a: "s' = set_worker i Waiting (ship (set_is_break True j) s)" "i < length (pl_workers s)"
    "pl_workers s ! i = Holding j"
  show ?thesis using effort_worker [OF a(2,3), of Waiting] a by (simp add: effort_def)
next
  fix i j assume a: "s' = set_worker i Waiting (ship j s)" "i < length (pl_workers s)" "pl_workers s ! i = Holding j"
  show ?thesis using effort_worker [OF a(2,3), of Waiting] a by (simp add: effort_def)
next
  fix i j assume a: "s' = set_worker i (Running j) s" "i < length (pl_workers s)" "pl_workers s ! i = Holding j"
  show ?thesis using effort_worker [OF a(2,3), of "Running j"] a by (simp add: effort_def)
next
  fix i j j' assume a: "s' = set_worker i Waiting (ship j' s)" "i < length (pl_workers s)" "pl_workers s ! i = Running j"
  show ?thesis using effort_worker [OF a(2,3), of Waiting] a by (simp add: effort_def)
next
  fix i j e assume a: "s' = set_worker i (Died j) s" "i < length (pl_workers s)" "pl_workers s ! i = Running j"
  show ?thesis using effort_worker [OF a(2,3), of "Died j"] a by (simp add: effort_def)
qed (auto simp: effort_def)

lemma effort_steps: "(pool_step run ^^ k) s s' \<Longrightarrow> effort s' + k \<le> effort s"
proof (induction k arbitrary: s')
  case (Suc k)
  then obtain t where "(pool_step run ^^ k) s t" "pool_step run t s'" by auto
  with Suc.IH effort_decreases show ?case by force
qed simp

section \<open>Without an interrupt every job has its own result\<close>

definition outcome :: "(job \<Rightarrow> job res) \<Rightarrow> job \<Rightarrow> job res" where
  "outcome run j = (if is_skip j then Inr j else run j)"

definition results_inv :: "(job \<Rightarrow> job res) \<Rightarrow> job list \<Rightarrow> pool \<Rightarrow> bool" where
  "results_inv run jobs s \<longleftrightarrow>
     (\<forall>j. Running j \<in> set (pl_workers s) \<longrightarrow> \<not> is_skip j) \<and>
     image_mset (outcome run) (mset (waiting_jobs s) + mset (held_jobs s)) + image_mset Inr (mset (back_jobs s))
       = image_mset (outcome run) (mset jobs)"

lemma results_inv_init: "\<forall>j \<in> set jobs. \<not> is_break j \<Longrightarrow> results_inv run jobs (new_pool n jobs)"
  by (auto simp: results_inv_def new_pool_def waiting_jobs_def held_jobs_def back_jobs_def
      filter_id_conv [THEN iffD2])

lemma running_update:
  "\<forall>j. Running j \<in> set ws \<longrightarrow> \<not> is_skip j \<Longrightarrow> \<forall>j. w = Running j \<longrightarrow> \<not> is_skip j \<Longrightarrow>
   \<forall>j. Running j \<in> set (ws[i := w]) \<longrightarrow> \<not> is_skip j"
  using set_update_subset_insert [of ws i w] by auto

lemma results_inv_step:
  assumes "pool_step run s s'" and inv: "results_inv run jobs s" and "\<not> pl_exit s'"
  shows "results_inv run jobs s'"
proof -
  let ?o = "outcome run"
  have r: "\<forall>j. Running j \<in> set (pl_workers s) \<longrightarrow> \<not> is_skip j"
    and eq: "image_mset ?o (mset (waiting_jobs s) + mset (held_jobs s)) + image_mset Inr (mset (back_jobs s)) = image_mset ?o (mset jobs)"
    using inv by (simp_all add: results_inv_def)
  from assms(1) show ?thesis
  proof cases
    case (put j t)
    then show ?thesis using r eq by (simp add: results_inv_def waiting_jobs_def held_jobs_def back_jobs_def)
  next
    case (receive m j q)
    then show ?thesis using r eq by (simp add: results_inv_def waiting_jobs_def held_jobs_def back_jobs_def ac_simps)
  next
    case interrupt
    with assms(3) show ?thesis by simp
  next
    case (get_break i j q)
    have "mset (held_jobs s') = mset (held_jobs s)"
      using held_update [of i "s\<lparr>pl_input := q\<rparr>" Waiting Stopped] get_break by (simp add: held_jobs_def)
    moreover have "waiting_jobs s' = waiting_jobs s" "back_jobs s' = back_jobs s"
      using get_break by (simp_all add: waiting_jobs_def back_jobs_def)
    ultimately show ?thesis using running_update [OF r, of Stopped i] eq get_break by (simp add: results_inv_def)
  next
    case (get i j q)
    have "mset (held_jobs s') = mset (held_jobs s) + {#j#}"
      using held_update [of i "s\<lparr>pl_input := q\<rparr>" Waiting "Holding j"] get by (simp add: held_jobs_def)
    moreover have "mset (waiting_jobs s) = mset (waiting_jobs s') + {#j#}" "back_jobs s' = back_jobs s"
      using get by (simp_all add: waiting_jobs_def back_jobs_def)
    ultimately show ?thesis using running_update [OF r, of "Holding j" i] eq get by (simp add: results_inv_def ac_simps)
  next
    case (give_back i j)
    with assms(3) show ?thesis by simp
  next
    case (skip i j)
    have "mset (held_jobs s) = mset (held_jobs s') + {#j#}"
      using held_update [of i "ship j s" "Holding j" Waiting] skip by simp
    moreover have "mset (back_jobs s') = mset (back_jobs s) + {#j#}" "waiting_jobs s' = waiting_jobs s"
      using skip by (simp_all add: back_jobs_def)
    moreover have "?o j = Inr j" using skip by (simp add: outcome_def)
    ultimately show ?thesis using running_update [OF r, of Waiting i] eq skip by (simp add: results_inv_def ac_simps)
  next
    case (launch i j)
    have "mset (held_jobs s') = mset (held_jobs s)"
      using held_update [of i s "Holding j" "Running j"] launch by simp
    then show ?thesis using running_update [OF r, of "Running j" i] eq launch by (simp add: results_inv_def)
  next
    case (finish i j j')
    have "mset (held_jobs s) = mset (held_jobs s') + {#j#}"
      using held_update [of i "ship j' s" "Running j" Waiting] finish by simp
    moreover have "mset (back_jobs s') = mset (back_jobs s) + {#j'#}" "waiting_jobs s' = waiting_jobs s"
      using finish by (simp_all add: back_jobs_def)
    moreover have "?o j = Inr j'"
    proof -
      have "\<not> is_skip j" using r finish by (metis nth_mem)
      then show ?thesis using finish by (simp add: outcome_def)
    qed
    ultimately show ?thesis using running_update [OF r, of Waiting i] eq finish by (simp add: results_inv_def ac_simps)
  next
    case (die i j e)
    have "mset (held_jobs s') = mset (held_jobs s)"
      using held_update [of i s "Running j" "Died j"] die by simp
    then show ?thesis using running_update [OF r, of "Died j" i] eq die by (simp add: results_inv_def)
  qed
qed

lemma exit_mono: "pool_step run s s' \<Longrightarrow> pl_exit s \<Longrightarrow> pl_exit s'"
  by (erule pool_stepE) auto

lemma results_inv_steps:
  "(pool_step run)\<^sup>*\<^sup>* s s' \<Longrightarrow> results_inv run jobs s \<Longrightarrow> \<not> pl_exit s' \<Longrightarrow> results_inv run jobs s'"
  by (induction rule: rtranclp_induct) (auto intro: results_inv_step dest: exit_mono)

interpretation runner: job_runner "run_job sh c opts"
  by unfold_locales (simp add: run_job_key)


section \<open>What the queues guarantee\<close>

text \<open>C2: when the main thread has received as many jobs as it has put, it has received exactly
  the jobs it has put - none lost, none twice, whatever the threads did in between and whether
  or not the run was interrupted - and every worker waits or has returned.\<close>

theorem pool_receives_every_job:
  assumes "\<forall>j \<in> set jobs. \<not> is_break j" and "(pool_step (run_job sh c opts))\<^sup>*\<^sup>* (new_pool n jobs) s" and "pl_left s = 0"
  shows "image_mset job_key (mset (pl_received s)) = image_mset job_key (mset jobs) \<and>
    (\<forall>w \<in> set (pl_workers s). w = Waiting \<or> w = Stopped)"
  by (rule runner.received_all [OF runner.pool_inv_reach [OF assms(2,1)] assms(3)])

definition quiet_shell :: shell where
  "quiet_shell cmd dir = Inr \<lparr>sr_returncode = 0, sr_stdout = [], sr_stderr = [], sr_elapsed = 1 / 4\<rparr>"

definition demo_job :: job where
  "demo_job = set_is_skip True (set_display_name ''nsc-tcp-loss'' new_job)"

lemma single_skip_schedule:
  assumes sk: "is_skip j" "\<not> is_break j"
  shows "(pool_step run)\<^sup>*\<^sup>* (new_pool 1 [j]) \<lparr>pl_todo = [], pl_input = [break_job], pl_output = [], pl_workers = [Waiting],
     pl_exit = False, pl_left = 0, pl_received = [j]\<rparr>"
proof -
  define p where "p todo input out w left rcv = \<lparr>pl_todo = todo, pl_input = input, pl_output = out, pl_workers = [w],
     pl_exit = False, pl_left = left, pl_received = rcv\<rparr>" for todo input out w left rcv
  have start: "new_pool 1 [j] = p [j, break_job] [] [] Waiting 1 []"
    by (simp add: new_pool_def p_def)
  have 1: "pool_step run (p [j, break_job] [] [] Waiting 1 []) (p [break_job] [j] [] Waiting 1 [])"
    using pool_step.put [of "p [j, break_job] [] [] Waiting 1 []"] by (simp add: p_def)
  have 2: "pool_step run (p [break_job] [j] [] Waiting 1 []) (p [] [j, break_job] [] Waiting 1 [])"
    using pool_step.put [of "p [break_job] [j] [] Waiting 1 []"] by (simp add: p_def)
  have 3: "pool_step run (p [] [j, break_job] [] Waiting 1 []) (p [] [break_job] [] (Holding j) 1 [])"
    using pool_step.get [of 0 "p [] [j, break_job] [] Waiting 1 []"]
    by (simp add: p_def set_worker_def sk)
  have 4: "pool_step run (p [] [break_job] [] (Holding j) 1 []) (p [] [break_job] [j] Waiting 1 [])"
    using pool_step.skip [of 0 "p [] [break_job] [] (Holding j) 1 []" j]
    by (simp add: p_def set_worker_def ship_def sk)
  have 5: "pool_step run (p [] [break_job] [j] Waiting 1 []) (p [] [break_job] [] Waiting 0 [j])"
    using pool_step.receive [of "p [] [break_job] [j] Waiting 1 []"] by (simp add: p_def)
  have "(pool_step run)\<^sup>*\<^sup>* (new_pool 1 [j]) (p [] [break_job] [] Waiting 0 [j])"
    unfolding start using 1 2 3 4 5 by (meson converse_rtranclp_into_rtranclp rtranclp.rtrancl_refl)
  then show ?thesis by (simp add: p_def)
qed

lemma demo_schedule:
  "(pool_step run)\<^sup>*\<^sup>* (new_pool 1 [demo_job]) \<lparr>pl_todo = [], pl_input = [break_job], pl_output = [], pl_workers = [Waiting],
     pl_exit = False, pl_left = 0, pl_received = [demo_job]\<rparr>"
  by (rule single_skip_schedule) (simp_all add: demo_job_def job_setters new_job_def)

lemma demo_job_plain: "\<forall>j \<in> set [demo_job]. \<not> is_break j"
  by (simp add: demo_job_def job_setters new_job_def)

theorem pool_receives_every_job_witness:
  "\<exists>s. (pool_step (run_job quiet_shell demo_config default_options))\<^sup>*\<^sup>* (new_pool 1 [demo_job]) s \<and>
    image_mset job_key (mset (pl_received s)) = {#job_key demo_job#}"
proof -
  have "image_mset job_key (mset (pl_received \<lparr>pl_todo = [], pl_input = [break_job], pl_output = [], pl_workers = [Waiting],
     pl_exit = False, pl_left = 0, pl_received = [demo_job]\<rparr>)) = image_mset job_key (mset [demo_job])"
    using pool_receives_every_job [OF demo_job_plain demo_schedule] by simp
  with demo_schedule show ?thesis by fastforce
qed

text \<open>No schedule goes on for ever: with \<open>n\<close> workers the threads take at most six steps for
  every job and every break job, and one for an interrupt.\<close>

theorem pool_ends:
  assumes "(pool_step run ^^ k) (new_pool n jobs) s"
  shows "k \<le> 6 * (length jobs + nat n) + 1"
proof -
  have "sum_list (map worker_effort (replicate m Waiting)) = 0" for m by (induction m) simp_all
  then have "effort (new_pool n jobs) = 6 * (length jobs + nat n) + 1"
    by (simp add: effort_def new_pool_def)
  with effort_steps [OF assms] show ?thesis by simp
qed

theorem pool_ends_witness:
  "\<exists>s k. (pool_step (run_job quiet_shell demo_config default_options) ^^ k) (new_pool 1 [demo_job]) s \<and> 0 < k \<and> k \<le> 13"
proof -
  have "(pool_step (run_job quiet_shell demo_config default_options) ^^ 1) (new_pool 1 [demo_job])
      (new_pool 1 [demo_job]\<lparr>pl_todo := [break_job], pl_input := [demo_job]\<rparr>)"
    using pool_step.put [of "new_pool 1 [demo_job]"] by (simp add: new_pool_def eq_OO)
  with pool_ends [OF this] show ?thesis by force
qed

lemma no_death: "pool_step run s s' \<Longrightarrow> \<forall>j. \<exists>j'. run j = Inr j' \<Longrightarrow> \<forall>j. Died j \<notin> set (pl_workers s) \<Longrightarrow>
    \<forall>j. Died j \<notin> set (pl_workers s')"
  by (erule pool_stepE) (auto dest!: set_update_subset_insert [THEN subsetD], metis Inl_Inr_False)

lemma no_death_steps: "(pool_step run)\<^sup>*\<^sup>* s s' \<Longrightarrow> \<forall>j. \<exists>j'. run j = Inr j' \<Longrightarrow> \<forall>j. Died j \<notin> set (pl_workers s) \<Longrightarrow>
    \<forall>j. Died j \<notin> set (pl_workers s')"
  by (induction rule: rtranclp_induct) (auto dest: no_death)

text \<open>C12: with at least one worker, and when running a job does not raise, the threads never get
  stuck: from every state they can reach, they can go on to the end, where the main thread has
  received the last job and all workers have returned.\<close>

theorem pool_completes:
  assumes jobs: "\<forall>j \<in> set jobs. \<not> is_break j" and n: "0 < n" and total: "\<forall>j. \<exists>j'. run_job sh c opts j = Inr j'"
    and reach: "(pool_step (run_job sh c opts))\<^sup>*\<^sup>* (new_pool n jobs) s"
  shows "\<exists>s'. (pool_step (run_job sh c opts))\<^sup>*\<^sup>* s s' \<and> pool_done s'"
  using reach
proof (induction "effort s" arbitrary: s rule: less_induct)
  case (less s)
  show ?case
  proof (cases "pool_done s")
    case False
    have "\<forall>j. Died j \<notin> set (pl_workers (new_pool n jobs))" by (simp add: new_pool_def)
    with no_death_steps [OF less.prems total] have "\<forall>j. Died j \<notin> set (pl_workers s)" by blast
    with runner.no_deadlock [OF runner.pool_inv_reach [OF less.prems jobs] n _ False]
    obtain t where t: "pool_step (run_job sh c opts) s t" by blast
    with less.hyps [OF effort_decreases [OF t]] less.prems show ?thesis
      by (meson converse_rtranclp_into_rtranclp rtranclp.rtrancl_into_rtrancl)
  qed blast
qed

lemma quiet_total: "\<exists>j'. run_job quiet_shell demo_config opts j = Inr j'"
  by (simp add: run_job_def run_job_synchronously_def quiet_shell_def demo_config_def Let_def)

theorem pool_completes_witness:
  "\<exists>s'. (pool_step (run_job quiet_shell demo_config default_options))\<^sup>*\<^sup>* (new_pool 2 [demo_job, new_job]) s' \<and> pool_done s'"
  by (rule pool_completes [where n = 2 and jobs = "[demo_job, new_job]"])
     (simp_all add: quiet_total demo_job_def job_setters new_job_def)

text \<open>When running a job raises an exception in a worker - its directory is missing, or no
  Python was configured - the main thread waits for that job for ever: it never gets past its
  loop, whatever the other threads do.\<close>

theorem dead_worker_blocks:
  assumes "\<forall>j \<in> set jobs. \<not> is_break j" and "(pool_step (run_job sh c opts))\<^sup>*\<^sup>* (new_pool n jobs) s"
    and "Died j \<in> set (pl_workers s)" and "(pool_step (run_job sh c opts))\<^sup>*\<^sup>* s s'"
  shows "0 < pl_left s' \<and> \<not> pool_done s'"
  using runner.died_never_done [OF runner.pool_inv_reach [OF assms(2,1)] assms(3,4)] by (simp add: pool_done_def)

definition broken_shell :: shell where
  "broken_shell cmd dir = Inl OSError"

theorem dead_worker_blocks_witness:
  "\<exists>s. (pool_step (run_job broken_shell demo_config default_options))\<^sup>*\<^sup>* (new_pool 1 [new_job]) s \<and> 0 < pl_left s \<and> \<not> pool_done s"
proof -
  let ?run = "run_job broken_shell demo_config default_options"
  define p where "p todo input w = \<lparr>pl_todo = todo, pl_input = input, pl_output = [], pl_workers = [w],
     pl_exit = False, pl_left = 1, pl_received = []\<rparr>" for todo input w
  have start: "new_pool 1 [new_job] = p [new_job, break_job] [] Waiting"
    by (simp add: new_pool_def p_def)
  have plain: "\<not> is_break new_job" "\<not> is_skip new_job" by (simp_all add: new_job_def)
  have 1: "pool_step ?run (p [new_job, break_job] [] Waiting) (p [break_job] [new_job] Waiting)"
    using pool_step.put [of "p [new_job, break_job] [] Waiting"] by (simp add: p_def)
  have 2: "pool_step ?run (p [break_job] [new_job] Waiting) (p [break_job] [] (Holding new_job))"
    using pool_step.get [of 0 "p [break_job] [new_job] Waiting"] plain by (simp add: p_def set_worker_def)
  have 3: "pool_step ?run (p [break_job] [] (Holding new_job)) (p [break_job] [] (Running new_job))"
    using pool_step.launch [of 0 "p [break_job] [] (Holding new_job)" new_job] plain by (simp add: p_def set_worker_def)
  have err: "?run new_job = Inl OSError"
    by (simp add: run_job_def run_job_synchronously_def broken_shell_def new_job_def default_options_def Let_def)
  have 4: "pool_step ?run (p [break_job] [] (Running new_job)) (p [break_job] [] (Died new_job))"
    using pool_step.die [of 0 "p [break_job] [] (Running new_job)" new_job ?run OSError] err by (simp add: p_def set_worker_def)
  have reach: "(pool_step ?run)\<^sup>*\<^sup>* (new_pool 1 [new_job]) (p [break_job] [] (Died new_job))"
    unfolding start using 1 2 3 4 by (meson converse_rtranclp_into_rtranclp rtranclp.rtrancl_refl)
  have "0 < pl_left (p [break_job] [] (Died new_job)) \<and> \<not> pool_done (p [break_job] [] (Died new_job))"
    by (rule dead_worker_blocks [OF _ reach _ rtranclp.rtrancl_refl]) (simp_all add: plain p_def)
  with reach show ?thesis by blast
qed

text \<open>Without workers - the number asked for with \<open>--jobs\<close> is negative - the main thread waits
  for its first job for ever.\<close>

theorem no_workers_block:
  assumes "n \<le> 0" and "(pool_step run)\<^sup>*\<^sup>* (new_pool n jobs) s"
  shows "pl_left s = length jobs \<and> pl_received s = []"
proof -
  have "pl_workers s = [] \<and> pl_output s = [] \<and> pl_left s = length jobs \<and> pl_received s = []"
    using assms(2)
  proof (induction rule: rtranclp_induct)
    case base
    then show ?case using assms(1) by (simp add: new_pool_def)
  next
    case (step t u)
    from step(2) show ?case by cases (use step(3) in auto)
  qed
  then show ?thesis by simp
qed

theorem no_workers_block_witness:
  "pl_left (new_pool (- 1) [demo_job]) = 1"
  using no_workers_block [of "- 1" "run_job quiet_shell demo_config default_options" "[demo_job]" "new_pool (- 1) [demo_job]"] by simp

end
