(* ===== verification/Test_Report.thy ===== *)
theory Test_Report
  imports Py_Prelude
begin

text \<open>
  The reports of \<^verbatim>\<open>test.py\<close>: the XML results file is read back as a tree and written out as
  text or HTML.  What a function writes is the list of its writes, in order; reading the
  text of an element that is not there raises.
\<close>

section \<open>The results tree\<close>

text \<open>Elements of \<open>xml.etree.ElementTree\<close>: tag, text, attributes and children.\<close>

datatype xml = Elem (x_tag: string) (x_text: "string option") (x_attrib: "(string \<times> string) list")
  (x_children: "xml list")

definition findall :: "string \<Rightarrow> xml \<Rightarrow> xml list" where
  "findall tag e = filter (\<lambda>c. x_tag c = tag) (x_children e)"

definition find_child :: "string \<Rightarrow> xml \<Rightarrow> xml option" where
  "find_child tag e = (case findall tag e of [] \<Rightarrow> None | c # cs \<Rightarrow> Some c)"

text \<open>\<open>e.find(tag).text\<close>.\<close>

definition child_text :: "string \<Rightarrow> xml \<Rightarrow> string option res" where
  "child_text tag e = (case find_child tag e of None \<Rightarrow> Inl AttributeError | Some c \<Rightarrow> Inr (x_text c))"

text \<open>\<open>"%s" % x\<close> where \<open>x\<close> may be \<open>None\<close>.\<close>

definition show_opt :: "string option \<Rightarrow> string" where
  "show_opt x = (case x of None \<Rightarrow> ''None'' | Some s \<Rightarrow> s)"

definition time_real :: "xml \<Rightarrow> string option" where
  "time_real e = (case find_child ''Time'' e of None \<Rightarrow> Some [] | Some t \<Rightarrow> map_of (x_attrib t) ''real'')"

record test_info =
  ti_result :: "string option"
  ti_name :: "string option"
  ti_reason :: "string option"
  ti_time :: "string option"

definition read_test :: "xml \<Rightarrow> test_info res" where
  "read_test test =
     res_bind (child_text ''Result'' test) (\<lambda>result.
     res_bind (child_text ''Name'' test) (\<lambda>name.
       let reason = (case find_child ''Reason'' test of None \<Rightarrow> Some [] | Some r \<Rightarrow> x_text r) in
       Inr \<lparr>ti_result = result, ti_name = name, ti_reason = reason, ti_time = time_real test\<rparr>))"

section \<open>The text report\<close>

definition detail_fields :: "string list" where
  "detail_fields = [''Message'', ''Condition'', ''Actual'', ''Limit'', ''File'', ''Line'']"

text \<open>The labels of the text report are padded to one width.\<close>

definition text_label :: "string \<Rightarrow> string" where
  "text_label tag = ''      '' @ tag @ '':'' @ replicate (10 - length tag) CHR '' ''"

definition text_details :: "xml \<Rightarrow> string list res" where
  "text_details details = res_bind
     (concat_res (\<lambda>tag. res_bind (child_text tag details) (\<lambda>t. Inr [text_label tag @ show_opt t @ nl])) detail_fields)
     (\<lambda>ws. Inr ((''    Details:'' @ nl) # ws))"

definition text_header :: "test_info \<Rightarrow> string \<Rightarrow> string" where
  "text_header t test_type =
     (let reason = (case ti_reason t of None \<Rightarrow> ''None'' | Some [] \<Rightarrow> [] | Some r \<Rightarrow> '' ('' @ r @ '')'') in
      show_opt (ti_result t) @ '': Test '' @ test_type @ '' '' @ DQ @ show_opt (ti_name t) @ DQ @ '' ('' @
      show_opt (ti_time t) @ '')'' @ reason @ nl)"

lemma findall_smaller [termination_simp]: "c \<in> set (findall tag e) \<Longrightarrow> size c < size e"
  by (cases e) (auto simp: findall_def dest!: size_list_estimation' [where f = size, OF _ order_refl])

fun node_to_text :: "xml \<Rightarrow> string \<Rightarrow> string list res" where
  "node_to_text test test_type =
     res_bind (read_test test) (\<lambda>t.
     res_bind (concat_res text_details (findall ''FailureDetails'' test)) (\<lambda>details.
     res_bind (concat_res (\<lambda>child. node_to_text child ''Case'') (findall ''Test'' test)) (\<lambda>cases.
       Inr (text_header t test_type # details @ cases))))"

declare node_to_text.simps [simp del]

definition text_example :: "xml \<Rightarrow> string list res" where
  "text_example example =
     res_bind (child_text ''Result'' example) (\<lambda>result.
     res_bind (child_text ''Name'' example) (\<lambda>name.
       Inr [show_opt result @ '': Example '' @ DQ @ show_opt name @ DQ @ '' ('' @ show_opt (time_real example) @ '')'' @ nl]))"

text \<open>The name of the file written, and the writes.\<close>

definition translate_to_text :: "xml \<Rightarrow> string \<Rightarrow> (string \<times> string list) res" where
  "translate_to_text et text_file =
     res_bind (concat_res (\<lambda>test. node_to_text test ''Suite'') (findall ''Test'' et)) (\<lambda>tests.
     res_bind (concat_res text_example (findall ''Example'' et)) (\<lambda>examples.
       Inr (text_file @ ''.txt'', tests @ examples)))"

section \<open>The HTML report\<close>

abbreviation TR :: string where "TR \<equiv> ''<tr>'' @ nl"
abbreviation TR_END :: string where "TR_END \<equiv> ''</tr>'' @ nl"
abbreviation TABLE :: string where "TABLE \<equiv> ''<table border='' @ DQ @ ''1'' @ DQ @ ''>'' @ nl"
abbreviation TABLE_END :: string where "TABLE_END \<equiv> ''</table>'' @ nl"

definition styled :: "string \<Rightarrow> string" where
  "styled color = '' style='' @ DQ @ ''color:'' @ color @ DQ @ ''>''"

definition td :: "string \<Rightarrow> string" where
  "td s = ''<td>'' @ s @ ''</td>'' @ nl"

definition td_color :: "string \<Rightarrow> string \<Rightarrow> string" where
  "td_color color s = ''<td'' @ styled color @ s @ ''</td>'' @ nl"

definition suite_heading :: "test_info \<Rightarrow> string" where
  "suite_heading t =
     (let line = show_opt (ti_result t) @ '': '' @ show_opt (ti_name t) @ '' ('' @ show_opt (ti_time t) @ '')'' in
      if ti_result t = Some ''PASS'' then ''<h3'' @ styled ''green'' @ line @ ''</h3>'' @ nl
      else if ti_result t = Some ''SKIP'' then
        ''<h3'' @ styled ''#ff6600'' @ line @ '' ('' @ show_opt (ti_reason t) @ '')</h3>'' @ nl
      else ''<h3'' @ styled ''red'' @ line @ ''</h3>'' @ nl)"

definition html_details :: "xml \<Rightarrow> string list res" where
  "html_details details = res_bind
     (concat_res (\<lambda>tag. res_bind (child_text tag details) (\<lambda>t.
        Inr [''<b>'' @ tag @ '': </b>'' @ show_opt t @ (if tag = ''Line'' then [] else '', '')])) detail_fields)
     (\<lambda>ws. Inr (''<td>'' # ws @ [''</td>'' @ nl]))"

text \<open>The rows of a failed test case: one per detail, the first with the case's columns.\<close>

fun fail_rows :: "test_info \<Rightarrow> bool \<Rightarrow> xml list \<Rightarrow> string list res" where
  "fail_rows t first_row [] = Inr []"
| "fail_rows t first_row (details # rest) =
     res_bind (html_details details) (\<lambda>ws.
     res_bind (fail_rows t False rest) (\<lambda>rows.
       Inr ([TR] @
            (if first_row then [td_color ''red'' (show_opt (ti_result t)), td (show_opt (ti_name t)), td (show_opt (ti_time t))]
             else [td [], td [], td []]) @
            ws @ [''</td>'' @ nl] @ rows)))"

definition case_rows :: "xml \<Rightarrow> string list res" where
  "case_rows test_case =
     res_bind (read_test test_case) (\<lambda>t.
       if ti_result t = Some ''FAIL'' then fail_rows t True (findall ''FailureDetails'' test_case)
       else Inr [TR, td_color ''green'' (show_opt (ti_result t)), td (show_opt (ti_name t)),
                 td (show_opt (ti_time t)), td (show_opt (ti_reason t)), TR_END])"

definition no_cases :: "string option set" where
  "no_cases = {Some ''CRASH'', Some ''SKIP'', Some ''VALGR''}"

definition suite_html :: "xml \<Rightarrow> string list res" where
  "suite_html suite =
     res_bind (read_test suite) (\<lambda>t.
       let top = [suite_heading t, TABLE, ''<th> Result </th>'' @ nl] in
       if ti_result t \<in> no_cases then
         Inr (top @ [TR, td_color (if ti_result t = Some ''SKIP'' then ''#ff6600'' else ''red'') (show_opt (ti_result t)),
                     TR_END, TABLE_END])
       else
         res_bind (concat_res case_rows (findall ''Test'' suite)) (\<lambda>rows.
           Inr (top @ [''<th>Test Case Name</th>'' @ nl, ''<th> Time </th>'' @ nl] @
                (if ti_result t = Some ''FAIL'' then [''<th>Failure Details</th>'' @ nl] else []) @
                rows @ [TABLE_END])))"

definition example_row :: "xml \<Rightarrow> string list res" where
  "example_row example =
     res_bind (read_test example) (\<lambda>t.
       Inr [TR,
            if ti_result t = Some ''PASS'' then td_color ''green'' (show_opt (ti_result t))
            else if ti_result t = Some ''SKIP'' then
              ''<td'' @ styled ''#ff6600'' @ show_opt (ti_result t) @ ''</fd>'' @ nl
            else td_color ''red'' (show_opt (ti_result t)),
            td (show_opt (ti_name t)), td (show_opt (ti_time t)), td (show_opt (ti_reason t)), TR_END])"

definition translate_to_html :: "xml \<Rightarrow> string \<Rightarrow> (string \<times> string list) res" where
  "translate_to_html et html_file =
     res_bind (concat_res suite_html (findall ''Test'' et)) (\<lambda>suites.
     res_bind (concat_res example_row (findall ''Example'' et)) (\<lambda>examples.
       Inr (html_file @ ''.html'',
         [''<html>'' @ nl, ''<body>'' @ nl, ''<center><h1>ns-3 Test Results</h1></center>'' @ nl,
          ''<h2>Test Suites</h2>'' @ nl] @ suites @
         [''<h2>Examples</h2>'' @ nl, TABLE, ''<th> Result </th>'' @ nl, ''<th>Example Name</th>'' @ nl,
          ''<th>Elapsed Time</th>'' @ nl, ''<th>Details</th>'' @ nl] @ examples @
         [TABLE_END, ''</body>'' @ nl, ''</html>'' @ nl])))"


section \<open>The text report lists the nodes in order\<close>

text \<open>A test, its cases, their cases and so on, each before the next: what the report is about.\<close>

fun nodes :: "xml \<Rightarrow> string \<Rightarrow> (xml \<times> string) list" where
  "nodes test ty = (test, ty) # concat (map (\<lambda>c. nodes c ''Case'') (findall ''Test'' test))"

declare nodes.simps [simp del]

definition text_block :: "xml \<times> string \<Rightarrow> string list res" where
  "text_block n =
     res_bind (read_test (fst n)) (\<lambda>t.
     res_bind (concat_res text_details (findall ''FailureDetails'' (fst n))) (\<lambda>details.
       Inr (text_header t (snd n) # details)))"

lemma concat_res_concat: "concat_res f (concat (map g xs)) = concat_res (\<lambda>x. concat_res f (g x)) xs"
  by (induction xs) (simp_all add: concat_res_append)

lemma node_to_text_nodes: "node_to_text test ty = concat_res text_block (nodes test ty)"
proof (induction test ty rule: node_to_text.induct)
  case (1 test ty)
  have "concat_res (\<lambda>c. node_to_text c ''Case'') (findall ''Test'' test) =
      concat_res (\<lambda>c. concat_res text_block (nodes c ''Case'')) (findall ''Test'' test)"
    if "read_test test = Inr t" "concat_res text_details (findall ''FailureDetails'' test) = Inr d" for t d
    using 1 that by (intro concat_res_cong) auto
  then show ?case
    by (subst node_to_text.simps, subst nodes.simps)
       (simp add: concat_res_concat text_block_def res_bind_assoc cong: res_bind_cong)
qed


section \<open>The rows and tables of the HTML report\<close>

lemma td_neq: "td s \<noteq> TR" "td s \<noteq> TR_END" "td s \<noteq> TABLE" "td s \<noteq> TABLE_END"
  by (simp_all add: td_def)

lemma td_color_neq: "td_color c s \<noteq> TR" "td_color c s \<noteq> TR_END" "td_color c s \<noteq> TABLE" "td_color c s \<noteq> TABLE_END"
  by (simp_all add: td_color_def)

lemma suite_heading_neq: "suite_heading t \<noteq> TR" "suite_heading t \<noteq> TR_END"
    "suite_heading t \<noteq> TABLE" "suite_heading t \<noteq> TABLE_END"
  by (simp_all add: suite_heading_def Let_def)

lemmas plain_writes [simp] = td_neq [simplified] td_color_neq [simplified] suite_heading_neq [simplified]

definition markers :: "string set" where
  "markers = {TR, TR_END, TABLE, TABLE_END}"

lemma html_details_plain: "html_details d = Inr ws \<Longrightarrow> m \<in> markers \<Longrightarrow> count_list ws m = 0"
  by (auto simp: html_details_def res_bind_eq_Inr detail_fields_def markers_def)

definition is_failed :: "xml \<Rightarrow> bool" where
  "is_failed e \<longleftrightarrow> child_text ''Result'' e = Inr (Some ''FAIL'')"

definition has_cases :: "xml \<Rightarrow> bool" where
  "has_cases suite \<longleftrightarrow> (\<forall>r. child_text ''Result'' suite = Inr r \<longrightarrow> r \<notin> no_cases)"

text \<open>The rows of the test cases that are opened and not closed, and all the opened ones.\<close>

definition case_details :: "xml \<Rightarrow> nat" where
  "case_details c = (if is_failed c then length (findall ''FailureDetails'' c) else 0)"

definition suite_details :: "xml \<Rightarrow> nat" where
  "suite_details s = (if has_cases s then sum_list (map case_details (findall ''Test'' s)) else 0)"

lemma fail_rows_count:
  "fail_rows t b ds = Inr ws \<Longrightarrow> count_list ws TR = length ds \<and> count_list ws TR_END = 0 \<and>
     count_list ws TABLE = 0 \<and> count_list ws TABLE_END = 0"
proof (induction t b ds arbitrary: ws rule: fail_rows.induct)
  case (2 t b d ds)
  then obtain w rows where w: "html_details d = Inr w" and rows: "fail_rows t False ds = Inr rows"
    and ws: "ws = [TR] @ (if b then [td_color ''red'' (show_opt (ti_result t)), td (show_opt (ti_name t)), td (show_opt (ti_time t))]
             else [td [], td [], td []]) @ w @ [''</td>'' @ nl] @ rows"
    by (auto simp: res_bind_eq_Inr)
  have "count_list w TR = 0" "count_list w TR_END = 0" "count_list w TABLE = 0" "count_list w TABLE_END = 0"
    by (rule html_details_plain [OF w], simp add: markers_def)+
  with "2.IH" [OF w rows] ws show ?case by simp
qed simp

lemma read_test_result: "read_test e = Inr t \<Longrightarrow> child_text ''Result'' e = Inr (ti_result t)"
  by (auto simp: read_test_def res_bind_eq_Inr Let_def)

lemma case_rows_count:
  assumes "case_rows c = Inr ws"
  shows "count_list ws TR = count_list ws TR_END + case_details c \<and>
     count_list ws TABLE = 0 \<and> count_list ws TABLE_END = 0"
proof -
  obtain t where t: "read_test c = Inr t"
    and ws: "(if ti_result t = Some ''FAIL'' then fail_rows t True (findall ''FailureDetails'' c)
       else Inr [TR, td_color ''green'' (show_opt (ti_result t)), td (show_opt (ti_name t)),
                 td (show_opt (ti_time t)), td (show_opt (ti_reason t)), TR_END]) = Inr ws"
    using assms by (auto simp: case_rows_def res_bind_eq_Inr)
  show ?thesis
  proof (cases "ti_result t = Some ''FAIL''")
    case True
    with ws have "fail_rows t True (findall ''FailureDetails'' c) = Inr ws" by simp
    from fail_rows_count [OF this] True read_test_result [OF t] show ?thesis
      by (simp add: case_details_def is_failed_def)
  next
    case False
    then show ?thesis using ws read_test_result [OF t] by (auto simp: case_details_def is_failed_def)
  qed
qed


lemma rows_count:
  "concat_res case_rows cs = Inr ws \<Longrightarrow> count_list ws TR = count_list ws TR_END + sum_list (map case_details cs) \<and>
     count_list ws TABLE = 0 \<and> count_list ws TABLE_END = 0"
proof (induction cs arbitrary: ws)
  case (Cons c cs)
  then obtain a b where a: "case_rows c = Inr a" and b: "concat_res case_rows cs = Inr b" and ws: "ws = a @ b"
    by (auto simp: res_bind_eq_Inr)
  from case_rows_count [OF a] Cons.IH [OF b] show ?case unfolding ws count_list_append by simp
qed simp

lemma suite_html_count:
  assumes "suite_html s = Inr ws"
  shows "count_list ws TR = count_list ws TR_END + suite_details s \<and> count_list ws TABLE = 1 \<and> count_list ws TABLE_END = 1"
proof -
  obtain t where t: "read_test s = Inr t" using assms by (auto simp: suite_html_def res_bind_eq_Inr)
  show ?thesis
  proof (cases "ti_result t \<in> no_cases")
    case True
    then show ?thesis using assms t read_test_result [OF t]
      by (auto simp: suite_html_def suite_details_def has_cases_def Let_def)
  next
    case False
    then obtain rows where rows: "concat_res case_rows (findall ''Test'' s) = Inr rows"
      and ws: "ws = [suite_heading t, TABLE, ''<th> Result </th>'' @ nl] @
           [''<th>Test Case Name</th>'' @ nl, ''<th> Time </th>'' @ nl] @
           (if ti_result t = Some ''FAIL'' then [''<th>Failure Details</th>'' @ nl] else []) @ rows @ [TABLE_END]"
      using assms t by (auto simp: suite_html_def res_bind_eq_Inr Let_def)
    have "suite_details s = sum_list (map case_details (findall ''Test'' s))"
      using False read_test_result [OF t] by (simp add: suite_details_def has_cases_def)
    with rows_count [OF rows] ws show ?thesis by simp
  qed
qed

lemma suites_count:
  "concat_res suite_html ss = Inr ws \<Longrightarrow> count_list ws TR = count_list ws TR_END + sum_list (map suite_details ss) \<and>
     count_list ws TABLE = length ss \<and> count_list ws TABLE_END = length ss"
proof (induction ss arbitrary: ws)
  case (Cons s ss)
  then obtain a b where a: "suite_html s = Inr a" and b: "concat_res suite_html ss = Inr b" and ws: "ws = a @ b"
    by (auto simp: res_bind_eq_Inr)
  from suite_html_count [OF a] Cons.IH [OF b] show ?case unfolding ws count_list_append by simp
qed simp

lemma example_row_count:
  "example_row e = Inr ws \<Longrightarrow> count_list ws TR = 1 \<and> count_list ws TR_END = 1 \<and>
     count_list ws TABLE = 0 \<and> count_list ws TABLE_END = 0"
  by (auto simp: example_row_def res_bind_eq_Inr split: if_split_asm)

lemma examples_count:
  "concat_res example_row es = Inr ws \<Longrightarrow> count_list ws TR = count_list ws TR_END \<and>
     count_list ws TABLE = 0 \<and> count_list ws TABLE_END = 0"
proof (induction es arbitrary: ws)
  case (Cons s ss)
  then obtain a b where a: "example_row s = Inr a" and b: "concat_res example_row ss = Inr b" and ws: "ws = a @ b"
    by (auto simp: res_bind_eq_Inr)
  from example_row_count [OF a] Cons.IH [OF b] show ?case unfolding ws count_list_append by simp
qed simp

text \<open>The HTML report has one table for every suite and one for the examples, each opened and
  closed once; the rows it opens are more than the rows it closes by exactly the number of
  failure details shown, so the report of a run with failures is not well formed.\<close>

theorem translate_to_html_tables:
  assumes "translate_to_html et f = Inr (name, ws)"
  shows "count_list ws TABLE = Suc (length (findall ''Test'' et)) \<and>
    count_list ws TABLE_END = Suc (length (findall ''Test'' et)) \<and>
    count_list ws TR = count_list ws TR_END + sum_list (map suite_details (findall ''Test'' et))"
proof -
  obtain ss es where ss: "concat_res suite_html (findall ''Test'' et) = Inr ss"
    and es: "concat_res example_row (findall ''Example'' et) = Inr es"
    and ws: "ws = [''<html>'' @ nl, ''<body>'' @ nl, ''<center><h1>ns-3 Test Results</h1></center>'' @ nl,
          ''<h2>Test Suites</h2>'' @ nl] @ ss @
         [''<h2>Examples</h2>'' @ nl, TABLE, ''<th> Result </th>'' @ nl, ''<th>Example Name</th>'' @ nl,
          ''<th>Elapsed Time</th>'' @ nl, ''<th>Details</th>'' @ nl] @ es @
         [TABLE_END, ''</body>'' @ nl, ''</html>'' @ nl]"
    using assms by (auto simp: translate_to_html_def res_bind_eq_Inr)
  from suites_count [OF ss] examples_count [OF es] show ?thesis
    unfolding ws count_list_append by simp
qed

definition leaf :: "string \<Rightarrow> string \<Rightarrow> xml" where
  "leaf tag s = Elem tag (Some s) [] []"

definition demo_failed_case :: xml where
  "demo_failed_case = Elem ''Test'' None [] [leaf ''Result'' ''FAIL'', leaf ''Name'' ''c1'',
     Elem ''FailureDetails'' None [] (map (\<lambda>t. leaf t ''x'') detail_fields)]"

definition demo_results :: xml where
  "demo_results = Elem ''Results'' None []
     [Elem ''Test'' None [] [leaf ''Result'' ''FAIL'', leaf ''Name'' ''s1'', Elem ''Time'' None [(''real'', ''0.1'')] [],
        demo_failed_case],
      Elem ''Example'' None [] [leaf ''Result'' ''PASS'', leaf ''Name'' ''e1'']]"

theorem translate_to_html_tables_witness:
  "\<exists>name ws. translate_to_html demo_results ''out'' = Inr (name, ws) \<and> count_list ws TABLE = 2 \<and>
     count_list ws TR = Suc (count_list ws TR_END)"
proof -
  have "\<not> isl (translate_to_html demo_results ''out'')" by code_simp
  then obtain name ws where r: "translate_to_html demo_results ''out'' = Inr (name, ws)"
    by (cases "translate_to_html demo_results ''out''") auto
  have "length (findall ''Test'' demo_results) = 1" "sum_list (map suite_details (findall ''Test'' demo_results)) = 1"
    by (simp_all add: demo_results_def demo_failed_case_def findall_def suite_details_def has_cases_def child_text_def
        find_child_def leaf_def no_cases_def case_details_def is_failed_def)
  with translate_to_html_tables [OF r] have "count_list ws TABLE = 2" "count_list ws TR = Suc (count_list ws TR_END)"
    by simp_all
  with r show ?thesis by blast
qed

text \<open>A failed test case whose failures are those of nested cases, so that it has no failure
  details of its own, leaves no row in the HTML report, while the text report lists it.\<close>

theorem html_drops_nested_failures:
  assumes "read_test c = Inr t" and "ti_result t = Some ''FAIL''" and "findall ''FailureDetails'' c = []"
    and "node_to_text c ''Case'' = Inr ws"
  shows "case_rows c = Inr [] \<and> hd ws = text_header t ''Case''"
proof -
  have "case_rows c = Inr []" using assms(1-3) by (simp add: case_rows_def)
  moreover have "hd ws = text_header t ''Case''"
    using assms(4) unfolding node_to_text.simps [of c] by (auto simp: assms(1) res_bind_eq_Inr)
  ultimately show ?thesis by blast
qed

definition demo_nested :: xml where
  "demo_nested = Elem ''Test'' None [] [leaf ''Result'' ''FAIL'', leaf ''Name'' ''outer'', demo_failed_case]"

theorem html_drops_nested_failures_witness:
  "case_rows demo_nested = Inr [] \<and> hd (projr (node_to_text demo_nested ''Case''))
    = ''FAIL: Test Case '' @ DQ @ ''outer'' @ DQ @ '' ()'' @ nl"
proof -
  define t where "t = \<lparr>ti_result = Some ''FAIL'', ti_name = Some ''outer'', ti_reason = Some [], ti_time = Some []\<rparr>"
  have r: "read_test demo_nested = Inr t"
    by (simp add: read_test_def demo_nested_def demo_failed_case_def child_text_def find_child_def findall_def leaf_def
        time_real_def t_def)
  have f: "findall ''Test'' demo_failed_case = []" "findall ''Test'' demo_nested = [demo_failed_case]"
    "findall ''FailureDetails'' demo_nested = []"
    by (simp_all add: demo_nested_def demo_failed_case_def findall_def leaf_def)
  have "\<not> isl (read_test demo_failed_case)" "\<not> isl (concat_res text_details (findall ''FailureDetails'' demo_failed_case))"
    by code_simp+
  then obtain a b where "read_test demo_failed_case = Inr a"
    "concat_res text_details (findall ''FailureDetails'' demo_failed_case) = Inr b"
    by (metis isl_def sum.collapse(2))
  then obtain ws where ws: "node_to_text demo_nested ''Case'' = Inr ws"
    by (simp add: node_to_text.simps [of demo_nested] node_to_text.simps [of demo_failed_case] f r)
  have "case_rows demo_nested = Inr [] \<and> hd ws = text_header t ''Case''"
    by (rule html_drops_nested_failures [OF r _ _ ws])
       (simp_all add: t_def demo_nested_def demo_failed_case_def findall_def leaf_def)
  with ws show ?thesis by (simp add: text_header_def t_def show_opt_def)
qed

end
