(* ===== verification/Test_Collect.thy ===== *)
theory Test_Collect
  imports Test_Pool Test_Report
begin

text \<open>
  The end of \<open>run_tests\<close> of \<^verbatim>\<open>test.py\<close>: what the main thread does with a job it has received -
  the counters, the lists of names, the line it prints, the XML it appends - and the summary,
  the reports and the exit code.  \<open>fs\<close> holds the temporary files the test suites have
  written; \<open>parse\<close> is the XML parser.  Printing and writing are lists of strings.
\<close>

section \<open>Colours\<close>

definition get_color :: "bool \<Rightarrow> string \<Rightarrow> string" where
  "get_color use cl =
     (if use then
        (if cl = ''BOLD'' then CHR 0x1B # ''[01;1m'' else if cl = ''RED'' then CHR 0x1B # ''[01;31m''
         else if cl = ''GREEN'' then CHR 0x1B # ''[32m'' else if cl = ''YELLOW'' then CHR 0x1B # ''[33m''
         else if cl = ''PINK'' then CHR 0x1B # ''[35m'' else if cl = ''BLUE'' then CHR 0x1B # ''[01;34m''
         else if cl = ''CYAN'' then CHR 0x1B # ''[36m'' else if cl = ''GREY'' then CHR 0x1B # ''[37m''
         else if cl = ''NORMAL'' then CHR 0x1B # ''[0m'' else if cl = ''cursor_on'' then CHR 0x1B # ''[?25h''
         else if cl = ''cursor_off'' then CHR 0x1B # ''[?25l'' else [])
      else [])"

text \<open>\<open>colors_lst['USE']\<close> after \<open>main\<close> has seen the option and the variable \<open>NOCOLOR\<close>:
  \<open>x and 'no' or 'auto' or 'yes'\<close> is \<open>'no'\<close> for a value that is not empty.\<close>

definition use_color :: "options \<Rightarrow> string \<Rightarrow> bool" where
  "use_color opts env_nocolor = (\<not> (op_nocolor opts \<or> env_nocolor \<noteq> []))"

section \<open>One job\<close>

datatype status = PASS | FAIL | VALGR | CRASH | SKIP

definition job_status :: "job \<Rightarrow> status" where
  "job_status j = (if is_skip j then SKIP else if returncode j = 0 then PASS else if returncode j = 1 then FAIL
     else if returncode j = 2 then VALGR else CRASH)"

fun status_name :: "status \<Rightarrow> string" where
  "status_name PASS = ''PASS''" | "status_name FAIL = ''FAIL''" | "status_name VALGR = ''VALGR''"
| "status_name CRASH = ''CRASH''" | "status_name SKIP = ''SKIP''"

fun status_color :: "status \<Rightarrow> string" where
  "status_color PASS = ''GREEN''" | "status_color FAIL = ''RED''" | "status_color VALGR = ''CYAN''"
| "status_color CRASH = ''PINK''" | "status_color SKIP = ''GREY''"

record summary =
  sm_passed :: nat
  sm_skipped :: nat
  sm_failed :: nat
  sm_crashed :: nat
  sm_valgr :: nat
  sm_skipped_names :: "string list"
  sm_failed_names :: "string list"
  sm_crashed_names :: "string list"
  sm_valgr_names :: "string list"
  sm_xml :: "string list"
  sm_out :: "string list"

definition new_summary :: summary where
  "new_summary = \<lparr>sm_passed = 0, sm_skipped = 0, sm_failed = 0, sm_crashed = 0, sm_valgr = 0,
     sm_skipped_names = [], sm_failed_names = [], sm_crashed_names = [], sm_valgr_names = [],
     sm_xml = [''<?xml version='' @ DQ @ ''1.0'' @ DQ @ ''?>'' @ nl, ''<Results>'' @ nl], sm_out = []\<rparr>"

fun tally :: "status \<Rightarrow> job \<Rightarrow> summary \<Rightarrow> summary" where
  "tally SKIP j s = s\<lparr>sm_skipped := Suc (sm_skipped s),
     sm_skipped_names := sm_skipped_names s @ [display_name j @ '' ('' @ skip_reason j @ '')'']\<rparr>"
| "tally PASS j s = s\<lparr>sm_passed := Suc (sm_passed s)\<rparr>"
| "tally FAIL j s = s\<lparr>sm_failed := Suc (sm_failed s), sm_failed_names := sm_failed_names s @ [display_name j]\<rparr>"
| "tally VALGR j s = s\<lparr>sm_valgr := Suc (sm_valgr s), sm_valgr_names := sm_valgr_names s @ [display_name j]\<rparr>"
| "tally CRASH j s = s\<lparr>sm_crashed := Suc (sm_crashed s), sm_crashed_names := sm_crashed_names s @ [display_name j]\<rparr>"

definition progress_counter :: "summary \<Rightarrow> nat" where
  "progress_counter s = sm_passed s + sm_failed s + sm_skipped s + sm_crashed s"

definition job_kind :: "job \<Rightarrow> string" where
  "job_kind j = (if is_example j \<or> is_pyexample j then ''Example'' else ''TestSuite'')"

definition job_lines :: "options \<Rightarrow> bool \<Rightarrow> nat \<Rightarrow> job \<Rightarrow> summary \<Rightarrow> string list" where
  "job_lines opts color tests j s =
     (let st = job_status j;
          status_print = get_color color (status_color st) @ status_name st @ get_color color ''NORMAL''
      in [''['' @ str_nat (progress_counter s) @ ''/'' @ str_nat tests @ ''] '',
          status_print @
          (if op_duration opts \<or> op_constrain opts = ''performance'' then '' ('' @ fmt_f3 (elapsed_time j) @ '')'' else []) @
          '': '' @ job_kind j @ '' '' @ display_name j @ nl])"

definition xml_name :: "job \<Rightarrow> string" where
  "xml_name j = ''  <Name>'' @ display_name j @ ''</Name>'' @ nl"

definition xml_result :: "string \<Rightarrow> string" where
  "xml_result s = ''  <Result>'' @ s @ ''</Result>'' @ nl"

definition job_xml :: "file_system \<Rightarrow> job \<Rightarrow> string list res" where
  "job_xml fs j =
     (if is_example j \<or> is_pyexample j then
        Inr [''<Example>'' @ nl, xml_name j, xml_result (status_name (job_status j)),
             ''  <Time real='' @ DQ @ fmt_f3 (elapsed_time j) @ DQ @ ''/>'' @ nl, ''</Example>'' @ nl]
      else if is_skip j then
        Inr [''<Test>'' @ nl, xml_name j, xml_result ''SKIP'', ''  <Reason>'' @ skip_reason j @ ''</Reason>'' @ nl,
             ''</Test>'' @ nl]
      else if returncode j = 0 \<or> returncode j = 1 \<or> returncode j = 2 then
        (case fs (tmp_file_name j) of None \<Rightarrow> Inl OSError | Some t \<Rightarrow> Inr [t])
      else Inr [''<Test>'' @ nl, xml_name j, xml_result ''CRASH'', ''</Test>'' @ nl])"

definition collect_job :: "options \<Rightarrow> bool \<Rightarrow> file_system \<Rightarrow> nat \<Rightarrow> job \<Rightarrow> summary \<Rightarrow> summary res" where
  "collect_job opts color fs tests j s =
     (if is_break j then Inr s
      else
        let s = tally (job_status j) j s;
            s = s\<lparr>sm_out := sm_out s @ job_lines opts color tests j s\<rparr>
        in res_bind (job_xml fs j) (\<lambda>ws. Inr (s\<lparr>sm_xml := sm_xml s @ ws\<rparr>)))"

fun collect_jobs :: "options \<Rightarrow> bool \<Rightarrow> file_system \<Rightarrow> nat \<Rightarrow> job list \<Rightarrow> summary \<Rightarrow> summary res" where
  "collect_jobs opts color fs tests [] s = Inr s"
| "collect_jobs opts color fs tests (j # js) s =
     res_bind (collect_job opts color fs tests j s) (collect_jobs opts color fs tests js)"

section \<open>The summary\<close>

definition name_list :: "string \<Rightarrow> string list \<Rightarrow> string list" where
  "name_list title names =
     (if names = [] then [] else [title @ nl @ ''    '' @ join (nl @ ''    '') (sort names) @ nl])"

definition summary_lines :: "nat \<Rightarrow> summary \<Rightarrow> string list" where
  "summary_lines tests s =
     [str_nat (sm_passed s) @ '' of '' @ str_nat tests @ '' tests passed ('' @ str_nat (sm_passed s) @ '' passed, '' @
      str_nat (sm_skipped s) @ '' skipped, '' @ str_nat (sm_failed s) @ '' failed, '' @
      str_nat (sm_crashed s) @ '' crashed, '' @ str_nat (sm_valgr s) @ '' valgrind errors)'' @ nl] @
     name_list ''List of SKIPped tests:'' (sm_skipped_names s) @
     name_list ''List of FAILed tests:'' (sm_failed_names s) @
     name_list ''List of CRASHed tests:'' (sm_crashed_names s) @
     name_list ''List of VALGR failures:'' (sm_valgr_names s)"

definition exit_code :: "nat \<Rightarrow> summary \<Rightarrow> int" where
  "exit_code tests s = (if sm_passed s + sm_skipped s = tests then 0 else 1)"

definition results_text :: "summary \<Rightarrow> string" where
  "results_text s = concat (sm_xml s) @ ''</Results>'' @ nl"

text \<open>One report: the lines printed about it and the file written.\<close>

definition report ::
  "string \<Rightarrow> string \<Rightarrow> (string \<times> string list) res \<Rightarrow> (string list \<times> (string \<times> string) list) res" where
  "report announce opt r = (if opt = [] then Inr ([], [])
     else res_bind r (\<lambda>(name, ws). Inr ([announce, ''done.'' @ nl], [(name, concat ws)])))"

definition final_notes :: "config \<Rightarrow> options \<Rightarrow> string list" where
  "final_notes c opts =
     (if \<not> cf_enable_tests c \<or> \<not> cf_enable_examples c then
        [nl] @
        (if \<not> cf_enable_tests c then
           [''***  Note: ns-3 tests are currently disabled. Enable them by adding'' @ nl,
            ''***  '' @ DQ @ ''--enable-tests'' @ DQ @ '' to ./waf configure or modifying your .ns3rc file.'' @ nl, nl] else []) @
        (if \<not> cf_enable_examples c then
           [''***  Note: ns-3 examples are currently disabled. Enable them by adding'' @ nl,
            ''***  '' @ DQ @ ''--enable-examples'' @ DQ @ '' to ./waf configure or modifying your .ns3rc file.'' @ nl, nl] else [])
      else []) @
     (if op_valgrind opts \<and> \<not> cf_valgrind_found c then
        [nl, ''***  Note: you are trying to use valgrind, but valgrind could not be found'' @ nl,
         ''***  on your machine.  All tests and examples will crash or be skipped.'' @ nl, nl] else [])"

text \<open>What is printed after the last job, the files written and the exit code.\<close>

definition finish_tests ::
  "(string \<Rightarrow> xml res) \<Rightarrow> config \<Rightarrow> options \<Rightarrow> nat \<Rightarrow> summary \<Rightarrow> (string list \<times> (string \<times> string) list \<times> int) res" where
  "finish_tests parse c opts tests s =
     (let html = op_html opts; text = op_text opts; xml = op_xml opts in
      res_bind (report (''Writing results to html file '' @ html @ ''.html...'') html
        (res_bind (parse (results_text s)) (\<lambda>et. translate_to_html et html))) (\<lambda>(l1, f1).
      res_bind (report (''Writing results to text file '' @ DQ @ text @ ''.txt'' @ DQ @ ''...'') text
        (res_bind (parse (results_text s)) (\<lambda>et. translate_to_text et text))) (\<lambda>(l2, f2).
      res_bind (report (''Writing results to xml file '' @ xml @ ''.xml...'') xml
        (Inr (xml @ ''.xml'', [results_text s]))) (\<lambda>(l3, f3).
        Inr (summary_lines tests s @ (if html @ text @ xml \<noteq> [] then [nl] else []) @ l1 @ l2 @ l3 @ final_notes c opts,
             f1 @ f2 @ f3, exit_code tests s)))))"

section \<open>The counters\<close>

definition of_status :: "status \<Rightarrow> job list \<Rightarrow> job list" where
  "of_status st js = filter (\<lambda>j. \<not> is_break j \<and> job_status j = st) js"

definition skip_line :: "job \<Rightarrow> string" where
  "skip_line j = display_name j @ '' ('' @ skip_reason j @ '')''"

lemma of_status_Nil [simp]: "of_status st [] = []"
  by (simp add: of_status_def)

lemma of_status_Cons: "of_status st (j # js) = (if \<not> is_break j \<and> job_status j = st then j # of_status st js else of_status st js)"
  by (simp add: of_status_def)

definition counts_after :: "job list \<Rightarrow> summary \<Rightarrow> summary \<Rightarrow> bool" where
  "counts_after js s s' \<longleftrightarrow>
     sm_passed s' = sm_passed s + length (of_status PASS js) \<and>
     sm_skipped s' = sm_skipped s + length (of_status SKIP js) \<and>
     sm_failed s' = sm_failed s + length (of_status FAIL js) \<and>
     sm_crashed s' = sm_crashed s + length (of_status CRASH js) \<and>
     sm_valgr s' = sm_valgr s + length (of_status VALGR js) \<and>
     sm_skipped_names s' = sm_skipped_names s @ map skip_line (of_status SKIP js) \<and>
     sm_failed_names s' = sm_failed_names s @ map display_name (of_status FAIL js) \<and>
     sm_crashed_names s' = sm_crashed_names s @ map display_name (of_status CRASH js) \<and>
     sm_valgr_names s' = sm_valgr_names s @ map display_name (of_status VALGR js)"

lemma collect_job_counts:
  assumes "collect_job opts color fs tests j s = Inr s'"
  shows "counts_after [j] s s'"
proof (cases "is_break j")
  case True
  with assms show ?thesis by (simp add: collect_job_def counts_after_def of_status_def)
next
  case False
  then show ?thesis using assms
    by (cases "job_status j")
       (auto simp: collect_job_def counts_after_def of_status_Cons skip_line_def res_bind_eq_Inr Let_def)
qed

lemma counts_after_trans:
  assumes "counts_after [j] s t" and "counts_after js t u"
  shows "counts_after (j # js) s u"
proof -
  have "of_status st (j # js) = of_status st [j] @ of_status st js" for st by (simp add: of_status_Cons)
  with assms show ?thesis by (simp add: counts_after_def)
qed

lemma collect_jobs_counts: "collect_jobs opts color fs tests js s = Inr s' \<Longrightarrow> counts_after js s s'"
proof (induction js arbitrary: s)
  case Nil
  then show ?case by (simp add: counts_after_def)
next
  case (Cons j js)
  then obtain t where 1: "collect_job opts color fs tests j s = Inr t" and 2: "collect_jobs opts color fs tests js t = Inr s'"
    by (auto simp: res_bind_eq_Inr)
  show ?case by (rule counts_after_trans [OF collect_job_counts [OF 1] Cons.IH [OF 2]])
qed

lemma of_status_mset: "mset js = mset js' \<Longrightarrow> mset (of_status st js) = mset (of_status st js')"
  by (simp add: of_status_def mset_filter)

lemma sort_eq_mset: "mset xs = mset ys \<Longrightarrow> sort xs = sort (ys :: 'a :: linorder list)"
  by (metis sort_key_id_if_sorted sorted_list_of_multiset_mset)

text \<open>The summary depends on the received jobs and not on their order.\<close>

lemma summary_order_irrelevant:
  assumes "counts_after js new_summary s" and "counts_after js' new_summary s'" and "mset js = mset js'"
  shows "summary_lines tests s = summary_lines tests s' \<and> exit_code tests s = exit_code tests s'"
proof -
  have m: "mset (of_status st js) = mset (of_status st js')" for st by (rule of_status_mset [OF assms(3)])
  have len: "length (of_status st js) = length (of_status st js')" for st by (metis m size_mset)
  have nil: "of_status st js = [] \<longleftrightarrow> of_status st js' = []" for st by (metis m mset_zero_iff)
  have srt: "sort (map f (of_status st js)) = sort (map f (of_status st js'))" for f :: "job \<Rightarrow> string" and st
    by (rule sort_eq_mset) (simp add: m)
  from assms(1,2) show ?thesis
    by (simp add: counts_after_def summary_lines_def exit_code_def name_list_def new_summary_def len nil srt)
qed

lemma of_status_lengths:
  "length (of_status PASS js) + length (of_status SKIP js) + length (of_status FAIL js) + length (of_status CRASH js) +
   length (of_status VALGR js) = length (filter (\<lambda>j. \<not> is_break j) js)"
proof (induction js)
  case (Cons j js)
  then show ?case by (cases "job_status j") (auto simp: of_status_Cons)
qed simp


lemma collect_job_ok: "(\<exists>r. collect_job opts color fs tests j s = Inr r) \<longleftrightarrow> is_break j \<or> (\<exists>ws. job_xml fs j = Inr ws)"
  by (auto simp: collect_job_def Let_def res_bind_eq_Inr)

lemma collect_jobs_ok:
  "(\<exists>r. collect_jobs opts color fs tests js s = Inr r) \<longleftrightarrow> (\<forall>j \<in> set js. is_break j \<or> (\<exists>ws. job_xml fs j = Inr ws))"
proof (induction js arbitrary: s)
  case (Cons j js)
  show ?case
  proof (cases "collect_job opts color fs tests j s")
    case (Inl e)
    then have "\<not> (is_break j \<or> (\<exists>ws. job_xml fs j = Inr ws))" using collect_job_ok [of opts color fs tests j s] by auto
    with Inl show ?thesis by simp
  next
    case (Inr t)
    then have "is_break j \<or> (\<exists>ws. job_xml fs j = Inr ws)" using collect_job_ok [of opts color fs tests j s] by auto
    with Inr Cons.IH [of t] show ?thesis by simp
  qed
qed simp

section \<open>What the summary says\<close>

lemma outcome_keeps:
  assumes "outcome (run_job sh c opts) i = Inr j"
  shows "is_break j = is_break i" "is_skip j = is_skip i"
  using assms run_job_key [of sh c opts i j] run_job_skip [of sh c opts i j]
  by (simp_all add: outcome_def split: if_split_asm)

lemma outcome_zero_iff:
  "(\<exists>j. outcome (run_job sh c opts) i = Inr j \<and> (is_skip j \<or> returncode j = 0)) \<longleftrightarrow>
   is_skip i \<or> (\<exists>j. run_job sh c opts i = Inr j \<and> returncode j = 0)"
proof (cases "is_skip i")
  case False
  have "\<not> is_skip j" if "run_job sh c opts i = Inr j" for j using run_job_skip [OF that] False by simp
  with False show ?thesis by (auto simp: outcome_def)
qed (simp add: outcome_def)

lemma received_outcomes_mset:
  assumes jobs: "\<forall>j \<in> set jobs. \<not> is_break j" and reach: "(pool_step (run_job sh c opts))\<^sup>*\<^sup>* (new_pool n jobs) s"
    and left: "pl_left s = 0" and calm: "\<not> pl_exit s"
  shows "image_mset Inr (mset (pl_received s)) = image_mset (outcome (run_job sh c opts)) (mset jobs)"
proof -
  have "length (waiting_jobs s) + length (held_jobs s) + length (pl_output s) = 0"
    using runner.pool_inv_size [OF runner.pool_inv_reach [OF reach jobs]] left by simp
  then have z: "waiting_jobs s = []" "held_jobs s = []" "pl_output s = []" by simp_all
  have "results_inv (run_job sh c opts) jobs s"
    by (rule results_inv_steps [OF reach results_inv_init [OF jobs] calm])
  then show ?thesis by (simp add: results_inv_def z back_jobs_def)
qed

lemma received_outcomes:
  assumes "\<forall>j \<in> set jobs. \<not> is_break j" and "(pool_step (run_job sh c opts))\<^sup>*\<^sup>* (new_pool n jobs) s"
    and "pl_left s = 0" and "\<not> pl_exit s"
    and seq: "map (outcome (run_job sh c opts)) jobs = map Inr js"
  shows "mset (pl_received s) = mset js"
proof -
  have "image_mset (Inr :: job \<Rightarrow> job res) (mset (pl_received s)) = image_mset Inr (mset js)"
    using received_outcomes_mset [OF assms(1-4)] arg_cong [OF seq, of mset] by simp
  then show ?thesis by (rule injD [OF multiset.inj_map [OF inj_Inr]])
qed

text \<open>C5: the summary and the exit code of a run that was not interrupted are those of running the
  jobs one after the other: they depend neither on the number of workers nor on the order in
  which the threads have worked.\<close>

theorem summary_independent_of_schedule:
  assumes "\<forall>j \<in> set jobs. \<not> is_break j" and "(pool_step (run_job sh c opts))\<^sup>*\<^sup>* (new_pool n jobs) s"
    and "pl_left s = 0" and "\<not> pl_exit s"
    and "map (outcome (run_job sh c opts)) jobs = map Inr js"
    and seq: "collect_jobs opts color fs tests js new_summary = Inr r"
  shows "\<exists>r'. collect_jobs opts color fs tests (pl_received s) new_summary = Inr r' \<and>
    summary_lines tests r' = summary_lines tests r \<and> exit_code tests r' = exit_code tests r"
proof -
  have m: "mset (pl_received s) = mset js" by (rule received_outcomes [OF assms(1-5)])
  then have "set (pl_received s) = set js" by (metis set_mset_mset)
  then obtain r' where r': "collect_jobs opts color fs tests (pl_received s) new_summary = Inr r'"
    using seq collect_jobs_ok by metis
  with summary_order_irrelevant [OF collect_jobs_counts [OF r'] collect_jobs_counts [OF seq] m] show ?thesis by blast
qed

theorem summary_independent_of_schedule_witness:
  "\<exists>s r'. (pool_step (run_job quiet_shell demo_config default_options))\<^sup>*\<^sup>* (new_pool 1 [demo_job]) s \<and>
     collect_jobs default_options False Map.empty 1 (pl_received s) new_summary = Inr r' \<and> exit_code 1 r' = 0"
proof -
  define s where "s = \<lparr>pl_todo = [], pl_input = [break_job], pl_output = [], pl_workers = [Waiting],
     pl_exit = False, pl_left = 0, pl_received = [demo_job]\<rparr>"
  define r where "r = projr (collect_jobs default_options False Map.empty 1 [demo_job] new_summary)"
  have run: "(pool_step (run_job quiet_shell demo_config default_options))\<^sup>*\<^sup>* (new_pool 1 [demo_job]) s"
    unfolding s_def by (rule demo_schedule)
  have out: "map (outcome (run_job quiet_shell demo_config default_options)) [demo_job] = map Inr [demo_job]"
    by (simp add: outcome_def demo_job_def job_setters)
  have r: "collect_jobs default_options False Map.empty 1 [demo_job] new_summary = Inr r"
    by (simp add: r_def collect_job_def demo_job_def job_setters new_job_def job_xml_def Let_def)
  have code: "exit_code 1 r = 0"
    by (simp add: r_def collect_job_def demo_job_def job_setters new_job_def job_xml_def Let_def job_status_def
        exit_code_def new_summary_def)
  have "\<exists>r'. collect_jobs default_options False Map.empty 1 (pl_received s) new_summary = Inr r' \<and>
    summary_lines 1 r' = summary_lines 1 r \<and> exit_code 1 r' = exit_code 1 r"
    by (rule summary_independent_of_schedule [OF demo_job_plain run _ _ out r]) (simp_all add: s_def)
  with run code show ?thesis by metis
qed

text \<open>The exit code: every job came back, and was skipped or returned 0.\<close>

lemma exit_code_zero_iff:
  assumes "collect_jobs opts color fs (length js) js new_summary = Inr r"
  shows "exit_code (length js) r = 0 \<longleftrightarrow> (\<forall>j \<in> set js. \<not> is_break j \<and> (is_skip j \<or> returncode j = 0))"
proof -
  have "exit_code (length js) r = 0 \<longleftrightarrow> length (of_status PASS js) + length (of_status SKIP js) = length js"
    using collect_jobs_counts [OF assms] by (simp add: exit_code_def counts_after_def new_summary_def)
  also have "length (of_status PASS js) + length (of_status SKIP js)
      = length (filter (\<lambda>j. \<not> is_break j \<and> (is_skip j \<or> returncode j = 0)) js)"
    by (induction js) (auto simp: of_status_Cons job_status_def)
  also have "\<dots> = length js \<longleftrightarrow> (\<forall>j \<in> set js. \<not> is_break j \<and> (is_skip j \<or> returncode j = 0))"
    by (induction js) (auto simp: le_imp_less_Suc [OF length_filter_le, THEN less_imp_neq])
  finally show ?thesis .
qed

text \<open>Every job that was not given back is counted once.  The number printed as the progress
  leaves out the jobs with valgrind errors: with any of them it never reaches the total.\<close>

theorem progress_misses_valgrind:
  assumes "collect_jobs opts color fs tests js new_summary = Inr r"
  shows "progress_counter r + sm_valgr r = length (filter (\<lambda>j. \<not> is_break j) js) \<and>
    sm_valgr r = length (filter (\<lambda>j. \<not> is_break j \<and> \<not> is_skip j \<and> returncode j = 2) js)"
proof -
  have "of_status VALGR js = filter (\<lambda>j. \<not> is_break j \<and> \<not> is_skip j \<and> returncode j = 2) js"
    by (auto simp: of_status_def job_status_def intro!: filter_cong)
  then show ?thesis using collect_jobs_counts [OF assms] of_status_lengths [of js]
    by (simp add: counts_after_def progress_counter_def new_summary_def)
qed

definition demo_leaky :: job where
  "demo_leaky = set_returncode 2 (set_is_example True (set_display_name ''leaky'' new_job))"

theorem progress_misses_valgrind_witness:
  "progress_counter (projr (collect_jobs default_options False Map.empty 1 [demo_leaky] new_summary)) = 0"
proof -
  define r where "r = projr (collect_jobs default_options False Map.empty 1 [demo_leaky] new_summary)"
  have r: "collect_jobs default_options False Map.empty 1 [demo_leaky] new_summary = Inr r"
    by (simp add: r_def collect_job_def demo_leaky_def job_setters new_job_def job_xml_def Let_def)
  show ?thesis using progress_misses_valgrind [OF r] by (simp add: r_def demo_leaky_def job_setters new_job_def)
qed

text \<open>A test suite that valgrind finds an error in leaves the same XML as one that passes: the
  \<open>VALGR\<close> entry the comments promise is not written, and no report shows the error.\<close>

theorem valgrind_error_not_in_xml:
  "job_xml fs (j\<lparr>is_example := False, is_pyexample := False, is_skip := False, returncode := 2\<rparr>)
   = job_xml fs (j\<lparr>is_example := False, is_pyexample := False, is_skip := False, returncode := 0\<rparr>)"
  by (simp add: job_xml_def)

end
