(* ===== verification/Test_Run.thy ===== *)
theory Test_Run
  imports Test_Collect
begin

text \<open>
  The first half of \<open>run_tests\<close> of \<^verbatim>\<open>test.py\<close>: reading the waf configuration, setting up the
  environment, finding the examples, choosing the suites and building the jobs.  The
  machine is a record \<open>env\<close>: the files, the shell, the working directory, the platform, the
  number of processors and Python's \<open>eval\<close> and \<open>exec\<close> at the types they are used at.
\<close>

record env =
  en_fs :: file_system
  en_sh :: shell
  en_cwd :: string
  en_platform :: string
  en_nprocs :: int
  en_stamp :: string
  en_eval_dir :: "string \<Rightarrow> string res"
  en_exec :: "string \<Rightarrow> config \<Rightarrow> config res"
  en_eval_cond :: "config \<Rightarrow> string \<Rightarrow> bool res"
  en_eval_cpp :: "string \<Rightarrow> (string \<times> string \<times> string) list res"
  en_eval_py :: "string \<Rightarrow> (string \<times> string) list res"
  en_eval_names :: "string \<Rightarrow> string list res"

abbreviation exists_file :: "env \<Rightarrow> string \<Rightarrow> bool" where
  "exists_file e p \<equiv> en_fs e p \<noteq> None"

section \<open>Paths and patterns\<close>

text \<open>The components of an absolute path, after \<open>.\<close>, \<open>..\<close> and empty ones are resolved.\<close>

definition resolve :: "string list \<Rightarrow> string list" where
  "resolve cs = foldl (\<lambda>done c. if c = [] \<or> c = ''.'' then done else if c = ''..'' then butlast done else done @ [c]) [] cs"

definition abs_components :: "string \<Rightarrow> string \<Rightarrow> string list" where
  "abs_components here p = resolve (split_on CHR ''/'' (path_join here p))"

definition abspath :: "string \<Rightarrow> string \<Rightarrow> string" where
  "abspath here p = ''/'' @ join ''/'' (abs_components here p)"

fun common_prefix :: "'a list \<Rightarrow> 'a list \<Rightarrow> nat" where
  "common_prefix (x # xs) (y # ys) = (if x = y then Suc (common_prefix xs ys) else 0)"
| "common_prefix xs ys = 0"

definition relpath :: "string \<Rightarrow> string \<Rightarrow> string \<Rightarrow> string" where
  "relpath here p start =
     (let ps = abs_components here p; ss = abs_components here start; i = common_prefix ss ps;
          rel = replicate (length ss - i) ''..'' @ drop i ps
      in if rel = [] then ''.'' else join ''/'' rel)"

text \<open>
  \<open>fnmatch\<close>: \<open>*\<close>, \<open>?\<close>, and sets \<open>[abc]\<close>, \<open>[a-c]\<close>, \<open>[!a]\<close>; a bracket that is not closed stands
  for itself.  A range whose ends are the wrong way round holds no character.
\<close>

fun in_set_spec :: "char \<Rightarrow> string \<Rightarrow> bool" where
  "in_set_spec c [] = False"
| "in_set_spec c (a # s) = (case s of
      d # b # rest \<Rightarrow>
        if d = CHR ''-'' then ((of_char a :: nat) \<le> of_char c \<and> (of_char c :: nat) \<le> of_char b) \<or> in_set_spec c rest
        else c = a \<or> in_set_spec c s
    | _ \<Rightarrow> c = a \<or> in_set_spec c s)"

text \<open>What follows an opening bracket: whether it negates, the set and the rest of the pattern.\<close>

definition bracket :: "string \<Rightarrow> (bool \<times> string \<times> string) option" where
  "bracket p =
     (let neg = (p \<noteq> [] \<and> hd p = CHR ''!''); q = (if neg then tl p else p);
          lead = (if q \<noteq> [] \<and> hd q = CHR '']'' then 1 else 0);
          body = take lead q @ takeWhile (\<lambda>c. c \<noteq> CHR '']'') (drop lead q);
          rest = drop (length body) q
      in if rest = [] then None else Some (neg, body, tl rest))"

lemma bracket_smaller: "bracket p = Some (n, b, r) \<Longrightarrow> length r < length p"
proof -
  assume b: "bracket p = Some (n, b, r)"
  define q where "q = (if p \<noteq> [] \<and> hd p = CHR ''!'' then tl p else p)"
  define k where "k = length b"
  from b have "drop k q \<noteq> []" "r = tl (drop k q)"
    by (auto simp: bracket_def Let_def q_def k_def split: if_splits)
  then have "length r < length q" by (cases "drop k q") (auto dest: arg_cong [of _ _ length])
  moreover have "length q \<le> length p" by (simp add: q_def)
  ultimately show ?thesis by simp
qed

function fnmatch :: "string \<Rightarrow> string \<Rightarrow> bool" where
  "fnmatch s [] = (s = [])"
| "fnmatch s (p # ps) =
     (if p = CHR ''*'' then fnmatch s ps \<or> (if s = [] then False else fnmatch (tl s) (p # ps))
      else if p = CHR ''?'' then s \<noteq> [] \<and> fnmatch (tl s) ps
      else (case (if p = CHR ''['' then bracket ps else None) of
          Some (neg, body, rest) \<Rightarrow> s \<noteq> [] \<and> (in_set_spec (hd s) body \<noteq> neg) \<and> fnmatch (tl s) rest
        | None \<Rightarrow> s \<noteq> [] \<and> hd s = p \<and> fnmatch (tl s) ps))"
  by pat_completeness auto
termination
  by (relation "measure (\<lambda>(s, p). length s + 2 * length p)")
     (auto simp: neq_Nil_conv dest!: bracket_smaller split: if_splits)

declare fnmatch.simps(2) [simp del]

definition fnmatch_filter :: "string list \<Rightarrow> string \<Rightarrow> string list" where
  "fnmatch_filter names pat = filter (\<lambda>n. fnmatch n pat) names"

section \<open>The waf configuration\<close>

definition interesting_config_items :: "string list" where
  "interesting_config_items =
     [''NS3_ENABLED_MODULES'', ''NS3_ENABLED_CONTRIBUTED_MODULES'', ''NS3_MODULE_PATH'', ''NSC_ENABLED'',
      ''ENABLE_REAL_TIME'', ''ENABLE_THREADING'', ''ENABLE_EXAMPLES'', ''ENABLE_TESTS'', ''EXAMPLE_DIRECTORIES'',
      ''ENABLE_PYTHON_BINDINGS'', ''NSCLICK'', ''ENABLE_BRITE'', ''ENABLE_OPENFLOW'', ''APPNAME'', ''BUILD_PROFILE'',
      ''VERSION'', ''PYTHON'', ''VALGRIND_FOUND'']"

text \<open>\<open>key, val = line.split('=')\<close> and \<open>eval(val.strip())\<close>.\<close>

definition eval_dir_line :: "env \<Rightarrow> string \<Rightarrow> string res" where
  "eval_dir_line e line = (case split_on CHR ''='' line of
      [key, val] \<Rightarrow> en_eval_dir e (strip val)
    | _ \<Rightarrow> Inl ValueError)"

fun read_lock :: "env \<Rightarrow> string list \<Rightarrow> string option \<Rightarrow> string option \<Rightarrow> (string option \<times> string option) res" where
  "read_lock e [] tdir odir = Inr (tdir, odir)"
| "read_lock e (line # lines) tdir odir =
     res_bind (if startswith line ''top_dir ='' then res_bind (eval_dir_line e line) (\<lambda>d. Inr (Some d)) else Inr tdir) (\<lambda>tdir'.
     res_bind (if startswith line ''out_dir ='' then res_bind (eval_dir_line e line) (\<lambda>d. Inr (Some d)) else Inr odir) (\<lambda>odir'.
       read_lock e lines tdir' odir'))"

fun exec_items :: "env \<Rightarrow> string \<Rightarrow> string list \<Rightarrow> config \<Rightarrow> config res" where
  "exec_items e line [] c = Inr c"
| "exec_items e line (item # items) c =
     res_bind (if startswith line item then en_exec e line c else Inr c) (exec_items e line items)"

fun exec_lines :: "env \<Rightarrow> string list \<Rightarrow> config \<Rightarrow> config res" where
  "exec_lines e [] c = Inr c"
| "exec_lines e (line # lines) c = res_bind (exec_items e line interesting_config_items c) (exec_lines e lines)"

definition read_waf_config :: "env \<Rightarrow> config \<Rightarrow> config res" where
  "read_waf_config e c0 =
     res_bind
       (case en_fs e (''.lock-waf_'' @ en_platform e @ ''_build'') of
          Some t \<Rightarrow> Inr t
        | None \<Rightarrow> (case en_fs e ''.lock-waf_linux2_build'' of Some t \<Rightarrow> Inr t | None \<Rightarrow> Inl (SystemExit 2))) (\<lambda>lock.
     res_bind (read_lock e (file_lines lock) None None) (\<lambda>(tdir, odir). (case (tdir, odir) of
         (Some top_dir, Some out_dir) \<Rightarrow>
           (case en_fs e (out_dir @ ''/c4che/_cache.py'') of
              None \<Rightarrow> Inl OSError
            | Some cache \<Rightarrow> exec_lines e (file_lines cache) (c0\<lparr>cf_basedir := top_dir, cf_builddir := out_dir\<rparr>))
       | _ \<Rightarrow> Inl UnboundLocalError)))"

section \<open>The environment of the tests\<close>

definition dict_get :: "(string \<times> string) list \<Rightarrow> string \<Rightarrow> string" where
  "dict_get d k = (case map_of d k of None \<Rightarrow> [] | Some v \<Rightarrow> v)"

text \<open>The variable of the dynamic loader and its separator.\<close>

definition library_variable :: "string \<Rightarrow> string \<times> string" where
  "library_variable platform =
     (if platform = ''darwin'' then (''DYLD_LIBRARY_PATH'', '':'')
      else if platform = ''win32'' then (''PATH'', '';'')
      else if platform = ''cygwin'' then (''PATH'', '':'')
      else (''LD_LIBRARY_PATH'', '':''))"

definition make_paths :: "config \<Rightarrow> string \<Rightarrow> (string \<times> string) list \<Rightarrow> (string \<times> string) list" where
  "make_paths c platform environ =
     (let have_PYTHONPATH = dict_has environ ''PYTHONPATH'';
          pypath = path_join (path_join (cf_builddir c) ''bindings'') ''python'';
          environ = dict_set ''PYTHONPATH'' pypath environ;
          environ = (if \<not> have_PYTHONPATH then dict_set ''PYTHONPATH'' pypath environ
                     else dict_set ''PYTHONPATH'' (dict_get environ ''PYTHONPATH'' @ '':'' @ pypath) environ)
      in case library_variable platform of (var, sep) \<Rightarrow>
        let environ = (if dict_has environ var then environ else dict_set var [] environ)
        in foldl (\<lambda>d path. dict_set var (dict_get d var @ sep @ path) d) environ (cf_module_path c))"

section \<open>Building\<close>

definition core_kinds :: "string list" where
  "core_kinds = [''core'', ''performance'', ''system'', ''unit'']"

definition waf_cmd :: "options \<Rightarrow> string" where
  "waf_cmd opts =
     (if op_kinds opts \<or> op_list opts \<or> (op_constrain opts \<noteq> [] \<and> op_constrain opts \<in> set core_kinds)
      then ''./waf --target=test-runner''
      else if op_example opts \<noteq> [] then ''./waf --target='' @ basename (op_example opts)
      else ''./waf'')"

section \<open>Examples\<close>

record examples =
  ex_cpp :: "(string \<times> string \<times> string \<times> string) list"
  ex_names :: "string list"
  ex_py :: "(string \<times> string) list"

text \<open>The name of an example and its arguments.\<close>

definition split_args :: "string \<Rightarrow> string \<times> string option" where
  "split_args s = (case split_once CHR '' '' s of [a, b] \<Rightarrow> (a, Some b) | _ \<Rightarrow> (s, None))"

definition with_args :: "string \<Rightarrow> string option \<Rightarrow> string" where
  "with_args s args = (case args of None \<Rightarrow> s | Some a \<Rightarrow> s @ '' '' @ a)"

definition add_cpp_example ::
  "env \<Rightarrow> config \<Rightarrow> string \<Rightarrow> examples \<Rightarrow> string \<times> string \<times> string \<Rightarrow> examples" where
  "add_cpp_example e c cpp_executable_dir ex entry =
     (case entry of (example_name_original, do_run, do_valgrind_run) \<Rightarrow>
      case split_args example_name_original of (example_name, args) \<Rightarrow>
      let example_path = path_join cpp_executable_dir (program_name c example_name);
          example_name = path_join (relpath (en_cwd e) cpp_executable_dir (cf_builddir c)) example_name
      in if exists_file e example_path then
           ex\<lparr>ex_cpp := ex_cpp ex @ [(with_args example_name args, with_args example_path args, do_run, do_valgrind_run)],
              ex_names := ex_names ex @ [example_name_original]\<rparr>
         else ex)"

definition add_py_example :: "env \<Rightarrow> string \<Rightarrow> examples \<Rightarrow> string \<times> string \<Rightarrow> examples" where
  "add_py_example e python_script_dir ex entry =
     (case entry of (example_name, do_run) \<Rightarrow>
      case split_args example_name of (example_name, args) \<Rightarrow>
      let example_path = path_join python_script_dir example_name
      in if exists_file e example_path then ex\<lparr>ex_py := ex_py ex @ [(with_args example_path args, do_run)]\<rparr> else ex)"

definition parse_examples_to_run_file ::
  "env \<Rightarrow> config \<Rightarrow> string \<Rightarrow> string \<Rightarrow> string \<Rightarrow> examples \<Rightarrow> examples res" where
  "parse_examples_to_run_file e c examples_to_run_path cpp_executable_dir python_script_dir ex =
     (if exists_file e examples_to_run_path then
        res_bind (get_list_from_file (en_eval_cpp e) (en_fs e) examples_to_run_path ''cpp_examples'') (\<lambda>cpp_examples.
        let ex = foldl (add_cpp_example e c cpp_executable_dir) ex cpp_examples in
        res_bind (get_list_from_file (en_eval_py e) (en_fs e) examples_to_run_path ''python_examples'') (\<lambda>python_examples.
          Inr (foldl (add_py_example e python_script_dir) ex python_examples)))
      else Inr ex)"

text \<open>The three places examples are looked for: the path of the list, the directory of the examples.\<close>

definition example_places :: "config \<Rightarrow> (string \<times> string) list" where
  "example_places c =
     map (\<lambda>d. (path_join (path_join ''examples'' d) ''examples-to-run.py'', path_join ''examples'' d)) (cf_example_directories c) @
     map (\<lambda>m. let dir = path_join ''src'' (drop (length ''ns3-'') m) in
            (path_join (path_join dir ''test'') ''examples-to-run.py'', path_join dir ''examples'')) (cf_enabled_modules c) @
     map (\<lambda>m. let dir = path_join ''contrib'' (drop (length ''ns3-'') m) in
            (path_join (path_join dir ''test'') ''examples-to-run.py'', path_join dir ''examples'')) (cf_contributed_modules c)"

fun find_examples :: "env \<Rightarrow> config \<Rightarrow> (string \<times> string) list \<Rightarrow> examples \<Rightarrow> examples res" where
  "find_examples e c [] ex = Inr ex"
| "find_examples e c ((path, dir) # places) ex =
     res_bind (parse_examples_to_run_file e c path (path_join (cf_builddir c) dir) dir ex) (find_examples e c places)"

definition programs_dictionary :: "string list \<Rightarrow> (string \<times> string) list" where
  "programs_dictionary programs = foldl (\<lambda>d p. dict_set (basename p) p d) [] programs"


section \<open>What the environment becomes\<close>

lemma map_of_path_fold:
  "map_of d var = Some v \<Longrightarrow>
   map_of (foldl (\<lambda>d p. dict_set var (dict_get d var @ sep @ p) d) d ps) k =
     (if k = var then Some (v @ concat (map (\<lambda>p. sep @ p) ps)) else map_of d k)"
  by (induction ps arbitrary: d v) (simp_all add: dict_get_def)

lemma library_variable_neq: "fst (library_variable platform) \<noteq> ''PYTHONPATH''"
  by (simp add: library_variable_def)

text \<open>The modules' directories are added to what the loader's variable held.  What
  \<open>PYTHONPATH\<close> held is lost: it is overwritten before it is read, and the new directory then
  stands there twice.\<close>

theorem make_paths_spec:
  "map_of (make_paths c platform environ) ''PYTHONPATH''
     = Some (let p = path_join (path_join (cf_builddir c) ''bindings'') ''python'' in
         if dict_has environ ''PYTHONPATH'' then p @ '':'' @ p else p) \<and>
   map_of (make_paths c platform environ) (fst (library_variable platform))
     = Some (dict_get environ (fst (library_variable platform)) @
         concat (map (\<lambda>d. snd (library_variable platform) @ d) (cf_module_path c)))"
proof -
  obtain var sep where lib: "library_variable platform = (var, sep)" by fastforce
  then have neq: "var \<noteq> ''PYTHONPATH''" using library_variable_neq [of platform] by simp
  define p where "p = path_join (path_join (cf_builddir c) ''bindings'') ''python''"
  define d where "d = (if \<not> dict_has environ ''PYTHONPATH'' then dict_set ''PYTHONPATH'' p (dict_set ''PYTHONPATH'' p environ)
      else dict_set ''PYTHONPATH'' (dict_get (dict_set ''PYTHONPATH'' p environ) ''PYTHONPATH'' @ '':'' @ p) (dict_set ''PYTHONPATH'' p environ))"
  define d' where "d' = (if dict_has d var then d else dict_set var [] d)"
  have d: "map_of d ''PYTHONPATH'' = Some (if dict_has environ ''PYTHONPATH'' then p @ '':'' @ p else p)"
    "map_of d var = map_of environ var"
    using neq by (simp_all add: d_def dict_get_def)
  have d': "map_of d' var = Some (dict_get environ var)" "map_of d' ''PYTHONPATH'' = map_of d ''PYTHONPATH''"
    using d neq by (auto simp: d'_def dict_get_def split: option.splits)
  have "make_paths c platform environ = foldl (\<lambda>d p. dict_set var (dict_get d var @ sep @ p) d) d' (cf_module_path c)"
    by (simp only: make_paths_def lib Let_def d'_def d_def p_def prod.case)
  with map_of_path_fold [OF d'(1), of sep "cf_module_path c"] d d' neq lib show ?thesis
    by (simp add: p_def Let_def)
qed

text \<open>A pattern without special characters matches its own text only, so asking for a suite or
  an example by its name finds that one.\<close>

theorem fnmatch_literal:
  assumes "set p \<inter> {CHR ''*'', CHR ''?'', CHR ''[''} = {}"
  shows "fnmatch s p \<longleftrightarrow> s = p"
  using assms
proof (induction p arbitrary: s)
  case (Cons c p)
  then have c: "c \<noteq> CHR ''*''" "c \<noteq> CHR ''?''" "c \<noteq> CHR ''[''" by auto
  have "fnmatch s (c # p) \<longleftrightarrow> s \<noteq> [] \<and> hd s = c \<and> fnmatch (tl s) p"
    by (subst fnmatch.simps(2)) (simp add: c)
  moreover have "fnmatch (tl s) p \<longleftrightarrow> tl s = p"
  proof (rule Cons.IH)
    show "set p \<inter> {CHR ''*'', CHR ''?'', CHR ''[''} = {}" using Cons.prems by (auto simp del: disjoint_insert)
  qed
  ultimately show ?case by (cases s) auto
qed simp

theorem fnmatch_literal_witness: "fnmatch_filter [''ns3-tcp'', ''ns3-tcp-cwnd''] ''ns3-tcp'' = [''ns3-tcp'']"
  by (simp add: fnmatch_filter_def fnmatch_literal)

end
