(* ===== verification/Test_Dispatch.thy ===== *)
theory Test_Dispatch
  imports Test_Run
begin

text \<open>
  The middle of \<open>run_tests\<close> of \<^verbatim>\<open>test.py\<close>: which suites and examples are run, as which jobs, by
  how many workers - and the whole function, given the jobs the main thread has received.
\<close>

section \<open>Choosing the suites\<close>

definition core_valgrind_skip_tests :: "string list" where
  "core_valgrind_skip_tests =
     [''ns3-tcp-cwnd'', ''nsc-tcp-loss'', ''ns3-tcp-interoperability'', ''routing-click'', ''lte-rr-ff-mac-scheduler'',
      ''lte-tdmt-ff-mac-scheduler'', ''lte-fdmt-ff-mac-scheduler'', ''lte-pf-ff-mac-scheduler'',
      ''lte-tta-ff-mac-scheduler'', ''lte-fdbet-ff-mac-scheduler'', ''lte-ttbet-ff-mac-scheduler'',
      ''lte-fdtbfq-ff-mac-scheduler'', ''lte-tdtbfq-ff-mac-scheduler'', ''lte-pss-ff-mac-scheduler'']"

definition core_nsc_missing_skip_tests :: "string list" where
  "core_nsc_missing_skip_tests = [''ns3-tcp-cwnd'', ''nsc-tcp-loss'', ''ns3-tcp-interoperability'']"

text \<open>Running the test runner: its return code and decoded output.\<close>

definition runner_output :: "env \<Rightarrow> config \<Rightarrow> string \<Rightarrow> (int \<times> string) res" where
  "runner_output e c args =
     res_bind (run_job_synchronously (en_sh e) c (path_join ''utils'' (test_runner c @ args)) (en_cwd e) False False []) (\<lambda>r.
       case rr_stdout r of Text s \<Rightarrow> Inr (rr_retval r, s) | Bytes b \<Rightarrow> Inl ValueError)"

definition name_list_args :: string where
  "name_list_args = '' --print-test-name-list''"

text \<open>The list of suites, and whether one suite was asked for and found.\<close>

definition select_suites :: "env \<Rightarrow> config \<Rightarrow> options \<Rightarrow> (string list \<times> bool) res" where
  "select_suites e c opts =
     (if op_suite opts \<noteq> [] then
        res_bind (runner_output e c name_list_args) (\<lambda>(rc, suites).
        let found = fnmatch_filter (split_on NL suites) (op_suite opts) in
          if found = [] then Inl (SystemExit 2)
          else Inr (split_on NL (join nl found), length found = 1))
      else if op_example opts = [] \<and> op_pyexample opts = [] then
        res_bind (runner_output e c (if op_constrain opts \<noteq> [] then name_list_args @ '' --test-type='' @ op_constrain opts
                                     else name_list_args)) (\<lambda>(rc, suites). Inr (split_on NL suites, False))
      else Inr ([[]], False))"

definition remove_performance :: "string list \<Rightarrow> string list \<Rightarrow> string list" where
  "remove_performance perf suites = foldl (\<lambda>l p. remove1 p l) suites perf"

definition suite_list :: "env \<Rightarrow> config \<Rightarrow> options \<Rightarrow> string list res" where
  "suite_list e c opts =
     res_bind (select_suites e c opts) (\<lambda>(suites, single_suite).
       if \<not> single_suite \<and> op_constrain opts \<noteq> ''performance'' then
         res_bind (runner_output e c (name_list_args @ '' --test-type=performance'')) (\<lambda>(rc, perf).
           Inr (remove_performance (split_on NL perf) suites))
       else Inr suites)"

section \<open>Workers\<close>

text \<open>The system call's name is taken to be known to \<open>os.sysconf_names\<close>.\<close>

definition worker_count :: "env \<Rightarrow> options \<Rightarrow> int" where
  "worker_count e opts =
     (let processors = (if en_platform e \<noteq> ''win32'' then en_nprocs e else 1) in
      if op_process_limit opts \<noteq> 0 then
        (if processors < op_process_limit opts then processors else op_process_limit opts)
      else processors)"

section \<open>Jobs\<close>

definition upper :: "char \<Rightarrow> char" where
  "upper ch = (let n = of_char ch :: nat in if 97 \<le> n \<and> n \<le> 122 then char_of (n - 32) else ch)"

definition suite_job :: "env \<Rightarrow> config \<Rightarrow> options \<Rightarrow> string \<Rightarrow> string \<Rightarrow> job" where
  "suite_job e c opts outdir test =
     (let j = set_display_name test (set_is_pyexample False (set_is_example False new_job));
          j = set_tmp_file_name (path_join outdir (test @ ''.xml'')) j;
          j = set_tempdir outdir (set_basedir (en_cwd e) (set_cwd (en_cwd e) j));
          multiple = (if op_multiple opts then [] else '' --stop-on-failure'');
          fullness = (if op_fullness opts \<noteq> [] then '' --fullness='' @ map upper (op_fullness opts) else '' --fullness=QUICK'');
          j = set_shell_command (path_join ''utils'' (test_runner c @ '' --test-name='' @ test @ multiple @ fullness)) j;
          j = (if op_valgrind opts \<and> test \<in> set core_valgrind_skip_tests
               then set_skip_reason ''crashes valgrind'' (set_is_skip True j) else j);
          j = (if \<not> cf_nsc_enabled c \<and> test \<in> set core_nsc_missing_skip_tests
               then set_skip_reason ''requires NSC'' (set_is_skip True j) else j)
      in j)"

definition suite_jobs :: "env \<Rightarrow> config \<Rightarrow> options \<Rightarrow> string \<Rightarrow> string list \<Rightarrow> job list" where
  "suite_jobs e c opts outdir tests = map (suite_job e c opts outdir) (filter (\<lambda>t. t \<noteq> []) (map strip tests))"

text \<open>The fields every example's job gets.\<close>

definition example_job :: "env \<Rightarrow> string \<Rightarrow> string \<Rightarrow> string \<Rightarrow> string \<Rightarrow> job" where
  "example_job e outdir name command build =
     set_build_path build (set_shell_command command (set_tempdir outdir (set_basedir (en_cwd e) (set_cwd outdir
       (set_tmp_file_name [] (set_display_name name new_job))))))"

definition no_single :: "options \<Rightarrow> bool" where
  "no_single opts \<longleftrightarrow> op_suite opts = [] \<and> op_example opts = [] \<and> op_pyexample opts = []"

text \<open>\<open>os.path.basename(test.split(' ', 1)[0])\<close>.\<close>

definition program_of :: "string \<Rightarrow> string" where
  "program_of test = basename (fst (split_args test))"

definition cpp_example_jobs ::
  "env \<Rightarrow> config \<Rightarrow> options \<Rightarrow> string \<Rightarrow> (string \<times> string) list \<Rightarrow> string \<times> string \<times> string \<times> string \<Rightarrow> job list res" where
  "cpp_example_jobs e c opts outdir programs entry =
     (case entry of (name, test, do_run, do_valgrind_run) \<Rightarrow>
      if dict_has programs (program_of test) then
        res_bind (en_eval_cond e c do_run) (\<lambda>runs.
          if runs then
            let j = set_is_example True (example_job e outdir name test (op_buildpath opts)) in
            res_bind (if op_valgrind opts then en_eval_cond e c do_valgrind_run else Inr True) (\<lambda>valgrind_runs.
              Inr [if op_valgrind opts \<and> \<not> valgrind_runs
                   then set_skip_reason ''skip in valgrind runs'' (set_is_skip True j) else j])
          else Inr [])
      else Inr [])"

definition example_jobs ::
  "env \<Rightarrow> config \<Rightarrow> options \<Rightarrow> string \<Rightarrow> (string \<times> string) list \<Rightarrow> examples \<Rightarrow> job list res" where
  "example_jobs e c opts outdir programs ex =
     (if no_single opts then
        (if (op_constrain opts = [] \<or> op_constrain opts = ''example'') \<and> cf_enable_examples c
         then concat_res (cpp_example_jobs e c opts outdir programs) (ex_cpp ex) else Inr [])
      else if op_example opts \<noteq> [] then
        Inr (map (\<lambda>key. let path = abspath (en_cwd e) (dict_get programs key) in
               set_is_example True (example_job e outdir path path (op_buildpath opts)))
          (fnmatch_filter (map fst programs) (program_name c (op_example opts))))
      else Inr [])"

definition py_example_jobs ::
  "env \<Rightarrow> config \<Rightarrow> options \<Rightarrow> string \<Rightarrow> string list \<Rightarrow> string \<times> string \<Rightarrow> job list res" where
  "py_example_jobs e c opts outdir scripts entry =
     (case entry of (test, do_run) \<Rightarrow>
      if program_of test \<in> set scripts then
        res_bind (en_eval_cond e c do_run) (\<lambda>runs.
          if runs then
            let j = set_is_pyexample True (example_job e outdir test test []);
                j = (if op_valgrind opts then set_skip_reason ''skip in valgrind runs'' (set_is_skip True j) else j);
                j = (if \<not> cf_enable_python_bindings c
                     then set_skip_reason ''requires Python bindings'' (set_is_skip True j) else j)
            in Inr [j]
          else Inr [])
      else Inr [])"

definition pyexample_jobs ::
  "env \<Rightarrow> config \<Rightarrow> options \<Rightarrow> string \<Rightarrow> string list \<Rightarrow> examples \<Rightarrow> job list res" where
  "pyexample_jobs e c opts outdir scripts ex =
     (if no_single opts then
        (if (op_constrain opts = [] \<or> op_constrain opts = ''pyexample'') \<and> cf_enable_examples c
         then concat_res (py_example_jobs e c opts outdir scripts) (ex_py ex) else Inr [])
      else if op_pyexample opts \<noteq> [] then
        (if basename (op_pyexample opts) \<notin> set scripts then Inr []
         else Inr [set_is_pyexample True (example_job e outdir (op_pyexample opts) (op_pyexample opts) [])])
      else Inr [])"

section \<open>The whole run\<close>

text \<open>What is printed for \<open>--kinds\<close> and \<open>--list\<close>; undecodable output stands for its printed form.\<close>

definition kinds_lines :: "env \<Rightarrow> config \<Rightarrow> string list res" where
  "kinds_lines e c =
     res_bind (run_job_synchronously (en_sh e) c (path_join ''utils'' (test_runner c @ '' --print-test-type-list''))
       (en_cwd e) False False []) (\<lambda>r. Inr [(case rr_stdout r of Text s \<Rightarrow> s | Bytes b \<Rightarrow> b) @ nl])"

definition list_lines :: "env \<Rightarrow> config \<Rightarrow> options \<Rightarrow> string list \<Rightarrow> string list res" where
  "list_lines e c opts example_names =
     res_bind (run_job_synchronously (en_sh e) c (path_join ''utils'' (test_runner c @ name_list_args @ '' --print-test-types'' @
         (if op_constrain opts \<noteq> [] then '' --test-type='' @ op_constrain opts else []))) (en_cwd e) False False []) (\<lambda>r.
       if rr_retval r \<noteq> 0 then
         Inr [''test.py error:  test-runner return code returned '' @ str_int (rr_retval r) @ nl,
              ''To debug, try running '' @ [CHR 0x27] @ ''./waf --run '' @ DQ @ ''test-runner --print-test-name-list'' @ DQ @ [CHR 0x27] @ nl @ nl]
       else (case rr_stdout r of
           Bytes b \<Rightarrow> Inl ValueError
         | Text s \<Rightarrow> Inr ([''Test Type    Test Name'' @ nl, ''---------    ---------'' @ nl] @
              map (\<lambda>i. i @ nl) (filter (\<lambda>i. strip i \<noteq> []) (sort (split_on NL s))) @
              map (\<lambda>i. ''example      '' @ i @ nl) (sort example_names) @ [nl])))"

record plan =
  pn_config :: config
  pn_environ :: "(string \<times> string) list"
  pn_outdir :: string
  pn_processors :: int
  pn_jobs :: "job list"

text \<open>What has been decided before a job is put: to stop, with what is printed and the return value, or the plan.\<close>

datatype decision = Quit "string list" "int option" | Go plan

definition decide :: "env \<Rightarrow> config \<Rightarrow> options \<Rightarrow> (string \<times> string) list \<Rightarrow> decision res" where
  "decide e c0 opts environ =
     res_bind (read_waf_config e c0) (\<lambda>c.
     res_bind (if op_nowaf opts then Inr 0
               else res_bind (en_sh e (waf_cmd opts) (en_cwd e)) (\<lambda>p. Inr (sr_returncode p))) (\<lambda>waf_code.
     if waf_code \<noteq> 0 then Inr (Quit [] (Some waf_code)) else
     let environ = make_paths c (en_platform e) environ;
         build_status_file = path_join (cf_builddir c) ''build-status.py'' in
     if \<not> exists_file e build_status_file then Inl (SystemExit 2) else
     res_bind (get_list_from_file (en_eval_names e) (en_fs e) build_status_file ''ns3_runnable_programs'') (\<lambda>programs.
     res_bind (get_list_from_file (en_eval_names e) (en_fs e) build_status_file ''ns3_runnable_scripts'') (\<lambda>scripts.
     res_bind (find_examples e c (example_places c) \<lparr>ex_cpp = [], ex_names = [], ex_py = []\<rparr>) (\<lambda>ex.
     let environ = dict_set ''NS_LOG'' [] environ in
     res_bind (if op_kinds opts then kinds_lines e c else Inr []) (\<lambda>l1.
     res_bind (if op_list opts then list_lines e c opts (ex_names ex) else Inr []) (\<lambda>l2.
     if op_kinds opts \<or> op_list opts then Inr (Quit (l1 @ l2) None) else
     let outdir = path_join ''testpy-output'' (en_stamp e);
         programs_by_name = programs_dictionary programs in
     res_bind (suite_list e c opts) (\<lambda>suites.
     res_bind (example_jobs e c opts outdir programs_by_name ex) (\<lambda>examples.
     res_bind (pyexample_jobs e c opts outdir scripts ex) (\<lambda>pyexamples.
       Inr (Go \<lparr>pn_config = c, pn_environ = environ, pn_outdir = outdir, pn_processors = worker_count e opts,
                pn_jobs = suite_jobs e c opts outdir suites @ examples @ pyexamples\<rparr>)))))))))))"

text \<open>
  \<open>run_tests\<close>: \<open>received\<close> gives the jobs the main thread receives from the worker threads, in
  that order, and \<open>fs\<close> the files they have written.
\<close>

definition run_tests ::
  "env \<Rightarrow> (string \<Rightarrow> xml res) \<Rightarrow> config \<Rightarrow> options \<Rightarrow> (string \<times> string) list \<Rightarrow> bool \<Rightarrow> (plan \<Rightarrow> job list) \<Rightarrow> file_system
     \<Rightarrow> (string list \<times> (string \<times> string) list \<times> int option) res" where
  "run_tests e parse c0 opts environ color received fs =
     res_bind (decide e c0 opts environ) (\<lambda>d. (case d of
         Quit lines code \<Rightarrow> Inr (lines, [], code)
       | Go p \<Rightarrow>
           let tests = length (pn_jobs p) in
           res_bind (collect_jobs opts color fs tests (received p) new_summary) (\<lambda>s.
           res_bind (finish_tests parse (pn_config p) opts tests s) (\<lambda>(lines, files, code).
             Inr (sm_out s @ lines, files, Some code)))))"

text \<open>\<open>sys.exit(main(sys.argv))\<close>: no return value counts as success.\<close>

definition main_status :: "int option \<Rightarrow> int" where
  "main_status r = (case r of None \<Rightarrow> 0 | Some code \<Rightarrow> code)"


section \<open>What is run\<close>

lemma remove_performance_set: "distinct suites \<Longrightarrow> set (remove_performance perf suites) = set suites - set perf"
  unfolding remove_performance_def by (induction perf arbitrary: suites) auto

text \<open>Unless a single suite or the performance tests were asked for, exactly the listed suites
  that are not performance tests are run.\<close>

theorem performance_tests_excluded:
  assumes "select_suites e c opts = Inr (suites, False)" and "distinct suites" and "op_constrain opts \<noteq> ''performance''"
    and "suite_list e c opts = Inr l"
  shows "\<exists>rc perf. runner_output e c (name_list_args @ '' --test-type=performance'') = Inr (rc, perf) \<and>
    set l = set suites - set (split_on NL perf)"
  using assms remove_performance_set by (auto simp: suite_list_def res_bind_eq_Inr)

definition lists_shell :: shell where
  "lists_shell cmd dir = Inr \<lparr>sr_returncode = 0,
     sr_stdout = (if substr_in ''performance'' cmd then ''speed'' @ nl else ''wifi'' @ nl @ ''speed'' @ nl),
     sr_stderr = [], sr_elapsed = 1\<rparr>"

definition demo_env :: env where
  "demo_env = \<lparr>en_fs = Map.empty, en_sh = lists_shell, en_cwd = ''/ns3'', en_platform = ''linux'', en_nprocs = 2,
     en_stamp = ''now'', en_eval_dir = Inr, en_exec = (\<lambda>l. Inr), en_eval_cond = (\<lambda>c s. Inr True),
     en_eval_cpp = (\<lambda>s. Inr []), en_eval_py = (\<lambda>s. Inr []), en_eval_names = (\<lambda>s. Inr [])\<rparr>"

theorem performance_tests_excluded_witness:
  "\<exists>l. suite_list demo_env demo_config default_options = Inr l \<and> set l = {''wifi''}"
proof -
  have sel: "select_suites demo_env demo_config default_options = Inr ([''wifi'', ''speed'', []], False)"
    by code_simp
  have perf: "runner_output demo_env demo_config (name_list_args @ '' --test-type=performance'') = Inr (0, ''speed'' @ nl)"
    by code_simp
  obtain l where l: "suite_list demo_env demo_config default_options = Inr l"
    using sel perf by (simp add: suite_list_def default_options_def)
  have "\<exists>rc perf. runner_output demo_env demo_config (name_list_args @ '' --test-type=performance'') = Inr (rc, perf) \<and>
    set l = set [''wifi'', ''speed'', []] - set (split_on NL perf)"
    by (rule performance_tests_excluded [OF sel _ _ l]) (simp_all add: default_options_def)
  with l perf show ?thesis by auto
qed

text \<open>The job of a suite is skipped exactly when it is known to crash valgrind and valgrind is
  used, or needs NSC and NSC was not configured; it names the suite and is neither a break nor
  an example.\<close>

theorem suite_job_skip_policy:
  "(is_skip (suite_job e c opts outdir test) \<longleftrightarrow>
      op_valgrind opts \<and> test \<in> set core_valgrind_skip_tests \<or>
      \<not> cf_nsc_enabled c \<and> test \<in> set core_nsc_missing_skip_tests) \<and>
   display_name (suite_job e c opts outdir test) = test \<and> \<not> is_break (suite_job e c opts outdir test) \<and>
   \<not> is_example (suite_job e c opts outdir test) \<and> \<not> is_pyexample (suite_job e c opts outdir test)"
proof -
  have n: "\<not> is_skip new_job" "\<not> is_break new_job" by (simp_all add: new_job_def)
  show ?thesis unfolding suite_job_def Let_def job_setters by (simp add: n)
qed

text \<open>When the test runner crashes while it lists the suites and prints nothing, its return code
  is not looked at: no suite is run, and a run without any job succeeds.\<close>

theorem listing_failure_ignored:
  assumes "en_sh e = (\<lambda>cmd dir. Inr \<lparr>sr_returncode = rc, sr_stdout = [], sr_stderr = err, sr_elapsed = t\<rparr>)"
    and "op_suite opts = []" and "op_example opts = []" and "op_pyexample opts = []"
  shows "\<exists>l. suite_list e c opts = Inr l \<and> suite_jobs e c opts outdir l = [] \<and> exit_code 0 new_summary = 0"
proof -
  have out: "\<exists>rc'. runner_output e c args = Inr (rc', [])" for args
    by (simp add: runner_output_def run_job_synchronously_def assms(1) decode_def Let_def)
  have "\<exists>single. select_suites e c opts = Inr ([[]], single)"
    using out [of name_list_args] out [of "name_list_args @ '' --test-type='' @ op_constrain opts"]
    by (auto simp: select_suites_def assms)
  then obtain single where sel: "select_suites e c opts = Inr ([[]], single)" by blast
  have "\<exists>l. suite_list e c opts = Inr l \<and> set l \<subseteq> {[]}"
    using out [of "name_list_args @ '' --test-type=performance''"]
    by (auto simp: suite_list_def sel remove_performance_def)
  then obtain l where l: "suite_list e c opts = Inr l" "set l \<subseteq> {[]}" by blast
  have "suite_jobs e c opts outdir l = []"
    using l(2) by (auto simp: suite_jobs_def filter_empty_conv strip_def lstrip_def rstrip_def)
  with l(1) show ?thesis by (simp add: exit_code_def new_summary_def)
qed

theorem listing_failure_ignored_witness:
  "\<exists>l. suite_list (demo_env\<lparr>en_sh := \<lambda>cmd dir. Inr \<lparr>sr_returncode = 139, sr_stdout = [], sr_stderr = ''core dumped'', sr_elapsed = 1\<rparr>\<rparr>)
      demo_config default_options = Inr l \<and>
    suite_jobs (demo_env\<lparr>en_sh := \<lambda>cmd dir. Inr \<lparr>sr_returncode = 139, sr_stdout = [], sr_stderr = ''core dumped'', sr_elapsed = 1\<rparr>\<rparr>)
      demo_config default_options ''out'' l = [] \<and> exit_code 0 new_summary = 0"
  by (rule listing_failure_ignored) (simp_all add: default_options_def)

section \<open>Every job put is a job\<close>

lemma example_job_plain [simp]: "\<not> is_break (example_job e outdir name cmd build)" "\<not> is_skip (example_job e outdir name cmd build)"
  by (simp_all add: example_job_def job_setters new_job_def)

lemma setters_break [simp]:
  "is_break (set_is_skip b j) = is_break j" "is_break (set_skip_reason s j) = is_break j"
  "is_break (set_is_example b j) = is_break j" "is_break (set_is_pyexample b j) = is_break j"
  by (simp_all add: job_setters)

lemma concat_res_set:
  "concat_res f xs = Inr ys \<Longrightarrow> (\<And>x zs. f x = Inr zs \<Longrightarrow> \<forall>z \<in> set zs. P z) \<Longrightarrow> \<forall>y \<in> set ys. P y"
  by (induction xs arbitrary: ys) (auto simp: res_bind_eq_Inr)

lemma cpp_example_jobs_plain: "cpp_example_jobs e c opts outdir ps entry = Inr js \<Longrightarrow> \<forall>j \<in> set js. \<not> is_break j"
  by (auto simp: cpp_example_jobs_def res_bind_eq_Inr Let_def split: prod.splits if_split_asm)

lemma py_example_jobs_plain: "py_example_jobs e c opts outdir ss entry = Inr js \<Longrightarrow> \<forall>j \<in> set js. \<not> is_break j"
  by (auto simp: py_example_jobs_def res_bind_eq_Inr Let_def split: prod.splits if_split_asm)

lemma example_jobs_plain:
  assumes "example_jobs e c opts outdir ps ex = Inr js"
  shows "\<forall>j \<in> set js. \<not> is_break j"
proof (cases "no_single opts")
  case True
  show ?thesis
  proof (cases "(op_constrain opts = [] \<or> op_constrain opts = ''example'') \<and> cf_enable_examples c")
    case T: True
    with True assms have "concat_res (cpp_example_jobs e c opts outdir ps) (ex_cpp ex) = Inr js"
      by (simp add: example_jobs_def)
    then show ?thesis by (rule concat_res_set) (rule cpp_example_jobs_plain)
  next
    case False
    with True assms show ?thesis by (simp add: example_jobs_def)
  qed
next
  case False
  with assms show ?thesis by (auto simp: example_jobs_def Let_def split: if_split_asm)
qed

lemma pyexample_jobs_plain:
  assumes "pyexample_jobs e c opts outdir ss ex = Inr js"
  shows "\<forall>j \<in> set js. \<not> is_break j"
proof (cases "no_single opts")
  case True
  show ?thesis
  proof (cases "(op_constrain opts = [] \<or> op_constrain opts = ''pyexample'') \<and> cf_enable_examples c")
    case T: True
    with True assms have "concat_res (py_example_jobs e c opts outdir ss) (ex_py ex) = Inr js"
      by (simp add: pyexample_jobs_def)
    then show ?thesis by (rule concat_res_set) (rule py_example_jobs_plain)
  next
    case False
    with True assms show ?thesis by (simp add: pyexample_jobs_def)
  qed
next
  case False
  with assms show ?thesis by (auto simp: pyexample_jobs_def split: if_split_asm)
qed

lemma suite_job_plain: "\<not> is_break (suite_job e c opts outdir test)"
  unfolding suite_job_def Let_def job_setters by (simp add: new_job_def)

lemma suite_jobs_plain: "\<forall>j \<in> set (suite_jobs e c opts outdir tests). \<not> is_break j"
  by (auto simp: suite_jobs_def suite_job_plain)

lemma decide_plain: "decide e c0 opts environ = Inr (Go p) \<Longrightarrow> \<forall>j \<in> set (pn_jobs p). \<not> is_break j"
  unfolding decide_def
  by (auto simp: res_bind_eq_Inr Let_def suite_jobs_plain [rule_format] split: if_split_asm
      dest!: example_jobs_plain pyexample_jobs_plain)

end
