(* ===== verification/Viz_Thread.thy ===== *)
theory Viz_Thread
  imports Py_Prelude
begin

text \<open>
  \<^verbatim>\<open>src/src/visualizer/visualizer/core.py\<close>, the two threads: \<open>SimulationThread.run\<close> and the main
  loop of GTK with the callbacks of \<open>Visualizer\<close> that touch what the threads share (the lock, the
  event \<open>go\<close>, \<open>quit\<close>, \<open>target_time\<close>, the pause messages, the timer).  A state is a record, an action
  another thread can observe is a rule of the step relation.  The simulator (C++) is a parameter.
\<close>

section \<open>State\<close>

datatype owner = Sim_Thread | Gui_Thread

text \<open>Where \<open>run\<close> stands: before the test of \<open>quit\<close>, in \<open>go.wait()\<close>, before \<open>go.clear()\<close>, and so on.\<close>

datatype sim_pc =
    Test_Quit
  | Wait_Go
  | Clear_Go
  | Check_Quit
  | Get_Lock
  | Run_Model
  | Tell_View
  | Release
  | Ended

text \<open>
  The callbacks in progress, innermost first: \<open>update_view_timeout\<close> of a timer while it polls the
  lock, while it holds it, and after its release with the messages it took; another callback
  that wants or holds the lock; \<open>_quit\<close> in \<open>join\<close>.  While a timer callback polls, it runs the event
  loop, so other callbacks nest in it.
\<close>

datatype gui_work = Model_Update | Handler

datatype gui_frame =
    Poll nat
  | View nat "string list"
  | After nat "string list"
  | Want gui_work
  | Hold gui_work
  | Joining

record viz =
  vz_sim :: sim_pc
  vz_lock :: "owner option"
  vz_go :: bool
  vz_quit :: bool
  vz_target :: rat
  vz_now :: rat
  vz_messages :: "string list"
  vz_pending :: nat
  vz_seen :: rat
  vz_speed :: rat
  vz_period :: rat
  vz_playing :: bool
  vz_timer :: "nat option"
  vz_sources :: "(nat \<times> int) list"
  vz_next :: nat
  vz_warnings :: nat
  vz_dialogs :: "string list"
  vz_stack :: "gui_frame list"
  vz_left :: bool

text \<open>The simulator: the time reached when it runs from a time until a time, and its messages.\<close>

record simulator =
  md_run_until :: "rat \<Rightarrow> rat \<Rightarrow> rat"
  md_messages :: "rat \<Rightarrow> rat \<Rightarrow> string list"

section \<open>The simulation thread\<close>

definition SAMPLE_PERIOD :: rat where
  "SAMPLE_PERIOD = 1 / 10"

fun sim_run :: "simulator \<Rightarrow> viz \<Rightarrow> viz option" where
  "sim_run md s =
     (case vz_sim s of
        Test_Quit \<Rightarrow> Some (s\<lparr>vz_sim := if vz_quit s then Ended else Wait_Go\<rparr>)
      | Wait_Go \<Rightarrow> if vz_go s then Some (s\<lparr>vz_sim := Clear_Go\<rparr>) else None
      | Clear_Go \<Rightarrow> Some (s\<lparr>vz_go := False, vz_sim := Check_Quit\<rparr>)
      | Check_Quit \<Rightarrow> Some (s\<lparr>vz_sim := if vz_quit s then Ended else Get_Lock\<rparr>)
      | Get_Lock \<Rightarrow> if vz_lock s = None then Some (s\<lparr>vz_lock := Some Sim_Thread, vz_sim := Run_Model\<rparr>) else None
      | Run_Model \<Rightarrow>
          Some (s\<lparr>vz_now := md_run_until md (vz_now s) (vz_target s),
                  vz_messages := vz_messages s @ md_messages md (vz_now s) (vz_target s),
                  vz_sim := Tell_View\<rparr>)
      | Tell_View \<Rightarrow> Some (s\<lparr>vz_pending := Suc (vz_pending s), vz_sim := Release\<rparr>)
      | Release \<Rightarrow> Some (s\<lparr>vz_lock := None, vz_sim := Test_Quit\<rparr>)
      | Ended \<Rightarrow> None)"

section \<open>The update timer\<close>

text \<open>\<open>GLib.source_remove\<close>: removing a source that is not there is a warning.\<close>

definition source_remove :: "nat \<Rightarrow> viz \<Rightarrow> viz" where
  "source_remove t s =
     (if t \<in> fst ` set (vz_sources s)
      then s\<lparr>vz_sources := filter (\<lambda>(u, _). u \<noteq> t) (vz_sources s)\<rparr>
      else s\<lparr>vz_warnings := Suc (vz_warnings s)\<rparr>)"

definition remove_timer :: "viz \<Rightarrow> viz" where
  "remove_timer s = (case vz_timer s of None \<Rightarrow> s | Some t \<Rightarrow> source_remove t s)"

definition timer_interval :: "rat \<Rightarrow> int" where
  "timer_interval speed = floor (SAMPLE_PERIOD / min speed 1 * 1000)"

definition start_update_timer :: "viz \<Rightarrow> viz" where
  "start_update_timer s =
     (let s = remove_timer s in
      s\<lparr>vz_sources := vz_sources s @ [(vz_next s, timer_interval (vz_speed s))],
        vz_timer := Some (vz_next s), vz_next := Suc (vz_next s)\<rparr>)"

definition speed_changed :: "rat \<Rightarrow> viz \<Rightarrow> viz" where
  "speed_changed v s = start_update_timer (s\<lparr>vz_speed := v, vz_period := SAMPLE_PERIOD * v\<rparr>)"

text \<open>\<open>_on_play_button_toggled\<close>: when the button goes up, the identifier of the timer is kept.\<close>

definition set_playing :: "bool \<Rightarrow> viz \<Rightarrow> viz" where
  "set_playing b s =
     (if vz_playing s = b then s
      else let s = s\<lparr>vz_playing := b\<rparr> in if b then start_update_timer s else remove_timer s)"

definition quit_event :: "viz \<Rightarrow> viz" where
  "quit_event s =
     (let s = (if vz_timer s = None then s else (remove_timer s)\<lparr>vz_timer := None\<rparr>) in
      s\<lparr>vz_quit := True, vz_go := True, vz_stack := Joining # vz_stack s\<rparr>)"

section \<open>The callbacks\<close>

text \<open>
  The view is updated and the next target set while the lock is held; the lock is released.
\<close>

definition update_view :: "nat \<Rightarrow> string list \<Rightarrow> gui_frame list \<Rightarrow> viz \<Rightarrow> viz" where
  "update_view t msgs fs s =
     s\<lparr>vz_seen := vz_now s, vz_target := vz_now s + vz_period s, vz_lock := None,
       vz_stack := After t msgs # fs\<rparr>"

text \<open>
  The rest of \<open>update_view_timeout\<close>: messages open a dialog and stop the run; a callback that
  returns \<open>False\<close> loses its source.
\<close>

definition end_timeout :: "nat \<Rightarrow> string list \<Rightarrow> gui_frame list \<Rightarrow> viz \<Rightarrow> viz" where
  "end_timeout t msgs fs s =
     (let s = (if msgs = [] then s
               else set_playing False (s\<lparr>vz_dialogs := vz_dialogs s @ [join nl msgs]\<rparr>)) in
      if \<not> vz_playing s
      then s\<lparr>vz_timer := None, vz_sources := filter (\<lambda>(u, _). u \<noteq> t) (vz_sources s), vz_stack := fs\<rparr>
      else s\<lparr>vz_go := True, vz_stack := fs\<rparr>)"

text \<open>The event loop runs at the bottom and inside the polling of a timer callback.\<close>

fun dispatching :: "viz \<Rightarrow> bool" where
  "dispatching s = (case vz_stack s of [] \<Rightarrow> \<not> vz_left s | Poll _ # _ \<Rightarrow> True | _ \<Rightarrow> False)"

fun frame_timer :: "gui_frame \<Rightarrow> nat option" where
  "frame_timer (Poll t) = Some t"
| "frame_timer (View t _) = Some t"
| "frame_timer (After t _) = Some t"
| "frame_timer _ = None"

text \<open>
  A timer source is not dispatched inside its own callback, and not before the idle callbacks,
  whose priority is higher.
\<close>

definition timer_ready :: "nat \<Rightarrow> viz \<Rightarrow> bool" where
  "timer_ready t s \<longleftrightarrow> t \<in> fst ` set (vz_sources s) \<and> Some t \<notin> frame_timer ` set (vz_stack s) \<and> vz_pending s = 0"

text \<open>A simulator that stops exactly in time and says nothing.\<close>

definition exact_simulator :: simulator where
  "exact_simulator = \<lparr>md_run_until = \<lambda>_ t. t, md_messages = \<lambda>_ _. []\<rparr>"

inductive viz_step :: "simulator \<Rightarrow> viz \<Rightarrow> viz \<Rightarrow> bool" for md where
  sim: "sim_run md s = Some s' \<Longrightarrow> viz_step md s s'"
| timeout: "dispatching s \<Longrightarrow> timer_ready t s \<Longrightarrow> viz_step md s (s\<lparr>vz_stack := Poll t # vz_stack s\<rparr>)"
| got_lock: "vz_stack s = Poll t # fs \<Longrightarrow> vz_lock s = None \<Longrightarrow>
    viz_step md s (s\<lparr>vz_lock := Some Gui_Thread, vz_messages := [], vz_stack := View t (vz_messages s) # fs\<rparr>)"
| view: "vz_stack s = View t msgs # fs \<Longrightarrow> viz_step md s (update_view t msgs fs s)"
| after: "vz_stack s = After t msgs # fs \<Longrightarrow> viz_step md s (end_timeout t msgs fs s)"
| idle: "dispatching s \<Longrightarrow> vz_pending s = Suc n \<Longrightarrow>
    viz_step md s (s\<lparr>vz_pending := n, vz_stack := Want Model_Update # vz_stack s\<rparr>)"
| event: "dispatching s \<Longrightarrow> viz_step md s (s\<lparr>vz_stack := Want Handler # vz_stack s\<rparr>)"
| acquire: "vz_stack s = Want w # fs \<Longrightarrow> vz_lock s = None \<Longrightarrow>
    viz_step md s (s\<lparr>vz_lock := Some Gui_Thread, vz_stack := Hold w # fs\<rparr>)"
| release: "vz_stack s = Hold w # fs \<Longrightarrow> viz_step md s (s\<lparr>vz_lock := None, vz_stack := fs\<rparr>)"
| play: "dispatching s \<Longrightarrow> viz_step md s (set_playing (\<not> vz_playing s) s)"
| speed: "dispatching s \<Longrightarrow> v \<noteq> vz_speed s \<Longrightarrow> 1 / 100 \<le> v \<Longrightarrow> v \<le> 10 \<Longrightarrow> viz_step md s (speed_changed v s)"
| quit: "dispatching s \<Longrightarrow> \<not> vz_quit s \<Longrightarrow> viz_step md s (quit_event s)"
| joined: "vz_stack s = Joining # fs \<Longrightarrow> vz_sim s = Ended \<Longrightarrow> viz_step md s (s\<lparr>vz_stack := fs, vz_left := True\<rparr>)"

text \<open>After \<open>__init__\<close> and \<open>start\<close>: the spin button of the speed has started a timer.\<close>

definition viz_start :: viz where
  "viz_start = speed_changed 1
     \<lparr>vz_sim = Test_Quit, vz_lock = None, vz_go = False, vz_quit = False, vz_target = 0, vz_now = 0,
      vz_messages = [], vz_pending = 0, vz_seen = 0, vz_speed = 1, vz_period = SAMPLE_PERIOD,
      vz_playing = False, vz_timer = None, vz_sources = [], vz_next = 0, vz_warnings = 0,
      vz_dialogs = [], vz_stack = [], vz_left = False\<rparr>"


section \<open>Who holds the lock\<close>

definition sim_holds :: "viz \<Rightarrow> bool" where
  "sim_holds s \<longleftrightarrow> vz_sim s \<in> {Run_Model, Tell_View, Release}"

fun holding :: "gui_frame \<Rightarrow> bool" where
  "holding (View _ _) = True"
| "holding (Hold _) = True"
| "holding _ = False"

definition gui_holds :: "viz \<Rightarrow> bool" where
  "gui_holds s \<longleftrightarrow> (\<exists>f fs. vz_stack s = f # fs \<and> holding f)"

fun polling :: "gui_frame \<Rightarrow> bool" where
  "polling (Poll _) = True"
| "polling _ = False"

definition lock_inv :: "viz \<Rightarrow> bool" where
  "lock_inv s \<longleftrightarrow> (vz_lock s = Some Sim_Thread \<longleftrightarrow> sim_holds s) \<and>
     (vz_lock s = Some Gui_Thread \<longleftrightarrow> gui_holds s) \<and> list_all polling (tl (vz_stack s))"

lemma timer_fields [simp]:
  "vz_sim (source_remove t s) = vz_sim s" "vz_lock (source_remove t s) = vz_lock s"
  "vz_stack (source_remove t s) = vz_stack s" "vz_go (source_remove t s) = vz_go s"
  "vz_quit (source_remove t s) = vz_quit s" "vz_now (source_remove t s) = vz_now s"
  "vz_target (source_remove t s) = vz_target s" "vz_seen (source_remove t s) = vz_seen s"
  "vz_period (source_remove t s) = vz_period s" "vz_left (source_remove t s) = vz_left s"
  by (simp_all add: source_remove_def)

lemma remove_timer_fields [simp]:
  "vz_sim (remove_timer s) = vz_sim s" "vz_lock (remove_timer s) = vz_lock s"
  "vz_stack (remove_timer s) = vz_stack s" "vz_go (remove_timer s) = vz_go s"
  "vz_quit (remove_timer s) = vz_quit s" "vz_now (remove_timer s) = vz_now s"
  "vz_target (remove_timer s) = vz_target s" "vz_seen (remove_timer s) = vz_seen s"
  "vz_period (remove_timer s) = vz_period s" "vz_left (remove_timer s) = vz_left s"
  by (simp_all add: remove_timer_def split: option.splits)

lemma start_timer_fields [simp]:
  "vz_sim (start_update_timer s) = vz_sim s" "vz_lock (start_update_timer s) = vz_lock s"
  "vz_stack (start_update_timer s) = vz_stack s" "vz_go (start_update_timer s) = vz_go s"
  "vz_quit (start_update_timer s) = vz_quit s" "vz_now (start_update_timer s) = vz_now s"
  "vz_target (start_update_timer s) = vz_target s" "vz_seen (start_update_timer s) = vz_seen s"
  "vz_period (start_update_timer s) = vz_period s" "vz_left (start_update_timer s) = vz_left s"
  by (simp_all add: start_update_timer_def Let_def)

lemma set_playing_fields [simp]:
  "vz_sim (set_playing b s) = vz_sim s" "vz_lock (set_playing b s) = vz_lock s"
  "vz_stack (set_playing b s) = vz_stack s" "vz_go (set_playing b s) = vz_go s"
  "vz_quit (set_playing b s) = vz_quit s" "vz_now (set_playing b s) = vz_now s"
  "vz_target (set_playing b s) = vz_target s" "vz_seen (set_playing b s) = vz_seen s"
  "vz_period (set_playing b s) = vz_period s" "vz_left (set_playing b s) = vz_left s"
  by (simp_all add: set_playing_def Let_def)

lemma speed_changed_fields [simp]:
  "vz_sim (speed_changed v s) = vz_sim s" "vz_lock (speed_changed v s) = vz_lock s"
  "vz_stack (speed_changed v s) = vz_stack s" "vz_go (speed_changed v s) = vz_go s"
  "vz_quit (speed_changed v s) = vz_quit s" "vz_now (speed_changed v s) = vz_now s"
  "vz_target (speed_changed v s) = vz_target s" "vz_seen (speed_changed v s) = vz_seen s"
  "vz_period (speed_changed v s) = SAMPLE_PERIOD * v" "vz_left (speed_changed v s) = vz_left s"
  by (simp_all add: speed_changed_def)

lemma quit_event_fields [simp]:
  "vz_sim (quit_event s) = vz_sim s" "vz_lock (quit_event s) = vz_lock s"
  "vz_stack (quit_event s) = Joining # vz_stack s" "vz_go (quit_event s)" "vz_quit (quit_event s)"
  "vz_now (quit_event s) = vz_now s" "vz_target (quit_event s) = vz_target s"
  "vz_seen (quit_event s) = vz_seen s" "vz_period (quit_event s) = vz_period s"
  "vz_left (quit_event s) = vz_left s"
  by (simp_all add: quit_event_def Let_def)

lemma end_timeout_fields [simp]:
  "vz_sim (end_timeout t m fs s) = vz_sim s" "vz_lock (end_timeout t m fs s) = vz_lock s"
  "vz_stack (end_timeout t m fs s) = fs" "vz_quit (end_timeout t m fs s) = vz_quit s"
  "vz_now (end_timeout t m fs s) = vz_now s" "vz_target (end_timeout t m fs s) = vz_target s"
  "vz_seen (end_timeout t m fs s) = vz_seen s" "vz_period (end_timeout t m fs s) = vz_period s"
  "vz_left (end_timeout t m fs s) = vz_left s" "vz_go s \<Longrightarrow> vz_go (end_timeout t m fs s)"
  by (simp_all add: end_timeout_def Let_def)

lemma update_view_fields [simp]:
  "vz_sim (update_view t m fs s) = vz_sim s" "vz_lock (update_view t m fs s) = None"
  "vz_stack (update_view t m fs s) = After t m # fs" "vz_quit (update_view t m fs s) = vz_quit s"
  "vz_now (update_view t m fs s) = vz_now s" "vz_target (update_view t m fs s) = vz_now s + vz_period s"
  "vz_seen (update_view t m fs s) = vz_now s" "vz_period (update_view t m fs s) = vz_period s"
  "vz_left (update_view t m fs s) = vz_left s" "vz_go (update_view t m fs s) = vz_go s"
  by (simp_all add: update_view_def)

lemma start_fields [simp]:
  "vz_sim viz_start = Test_Quit" "vz_lock viz_start = None" "vz_stack viz_start = []"
  "\<not> vz_go viz_start" "\<not> vz_quit viz_start" "vz_now viz_start = 0" "vz_target viz_start = 0"
  "vz_seen viz_start = 0" "vz_period viz_start = SAMPLE_PERIOD" "\<not> vz_left viz_start"
  by (simp_all add: viz_start_def)

lemma dispatching_cases:
  assumes "dispatching s"
  obtains "vz_stack s = []" "\<not> vz_left s" | t fs where "vz_stack s = Poll t # fs"
  using assms by (auto split: list.splits gui_frame.splits)

lemma dispatching_frames:
  "dispatching s \<Longrightarrow> lock_inv s \<Longrightarrow> list_all polling (vz_stack s) \<and> \<not> gui_holds s"
  by (erule dispatching_cases) (auto simp: lock_inv_def gui_holds_def)

lemma lock_inv_start: "lock_inv viz_start"
  by (simp add: lock_inv_def sim_holds_def gui_holds_def)

lemma lock_inv_sim:
  "lock_inv s \<Longrightarrow> sim_run md s = Some s' \<Longrightarrow> lock_inv s'"
  by (cases "vz_sim s") (auto simp: lock_inv_def sim_holds_def gui_holds_def split: if_splits)

lemma lock_inv_push:
  assumes "lock_inv s" "dispatching s" "vz_stack s' = f # vz_stack s" "\<not> holding f"
    "vz_lock s' = vz_lock s" "vz_sim s' = vz_sim s"
  shows "lock_inv s'"
  using dispatching_frames [OF assms(2,1)] assms
  by (simp add: lock_inv_def sim_holds_def gui_holds_def)

lemma lock_inv_same:
  "lock_inv s \<Longrightarrow> vz_stack s' = vz_stack s \<Longrightarrow> vz_lock s' = vz_lock s \<Longrightarrow> vz_sim s' = vz_sim s \<Longrightarrow> lock_inv s'"
  by (simp add: lock_inv_def sim_holds_def gui_holds_def)

lemma polling_top: "list_all polling fs \<Longrightarrow> fs = [] \<or> (\<exists>t gs. fs = Poll t # gs \<and> list_all polling gs)"
  by (cases fs) (auto elim: polling.elims)

lemma lock_inv_step:
  assumes "viz_step md s s'" "lock_inv s"
  shows "lock_inv s'"
  using assms
proof (induction rule: viz_step.induct)
  case (sim s s')
  then show ?case using lock_inv_sim by blast
next
  case (timeout s t)
  show ?case by (rule lock_inv_push [OF timeout.prems timeout.hyps(1), where f = "Poll t"]) simp_all
next
  case (idle s n)
  show ?case by (rule lock_inv_push [OF idle.prems idle.hyps(1), where f = "Want Model_Update"]) simp_all
next
  case (event s)
  show ?case by (rule lock_inv_push [OF event.prems event.hyps(1), where f = "Want Handler"]) simp_all
next
  case (quit s)
  show ?case by (rule lock_inv_push [OF quit.prems quit.hyps(1), where f = "Joining"]) simp_all
next
  case (play s)
  show ?case by (rule lock_inv_same [OF play.prems]) simp_all
next
  case (speed s v)
  show ?case by (rule lock_inv_same [OF speed.prems]) simp_all
next
  case (after s t msgs fs)
  then show ?case using polling_top [of fs] by (auto simp: lock_inv_def sim_holds_def gui_holds_def)
next
  case (release s w fs)
  then show ?case using polling_top [of fs] by (auto simp: lock_inv_def sim_holds_def gui_holds_def)
next
  case (joined s fs)
  then show ?case using polling_top [of fs] by (auto simp: lock_inv_def sim_holds_def gui_holds_def)
qed (auto simp: lock_inv_def sim_holds_def gui_holds_def)

lemma reachable_induct:
  assumes "(viz_step md)\<^sup>*\<^sup>* viz_start s" "P viz_start" "\<And>s s'. viz_step md s s' \<Longrightarrow> P s \<Longrightarrow> P s'"
  shows "P s"
  using assms by (induction rule: rtranclp_induct) auto

lemma reachable_lock_inv: "(viz_step md)\<^sup>*\<^sup>* viz_start s \<Longrightarrow> lock_inv s"
  by (erule reachable_induct) (auto intro: lock_inv_start lock_inv_step)



section \<open>Simulated time\<close>

definition time_inv :: "viz \<Rightarrow> bool" where
  "time_inv s \<longleftrightarrow> 0 < vz_period s \<and> vz_period s \<le> 1 \<and> vz_seen s \<le> vz_now s \<and> vz_now s \<le> vz_target s \<and>
     vz_target s \<le> vz_seen s + 1"

text \<open>What the visualizer relies on of the simulator: it stops at the time it was given.\<close>

definition stops_in_time :: "simulator \<Rightarrow> bool" where
  "stops_in_time md \<longleftrightarrow> (\<forall>now t. now \<le> t \<longrightarrow> now \<le> md_run_until md now t \<and> md_run_until md now t \<le> t)"

lemma time_inv_same:
  "time_inv s \<Longrightarrow> vz_period s' = vz_period s \<Longrightarrow> vz_seen s' = vz_seen s \<Longrightarrow> vz_now s' = vz_now s \<Longrightarrow>
   vz_target s' = vz_target s \<Longrightarrow> time_inv s'"
  by (simp add: time_inv_def)

lemma time_inv_sim:
  assumes "stops_in_time md" "time_inv s" "sim_run md s = Some s'"
  shows "time_inv s'"
proof (cases "vz_sim s = Run_Model")
  case True
  have "vz_now s \<le> md_run_until md (vz_now s) (vz_target s)"
    "md_run_until md (vz_now s) (vz_target s) \<le> vz_target s"
    using assms(1,2) by (auto simp: stops_in_time_def time_inv_def)
  then show ?thesis using assms(2,3) True by (auto simp: time_inv_def)
next
  case False
  show ?thesis
    using assms(2,3) False
    by (intro time_inv_same [OF assms(2)]) (cases "vz_sim s"; auto split: if_splits)+
qed

lemma time_inv_step:
  assumes "viz_step md s s'" "stops_in_time md" "time_inv s"
  shows "time_inv s'"
  using assms
proof (induction rule: viz_step.induct)
  case (sim s s')
  then show ?case using time_inv_sim by blast
qed (auto simp: time_inv_def SAMPLE_PERIOD_def)

text \<open>The model runs at most one second of simulated time ahead of what the view shows, and never
  behind it.
\<close>

theorem model_stays_close_to_view:
  assumes "stops_in_time md" "(viz_step md)\<^sup>*\<^sup>* viz_start s"
  shows "vz_seen s \<le> vz_now s \<and> vz_now s \<le> vz_seen s + 1"
proof -
  have "time_inv viz_start" by (simp add: time_inv_def SAMPLE_PERIOD_def)
  then have "time_inv s"
    using time_inv_step [OF _ assms(1)] by (rule reachable_induct [OF assms(2)])
  then show ?thesis by (auto simp: time_inv_def)
qed

theorem model_stays_close_to_view_witness:
  "vz_seen viz_start \<le> vz_now viz_start \<and> vz_now viz_start \<le> vz_seen viz_start + 1"
proof -
  have "stops_in_time exact_simulator" by (simp add: stops_in_time_def exact_simulator_def)
  then show ?thesis by (rule model_stays_close_to_view) simp
qed

section \<open>Leaving\<close>

definition quit_inv :: "viz \<Rightarrow> bool" where
  "quit_inv s \<longleftrightarrow> (vz_quit s \<and> vz_sim s = Wait_Go \<longrightarrow> vz_go s) \<and> (Joining \<in> set (vz_stack s) \<longrightarrow> vz_quit s)"

lemma quit_inv_step: "viz_step md s s' \<Longrightarrow> quit_inv s \<Longrightarrow> quit_inv s'"
proof (induction rule: viz_step.induct)
  case (sim s s')
  then show ?case by (cases "vz_sim s") (auto simp: quit_inv_def split: if_splits)
qed (auto simp: quit_inv_def)

lemma quit_inv_start: "quit_inv viz_start"
  by (simp add: quit_inv_def)

lemma reachable_quit_inv: "(viz_step md)\<^sup>*\<^sup>* viz_start s \<Longrightarrow> quit_inv s"
  by (erule reachable_induct) (auto intro: quit_inv_step quit_inv_start)

text \<open>The steps the simulation thread has left once \<open>quit\<close> is set.\<close>

fun quit_rank :: "sim_pc \<Rightarrow> nat" where
  "quit_rank Ended = 0"
| "quit_rank Test_Quit = 1"
| "quit_rank Check_Quit = 1"
| "quit_rank Clear_Go = 2"
| "quit_rank Release = 2"
| "quit_rank Wait_Go = 3"
| "quit_rank Tell_View = 3"
| "quit_rank Run_Model = 4"
| "quit_rank Get_Lock = 5"

lemma joining_steps:
  assumes "viz_step md s s'" "vz_stack s = Joining # fs"
  shows "(sim_run md s = Some s') \<or> (vz_sim s = Ended \<and> s' = s\<lparr>vz_stack := fs, vz_left := True\<rparr>)"
  using assms by (cases rule: viz_step.cases) auto

lemma sim_run_rank:
  "sim_run md s = Some s' \<Longrightarrow> vz_quit s \<Longrightarrow>
   quit_rank (vz_sim s') < quit_rank (vz_sim s) \<and> vz_stack s' = vz_stack s \<and> vz_quit s' \<and> vz_left s' = vz_left s"
  by (cases "vz_sim s") (auto split: if_splits)

lemma left_stays: "viz_step md s s' \<Longrightarrow> vz_left s \<Longrightarrow> vz_left s'"
proof (induction rule: viz_step.induct)
  case (sim s s')
  then show ?case by (cases "vz_sim s") (auto split: if_splits)
qed auto

lemma joining_enabled:
  assumes "lock_inv s" "quit_inv s" "vz_stack s = Joining # fs"
  shows "\<exists>s'. viz_step md s s'"
proof (cases "vz_sim s = Ended")
  case True
  then show ?thesis using viz_step.joined [OF assms(3)] by blast
next
  case False
  have q: "vz_quit s" using assms by (simp add: quit_inv_def)
  have "vz_lock s = None" if "vz_sim s = Get_Lock"
    using assms(1,3) that by (cases "vz_lock s"; cases "the (vz_lock s)") (auto simp: lock_inv_def sim_holds_def gui_holds_def)
  then have "\<exists>s'. sim_run md s = Some s'"
    using False q assms(2) by (cases "vz_sim s") (auto simp: quit_inv_def)
  then show ?thesis using viz_step.sim by blast
qed

text \<open>C11: \<open>_quit\<close> ends: while it waits in \<open>join\<close>, there is always a next step, and within six steps, all
  taken by the simulation thread but the last, the thread has ended and \<open>join\<close> returned,
  wherever the thread was and whatever signal was pending.
\<close>

theorem quit_joins:
  assumes "(viz_step md)\<^sup>*\<^sup>* viz_start s" "vz_stack s = Joining # fs" "((viz_step md) ^^ n) s s'"
  shows "vz_left s' \<or> (n \<le> 5 \<and> vz_stack s' = Joining # fs \<and> (\<exists>s''. viz_step md s' s''))"
proof -
  have "vz_left s' \<or> (n + quit_rank (vz_sim s') \<le> quit_rank (vz_sim s) \<and> vz_stack s' = Joining # fs \<and>
      lock_inv s' \<and> quit_inv s')"
    using assms(3)
  proof (induction n arbitrary: s')
    case 0
    then show ?case using assms(2) reachable_lock_inv [OF assms(1)] reachable_quit_inv [OF assms(1)] by auto
  next
    case (Suc n)
    then obtain u where u: "((viz_step md) ^^ n) s u" "viz_step md u s'" by auto
    show ?case
    proof (cases "vz_left u")
      case True
      then show ?thesis using left_stays [OF u(2)] by blast
    next
      case False
      then have IH: "n + quit_rank (vz_sim u) \<le> quit_rank (vz_sim s)" "vz_stack u = Joining # fs"
        "lock_inv u" "quit_inv u"
        using Suc.IH [OF u(1)] by auto
      have "vz_quit u" using IH by (simp add: quit_inv_def)
      then show ?thesis
        using joining_steps [OF u(2) IH(2)] sim_run_rank [of md u s'] IH
          lock_inv_step [OF u(2)] quit_inv_step [OF u(2)] by auto
    qed
  qed
  moreover have "quit_rank (vz_sim s) \<le> 5" by (cases "vz_sim s") simp_all
  ultimately show ?thesis using joining_enabled [of s' fs md] by auto
qed

theorem quit_joins_witness:
  "\<exists>s'. ((viz_step exact_simulator) ^^ 2) (quit_event viz_start) s' \<and> vz_left s'"
proof -
  let ?s = "quit_event viz_start" and ?t = "(quit_event viz_start)\<lparr>vz_sim := Ended\<rparr>"
  have r: "(viz_step exact_simulator)\<^sup>*\<^sup>* viz_start ?s"
    by (intro r_into_rtranclp viz_step.quit) simp_all
  have 1: "viz_step exact_simulator ?s ?t" by (rule viz_step.sim) simp
  have 2: "viz_step exact_simulator ?t (?t\<lparr>vz_stack := [], vz_left := True\<rparr>)"
    by (rule viz_step.joined) simp_all
  have n: "((viz_step exact_simulator) ^^ 2) ?s (?t\<lparr>vz_stack := [], vz_left := True\<rparr>)"
    using 1 2 by (auto simp: numeral_2_eq_2)
  show ?thesis using quit_joins [OF r _ n] n by auto
qed

section \<open>Signals and the lock\<close>

text \<open>A signal that the simulation thread has not yet answered by a run of the model.\<close>

definition unserved :: "viz \<Rightarrow> bool" where
  "unserved s \<longleftrightarrow> vz_go s \<or> vz_sim s \<in> {Clear_Go, Check_Quit, Get_Lock, Run_Model}"

lemma unserved_step:
  assumes "viz_step md s s'" "unserved s" "\<not> unserved s'"
  shows "vz_quit s' \<or> (vz_sim s = Run_Model \<and> sim_run md s = Some s')"
  using assms
proof (induction rule: viz_step.induct)
  case (sim s s')
  then show ?case by (cases "vz_sim s") (auto simp: unserved_def split: if_splits)
qed (auto simp: unserved_def)

lemma quit_stays: "viz_step md s s' \<Longrightarrow> vz_quit s \<Longrightarrow> vz_quit s'"
proof (induction rule: viz_step.induct)
  case (sim s s')
  then show ?case by (cases "vz_sim s") (auto split: if_splits)
qed auto

text \<open>No signal is lost, although \<open>wait\<close> and \<open>clear\<close> are two actions: after \<open>go.set()\<close> the thread does
  not wait again without having run the model, to the target that is then current, unless the
  program quits.
\<close>

theorem go_signal_served:
  assumes "(viz_step md)\<^sup>*\<^sup>* s s'" "vz_go s" "vz_sim s' = Wait_Go" "\<not> vz_go s'" "\<not> vz_quit s'"
  shows "\<exists>u v. (viz_step md)\<^sup>*\<^sup>* s u \<and> vz_sim u = Run_Model \<and> viz_step md u v \<and>
    vz_now v = md_run_until md (vz_now u) (vz_target u) \<and> (viz_step md)\<^sup>*\<^sup>* v s'"
proof -
  have "unserved s' \<or> vz_quit s' \<or> (\<exists>u v. (viz_step md)\<^sup>*\<^sup>* s u \<and> vz_sim u = Run_Model \<and> viz_step md u v \<and>
    vz_now v = md_run_until md (vz_now u) (vz_target u) \<and> (viz_step md)\<^sup>*\<^sup>* v s')"
    using assms(1)
  proof (induction rule: rtranclp_induct)
    case base
    then show ?case using assms(2) by (simp add: unserved_def)
  next
    case (step y z)
    from step.IH show ?case
    proof (elim disjE exE conjE)
      assume "unserved y"
      then show ?thesis using unserved_step [OF step.hyps(2)] step.hyps by fastforce
    next
      assume "vz_quit y"
      then show ?thesis using quit_stays [OF step.hyps(2)] by simp
    next
      fix u v
      assume "(viz_step md)\<^sup>*\<^sup>* s u" "vz_sim u = Run_Model" "viz_step md u v"
        "vz_now v = md_run_until md (vz_now u) (vz_target u)" "(viz_step md)\<^sup>*\<^sup>* v y"
      then show ?thesis using step.hyps(2) rtranclp.rtrancl_into_rtrancl by metis
    qed
  qed
  then show ?thesis using assms(3-5) by (auto simp: unserved_def)
qed

lemma sim_path:
  assumes "sim_run md s = Some u" "(viz_step md)\<^sup>*\<^sup>* u s'"
  shows "(viz_step md)\<^sup>*\<^sup>* s s'"
  using viz_step.sim [OF assms(1)] assms(2) by (rule converse_rtranclp_into_rtranclp)

fun sim_steps :: "simulator \<Rightarrow> nat \<Rightarrow> viz \<Rightarrow> viz option" where
  "sim_steps md 0 s = Some s"
| "sim_steps md (Suc n) s = Option.bind (sim_run md s) (sim_steps md n)"

lemma sim_steps_path: "sim_steps md n s = Some s' \<Longrightarrow> (viz_step md)\<^sup>*\<^sup>* s s'"
  by (induction n arbitrary: s) (auto simp: bind_eq_Some_conv intro: sim_path)

theorem go_signal_served_witness:
  "\<exists>u. (viz_step exact_simulator)\<^sup>*\<^sup>* (viz_start\<lparr>vz_sim := Wait_Go, vz_go := True\<rparr>) u \<and> vz_sim u = Run_Model"
proof -
  let ?s = "viz_start\<lparr>vz_sim := Wait_Go, vz_go := True\<rparr>"
  let ?t = "the (sim_steps exact_simulator 8 ?s)"
  have "sim_steps exact_simulator 8 ?s \<noteq> None" by code_simp
  then have p: "(viz_step exact_simulator)\<^sup>*\<^sup>* ?s ?t" by (intro sim_steps_path) auto
  have "vz_go ?s" "vz_sim ?t = Wait_Go" "\<not> vz_go ?t" "\<not> vz_quit ?t" by code_simp+
  then show ?thesis using go_signal_served [OF p] by blast
qed

lemma sim_releases:
  assumes "vz_sim s \<in> {Run_Model, Tell_View, Release}"
  shows "\<exists>s'. (viz_step md)\<^sup>*\<^sup>* s s' \<and> vz_lock s' = None \<and> vz_stack s' = vz_stack s"
proof -
  have rel: "\<exists>s'. (viz_step md)\<^sup>*\<^sup>* u s' \<and> vz_lock s' = None \<and> vz_stack s' = vz_stack u"
    if "vz_sim u = Release" for u
    using that by (intro exI [of _ "u\<lparr>vz_lock := None, vz_sim := Test_Quit\<rparr>"]) (auto intro: sim_path)
  have tell: "\<exists>s'. (viz_step md)\<^sup>*\<^sup>* u s' \<and> vz_lock s' = None \<and> vz_stack s' = vz_stack u"
    if "vz_sim u = Tell_View" for u
  proof -
    let ?v = "u\<lparr>vz_pending := Suc (vz_pending u), vz_sim := Release\<rparr>"
    have "sim_run md u = Some ?v" using that by simp
    then show ?thesis using rel [of ?v] sim_path [of md u ?v] by auto
  qed
  let ?u = "s\<lparr>vz_now := md_run_until md (vz_now s) (vz_target s),
     vz_messages := vz_messages s @ md_messages md (vz_now s) (vz_target s), vz_sim := Tell_View\<rparr>"
  have "\<exists>s'. (viz_step md)\<^sup>*\<^sup>* s s' \<and> vz_lock s' = None \<and> vz_stack s' = vz_stack s" if "vz_sim s = Run_Model"
  proof -
    have "sim_run md s = Some ?u" using that by simp
    then show ?thesis using tell [of ?u] sim_path [of md s ?u] by auto
  qed
  then show ?thesis using assms rel tell by blast
qed

text \<open>C13: no callback waits for ever: from every reachable state in which one wants the lock, polling or
  blocked, steps of the simulation thread alone lead to one in which the callback gets it.
\<close>

theorem lock_can_be_had:
  assumes "(viz_step md)\<^sup>*\<^sup>* viz_start s"
    and "vz_stack s = f # fs" "f = Poll t \<and> g = (\<lambda>ms. View t ms) \<or> f = Want w \<and> g = (\<lambda>_. Hold w)"
  shows "\<exists>s' ms. (viz_step md)\<^sup>*\<^sup>* s s' \<and> vz_lock s' = Some Gui_Thread \<and> vz_stack s' = g ms # fs"
proof -
  have inv: "lock_inv s" by (rule reachable_lock_inv [OF assms(1)])
  have "\<not> gui_holds s" using assms(2,3) by (auto simp: gui_holds_def)
  then have "vz_lock s = None \<or> vz_sim s \<in> {Run_Model, Tell_View, Release}"
    using inv by (cases "vz_lock s"; cases "the (vz_lock s)") (auto simp: lock_inv_def sim_holds_def)
  then obtain u where u: "(viz_step md)\<^sup>*\<^sup>* s u" "vz_lock u = None" "vz_stack u = f # fs"
    using sim_releases [of s md] assms(2) by auto
  show ?thesis
    using assms(3)
  proof (elim disjE conjE)
    assume f: "f = Poll t" "g = (\<lambda>ms. View t ms)"
    have "viz_step md u (u\<lparr>vz_lock := Some Gui_Thread, vz_messages := [], vz_stack := View t (vz_messages u) # fs\<rparr>)"
      using u f by (intro viz_step.got_lock) simp_all
    with u(1) have "(viz_step md)\<^sup>*\<^sup>* s
        (u\<lparr>vz_lock := Some Gui_Thread, vz_messages := [], vz_stack := View t (vz_messages u) # fs\<rparr>)"
      by (rule rtranclp.rtrancl_into_rtrancl)
    then show ?thesis using f by force
  next
    assume f: "f = Want w" "g = (\<lambda>_. Hold w)"
    have "viz_step md u (u\<lparr>vz_lock := Some Gui_Thread, vz_stack := Hold w # fs\<rparr>)"
      using u f by (intro viz_step.acquire) simp_all
    with u(1) have "(viz_step md)\<^sup>*\<^sup>* s (u\<lparr>vz_lock := Some Gui_Thread, vz_stack := Hold w # fs\<rparr>)"
      by (rule rtranclp.rtrancl_into_rtrancl)
    then show ?thesis using f by force
  qed
qed

theorem lock_can_be_had_witness:
  "\<exists>s' ms. (viz_step exact_simulator)\<^sup>*\<^sup>* (viz_start\<lparr>vz_stack := [Poll 0]\<rparr>) s' \<and>
     vz_lock s' = Some Gui_Thread \<and> vz_stack s' = [View 0 ms]"
proof -
  have "viz_step exact_simulator viz_start (viz_start\<lparr>vz_stack := Poll 0 # vz_stack viz_start\<rparr>)"
    by (rule viz_step.timeout) code_simp+
  then have r: "(viz_step exact_simulator)\<^sup>*\<^sup>* viz_start (viz_start\<lparr>vz_stack := [Poll 0]\<rparr>)" by auto
  show ?thesis using lock_can_be_had [OF r, of "Poll 0" "[]" 0 "\<lambda>ms. View 0 ms"] by simp
qed

section \<open>The timers\<close>

text \<open>
  Pausing keeps the identifier of the removed source, so that playing again, or quitting,
  removes it a second time.
\<close>

lemma pause_then_play_warns:
  assumes "vz_playing s" "vz_timer s = Some t"
  shows "vz_warnings (set_playing True (set_playing False s)) > vz_warnings s"
  using assms
  by (auto simp: set_playing_def start_update_timer_def remove_timer_def source_remove_def Let_def)

definition double_timer :: viz where
  "double_timer =
     (let s = (set_playing True viz_start)\<lparr>vz_stack := [Poll 1]\<rparr>;
          s = speed_changed 2 (set_playing False s);
          s = update_view 1 [] [] (s\<lparr>vz_lock := Some Gui_Thread, vz_messages := [], vz_stack := [View 1 []]\<rparr>)
      in set_playing True (end_timeout 1 [] [] s))"

text \<open>
  When the user pauses and changes the speed while a timer callback polls the lock, the callback
  forgets the timer that the change started; after the next start two timers update the view.
\<close>

theorem two_timers_reachable:
  "(viz_step md)\<^sup>*\<^sup>* viz_start double_timer \<and> vz_playing double_timer \<and>
   map fst (vz_sources double_timer) = [2, 3] \<and> timer_ready 2 double_timer \<and> timer_ready 3 double_timer"
proof -
  let ?s1 = "set_playing True viz_start"
  let ?s2 = "?s1\<lparr>vz_stack := [Poll 1]\<rparr>"
  let ?s3 = "set_playing False ?s2"
  let ?s4 = "speed_changed 2 ?s3"
  let ?s5 = "?s4\<lparr>vz_lock := Some Gui_Thread, vz_messages := [], vz_stack := [View 1 []]\<rparr>"
  let ?s6 = "update_view 1 [] [] ?s5"
  let ?s7 = "end_timeout 1 [] [] ?s6"
  have m: "vz_messages ?s4 = []" "\<not> vz_playing viz_start" "vz_playing ?s2" "\<not> vz_playing ?s7" "vz_speed ?s3 = 1"
    by code_simp+
  have 1: "viz_step md viz_start ?s1" using viz_step.play [of viz_start md] m by simp
  have 2: "viz_step md ?s1 ?s2"
  proof -
    have "dispatching ?s1" "timer_ready 1 ?s1" by code_simp+
    then show ?thesis using viz_step.timeout [of ?s1 1 md] by simp
  qed
  have 3: "viz_step md ?s2 ?s3" using viz_step.play [of ?s2 md] m by simp
  have 4: "viz_step md ?s3 ?s4" using m by (intro viz_step.speed) simp_all
  have 5: "viz_step md ?s4 ?s5" using viz_step.got_lock [of ?s4 1 "[]" md] m by simp
  have 6: "viz_step md ?s5 ?s6" by (rule viz_step.view) simp
  have 7: "viz_step md ?s6 ?s7" by (rule viz_step.after) simp
  have 8: "viz_step md ?s7 (set_playing True ?s7)" using viz_step.play [of ?s7 md] m by simp
  have "(viz_step md)\<^sup>*\<^sup>* viz_start (set_playing True ?s7)"
    using 1 2 3 4 5 6 7 8 by (meson converse_rtranclp_into_rtranclp rtranclp.rtrancl_refl)
  moreover have "double_timer = set_playing True ?s7" by (simp only: double_timer_def Let_def)
  moreover have "vz_playing double_timer" "map fst (vz_sources double_timer) = [2, 3]"
    "timer_ready 2 double_timer" "timer_ready 3 double_timer" by code_simp+
  ultimately show ?thesis by simp
qed

lemma interval_bounds: "1 / 100 \<le> v \<Longrightarrow> v \<le> 10 \<Longrightarrow> 100 \<le> timer_interval v \<and> timer_interval v \<le> 10000"
  by (auto simp: timer_interval_def SAMPLE_PERIOD_def min_def le_floor_iff floor_le_iff field_simps)

end
