(* ===== verification/Viz_Base.thy ===== *)
theory Viz_Base
  imports Py_Prelude
begin

text \<open>
  \<^verbatim>\<open>src/src/visualizer/visualizer/base.py\<close> and \<open>svgitem.py\<close>: the transformations between the
  coordinates of the simulation and of the canvas, the registry of device traits, the loading of
  plugins, and the size of an icon.  Numbers of the canvas are exact rationals.
\<close>

section \<open>Coordinates\<close>

definition PIXELS_PER_METER :: rat where
  "PIXELS_PER_METER = 3"

definition transform_distance_simulation_to_canvas :: "rat \<Rightarrow> rat" where
  "transform_distance_simulation_to_canvas d = d * PIXELS_PER_METER"

definition transform_point_simulation_to_canvas :: "rat \<Rightarrow> rat \<Rightarrow> rat \<times> rat" where
  "transform_point_simulation_to_canvas x y = (x * PIXELS_PER_METER, y * PIXELS_PER_METER)"

definition transform_distance_canvas_to_simulation :: "rat \<Rightarrow> rat" where
  "transform_distance_canvas_to_simulation d = d / PIXELS_PER_METER"

definition transform_point_canvas_to_simulation :: "rat \<Rightarrow> rat \<Rightarrow> rat \<times> rat" where
  "transform_point_canvas_to_simulation x y = (x / PIXELS_PER_METER, y / PIXELS_PER_METER)"

lemma transform_distance_inverse [simp]:
  "transform_distance_canvas_to_simulation (transform_distance_simulation_to_canvas d) = d"
  "transform_distance_simulation_to_canvas (transform_distance_canvas_to_simulation d) = d"
  by (simp_all add: transform_distance_canvas_to_simulation_def transform_distance_simulation_to_canvas_def
      PIXELS_PER_METER_def)

lemma transform_point_inverse:
  "case_prod transform_point_canvas_to_simulation (transform_point_simulation_to_canvas x y) = (x, y)"
  "case_prod transform_point_simulation_to_canvas (transform_point_canvas_to_simulation x y) = (x, y)"
  by (simp_all add: transform_point_canvas_to_simulation_def transform_point_simulation_to_canvas_def
      PIXELS_PER_METER_def)

section \<open>Device traits\<close>

text \<open>\<open>is_wireless\<close> may be \<open>None\<close>.\<close>

record traits =
  tr_wireless :: "bool option"
  tr_virtual :: bool

definition make_traits :: "bool option \<Rightarrow> bool \<Rightarrow> traits res" where
  "make_traits w v = (if v \<or> w \<noteq> None then Inr \<lparr>tr_wireless = w, tr_virtual = v\<rparr> else Inl AssertionError)"

definition wired :: traits where "wired = \<lparr>tr_wireless = Some False, tr_virtual = False\<rparr>"
definition wireless :: traits where "wireless = \<lparr>tr_wireless = Some True, tr_virtual = False\<rparr>"
definition virtual :: traits where "virtual = \<lparr>tr_wireless = None, tr_virtual = True\<rparr>"

definition netdevice_traits :: "(string \<times> traits) list" where
  "netdevice_traits =
     [(''ns.point_to_point.PointToPointNetDevice'', wired),
      (''ns.csma.CsmaNetDevice'', wired),
      (''ns.wifi.WifiNetDevice'', wireless),
      (''ns.bridge.BridgeNetDevice'', virtual),
      (''ns.internet.LoopbackNetDevice'', \<lparr>tr_wireless = Some False, tr_virtual = True\<rparr>),
      (''ns.mesh.MeshPointDevice'', virtual),
      (''ns.wimax.SubscriberStationNetDevice'', wireless),
      (''ns.wimax.BaseStationNetDevice'', wireless),
      (''ns.lte.LteUeNetDevice'', wireless),
      (''ns.lte.LteEnbNetDevice'', wireless)]"

text \<open>The registry and the types a warning was written for.\<close>

record traits_table =
  rg_traits :: "(string \<times> traits) list"
  rg_warned :: "string list"

definition lookup_netdevice_traits :: "string \<Rightarrow> traits_table \<Rightarrow> traits \<times> traits_table" where
  "lookup_netdevice_traits ty r =
     (case map_of (rg_traits r) ty of
        Some t \<Rightarrow> (t, r)
      | None \<Rightarrow> (wireless, \<lparr>rg_traits = dict_set ty wireless (rg_traits r), rg_warned = rg_warned r @ [ty]\<rparr>))"

text \<open>The trait of a type that stays for ever, whatever else is looked up.\<close>

definition trait_of :: "traits_table \<Rightarrow> string \<Rightarrow> traits" where
  "trait_of r ty = (case map_of (rg_traits r) ty of Some t \<Rightarrow> t | None \<Rightarrow> wireless)"

lemma lookup_trait [simp]: "fst (lookup_netdevice_traits ty r) = trait_of r ty"
  by (simp add: lookup_netdevice_traits_def trait_of_def split: option.splits)

lemma lookup_keeps_traits [simp]: "trait_of (snd (lookup_netdevice_traits ty r)) = trait_of r"
  by (auto simp: lookup_netdevice_traits_def trait_of_def fun_eq_iff split: option.splits)

definition lookup_types :: "string list \<Rightarrow> traits_table \<Rightarrow> traits_table" where
  "lookup_types tys r = fold (\<lambda>ty r. snd (lookup_netdevice_traits ty r)) tys r"

lemma warned_registered:
  assumes "set (rg_warned r) \<subseteq> dom (map_of (rg_traits r))" "distinct (rg_warned r)"
  shows "set (rg_warned (lookup_types tys r)) \<subseteq> dom (map_of (rg_traits (lookup_types tys r))) \<and>
    distinct (rg_warned (lookup_types tys r))"
  using assms
proof (induction tys arbitrary: r)
  case (Cons ty tys)
  let ?r = "snd (lookup_netdevice_traits ty r)"
  have "set (rg_warned ?r) \<subseteq> dom (map_of (rg_traits ?r))" "distinct (rg_warned ?r)"
    using Cons.prems by (auto simp: lookup_netdevice_traits_def split: option.splits)
  then show ?case using Cons.IH [of ?r] by (simp add: lookup_types_def)
qed (simp add: lookup_types_def)

text \<open>A type of device is warned about at most once, and one of the table never.\<close>

lemma traits_warned_once:
  "distinct (rg_warned (lookup_types tys \<lparr>rg_traits = netdevice_traits, rg_warned = []\<rparr>))"
  using warned_registered [of "\<lparr>rg_traits = netdevice_traits, rg_warned = []\<rparr>" tys] by simp

section \<open>Plugins\<close>

text \<open>What importing a module of the plugin directory does, outside of the program's own code.\<close>

datatype plugin_import =
    Import_Error string
  | Other_Error exn
  | Plugin_Module bool

record plugin_state =
  ps_loaded :: bool
  ps_plugins :: "string list"
  ps_modules :: "string list"
  ps_path :: "string list"
  ps_stderr :: "string list"

text \<open>\<open>os.path.splitext\<close> of a name without slashes.\<close>

definition split_ext :: "string \<Rightarrow> string \<times> string" where
  "split_ext s =
     (let e = takeWhile (\<lambda>c. c \<noteq> CHR ''.'') (rev s);
          b = take (length s - Suc (length e)) s in
      if CHR ''.'' \<in> set s \<and> (\<exists>c \<in> set b. c \<noteq> CHR ''.'') then (b, CHR ''.'' # rev e) else (s, []))"

definition register_plugin :: "string \<Rightarrow> plugin_state \<Rightarrow> plugin_state" where
  "register_plugin name s = s\<lparr>ps_plugins := ps_plugins s @ [name], ps_modules := ps_modules s @ [name]\<rparr>"

fun load_each :: "(string \<Rightarrow> plugin_import) \<Rightarrow> string list \<Rightarrow> plugin_state \<Rightarrow> exn option \<times> plugin_state" where
  "load_each imp [] s = (None, s)"
| "load_each imp (f # fs) s =
     (let (name, ext) = split_ext f in
      if ext \<noteq> ''.py'' then load_each imp fs s
      else (case imp name of
              Import_Error msg \<Rightarrow>
                load_each imp fs (s\<lparr>ps_stderr := ps_stderr s @ [''Could not load plugin '' @ f @ '': '' @ msg]\<rparr>)
            | Other_Error e \<Rightarrow> (Some e, s)
            | Plugin_Module True \<Rightarrow> load_each imp fs (register_plugin name s)
            | Plugin_Module False \<Rightarrow>
                load_each imp fs (s\<lparr>ps_stderr := ps_stderr s @ [''Plugin '' @ name @ '' has no 'register' function'']\<rparr>)))"

definition load_plugins :: "string \<Rightarrow> (string \<Rightarrow> plugin_import) \<Rightarrow> string list \<Rightarrow> plugin_state \<Rightarrow> exn option \<times> plugin_state" where
  "load_plugins dir imp names s =
     (if ps_loaded s then (None, s)
      else let s = s\<lparr>ps_loaded := True\<rparr>; old = ps_path s in
        (case load_each imp names (s\<lparr>ps_path := dir # old\<rparr>) of
           (Some e, s) \<Rightarrow> (Some e, s)
         | (None, s) \<Rightarrow> (None, s\<lparr>ps_path := old\<rparr>)))"

lemma load_each_other_fields [simp]:
  "ps_path (snd (load_each imp fs s)) = ps_path s" "ps_loaded (snd (load_each imp fs s)) = ps_loaded s"
  by (induction imp fs s rule: load_each.induct)
     (auto simp: register_plugin_def Let_def split: prod.splits plugin_import.splits bool.splits)

lemma load_each_plugins:
  assumes "\<And>n e. imp n \<noteq> Other_Error e"
  shows "fst (load_each imp fs s) = None \<and>
    ps_plugins (snd (load_each imp fs s)) = ps_plugins s @
      filter (\<lambda>n. imp n = Plugin_Module True) (map (fst \<circ> split_ext) (filter (\<lambda>f. snd (split_ext f) = ''.py'') fs))"
  using assms
  by (induction imp fs s rule: load_each.induct)
     (auto simp: register_plugin_def Let_def split: prod.splits plugin_import.splits bool.splits)

text \<open>
  Loading registers, in the order of the directory, exactly the modules that import and have a
  \<open>register\<close>, and restores the search path; a second call does nothing.
\<close>

lemma load_plugins_spec:
  assumes "\<And>n e. imp n \<noteq> Other_Error e" "\<not> ps_loaded s" "load_plugins dir imp names s = (r, s')"
  shows "r = None \<and> ps_path s' = ps_path s \<and> ps_loaded s' \<and>
    ps_plugins s' = ps_plugins s @
      filter (\<lambda>n. imp n = Plugin_Module True) (map (fst \<circ> split_ext) (filter (\<lambda>f. snd (split_ext f) = ''.py'') names)) \<and>
    load_plugins dir imp' names' s' = (None, s')"
proof -
  let ?s = "s\<lparr>ps_loaded := True, ps_path := dir # ps_path s\<rparr>"
  obtain q u where q: "load_each imp names ?s = (q, u)" by fastforce
  have "q = None" "ps_plugins u = ps_plugins s @
      filter (\<lambda>n. imp n = Plugin_Module True) (map (fst \<circ> split_ext) (filter (\<lambda>f. snd (split_ext f) = ''.py'') names))"
    "ps_loaded u"
    using load_each_plugins [where imp = imp and fs = names and s = ?s] assms(1) load_each_other_fields [of imp names ?s] q by auto
  then show ?thesis using assms(2,3) q by (auto simp: load_plugins_def Let_def)
qed

text \<open>
  A plugin that raises something else than \<open>ImportError\<close> ends the loading: the search path keeps
  the plugin directory, and the next call finds nothing left to do.
\<close>

lemma load_plugins_breaks:
  assumes "\<not> ps_loaded s" "load_plugins dir imp names s = (Some e, s')"
  shows "ps_path s' = dir # ps_path s \<and> load_plugins dir imp' names' s' = (None, s')"
proof -
  let ?s = "s\<lparr>ps_loaded := True, ps_path := dir # ps_path s\<rparr>"
  obtain q u where q: "load_each imp names ?s = (q, u)" by fastforce
  then have "ps_path u = dir # ps_path s" "ps_loaded u"
    using load_each_other_fields [of imp names ?s] by auto
  then show ?thesis using assms q by (auto simp: load_plugins_def Let_def split: option.splits)
qed

section \<open>The size of an icon\<close>

text \<open>\<open>SvgItem\<close>: the size of the picture, the size asked for, and what is drawn.\<close>

record svg =
  sv_x :: rat
  sv_y :: rat
  sv_sx :: rat
  sv_sy :: rat
  sv_handle :: "rat \<times> rat"
  sv_width :: rat
  sv_height :: rat
  sv_custom_width :: "rat option"
  sv_custom_height :: "rat option"

definition svg_item :: "rat \<Rightarrow> rat \<Rightarrow> rat \<times> rat \<Rightarrow> svg" where
  "svg_item x y h = \<lparr>sv_x = x, sv_y = y, sv_sx = 1, sv_sy = 1, sv_handle = h,
     sv_width = fst h, sv_height = snd h, sv_custom_width = None, sv_custom_height = None\<rparr>"

definition true_div :: "rat \<Rightarrow> rat \<Rightarrow> rat res" where
  "true_div a b = (if b = 0 then Inl ZeroDivisionError else Inr (a / b))"

definition size_changed :: "svg \<Rightarrow> svg res" where
  "size_changed v =
     (case (sv_custom_width v, sv_custom_height v) of
        (None, None) \<Rightarrow>
          Inr (v\<lparr>sv_width := fst (sv_handle v), sv_height := snd (sv_handle v), sv_sx := 1, sv_sy := 1\<rparr>)
      | (Some w, None) \<Rightarrow>
          res_bind (true_div w (fst (sv_handle v))) (\<lambda>k.
            Inr (v\<lparr>sv_width := w, sv_sx := k, sv_sy := k, sv_height := snd (sv_handle v) * k\<rparr>))
      | (None, Some h) \<Rightarrow>
          res_bind (true_div h (snd (sv_handle v))) (\<lambda>k.
            Inr (v\<lparr>sv_height := h, sv_sy := k, sv_sx := k, sv_width := fst (sv_handle v) * k\<rparr>))
      | (Some w, Some h) \<Rightarrow>
          res_bind (true_div w (fst (sv_handle v))) (\<lambda>kx.
          res_bind (true_div h (snd (sv_handle v))) (\<lambda>ky.
            Inr (v\<lparr>sv_width := w, sv_height := h, sv_sx := kx, sv_sy := ky\<rparr>))))"

datatype svg_prop = Prop_X | Prop_Y | Prop_Width | Prop_Height

fun do_set_property :: "svg_prop \<Rightarrow> rat \<Rightarrow> svg \<Rightarrow> svg res" where
  "do_set_property Prop_X a v = Inr (v\<lparr>sv_x := a\<rparr>)"
| "do_set_property Prop_Y a v = Inr (v\<lparr>sv_y := a\<rparr>)"
| "do_set_property Prop_Width a v = size_changed (v\<lparr>sv_custom_width := Some a\<rparr>)"
| "do_set_property Prop_Height a v = size_changed (v\<lparr>sv_custom_height := Some a\<rparr>)"

text \<open>Reading the width writes both sizes.\<close>

fun do_get_property :: "svg_prop \<Rightarrow> svg \<Rightarrow> rat \<times> svg" where
  "do_get_property Prop_X v = (sv_x v, v)"
| "do_get_property Prop_Y v = (sv_y v, v)"
| "do_get_property Prop_Width v =
     (let v = v\<lparr>sv_width := fst (sv_handle v), sv_height := snd (sv_handle v)\<rparr> in (sv_width v, v))"
| "do_get_property Prop_Height v = (sv_height v, v)"

definition do_simple_is_item_at :: "rat \<Rightarrow> rat \<Rightarrow> svg \<Rightarrow> bool" where
  "do_simple_is_item_at x y v \<longleftrightarrow>
     \<not> ((x < sv_x v \<or> x > sv_x v + sv_width v) \<or> (y < sv_y v \<or> y > sv_y v + sv_height v))"

text \<open>The size says what the scaled picture covers.\<close>

definition svg_ok :: "svg \<Rightarrow> bool" where
  "svg_ok v \<longleftrightarrow> sv_width v = sv_sx v * fst (sv_handle v) \<and> sv_height v = sv_sy v * snd (sv_handle v) \<and>
     (sv_custom_width v = None \<or> sv_custom_height v = None \<longrightarrow> sv_sx v = sv_sy v)"

lemma svg_item_ok: "svg_ok (svg_item x y h)"
  by (simp add: svg_ok_def svg_item_def)

lemma do_set_property_ok:
  assumes "do_set_property p a v = Inr v'" "svg_ok v"
  shows "svg_ok v'"
  using assms
  by (cases p)
     (auto simp: svg_ok_def size_changed_def true_div_def res_bind_eq_Inr split: option.splits if_splits)

lemma do_set_property_sets:
  "do_set_property Prop_Width a v = Inr v' \<Longrightarrow> sv_width v' = a"
  "do_set_property Prop_Height a v = Inr v' \<Longrightarrow> sv_height v' = a"
  by (auto simp: size_changed_def true_div_def res_bind_eq_Inr split: option.splits if_splits)

text \<open>
  Reading \<open>width\<close> back gives the width of the picture, not the one that was set, and the item
  then answers for another area than it draws.
\<close>

lemma reading_width_forgets_it:
  assumes "do_set_property Prop_Width a v = Inr v'" "a \<noteq> fst (sv_handle v)"
  shows "fst (do_get_property Prop_Width v') \<noteq> a" "svg_ok v \<Longrightarrow> \<not> svg_ok (snd (do_get_property Prop_Width v'))"
  using assms
  by (auto simp: svg_ok_def size_changed_def true_div_def res_bind_eq_Inr Let_def split: option.splits if_splits)

end
