(* ===== verification/Viz_Window.thy ===== *)
theory Viz_Window
  imports Viz_Base
begin

text \<open>
  \<^verbatim>\<open>src/src/visualizer/visualizer/core.py\<close>, the window over the canvas: the zoom, the two scroll
  bars, panning, centering and the automatic scale.  The conversion between pixels and canvas
  coordinates, and what a new scale does to the scroll bars, belong to GooCanvas and are the
  fields of a parameter.
\<close>

section \<open>Adjustments\<close>

record adjustment =
  ad_lower :: rat
  ad_upper :: rat
  ad_page :: rat
  ad_value :: rat

text \<open>\<open>Gtk.Adjustment.set_value\<close>: the page is a part of the range.\<close>

definition set_value :: "rat \<Rightarrow> adjustment \<Rightarrow> adjustment" where
  "set_value v a = a\<lparr>ad_value := max (ad_lower a) (min v (ad_upper a - ad_page a))\<rparr>"

lemma set_value_fields [simp]:
  "ad_lower (set_value v a) = ad_lower a" "ad_upper (set_value v a) = ad_upper a"
  "ad_page (set_value v a) = ad_page a"
  by (simp_all add: set_value_def)

lemma set_value_inside:
  "ad_lower a \<le> v \<Longrightarrow> v \<le> ad_upper a - ad_page a \<Longrightarrow> ad_value (set_value v a) = v"
  by (simp add: set_value_def min_def max_def)

record window =
  wn_zoom :: adjustment
  wn_h :: adjustment
  wn_v :: adjustment
  wn_panning :: "((rat \<times> rat) \<times> (rat \<times> rat)) option"

text \<open>What the code calls of GooCanvas: the conversions at a scale, and a change of the scale.\<close>

record canvas_lib =
  cl_to_pixels :: "rat \<Rightarrow> rat \<times> rat \<Rightarrow> rat \<times> rat"
  cl_from_pixels :: "rat \<Rightarrow> rat \<times> rat \<Rightarrow> rat \<times> rat"
  cl_rescale :: "rat \<Rightarrow> adjustment \<times> adjustment \<Rightarrow> adjustment \<times> adjustment"

definition zoom_adjustment :: adjustment where
  "zoom_adjustment = \<lparr>ad_lower = 1 / 100, ad_upper = 10, ad_page = 1, ad_value = 1\<rparr>"

abbreviation zoom :: "window \<Rightarrow> rat" where "zoom w \<equiv> ad_value (wn_zoom w)"

text \<open>A value that changes is a signal, which sets the scale of the canvas.\<close>

definition set_zoom :: "canvas_lib \<Rightarrow> rat \<Rightarrow> window \<Rightarrow> window" where
  "set_zoom cl z w =
     (let a = set_value z (wn_zoom w) in
      if ad_value a = zoom w then w
      else let (h, v) = cl_rescale cl (ad_value a) (wn_h w, wn_v w) in
        w\<lparr>wn_zoom := a, wn_h := h, wn_v := v\<rparr>)"

datatype direction = Up | Down | Other_Direction

fun canvas_scroll_event :: "canvas_lib \<Rightarrow> direction \<Rightarrow> window \<Rightarrow> bool \<times> window" where
  "canvas_scroll_event cl Up w = (True, set_zoom cl (zoom w * (5 / 4)) w)"
| "canvas_scroll_event cl Down w = (True, set_zoom cl (zoom w / (5 / 4)) w)"
| "canvas_scroll_event cl Other_Direction w = (False, w)"

section \<open>Panning\<close>

definition begin_panning :: "rat \<times> rat \<Rightarrow> window \<Rightarrow> window" where
  "begin_panning mouse w = w\<lparr>wn_panning := Some (mouse, (ad_value (wn_h w), ad_value (wn_v w)))\<rparr>"

definition end_panning :: "window \<Rightarrow> window" where
  "end_panning w = w\<lparr>wn_panning := None\<rparr>"

definition panning_motion :: "rat \<times> rat \<Rightarrow> window \<Rightarrow> window res" where
  "panning_motion mouse w =
     (case wn_panning w of
        None \<Rightarrow> Inl AssertionError
      | Some (m0, c0) \<Rightarrow>
          let dx = fst mouse - fst m0; dy = snd mouse - snd m0 in
          Inr (w\<lparr>wn_h := set_value (fst c0 - dx) (wn_h w), wn_v := set_value (snd c0 - dy) (wn_v w)\<rparr>))"

fun canvas_button_press :: "nat \<Rightarrow> rat \<times> rat \<Rightarrow> window \<Rightarrow> bool \<times> window" where
  "canvas_button_press b mouse w = (if b = 2 then (True, begin_panning mouse w) else (False, w))"

fun canvas_button_release :: "nat \<Rightarrow> window \<Rightarrow> bool \<times> window" where
  "canvas_button_release b w = (if b = 2 then (True, if wn_panning w = None then w else end_panning w) else (False, w))"

fun pan :: "(rat \<times> rat) list \<Rightarrow> window \<Rightarrow> window res" where
  "pan [] w = Inr w"
| "pan (m # ms) w = res_bind (panning_motion m w) (pan ms)"

text \<open>
  While the button is down only the last position of the mouse counts: no motion event is lost
  or added up, and coming back to the start scrolls back.
\<close>

lemma pan_last:
  assumes "wn_panning w = Some (m0, c0)" "ms \<noteq> []"
  shows "pan ms w = panning_motion (last ms) w"
  using assms
proof (induction ms arbitrary: w)
  case (Cons m ms)
  obtain u where u: "panning_motion m w = Inr u" "wn_panning u = Some (m0, c0)"
    "panning_motion k u = panning_motion k w" for k
    using Cons.prems(1) by (auto simp: panning_motion_def Let_def set_value_def)
  show ?case
  proof (cases "ms = []")
    case False
    then show ?thesis using Cons.IH [OF u(2) False] u by simp
  qed (use u in simp)
qed simp

lemma pan_back:
  assumes "ad_lower (wn_h w) \<le> ad_value (wn_h w)" "ad_value (wn_h w) \<le> ad_upper (wn_h w) - ad_page (wn_h w)"
    "ad_lower (wn_v w) \<le> ad_value (wn_v w)" "ad_value (wn_v w) \<le> ad_upper (wn_v w) - ad_page (wn_v w)"
  shows "pan (ms @ [m]) (begin_panning m w) = Inr (begin_panning m w)"
proof -
  have "set_value (ad_value (wn_h w)) (wn_h w) = wn_h w" "set_value (ad_value (wn_v w)) (wn_v w) = wn_v w"
    using assms set_value_inside [of "wn_h w"] set_value_inside [of "wn_v w"]
    by (auto intro: adjustment.equality)
  then show ?thesis
    using pan_last [of "begin_panning m w" m "(ad_value (wn_h w), ad_value (wn_v w))" "ms @ [m]"]
    by (simp add: begin_panning_def panning_motion_def Let_def)
qed

section \<open>Centering and the automatic scale\<close>

definition center_at :: "canvas_lib \<Rightarrow> rat \<times> rat \<Rightarrow> window \<Rightarrow> window" where
  "center_at cl p w =
     (let (px, py) = cl_to_pixels cl (zoom w) p in
      w\<lparr>wn_h := set_value (px - ad_page (wn_h w) / 2) (wn_h w),
        wn_v := set_value (py - ad_page (wn_v w) / 2) (wn_v w)\<rparr>)"

text \<open>The part of the canvas that is on the screen: its first and last corner.\<close>

definition visible_box :: "canvas_lib \<Rightarrow> window \<Rightarrow> (rat \<times> rat) \<times> (rat \<times> rat)" where
  "visible_box cl w =
     (cl_from_pixels cl (zoom w) (ad_value (wn_h w), ad_value (wn_v w)),
      cl_from_pixels cl (zoom w) (ad_value (wn_h w) + ad_page (wn_h w), ad_value (wn_v w) + ad_page (wn_v w)))"

definition label_over_line_position ::
    "((rat \<times> rat) \<times> (rat \<times> rat) \<Rightarrow> (rat \<times> rat) \<times> (rat \<times> rat) \<Rightarrow> (rat \<times> rat) \<times> (rat \<times> rat)) \<Rightarrow>
     canvas_lib \<Rightarrow> window \<Rightarrow> rat \<times> rat \<Rightarrow> rat \<times> rat \<Rightarrow> rat \<times> rat" where
  "label_over_line_position line_clipping cl w p1 p2 =
     (let (q1, q2) = line_clipping (visible_box cl w) (p1, p2) in
      ((fst q1 + fst q2) / 2, (snd q1 + snd q2) / 2))"

definition bounding_box :: "(rat \<times> rat) list \<Rightarrow> (rat \<times> rat) \<times> (rat \<times> rat)" where
  "bounding_box ps = ((Min (set (map fst ps)), Min (set (map snd ps))), (Max (set (map fst ps)), Max (set (map snd ps))))"

text \<open>
  \<open>autoscale_view\<close> after the positions are up to date: the window at the new scale, and the point
  of the canvas it asks GooCanvas to scroll to.
\<close>

definition autoscale_view :: "canvas_lib \<Rightarrow> (rat \<times> rat) list \<Rightarrow> window \<Rightarrow> window \<times> (rat \<times> rat) option" where
  "autoscale_view cl ps w =
     (if ps = [] then (w, None)
      else
        let (lo, hi) = bounding_box ps;
            p = cl_to_pixels cl (zoom w) lo; q = cl_to_pixels cl (zoom w) hi;
            new_dx = 3 / 2 * (fst q - fst p); new_dy = 3 / 2 * (snd q - snd p)
        in if new_dx = 0 \<or> new_dy = 0 then (w, None)
           else
             let w = set_zoom cl (min (ad_page (wn_h w) / new_dx) (ad_page (wn_v w) / new_dy)) w;
                 (c1, c2) = visible_box cl w
             in (w, Some ((fst lo + fst hi) / 2 - (fst c2 - fst c1) / 2, (snd lo + snd hi) / 2 - (snd c2 - snd c1) / 2)))"

text \<open>What the code relies on of the conversion: at scale \<open>z\<close> a canvas unit is \<open>z\<close> pixels.\<close>

definition scales :: "canvas_lib \<Rightarrow> bool" where
  "scales cl \<longleftrightarrow> (\<forall>z p q. fst (cl_to_pixels cl z q) - fst (cl_to_pixels cl z p) = z * (fst q - fst p) \<and>
     snd (cl_to_pixels cl z q) - snd (cl_to_pixels cl z p) = z * (snd q - snd p))"

lemma autoscale_zoom:
  assumes "scales cl" "ps \<noteq> []" "bounding_box ps = ((x1, y1), (x2, y2))" "zoom w * (x2 - x1) \<noteq> 0" "zoom w * (y2 - y1) \<noteq> 0"
  shows "zoom (fst (autoscale_view cl ps w)) = ad_value (set_value
    (min (ad_page (wn_h w) / (3 / 2 * (zoom w * (x2 - x1)))) (ad_page (wn_v w) / (3 / 2 * (zoom w * (y2 - y1))))) (wn_zoom w))"
proof -
  have "fst (cl_to_pixels cl (zoom w) (x2, y2)) - fst (cl_to_pixels cl (zoom w) (x1, y1)) = zoom w * (x2 - x1)"
    "snd (cl_to_pixels cl (zoom w) (x2, y2)) - snd (cl_to_pixels cl (zoom w) (x1, y1)) = zoom w * (y2 - y1)"
    using assms(1) unfolding scales_def by fastforce+
  then have s: "fst (cl_to_pixels cl (zoom w) (x2, y2)) = fst (cl_to_pixels cl (zoom w) (x1, y1)) + zoom w * (x2 - x1)"
    "snd (cl_to_pixels cl (zoom w) (x2, y2)) = snd (cl_to_pixels cl (zoom w) (x1, y1)) + zoom w * (y2 - y1)"
    by linarith+
  have z: "zoom (set_zoom cl k w) = ad_value (set_value k (wn_zoom w))" for k
    by (auto simp: set_zoom_def Let_def split: prod.splits)
  show ?thesis
    using assms(2-5) z by (simp add: autoscale_view_def s Let_def split_beta)
qed

text \<open>
  The box of the nodes on the screen: at the scale 1 it fills two thirds of the window in one
  direction and at most that in the other.
\<close>

lemma scaled_extent:
  fixes k a b dx dy :: rat
  assumes "0 < dx" "0 < dy"
  shows "min (a / (3 / 2 * dx)) (b / (3 / 2 * dy)) * dx \<le> a * (2 / 3)"
    and "min (a / (3 / 2 * dx)) (b / (3 / 2 * dy)) * dy \<le> b * (2 / 3)"
    and "min (a / (3 / 2 * dx)) (b / (3 / 2 * dy)) * dx = a * (2 / 3) \<or> min (a / (3 / 2 * dx)) (b / (3 / 2 * dy)) * dy = b * (2 / 3)"
proof -
  have 1: "min (a / (3 / 2 * dx)) (b / (3 / 2 * dy)) * dx \<le> a / (3 / 2 * dx) * dx"
    using assms by (intro mult_right_mono) auto
  have 2: "min (a / (3 / 2 * dx)) (b / (3 / 2 * dy)) * dy \<le> b / (3 / 2 * dy) * dy"
    using assms by (intro mult_right_mono) auto
  show "min (a / (3 / 2 * dx)) (b / (3 / 2 * dy)) * dx \<le> a * (2 / 3)" using 1 assms by simp
  show "min (a / (3 / 2 * dx)) (b / (3 / 2 * dy)) * dy \<le> b * (2 / 3)" using 2 assms by simp
  show "min (a / (3 / 2 * dx)) (b / (3 / 2 * dy)) * dx = a * (2 / 3) \<or> min (a / (3 / 2 * dx)) (b / (3 / 2 * dy)) * dy = b * (2 / 3)"
    using assms by (simp add: min_def)
qed

text \<open>
  Called at another scale, the code compares pixels of the old scale with the page without
  multiplying by it: below two thirds the nodes do not fit.
\<close>

lemma autoscale_ignores_scale:
  assumes "scales cl" "ps \<noteq> []" "bounding_box ps = ((x1, y1), (x2, y2))" "x1 < x2" "y1 < y2" "0 < zoom w" "zoom w < 2 / 3"
    and "0 < ad_page (wn_h w)" "0 < ad_page (wn_v w)"
    and unclamped: "zoom (fst (autoscale_view cl ps w)) =
      min (ad_page (wn_h w) / (3 / 2 * (zoom w * (x2 - x1)))) (ad_page (wn_v w) / (3 / 2 * (zoom w * (y2 - y1))))"
  shows "zoom (fst (autoscale_view cl ps w)) * (x2 - x1) > ad_page (wn_h w) \<or>
    zoom (fst (autoscale_view cl ps w)) * (y2 - y1) > ad_page (wn_v w)"
proof -
  let ?k = "zoom (fst (autoscale_view cl ps w))"
  have "?k * (zoom w * (x2 - x1)) = ad_page (wn_h w) * (2 / 3) \<or> ?k * (zoom w * (y2 - y1)) = ad_page (wn_v w) * (2 / 3)"
    unfolding unclamped using scaled_extent(3) assms by simp
  then have "zoom w * (?k * (x2 - x1)) = ad_page (wn_h w) * (2 / 3) \<or> zoom w * (?k * (y2 - y1)) = ad_page (wn_v w) * (2 / 3)"
    by (simp only: mult.left_commute)
  moreover have "e > a" if "zoom w * e = a * (2 / 3)" "0 < a" for e a :: rat
  proof -
    have "0 < e" using that assms by (metis divide_pos_pos mult_pos_pos zero_less_mult_pos zero_less_numeral)
    from mult_strict_right_mono [OF assms(7) this] show ?thesis using that by simp
  qed
  ultimately show ?thesis using assms(8,9) by blast
qed

text \<open>
  At the scale 1, where \<open>start\<close> calls it, \<open>autoscale_view\<close> picks the scale at which the box of all
  nodes takes two thirds of the window in one direction and no more in the other, unless that
  scale is out of the range of the zoom.
\<close>

theorem autoscale_shows_all:
  assumes "scales cl" "ps \<noteq> []" "bounding_box ps = ((x1, y1), (x2, y2))" "x1 < x2" "y1 < y2" "zoom w = 1"
    and "wn_zoom w = zoom_adjustment"
    and "1 / 100 \<le> min (ad_page (wn_h w) * (2 / 3) / (x2 - x1)) (ad_page (wn_v w) * (2 / 3) / (y2 - y1))"
    and "min (ad_page (wn_h w) * (2 / 3) / (x2 - x1)) (ad_page (wn_v w) * (2 / 3) / (y2 - y1)) \<le> 9"
  defines "k \<equiv> zoom (fst (autoscale_view cl ps w))"
  shows "k * (x2 - x1) \<le> ad_page (wn_h w) * (2 / 3) \<and> k * (y2 - y1) \<le> ad_page (wn_v w) * (2 / 3) \<and>
    (k * (x2 - x1) = ad_page (wn_h w) * (2 / 3) \<or> k * (y2 - y1) = ad_page (wn_v w) * (2 / 3))"
proof -
  let ?m = "min (ad_page (wn_h w) / (3 / 2 * (x2 - x1))) (ad_page (wn_v w) / (3 / 2 * (y2 - y1)))"
  have "?m = min (ad_page (wn_h w) * (2 / 3) / (x2 - x1)) (ad_page (wn_v w) * (2 / 3) / (y2 - y1))"
    by simp
  then have "ad_value (set_value ?m zoom_adjustment) = ?m"
    using assms(8,9) by (intro set_value_inside) (simp_all add: zoom_adjustment_def)
  then have "k = ?m"
    using autoscale_zoom [OF assms(1-3)] assms(4-7) by (simp add: k_def)
  then show ?thesis using scaled_extent [of "x2 - x1" "y2 - y1"] assms(4,5) by simp
qed

end
