(* ===== verification/Viz_Model.thy ===== *)
theory Viz_Model
  imports Viz_Window "HOL-Library.Word"
begin

unbundle bit_operations_syntax

text \<open>
  \<^verbatim>\<open>src/src/visualizer/visualizer/core.py\<close>, the picture of the network: \<open>Node\<close>, \<open>Channel\<close>,
  \<open>WiredLink\<close> and the operations of \<open>Visualizer\<close> on them.  A node or channel is its key in the
  dictionary of the view, a link is its place in the list of all links, so that the lists of
  links of the nodes and channels share the links as the objects do.  The network of ns-3 is a
  record of its own; the colours of Gdk, the layout of graphviz and the canvas are parameters.
\<close>

section \<open>State\<close>

datatype endpoint = Node_End nat | Channel_End nat

record label_item =
  li_text :: string
  li_x :: rat
  li_y :: rat

record vnode =
  vn_links :: "nat list"
  vn_has_mobility :: "bool option"
  vn_selected :: bool
  vn_highlighted :: bool
  vn_color :: "32 word"
  vn_size :: rat
  vn_svg :: "(svg \<times> rat \<times> rat) option"
  vn_label :: "string option"
  vn_label_item :: "label_item option"
  vn_x :: rat
  vn_y :: rat
  vn_radius :: rat
  vn_fill :: "32 word"
  vn_line_width :: rat
  vn_stroke :: string

record vchannel =
  vc_links :: "nat list"
  vc_x :: rat
  vc_y :: rat

text \<open>The path of a link, once drawn, is given by its two points.\<close>

record wired_link =
  wl_node1 :: nat
  wl_node2 :: endpoint
  wl_data :: "((rat \<times> rat) \<times> (rat \<times> rat)) option"

datatype transmissions_mode = Show_All | Show_None | Show_Selected

record drag_state =
  dr_node :: nat
  dr_canvas :: "rat \<times> rat"
  dr_sim :: "rat \<times> rat"

text \<open>
  The bounds of the canvas are \<open>None\<close> where \<open>get_bounds\<close> does not return four numbers; the nodes
  of interest are those given to the simulation helper last.
\<close>

record view =
  vw_nodes :: "(nat \<times> vnode) list"
  vw_channels :: "(nat \<times> vchannel) list"
  vw_links :: "wired_link list"
  vw_bounds :: "(rat \<times> rat \<times> rat \<times> rat) option"
  vw_selected :: "nat option"
  vw_mode :: transmissions_mode
  vw_interest :: "nat list"
  vw_drag :: "drag_state option"
  vw_follow :: "nat option"
  vw_registry :: traits_table
  vw_window :: window

text \<open>The network: for each node the position of its mobility model, its devices; for each channel the nodes of its devices.\<close>

record device =
  dv_type :: string
  dv_channel :: "nat option"

record network =
  nt_count :: nat
  nt_position :: "nat \<Rightarrow> (rat \<times> rat) option"
  nt_devices :: "nat \<Rightarrow> device list"
  nt_members :: "nat \<Rightarrow> nat list"

text \<open>A change of the value of a key in place, and a loop whose body may raise.\<close>

definition dict_upd :: "'k \<Rightarrow> ('v \<Rightarrow> 'v) \<Rightarrow> ('k \<times> 'v) list \<Rightarrow> ('k \<times> 'v) list" where
  "dict_upd k f d = map (\<lambda>(a, b). (a, if a = k then f b else b)) d"

fun fold_res :: "('a \<Rightarrow> 's \<Rightarrow> 's res) \<Rightarrow> 'a list \<Rightarrow> 's \<Rightarrow> 's res" where
  "fold_res f [] s = Inr s"
| "fold_res f (x # xs) s = res_bind (f x s) (fold_res f xs)"

definition upd_node :: "nat \<Rightarrow> (vnode \<Rightarrow> vnode) \<Rightarrow> view \<Rightarrow> view" where
  "upd_node i f v = v\<lparr>vw_nodes := dict_upd i f (vw_nodes v)\<rparr>"

definition upd_channel :: "nat \<Rightarrow> (vchannel \<Rightarrow> vchannel) \<Rightarrow> view \<Rightarrow> view" where
  "upd_channel c f v = v\<lparr>vw_channels := dict_upd c f (vw_channels v)\<rparr>"

abbreviation node :: "view \<Rightarrow> nat \<Rightarrow> vnode option" where "node v \<equiv> map_of (vw_nodes v)"
abbreviation channel :: "view \<Rightarrow> nat \<Rightarrow> vchannel option" where "channel v \<equiv> map_of (vw_channels v)"

section \<open>Positions and links\<close>

fun position_of :: "endpoint \<Rightarrow> view \<Rightarrow> (rat \<times> rat) option" where
  "position_of (Node_End i) v = map_option (\<lambda>n. (vn_x n, vn_y n)) (node v i)"
| "position_of (Channel_End c) v = map_option (\<lambda>n. (vc_x n, vc_y n)) (channel v c)"

definition update_points :: "nat \<Rightarrow> view \<Rightarrow> view" where
  "update_points l v =
     (if l < length (vw_links v) then
        let k = vw_links v ! l in
        (case (position_of (Node_End (wl_node1 k)) v, position_of (wl_node2 k) v) of
           (Some p, Some q) \<Rightarrow> v\<lparr>vw_links := (vw_links v)[l := k\<lparr>wl_data := Some (p, q)\<rparr>]\<rparr>
         | _ \<Rightarrow> v)
      else v)"

fun links_of :: "endpoint \<Rightarrow> view \<Rightarrow> nat list" where
  "links_of (Node_End i) v = (case node v i of Some n \<Rightarrow> vn_links n | None \<Rightarrow> [])"
| "links_of (Channel_End c) v = (case channel v c of Some n \<Rightarrow> vc_links n | None \<Rightarrow> [])"

definition update_svg_position :: "rat \<Rightarrow> rat \<Rightarrow> vnode \<Rightarrow> vnode" where
  "update_svg_position x y n =
     (case vn_svg n of
        None \<Rightarrow> n
      | Some (s, ax, ay) \<Rightarrow>
          n\<lparr>vn_svg := Some (s\<lparr>sv_x := x - (1 - ax) * sv_width s, sv_y := y - (1 - ay) * sv_height s\<rparr>, ax, ay)\<rparr>)"

definition move_label :: "rat \<Rightarrow> rat \<Rightarrow> vnode \<Rightarrow> vnode" where
  "move_label x y n =
     n\<lparr>vn_label_item := map_option (\<lambda>l. l\<lparr>li_x := x, li_y := y + vn_size n * 3\<rparr>) (vn_label_item n)\<rparr>"

definition grow_bounds :: "rat \<Rightarrow> rat \<Rightarrow> view \<Rightarrow> view" where
  "grow_bounds x y v =
     v\<lparr>vw_bounds := map_option (\<lambda>(x1, y1, x2, y2). (min x x1, min y y1, max x x2, max y y2)) (vw_bounds v)\<rparr>"

definition node_set_position :: "nat \<Rightarrow> rat \<Rightarrow> rat \<Rightarrow> view \<Rightarrow> view" where
  "node_set_position i x y v =
     (let v = upd_node i (\<lambda>n. update_svg_position x y (n\<lparr>vn_x := x, vn_y := y\<rparr>)) v;
          v = fold update_points (links_of (Node_End i) v) v;
          v = upd_node i (move_label x y) v
      in grow_bounds x y v)"

definition channel_set_position :: "nat \<Rightarrow> rat \<Rightarrow> rat \<Rightarrow> view \<Rightarrow> view" where
  "channel_set_position c x y v =
     (let v = upd_channel c (\<lambda>n. n\<lparr>vc_x := x, vc_y := y\<rparr>) v in
      fold update_points (links_of (Channel_End c) v) v)"

fun set_position :: "endpoint \<Rightarrow> rat \<times> rat \<Rightarrow> view \<Rightarrow> view" where
  "set_position (Node_End i) (x, y) v = node_set_position i x y v"
| "set_position (Channel_End c) (x, y) v = channel_set_position c x y v"

section \<open>Appearance\<close>

definition DEFAULT_NODE_SIZE :: rat where "DEFAULT_NODE_SIZE = 1"

definition node_appearance :: "vnode \<Rightarrow> vnode" where
  "node_appearance n =
     (let size = transform_distance_simulation_to_canvas (vn_size n);
          alpha = (if vn_svg n \<noteq> None then 0x80 else 0xff) in
      n\<lparr>vn_radius := size, vn_fill := (vn_color n AND 0xffffff00) OR alpha,
        vn_line_width := (if vn_selected n then size * (3 / 10) else size * (15 / 100)),
        vn_stroke := (if vn_highlighted n then ''yellow'' else ''black'')\<rparr>)"

definition put_label :: "string \<Rightarrow> vnode \<Rightarrow> vnode" where
  "put_label t n =
     n\<lparr>vn_label_item := Some (case vn_label_item n of
          None \<Rightarrow> \<lparr>li_text = t, li_x = 0, li_y = 0\<rparr> | Some l \<Rightarrow> l\<lparr>li_text := t\<rparr>)\<rparr>"

definition update_position :: "nat \<Rightarrow> view \<Rightarrow> view" where
  "update_position i v =
     (case position_of (Node_End i) v of None \<Rightarrow> v | Some (x, y) \<Rightarrow> node_set_position i x y v)"

definition update_appearance :: "nat \<Rightarrow> view \<Rightarrow> view" where
  "update_appearance i v =
     (let v = upd_node i node_appearance v in
      (case Option.bind (node v i) vn_label of
         None \<Rightarrow> v
       | Some t \<Rightarrow> update_position i (upd_node i (put_label t) v)))"

definition set_selected :: "nat \<Rightarrow> bool \<Rightarrow> view \<Rightarrow> view" where
  "set_selected i b v = update_appearance i (upd_node i (\<lambda>n. n\<lparr>vn_selected := b\<rparr>) v)"

definition set_highlighted :: "nat \<Rightarrow> bool \<Rightarrow> view \<Rightarrow> view" where
  "set_highlighted i b v = update_appearance i (upd_node i (\<lambda>n. n\<lparr>vn_highlighted := b\<rparr>) v)"

definition set_size :: "nat \<Rightarrow> rat \<Rightarrow> view \<Rightarrow> view" where
  "set_size i z v = update_appearance i (upd_node i (\<lambda>n. n\<lparr>vn_size := z\<rparr>) v)"

text \<open>A colour is a number, or a name that Gdk turns into three words of 16 bits.\<close>

datatype color_arg = Color_Number "32 word" | Color_Name string

type_synonym gdk_colors = "string \<Rightarrow> 16 word \<times> 16 word \<times> 16 word"

fun color_value :: "gdk_colors \<Rightarrow> color_arg \<Rightarrow> 32 word" where
  "color_value gdk (Color_Number c) = c"
| "color_value gdk (Color_Name s) =
     (let (r, g, b) = gdk s in
      push_bit 24 (ucast (drop_bit 8 r)) OR push_bit 16 (ucast (drop_bit 8 g)) OR
      push_bit 8 (ucast (drop_bit 8 b)) OR 0xff)"

definition set_color :: "gdk_colors \<Rightarrow> nat \<Rightarrow> color_arg \<Rightarrow> view \<Rightarrow> view" where
  "set_color gdk i c v = update_appearance i (upd_node i (\<lambda>n. n\<lparr>vn_color := color_value gdk c\<rparr>) v)"

text \<open>\<open>basestring\<close> is a name of Python 2 only.\<close>

definition set_label :: "bool \<Rightarrow> nat \<Rightarrow> string \<Rightarrow> view \<Rightarrow> view res" where
  "set_label python3 i t v =
     (if python3 then Inl NameError
      else Inr (update_appearance i (upd_node i (\<lambda>n. n\<lparr>vn_label := Some t\<rparr>) v)))"

text \<open>
  \<open>svgitem\<close> is \<open>None\<close> where it cannot be imported; reading the picture of a file is a parameter.
\<close>

definition set_prop :: "svg_prop \<Rightarrow> rat option \<Rightarrow> svg \<Rightarrow> svg res" where
  "set_prop p d s = (case d of None \<Rightarrow> Inr s | Some a \<Rightarrow> do_set_property p (transform_distance_simulation_to_canvas a) s)"

definition set_svg_icon ::
    "bool \<Rightarrow> (string \<Rightarrow> (rat \<times> rat) res) \<Rightarrow> nat \<Rightarrow> string \<Rightarrow> rat option \<Rightarrow> rat option \<Rightarrow> rat \<Rightarrow> rat \<Rightarrow> view \<Rightarrow> view res" where
  "set_svg_icon available handle i f w h ax ay v =
     (if w = None \<and> h = None then Inl ValueError
      else if \<not> available then Inl AttributeError
      else res_bind (handle f) (\<lambda>size.
        (case position_of (Node_End i) v of
           None \<Rightarrow> Inl KeyError
         | Some (x, y) \<Rightarrow>
             res_bind (set_prop Prop_Width w (svg_item x y size)) (\<lambda>s.
             res_bind (set_prop Prop_Height h s) (\<lambda>s.
             Inr (update_appearance i (upd_node i (\<lambda>n. update_svg_position x y (n\<lparr>vn_svg := Some (s, ax, ay)\<rparr>)) v)))))))"

definition node_size_changed :: "rat \<Rightarrow> view \<Rightarrow> view" where
  "node_size_changed z v = fold (\<lambda>i. set_size i z) (map fst (vw_nodes v)) v"

section \<open>Nodes, channels and links\<close>

definition new_node :: vnode where
  "new_node = node_appearance
     \<lparr>vn_links = [], vn_has_mobility = None, vn_selected = False, vn_highlighted = False, vn_color = 0x808080ff,
      vn_size = DEFAULT_NODE_SIZE, vn_svg = None, vn_label = None, vn_label_item = None, vn_x = 0, vn_y = 0,
      vn_radius = 0, vn_fill = 0, vn_line_width = 0, vn_stroke = []\<rparr>"

definition get_node :: "nat \<Rightarrow> view \<Rightarrow> view" where
  "get_node i v = (if dict_has (vw_nodes v) i then v else v\<lparr>vw_nodes := dict_set i new_node (vw_nodes v)\<rparr>)"

definition get_channel :: "nat \<Rightarrow> view \<Rightarrow> view" where
  "get_channel c v =
     (if dict_has (vw_channels v) c then v
      else v\<lparr>vw_channels := dict_set c \<lparr>vc_links = [], vc_x = 0, vc_y = 0\<rparr> (vw_channels v)\<rparr>)"

fun append_link :: "endpoint \<Rightarrow> nat \<Rightarrow> view \<Rightarrow> view" where
  "append_link (Node_End i) l v = upd_node i (\<lambda>n. n\<lparr>vn_links := vn_links n @ [l]\<rparr>) v"
| "append_link (Channel_End c) l v = upd_channel c (\<lambda>n. n\<lparr>vc_links := vc_links n @ [l]\<rparr>) v"

definition create_link :: "nat \<Rightarrow> endpoint \<Rightarrow> view \<Rightarrow> view" where
  "create_link i e v =
     (let l = length (vw_links v);
          v = v\<lparr>vw_links := vw_links v @ [\<lparr>wl_node1 = i, wl_node2 = e, wl_data = None\<rparr>]\<rparr>
      in append_link e l (append_link (Node_End i) l v))"

definition has_mobility :: "network \<Rightarrow> nat \<Rightarrow> view \<Rightarrow> bool \<times> view" where
  "has_mobility t i v =
     (case Option.bind (node v i) vn_has_mobility of
        Some b \<Rightarrow> (b, v)
      | None \<Rightarrow> let b = (nt_position t i \<noteq> None) in (b, upd_node i (\<lambda>n. n\<lparr>vn_has_mobility := Some b\<rparr>) v))"

section \<open>Scanning the topology\<close>

text \<open>A strict graph of pygraphviz: a node or an edge is in it once.\<close>

record layout_graph =
  gr_nodes :: "string list"
  gr_edges :: "(string \<times> string) list"

definition add_node :: "string \<Rightarrow> layout_graph \<Rightarrow> layout_graph" where
  "add_node a g = (if a \<in> set (gr_nodes g) then g else g\<lparr>gr_nodes := gr_nodes g @ [a]\<rparr>)"

definition add_edge :: "string \<Rightarrow> string \<Rightarrow> layout_graph \<Rightarrow> layout_graph" where
  "add_edge a b g =
     (let g = add_node b (add_node a g) in
      if (a, b) \<in> set (gr_edges g) \<or> (b, a) \<in> set (gr_edges g) then g
      else g\<lparr>gr_edges := gr_edges g @ [(a, b)]\<rparr>)"

definition node_name :: "nat \<Rightarrow> string" where "node_name i = ''Node '' @ str_nat i"
definition channel_name :: "nat \<Rightarrow> string" where "channel_name c = ''Channel '' @ str_nat c"

definition REPRESENT_CHANNELS_AS_NODES :: bool where "REPRESENT_CHANNELS_AS_NODES = True"

definition scan_other :: "network \<Rightarrow> nat \<Rightarrow> nat \<Rightarrow> view \<times> layout_graph \<Rightarrow> view \<times> layout_graph" where
  "scan_other t i j vg =
     (let (v, g) = vg; v = get_node j v in
      if j = i then (v, g)
      else
        let (v, g) =
          (if nt_position t i = None then
             let (b, v) = has_mobility t j v in (v, if b then g else add_edge (node_name i) (node_name j) g)
           else (v, g))
        in (create_link i (Node_End j) (get_node i v), g))"

definition scan_channel :: "network \<Rightarrow> nat \<Rightarrow> nat \<Rightarrow> view \<times> layout_graph \<Rightarrow> view \<times> layout_graph" where
  "scan_channel t i c vg =
     (if length (nt_members t c) > 2 \<and> REPRESENT_CHANNELS_AS_NODES then
        let (v, g) = vg;
            g = (if nt_position t i = None then add_edge (node_name i) (channel_name c) g else g)
        in (create_link i (Channel_End c) (get_channel c (get_node i (get_channel c v))), g)
      else fold (scan_other t i) (nt_members t c) vg)"

definition scan_device :: "network \<Rightarrow> nat \<Rightarrow> device \<Rightarrow> view \<times> layout_graph \<Rightarrow> (view \<times> layout_graph) res" where
  "scan_device t i d vg =
     (let (v, g) = vg; (tr, r) = lookup_netdevice_traits (dv_type d) (vw_registry v); v = v\<lparr>vw_registry := r\<rparr> in
      if tr_wireless tr = Some True \<or> tr_virtual tr then Inr (v, g)
      else (case dv_channel d of
              None \<Rightarrow> Inl AttributeError
            | Some c \<Rightarrow> Inr (scan_channel t i c (v, g))))"

definition scan_node :: "gdk_colors \<Rightarrow> network \<Rightarrow> nat \<Rightarrow> view \<times> layout_graph \<Rightarrow> (view \<times> layout_graph) res" where
  "scan_node gdk t i vg =
     (let (v, g) = vg; v = get_node i v;
          vg = (case nt_position t i of
                  Some (x, y) \<Rightarrow>
                    (set_position (Node_End i) (transform_point_simulation_to_canvas x y) (set_color gdk i (Color_Name ''red'') v), g)
                | None \<Rightarrow> (v, add_node (node_name i) g))
      in fold_res (scan_device t i) (nt_devices t i) vg)"

text \<open>
  The positions graphviz computed, by the name of the node; an object is found again by its name.
  A name of neither kind would place the object of the round before.
\<close>

definition parse_int :: "string \<Rightarrow> nat res" where
  "parse_int s = (if s \<noteq> [] \<and> list_all is_digit s then Inr (nat_of_digits s) else Inl ValueError)"

definition named_object :: "view \<Rightarrow> endpoint option \<Rightarrow> string \<Rightarrow> endpoint res" where
  "named_object v old name =
     (case split_on CHR '' '' name of
        [ty, k] \<Rightarrow>
          if ty = ''Node'' then
            res_bind (parse_int k) (\<lambda>i. if dict_has (vw_nodes v) i then Inr (Node_End i) else Inl KeyError)
          else if ty = ''Channel'' then
            res_bind (parse_int k) (\<lambda>c. if dict_has (vw_channels v) c then Inr (Channel_End c) else Inl KeyError)
          else (case old of Some e \<Rightarrow> Inr e | None \<Rightarrow> Inl UnboundLocalError)
      | _ \<Rightarrow> Inl ValueError)"

definition place_named :: "(string \<Rightarrow> rat \<times> rat) \<Rightarrow> string \<Rightarrow> endpoint option \<times> view \<Rightarrow> (endpoint option \<times> view) res" where
  "place_named pos name ov =
     res_bind (named_object (snd ov) (fst ov) name) (\<lambda>e. Inr (Some e, set_position e (pos name) (snd ov)))"

definition scan_topology :: "gdk_colors \<Rightarrow> (layout_graph \<Rightarrow> string \<Rightarrow> rat \<times> rat) \<Rightarrow> network \<Rightarrow> view \<Rightarrow> view res" where
  "scan_topology gdk layout t v =
     res_bind (fold_res (scan_node gdk t) [0..<nt_count t] (v, \<lparr>gr_nodes = [], gr_edges = []\<rparr>)) (\<lambda>(v, g).
     res_bind (fold_res (place_named (layout g)) (gr_nodes g) (None, v)) (\<lambda>(_, v). Inr v))"

section \<open>Following the simulation and the user\<close>

definition update_node_position :: "canvas_lib \<Rightarrow> network \<Rightarrow> nat \<Rightarrow> view \<Rightarrow> view" where
  "update_node_position cl t i v =
     (let (b, v) = has_mobility t i v in
      (case nt_position t i of
         Some (x, y) \<Rightarrow>
           if b then
             let p = transform_point_simulation_to_canvas x y; v = set_position (Node_End i) p v in
             if vw_follow v = Some i then v\<lparr>vw_window := center_at cl p (vw_window v)\<rparr> else v
           else v
       | None \<Rightarrow> v))"

definition update_node_positions :: "canvas_lib \<Rightarrow> network \<Rightarrow> view \<Rightarrow> view" where
  "update_node_positions cl t v = fold (update_node_position cl t) (map fst (vw_nodes v)) v"

text \<open>A node may be given as an object of ns-3, by its number, or as the object of the view.\<close>

datatype node_arg = Arg_Ns3 nat | Arg_Number nat | Arg_View nat | Arg_None | Arg_Other

fun resolve_node :: "node_arg \<Rightarrow> view \<Rightarrow> nat option res" where
  "resolve_node (Arg_Ns3 i) v = (if dict_has (vw_nodes v) i then Inr (Some i) else Inl KeyError)"
| "resolve_node (Arg_Number i) v = (if dict_has (vw_nodes v) i then Inr (Some i) else Inl KeyError)"
| "resolve_node (Arg_View i) v = Inr (Some i)"
| "resolve_node Arg_None v = Inr None"
| "resolve_node Arg_Other v = Inl TypeError"

definition set_show_transmissions_mode :: "network \<Rightarrow> transmissions_mode \<Rightarrow> view \<Rightarrow> view" where
  "set_show_transmissions_mode t m v =
     v\<lparr>vw_mode := m,
       vw_interest := (case m of
          Show_All \<Rightarrow> [0..<nt_count t]
        | Show_None \<Rightarrow> []
        | Show_Selected \<Rightarrow> (case vw_selected v of None \<Rightarrow> [] | Some i \<Rightarrow> [i]))\<rparr>"

definition select_node :: "node_arg \<Rightarrow> view \<Rightarrow> view res" where
  "select_node a v =
     res_bind (resolve_node a v) (\<lambda>k.
       if k = vw_selected v then Inr v
       else
         let v = (case vw_selected v of None \<Rightarrow> v | Some i \<Rightarrow> set_selected i False v);
             v = v\<lparr>vw_selected := k\<rparr>;
             v = (case k of None \<Rightarrow> v | Some i \<Rightarrow> set_selected i True v)
         in Inr (if vw_mode v = Show_Selected
                 then v\<lparr>vw_interest := (case k of None \<Rightarrow> [] | Some i \<Rightarrow> [i])\<rparr> else v))"

definition center_on_node :: "canvas_lib \<Rightarrow> node_arg \<Rightarrow> view \<Rightarrow> view res" where
  "center_on_node cl a v =
     (if a = Arg_None then Inl TypeError
      else res_bind (resolve_node a v) (\<lambda>k.
        (case Option.bind k (\<lambda>i. position_of (Node_End i) v) of
           None \<Rightarrow> Inl AttributeError
         | Some p \<Rightarrow> Inr (v\<lparr>vw_window := center_at cl p (vw_window v)\<rparr>))))"

text \<open>\<open>set_follow_node\<close> looks up objects of ns-3 only; a number is kept as it is and equals no node.\<close>

fun set_follow_node :: "node_arg \<Rightarrow> view \<Rightarrow> view res" where
  "set_follow_node (Arg_Ns3 i) v =
     (if dict_has (vw_nodes v) i then Inr (v\<lparr>vw_follow := Some i\<rparr>) else Inl KeyError)"
| "set_follow_node (Arg_View i) v = Inr (v\<lparr>vw_follow := Some i\<rparr>)"
| "set_follow_node _ v = Inr (v\<lparr>vw_follow := None\<rparr>)"

definition begin_node_drag :: "network \<Rightarrow> nat \<Rightarrow> rat \<times> rat \<Rightarrow> view \<Rightarrow> view" where
  "begin_node_drag t i mouse v =
     (case (nt_position t i, vw_drag v) of
        (Some p, None) \<Rightarrow> v\<lparr>vw_drag := Some \<lparr>dr_node = i, dr_canvas = mouse, dr_sim = p\<rparr>\<rparr>
      | _ \<Rightarrow> v)"

definition node_drag_motion :: "nat \<Rightarrow> rat \<times> rat \<Rightarrow> network \<times> view \<Rightarrow> bool \<times> network \<times> view" where
  "node_drag_motion i mouse tv =
     (let (t, v) = tv in
      (case (nt_position t i, vw_drag v) of
         (Some _, Some d) \<Rightarrow>
           let dx = fst mouse - fst (dr_canvas d); dy = snd mouse - snd (dr_canvas d);
               x = fst (dr_sim d) + transform_distance_canvas_to_simulation dx;
               y = snd (dr_sim d) + transform_distance_canvas_to_simulation dy
           in (True, t\<lparr>nt_position := (nt_position t)(i \<mapsto> (x, y))\<rparr>,
               set_position (Node_End i) (transform_point_simulation_to_canvas x y) v)
       | _ \<Rightarrow> (False, t, v)))"

definition end_node_drag :: "view \<Rightarrow> view" where
  "end_node_drag v = v\<lparr>vw_drag := None\<rparr>"

text \<open>The button pressed over a node: select, drag, or the menu; over the background: select nothing.\<close>

definition node_button_press :: "network \<Rightarrow> nat \<Rightarrow> rat \<times> rat \<Rightarrow> nat \<Rightarrow> view \<Rightarrow> (bool \<times> view) res" where
  "node_button_press t b mouse i v =
     (if b = 1 then res_bind (select_node (Arg_View i) v) (\<lambda>v. Inr (True, v))
      else if b = 3 then Inr (True, v)
      else if b = 2 then Inr (True, begin_node_drag t i mouse v)
      else Inr (False, v))"

definition root_button_press :: "nat \<Rightarrow> view \<Rightarrow> view res" where
  "root_button_press b v = (if b = 1 then select_node Arg_None v else Inr v)"

definition node_button_release :: "nat \<Rightarrow> view \<Rightarrow> bool \<times> view" where
  "node_button_release b v = (if b = 2 then (True, end_node_drag v) else (False, v))"

text \<open>After \<open>__init__\<close>, with all transmissions shown.\<close>

definition start_view :: "network \<Rightarrow> window \<Rightarrow> view" where
  "start_view t w = set_show_transmissions_mode t Show_All
     \<lparr>vw_nodes = [], vw_channels = [], vw_links = [], vw_bounds = Some (-10000, -10000, 10000, 10000),
      vw_selected = None, vw_mode = Show_All, vw_interest = [], vw_drag = None, vw_follow = None,
      vw_registry = \<lparr>rg_traits = netdevice_traits, rg_warned = []\<rparr>, vw_window = w\<rparr>"

end
