(* ===== verification/Viz_Follow.thy ===== *)
theory Viz_Follow
  imports Viz_Model
begin

text \<open>
  What holds of the picture of the network whatever the simulation and the user do: links are
  drawn between the present positions of their ends, exactly the selected node has the border of
  a selected one, and the nodes of interest are those of the mode.
\<close>

section \<open>Changes of one node\<close>

named_theorems view_simps

lemma map_of_dict_upd [simp]: "map_of (dict_upd k f d) = (map_of d)(k := map_option f (map_of d k))"
  by (induction d) (auto simp: dict_upd_def fun_eq_iff)

lemma keys_dict_upd [simp]: "map fst (dict_upd k f d) = map fst d"
  by (induction d) (auto simp: dict_upd_def)

lemma upd_node_simps [simp, view_simps]:
  "node (upd_node i f v) = (node v)(i := map_option f (node v i))"
  "vw_channels (upd_node i f v) = vw_channels v" "vw_links (upd_node i f v) = vw_links v"
  "vw_bounds (upd_node i f v) = vw_bounds v" "vw_selected (upd_node i f v) = vw_selected v"
  "vw_mode (upd_node i f v) = vw_mode v" "vw_interest (upd_node i f v) = vw_interest v"
  "vw_drag (upd_node i f v) = vw_drag v" "vw_follow (upd_node i f v) = vw_follow v"
  "vw_registry (upd_node i f v) = vw_registry v" "vw_window (upd_node i f v) = vw_window v"
  "map fst (vw_nodes (upd_node i f v)) = map fst (vw_nodes v)"
  by (simp_all add: upd_node_def)

lemma upd_channel_simps [simp, view_simps]:
  "channel (upd_channel i f v) = (channel v)(i := map_option f (channel v i))"
  "vw_nodes (upd_channel i f v) = vw_nodes v" "vw_links (upd_channel i f v) = vw_links v"
  "vw_bounds (upd_channel i f v) = vw_bounds v" "vw_selected (upd_channel i f v) = vw_selected v"
  "vw_mode (upd_channel i f v) = vw_mode v" "vw_interest (upd_channel i f v) = vw_interest v"
  "vw_drag (upd_channel i f v) = vw_drag v" "vw_follow (upd_channel i f v) = vw_follow v"
  "vw_registry (upd_channel i f v) = vw_registry v" "vw_window (upd_channel i f v) = vw_window v"
  by (simp_all add: upd_channel_def)

lemma update_points_simps [simp, view_simps]:
  "vw_nodes (update_points l v) = vw_nodes v" "vw_channels (update_points l v) = vw_channels v"
  "vw_bounds (update_points l v) = vw_bounds v" "vw_selected (update_points l v) = vw_selected v"
  "vw_mode (update_points l v) = vw_mode v" "vw_interest (update_points l v) = vw_interest v"
  "vw_drag (update_points l v) = vw_drag v" "vw_follow (update_points l v) = vw_follow v"
  "vw_registry (update_points l v) = vw_registry v" "vw_window (update_points l v) = vw_window v"
  "length (vw_links (update_points l v)) = length (vw_links v)"
  by (simp_all add: update_points_def Let_def split: option.splits)

lemma fold_points_simps [simp, view_simps]:
  "vw_nodes (fold update_points ls v) = vw_nodes v" "vw_channels (fold update_points ls v) = vw_channels v"
  "vw_bounds (fold update_points ls v) = vw_bounds v" "vw_selected (fold update_points ls v) = vw_selected v"
  "vw_mode (fold update_points ls v) = vw_mode v" "vw_interest (fold update_points ls v) = vw_interest v"
  "vw_drag (fold update_points ls v) = vw_drag v" "vw_follow (fold update_points ls v) = vw_follow v"
  "vw_registry (fold update_points ls v) = vw_registry v" "vw_window (fold update_points ls v) = vw_window v"
  "length (vw_links (fold update_points ls v)) = length (vw_links v)"
  by (induction ls arbitrary: v) simp_all

declare position_of.simps [simp del] links_of.simps [simp del]

lemma position_of_cong:
  "vw_nodes v = vw_nodes v' \<Longrightarrow> vw_channels v = vw_channels v' \<Longrightarrow> position_of e v = position_of e v'"
  by (cases e) (simp_all add: position_of.simps)

lemma links_of_cong:
  "vw_nodes v = vw_nodes v' \<Longrightarrow> vw_channels v = vw_channels v' \<Longrightarrow> links_of e v = links_of e v'"
  by (cases e) (simp_all add: links_of.simps)

section \<open>Drawing links again\<close>

definition redraw :: "view \<Rightarrow> wired_link \<Rightarrow> wired_link" where
  "redraw v k = (case (position_of (Node_End (wl_node1 k)) v, position_of (wl_node2 k) v) of
     (Some p, Some q) \<Rightarrow> k\<lparr>wl_data := Some (p, q)\<rparr> | _ \<Rightarrow> k)"

lemma redraw_ends [simp]: "wl_node1 (redraw v k) = wl_node1 k" "wl_node2 (redraw v k) = wl_node2 k"
  by (auto simp: redraw_def split: option.splits)

lemma redraw_cong: "vw_nodes v = vw_nodes v' \<Longrightarrow> vw_channels v = vw_channels v' \<Longrightarrow> redraw v k = redraw v' k"
  unfolding redraw_def by (simp only: position_of_cong [of v v'])

lemma redraw_redraw [simp]: "redraw v (redraw v k) = redraw v k"
  by (auto simp: redraw_def split: option.splits)

lemma update_points_links:
  "vw_links (update_points l v) = (if l < length (vw_links v) then (vw_links v)[l := redraw v (vw_links v ! l)] else vw_links v)"
  by (auto simp: update_points_def redraw_def Let_def split: option.splits)

lemma fold_points_nth:
  "l < length (vw_links v) \<Longrightarrow>
   vw_links (fold update_points ls v) ! l = (if l \<in> set ls then redraw v (vw_links v ! l) else vw_links v ! l)"
proof (induction ls arbitrary: v)
  case (Cons m ls)
  have r: "redraw (update_points m v) k = redraw v k" for k by (rule redraw_cong) simp_all
  have "vw_links (update_points m v) ! l = (if l = m then redraw v (vw_links v ! l) else vw_links v ! l)"
    using Cons.prems by (auto simp: update_points_links nth_list_update)
  then show ?case using Cons.IH [of "update_points m v"] Cons.prems by (auto simp: r)
qed simp

definition touches :: "wired_link \<Rightarrow> endpoint \<Rightarrow> bool" where
  "touches k e \<longleftrightarrow> e = Node_End (wl_node1 k) \<or> e = wl_node2 k"

definition linked :: "view \<Rightarrow> bool" where
  "linked v \<longleftrightarrow> (\<forall>l < length (vw_links v). \<forall>e. touches (vw_links v ! l) e \<longrightarrow> l \<in> set (links_of e v))"

text \<open>A link that is drawn at all is drawn between the positions of its ends.\<close>

definition drawn_right :: "view \<Rightarrow> wired_link \<Rightarrow> bool" where
  "drawn_right v k \<longleftrightarrow> (case wl_data k of None \<Rightarrow> True
     | Some (p, q) \<Rightarrow> position_of (Node_End (wl_node1 k)) v = Some p \<and> position_of (wl_node2 k) v = Some q)"

definition links_follow :: "view \<Rightarrow> bool" where
  "links_follow v \<longleftrightarrow> (\<forall>k \<in> set (vw_links v). drawn_right v k)"

lemma drawn_right_cong:
  assumes "position_of (Node_End (wl_node1 k)) u = position_of (Node_End (wl_node1 k)) v"
    "position_of (wl_node2 k) u = position_of (wl_node2 k) v"
  shows "drawn_right u k = drawn_right v k"
  unfolding drawn_right_def using assms by (simp only:)

lemma links_of_exists: "l \<in> set (links_of e v) \<Longrightarrow> position_of e v \<noteq> None"
  by (cases e) (auto simp: position_of.simps links_of.simps split: option.splits dest: sym)

lemma drawn_right_redraw:
  assumes "linked v" "l < length (vw_links v)"
  shows "drawn_right v (redraw v (vw_links v ! l)) \<and> wl_data (redraw v (vw_links v ! l)) \<noteq> None"
proof -
  let ?k = "vw_links v ! l"
  have "l \<in> set (links_of (Node_End (wl_node1 ?k)) v)" "l \<in> set (links_of (wl_node2 ?k) v)"
    using assms by (simp_all add: linked_def touches_def)
  then have "position_of (Node_End (wl_node1 ?k)) v \<noteq> None" "position_of (wl_node2 ?k) v \<noteq> None"
    by (auto simp only: dest: links_of_exists)
  then show ?thesis by (auto simp: drawn_right_def redraw_def)
qed

lemma linked_same:
  assumes "linked v" "\<And>e. set (links_of e v) \<subseteq> set (links_of e v')" "length (vw_links v') = length (vw_links v)"
    "\<And>l. l < length (vw_links v) \<Longrightarrow> wl_node1 (vw_links v' ! l) = wl_node1 (vw_links v ! l) \<and> wl_node2 (vw_links v' ! l) = wl_node2 (vw_links v ! l)"
  shows "linked v'"
  unfolding linked_def
proof (intro allI impI)
  fix l e assume l: "l < length (vw_links v')" "touches (vw_links v' ! l) e"
  then have "touches (vw_links v ! l) e" using assms(3,4) by (simp add: touches_def)
  then show "l \<in> set (links_of e v')" using assms(1-3) l by (auto simp: linked_def)
qed

lemma linked_fold_points: "linked v \<Longrightarrow> linked (fold update_points ls v)"
  by (erule linked_same) (auto simp: fold_points_nth links_of_cong [of v "fold update_points ls v"])

text \<open>Moving one end and drawing its links again.\<close>

lemma links_follow_move:
  assumes "linked v" "links_follow v" "vw_links u = vw_links v" "\<And>d. links_of d u = links_of d v"
    "\<And>d. d \<noteq> e \<Longrightarrow> position_of d u = position_of d v"
  shows "linked (fold update_points (links_of e u) u) \<and> links_follow (fold update_points (links_of e u) u)"
proof
  have u: "linked u" using assms(1) by (rule linked_same) (simp_all add: assms)
  then show "linked (fold update_points (links_of e u) u)" by (rule linked_fold_points)
  let ?w = "fold update_points (links_of e u) u"
  have pos: "position_of d ?w = position_of d u" for d by (rule position_of_cong) simp_all
  show "links_follow ?w"
    unfolding links_follow_def
  proof
    fix k assume "k \<in> set (vw_links ?w)"
    then obtain l where l: "l < length (vw_links u)" "k = vw_links ?w ! l" by (auto simp: in_set_conv_nth)
    show "drawn_right ?w k"
    proof (cases "l \<in> set (links_of e u)")
      case True
      then have "k = redraw u (vw_links u ! l)" using l by (simp add: fold_points_nth)
      then show ?thesis using drawn_right_redraw [OF u l(1)] drawn_right_cong [of k ?w u] pos by simp
    next
      case False
      then have k: "k = vw_links v ! l" using l assms(3) by (simp add: fold_points_nth)
      then have "\<not> touches k e" using False u l assms(3) by (auto simp: linked_def)
      then have "position_of (Node_End (wl_node1 k)) u = position_of (Node_End (wl_node1 k)) v"
        "position_of (wl_node2 k) u = position_of (wl_node2 k) v"
        using assms(5) by (auto simp: touches_def)
      moreover have "drawn_right v k" using assms(2,3) l(1) unfolding k links_follow_def by simp
      ultimately show ?thesis using drawn_right_cong [of k ?w v] pos by simp
    qed
  qed
qed

text \<open>Changes that touch neither positions nor links.\<close>

definition same_picture :: "view \<Rightarrow> view \<Rightarrow> bool" where
  "same_picture v u \<longleftrightarrow> vw_links u = vw_links v \<and> (\<forall>e. links_of e u = links_of e v \<and> position_of e u = position_of e v)"

lemma same_picture_keeps:
  assumes "same_picture v u"
  shows "linked v \<Longrightarrow> linked u" "links_follow v \<Longrightarrow> links_follow u"
  using assms drawn_right_cong [of _ u v] by (auto simp: same_picture_def linked_def links_follow_def)

lemma same_picture_upd_node:
  assumes "\<And>n. vn_links (f n) = vn_links n \<and> vn_x (f n) = vn_x n \<and> vn_y (f n) = vn_y n"
  shows "same_picture v (upd_node i f v)"
  unfolding same_picture_def
proof (intro conjI allI)
  fix e
  show "links_of e (upd_node i f v) = links_of e v" using assms by (cases e) (auto simp: links_of.simps split: option.splits)
  show "position_of e (upd_node i f v) = position_of e v" using assms by (cases e) (auto simp: position_of.simps map_option_case split: option.splits)
qed simp

lemma same_picture_fields:
  "vw_nodes u = vw_nodes v \<Longrightarrow> vw_channels u = vw_channels v \<Longrightarrow> vw_links u = vw_links v \<Longrightarrow> same_picture v u"
  by (auto simp: same_picture_def intro: links_of_cong position_of_cong)

section \<open>The look of a node\<close>

text \<open>What the canvas shows of a node is what its fields say.\<close>

definition shown :: "vnode \<Rightarrow> bool" where
  "shown n \<longleftrightarrow>
     vn_radius n = 3 * vn_size n \<and>
     vn_fill n = (vn_color n AND 0xffffff00) OR (if vn_svg n = None then 0xff else 0x80) \<and>
     vn_line_width n = vn_radius n * (if vn_selected n then 3 / 10 else 15 / 100) \<and>
     vn_stroke n = (if vn_highlighted n then ''yellow'' else ''black'')"

definition node_ok :: "nat set \<Rightarrow> view \<Rightarrow> nat \<Rightarrow> vnode \<Rightarrow> bool" where
  "node_ok S v i n \<longleftrightarrow> shown n \<and> (vn_selected n \<longleftrightarrow> i \<in> S)"

definition inside :: "rat \<Rightarrow> rat \<Rightarrow> view \<Rightarrow> bool" where
  "inside x y v \<longleftrightarrow> (case vw_bounds v of None \<Rightarrow> True
     | Some (x1, y1, x2, y2) \<Rightarrow> x1 \<le> x \<and> x \<le> x2 \<and> y1 \<le> y \<and> y \<le> y2)"

text \<open>The invariant, for a set of nodes that are to be shown as selected.\<close>

definition picture_ok :: "nat set \<Rightarrow> view \<Rightarrow> bool" where
  "picture_ok S v \<longleftrightarrow> linked v \<and> links_follow v \<and> (\<forall>i n. node v i = Some n \<longrightarrow> node_ok S v i n \<and> inside (vn_x n) (vn_y n) v) \<and>
     inside 0 0 v"

lemma shown_appearance [simp]: "shown (node_appearance n)"
  by (simp add: shown_def node_appearance_def Let_def transform_distance_simulation_to_canvas_def PIXELS_PER_METER_def)

lemma appearance_fields [simp]:
  "vn_links (node_appearance n) = vn_links n" "vn_has_mobility (node_appearance n) = vn_has_mobility n"
  "vn_selected (node_appearance n) = vn_selected n" "vn_highlighted (node_appearance n) = vn_highlighted n"
  "vn_color (node_appearance n) = vn_color n" "vn_size (node_appearance n) = vn_size n"
  "vn_svg (node_appearance n) = vn_svg n" "vn_label (node_appearance n) = vn_label n"
  "vn_label_item (node_appearance n) = vn_label_item n" "vn_x (node_appearance n) = vn_x n"
  "vn_y (node_appearance n) = vn_y n"
  by (simp_all add: node_appearance_def Let_def)

lemma svg_position_fields [simp]:
  "vn_links (update_svg_position x y n) = vn_links n" "vn_has_mobility (update_svg_position x y n) = vn_has_mobility n"
  "vn_selected (update_svg_position x y n) = vn_selected n" "vn_highlighted (update_svg_position x y n) = vn_highlighted n"
  "vn_color (update_svg_position x y n) = vn_color n" "vn_size (update_svg_position x y n) = vn_size n"
  "vn_svg (update_svg_position x y n) = None \<longleftrightarrow> vn_svg n = None" "vn_label (update_svg_position x y n) = vn_label n"
  "vn_x (update_svg_position x y n) = vn_x n" "vn_y (update_svg_position x y n) = vn_y n"
  "vn_radius (update_svg_position x y n) = vn_radius n" "vn_fill (update_svg_position x y n) = vn_fill n"
  "vn_line_width (update_svg_position x y n) = vn_line_width n" "vn_stroke (update_svg_position x y n) = vn_stroke n"
  by (simp_all add: update_svg_position_def split: option.splits)

lemma shown_same_look:
  "shown (update_svg_position x y n) = shown n" "shown (move_label x y n) = shown n" "shown (put_label t n) = shown n"
  "shown (n\<lparr>vn_x := x, vn_y := y\<rparr>) = shown n" "shown (n\<lparr>vn_has_mobility := b\<rparr>) = shown n" "shown (n\<lparr>vn_links := ls\<rparr>) = shown n"
  by (simp_all add: shown_def move_label_def put_label_def)

lemma label_fields [simp]:
  "vn_links (move_label x y n) = vn_links n" "vn_x (move_label x y n) = vn_x n" "vn_y (move_label x y n) = vn_y n"
  "vn_selected (move_label x y n) = vn_selected n" "vn_has_mobility (move_label x y n) = vn_has_mobility n"
  "vn_color (move_label x y n) = vn_color n"
  "vn_links (put_label t n) = vn_links n" "vn_x (put_label t n) = vn_x n" "vn_y (put_label t n) = vn_y n"
  "vn_selected (put_label t n) = vn_selected n" "vn_has_mobility (put_label t n) = vn_has_mobility n"
  "vn_color (put_label t n) = vn_color n"
  by (simp_all add: move_label_def put_label_def)

lemma inside_cong: "vw_bounds u = vw_bounds v \<Longrightarrow> inside x y u = inside x y v"
  by (simp add: inside_def)

lemma inside_grow [simp]: "inside x y (grow_bounds x y v)" "inside a b v \<Longrightarrow> inside a b (grow_bounds x y v)"
  by (auto simp: inside_def grow_bounds_def split: option.splits)

lemma grow_bounds_simps [simp, view_simps]:
  "vw_nodes (grow_bounds x y v) = vw_nodes v" "vw_channels (grow_bounds x y v) = vw_channels v"
  "vw_links (grow_bounds x y v) = vw_links v" "vw_selected (grow_bounds x y v) = vw_selected v"
  "vw_mode (grow_bounds x y v) = vw_mode v" "vw_interest (grow_bounds x y v) = vw_interest v"
  "vw_drag (grow_bounds x y v) = vw_drag v" "vw_follow (grow_bounds x y v) = vw_follow v"
  "vw_registry (grow_bounds x y v) = vw_registry v" "vw_window (grow_bounds x y v) = vw_window v"
  by (simp_all add: grow_bounds_def)

section \<open>Every operation keeps the picture right\<close>

lemma picture_ok_node:
  "picture_ok S v \<Longrightarrow> node v i = Some n \<Longrightarrow> node_ok S v i n \<and> inside (vn_x n) (vn_y n) v"
  by (simp add: picture_ok_def)

lemma picture_ok_fields:
  assumes "picture_ok S v" "vw_nodes u = vw_nodes v" "vw_channels u = vw_channels v" "vw_links u = vw_links v" "vw_bounds u = vw_bounds v"
  shows "picture_ok S u"
  using assms same_picture_keeps [OF same_picture_fields [OF assms(2-4)]]
  by (simp add: picture_ok_def inside_def node_ok_def)

lemma picture_ok_upd_node:
  assumes "picture_ok S v"
    and "\<And>n. vn_links (f n) = vn_links n \<and> vn_x (f n) = vn_x n \<and> vn_y (f n) = vn_y n"
    and "\<And>n. node_ok S v i n \<Longrightarrow> node_ok T v i (f n)" "\<And>j. j \<noteq> i \<Longrightarrow> j \<in> T \<longleftrightarrow> j \<in> S"
  shows "picture_ok T (upd_node i f v)"
  unfolding picture_ok_def
proof (intro conjI allI impI)
  show "linked (upd_node i f v)" "links_follow (upd_node i f v)"
    using same_picture_keeps [OF same_picture_upd_node [OF assms(2)]] assms(1) by (simp_all add: picture_ok_def)
  have in_eq: "inside x y (upd_node i f v) = inside x y v" for x y by (simp add: inside_def)
  show "inside 0 0 (upd_node i f v)" using assms(1) by (simp add: picture_ok_def in_eq)
  fix j n assume n: "node (upd_node i f v) j = Some n"
  have "node_ok T v j n \<and> inside (vn_x n) (vn_y n) v"
  proof (cases "j = i")
    case True
    then obtain m where m: "node v i = Some m" "n = f m" using n by auto
    then show ?thesis using picture_ok_node [OF assms(1) m(1)] assms(2,3) True by simp
  next
    case False
    then show ?thesis using picture_ok_node [OF assms(1), of j n] n assms(4) by (simp add: node_ok_def)
  qed
  then show "node_ok T (upd_node i f v) j n" "inside (vn_x n) (vn_y n) (upd_node i f v)"
    by (simp_all add: node_ok_def in_eq)
qed

lemma picture_ok_set_position:
  assumes "picture_ok S v"
  shows "picture_ok S (node_set_position i x y v)"
proof -
  let ?f = "\<lambda>n. update_svg_position x y (n\<lparr>vn_x := x, vn_y := y\<rparr>)"
  let ?u = "upd_node i ?f v"
  let ?w = "fold update_points (links_of (Node_End i) ?u) ?u"
  let ?z = "upd_node i (move_label x y) ?w"
  have lo: "links_of d ?u = links_of d v" for d by (cases d) (auto simp: links_of.simps split: option.splits)
  have po: "position_of d ?u = position_of d v" if "d \<noteq> Node_End i" for d
    using that by (cases d) (auto simp: position_of.simps)
  have w: "linked ?w \<and> links_follow ?w"
    by (rule links_follow_move) (use assms lo po in \<open>simp_all add: picture_ok_def\<close>)
  have sp: "same_picture ?w ?z" by (rule same_picture_upd_node) simp
  have z: "node ?z j = map_option (if j = i then move_label x y \<circ> ?f else id) (node v j)" for j
    by (cases "node v j") auto
  have "linked (grow_bounds x y ?z) \<and> links_follow (grow_bounds x y ?z)"
    using w same_picture_keeps [OF sp] same_picture_keeps [OF same_picture_fields [of "grow_bounds x y ?z" ?z]] by simp
  moreover have "node_ok S (grow_bounds x y ?z) j n \<and> inside (vn_x n) (vn_y n) (grow_bounds x y ?z)"
    if "node ?z j = Some n" for j n
  proof -
    have "map_option (if j = i then move_label x y \<circ> ?f else id) (node v j) = Some n"
      using that z [of j] by (simp only:)
    then obtain m where m: "node v j = Some m" "n = (if j = i then move_label x y (?f m) else m)"
      by (cases "j = i") auto
    have "inside a b v \<Longrightarrow> inside a b (grow_bounds x y ?z)" for a b
      by (rule inside_grow(2)) (simp add: inside_def)
    then show ?thesis
      using picture_ok_node [OF assms m(1)] m(2) by (auto simp: node_ok_def shown_same_look)
  qed
  moreover have "inside 0 0 (grow_bounds x y ?z)"
    using assms by (intro inside_grow(2)) (simp add: picture_ok_def inside_def)
  ultimately show ?thesis
    unfolding node_set_position_def Let_def picture_ok_def by simp
qed

lemma picture_ok_channel_position:
  assumes "picture_ok S v"
  shows "picture_ok S (channel_set_position c x y v)"
proof -
  let ?u = "upd_channel c (\<lambda>n. n\<lparr>vc_x := x, vc_y := y\<rparr>) v"
  have lo: "links_of d ?u = links_of d v" for d by (cases d) (auto simp: links_of.simps split: option.splits)
  have po: "position_of d ?u = position_of d v" if "d \<noteq> Channel_End c" for d
    using that by (cases d) (auto simp: position_of.simps)
  have "linked (channel_set_position c x y v) \<and> links_follow (channel_set_position c x y v)"
    unfolding channel_set_position_def Let_def
    by (rule links_follow_move) (use assms lo po in \<open>simp_all add: picture_ok_def\<close>)
  then show ?thesis
    using assms by (simp add: picture_ok_def channel_set_position_def Let_def inside_def node_ok_def)
qed

lemma picture_ok_move: "picture_ok S v \<Longrightarrow> picture_ok S (set_position e p v)"
  by (cases e; cases p) (simp_all add: picture_ok_set_position picture_ok_channel_position)

lemma set_position_fields [simp]:
  "vw_selected (set_position e p v) = vw_selected v" "vw_mode (set_position e p v) = vw_mode v"
  "vw_interest (set_position e p v) = vw_interest v" "vw_drag (set_position e p v) = vw_drag v"
  "vw_follow (set_position e p v) = vw_follow v" "vw_registry (set_position e p v) = vw_registry v"
  "vw_window (set_position e p v) = vw_window v"
  by (cases e; cases p; simp add: node_set_position_def channel_set_position_def Let_def)+

text \<open>\<open>update_appearance\<close> after a change of fields that leaves position and links alone.\<close>

lemma node_set_position_fields [simp]:
  "vw_selected (node_set_position i x y v) = vw_selected v" "vw_mode (node_set_position i x y v) = vw_mode v"
  "vw_interest (node_set_position i x y v) = vw_interest v" "vw_drag (node_set_position i x y v) = vw_drag v"
  "vw_follow (node_set_position i x y v) = vw_follow v" "vw_registry (node_set_position i x y v) = vw_registry v"
  "vw_window (node_set_position i x y v) = vw_window v"
  using set_position_fields [of "Node_End i" "(x, y)" v] by simp_all

lemma update_appearance_fields [simp]:
  "vw_selected (update_appearance i v) = vw_selected v" "vw_mode (update_appearance i v) = vw_mode v"
  "vw_interest (update_appearance i v) = vw_interest v" "vw_drag (update_appearance i v) = vw_drag v"
  "vw_follow (update_appearance i v) = vw_follow v" "vw_registry (update_appearance i v) = vw_registry v"
  "vw_window (update_appearance i v) = vw_window v"
  by (simp_all add: update_appearance_def update_position_def Let_def split: option.splits prod.splits)

lemma picture_ok_label:
  "picture_ok S v \<Longrightarrow> picture_ok S (update_position i (upd_node i (put_label t) v))"
  by (auto simp: update_position_def node_ok_def shown_same_look split: option.splits
      intro!: picture_ok_set_position picture_ok_upd_node)

lemma picture_ok_setter:
  assumes "picture_ok S v"
    and "\<And>n. vn_links (f n) = vn_links n \<and> vn_x (f n) = vn_x n \<and> vn_y (f n) = vn_y n"
    and "\<And>n. vn_selected n = (i \<in> S) \<Longrightarrow> vn_selected (f n) = (i \<in> T)" "\<And>j. j \<noteq> i \<Longrightarrow> j \<in> T \<longleftrightarrow> j \<in> S"
  shows "picture_ok T (update_appearance i (upd_node i f v))"
proof -
  have e: "upd_node i node_appearance (upd_node i f v) = upd_node i (\<lambda>n. node_appearance (f n)) v"
    by (auto simp: upd_node_def dict_upd_def comp_def split: prod.splits)
  have "picture_ok T (upd_node i (\<lambda>n. node_appearance (f n)) v)"
    by (rule picture_ok_upd_node [OF assms(1)]) (use assms(2-4) in \<open>auto simp: node_ok_def\<close>)
  then show ?thesis
    by (auto simp: update_appearance_def e Let_def picture_ok_label split: option.splits)
qed

lemma picture_ok_setters:
  assumes "picture_ok S v"
  shows "picture_ok S (set_highlighted i b v)" "picture_ok S (set_size i z v)" "picture_ok S (set_color gdk i c v)"
    "picture_ok (if b then insert i S else S - {i}) (set_selected i b v)"
  unfolding set_highlighted_def set_size_def set_color_def set_selected_def
  using assms by (auto intro!: picture_ok_setter [of S])

lemma picture_ok_set_label: "set_label py i t v = Inr u \<Longrightarrow> picture_ok S v \<Longrightarrow> picture_ok S u"
  by (auto simp: set_label_def split: if_splits intro!: picture_ok_setter [of S])

lemma picture_ok_icon:
  "set_svg_icon av h i f wd ht ax ay v = Inr u \<Longrightarrow> picture_ok S v \<Longrightarrow> picture_ok S u"
  by (auto simp: set_svg_icon_def res_bind_eq_Inr split: if_splits option.splits intro!: picture_ok_setter [of S])

lemma picture_ok_node_size: "picture_ok S v \<Longrightarrow> picture_ok S (node_size_changed z v)"
proof -
  have "picture_ok S v \<Longrightarrow> picture_ok S (fold (\<lambda>i. set_size i z) is v)" for "is"
    by (induction "is" arbitrary: v) (simp_all add: picture_ok_setters)
  then show "picture_ok S v \<Longrightarrow> picture_ok S (node_size_changed z v)" by (simp add: node_size_changed_def)
qed

lemma shown_new_node [simp]: "shown new_node" "vn_links new_node = []" "vn_x new_node = 0" "vn_y new_node = 0"
  "\<not> vn_selected new_node" "vn_has_mobility new_node = None"
  by (simp_all add: new_node_def)

text \<open>A new object has no links, and no link has it as an end.\<close>

lemma links_follow_new:
  assumes "linked v" "links_follow v" "vw_links u = vw_links v"
    and "\<And>d. d \<noteq> e \<Longrightarrow> links_of d u = links_of d v \<and> position_of d u = position_of d v" "links_of e v = []"
  shows "linked u \<and> links_follow u"
proof
  have ne: "\<not> touches k e" if k: "k \<in> set (vw_links v)" for k
  proof
    obtain l where "l < length (vw_links v)" "k = vw_links v ! l" using k by (auto simp: in_set_conv_nth)
    moreover assume "touches k e"
    ultimately have "l \<in> set (links_of e v)" using assms(1) by (simp add: linked_def)
    then show False using assms(5) by simp
  qed
  have "links_of d v = links_of d u" if "touches k d" "k \<in> set (vw_links v)" for d k
    using ne that assms(4) by metis
  then show "linked u" using assms(1,3) by (auto simp: linked_def)
  show "links_follow u"
    unfolding links_follow_def
  proof
    fix k assume k: "k \<in> set (vw_links u)"
    then have n: "\<not> touches k e" using ne assms(3) by simp
    then have "drawn_right u k = drawn_right v k"
      by (intro drawn_right_cong) (use assms(4) in \<open>auto simp: touches_def\<close>)
    then show "drawn_right u k" using assms(2,3) k by (simp add: links_follow_def)
  qed
qed

lemma get_node_fields [simp]:
  "vw_selected (get_node i v) = vw_selected v" "vw_mode (get_node i v) = vw_mode v" "vw_bounds (get_node i v) = vw_bounds v"
  "vw_interest (get_node i v) = vw_interest v" "vw_drag (get_node i v) = vw_drag v" "vw_links (get_node i v) = vw_links v"
  "vw_follow (get_node i v) = vw_follow v" "vw_registry (get_node i v) = vw_registry v"
  "vw_window (get_node i v) = vw_window v" "vw_channels (get_node i v) = vw_channels v"
  "node (get_node i v) = (node v)(i := Some (case node v i of None \<Rightarrow> new_node | Some n \<Rightarrow> n))"
  by (auto simp: get_node_def fun_eq_iff split: option.splits)

lemma get_channel_fields [simp]:
  "vw_selected (get_channel i v) = vw_selected v" "vw_mode (get_channel i v) = vw_mode v" "vw_bounds (get_channel i v) = vw_bounds v"
  "vw_interest (get_channel i v) = vw_interest v" "vw_drag (get_channel i v) = vw_drag v" "vw_links (get_channel i v) = vw_links v"
  "vw_follow (get_channel i v) = vw_follow v" "vw_registry (get_channel i v) = vw_registry v"
  "vw_window (get_channel i v) = vw_window v" "vw_nodes (get_channel i v) = vw_nodes v"
  "channel (get_channel i v) = (channel v)(i := Some (case channel v i of None \<Rightarrow> \<lparr>vc_links = [], vc_x = 0, vc_y = 0\<rparr> | Some n \<Rightarrow> n))"
  by (auto simp: get_channel_def fun_eq_iff split: option.splits)

lemma picture_ok_get_node:
  assumes "picture_ok S v" "i \<notin> S \<or> node v i \<noteq> None"
  shows "picture_ok S (get_node i v)"
proof (cases "node v i")
  case None
  have "linked (get_node i v) \<and> links_follow (get_node i v)"
  proof (rule links_follow_new)
    show "links_of d (get_node i v) = links_of d v \<and> position_of d (get_node i v) = position_of d v" if "d \<noteq> Node_End i" for d
      using that by (cases d) (auto simp: links_of.simps position_of.simps)
  qed (use assms None in \<open>simp_all add: picture_ok_def links_of.simps\<close>)
  then show ?thesis
    using assms None by (auto simp: picture_ok_def node_ok_def inside_def split: if_splits option.splits)
qed (use assms in \<open>simp add: get_node_def\<close>)

lemma picture_ok_get_channel:
  assumes "picture_ok S v"
  shows "picture_ok S (get_channel c v)"
proof (cases "channel v c")
  case None
  have "linked (get_channel c v) \<and> links_follow (get_channel c v)"
  proof (rule links_follow_new)
    show "links_of d (get_channel c v) = links_of d v \<and> position_of d (get_channel c v) = position_of d v" if "d \<noteq> Channel_End c" for d
      using that by (cases d) (auto simp: links_of.simps position_of.simps)
  qed (use assms None in \<open>simp_all add: picture_ok_def links_of.simps\<close>)
  then show ?thesis using assms by (simp add: picture_ok_def node_ok_def inside_def)
qed (use assms in \<open>simp add: get_channel_def\<close>)

text \<open>A new link is in the list of both its ends and not yet drawn.\<close>

lemma append_link_fields [simp]:
  "vw_links (append_link e l v) = vw_links v" "vw_bounds (append_link e l v) = vw_bounds v"
  "vw_selected (append_link e l v) = vw_selected v" "vw_mode (append_link e l v) = vw_mode v"
  "vw_interest (append_link e l v) = vw_interest v" "vw_drag (append_link e l v) = vw_drag v"
  "vw_follow (append_link e l v) = vw_follow v" "vw_registry (append_link e l v) = vw_registry v"
  "vw_window (append_link e l v) = vw_window v" "position_of d (append_link e l v) = position_of d v"
  "set (links_of d (append_link e l v)) = set (links_of d v) \<union> (if d = e \<and> position_of e v \<noteq> None then {l} else {})"
  by (cases e; cases d; auto simp: position_of.simps links_of.simps map_option_case split: option.splits)+

declare append_link.simps [simp del]

lemma append_link_node:
  "node (append_link e l v) i = map_option (\<lambda>n. n\<lparr>vn_links := vn_links n @ (if e = Node_End i then [l] else [])\<rparr>) (node v i)"
  by (cases e) (auto simp: append_link.simps option.map_ident map_option_case split: option.splits)

lemma picture_ok_create_link:
  assumes "picture_ok S v" "position_of (Node_End i) v \<noteq> None" "position_of e v \<noteq> None"
  shows "picture_ok S (create_link i e v)"
proof -
  let ?u = "v\<lparr>vw_links := vw_links v @ [\<lparr>wl_node1 = i, wl_node2 = e, wl_data = None\<rparr>]\<rparr>"
  let ?w = "create_link i e v"
  have w: "?w = append_link e (length (vw_links v)) (append_link (Node_End i) (length (vw_links v)) ?u)"
    by (simp add: create_link_def Let_def)
  have p: "position_of d ?u = position_of d v" "links_of d ?u = links_of d v" for d
    by (cases d; simp add: position_of.simps links_of.simps)+
  have links: "set (links_of d ?w) = set (links_of d v) \<union> (if d = Node_End i \<or> d = e then {length (vw_links v)} else {})" for d
    using assms(2,3) by (auto simp: w p)
  have wl: "vw_links ?w = vw_links v @ [\<lparr>wl_node1 = i, wl_node2 = e, wl_data = None\<rparr>]" by (simp add: w)
  have "linked ?w"
    unfolding linked_def
  proof (intro allI impI)
    fix l d assume l: "l < length (vw_links ?w)" "touches (vw_links ?w ! l) d"
    show "l \<in> set (links_of d ?w)"
    proof (cases "l < length (vw_links v)")
      case True
      then have "l \<in> set (links_of d v)" using l assms(1) by (simp add: wl nth_append picture_ok_def linked_def)
      then show ?thesis by (simp only: links) simp
    next
      case False
      then have "l = length (vw_links v)" "d = Node_End i \<or> d = e" using l by (auto simp: wl nth_append touches_def)
      then show ?thesis by (simp only: links) simp
    qed
  qed
  moreover have pos: "position_of d ?w = position_of d v" for d by (simp add: w p)
  moreover have "links_follow ?w"
  proof -
    have "drawn_right ?w k = drawn_right v k" for k by (rule drawn_right_cong) (simp_all add: pos)
    then show ?thesis
      using assms(1) by (simp add: links_follow_def picture_ok_def) (simp add: w drawn_right_def)
  qed
  moreover have "node_ok S ?w j n \<and> inside (vn_x n) (vn_y n) ?w" if n: "node ?w j = Some n" for j n
  proof -
    obtain m ls where "node v j = Some m" "n = m\<lparr>vn_links := ls\<rparr>"
      using n by (auto simp: w append_link_node)
    then show ?thesis
      using picture_ok_node [OF assms(1)] by (fastforce simp: node_ok_def shown_same_look inside_def w)
  qed
  moreover have "inside 0 0 ?w" using assms(1) by (simp add: picture_ok_def inside_def w)
  ultimately show ?thesis by (simp add: picture_ok_def)
qed

end
