(* ===== verification/Viz_Scan.thy ===== *)
theory Viz_Scan
  imports Viz_Follow
begin

text \<open>
  The scan of the topology: which links it creates, where it puts the nodes, and that it ends
  without an exception.
\<close>

section \<open>What the scan adds\<close>

definition ends :: "view \<Rightarrow> (nat \<times> endpoint) list" where
  "ends v = map (\<lambda>k. (wl_node1 k, wl_node2 k)) (vw_links v)"

text \<open>What the nodes remember of their mobility agrees with the network.\<close>

definition mobile :: "network \<Rightarrow> nat \<Rightarrow> bool" where
  "mobile t i \<longleftrightarrow> nt_position t i \<noteq> None"

definition remembered :: "view \<Rightarrow> nat \<Rightarrow> bool option" where
  "remembered v i = Option.bind (node v i) vn_has_mobility"

definition cache_ok :: "network \<Rightarrow> view \<Rightarrow> bool" where
  "cache_ok t v \<longleftrightarrow> (\<forall>i. remembered v i = None \<or> remembered v i = Some (mobile t i))"

lemma remembered_simps [simp]:
  "remembered (get_node i v) = remembered v" "remembered (get_channel c v) = remembered v"
  "remembered (v\<lparr>vw_registry := r\<rparr>) = remembered v" "remembered (create_link k e v) = remembered v"
  by (auto simp: remembered_def fun_eq_iff create_link_def Let_def append_link_node map_option_case split: option.splits)

lemma remembered_has_mobility:
  "remembered (snd (has_mobility t j v)) k =
     (if k = j \<and> node v j \<noteq> None \<and> remembered v j = None then Some (mobile t j) else remembered v k)"
  by (cases "node v j") (auto simp: remembered_def has_mobility_def mobile_def Let_def split: option.splits)

definition choice :: "view \<Rightarrow> nat option \<times> transmissions_mode \<times> nat list" where
  "choice v = (vw_selected v, vw_mode v, vw_interest v)"

text \<open>The view \<open>u\<close> has the links \<open>ls\<close> more than \<open>v\<close>, and nothing of \<open>v\<close> moved.\<close>

definition extends :: "network \<Rightarrow> (nat \<times> endpoint) list \<Rightarrow> view \<Rightarrow> view \<Rightarrow> bool" where
  "extends t ls v u \<longleftrightarrow> (\<forall>d p. position_of d v = Some p \<longrightarrow> position_of d u = Some p) \<and>
     (cache_ok t v \<longrightarrow> cache_ok t u) \<and> trait_of (vw_registry u) = trait_of (vw_registry v) \<and>
     ends u = ends v @ ls \<and> choice u = choice v \<and> (picture_ok {} v \<longrightarrow> picture_ok {} u)"

lemma extends_refl [intro]: "extends t [] v v"
  by (simp add: extends_def)

lemma extends_trans [trans]: "extends t ls v u \<Longrightarrow> extends t ms u w \<Longrightarrow> extends t (ls @ ms) v w"
  by (simp add: extends_def)

lemma extends_Nil_trans: "extends t [] v u \<Longrightarrow> extends t ms u w \<Longrightarrow> extends t ms v w"
  using extends_trans [of t "[]" v u ms w] by simp

lemma extends_exists: "extends t ls v u \<Longrightarrow> position_of d v \<noteq> None \<Longrightarrow> position_of d u \<noteq> None"
  by (auto simp: extends_def)

lemma position_of_node: "position_of (Node_End i) v \<noteq> None \<longleftrightarrow> node v i \<noteq> None"
  by (simp add: position_of.simps)

lemma position_of_channel: "position_of (Channel_End c) v \<noteq> None \<longleftrightarrow> channel v c \<noteq> None"
  by (simp add: position_of.simps)

lemma extends_get_node: "extends t [] v (get_node i v)" "position_of (Node_End i) (get_node i v) \<noteq> None"
proof -
  have p: "position_of d v = Some p \<Longrightarrow> position_of d (get_node i v) = Some p" for d p
    by (cases d) (auto simp: position_of.simps split: option.splits)
  show "extends t [] v (get_node i v)"
    using p picture_ok_get_node [of "{}" v i] by (auto simp: extends_def ends_def choice_def cache_ok_def)
  show "position_of (Node_End i) (get_node i v) \<noteq> None" by (simp add: position_of.simps)
qed

lemma extends_get_channel: "extends t [] v (get_channel c v)" "position_of (Channel_End c) (get_channel c v) \<noteq> None"
proof -
  have p: "position_of d v = Some p \<Longrightarrow> position_of d (get_channel c v) = Some p" for d p
    by (cases d) (auto simp: position_of.simps split: option.splits)
  show "extends t [] v (get_channel c v)"
    using p picture_ok_get_channel [of "{}" v c] by (auto simp: extends_def ends_def choice_def cache_ok_def)
  show "position_of (Channel_End c) (get_channel c v) \<noteq> None" by (simp add: position_of.simps)
qed

lemma extends_create_link:
  assumes "position_of (Node_End i) v \<noteq> None" "position_of e v \<noteq> None"
  shows "extends t [(i, e)] v (create_link i e v)"
proof -
  have p: "position_of d (create_link i e v) = position_of d v" for d
    by (simp add: create_link_def Let_def) (cases d; simp add: position_of.simps)
  have "cache_ok t (create_link i e v)" if "cache_ok t v"
    using that by (simp add: cache_ok_def)
  then show ?thesis
    using picture_ok_create_link [of "{}" v i e] assms p
    by (auto simp: extends_def ends_def choice_def create_link_def Let_def)
qed

lemma extends_has_mobility:
  "extends t [] v (snd (has_mobility t j v))" "cache_ok t v \<Longrightarrow> fst (has_mobility t j v) \<longleftrightarrow> mobile t j"
proof -
  have p: "same_picture v (snd (has_mobility t j v))"
    by (auto simp: has_mobility_def Let_def split: option.splits intro!: same_picture_upd_node) (simp add: same_picture_def)
  have "picture_ok {} (snd (has_mobility t j v))" if "picture_ok {} v"
    using that
    by (auto simp: has_mobility_def Let_def node_ok_def shown_same_look split: option.splits intro!: picture_ok_upd_node)
  then show "extends t [] v (snd (has_mobility t j v))"
    using p by (auto simp: extends_def same_picture_def ends_def choice_def cache_ok_def remembered_has_mobility)
      (simp_all add: has_mobility_def Let_def split: option.splits)
  show "fst (has_mobility t j v) \<longleftrightarrow> mobile t j" if "cache_ok t v"
  proof (cases "remembered v j")
    case None
    then show ?thesis by (simp add: has_mobility_def remembered_def mobile_def Let_def)
  next
    case (Some b)
    then have "b = mobile t j" using that unfolding cache_ok_def by (metis option.distinct(1) option.inject)
    then show ?thesis using Some by (simp add: has_mobility_def remembered_def)
  qed
qed

lemma node_name_inject [simp]: "node_name i = node_name j \<longleftrightarrow> i = j" "channel_name c = channel_name d \<longleftrightarrow> c = d"
  "node_name i \<noteq> channel_name c" "channel_name c \<noteq> node_name i"
  by (auto simp: node_name_def channel_name_def)

text \<open>Every name of the graph is that of a node without mobility or of a channel of the view.\<close>

inductive named :: "network \<Rightarrow> view \<Rightarrow> string \<Rightarrow> endpoint \<Rightarrow> bool" for t v where
  "nt_position t i = None \<Longrightarrow> position_of (Node_End i) v \<noteq> None \<Longrightarrow> named t v (node_name i) (Node_End i)"
| "position_of (Channel_End c) v \<noteq> None \<Longrightarrow> named t v (channel_name c) (Channel_End c)"

inductive_simps named_node [simp]: "named t v a (Node_End i)"
inductive_simps named_channel [simp]: "named t v a (Channel_End c)"

definition graph_ok :: "network \<Rightarrow> view \<Rightarrow> layout_graph \<Rightarrow> bool" where
  "graph_ok t v g \<longleftrightarrow> distinct (gr_nodes g) \<and> (\<forall>a \<in> set (gr_nodes g). \<exists>e. named t v a e)"

lemma named_extends: "named t v a e \<Longrightarrow> extends t ls v u \<Longrightarrow> named t u a e"
  by (cases e) (auto simp: extends_def)

lemma graph_ok_extends: "graph_ok t v g \<Longrightarrow> extends t ls v u \<Longrightarrow> graph_ok t u g"
  unfolding graph_ok_def using named_extends by metis

lemma add_node_nodes [simp]: "set (gr_nodes (add_node a g)) = insert a (set (gr_nodes g))"
  "distinct (gr_nodes (add_node a g)) = distinct (gr_nodes g)"
  by (auto simp: add_node_def)

lemma add_edge_nodes [simp]: "set (gr_nodes (add_edge a b g)) = insert a (insert b (set (gr_nodes g)))"
  "distinct (gr_nodes (add_edge a b g)) = distinct (gr_nodes g)"
  by (auto simp: add_edge_def Let_def)

lemma graph_ok_add:
  "graph_ok t v g \<Longrightarrow> named t v a d \<Longrightarrow> graph_ok t v (add_node a g)"
  "graph_ok t v g \<Longrightarrow> named t v a d \<Longrightarrow> named t v b e \<Longrightarrow> graph_ok t v (add_edge a b g)"
  by (auto simp: graph_ok_def)

text \<open>One step of the scan, with the links it is to create.\<close>

definition scan_ok :: "network \<Rightarrow> (nat \<times> endpoint) list \<Rightarrow> view \<times> layout_graph \<Rightarrow> view \<times> layout_graph \<Rightarrow> bool" where
  "scan_ok t ls vg uh \<longleftrightarrow> extends t ls (fst vg) (fst uh) \<and> set (gr_nodes (snd vg)) \<subseteq> set (gr_nodes (snd uh)) \<and>
     (cache_ok t (fst vg) \<and> graph_ok t (fst vg) (snd vg) \<longrightarrow> cache_ok t (fst uh) \<and> graph_ok t (fst uh) (snd uh))"

lemma scan_ok_refl [intro]: "scan_ok t [] vg vg"
  by (auto simp: scan_ok_def)

lemma scan_ok_trans: "scan_ok t ls a b \<Longrightarrow> scan_ok t ms b c \<Longrightarrow> scan_ok t (ls @ ms) a c"
  unfolding scan_ok_def using extends_trans by blast

definition other_links :: "nat \<Rightarrow> nat \<Rightarrow> (nat \<times> endpoint) list" where
  "other_links i j = (if j = i then [] else [(i, Node_End j)])"

lemma scan_other_ok:
  assumes "position_of (Node_End i) (fst vg) \<noteq> None"
  shows "scan_ok t (other_links i j) vg (scan_other t i j vg)"
proof (cases "j = i")
  case True
  then show ?thesis
    using extends_get_node(1) [of t "fst vg" j] graph_ok_extends [of t "fst vg" "snd vg" "[]" "get_node j (fst vg)"]
    by (auto simp: scan_other_def scan_ok_def other_links_def extends_def split: prod.splits)
next
  case False
  obtain v g where vg: "vg = (v, g)" by (cases vg)
  let ?v1 = "get_node j v"
  obtain b v2 where m: "has_mobility t j ?v1 = (b, v2)" by fastforce
  have e1: "extends t [] v ?v1" "position_of (Node_End j) ?v1 \<noteq> None" by (rule extends_get_node)+
  have e2: "extends t [] ?v1 v2" using extends_has_mobility(1) [of t ?v1 j] m by simp
  define v3 where "v3 = (if nt_position t i = None then v2 else ?v1)"
  have e3: "extends t [] v v3" "position_of (Node_End j) v3 \<noteq> None"
    using e1 e2 extends_Nil_trans [OF e1(1) e2] extends_exists [OF e2 e1(2)] by (simp_all add: v3_def)
  have e4: "extends t [] v (get_node i v3)" "position_of (Node_End j) (get_node i v3) \<noteq> None"
    "position_of (Node_End i) (get_node i v3) \<noteq> None"
    using extends_Nil_trans [OF e3(1) extends_get_node(1)] extends_exists [OF extends_get_node(1) e3(2)] extends_get_node(2)
    by blast+
  let ?u = "create_link i (Node_End j) (get_node i v3)"
  have e5: "extends t [(i, Node_End j)] v ?u"
    using extends_Nil_trans [OF e4(1) extends_create_link [OF e4(3,2)]] .
  define h where "h = (if nt_position t i = None \<and> \<not> b then add_edge (node_name i) (node_name j) g else g)"
  have r: "scan_other t i j (v, g) = (?u, h)"
    using False by (auto simp: scan_other_def vg m v3_def h_def)
  have "graph_ok t ?u h" if c: "cache_ok t v" "graph_ok t v g"
  proof -
    have g: "graph_ok t ?u g" using graph_ok_extends [OF c(2) e5] .
    have "cache_ok t ?v1" using c e1 by (simp add: extends_def)
    then have "\<not> b \<Longrightarrow> nt_position t j = None" using extends_has_mobility(2) [of t ?v1 j] m by (cases "nt_position t j") (auto simp: mobile_def)
    moreover have "position_of (Node_End i) ?u \<noteq> None" "position_of (Node_End j) ?u \<noteq> None"
      using extends_exists [OF extends_create_link [OF e4(3,2)]] e4 by blast+
    ultimately show ?thesis
      using graph_ok_add(2) [OF g, of "node_name i" "Node_End i" "node_name j" "Node_End j"] g by (auto simp: h_def)
  qed
  then show ?thesis
    using e5 False by (auto simp: scan_ok_def r vg other_links_def extends_def h_def)
qed

lemma scan_others_ok:
  "position_of (Node_End i) (fst vg) \<noteq> None \<Longrightarrow>
   scan_ok t (concat (map (other_links i) js)) vg (fold (scan_other t i) js vg)"
proof (induction js arbitrary: vg)
  case (Cons j js)
  have s: "scan_ok t (other_links i j) vg (scan_other t i j vg)" by (rule scan_other_ok [OF Cons.prems])
  then have "position_of (Node_End i) (fst (scan_other t i j vg)) \<noteq> None"
    using Cons.prems extends_exists by (auto simp: scan_ok_def)
  from scan_ok_trans [OF s Cons.IH [OF this]] show ?case by simp
qed auto

text \<open>The links of a channel: to a symbol of the channel when it has more than two devices.\<close>

definition channel_links :: "network \<Rightarrow> nat \<Rightarrow> nat \<Rightarrow> (nat \<times> endpoint) list" where
  "channel_links t i c =
     (if length (nt_members t c) > 2 then [(i, Channel_End c)] else concat (map (other_links i) (nt_members t c)))"

lemma scan_channel_ok:
  assumes "position_of (Node_End i) (fst vg) \<noteq> None"
  shows "scan_ok t (channel_links t i c) vg (scan_channel t i c vg)"
proof (cases "length (nt_members t c) > 2")
  case True
  obtain v g where vg: "vg = (v, g)" by (cases vg)
  let ?v1 = "get_channel c (get_node i (get_channel c v))"
  define h where "h = (if nt_position t i = None then add_edge (node_name i) (channel_name c) g else g)"
  have e1: "extends t [] v ?v1"
    using extends_Nil_trans [OF extends_get_channel(1) extends_Nil_trans [OF extends_get_node(1) extends_get_channel(1)]] .
  have ex: "position_of (Node_End i) ?v1 \<noteq> None" "position_of (Channel_End c) ?v1 \<noteq> None"
    using extends_exists [OF e1] assms extends_get_channel(2) by (auto simp: vg)
  have e2: "extends t [(i, Channel_End c)] ?v1 (create_link i (Channel_End c) ?v1)"
    by (rule extends_create_link [OF ex])
  let ?u = "create_link i (Channel_End c) ?v1"
  have e3: "extends t [(i, Channel_End c)] v ?u" by (rule extends_Nil_trans [OF e1 e2])
  have r: "scan_channel t i c (v, g) = (?u, h)"
    using True by (simp add: scan_channel_def REPRESENT_CHANNELS_AS_NODES_def vg h_def)
  have "graph_ok t ?u h" if "graph_ok t v g"
    using graph_ok_extends [OF that e3] extends_exists [OF e2] ex
      graph_ok_add(2) [of t ?u g "node_name i" "Node_End i" "channel_name c" "Channel_End c"] by (auto simp: h_def)
  then show ?thesis
    using e3 True by (auto simp: scan_ok_def r vg channel_links_def extends_def h_def)
next
  case False
  then show ?thesis
    using scan_others_ok [OF assms] by (simp add: scan_channel_def channel_links_def)
qed

definition wired_device :: "traits_table \<Rightarrow> device \<Rightarrow> bool" where
  "wired_device r d \<longleftrightarrow> tr_wireless (trait_of r (dv_type d)) \<noteq> Some True \<and> \<not> tr_virtual (trait_of r (dv_type d))"

definition device_links :: "traits_table \<Rightarrow> network \<Rightarrow> nat \<Rightarrow> device \<Rightarrow> (nat \<times> endpoint) list" where
  "device_links r t i d =
     (if wired_device r d then (case dv_channel d of None \<Rightarrow> [] | Some c \<Rightarrow> channel_links t i c) else [])"

lemma registry_extends: "trait_of r = trait_of (vw_registry v) \<Longrightarrow> extends t [] v (v\<lparr>vw_registry := r\<rparr>)"
proof -
  have p: "position_of d (v\<lparr>vw_registry := r\<rparr>) = position_of d v" for d by (cases d) (simp_all add: position_of.simps)
  assume "trait_of r = trait_of (vw_registry v)"
  then show ?thesis
    using picture_ok_fields [of "{}" v "v\<lparr>vw_registry := r\<rparr>"] by (simp add: extends_def p ends_def choice_def cache_ok_def)
qed

lemma scan_device_ok:
  assumes "position_of (Node_End i) (fst vg) \<noteq> None" "wired_device (vw_registry (fst vg)) d \<Longrightarrow> dv_channel d \<noteq> None"
  shows "\<exists>uh. scan_device t i d vg = Inr uh \<and> scan_ok t (device_links (vw_registry (fst vg)) t i d) vg uh"
proof -
  obtain v g where vg: "vg = (v, g)" by (cases vg)
  obtain tr r where l: "lookup_netdevice_traits (dv_type d) (vw_registry v) = (tr, r)" by fastforce
  have tr: "tr = trait_of (vw_registry v) (dv_type d)" "trait_of r = trait_of (vw_registry v)"
    using lookup_trait [of "dv_type d" "vw_registry v"] lookup_keeps_traits [of "dv_type d" "vw_registry v"] l by simp_all
  let ?v = "v\<lparr>vw_registry := r\<rparr>"
  have e: "extends t [] v ?v" by (rule registry_extends [OF tr(2)])
  then have s: "scan_ok t [] vg (?v, g)"
    using graph_ok_extends by (auto simp: scan_ok_def vg extends_def)
  show ?thesis
  proof (cases "wired_device (vw_registry v) d")
    case False
    then show ?thesis using s tr by (auto simp: scan_device_def vg l device_links_def wired_device_def)
  next
    case True
    then obtain c where c: "dv_channel d = Some c" using assms(2) by (auto simp: vg)
    have "scan_ok t (channel_links t i c) (?v, g) (scan_channel t i c (?v, g))"
      by (rule scan_channel_ok) (use extends_exists [OF e] assms(1) vg in auto)
    from scan_ok_trans [OF s this] show ?thesis
      using True tr c by (auto simp: scan_device_def vg l device_links_def wired_device_def)
  qed
qed

lemma scan_devices_ok:
  assumes "position_of (Node_End i) (fst vg) \<noteq> None" "\<And>d. d \<in> set ds \<Longrightarrow> wired_device (vw_registry (fst vg)) d \<Longrightarrow> dv_channel d \<noteq> None"
  shows "\<exists>uh. fold_res (scan_device t i) ds vg = Inr uh \<and>
    scan_ok t (concat (map (device_links (vw_registry (fst vg)) t i) ds)) vg uh"
  using assms
proof (induction ds arbitrary: vg)
  case (Cons d ds)
  obtain uh where u: "scan_device t i d vg = Inr uh" "scan_ok t (device_links (vw_registry (fst vg)) t i d) vg uh"
    using scan_device_ok [of i vg d t] Cons.prems by auto
  have tr: "trait_of (vw_registry (fst uh)) = trait_of (vw_registry (fst vg))" "position_of (Node_End i) (fst uh) \<noteq> None"
    using u(2) Cons.prems(1) extends_exists by (auto simp: scan_ok_def extends_def)
  have w: "wired_device (vw_registry (fst uh)) = wired_device (vw_registry (fst vg))"
    "device_links (vw_registry (fst uh)) t i = device_links (vw_registry (fst vg)) t i"
    by (auto simp: fun_eq_iff wired_device_def device_links_def tr)
  obtain wh where "fold_res (scan_device t i) ds uh = Inr wh"
    "scan_ok t (concat (map (device_links (vw_registry (fst uh)) t i) ds)) uh wh"
    using Cons.IH [of uh] tr Cons.prems(2) by (auto simp: w)
  then show ?case using u scan_ok_trans [OF u(2)] by (auto simp: w)
qed auto

section \<open>The whole scan\<close>

definition node_links :: "traits_table \<Rightarrow> network \<Rightarrow> nat \<Rightarrow> (nat \<times> endpoint) list" where
  "node_links r t i = concat (map (device_links r t i) (nt_devices t i))"

text \<open>Where a node stands: at the place of its mobility model, or where it is put.\<close>

definition node_place :: "network \<Rightarrow> (string \<Rightarrow> rat \<times> rat) \<Rightarrow> nat \<Rightarrow> rat \<times> rat" where
  "node_place t pos i = (case nt_position t i of Some (x, y) \<Rightarrow> (3 * x, 3 * y) | None \<Rightarrow> pos (node_name i))"

lemma position_of_set_position:
  assumes "position_of e v \<noteq> None"
  shows "position_of d (set_position e p v) = (if d = e then Some p else position_of d v)"
  using assms
  by (cases e; cases d; cases p)
     (auto simp: position_of.simps node_set_position_def channel_set_position_def Let_def)

lemma links_set_position [simp]:
  "ends (set_position e p v) = ends v" "remembered (set_position e p v) = remembered v"
proof -
  have l: "ends (fold update_points ls u) = ends u" for ls u
    by (auto simp: ends_def list_eq_iff_nth_eq fold_points_nth)
  have u: "ends (upd_node i f u) = ends u" "ends (upd_channel i' f' u) = ends u" "ends (grow_bounds x y u) = ends u" for i i' f f' x y u
    by (simp_all add: ends_def)
  show "ends (set_position e p v) = ends v"
    by (cases e; cases p; simp add: node_set_position_def channel_set_position_def Let_def l u)
  show "remembered (set_position e p v) = remembered v"
    by (cases e; cases p; auto simp: remembered_def fun_eq_iff node_set_position_def channel_set_position_def Let_def
        map_option_case split: option.splits)
qed

lemma node_set_position_links [simp]:
  "ends (node_set_position i x y v) = ends v" "remembered (node_set_position i x y v) = remembered v"
  using links_set_position [of "Node_End i" "(x, y)" v] by simp_all

lemma extends_set_color: "extends t [] v (set_color gdk i c v)"
proof -
  let ?u = "upd_node i node_appearance (upd_node i (\<lambda>n. n\<lparr>vn_color := color_value gdk c\<rparr>) v)"
  have "same_picture v (upd_node i (\<lambda>n. n\<lparr>vn_color := color_value gdk c\<rparr>) v)"
    "same_picture (upd_node i (\<lambda>n. n\<lparr>vn_color := color_value gdk c\<rparr>) v) ?u"
    by (rule same_picture_upd_node, simp)+
  moreover have ends_upd: "ends (upd_node j f w) = ends w" for j f w by (simp add: ends_def)
  ultimately have p: "position_of d ?u = position_of d v" "vw_links ?u = vw_links v" for d
    by (simp_all add: same_picture_def)
  have r: "remembered ?u = remembered v"
    by (auto simp: remembered_def fun_eq_iff map_option_case split: option.splits)
  have q: "position_of d (upd_node i (put_label s) w) = position_of d w" "remembered (upd_node i (put_label s) w) = remembered w"
    "ends (upd_node i (put_label s) w) = ends w" for d s w
    using same_picture_upd_node [of "put_label s" w i]
    by (auto simp: same_picture_def ends_def remembered_def fun_eq_iff map_option_case split: option.splits)
  have "position_of d (set_color gdk i c v) = position_of d v \<and> remembered (set_color gdk i c v) = remembered v \<and>
      ends (set_color gdk i c v) = ends v" for d
    using p r q position_of_set_position [of "Node_End i"] ends_upd
    by (auto simp: set_color_def update_appearance_def update_position_def Let_def split: option.splits)
  then show ?thesis
    using picture_ok_setters(3) [of "{}" v gdk i c] by (simp add: extends_def cache_ok_def) (simp add: set_color_def choice_def)
qed

text \<open>One round of the outer loop: the node is there, and a mobile node is at its place.\<close>

definition at_place :: "network \<Rightarrow> view \<Rightarrow> nat \<Rightarrow> bool" where
  "at_place t v i \<longleftrightarrow> position_of (Node_End i) v \<noteq> None \<and>
     (\<forall>x y. nt_position t i = Some (x, y) \<longrightarrow> position_of (Node_End i) v = Some (3 * x, 3 * y))"

definition scanned :: "network \<Rightarrow> traits_table \<Rightarrow> nat \<Rightarrow> view \<times> layout_graph \<Rightarrow> bool" where
  "scanned t r m vg \<longleftrightarrow> cache_ok t (fst vg) \<and> graph_ok t (fst vg) (snd vg) \<and> picture_ok {} (fst vg) \<and>
     trait_of (vw_registry (fst vg)) = trait_of r \<and> ends (fst vg) = concat (map (node_links r t) [0..<m]) \<and>
     choice (fst vg) = (None, Show_All, [0..<nt_count t]) \<and>
     (\<forall>i<m. at_place t (fst vg) i \<and> (nt_position t i = None \<longrightarrow> node_name i \<in> set (gr_nodes (snd vg))))"

lemma at_place_extends: "at_place t v i \<Longrightarrow> extends t ls v u \<Longrightarrow> at_place t u i"
  using extends_exists [of t ls v u "Node_End i"] by (auto simp: at_place_def extends_def)

lemma scan_node_ok:
  assumes "scanned t r i vg" "\<And>d. d \<in> set (nt_devices t i) \<Longrightarrow> wired_device r d \<Longrightarrow> dv_channel d \<noteq> None"
  shows "\<exists>uh. scan_node gdk t i vg = Inr uh \<and> scanned t r (Suc i) uh"
proof -
  obtain v g where vg: "vg = (v, g)" by (cases vg)
  let ?v = "get_node i v"
  define h where "h = (if nt_position t i = None then add_node (node_name i) g else g)"
  define u where "u = (case nt_position t i of
      Some (x, y) \<Rightarrow> set_position (Node_End i) (transform_point_simulation_to_canvas x y) (set_color gdk i (Color_Name ''red'') ?v)
    | None \<Rightarrow> ?v)"
  have s: "cache_ok t v" "graph_ok t v g" "picture_ok {} v" "trait_of (vw_registry v) = trait_of r"
    "ends v = concat (map (node_links r t) [0..<i])" "choice v = (None, Show_All, [0..<nt_count t])"
    "\<And>j. j < i \<Longrightarrow> at_place t v j \<and> (nt_position t j = None \<longrightarrow> node_name j \<in> set (gr_nodes g))"
    using assms(1) by (auto simp: scanned_def vg)
  let ?c = "set_color gdk i (Color_Name ''red'') ?v"
  have e: "extends t [] v ?v" "extends t [] v ?c"
    using extends_get_node(1) extends_Nil_trans [OF extends_get_node(1) extends_set_color] by blast+
  have ex: "position_of (Node_End i) ?v \<noteq> None" "position_of (Node_End i) ?c \<noteq> None"
    using extends_get_node(2) extends_exists [OF extends_set_color] by blast+
  have pos: "position_of d u = (if d = Node_End i \<and> nt_position t i \<noteq> None then Some (fst (the (nt_position t i)) * 3, snd (the (nt_position t i)) * 3)
      else position_of d (if nt_position t i = None then ?v else ?c))" for d
    using position_of_set_position [OF ex(2)]
    by (auto simp: u_def transform_point_simulation_to_canvas_def PIXELS_PER_METER_def split: option.splits)
  have there: "position_of (Node_End i) u \<noteq> None" using ex pos [of "Node_End i"] by (auto split: if_splits)
  have u: "cache_ok t u" "picture_ok {} u" "trait_of (vw_registry u) = trait_of r" "ends u = ends v" "choice u = choice v"
    using e s(1,3,4) by (auto simp: u_def extends_def choice_def cache_ok_def picture_ok_move split: option.splits)
  have at: "at_place t u j" if "j \<le> i" for j
  proof (cases "j = i")
    case True
    then show ?thesis using there pos [of "Node_End i"] by (auto simp: at_place_def)
  next
    case False
    then have "at_place t (if nt_position t i = None then ?v else ?c) j"
      using s(7) [of j] that at_place_extends [OF _ e(1)] at_place_extends [OF _ e(2)] by auto
    moreover have "position_of (Node_End j) u = position_of (Node_End j) (if nt_position t i = None then ?v else ?c)"
      using pos [of "Node_End j"] False by auto
    ultimately show ?thesis by (auto simp: at_place_def)
  qed
  have named_u: "named t u a d" if "named t v a d" for a d
  proof -
    have n: "named t ?v a d" "named t ?c a d" using named_extends [OF that] e by blast+
    have "position_of d u \<noteq> None" if "position_of d ?v \<noteq> None" "position_of d ?c \<noteq> None"
      using that pos [of d] by (auto split: if_splits)
    then show ?thesis using n by (cases d) auto
  qed
  then have g: "graph_ok t u g" using s(2) unfolding graph_ok_def by meson
  have h: "graph_ok t u h"
    using g graph_ok_add(1) [OF g, of "node_name i" "Node_End i"] there by (auto simp: h_def)
  have reg: "wired_device (vw_registry u) = wired_device r" "device_links (vw_registry u) t i = device_links r t i"
    by (auto simp: fun_eq_iff wired_device_def device_links_def u)
  have start: "scan_node gdk t i vg = fold_res (scan_device t i) (nt_devices t i) (u, h)"
    by (simp add: scan_node_def vg u_def h_def split: option.splits)
  obtain uh where uh: "fold_res (scan_device t i) (nt_devices t i) (u, h) = Inr uh" "scan_ok t (node_links r t i) (u, h) uh"
    using scan_devices_ok [of i "(u, h)" "nt_devices t i" t] there assms(2) by (auto simp: reg node_links_def)
  have x: "extends t (node_links r t i) u (fst uh)" "set (gr_nodes h) \<subseteq> set (gr_nodes (snd uh))"
    "cache_ok t (fst uh)" "graph_ok t (fst uh) (snd uh)"
    using uh(2) u(1) h by (auto simp: scan_ok_def)
  have "scanned t r (Suc i) uh"
    unfolding scanned_def
  proof (intro conjI allI impI)
    show "picture_ok {} (fst uh)" "trait_of (vw_registry (fst uh)) = trait_of r"
      "ends (fst uh) = concat (map (node_links r t) [0..<Suc i])" "choice (fst uh) = (None, Show_All, [0..<nt_count t])"
      using x(1) u s(5,6) by (auto simp: extends_def)
    fix j assume j: "j < Suc i"
    then show "at_place t (fst uh) j" using at_place_extends [OF at x(1)] by simp
    assume "nt_position t j = None"
    then show "node_name j \<in> set (gr_nodes (snd uh))"
      using s(7) [of j] j x(2) by (cases "j = i") (auto simp: h_def split: if_splits)
  qed (use x in auto)
  then show ?thesis using uh start by auto
qed

lemma scan_nodes_ok:
  assumes "\<And>i d. i < m \<Longrightarrow> d \<in> set (nt_devices t i) \<Longrightarrow> wired_device r d \<Longrightarrow> dv_channel d \<noteq> None"
    and "scanned t r 0 vg"
  shows "\<exists>uh. fold_res (scan_node gdk t) [0..<m] vg = Inr uh \<and> scanned t r m uh"
  using assms(1)
proof (induction m)
  case 0
  then show ?case using assms(2) by simp
next
  case (Suc m)
  have app: "fold_res f (xs @ ys) s = res_bind (fold_res f xs s) (fold_res f ys)" for f :: "'a \<Rightarrow> 'b \<Rightarrow> 'b res" and xs ys s
  proof (induction xs arbitrary: s)
    case (Cons x xs)
    then show ?case by (cases "f x s") simp_all
  qed simp
  obtain uh where u: "fold_res (scan_node gdk t) [0..<m] vg = Inr uh" "scanned t r m uh"
    using Suc by (meson less_SucI)
  from scan_node_ok [OF u(2), of gdk] Suc.prems obtain wh where "scan_node gdk t m uh = Inr wh" "scanned t r (Suc m) wh"
    by (meson lessI)
  then show ?case using u by (simp add: app)
qed

text \<open>The layout places the named objects and no other.\<close>

lemma str_nat_no_blank: "CHR '' '' \<notin> set (str_nat n)"
  using str_nat_digits [of n] by (auto simp: list_all_iff is_digit_def)

lemma split_name [simp]:
  "split_on CHR '' '' (node_name i) = [''Node'', str_nat i]" "split_on CHR '' '' (channel_name i) = [''Channel'', str_nat i]"
proof -
  have e: "node_name i = join [CHR '' ''] [''Node'', str_nat i]" "channel_name i = join [CHR '' ''] [''Channel'', str_nat i]"
    by (simp_all add: node_name_def channel_name_def)
  show "split_on CHR '' '' (node_name i) = [''Node'', str_nat i]"
    unfolding e by (rule split_on_join) (use str_nat_no_blank in auto)
  show "split_on CHR '' '' (channel_name i) = [''Channel'', str_nat i]"
    unfolding e by (rule split_on_join) (use str_nat_no_blank in auto)
qed

lemma parse_int_str_nat [simp]: "parse_int (str_nat n) = Inr n"
  by (simp add: parse_int_def str_nat_digits)

lemma named_object_named: "named t v a e \<Longrightarrow> named_object v old a = Inr e"
  by (cases e) (auto simp: named_object_def position_of.simps)

lemma named_unique: "named t v a e \<Longrightarrow> named t u b e \<Longrightarrow> a = b" "named t v a e \<Longrightarrow> named t u a d \<Longrightarrow> e = d"
  by (cases e; cases d; auto)+

lemma place_all_ok:
  assumes "distinct as" "\<And>a. a \<in> set as \<Longrightarrow> \<exists>e. named t v a e" "picture_ok {} v"
  shows "\<exists>ov. fold_res (place_named pos) as (old, v) = Inr ov \<and> ends (snd ov) = ends v \<and> picture_ok {} (snd ov) \<and>
    choice (snd ov) = choice v \<and>
    (\<forall>d. position_of d (snd ov) = (if \<exists>a \<in> set as. named t v a d then Some (pos (THE a. named t v a d)) else position_of d v))"
  using assms
proof (induction as arbitrary: v old)
  case (Cons a as)
  obtain e where e: "named t v a e" using Cons.prems(2) by auto
  then have ex: "position_of e v \<noteq> None" by (cases e) auto
  let ?v = "set_position e (pos a) v"
  have p: "position_of d ?v = (if d = e then Some (pos a) else position_of d v)" for d
    by (rule position_of_set_position [OF ex])
  have n: "named t ?v b d \<longleftrightarrow> named t v b d" for b d
    using ex by (cases d) (auto simp: p split: if_splits)
  obtain ov where ov: "fold_res (place_named pos) as (Some e, ?v) = Inr ov" "ends (snd ov) = ends ?v" "picture_ok {} (snd ov)"
    "choice (snd ov) = choice ?v"
    "\<And>d. position_of d (snd ov) = (if \<exists>a \<in> set as. named t ?v a d then Some (pos (THE a. named t ?v a d)) else position_of d ?v)"
    using Cons.IH [of ?v "Some e"] Cons.prems picture_ok_move by (auto simp: n)
  have "position_of d (snd ov) =
      (if \<exists>b \<in> set (a # as). named t v b d then Some (pos (THE b. named t v b d)) else position_of d v)" for d
  proof (cases "d = e")
    case True
    then have "(THE b. named t v b d) = a" using e named_unique by blast
    moreover have "\<not> (\<exists>b \<in> set as. named t v b e)" using named_unique(1) [OF e] Cons.prems(1) by auto
    ultimately show ?thesis using True e by (simp add: ov(5) n p)
  next
    case False
    then have "\<not> named t v a d" using e named_unique(2) by blast
    then show ?thesis using False by (simp add: ov(5) n p)
  qed
  moreover have "place_named pos a (old, v) = Inr (Some e, ?v)"
    using named_object_named [OF e] by (simp add: place_named_def)
  ultimately show ?case using ov(1-4) by (auto simp: choice_def)
qed auto

lemma scan_topology_result:
  assumes "\<And>i d. i < nt_count t \<Longrightarrow> d \<in> set (nt_devices t i) \<Longrightarrow> wired_device (vw_registry (start_view t w)) d \<Longrightarrow> dv_channel d \<noteq> None"
  shows "\<exists>v g. scan_topology gdk layout t (start_view t w) = Inr v \<and>
    ends v = concat (map (node_links (vw_registry (start_view t w)) t) [0..<nt_count t]) \<and>
    (\<forall>i < nt_count t. position_of (Node_End i) v = Some (node_place t (layout g) i)) \<and> picture_ok {} v \<and>
    choice v = (None, Show_All, [0..<nt_count t])"
proof -
  let ?v = "start_view t w" and ?r = "vw_registry (start_view t w)" and ?g = "\<lparr>gr_nodes = [], gr_edges = []\<rparr>"
  have "scanned t ?r 0 (?v, ?g)"
    by (simp add: scanned_def cache_ok_def remembered_def graph_ok_def picture_ok_def linked_def links_follow_def inside_def
        ends_def choice_def start_view_def set_show_transmissions_mode_def)
  with assms have "\<exists>uh. fold_res (scan_node gdk t) [0..<nt_count t] (?v, ?g) = Inr uh \<and> scanned t ?r (nt_count t) uh"
    by (intro scan_nodes_ok) auto
  then obtain u g
    where u: "fold_res (scan_node gdk t) [0..<nt_count t] (?v, ?g) = Inr (u, g)" "scanned t ?r (nt_count t) (u, g)"
    by auto
  have u': "distinct (gr_nodes g)" "\<And>a. a \<in> set (gr_nodes g) \<Longrightarrow> \<exists>e. named t u a e" "picture_ok {} u"
    using u(2) by (auto simp: scanned_def graph_ok_def)
  obtain o' v where v: "fold_res (place_named (layout g)) (gr_nodes g) (None, u) = Inr (o', v)" "ends v = ends u" "picture_ok {} v" "choice v = choice u"
    "\<And>d. position_of d v = (if \<exists>a \<in> set (gr_nodes g). named t u a d then Some (layout g (THE a. named t u a d)) else position_of d u)"
    using place_all_ok [OF u', of "layout g" None] by auto
  have "position_of (Node_End i) v = Some (node_place t (layout g) i)" if i: "i < nt_count t" for i
  proof (cases "nt_position t i")
    case None
    then have "node_name i \<in> set (gr_nodes g)" "position_of (Node_End i) u \<noteq> None"
      using u(2) i by (auto simp: scanned_def at_place_def)
    moreover from this None have "(THE a. named t u a (Node_End i)) = node_name i" by auto
    ultimately show ?thesis using None by (auto simp: v(5) node_place_def)
  next
    case (Some p)
    then have "position_of (Node_End i) u = Some (3 * fst p, 3 * snd p)"
      using u(2) i by (cases p) (auto simp: scanned_def at_place_def)
    then show ?thesis using Some by (cases p) (simp add: v(5) node_place_def)
  qed
  moreover have "scan_topology gdk layout t ?v = Inr v"
    by (simp add: scan_topology_def u v)
  moreover have "ends v = concat (map (node_links ?r t) [0..<nt_count t])"
    using u(2) v(2) by (simp add: scanned_def)
  moreover have "choice v = (None, Show_All, [0..<nt_count t])"
    using u(2) v(4) by (simp add: scanned_def)
  ultimately show ?thesis using v(3) by blast
qed

text \<open>C9: scanning a network whose wired devices all have a channel ends without an exception.  The links
  are, node after node and device after device, those to the symbol of a channel with more than
  two devices, and to every other node of a channel with at most two; every node with a mobility
  model stands at its position, every other node where the layout put it.
\<close>

theorem scan_topology_spec:
  assumes "\<And>i d. i < nt_count t \<Longrightarrow> d \<in> set (nt_devices t i) \<Longrightarrow> wired_device (vw_registry (start_view t w)) d \<Longrightarrow> dv_channel d \<noteq> None"
  shows "\<exists>v g. scan_topology gdk layout t (start_view t w) = Inr v \<and>
    ends v = concat (map (node_links (vw_registry (start_view t w)) t) [0..<nt_count t]) \<and>
    (\<forall>i < nt_count t. position_of (Node_End i) v = Some (node_place t (layout g) i)) \<and> picture_ok {} v"
  using scan_topology_result [of t w gdk layout] assms by blast

text \<open>Two nodes with a point-to-point channel between them, one of them mobile.\<close>

definition two_nodes :: network where
  "two_nodes = \<lparr>nt_count = 2, nt_position = [0 \<mapsto> (1, 2)],
     nt_devices = (\<lambda>i. [\<lparr>dv_type = ''ns.point_to_point.PointToPointNetDevice'', dv_channel = Some 7\<rparr>,
       \<lparr>dv_type = ''ns.wifi.WifiNetDevice'', dv_channel = None\<rparr>]),
     nt_members = (\<lambda>c. [0, 1])\<rparr>"

definition test_window :: window where
  "test_window = \<lparr>wn_zoom = zoom_adjustment, wn_h = \<lparr>ad_lower = 0, ad_upper = 900, ad_page = 600, ad_value = 0\<rparr>,
     wn_v = \<lparr>ad_lower = 0, ad_upper = 900, ad_page = 450, ad_value = 0\<rparr>, wn_panning = None\<rparr>"

lemma two_nodes_links:
  "concat (map (node_links (vw_registry (start_view two_nodes test_window)) two_nodes) [0..<2]) =
   [(0, Node_End 1), (1, Node_End 0)]"
  by code_simp

lemma two_nodes_channels:
  assumes "d \<in> set (nt_devices two_nodes i)" "wired_device (vw_registry (start_view two_nodes test_window)) d"
  shows "dv_channel d \<noteq> None"
proof -
  have "\<not> wired_device (vw_registry (start_view two_nodes test_window)) \<lparr>dv_type = ''ns.wifi.WifiNetDevice'', dv_channel = None\<rparr>"
    by code_simp
  then show ?thesis using assms by (auto simp: two_nodes_def)
qed

theorem scan_topology_spec_witness:
  "\<exists>v g. scan_topology (\<lambda>_. (0xffff, 0, 0)) (\<lambda>_ _. (5, 6)) two_nodes (start_view two_nodes test_window) = Inr v \<and>
    ends v = [(0, Node_End 1), (1, Node_End 0)] \<and>
    position_of (Node_End 0) v = Some (3, 6) \<and> position_of (Node_End 1) v = Some (5, 6) \<and> picture_ok {} v"
proof -
  have c: "nt_count two_nodes = 2" by (simp add: two_nodes_def)
  obtain v g where "scan_topology (\<lambda>_. (0xffff, 0, 0)) (\<lambda>_ _. (5, 6)) two_nodes (start_view two_nodes test_window) = Inr v"
    "ends v = [(0, Node_End 1), (1, Node_End 0)]" "picture_ok {} v"
    and p: "\<forall>i < 2. position_of (Node_End i) v = Some (node_place two_nodes ((\<lambda>_ _. (5, 6)) g) i)"
    using scan_topology_spec [of two_nodes test_window "\<lambda>_. (0xffff, 0, 0)" "\<lambda>_ _. (5, 6)"] two_nodes_channels
    unfolding c two_nodes_links by blast
  moreover have "position_of (Node_End 0) v = Some (3, 6)" "position_of (Node_End 1) v = Some (5, 6)"
    using p [rule_format, of 0] p [rule_format, of 1] by (simp_all add: node_place_def two_nodes_def)
  ultimately show ?thesis by blast
qed

text \<open>Between two nodes there are two links, one from the round of each.\<close>

lemma two_links_per_wire:
  "i \<noteq> j \<Longrightarrow> channel_links t i c = [(i, Node_End j)] \<and> channel_links t j c = [(j, Node_End i)]" if "nt_members t c = [i, j]"
  using that by (simp add: channel_links_def other_links_def)

end
