(* ===== verification/Viz_User.thy ===== *)
theory Viz_User
  imports Viz_Scan
begin

text \<open>
  The visualizer with its user, its plugins and the simulation: a step relation on the network
  and the view, from the state after the scan, and what holds in every state that can be
  reached; what a drag of the mouse does to a node.
\<close>

section \<open>Steps\<close>

text \<open>
  Between two updates the simulation may change the network in any way.  The parameters are the
  colours of Gdk, the canvas, whether icons can be used, and the pictures of the files.
\<close>

inductive world_step ::
    "gdk_colors \<Rightarrow> canvas_lib \<Rightarrow> bool \<Rightarrow> (string \<Rightarrow> (rat \<times> rat) res) \<Rightarrow> network \<times> view \<Rightarrow> network \<times> view \<Rightarrow> bool"
    for gdk cl icons handle where
  simulate: "world_step gdk cl icons handle (t, v) (t', v)"
| update: "world_step gdk cl icons handle (t, v) (t, update_node_positions cl t v)"
| look_up: "world_step gdk cl icons handle (t, v) (t, get_node i v)"
| select: "select_node a v = Inr u \<Longrightarrow> (\<And>i. a = Arg_View i \<Longrightarrow> node v i \<noteq> None) \<Longrightarrow> world_step gdk cl icons handle (t, v) (t, u)"
| mode: "world_step gdk cl icons handle (t, v) (t, set_show_transmissions_mode t m v)"
| hover: "world_step gdk cl icons handle (t, v) (t, set_highlighted i b v)"
| size: "world_step gdk cl icons handle (t, v) (t, node_size_changed z v)"
| color: "world_step gdk cl icons handle (t, v) (t, set_color gdk i c v)"
| label: "set_label py i s v = Inr u \<Longrightarrow> world_step gdk cl icons handle (t, v) (t, u)"
| icon: "set_svg_icon icons handle i f wd ht ax ay v = Inr u \<Longrightarrow> world_step gdk cl icons handle (t, v) (t, u)"
| move: "world_step gdk cl icons handle (t, v) (t, set_position e p v)"
| drag: "world_step gdk cl icons handle (t, v) (t, begin_node_drag t i mouse v)"
| motion: "vw_drag v = Some d \<Longrightarrow> world_step gdk cl icons handle (t, v) (snd (node_drag_motion (dr_node d) mouse (t, v)))"
| drop: "world_step gdk cl icons handle (t, v) (t, end_node_drag v)"
| follow: "set_follow_node a v = Inr u \<Longrightarrow> world_step gdk cl icons handle (t, v) (t, u)"
| center: "center_on_node cl a v = Inr u \<Longrightarrow> world_step gdk cl icons handle (t, v) (t, u)"
| scroll: "world_step gdk cl icons handle (t, v) (t, v\<lparr>vw_window := w\<rparr>)"

inductive_cases world_stepE: "world_step gdk cl icons handle tv tu"

section \<open>The invariant\<close>

definition interest_ok :: "view \<Rightarrow> bool" where
  "interest_ok v \<longleftrightarrow> (case vw_mode v of
      Show_All \<Rightarrow> \<exists>n. vw_interest v = [0..<n]
    | Show_None \<Rightarrow> vw_interest v = []
    | Show_Selected \<Rightarrow> vw_interest v = (case vw_selected v of None \<Rightarrow> [] | Some i \<Rightarrow> [i]))"

definition selected_set :: "view \<Rightarrow> nat set" where
  "selected_set v = (case vw_selected v of None \<Rightarrow> {} | Some i \<Rightarrow> {i})"

definition scene_ok :: "view \<Rightarrow> bool" where
  "scene_ok v \<longleftrightarrow> picture_ok (selected_set v) v \<and> (\<forall>i. vw_selected v = Some i \<longrightarrow> node v i \<noteq> None) \<and> interest_ok v"

text \<open>Operations that leave the selection, the mode and the interest alone, and lose no node.\<close>

definition keeps_choice :: "view \<Rightarrow> view \<Rightarrow> bool" where
  "keeps_choice v u \<longleftrightarrow> vw_selected u = vw_selected v \<and> vw_mode u = vw_mode v \<and> vw_interest u = vw_interest v \<and>
     (\<forall>i. node v i \<noteq> None \<longrightarrow> node u i \<noteq> None)"

lemma keeps_choice_refl [intro]: "keeps_choice v v"
  by (simp add: keeps_choice_def)

lemma keeps_choice_trans: "keeps_choice v u \<Longrightarrow> keeps_choice u w \<Longrightarrow> keeps_choice v w"
  by (simp add: keeps_choice_def)

lemma scene_ok_keep: "scene_ok v \<Longrightarrow> keeps_choice v u \<Longrightarrow> (\<And>S. picture_ok S v \<Longrightarrow> picture_ok S u) \<Longrightarrow> scene_ok u"
  by (auto simp: scene_ok_def keeps_choice_def interest_ok_def selected_set_def split: transmissions_mode.splits)

lemma keeps_upd_node: "keeps_choice v (upd_node i f v)"
  by (auto simp: keeps_choice_def)

lemma keeps_set_position: "keeps_choice v (set_position e p v)"
  by (cases e; cases p)
     (auto simp: keeps_choice_def node_set_position_def channel_set_position_def Let_def)

lemma keeps_node_set_position: "keeps_choice v (node_set_position i x y v)"
  using keeps_set_position [of v "Node_End i" "(x, y)"] by simp

lemma keeps_update_appearance: "keeps_choice v (update_appearance i v)"
proof -
  have 1: "keeps_choice u (update_position i (upd_node i (put_label s) u))" for u s
    by (auto simp: update_position_def keeps_upd_node split: option.splits
        intro: keeps_choice_trans [OF keeps_upd_node keeps_node_set_position])
  show ?thesis
    by (auto simp: update_appearance_def Let_def keeps_upd_node split: option.splits
        intro: keeps_choice_trans [OF keeps_upd_node 1])
qed

lemmas keeps_setter = keeps_choice_trans [OF keeps_upd_node keeps_update_appearance]

lemma keeps_setters:
  "keeps_choice v (set_highlighted i b v)" "keeps_choice v (set_size i z v)" "keeps_choice v (set_color gdk i c v)"
  "keeps_choice v (set_selected i b v)" "set_label py i s v = Inr u \<Longrightarrow> keeps_choice v u"
  "set_svg_icon av h i f wd ht ax ay v = Inr u \<Longrightarrow> keeps_choice v u"
  by (auto simp: set_highlighted_def set_size_def set_color_def set_selected_def set_label_def set_svg_icon_def res_bind_eq_Inr
      keeps_setter split: if_splits option.splits)

lemma keeps_node_size: "keeps_choice v (node_size_changed z v)"
proof -
  have "keeps_choice v (fold (\<lambda>i. set_size i z) is v)" for "is"
  proof (induction "is" arbitrary: v)
    case (Cons i "is")
    show ?case using keeps_choice_trans [OF keeps_setters(2) Cons] by simp
  qed auto
  then show ?thesis by (simp add: node_size_changed_def)
qed

text \<open>Each update keeps the picture and the choice.\<close>

lemma has_mobility_keeps:
  "keeps_choice v (snd (has_mobility t i v))" "picture_ok S v \<Longrightarrow> picture_ok S (snd (has_mobility t i v))"
  by (auto simp: has_mobility_def Let_def keeps_upd_node node_ok_def shown_same_look split: option.splits intro!: picture_ok_upd_node)

lemma picture_ok_window: "picture_ok S v \<Longrightarrow> picture_ok S (v\<lparr>vw_window := w\<rparr>)"
  by (erule picture_ok_fields) simp_all

lemma update_node_position_keeps:
  "keeps_choice v (update_node_position cl t i v) \<and> (picture_ok S v \<longrightarrow> picture_ok S (update_node_position cl t i v))"
proof -
  obtain b u where m: "has_mobility t i v = (b, u)" by fastforce
  have u: "keeps_choice v u" "picture_ok S v \<Longrightarrow> picture_ok S u"
    using has_mobility_keeps(1) [of v t i] has_mobility_keeps(2) [of S v t i] m by auto
  have w: "keeps_choice u (set_position (Node_End i) p u)" "picture_ok S u \<Longrightarrow> picture_ok S (set_position (Node_End i) p u)" for p
    by (auto intro: keeps_set_position picture_ok_move)
  have x: "keeps_choice v (s\<lparr>vw_window := y\<rparr>)" if "keeps_choice v s" for s y
    using that by (simp add: keeps_choice_def)
  show ?thesis
    using u keeps_choice_trans [OF u(1) w(1)] w(2)
    by (auto simp: update_node_position_def m Let_def transform_point_simulation_to_canvas_def
        intro!: x picture_ok_window split: option.splits)
qed

lemma update_node_positions_keeps:
  "keeps_choice v (update_node_positions cl t v)" "picture_ok S v \<Longrightarrow> picture_ok S (update_node_positions cl t v)"
proof -
  have "keeps_choice v (fold (update_node_position cl t) is v) \<and> (picture_ok S v \<longrightarrow> picture_ok S (fold (update_node_position cl t) is v))" for "is"
  proof (induction "is" arbitrary: v)
    case (Cons i "is")
    show ?case
      using Cons [of "update_node_position cl t i v"] update_node_position_keeps [of v cl t i S] keeps_choice_trans by auto
  qed auto
  then show "keeps_choice v (update_node_positions cl t v)" "picture_ok S v \<Longrightarrow> picture_ok S (update_node_positions cl t v)"
    by (simp_all add: update_node_positions_def)
qed

lemma scene_ok_get_node: "scene_ok v \<Longrightarrow> scene_ok (get_node i v)"
proof -
  assume v: "scene_ok v"
  then have "picture_ok (selected_set v) (get_node i v)"
    by (intro picture_ok_get_node) (auto simp: scene_ok_def selected_set_def split: option.splits)
  then show ?thesis using v by (auto simp: scene_ok_def selected_set_def interest_ok_def split: transmissions_mode.splits)
qed

text \<open>Selecting takes the mark from the old node and gives it to the new one.\<close>

lemma scene_ok_select:
  assumes "scene_ok v" "select_node a v = Inr u" "\<And>i. a = Arg_View i \<Longrightarrow> node v i \<noteq> None"
  shows "scene_ok u"
proof -
  obtain k where k: "resolve_node a v = Inr k" using assms(2) by (auto simp: select_node_def res_bind_eq_Inr)
  show ?thesis
  proof (cases "k = vw_selected v")
    case True
    then show ?thesis using assms k by (simp add: select_node_def)
  next
    case False
    have ex: "node v i \<noteq> None" if "k = Some i" for i
      using k that assms(3) by (cases a) (auto split: if_splits)
    define v1 where "v1 = (case vw_selected v of None \<Rightarrow> v | Some i \<Rightarrow> set_selected i False v)"
    define v2 where "v2 = (case k of None \<Rightarrow> v1\<lparr>vw_selected := k\<rparr> | Some i \<Rightarrow> set_selected i True (v1\<lparr>vw_selected := k\<rparr>))"
    have d: "picture_ok {i} v \<Longrightarrow> picture_ok {} (set_selected i False v)" for i
      using picture_ok_setters(4) [where S = "{i}" and i = i and b = False] by simp
    have i: "picture_ok {} w \<Longrightarrow> picture_ok {i} (set_selected i True w)" for i w
      using picture_ok_setters(4) [where S = "{}" and i = i and b = True] by simp
    have p1: "picture_ok {} v1"
      using assms(1) d by (auto simp: v1_def scene_ok_def selected_set_def split: option.splits)
    have c1: "keeps_choice v v1" by (auto simp: v1_def keeps_setters split: option.splits)
    have p1': "picture_ok {} (v1\<lparr>vw_selected := k\<rparr>)" using p1 by (rule picture_ok_fields) simp_all
    have c2: "keeps_choice (v1\<lparr>vw_selected := k\<rparr>) v2" by (auto simp: v2_def keeps_setters split: option.splits)
    have p2: "picture_ok (case k of None \<Rightarrow> {} | Some i \<Rightarrow> {i}) v2"
      using p1' i [OF p1'] by (auto simp: v2_def split: option.splits)
    have f: "vw_selected v2 = k" "vw_mode v2 = vw_mode v" "vw_interest v2 = vw_interest v" "\<And>i. k = Some i \<Longrightarrow> node v2 i \<noteq> None"
      using c1 c2 ex by (auto simp: keeps_choice_def)
    have u: "u = (if vw_mode v = Show_Selected then v2\<lparr>vw_interest := (case k of None \<Rightarrow> [] | Some i \<Rightarrow> [i])\<rparr> else v2)"
      using assms(2) k False f(2) by (auto simp: select_node_def v1_def v2_def Let_def split: option.splits)
    have "picture_ok (case k of None \<Rightarrow> {} | Some i \<Rightarrow> {i}) u"
      using p2 by (auto simp: u intro: picture_ok_fields [OF p2])
    moreover have "interest_ok u"
      using assms(1) f by (auto simp: u scene_ok_def interest_ok_def split: transmissions_mode.splits)
    ultimately show ?thesis using f by (auto simp: u scene_ok_def selected_set_def split: option.splits)
  qed
qed

lemma scene_ok_step:
  assumes "world_step gdk cl icons handle tv tu" "scene_ok (snd tv)"
  shows "scene_ok (snd tu)"
  using assms
proof (induction rule: world_step.induct)
  case (update t v)
  then show ?case using scene_ok_keep [OF _ update_node_positions_keeps(1)] update_node_positions_keeps(2) by simp
next
  case (look_up t v i)
  then show ?case by (simp add: scene_ok_get_node)
next
  case (select a v u t)
  then show ?case using scene_ok_select by simp
next
  case (mode t v m)
  then have "picture_ok (selected_set v) (set_show_transmissions_mode t m v)"
    unfolding scene_ok_def by (auto simp: set_show_transmissions_mode_def elim: picture_ok_fields)
  then show ?case
    using mode by (auto simp: scene_ok_def set_show_transmissions_mode_def selected_set_def interest_ok_def split: transmissions_mode.splits)
next
  case (hover t v i b)
  then show ?case using scene_ok_keep [OF _ keeps_setters(1)] picture_ok_setters(1) by simp
next
  case (size t v z)
  then show ?case using scene_ok_keep [OF _ keeps_node_size] picture_ok_node_size by simp
next
  case (color t v i c)
  then show ?case using scene_ok_keep [OF _ keeps_setters(3)] picture_ok_setters(3) by simp
next
  case (label py i s v u t)
  then show ?case using scene_ok_keep [OF _ keeps_setters(5)] picture_ok_set_label by simp
next
  case (icon i f wd ht ax ay v u t)
  then show ?case using scene_ok_keep [OF _ keeps_setters(6)] picture_ok_icon by simp
next
  case (move t v e p)
  then show ?case using scene_ok_keep [OF _ keeps_set_position] picture_ok_move by simp
next
  case (drag t v i mouse)
  have "keeps_choice v (begin_node_drag t i mouse v)" "picture_ok S v \<Longrightarrow> picture_ok S (begin_node_drag t i mouse v)" for S
    by (auto simp: begin_node_drag_def keeps_choice_def split: option.splits elim: picture_ok_fields)
  then show ?case using drag scene_ok_keep by simp
next
  case (motion v d t mouse)
  then show ?case
    using scene_ok_keep [OF _ keeps_set_position] picture_ok_move by (auto simp: node_drag_motion_def Let_def split: option.splits)
next
  case (drop t v)
  have "keeps_choice v (end_node_drag v)" "picture_ok S v \<Longrightarrow> picture_ok S (end_node_drag v)" for S
    by (auto simp: end_node_drag_def keeps_choice_def elim: picture_ok_fields)
  then show ?case using drop scene_ok_keep by simp
next
  case (follow a v u t)
  then have "keeps_choice v u" "picture_ok S v \<Longrightarrow> picture_ok S u" for S
    by (cases a; auto simp: keeps_choice_def split: if_splits elim: picture_ok_fields)+
  then show ?case using follow scene_ok_keep by simp
next
  case (center a v u t)
  then have "keeps_choice v u" "picture_ok S v \<Longrightarrow> picture_ok S u" for S
    by (auto simp: center_on_node_def res_bind_eq_Inr keeps_choice_def split: if_splits option.splits intro: picture_ok_window)
  then show ?case using center scene_ok_keep by simp
next
  case (scroll t v w)
  have "keeps_choice v (v\<lparr>vw_window := w\<rparr>)" by (simp add: keeps_choice_def)
  then show ?case using scroll scene_ok_keep picture_ok_window by simp
qed auto

lemma scene_ok_reachable:
  "(world_step gdk cl icons handle)\<^sup>*\<^sup>* tv tu \<Longrightarrow> scene_ok (snd tv) \<Longrightarrow> scene_ok (snd tu)"
  by (induction rule: rtranclp_induct) (auto intro: scene_ok_step)

text \<open>The state after the scan, from which the main loop of GTK starts.\<close>

definition channels_known :: "network \<Rightarrow> bool" where
  "channels_known t \<longleftrightarrow> (\<forall>i < nt_count t. \<forall>d \<in> set (nt_devices t i).
     wired_device \<lparr>rg_traits = netdevice_traits, rg_warned = []\<rparr> d \<longrightarrow> dv_channel d \<noteq> None)"

lemma scene_ok_scanned:
  assumes "channels_known t" "scan_topology gdk layout t (start_view t w) = Inr v"
  shows "scene_ok v"
proof -
  have "\<exists>v g. scan_topology gdk layout t (start_view t w) = Inr v \<and> choice v = (None, Show_All, [0..<nt_count t]) \<and> picture_ok {} v"
    using scan_topology_result [of t w gdk layout] assms(1)
    by (fastforce simp: channels_known_def start_view_def set_show_transmissions_mode_def)
  then show ?thesis
    using assms(2) by (auto simp: scene_ok_def choice_def selected_set_def interest_ok_def)
qed



definition two_scanned :: view where
  "two_scanned = (case scan_topology (\<lambda>_. (0xffff, 0, 0)) (\<lambda>_ _. (5, 6)) two_nodes (start_view two_nodes test_window) of
     Inr v \<Rightarrow> v | Inl _ \<Rightarrow> start_view two_nodes test_window)"

lemma two_scanned_facts:
  "channels_known two_nodes"
  "scan_topology (\<lambda>_. (0xffff, 0, 0)) (\<lambda>_ _. (5, 6)) two_nodes (start_view two_nodes test_window) = Inr two_scanned"
proof -
  have "vw_registry (start_view two_nodes test_window) = \<lparr>rg_traits = netdevice_traits, rg_warned = []\<rparr>"
    by (simp add: start_view_def set_show_transmissions_mode_def)
  then show "channels_known two_nodes" using two_nodes_channels unfolding channels_known_def by fastforce
  show "scan_topology (\<lambda>_. (0xffff, 0, 0)) (\<lambda>_ _. (5, 6)) two_nodes (start_view two_nodes test_window) = Inr two_scanned"
    using scan_topology_result [of two_nodes test_window "\<lambda>_. (0xffff, 0, 0)" "\<lambda>_ _. (5, 6)"] two_nodes_channels
    by (fastforce simp: two_scanned_def)
qed

abbreviation moved :: view where
  "moved \<equiv> set_position (Node_End 0) (7, 8) two_scanned"

lemma moved_link: "length (vw_links moved) = 2" "wl_node1 (vw_links moved ! 0) = 0" "wl_node2 (vw_links moved ! 0) = Node_End 1"
  "wl_data (vw_links moved ! 0) = Some ((7, 8), (5, 6))"
  by code_simp+



section \<open>Dragging\<close>

text \<open>A drag moves a node by as much as the mouse, however many motions there are: its place on the
  canvas is three times its old place in the simulation plus the way of the mouse since the
  button went down, and the simulation has it at the third of that.
\<close>

theorem drag_moves_by_mouse:
  assumes "nt_position t i = Some (x, y)" "vw_drag v = None" "node v i \<noteq> None"
    and "node_drag_motion i (mx, my) (t', begin_node_drag t i (cx, cy) v) = (b, t'', u)" "nt_position t' i \<noteq> None"
  shows "b \<and> position_of (Node_End i) u = Some (3 * x + (mx - cx), 3 * y + (my - cy)) \<and>
    nt_position t'' i = Some (x + (mx - cx) / 3, y + (my - cy) / 3) \<and> vw_drag u = Some \<lparr>dr_node = i, dr_canvas = (cx, cy), dr_sim = (x, y)\<rparr>"
proof -
  let ?v = "v\<lparr>vw_drag := Some \<lparr>dr_node = i, dr_canvas = (cx, cy), dr_sim = (x, y)\<rparr>\<rparr>"
  have "position_of (Node_End i) ?v \<noteq> None" using assms(3) by (simp add: position_of.simps)
  from position_of_set_position [OF this] show ?thesis
    using assms
    by (auto simp: begin_node_drag_def node_drag_motion_def Let_def transform_distance_canvas_to_simulation_def
        transform_point_simulation_to_canvas_def PIXELS_PER_METER_def simp del: set_position.simps split: option.splits)
qed

theorem drag_moves_by_mouse_witness:
  "\<exists>u t''. node_drag_motion 0 (40, 50) (two_nodes, begin_node_drag two_nodes 0 (10, 20) (get_node 0 (start_view two_nodes test_window))) = (True, t'', u) \<and>
     position_of (Node_End 0) u = Some (33, 36) \<and> nt_position t'' 0 = Some (11, 12)"
proof -
  obtain b t'' u where m: "node_drag_motion 0 (40, 50) (two_nodes, begin_node_drag two_nodes 0 (10, 20) (get_node 0 (start_view two_nodes test_window))) = (b, t'', u)"
    by (metis prod_cases3)
  have "nt_position two_nodes 0 = Some (1, 2)" by (simp add: two_nodes_def)
  moreover have "vw_drag (get_node 0 (start_view two_nodes test_window)) = None"
    "node (get_node 0 (start_view two_nodes test_window)) 0 \<noteq> None"
    by (simp_all add: start_view_def set_show_transmissions_mode_def)
  ultimately show ?thesis using drag_moves_by_mouse [OF _ _ _ m] m by simp
qed

text \<open>A second press of the button while a node is dragged changes nothing.\<close>

lemma drag_not_restarted: "vw_drag v \<noteq> None \<Longrightarrow> begin_node_drag t i mouse v = v"
  by (auto simp: begin_node_drag_def split: option.splits)

section \<open>What the code does not do\<close>

text \<open>A label cannot be set under Python 3.\<close>

lemma set_label_python3: "set_label True i s v = Inl NameError"
  by (simp add: set_label_def)

text \<open>A node that gets its mobility model after the first look never moves.\<close>

lemma late_mobility_ignored:
  assumes "remembered v i = Some False"
  shows "update_node_position cl t i v = v"
  using assms by (auto simp: update_node_position_def has_mobility_def remembered_def split: option.splits)

text \<open>Moving the symbol of a channel does not enlarge the canvas, moving a node does.\<close>

lemma channel_may_leave_bounds:
  "vw_bounds (channel_set_position c x y v) = vw_bounds v"
  by (simp add: channel_set_position_def Let_def)

end
