(* ===== verification/Viz_Traffic.thy ===== *)
theory Viz_Traffic
  imports Viz_Scan
begin

text \<open>
  \<^verbatim>\<open>src/src/visualizer/visualizer/core.py\<close>, the transmissions and drops: the window of the last
  samples, their averages, and the arrows that show them, which are kept in a pool and used
  again; and the statistics of \<^verbatim>\<open>plugins/interface_statistics.py\<close>.  Arrows are numbered in the order
  they are made; the logarithm of a width is that of the real numbers.
\<close>

section \<open>Samples and averages\<close>

record tx_sample =
  ts_transmitter :: nat
  ts_receiver :: nat
  ts_bytes :: nat

record drop_sample =
  ds_transmitter :: nat
  ds_bytes :: nat

function trim_window :: "nat \<Rightarrow> 'a list \<Rightarrow> 'a list" where
  "trim_window k xs = (if length xs > k then trim_window k (tl xs) else xs)"
  by auto
termination by (relation "measure (\<lambda>(k, xs). length xs)") auto

declare trim_window.simps [simp del]

definition smooth_factor :: "rat \<Rightarrow> nat" where
  "smooth_factor seconds = nat (floor (seconds * 10))"

definition add_samples :: "rat \<Rightarrow> 'a list \<Rightarrow> 'a list list \<Rightarrow> 'a list list" where
  "add_samples seconds s sets = trim_window (smooth_factor seconds) (sets @ [s])"

text \<open>The sum and the number of the samples of a key, in the order of the first ones.\<close>

definition add_sample :: "'k \<Rightarrow> nat \<Rightarrow> ('k \<times> nat \<times> nat) list \<Rightarrow> ('k \<times> nat \<times> nat) list" where
  "add_sample key b d =
     (let (bytes, n) = (case map_of d key of None \<Rightarrow> (0, 0) | Some p \<Rightarrow> p) in
      dict_set key (bytes + b, n + 1) d)"

definition averages :: "('s \<Rightarrow> 'k) \<Rightarrow> ('s \<Rightarrow> nat) \<Rightarrow> 's list list \<Rightarrow> ('k \<times> nat \<times> nat) list" where
  "averages key bytes sets = fold (\<lambda>ss d. fold (\<lambda>s. add_sample (key s) (bytes s)) ss d) sets []"

definition transmissions_average :: "tx_sample list list \<Rightarrow> ((nat \<times> nat) \<times> nat \<times> nat) list" where
  "transmissions_average = averages (\<lambda>s. (ts_transmitter s, ts_receiver s)) ts_bytes"

definition drops_average :: "drop_sample list list \<Rightarrow> (nat \<times> nat \<times> nat) list" where
  "drops_average = averages ds_transmitter ds_bytes"

section \<open>Arrows\<close>

record arrow =
  ar_visible :: bool
  ar_width :: real
  ar_points :: "((rat \<times> rat) \<times> (rat \<times> rat)) option"
  ar_kbps :: rat
  ar_forward :: bool
  ar_label_at :: "rat \<times> rat"
  ar_label_y :: real

definition new_arrow :: arrow where
  "new_arrow = \<lparr>ar_visible = False, ar_width = 2, ar_points = None, ar_kbps = 0, ar_forward = True,
     ar_label_at = (0, 0), ar_label_y = 0\<rparr>"

record arrows =
  aw_made :: "arrow list"
  aw_pool :: "nat list"

text \<open>\<open>old_arrows.pop()\<close>, or a new arrow when there is none left.\<close>

definition take_arrow :: "arrow list \<Rightarrow> nat list \<Rightarrow> nat \<times> arrow list \<times> nat list" where
  "take_arrow made old =
     (if old = [] then (length made, made @ [new_arrow], []) else (last old, made, butlast old))"

definition hide_all :: "nat list \<Rightarrow> arrow list \<Rightarrow> arrow list" where
  "hide_all ids made = fold (\<lambda>a m. m[a := (m ! a)\<lparr>ar_visible := False\<rparr>]) ids made"

text \<open>
  The loop over the averages.  An exception in the middle leaves the arrow it was about visible;
  \<open>old_arrows\<close> is the list of the pool itself, so the arrows popped so far are gone from it.
\<close>

fun arrow_loop ::
    "('k \<Rightarrow> view \<Rightarrow> view) \<Rightarrow> ('k \<Rightarrow> nat \<times> nat \<Rightarrow> view \<Rightarrow> (arrow \<Rightarrow> arrow) res) \<Rightarrow> ('k \<times> nat \<times> nat) list \<Rightarrow>
     view \<Rightarrow> arrow list \<Rightarrow> nat list \<Rightarrow> nat list \<Rightarrow> exn option \<times> view \<times> arrows" where
  "arrow_loop objects draw [] v made old new = (None, v, \<lparr>aw_made = made, aw_pool = new @ old\<rparr>)"
| "arrow_loop objects draw ((key, avg) # items) v made old new =
     (let v = objects key v;
          (a, made, old) = take_arrow made old;
          made = made[a := (made ! a)\<lparr>ar_visible := True\<rparr>] in
      (case draw key avg v of
         Inl e \<Rightarrow> (Some e, v, \<lparr>aw_made = made, aw_pool = old\<rparr>)
       | Inr f \<Rightarrow> arrow_loop objects draw items v (made[a := f (made ! a)]) old (new @ [a])))"

definition update_arrows ::
    "('k \<Rightarrow> view \<Rightarrow> view) \<Rightarrow> ('k \<Rightarrow> nat \<times> nat \<Rightarrow> view \<Rightarrow> (arrow \<Rightarrow> arrow) res) \<Rightarrow> ('k \<times> nat \<times> nat) list \<Rightarrow>
     view \<times> arrows \<Rightarrow> exn option \<times> view \<times> arrows" where
  "update_arrows objects draw items va =
     (let (v, s) = va in arrow_loop objects draw items v (hide_all (aw_pool s) (aw_made s)) (aw_pool s) [])"

text \<open>\<open>math.log\<close> of a number that is not positive raises; the period is positive.\<close>

definition line_width :: "nat \<Rightarrow> nat \<Rightarrow> rat \<Rightarrow> rat \<Rightarrow> real res" where
  "line_width bytes n period k =
     (let r = rat_of_nat bytes / rat_of_nat n / period in
      if r \<le> 0 then Inl ValueError else Inr (max (1 / 10) (ln (real_of_rat r) * real_of_rat k)))"

definition kbit_rate :: "nat \<Rightarrow> nat \<Rightarrow> rat \<Rightarrow> rat" where
  "kbit_rate bytes n period = rat_of_nat (bytes * 8) / 1000 / rat_of_nat n / period"

text \<open>
  The label of a transmission stands over the line and points to the receiver: the angle is within a
  right angle of zero exactly when the receiver is not to the left.  Where the label goes along
  the line is up to the clipping of ns-3, a parameter.
\<close>

definition draw_transmission ::
    "rat \<Rightarrow> rat \<Rightarrow> (rat \<times> rat \<Rightarrow> rat \<times> rat \<Rightarrow> rat \<times> rat) \<Rightarrow> nat \<times> nat \<Rightarrow> nat \<times> nat \<Rightarrow> view \<Rightarrow> (arrow \<Rightarrow> arrow) res" where
  "draw_transmission period k place key avg v =
     res_bind (line_width (fst avg) (snd avg) period k) (\<lambda>w.
       (case (position_of (Node_End (fst key)) v, position_of (Node_End (snd key)) v) of
          (Some p, Some q) \<Rightarrow>
            Inr (\<lambda>a. a\<lparr>ar_width := w, ar_points := Some (p, q), ar_kbps := kbit_rate (fst avg) (snd avg) period,
              ar_forward := (fst q - fst p \<ge> 0), ar_label_at := place p q,
              ar_label_y := (if fst q - fst p \<ge> 0 then - w / 2 else w / 2)\<rparr>)
        | _ \<Rightarrow> Inl KeyError))"

definition update_transmissions_view ::
    "rat \<Rightarrow> rat \<Rightarrow> (rat \<times> rat \<Rightarrow> rat \<times> rat \<Rightarrow> rat \<times> rat) \<Rightarrow> tx_sample list list \<Rightarrow> view \<times> arrows \<Rightarrow> exn option \<times> view \<times> arrows" where
  "update_transmissions_view period node_size place sets =
     update_arrows (\<lambda>key v. get_node (snd key) (get_node (fst key) v)) (draw_transmission period (node_size / 5) place)
       (transmissions_average sets)"

text \<open>A drop is a line from the transmitter down to the lower edge of the screen.\<close>

definition draw_drop :: "rat \<Rightarrow> rat \<Rightarrow> rat \<Rightarrow> nat \<Rightarrow> nat \<times> nat \<Rightarrow> view \<Rightarrow> (arrow \<Rightarrow> arrow) res" where
  "draw_drop period k edge_y key avg v =
     res_bind (line_width (fst avg) (snd avg) period k) (\<lambda>w.
       (case position_of (Node_End key) v of
          Some (x, y) \<Rightarrow>
            Inr (\<lambda>a. a\<lparr>ar_width := w, ar_points := Some ((x, y), (x, edge_y)),
              ar_kbps := kbit_rate (fst avg) (snd avg) period, ar_label_at := ((x + x) / 2, (y + edge_y) / 2)\<rparr>)
        | None \<Rightarrow> Inl KeyError))"

definition update_drops_view :: "rat \<Rightarrow> rat \<Rightarrow> rat \<Rightarrow> drop_sample list list \<Rightarrow> view \<times> arrows \<Rightarrow> exn option \<times> view \<times> arrows" where
  "update_drops_view period node_size edge_y sets =
     update_arrows get_node (draw_drop period (node_size / 5) edge_y) (drops_average sets)"

section \<open>Statistics of the interfaces\<close>

record raw_stats =
  rs_tx_packets :: nat
  rs_tx_bytes :: nat
  rs_rx_packets :: nat
  rs_rx_bytes :: nat

record dev_stats =
  st_raw :: raw_stats
  st_tx_packet_rate :: rat
  st_rx_packet_rate :: rat
  st_tx_bit_rate :: rat
  st_rx_bit_rate :: rat

definition NODE_STATISTICS_MEMORY :: nat where "NODE_STATISTICS_MEMORY = 10"

type_synonym collector = "(nat \<times> raw_stats list list) list"

fun collect_statistics :: "(nat \<times> raw_stats list) list \<Rightarrow> collector \<Rightarrow> collector" where
  "collect_statistics [] c = c"
| "collect_statistics ((i, s) # rest) c =
     (let l = (case map_of c i of None \<Rightarrow> [] | Some l \<Rightarrow> l) in
      collect_statistics rest (dict_set i (trim_window NODE_STATISTICS_MEMORY (l @ [s])) c))"

text \<open>The rate of a counter over the window; the counters of the first sample by the index of the interface.\<close>

definition interface_rates :: "rat \<Rightarrow> raw_stats \<Rightarrow> raw_stats \<Rightarrow> dev_stats" where
  "interface_rates k a b =
     \<lparr>st_raw = b,
      st_tx_packet_rate = (of_nat (rs_tx_packets b) - of_nat (rs_tx_packets a)) / k,
      st_rx_packet_rate = (of_nat (rs_rx_packets b) - of_nat (rs_rx_packets a)) / k,
      st_tx_bit_rate = (of_nat (rs_tx_bytes b) - of_nat (rs_tx_bytes a)) * 8 / k,
      st_rx_bit_rate = (of_nat (rs_rx_bytes b) - of_nat (rs_rx_bytes a)) * 8 / k\<rparr>"

fun all_rates :: "rat \<Rightarrow> raw_stats list \<Rightarrow> nat \<Rightarrow> raw_stats list \<Rightarrow> dev_stats list res" where
  "all_rates k first i [] = Inr []"
| "all_rates k first i (b # bs) =
     (if i < length first then
        res_bind (all_rates k first (Suc i) bs) (\<lambda>r. Inr (interface_rates k (first ! i) b # r))
      else Inl IndexError)"

definition get_interface_statistics :: "rat \<Rightarrow> nat \<Rightarrow> collector \<Rightarrow> dev_stats list res" where
  "get_interface_statistics period i c =
     (case map_of c i of
        None \<Rightarrow> Inr []
      | Some l \<Rightarrow>
          if length l < NODE_STATISTICS_MEMORY then Inr []
          else if length l \<noteq> NODE_STATISTICS_MEMORY then Inl AssertionError
          else all_rates (period * of_nat (NODE_STATISTICS_MEMORY - 1)) (hd l) 0 (last l))"

section \<open>The window of samples\<close>

lemma trim_window_drop: "trim_window k xs = drop (length xs - k) xs"
proof (induction k xs rule: trim_window.induct)
  case (1 k xs)
  show ?case
  proof (cases "length xs > k")
    case True
    then have "trim_window k xs = drop (length (tl xs) - k) (tl xs)" using 1 by (subst trim_window.simps) simp
    also have "\<dots> = drop (length xs - k) xs" using True by (simp add: drop_Suc [symmetric] Suc_diff_Suc flip: drop_Suc)
    finally show ?thesis .
  next
    case False
    then show ?thesis by (subst trim_window.simps) simp
  qed
qed

lemma trim_window_snoc:
  "trim_window k (drop (length xs - k) xs @ [x]) = drop (length (xs @ [x]) - k) (xs @ [x])"
  by (cases "length xs < k") (simp_all add: trim_window_drop Suc_diff_le)

lemma smooth_factor_bounds: "1 / 10 \<le> seconds \<Longrightarrow> seconds \<le> 10 \<Longrightarrow> 1 \<le> smooth_factor seconds \<and> smooth_factor seconds \<le> 100"
  by (auto simp: smooth_factor_def le_nat_iff le_floor_iff nat_le_iff floor_le_iff)

text \<open>The window holds the samples of the last periods, as many as the smooth factor says.\<close>

lemma window_is_last_samples: "fold (add_samples seconds) ss [] = drop (length ss - smooth_factor seconds) ss"
proof (induction ss rule: rev_induct)
  case (snoc s ss)
  then show ?case by (simp add: add_samples_def trim_window_snoc)
qed simp

lemma fold_fold_concat: "fold (\<lambda>xs. fold f xs) xss s = fold f (concat xss) s"
  by (induction xss arbitrary: s) simp_all

lemma add_sample_spec:
  "map_of (fold (\<lambda>s. add_sample (key s) (bytes s)) ss []) q =
     (let mine = filter (\<lambda>s. key s = q) ss in
      if mine = [] then None else Some (sum_list (map bytes mine), length mine))"
  by (induction ss rule: rev_induct) (auto simp: add_sample_def Let_def split: option.splits prod.splits if_splits)

lemma averages_spec:
  "map_of (averages key bytes sets) q =
     (let mine = filter (\<lambda>s. key s = q) (concat sets) in
      if mine = [] then None else Some (sum_list (map bytes mine), length mine))"
  unfolding averages_def fold_fold_concat by (rule add_sample_spec)

lemma averages_distinct: "distinct (map fst (averages key bytes sets))"
proof -
  have "distinct (map fst (fold (\<lambda>s. add_sample (key s) (bytes s)) ss d))" if "distinct (map fst d)" for ss d
    using that
  proof (induction ss arbitrary: d)
    case (Cons s ss)
    have "distinct (map fst (add_sample (key s) (bytes s) d))"
      using Cons.prems by (simp add: add_sample_def Let_def split: prod.splits)
    then show ?case using Cons.IH by simp
  qed simp
  then show ?thesis by (simp add: averages_def fold_fold_concat)
qed

section \<open>The pool of arrows\<close>

definition pool_ok :: "arrows \<Rightarrow> bool" where
  "pool_ok s \<longleftrightarrow> distinct (aw_pool s) \<and> set (aw_pool s) = {..<length (aw_made s)}"

lemma hide_all_nth:
  "length (hide_all ids made) = length made"
  "a < length made \<Longrightarrow> hide_all ids made ! a = (if a \<in> set ids then (made ! a)\<lparr>ar_visible := False\<rparr> else made ! a)"
proof -
  show l: "length (hide_all ids made) = length made" for ids made
    by (induction ids arbitrary: made) (simp_all add: hide_all_def)
  show "a < length made \<Longrightarrow> hide_all ids made ! a = (if a \<in> set ids then (made ! a)\<lparr>ar_visible := False\<rparr> else made ! a)"
  proof (induction ids arbitrary: made)
    case (Cons i ids)
    have "hide_all (i # ids) made = hide_all ids (made[i := (made ! i)\<lparr>ar_visible := False\<rparr>])" by (simp add: hide_all_def)
    then show ?case using Cons by (cases "i = a") (auto simp: nth_list_update)
  qed (simp add: hide_all_def)
qed

text \<open>The numbers of the arrows in use, of the one taken and of those left are all the numbers.\<close>

lemma take_arrow_ids:
  assumes "take_arrow made old = (a, made1, old1)" "distinct (new @ old)" "set (new @ old) = {..<length made}"
  shows "a < length made1" "distinct (new @ [a] @ old1)" "set (new @ [a] @ old1) = {..<length made1}"
proof (atomize (full), cases old rule: rev_cases)
  case Nil
  then have "a = length made" "length made1 = Suc (length made)" "old1 = []" using assms(1) by (auto simp: take_arrow_def)
  then show "a < length made1 \<and> distinct (new @ [a] @ old1) \<and> set (new @ [a] @ old1) = {..<length made1}"
    using assms(2,3) Nil by (simp add: lessThan_Suc)
next
  case (snoc xs x)
  then have "a = x" "made1 = made" "old1 = xs" using assms(1) by (auto simp: take_arrow_def)
  moreover have "x \<in> set (new @ old)" using snoc by simp
  ultimately show "a < length made1 \<and> distinct (new @ [a] @ old1) \<and> set (new @ [a] @ old1) = {..<length made1}"
    using assms(2,3) snoc by auto
qed

text \<open>
  What the two views of arrows have in common: the objects looked up are kept, a drawn arrow is
  right for its key, and stays so while objects are looked up.
\<close>

locale arrow_painter =
  fixes objects :: "'k \<Rightarrow> view \<Rightarrow> view"
    and draw :: "'k \<Rightarrow> nat \<times> nat \<Rightarrow> view \<Rightarrow> (arrow \<Rightarrow> arrow) res"
    and right :: "'k \<Rightarrow> nat \<times> nat \<Rightarrow> view \<Rightarrow> arrow \<Rightarrow> bool"
    and keeps :: "view \<Rightarrow> view \<Rightarrow> bool"
  assumes keeps_refl: "keeps v v"
    and keeps_trans: "keeps v u \<Longrightarrow> keeps u w \<Longrightarrow> keeps v w"
    and objects_keep: "keeps v (objects key v)"
    and drawn: "draw key avg (objects key v) = Inr f \<Longrightarrow> ar_visible a \<Longrightarrow> right key avg (objects key v) (f a)"
    and stable: "right key avg v a \<Longrightarrow> keeps v u \<Longrightarrow> right key avg u a"
begin

lemma loop_shows:
  assumes "arrow_loop objects draw items v made old new = (None, u, s)"
    and "distinct (new @ old)" "set (new @ old) = {..<length made}" "\<forall>a \<in> set old. \<not> ar_visible (made ! a)"
  shows "keeps v u \<and> (\<exists>shown rest. aw_pool s = new @ shown @ rest \<and> pool_ok s \<and> length shown = length items \<and>
    length (aw_made s) = length made + (length items - length old) \<and>
    (\<forall>a \<in> set new. aw_made s ! a = made ! a) \<and> (\<forall>a \<in> set rest. \<not> ar_visible (aw_made s ! a)) \<and>
    (\<forall>j < length items. right (fst (items ! j)) (snd (items ! j)) u (aw_made s ! (shown ! j))))"
  using assms
proof (induction items arbitrary: v made old new)
  case Nil
  then show ?case by (auto simp: keeps_refl pool_ok_def)
next
  case (Cons item items)
  obtain key avg where item: "item = (key, avg)" by (cases item)
  define w where "w = objects key v"
  obtain a made1 old1 where tk: "take_arrow made old = (a, made1, old1)" by (cases "take_arrow made old")
  define made2 where "made2 = made1[a := (made1 ! a)\<lparr>ar_visible := True\<rparr>]"
  have step: "arrow_loop objects draw (item # items) v made old new =
      (case draw key avg w of
         Inl e \<Rightarrow> (Some e, w, \<lparr>aw_made = made2, aw_pool = old1\<rparr>)
       | Inr f \<Rightarrow> arrow_loop objects draw items w (made2[a := f (made2 ! a)]) old1 (new @ [a]))"
    unfolding item w_def made2_def by (simp add: tk Let_def)
  then obtain f where f: "draw key avg w = Inr f" using Cons.prems(1) by (cases "draw key avg w") auto
  let ?m = "made2[a := f (made2 ! a)]"
  have t: "a < length made1" "distinct (new @ [a] @ old1)" "set (new @ [a] @ old1) = {..<length made1}" "set old1 \<subseteq> set old"
    "length made1 = length made + (1 - length old)" "length old1 = length old - 1" "\<forall>b < length made. made1 ! b = made ! b"
  proof -
    show "set old1 \<subseteq> set old" "length made1 = length made + (1 - length old)" "length old1 = length old - 1"
      "\<forall>b < length made. made1 ! b = made ! b"
      using tk by (cases old rule: rev_cases; auto simp: take_arrow_def nth_append)+
    show "a < length made1" "distinct (new @ [a] @ old1)" "set (new @ [a] @ old1) = {..<length made1}"
      using take_arrow_ids [OF tk Cons.prems(2,3)] by blast+
  qed
  have same: "?m ! b = made ! b" if "b < length made" "b \<noteq> a" for b
    using that t by (simp add: made2_def)
  have hidden: "\<forall>b \<in> set old1. \<not> ar_visible (?m ! b)"
  proof
    fix b assume b: "b \<in> set old1"
    then have "b < length made" "b \<noteq> a" "\<not> ar_visible (made ! b)"
      using t(2,4) Cons.prems(3,4) by auto
    then show "\<not> ar_visible (?m ! b)" using same by simp
  qed
  have IH: "keeps w u \<and> (\<exists>shown rest. aw_pool s = (new @ [a]) @ shown @ rest \<and> pool_ok s \<and> length shown = length items \<and>
      length (aw_made s) = length ?m + (length items - length old1) \<and>
      (\<forall>b \<in> set (new @ [a]). aw_made s ! b = ?m ! b) \<and> (\<forall>b \<in> set rest. \<not> ar_visible (aw_made s ! b)) \<and>
      (\<forall>j < length items. right (fst (items ! j)) (snd (items ! j)) u (aw_made s ! (shown ! j))))"
    by (rule Cons.IH) (use Cons.prems(1) step f t hidden in \<open>auto simp: made2_def\<close>)
  then obtain shown rest where sr: "keeps w u" "aw_pool s = new @ (a # shown) @ rest" "pool_ok s" "length shown = length items"
      "length (aw_made s) = length ?m + (length items - length old1)"
      "\<And>b. b \<in> set new \<Longrightarrow> aw_made s ! b = ?m ! b" "aw_made s ! a = ?m ! a" "\<forall>b \<in> set rest. \<not> ar_visible (aw_made s ! b)"
      "\<And>j. j < length items \<Longrightarrow> right (fst (items ! j)) (snd (items ! j)) u (aw_made s ! (shown ! j))"
    by auto
  have "right key avg w (?m ! a)"
    using drawn [of key avg v f "made2 ! a"] f t(1) by (simp add: w_def made2_def)
  then have "right key avg u (aw_made s ! a)" using stable sr(1,7) by simp
  then have "\<forall>j < length (item # items). right (fst ((item # items) ! j)) (snd ((item # items) ! j)) u (aw_made s ! ((a # shown) ! j))"
    using sr(9) by (simp add: item nth_Cons')
  moreover have "aw_made s ! b = made ! b" if "b \<in> set new" for b
  proof -
    have "b < length made" "b \<noteq> a" using that Cons.prems(3) t(2) by (auto simp flip: lessThan_iff)
    then show ?thesis using sr(6) [OF that] same by simp
  qed
  moreover have "length (aw_made s) = length made + (length (item # items) - length old)"
    using sr(5) t(5,6) by (simp add: made2_def)
  moreover have "keeps v u" using keeps_trans [OF objects_keep] sr(1) by (simp add: w_def)
  ultimately show ?case using sr(2-4,8) by (intro conjI exI [of _ "a # shown"] exI [of _ rest]) auto
qed

lemma update_shows:
  assumes "update_arrows objects draw items (v, s) = (None, u, s')" "pool_ok s"
  shows "pool_ok s' \<and> keeps v u \<and> length items \<le> length (aw_pool s') \<and>
    length (aw_made s') = max (length (aw_made s)) (length items) \<and>
    (\<forall>j < length items. right (fst (items ! j)) (snd (items ! j)) u (aw_made s' ! (aw_pool s' ! j))) \<and>
    (\<forall>j < length (aw_pool s'). length items \<le> j \<longrightarrow> \<not> ar_visible (aw_made s' ! (aw_pool s' ! j)))"
proof -
  have l: "length (aw_pool s) = length (aw_made s)"
    using assms(2) distinct_card [of "aw_pool s"] by (simp add: pool_ok_def)
  have "keeps v u \<and> (\<exists>shown rest. aw_pool s' = [] @ shown @ rest \<and> pool_ok s' \<and> length shown = length items \<and>
      length (aw_made s') = length (hide_all (aw_pool s) (aw_made s)) + (length items - length (aw_pool s)) \<and>
      (\<forall>a \<in> set []. aw_made s' ! a = hide_all (aw_pool s) (aw_made s) ! a) \<and> (\<forall>a \<in> set rest. \<not> ar_visible (aw_made s' ! a)) \<and>
      (\<forall>j < length items. right (fst (items ! j)) (snd (items ! j)) u (aw_made s' ! (shown ! j))))"
    by (rule loop_shows) (use assms in \<open>auto simp: update_arrows_def pool_ok_def hide_all_nth\<close>)
  then obtain shown rest where "keeps v u" "aw_pool s' = shown @ rest" "pool_ok s'" "length shown = length items"
      "length (aw_made s') = max (length (aw_made s)) (length items)" "\<forall>a \<in> set rest. \<not> ar_visible (aw_made s' ! a)"
      "\<forall>j < length items. right (fst (items ! j)) (snd (items ! j)) u (aw_made s' ! (shown ! j))"
    by (auto simp: hide_all_nth l)
  then show ?thesis by (auto simp: nth_append)
qed

end

section \<open>Transmissions and drops\<close>

definition nodes_stay :: "view \<Rightarrow> view \<Rightarrow> bool" where
  "nodes_stay v u \<longleftrightarrow> (\<forall>d p. position_of d v = Some p \<longrightarrow> position_of d u = Some p)"

text \<open>A visible arrow from the transmitter to the receiver, with its rate over the window.\<close>

definition transmission_right :: "rat \<Rightarrow> nat \<times> nat \<Rightarrow> nat \<times> nat \<Rightarrow> view \<Rightarrow> arrow \<Rightarrow> bool" where
  "transmission_right period key avg v a \<longleftrightarrow> ar_visible a \<and> ar_kbps a = kbit_rate (fst avg) (snd avg) period \<and> 1 / 10 \<le> ar_width a \<and>
     (\<exists>p q. position_of (Node_End (fst key)) v = Some p \<and> position_of (Node_End (snd key)) v = Some q \<and>
       ar_points a = Some (p, q) \<and> (ar_forward a \<longleftrightarrow> fst p \<le> fst q))"

definition drop_right :: "rat \<Rightarrow> rat \<Rightarrow> nat \<Rightarrow> nat \<times> nat \<Rightarrow> view \<Rightarrow> arrow \<Rightarrow> bool" where
  "drop_right period edge_y key avg v a \<longleftrightarrow> ar_visible a \<and> ar_kbps a = kbit_rate (fst avg) (snd avg) period \<and> 1 / 10 \<le> ar_width a \<and>
     (\<exists>x y. position_of (Node_End key) v = Some (x, y) \<and> ar_points a = Some ((x, y), (x, edge_y)))"

lemma nodes_stay_get_node: "nodes_stay v (get_node i v)"
  using extends_get_node(1) by (auto simp: nodes_stay_def extends_def)

lemma line_width_bound: "line_width b n period k = Inr w \<Longrightarrow> 1 \<le> w * 10"
  by (auto simp: line_width_def Let_def split: if_splits)

lemma draw_transmissionE:
  assumes "draw_transmission period k place key avg v = Inr f"
  obtains w p q where "line_width (fst avg) (snd avg) period k = Inr w"
    "position_of (Node_End (fst key)) v = Some p" "position_of (Node_End (snd key)) v = Some q"
    "f = (\<lambda>a. a\<lparr>ar_width := w, ar_points := Some (p, q), ar_kbps := kbit_rate (fst avg) (snd avg) period,
              ar_forward := (fst q - fst p \<ge> 0), ar_label_at := place p q,
              ar_label_y := (if fst q - fst p \<ge> 0 then - w / 2 else w / 2)\<rparr>)"
  using assms unfolding draw_transmission_def
  by (cases "line_width (fst avg) (snd avg) period k"; cases "position_of (Node_End (fst key)) v";
      cases "position_of (Node_End (snd key)) v") simp_all

interpretation tx: arrow_painter "\<lambda>key v. get_node (snd key) (get_node (fst key) v)" "draw_transmission period k place"
    "transmission_right period" nodes_stay for period k place
proof
  show "nodes_stay v u \<Longrightarrow> nodes_stay u w \<Longrightarrow> nodes_stay v w" for v u w by (simp add: nodes_stay_def)
  show "nodes_stay v (get_node (snd key) (get_node (fst key) v))" for v key
    using nodes_stay_get_node [of v "fst key"] nodes_stay_get_node [of "get_node (fst key) v" "snd key"] by (simp add: nodes_stay_def)
  show "transmission_right period key avg (get_node (snd key) (get_node (fst key) v)) (f a)"
    if "draw_transmission period k place key avg (get_node (snd key) (get_node (fst key) v)) = Inr f" "ar_visible a" for key avg v f a
    using that(1) by (rule draw_transmissionE) (use that(2) in \<open>simp add: transmission_right_def line_width_bound\<close>)
  show "transmission_right period key avg v a \<Longrightarrow> nodes_stay v u \<Longrightarrow> transmission_right period key avg u a" for key avg v u a
    by (auto simp: transmission_right_def nodes_stay_def)
qed (simp add: nodes_stay_def)

interpretation dp: arrow_painter get_node "draw_drop period k edge_y" "drop_right period edge_y" nodes_stay for period k edge_y
proof
  show "nodes_stay v u \<Longrightarrow> nodes_stay u w \<Longrightarrow> nodes_stay v w" for v u w by (simp add: nodes_stay_def)
  show "nodes_stay v (get_node key v)" for v key by (rule nodes_stay_get_node)
  show "drop_right period edge_y key avg v a \<Longrightarrow> nodes_stay v u \<Longrightarrow> drop_right period edge_y key avg u a" for key avg v u a
    by (auto simp: drop_right_def nodes_stay_def)
qed (auto simp: nodes_stay_def drop_right_def draw_drop_def res_bind_eq_Inr split: option.splits dest!: line_width_bound)


definition one_transmission :: "tx_sample list list" where
  "one_transmission = [[\<lparr>ts_transmitter = 0, ts_receiver = 1, ts_bytes = 1000\<rparr>]]"


text \<open>The same for the drops, with a line to the edge of the screen.\<close>

lemma arrows_show_drops:
  assumes "pool_ok s" "update_drops_view period node_size edge_y sets (v, s) = (None, u, s')"
  shows "pool_ok s' \<and> (\<forall>j < length (drops_average sets).
      drop_right period edge_y (fst (drops_average sets ! j)) (snd (drops_average sets ! j)) u (aw_made s' ! (aw_pool s' ! j))) \<and>
    (\<forall>j < length (aw_pool s'). length (drops_average sets) \<le> j \<longrightarrow> \<not> ar_visible (aw_made s' ! (aw_pool s' ! j)))"
  using dp.update_shows [where period = period and k = "node_size / 5" and edge_y = edge_y and items = "drops_average sets"] assms
  by (auto simp: update_drops_view_def)

section \<open>An average of no bytes\<close>

text \<open>An arrow that is visible and no longer in the pool.\<close>

definition lost :: "nat \<Rightarrow> arrows \<Rightarrow> bool" where
  "lost a s \<longleftrightarrow> a < length (aw_made s) \<and> ar_visible (aw_made s ! a) \<and> a \<notin> set (aw_pool s)"

lemma loop_lost:
  assumes "arrow_loop objects draw items v made old new = (r, u, s)"
    and "a < length made" "ar_visible (made ! a)" "a \<notin> set old" "a \<notin> set new"
  shows "lost a s"
  using assms
proof (induction items arbitrary: v made old new)
  case Nil
  then show ?case by (auto simp: lost_def)
next
  case (Cons item items)
  obtain key avg where item: "item = (key, avg)" by (cases item)
  obtain b made1 old1 where tk: "take_arrow made old = (b, made1, old1)" by (cases "take_arrow made old")
  have t: "a < length made1" "made1 ! a = made ! a" "a \<noteq> b" "a \<notin> set old1"
    using tk Cons.prems(2,4) last_in_set [of old]
    by (auto simp: take_arrow_def nth_append dest: in_set_butlastD split: if_splits)
  show ?case
  proof (cases "draw key avg (objects key v)")
    case (Inl e)
    then show ?thesis using Cons.prems t by (auto simp: item tk lost_def Let_def)
  next
    case (Inr f)
    show ?thesis
      by (rule Cons.IH [of "objects key v" "made1[b := f (made1[b := (made1 ! b)\<lparr>ar_visible := True\<rparr>] ! b)]" old1 "new @ [b]"])
        (use Cons.prems Inr t in \<open>auto simp: item tk Let_def\<close>)
  qed
qed

lemma update_keeps_lost:
  assumes "lost a s" "update_arrows objects draw items (v, s) = (r, u, s')"
  shows "lost a s'"
proof (rule loop_lost)
  show "arrow_loop objects draw items v (hide_all (aw_pool s) (aw_made s)) (aw_pool s) [] = (r, u, s')"
    using assms(2) by (simp add: update_arrows_def)
qed (use assms(1) in \<open>auto simp: lost_def hide_all_nth\<close>)

lemma loop_fails_lost:
  assumes "arrow_loop objects draw items v made old new = (Some e, u, s)" "distinct (new @ old)" "set (new @ old) = {..<length made}"
  shows "\<exists>a. lost a s"
  using assms
proof (induction items arbitrary: v made old new)
  case (Cons item items)
  obtain key avg where item: "item = (key, avg)" by (cases item)
  obtain a made1 old1 where tk: "take_arrow made old = (a, made1, old1)" by (cases "take_arrow made old")
  note t = take_arrow_ids [OF tk Cons.prems(2,3)]
  show ?case
  proof (cases "draw key avg (objects key v)")
    case (Inl e')
    then have "s = \<lparr>aw_made = made1[a := (made1 ! a)\<lparr>ar_visible := True\<rparr>], aw_pool = old1\<rparr>"
      using Cons.prems(1) by (simp add: item tk Let_def)
    then have "lost a s" using t by (simp add: lost_def)
    then show ?thesis by blast
  next
    case (Inr f)
    show ?thesis
      by (rule Cons.IH) (use Cons.prems(1) Inr t in \<open>auto simp: item tk Let_def\<close>)
  qed
qed simp

text \<open>Any later update, with any parameters.\<close>

inductive shows_later :: "view \<times> arrows \<Rightarrow> view \<times> arrows \<Rightarrow> bool" where
  "update_transmissions_view period node_size place sets vs = (r, us) \<Longrightarrow> shows_later vs us"

text \<open>A pair whose samples hold no bytes makes the logarithm raise in the middle of the update, in the
  timer callback: an arrow stays on the screen that no later update hides, whatever it draws.
\<close>

theorem empty_transmission_loses_arrow:
  assumes "pool_ok s" "((i, j), (0, n)) \<in> set (transmissions_average sets)"
    and "update_transmissions_view period node_size place sets (v, s) = (r, u, s')"
  shows "(\<exists>e. r = Some e) \<and> (\<exists>a. \<forall>w s''. shows_later\<^sup>*\<^sup>* (u, s') (w, s'') \<longrightarrow> lost a s'')"
proof -
  let ?items = "transmissions_average sets"
  have "r \<noteq> None"
  proof
    assume "r = None"
    then have a: "arrow_loop (\<lambda>key v. get_node (snd key) (get_node (fst key) v)) (draw_transmission period (node_size / 5) place)
        ?items v (hide_all (aw_pool s) (aw_made s)) (aw_pool s) [] = (None, u, s')"
      using assms(3) by (simp add: update_transmissions_view_def update_arrows_def)
    have "arrow_loop obs (draw_transmission period k place) items v made old new \<noteq> (None, u, s')"
      if "((i, j), (0, n)) \<in> set items" for obs k items v made old new
      using that
    proof (induction items arbitrary: v made old new)
      case (Cons item items)
      have z: "draw_transmission period k place key (0, n) v = Inl ValueError" for key v
        by (simp add: draw_transmission_def line_width_def)
      show ?case
        using Cons z by (cases item) (auto simp: Let_def split: prod.splits sum.splits)
    qed simp
    then show False using a assms(2) by blast
  qed
  then obtain e where e: "r = Some e" by blast
  have "\<exists>a. lost a s'"
  proof (rule loop_fails_lost)
    show "arrow_loop (\<lambda>key v. get_node (snd key) (get_node (fst key) v)) (draw_transmission period (node_size / 5) place)
        ?items v (hide_all (aw_pool s) (aw_made s)) (aw_pool s) [] = (Some e, u, s')"
      using assms(3) e by (simp add: update_transmissions_view_def update_arrows_def)
  qed (use assms(1) in \<open>auto simp: pool_ok_def hide_all_nth\<close>)
  then obtain a where a: "lost a s'" by blast
  have "lost a (snd ws)" if "shows_later\<^sup>*\<^sup>* us ws" "lost a (snd us)" for us ws
    using that
  proof (induction rule: rtranclp_induct)
    case (step x y)
    then show ?case
      by (cases x; cases y) (auto simp: update_transmissions_view_def elim!: shows_later.cases intro: update_keeps_lost)
  qed simp
  from this [of "(u, s')"] have "\<forall>w s''. shows_later\<^sup>*\<^sup>* (u, s') (w, s'') \<longrightarrow> lost a s''" using a by fastforce
  then show ?thesis using e by blast
qed

definition empty_transmission :: "tx_sample list list" where
  "empty_transmission = [[\<lparr>ts_transmitter = 0, ts_receiver = 1, ts_bytes = 0\<rparr>]]"

theorem empty_transmission_loses_arrow_witness:
  "\<exists>e u s' a. update_transmissions_view (1 / 10) 1 (\<lambda>p q. p) empty_transmission
      (start_view two_nodes test_window, \<lparr>aw_made = [], aw_pool = []\<rparr>) = (Some e, u, s') \<and> lost a s'"
proof -
  obtain r u s' where r: "update_transmissions_view (1 / 10) 1 (\<lambda>p q. p) empty_transmission
      (start_view two_nodes test_window, \<lparr>aw_made = [], aw_pool = []\<rparr>) = (r, u, s')" by (metis prod_cases3)
  have avg: "transmissions_average empty_transmission = [((0, 1), (0, 1))]" by code_simp
  have "pool_ok \<lparr>aw_made = [], aw_pool = []\<rparr>" by (simp add: pool_ok_def)
  from empty_transmission_loses_arrow [OF this _ r, of 0 1 1] obtain e a where
    "r = Some e" "\<forall>w s''. shows_later\<^sup>*\<^sup>* (u, s') (w, s'') \<longrightarrow> lost a s''" by (auto simp: avg)
  then show ?thesis using r by blast
qed

section \<open>Rates of the interfaces\<close>

text \<open>All samples of a node, in the order of the periods.\<close>

definition node_history :: "nat \<Rightarrow> (nat \<times> raw_stats list) list list \<Rightarrow> raw_stats list list" where
  "node_history i periods = map snd (filter (\<lambda>(j, _). j = i) (concat periods))"

lemma collect_append: "collect_statistics (xs @ ys) c = collect_statistics ys (collect_statistics xs c)"
  by (induction xs c rule: collect_statistics.induct) (simp_all add: Let_def)

lemma collect_concat: "fold collect_statistics periods c = collect_statistics (concat periods) c"
  by (induction periods arbitrary: c) (simp_all add: collect_append)

lemma collect_history:
  "map_of (fold collect_statistics periods []) i =
     (let h = node_history i periods in if h = [] then None else Some (drop (length h - NODE_STATISTICS_MEMORY) h))"
proof -
  have "map_of (collect_statistics xs []) i =
      (let h = map snd (filter (\<lambda>(j, _). j = i) xs) in if h = [] then None else Some (drop (length h - NODE_STATISTICS_MEMORY) h))" for xs
  proof (induction xs rule: rev_induct)
    case (snoc x xs)
    obtain j s where x: "x = (j, s)" by (cases x)
    let ?h = "map snd (filter (\<lambda>(j, _). j = i) xs)"
    have "(case map_of (collect_statistics xs []) i of None \<Rightarrow> [] | Some l \<Rightarrow> l) = drop (length ?h - NODE_STATISTICS_MEMORY) ?h"
      using snoc by (simp add: Let_def)
    then show ?case
      using snoc trim_window_snoc [of NODE_STATISTICS_MEMORY ?h s] by (cases "j = i") (simp_all add: x collect_append Let_def)
  qed simp
  then show ?thesis by (simp add: collect_concat node_history_def)
qed

lemma all_rates_spec:
  "all_rates k first i bs =
     (if bs = [] \<or> i + length bs \<le> length first then Inr (map2 (interface_rates k) (drop i first) bs) else Inl IndexError)"
proof (induction bs arbitrary: i)
  case (Cons b bs)
  show ?case
  proof (cases "i < length first")
    case True
    then have "drop i first = first ! i # drop (Suc i) first" by (simp add: Cons_nth_drop_Suc)
    then show ?thesis using Cons.IH [of "Suc i"] True by (cases bs) auto
  qed simp
qed simp

text \<open>
  With ten samples or more the rates are the differences of the counters over the last ten
  periods, divided by nine times the present period; a device added within them raises.
\<close>

theorem interface_rates_over_window:
  assumes "NODE_STATISTICS_MEMORY \<le> length (node_history i periods)"
  defines "h \<equiv> node_history i periods"
  shows "get_interface_statistics period i (fold collect_statistics periods []) =
    (if length (last h) \<le> length (h ! (length h - 10))
     then Inr (map2 (interface_rates (period * 9)) (h ! (length h - 10)) (last h)) else Inl IndexError)"
proof -
  have l: "10 \<le> length h" using assms by (simp add: NODE_STATISTICS_MEMORY_def)
  let ?w = "drop (length h - 10) h"
  have "map_of (fold collect_statistics periods []) i = Some ?w"
    using l collect_history [of periods i] by (auto simp: h_def NODE_STATISTICS_MEMORY_def Let_def)
  moreover have "length ?w = 10" "hd ?w = h ! (length h - 10)" "last ?w = last h"
    using l by (auto simp: hd_drop_conv_nth last_drop)
  ultimately show ?thesis
    by (simp add: get_interface_statistics_def NODE_STATISTICS_MEMORY_def all_rates_spec)
qed

definition counting :: "(nat \<times> raw_stats list) list list" where
  "counting = map (\<lambda>n. [(3, [\<lparr>rs_tx_packets = n, rs_tx_bytes = 100 * n, rs_rx_packets = 0, rs_rx_bytes = 0\<rparr>])]) [0..<12]"

theorem interface_rates_over_window_witness:
  "get_interface_statistics (1 / 10) 3 (fold collect_statistics counting []) =
   Inr [interface_rates (9 / 10) \<lparr>rs_tx_packets = 2, rs_tx_bytes = 200, rs_rx_packets = 0, rs_rx_bytes = 0\<rparr>
     \<lparr>rs_tx_packets = 11, rs_tx_bytes = 1100, rs_rx_packets = 0, rs_rx_bytes = 0\<rparr>]"
proof -
  have h: "node_history 3 counting = map (\<lambda>n. [\<lparr>rs_tx_packets = n, rs_tx_bytes = 100 * n, rs_rx_packets = 0, rs_rx_bytes = 0\<rparr>]) [0..<12]"
    by (simp add: node_history_def counting_def upt_rec_numeral)
  have "NODE_STATISTICS_MEMORY \<le> length (node_history 3 counting)" by (simp add: h NODE_STATISTICS_MEMORY_def)
  from interface_rates_over_window [OF this, of "1 / 10"] show ?thesis
    by (simp add: h last_map last_upt numeral_2_eq_2)
qed

end
