(* ===== verification/Viz_Windows.thy ===== *)
theory Viz_Windows
  imports Viz_Traffic
begin

text \<open>
  The information windows of the visualizer (\<^verbatim>\<open>plugins/ipv4_routing_table.py\<close>, \<^verbatim>\<open>plugins/olsr.py\<close>,
  \<^verbatim>\<open>plugins/show_last_packets.py\<close>, \<^verbatim>\<open>plugins/interface_statistics.py\<close>), how \<open>Visualizer\<close> keeps them, and
  \<open>update_view\<close> as a whole.  What the objects of ns-3 answer is the record \<open>answers\<close>; a table of GTK is
  the list of its rows.
\<close>

section \<open>Answers of the simulation\<close>

record route =
  ro_dest :: string
  ro_next :: string
  ro_interface :: nat
  ro_distance :: nat

datatype protocol = Static_Routing "route list" | Global_Routing "route list" | List_Routing "(protocol \<times> int) list" | Other_Routing

text \<open>
  A node may have no IPv4 object, and that no routing protocol; the device of an interface is given by its name, which is
  empty when it has none.
\<close>

record ns3_node =
  nn_ipv4 :: "protocol option option"
  nn_olsr :: "route list option"
  nn_device :: "nat \<Rightarrow> string option"

record packet_sample =
  ps_time :: string
  ps_device :: "(string \<times> nat) option"
  ps_size :: nat
  ps_contents :: string

record last_packets =
  lp_transmitted :: "packet_sample list"
  lp_received :: "packet_sample list"
  lp_dropped :: "packet_sample list"

record answers =
  an_node :: "nat \<Rightarrow> ns3_node"
  an_packets :: "nat \<Rightarrow> last_packets"
  an_device_name :: "nat \<Rightarrow> nat \<Rightarrow> string"
  an_collector :: collector
  an_network :: network
  an_canvas :: canvas_lib
  an_period :: rat
  an_node_size :: rat
  an_place :: "rat \<times> rat \<Rightarrow> rat \<times> rat \<Rightarrow> rat \<times> rat"
  an_edge_y :: rat
  an_transmissions :: "tx_sample list list"
  an_drops :: "drop_sample list list"

section \<open>Tables\<close>

definition name_or_number :: "string \<Rightarrow> nat \<Rightarrow> string" where
  "name_or_number name i = (if name = [] then ''(interface '' @ str_nat i @ '')'' else name)"

definition interface_name :: "ns3_node \<Rightarrow> nat \<Rightarrow> string" where
  "interface_name n i = (case nn_device n i of None \<Rightarrow> ''lo'' | Some name \<Rightarrow> name_or_number name i)"

fun table_of :: "int \<Rightarrow> protocol \<Rightarrow> (route list \<times> string \<times> int) list" where
  "table_of prio (Static_Routing rs) = [(rs, ''static'', prio)]"
| "table_of prio (Global_Routing rs) = [(rs, ''global'', prio)]"
| "table_of prio _ = []"

fun routing_protocols :: "protocol \<Rightarrow> (route list \<times> string \<times> int) list" where
  "routing_protocols (Static_Routing rs) = [(rs, ''static'', 0)]"
| "routing_protocols (List_Routing ps) = concat (map (\<lambda>(p, prio). table_of prio p) ps)"
| "routing_protocols _ = []"

type_synonym ipv4_row = "string \<times> string \<times> string \<times> string \<times> int"

definition ipv4_row :: "ns3_node \<Rightarrow> string \<Rightarrow> int \<Rightarrow> route \<Rightarrow> ipv4_row" where
  "ipv4_row n kind prio r = (ro_dest r, ro_next r, interface_name n (ro_interface r), kind, prio)"

definition update_ipv4 :: "ns3_node \<Rightarrow> ipv4_row list \<Rightarrow> ipv4_row list res" where
  "update_ipv4 n rows =
     (case nn_ipv4 n of
        None \<Rightarrow> Inl AttributeError
      | Some None \<Rightarrow> Inr rows
      | Some (Some p) \<Rightarrow>
          if routing_protocols p = [] then Inr rows
          else Inr (concat (map (\<lambda>(rs, kind, prio). map (ipv4_row n kind prio) rs) (routing_protocols p))))"

text \<open>A row that has been appended and not set is \<open>None\<close>.\<close>

type_synonym olsr_row = "(string \<times> string \<times> string \<times> nat) option"

definition update_olsr :: "ns3_node \<Rightarrow> olsr_row list \<Rightarrow> exn option \<times> olsr_row list" where
  "update_olsr n rows =
     (case nn_olsr n of
        None \<Rightarrow> (None, rows)
      | Some rs \<Rightarrow>
          if nn_ipv4 n = None \<and> rs \<noteq> [] then (Some AttributeError, [None])
          else (None, map (\<lambda>r. Some (ro_dest r, ro_next r, interface_name n (ro_interface r), ro_distance r)) rs))"

type_synonym packet_row = "string \<times> string \<times> string \<times> string"

definition packet_row :: "packet_sample \<Rightarrow> packet_row" where
  "packet_row s =
     (ps_time s, case ps_device s of None \<Rightarrow> ''(unknown)'' | Some (name, i) \<Rightarrow> name_or_number name i, str_nat (ps_size s), ps_contents s)"

fun stats_rows :: "(nat \<Rightarrow> string) \<Rightarrow> nat \<Rightarrow> dev_stats list \<Rightarrow> (string \<times> dev_stats) list" where
  "stats_rows names i [] = []"
| "stats_rows names i (s # ss) = (name_or_number (names i) i, s) # stats_rows names (i + 1) ss"

section \<open>Windows\<close>

datatype info_window =
    Routing_Window nat "ipv4_row list"
  | Olsr_Window nat "olsr_row list"
  | Packets_Window nat "packet_row list" "packet_row list" "packet_row list"
  | Statistics_Window nat "(string \<times> dev_stats) list"

fun update_window :: "answers \<Rightarrow> info_window \<Rightarrow> exn option \<times> info_window" where
  "update_window a (Routing_Window i rows) =
     (case update_ipv4 (an_node a i) rows of Inl e \<Rightarrow> (Some e, Routing_Window i rows) | Inr rows \<Rightarrow> (None, Routing_Window i rows))"
| "update_window a (Olsr_Window i rows) = map_prod id (Olsr_Window i) (update_olsr (an_node a i) rows)"
| "update_window a (Packets_Window i tx rx dropped) =
     (let p = an_packets a i in
      (None, Packets_Window i (map packet_row (lp_transmitted p)) (map packet_row (lp_received p)) (map packet_row (lp_dropped p))))"
| "update_window a (Statistics_Window i rows) =
     (case get_interface_statistics (an_period a) i (an_collector a) of
        Inl e \<Rightarrow> (Some e, Statistics_Window i rows)
      | Inr ss \<Rightarrow> (None, Statistics_Window i (stats_rows (an_device_name a i) 0 ss)))"

text \<open>The windows the visualizer keeps: a number for its identity, whether it is shown, and its table.\<close>

record opened =
  op_id :: nat
  op_shown :: bool
  op_window :: info_window

record screen =
  sc_view :: view
  sc_tx :: arrows
  sc_drops :: arrows
  sc_windows :: "opened list"
  sc_next :: nat

text \<open>
  A window is put into the list, then updated, then shown: when updating raises it is neither
  shown nor taken out.
\<close>

definition add_information_window :: "answers \<Rightarrow> info_window \<Rightarrow> screen \<Rightarrow> exn option \<times> screen" where
  "add_information_window a w s =
     (let (e, w) = update_window a w in
      (e, s\<lparr>sc_windows := sc_windows s @ [\<lparr>op_id = sc_next s, op_shown = (e = None), op_window = w\<rparr>], sc_next := sc_next s + 1\<rparr>))"

definition remove_information_window :: "opened \<Rightarrow> screen \<Rightarrow> screen res" where
  "remove_information_window o1 s =
     (if o1 \<in> set (sc_windows s) then Inr (s\<lparr>sc_windows := remove1 o1 (sc_windows s)\<rparr>) else Inl ValueError)"

fun update_windows :: "answers \<Rightarrow> opened list \<Rightarrow> exn option \<times> opened list" where
  "update_windows a [] = (None, [])"
| "update_windows a (o1 # os) =
     (let (e, w) = update_window a (op_window o1); o1 = o1\<lparr>op_window := w\<rparr> in
      (case e of
         Some x \<Rightarrow> (Some x, o1 # os)
       | None \<Rightarrow> map_prod id ((#) o1) (update_windows a os)))"

text \<open>\<open>Visualizer.update_view\<close>, before the signal to the plugins.\<close>

definition refresh_view :: "answers \<Rightarrow> screen \<Rightarrow> exn option \<times> screen" where
  "refresh_view a s =
     (let v = update_node_positions (an_canvas a) (an_network a) (sc_view s);
          (e, ws) = update_windows a (sc_windows s);
          s = s\<lparr>sc_view := v, sc_windows := ws\<rparr> in
      (case e of
         Some x \<Rightarrow> (Some x, s)
       | None \<Rightarrow>
           (let (e, v, tx) = update_transmissions_view (an_period a) (an_node_size a) (an_place a) (an_transmissions a) (v, sc_tx s);
                s = s\<lparr>sc_view := v, sc_tx := tx\<rparr> in
            (case e of
               Some x \<Rightarrow> (Some x, s)
             | None \<Rightarrow>
                 (let (e, v, drops) = update_drops_view (an_period a) (an_node_size a) (an_edge_y a) (an_drops a) (v, sc_drops s) in
                  (e, s\<lparr>sc_view := v, sc_drops := drops\<rparr>))))))"

section \<open>The filter of packets\<close>

record type_ids =
  ty_count :: nat
  ty_parent :: "nat \<Rightarrow> nat option"
  ty_name :: "nat \<Rightarrow> string"
  ty_header :: nat
  ty_trailer :: nat

partial_function (option) is_header_type :: "type_ids \<Rightarrow> nat \<Rightarrow> bool option" where
  "is_header_type t i =
     (if i = ty_header t \<or> i = ty_trailer t then Some True
      else (case ty_parent t i of None \<Rightarrow> Some False | Some p \<Rightarrow> is_header_type t p))"

record typeid_config =
  tc_name :: string
  tc_selected :: bool
  tc_typeid :: nat

fun packet_filter_list :: "type_ids \<Rightarrow> nat list \<Rightarrow> typeid_config list option" where
  "packet_filter_list t [] = Some []"
| "packet_filter_list t (i # is) =
     (case is_header_type t i of
        None \<Rightarrow> None
      | Some good \<Rightarrow>
          if \<not> good \<or> i \<in> {ty_header t, ty_trailer t} then packet_filter_list t is
          else map_option ((#) \<lparr>tc_name = ty_name t i, tc_selected = True, tc_typeid = i\<rparr>) (packet_filter_list t is))"

datatype filter_mode = FILTER_HEADERS_AND | FILTER_HEADERS_OR

record capture =
  cp_mode :: filter_mode
  cp_last :: nat
  cp_headers :: "nat list"

text \<open>The window and the options the simulation helper was given, the newest first.\<close>

record filter_window =
  fw_list :: "typeid_config list"
  fw_and :: bool
  fw_sent :: "capture list"

definition capture_options :: "filter_window \<Rightarrow> capture" where
  "capture_options w =
     \<lparr>cp_mode = (if fw_and w then FILTER_HEADERS_AND else FILTER_HEADERS_OR), cp_last = 100,
      cp_headers = map tc_typeid (filter tc_selected (fw_list w))\<rparr>"

definition update_capture_options :: "filter_window \<Rightarrow> filter_window" where
  "update_capture_options w = w\<lparr>fw_sent := capture_options w # fw_sent w\<rparr>"

definition select_all :: "bool \<Rightarrow> filter_window \<Rightarrow> filter_window" where
  "select_all b w = update_capture_options (w\<lparr>fw_list := map (\<lambda>c. c\<lparr>tc_selected := b\<rparr>) (fw_list w)\<rparr>)"

definition toggle_and :: "bool \<Rightarrow> filter_window \<Rightarrow> filter_window" where
  "toggle_and b w = update_capture_options (w\<lparr>fw_and := b\<rparr>)"

definition cell_edited :: "nat \<Rightarrow> bool \<Rightarrow> filter_window \<Rightarrow> filter_window" where
  "cell_edited k b w = update_capture_options (w\<lparr>fw_list := (fw_list w)[k := (fw_list w ! k)\<lparr>tc_selected := b\<rparr>]\<rparr>)"

definition new_filter_window :: "type_ids \<Rightarrow> filter_window option" where
  "new_filter_window t =
     map_option (\<lambda>l. update_capture_options \<lparr>fw_list = l, fw_and = False, fw_sent = []\<rparr>) (packet_filter_list t [0..<ty_count t])"

inductive filter_step :: "filter_window \<Rightarrow> filter_window \<Rightarrow> bool" where
  Select: "filter_step w (select_all b w)"
| Toggle: "b \<noteq> fw_and w \<Longrightarrow> filter_step w (toggle_and b w)"
| Edit: "k < length (fw_list w) \<Longrightarrow> filter_step w (cell_edited k b w)"


text \<open>What the user and the timer do; \<open>P\<close> are the answers the simulation may give.\<close>

fun new_window :: "info_window \<Rightarrow> bool" where
  "new_window (Routing_Window i rows) \<longleftrightarrow> rows = []"
| "new_window (Olsr_Window i rows) \<longleftrightarrow> rows = []"
| "new_window (Packets_Window i tx rx dropped) \<longleftrightarrow> tx = [] \<and> rx = [] \<and> dropped = []"
| "new_window (Statistics_Window i rows) \<longleftrightarrow> rows = []"

inductive screen_step :: "(answers \<Rightarrow> bool) \<Rightarrow> screen \<Rightarrow> screen \<Rightarrow> bool" for P where
  Open: "P a \<Longrightarrow> new_window w \<Longrightarrow> screen_step P s (snd (add_information_window a w s))"
| Close: "op_shown o1 \<Longrightarrow> remove_information_window o1 s = Inr s' \<Longrightarrow> screen_step P s s'"
| Refresh: "P a \<Longrightarrow> screen_step P s (snd (refresh_view a s))"

section \<open>Updating all windows\<close>

definition refreshed :: "answers \<Rightarrow> opened \<Rightarrow> opened" where
  "refreshed a o1 = o1\<lparr>op_window := snd (update_window a (op_window o1))\<rparr>"

abbreviation can_update :: "answers \<Rightarrow> opened \<Rightarrow> bool" where
  "can_update a o1 \<equiv> fst (update_window a (op_window o1)) = None"

text \<open>The windows up to the first that can not be updated are refreshed, that one as far as it gets, the rest not at all.\<close>

lemma update_windows_spec:
  "update_windows a os =
     (let k = length (takeWhile (can_update a) os) in
      (if k < length os then fst (update_window a (op_window (os ! k))) else None, map (refreshed a) (take (Suc k) os) @ drop (Suc k) os))"
proof (induction os)
  case (Cons o1 os)
  then show ?case by (auto simp: Let_def refreshed_def split: option.split prod.split)
qed simp

lemma update_windows_error: "fst (update_windows a os) = None \<longleftrightarrow> list_all (can_update a) os"
proof (induction os)
  case (Cons o1 os)
  then show ?case by (auto simp: Let_def split: option.split prod.split)
qed simp

section \<open>A window that can not be updated\<close>

text \<open>A routing window that is not shown.\<close>

definition hidden_routing :: "nat \<Rightarrow> opened \<Rightarrow> bool" where
  "hidden_routing i o1 \<longleftrightarrow> \<not> op_shown o1 \<and> (\<exists>rows. op_window o1 = Routing_Window i rows)"

lemma routing_window_fails: "nn_ipv4 (an_node a i) = None \<Longrightarrow> update_window a (Routing_Window i rows) = (Some AttributeError, Routing_Window i rows)"
  by (simp add: update_ipv4_def)

lemma hidden_update:
  assumes "o1 \<in> set os" "hidden_routing i o1"
  shows "\<exists>o2 \<in> set (snd (update_windows a os)). hidden_routing i o2"
  using assms
proof (induction os)
  case (Cons o2 os)
  have "hidden_routing i (o2\<lparr>op_window := snd (update_window a (op_window o2))\<rparr>)" if "hidden_routing i o2"
    using that by (auto simp: hidden_routing_def split: sum.split)
  then show ?case using Cons by (auto simp: Let_def split: option.split prod.split)
qed simp

lemma refresh_windows: "sc_windows (snd (refresh_view a s)) = snd (update_windows a (sc_windows s))"
  by (simp add: refresh_view_def Let_def split: option.split prod.split)

lemma hidden_step:
  assumes "screen_step P s s'" "o1 \<in> set (sc_windows s)" "hidden_routing i o1"
  shows "\<exists>o2 \<in> set (sc_windows s'). hidden_routing i o2"
  using assms
proof cases
  case (Open a w)
  then show ?thesis using assms(2,3) by (auto simp: add_information_window_def Let_def split: prod.split)
next
  case (Close o2)
  then have "o1 \<noteq> o2" using assms(3) by (auto simp: hidden_routing_def)
  then show ?thesis using Close assms(2,3) by (auto simp: remove_information_window_def in_set_remove1 split: if_splits)
next
  case (Refresh a)
  then show ?thesis using hidden_update [OF assms(2,3)] by (simp add: refresh_windows)
qed

lemma hidden_reachable:
  assumes "(screen_step P)\<^sup>*\<^sup>* s s'" "\<exists>o1 \<in> set (sc_windows s). hidden_routing i o1"
  shows "\<exists>o1 \<in> set (sc_windows s'). hidden_routing i o1"
  using assms by (induction rule: rtranclp_induct) (blast dest: hidden_step)+

lemma refresh_stops:
  assumes "\<not> list_all (can_update a) (sc_windows s)"
  shows "fst (refresh_view a s) \<noteq> None \<and> sc_tx (snd (refresh_view a s)) = sc_tx s \<and> sc_drops (snd (refresh_view a s)) = sc_drops s"
proof -
  obtain x ws where "update_windows a (sc_windows s) = (Some x, ws)"
    using assms update_windows_error [of a "sc_windows s"] by (cases "update_windows a (sc_windows s)") auto
  then show ?thesis by (simp add: refresh_view_def Let_def)
qed

text \<open>C33: opening the routing table of a node without IPv4 raises, and the window is not shown but stays in the list; from
  then on, whatever the user does, every update of the view raises before the transmissions and drops are drawn.
\<close>

theorem routing_window_stops_view:
  assumes "\<And>a. P a \<Longrightarrow> nn_ipv4 (an_node a i) = None" "P a0" "P a"
    "(screen_step P)\<^sup>*\<^sup>* (snd (add_information_window a0 (Routing_Window i []) s0)) s"
  shows "fst (add_information_window a0 (Routing_Window i []) s0) = Some AttributeError \<and>
    fst (refresh_view a s) \<noteq> None \<and> sc_tx (snd (refresh_view a s)) = sc_tx s \<and> sc_drops (snd (refresh_view a s)) = sc_drops s"
proof -
  let ?s = "snd (add_information_window a0 (Routing_Window i []) s0)"
  have fails: "update_window b (Routing_Window i rows) = (Some AttributeError, Routing_Window i rows)" if "P b" for b rows
    using routing_window_fails assms(1) [OF that] by simp
  have "\<exists>o1 \<in> set (sc_windows ?s). hidden_routing i o1"
    by (auto simp: add_information_window_def fails [OF assms(2)] hidden_routing_def simp del: update_window.simps)
  from hidden_reachable [OF assms(4) this] obtain o1 where o1: "o1 \<in> set (sc_windows s)" "hidden_routing i o1" by blast
  then have "\<not> can_update a o1" using fails [OF assms(3)] by (auto simp: hidden_routing_def simp del: update_window.simps)
  then have "\<not> list_all (can_update a) (sc_windows s)" using o1(1) by (auto simp: list_all_iff)
  from refresh_stops [OF this] show ?thesis
    by (simp add: add_information_window_def fails [OF assms(2)] del: update_window.simps)
qed

definition bare_node :: ns3_node where
  "bare_node = \<lparr>nn_ipv4 = None, nn_olsr = None, nn_device = (\<lambda>_. None)\<rparr>"

definition bare_answers :: answers where
  "bare_answers = \<lparr>an_node = (\<lambda>_. bare_node), an_packets = (\<lambda>_. \<lparr>lp_transmitted = [], lp_received = [], lp_dropped = []\<rparr>),
     an_device_name = (\<lambda>_ _. []), an_collector = [], an_network = two_nodes,
     an_canvas = \<lparr>cl_to_pixels = (\<lambda>_ p. p), cl_from_pixels = (\<lambda>_ p. p), cl_rescale = (\<lambda>_ a. a)\<rparr>, an_period = 1 / 10, an_node_size = 1,
     an_place = (\<lambda>p q. p), an_edge_y = 0, an_transmissions = [], an_drops = []\<rparr>"

definition bare_screen :: screen where
  "bare_screen = \<lparr>sc_view = start_view two_nodes test_window, sc_tx = \<lparr>aw_made = [], aw_pool = []\<rparr>, sc_drops = \<lparr>aw_made = [], aw_pool = []\<rparr>,
     sc_windows = [], sc_next = 0\<rparr>"

theorem routing_window_stops_view_witness:
  "fst (add_information_window bare_answers (Routing_Window 1 []) bare_screen) = Some AttributeError \<and>
   fst (refresh_view bare_answers (snd (add_information_window bare_answers (Packets_Window 0 [] [] [])
     (snd (add_information_window bare_answers (Routing_Window 1 []) bare_screen))))) \<noteq> None"
proof -
  let ?s = "snd (add_information_window bare_answers (Routing_Window 1 []) bare_screen)"
  have "screen_step (\<lambda>a. a = bare_answers) ?s (snd (add_information_window bare_answers (Packets_Window 0 [] [] []) ?s))"
    by (rule Open) simp_all
  then have "(screen_step (\<lambda>a. a = bare_answers))\<^sup>*\<^sup>* ?s (snd (add_information_window bare_answers (Packets_Window 0 [] [] []) ?s))" by blast
  from routing_window_stops_view [OF _ refl refl this] show ?thesis by (simp add: bare_answers_def bare_node_def)
qed

text \<open>A table keeps its rows when the node has no routing protocol any more, or none of those shown.\<close>

lemma stale_routes: "nn_ipv4 n \<in> {Some None, Some (Some Other_Routing), Some (Some (List_Routing []))} \<Longrightarrow> update_ipv4 n rows = Inr rows"
  by (auto simp: update_ipv4_def)

text \<open>A single global routing protocol is not shown, only one within a list.\<close>

lemma global_alone: "nn_ipv4 n = Some (Some (Global_Routing rs)) \<Longrightarrow> update_ipv4 n rows = Inr rows"
  by (simp add: update_ipv4_def)

section \<open>The types of the filter\<close>

definition parent_rel :: "type_ids \<Rightarrow> (nat \<times> nat) set" where
  "parent_rel t = {(i, p). ty_parent t i = Some p}"

definition header_type :: "type_ids \<Rightarrow> nat \<Rightarrow> bool" where
  "header_type t i \<longleftrightarrow> (i, ty_header t) \<in> (parent_rel t)\<^sup>* \<or> (i, ty_trailer t) \<in> (parent_rel t)\<^sup>*"

lemma header_type_step:
  "header_type t i \<longleftrightarrow> i = ty_header t \<or> i = ty_trailer t \<or> (\<exists>p. ty_parent t i = Some p \<and> header_type t p)"
  unfolding header_type_def parent_rel_def
  by (auto elim: converse_rtranclE intro: converse_rtrancl_into_rtrancl)

lemma is_header_type_spec:
  assumes "wf ((parent_rel t)\<inverse>)"
  shows "is_header_type t i = Some (header_type t i)"
  using assms
proof (induction i rule: wf_induct_rule)
  case (less i)
  show ?case
    using less [unfolded parent_rel_def] header_type_step [of t i] by (subst is_header_type.simps) (auto split: option.split)
qed

definition filter_types :: "type_ids \<Rightarrow> nat list" where
  "filter_types t = filter (\<lambda>i. header_type t i \<and> i \<noteq> ty_header t \<and> i \<noteq> ty_trailer t) [0..<ty_count t]"

lemma packet_filter_list_spec:
  assumes "wf ((parent_rel t)\<inverse>)"
  shows "packet_filter_list t is = Some (map (\<lambda>i. \<lparr>tc_name = ty_name t i, tc_selected = True, tc_typeid = i\<rparr>)
    (filter (\<lambda>i. header_type t i \<and> i \<noteq> ty_header t \<and> i \<noteq> ty_trailer t) is))"
  by (induction "is") (simp_all add: is_header_type_spec [OF assms])

lemma filter_step_sent:
  assumes "filter_step w w'"
  shows "fw_sent w' \<noteq> [] \<and> hd (fw_sent w') = capture_options w' \<and> map tc_typeid (fw_list w') = map tc_typeid (fw_list w)"
  using assms
proof cases
  case (Edit k b)
  then have "map tc_typeid (fw_list w') = (map tc_typeid (fw_list w))[k := tc_typeid (fw_list w ! k)]"
    by (simp add: cell_edited_def update_capture_options_def map_update)
  then show ?thesis using Edit by (simp add: cell_edited_def update_capture_options_def capture_options_def list_update_same_conv)
qed (simp_all add: select_all_def toggle_and_def update_capture_options_def capture_options_def comp_def)

text \<open>C40: the window of last packets.  If no type of ns-3 is above itself, the window finds every type below headers and
  trailers, in the order of registration and all selected; and whatever the user does with the list and the buttons, the
  options the simulation was given last are those the window shows.
\<close>

theorem filter_in_force:
  assumes "wf {(p, i). ty_parent t i = Some p}"
  shows "\<exists>w0. new_filter_window t = Some w0 \<and> cp_headers (hd (fw_sent w0)) = filter_types t \<and>
    (\<forall>w. filter_step\<^sup>*\<^sup>* w0 w \<longrightarrow> map tc_typeid (fw_list w) = filter_types t \<and>
      hd (fw_sent w) = \<lparr>cp_mode = (if fw_and w then FILTER_HEADERS_AND else FILTER_HEADERS_OR), cp_last = 100,
        cp_headers = map tc_typeid (filter tc_selected (fw_list w))\<rparr>)"
proof -
  have rel: "(parent_rel t)\<inverse> = {(p, i). ty_parent t i = Some p}" by (auto simp: parent_rel_def)
  define w0 where "w0 = update_capture_options \<lparr>fw_list =
      map (\<lambda>i. \<lparr>tc_name = ty_name t i, tc_selected = True, tc_typeid = i\<rparr>) (filter_types t), fw_and = False, fw_sent = []\<rparr>"
  have new: "new_filter_window t = Some w0"
    using assms by (simp add: new_filter_window_def packet_filter_list_spec rel filter_types_def w0_def)
  have start: "map tc_typeid (fw_list w0) = filter_types t \<and> hd (fw_sent w0) = capture_options w0"
    by (simp add: w0_def update_capture_options_def capture_options_def comp_def)
  have reach: "map tc_typeid (fw_list w) = filter_types t \<and> hd (fw_sent w) = capture_options w" if "filter_step\<^sup>*\<^sup>* w0 w" for w
    using that by (induction rule: rtranclp_induct) (auto simp: start dest: filter_step_sent)
  have "cp_headers (capture_options w0) = filter_types t"
    by (simp add: w0_def update_capture_options_def capture_options_def comp_def filter_map)
  then have "cp_headers (hd (fw_sent w0)) = filter_types t" using start by simp
  then show ?thesis using new reach by (auto simp: capture_options_def)
qed

definition demo_types :: type_ids where
  "demo_types = \<lparr>ty_count = 5, ty_parent = (\<lambda>i. map_of [(2, 0), (3, 2), (4, 9)] i), ty_name = (\<lambda>i. str_nat i), ty_header = 0, ty_trailer = 1\<rparr>"

theorem filter_in_force_witness:
  "\<exists>w0. new_filter_window demo_types = Some w0 \<and> cp_headers (hd (fw_sent w0)) = filter_types demo_types"
proof -
  have "{(p, i). ty_parent demo_types i = Some p} \<subseteq> measure (\<lambda>i. if i = 9 then 0 else i + 1)"
    by (auto simp: demo_types_def split: if_splits)
  then have "wf {(p, i). ty_parent demo_types i = Some p}" by (rule wf_subset [OF wf_measure])
  from filter_in_force [OF this] show ?thesis by blast
qed

text \<open>Selecting nothing leaves nothing to capture.\<close>

lemma select_none: "cp_headers (hd (fw_sent (select_all False w))) = []"
  by (simp add: select_all_def update_capture_options_def capture_options_def filter_map comp_def)

end
