(* ===== verification/Viz_Axes.thy ===== *)
theory Viz_Axes
  imports Py_Prelude
begin

text \<open>
  \<^verbatim>\<open>src/src/visualizer/visualizer/hud.py\<close>: the axes over the canvas.  The distance of the ticks is
  computed with logarithms, so the numbers are real; \<open>while\<close> loops over them are partial functions
  that are proved to return.
\<close>

section \<open>The distance of the ticks\<close>

definition PIXELS :: real where "PIXELS = 3"

definition rint :: "real \<Rightarrow> int" where
  "rint x = floor (x + 1 / 2)"

text \<open>The body of the loop: the power of ten next to the wanted distance, its half or its double.\<close>

definition division_size :: "real \<Rightarrow> real" where
  "division_size d =
     (let p = 10 powr real_of_int (rint (log 10 d)) in
      if \<bar>p / 2 - d\<bar> < \<bar>p - d\<bar> then p / 2
      else if \<bar>p * 2 - d\<bar> < \<bar>p - d\<bar> then p * 2 else p)"

text \<open>The number of divisions is computed anew in the last rounds, and never used.\<close>

record division_state =
  ds_ndiv :: real
  ds_x0 :: real
  ds_div :: real

definition division_round :: "real \<Rightarrow> real \<Rightarrow> real \<Rightarrow> real \<Rightarrow> nat \<Rightarrow> division_state \<Rightarrow> division_state" where
  "division_round xi dx text_width d n s =
     (let v = division_size d;
          s = s\<lparr>ds_div := v, ds_x0 := v * real_of_int \<lceil>xi / v\<rceil> - v\<rparr> in
      if n > 1 then s\<lparr>ds_ndiv := real_of_int (rint (dx / text_width))\<rparr> else s)"

definition compute_divisions :: "real \<Rightarrow> real \<Rightarrow> (real \<times> real) res" where
  "compute_divisions xi xf =
     (if \<not> xf > xi then Inl AssertionError
      else let dx = xf - xi; ndiv = 5; text_width = dx / ndiv / 2; d = dx / ndiv;
               s = fold (division_round xi dx text_width d) [0..<5] \<lparr>ds_ndiv = ndiv, ds_x0 = 0, ds_div = 0\<rparr>
           in Inr (ds_x0 s, ds_div s))"

section \<open>Drawing\<close>

text \<open>A label stands at a place of the canvas and shows a number.\<close>

record hud_label =
  hl_visible :: bool
  hl_number :: real
  hl_at :: "real \<times> real"

type_synonym segment = "(real \<times> real) \<times> (real \<times> real)"

record axes =
  ax_visible :: bool
  ax_lines_visible :: bool
  ax_labels :: "hud_label list"
  ax_hlines :: "segment list"
  ax_vlines :: "segment list"

definition show_label :: "hud_label \<Rightarrow> hud_label" where
  "show_label l = l\<lparr>hl_visible := True\<rparr>"

text \<open>\<open>get_label\<close>: the first of the labels not yet in use, or a new one; it goes to the labels in use.\<close>

definition get_label :: "real \<Rightarrow> real \<times> real \<Rightarrow> hud_label list \<times> hud_label list \<Rightarrow> hud_label list \<times> hud_label list" where
  "get_label number place s =
     (case s of
        ([], labels) \<Rightarrow> ([], labels @ [\<lparr>hl_visible = True, hl_number = number, hl_at = place\<rparr>])
      | (l # unused, labels) \<Rightarrow> (unused, labels @ [(show_label l)\<lparr>hl_number := number, hl_at := place\<rparr>]))"

partial_function (option) tick_loop :: "(real \<Rightarrow> 's \<Rightarrow> 's) \<Rightarrow> real \<Rightarrow> real \<Rightarrow> real \<Rightarrow> 's \<Rightarrow> 's option" where
  "tick_loop body x xf step s = (if x < xf then tick_loop body (x + step) xf step (body x s) else Some s)"

definition x_tick :: "real \<Rightarrow> real \<Rightarrow> real \<Rightarrow> segment list \<times> hud_label list \<times> hud_label list \<Rightarrow> segment list \<times> hud_label list \<times> hud_label list" where
  "x_tick yc offset x s =
     (let (path, unused, labels) = s in
      (path @ [((PIXELS * x, yc - offset), (PIXELS * x, yc))], get_label x (PIXELS * x, yc - offset) (unused, labels)))"

definition y_tick :: "real \<Rightarrow> real \<Rightarrow> real \<Rightarrow> segment list \<times> hud_label list \<times> hud_label list \<Rightarrow> segment list \<times> hud_label list \<times> hud_label list" where
  "y_tick xc offset y s =
     (let (path, unused, labels) = s in
      (path @ [((xc, PIXELS * y), (xc + offset, PIXELS * y))], get_label y (xc + offset, PIXELS * y) (unused, labels)))"

text \<open>
  One axis: the divisions, then a tick and a label for each.  \<open>None\<close> is a loop that does not end.
\<close>

definition draw_axis ::
    "(real \<Rightarrow> segment list \<times> hud_label list \<times> hud_label list \<Rightarrow> segment list \<times> hud_label list \<times> hud_label list) \<Rightarrow>
     segment \<Rightarrow> real \<Rightarrow> real \<Rightarrow> hud_label list \<times> hud_label list \<Rightarrow> (segment list \<times> hud_label list \<times> hud_label list) res option" where
  "draw_axis tick base a b s =
     (case compute_divisions a b of
        Inl e \<Rightarrow> Some (Inl e)
      | Inr (x0, d) \<Rightarrow> map_option Inr (tick_loop tick x0 b d ([base], s)))"

text \<open>\<open>update_view\<close>, given the zoom and the corners of the visible part of the canvas.\<close>

definition axes_update_view :: "real option \<Rightarrow> (real \<times> real) \<times> (real \<times> real) \<Rightarrow> axes \<Rightarrow> axes res option" where
  "axes_update_view zoom box a =
     (case zoom of
        None \<Rightarrow> Some (Inr a)
      | Some z \<Rightarrow>
          (let ((x1, y1), (x2, y2)) = box;
               unused = map (\<lambda>l. l\<lparr>hl_visible := False\<rparr>) (ax_labels a);
               offset = 10 / z; line_width = 5 / z;
               yc = y2 - line_width / 2; xc = x1 + line_width / 2 in
           (case draw_axis (x_tick yc offset) ((x1, yc), (x2, yc)) (x1 / PIXELS) (x2 / PIXELS) (unused, []) of
              None \<Rightarrow> None
            | Some (Inl e) \<Rightarrow> Some (Inl e)
            | Some (Inr (hpath, s)) \<Rightarrow>
                (case draw_axis (y_tick xc offset) ((xc, y1), (xc, y2)) (y1 / PIXELS) (y2 / PIXELS) s of
                   None \<Rightarrow> None
                 | Some (Inl e) \<Rightarrow> Some (Inl e)
                 | Some (Inr (vpath, unused, labels)) \<Rightarrow>
                     Some (Inr (a\<lparr>ax_hlines := hpath, ax_vlines := vpath, ax_labels := labels @ unused\<rparr>))))))"

definition set_visible :: "bool \<Rightarrow> axes \<Rightarrow> axes" where
  "set_visible b a =
     (if b then a\<lparr>ax_visible := True, ax_lines_visible := True\<rparr>
      else a\<lparr>ax_visible := False, ax_lines_visible := False,
             ax_labels := map (\<lambda>l. l\<lparr>hl_visible := False\<rparr>) (ax_labels a)\<rparr>)"

text \<open>The scroll bars call this when they change.\<close>

definition adjustment_changed :: "real option \<Rightarrow> (real \<times> real) \<times> (real \<times> real) \<Rightarrow> axes \<Rightarrow> axes res option" where
  "adjustment_changed zoom box a = (if ax_visible a then axes_update_view zoom box a else Some (Inr a))"

section \<open>How far apart the ticks are\<close>

lemma division_rounds: "xf > xi \<Longrightarrow> compute_divisions xi xf =
    Inr (let v = division_size ((xf - xi) / 5) in (v * real_of_int \<lceil>xi / v\<rceil> - v, v))"
proof -
  have "[0..<5] = [0, 1, 2, 3, 4::nat]" by (simp add: upt_rec)
  then show "xf > xi \<Longrightarrow> ?thesis" by (simp add: compute_divisions_def division_round_def Let_def)
qed

text \<open>The wanted distance is between 63 and 159 percent of the one taken.\<close>

lemma division_size_bounds:
  assumes "0 < d"
  shows "0 < division_size d" "63 / 100 * division_size d \<le> d" "d \<le> 159 / 100 * division_size d"
proof -
  define r where "r = real_of_int (rint (log 10 d))"
  define p where "p = 10 powr r"
  have p: "0 < p" by (simp add: p_def)
  have "r \<le> log 10 d + 1 / 2" "log 10 d + 1 / 2 < r + 1"
    unfolding r_def rint_def by linarith+
  then have l: "log 10 d * 2 - r * 2 \<le> 1" "-1 \<le> log 10 d * 2 - r * 2" by simp_all
  have sq: "(d / p)\<^sup>2 = 10 powr (log 10 d * 2 - r * 2)"
  proof -
    have "d / p = 10 powr (log 10 d - r)" using assms by (simp add: p_def powr_diff)
    then have "(d / p)\<^sup>2 = (10 powr (log 10 d - r)) powr 2" by simp
    also have "\<dots> = 10 powr (log 10 d * 2 - r * 2)" by (simp add: powr_powr algebra_simps)
    finally show ?thesis .
  qed
  have "10 powr (log 10 d * 2 - r * 2) \<le> 10 powr 1" "10 powr (-1) \<le> 10 powr (log 10 d * 2 - r * 2)"
    by (rule powr_mono; use l in simp)+
  then have b: "(d / p)\<^sup>2 \<le> 10" "1 / 10 \<le> (d / p)\<^sup>2" by (simp_all add: sq powr_minus_divide)
  have "0 < d / p" using assms p by simp
  moreover have "(317 / 100)\<^sup>2 > (10::real)" "(315 / 1000)\<^sup>2 < (1 / 10 :: real)" by (simp_all add: power2_eq_square)
  ultimately have "d / p \<le> 317 / 100" "315 / 1000 \<le> d / p"
    using b power2_le_imp_le [of "d / p" "317 / 100"] power2_le_imp_le [of "315 / 1000" "d / p"] by linarith+
  then have q: "d \<le> 317 / 100 * p" "315 / 1000 * p \<le> d" using p by (simp_all add: field_simps)
  have e: "division_size d = (if \<bar>p / 2 - d\<bar> < \<bar>p - d\<bar> then p / 2 else if \<bar>p * 2 - d\<bar> < \<bar>p - d\<bar> then p * 2 else p)"
    by (simp add: division_size_def p_def r_def Let_def)
  show "0 < division_size d" using p by (simp add: e)
  show "63 / 100 * division_size d \<le> d" "d \<le> 159 / 100 * division_size d"
    using p q unfolding e by (auto simp: abs_real_def split: if_splits)
qed

text \<open>The loop over the ticks returns, and runs as often as the distance fits.\<close>

lemma tick_loop_returns:
  assumes "0 < step"
  shows "tick_loop body x xf step s =
    Some (fold (\<lambda>k. body (x + real k * step)) [0..<nat \<lceil>(xf - x) / step\<rceil>] s)"
proof (induction "nat \<lceil>(xf - x) / step\<rceil>" arbitrary: x s)
  case 0
  then have "(xf - x) / step \<le> 0" by (simp add: ceiling_le_iff)
  then have "\<not> x < xf" using assms by (simp add: divide_le_0_iff)
  then show ?case using 0 by (subst tick_loop.simps) simp
next
  case (Suc n)
  have "0 < (xf - x) / step" using Suc.hyps(2) by (metis linorder_not_less ceiling_le_zero nat_0_iff nat.distinct(1))
  then have lt: "x < xf" using assms by (simp add: zero_less_divide_iff)
  have e: "(xf - (x + step)) / step = (xf - x) / step - 1" using assms by (simp add: field_simps)
  have n: "n = nat \<lceil>(xf - (x + step)) / step\<rceil>" using Suc.hyps(2) unfolding e by linarith
  have "tick_loop body x xf step s = tick_loop body (x + step) xf step (body x s)"
    using lt by (subst tick_loop.simps) simp
  also have "\<dots> = Some (fold (\<lambda>k. body (x + step + real k * step)) [0..<n] (body x s))"
    using Suc.hyps(1) [OF n] n by simp
  also have "\<dots> = Some (fold (\<lambda>k. body (x + real k * step)) [0..<Suc n] s)"
  proof -
    have "[0..<Suc n] = 0 # map Suc [0..<n]" by (simp add: upt_conv_Cons map_Suc_upt del: upt_Suc)
    then show ?thesis by (simp add: fold_map comp_def algebra_simps del: upt_Suc)
  qed
  finally show ?case using Suc.hyps(2) by simp
qed

definition tick_count :: "real \<Rightarrow> real \<Rightarrow> nat" where
  "tick_count a b = (case compute_divisions a b of Inl _ \<Rightarrow> 0 | Inr (x0, d) \<Rightarrow> nat \<lceil>(b - x0) / d\<rceil>)"

lemma tick_count_bounds:
  assumes "a < b"
  shows "4 \<le> tick_count a b" "tick_count a b \<le> 9"
proof -
  define d where "d = (b - a) / 5"
  define v where "v = division_size d"
  define x0 where "x0 = v * real_of_int \<lceil>a / v\<rceil> - v"
  have d: "0 < d" using assms by (simp add: d_def)
  note v = division_size_bounds [OF d, folded v_def]
  have "a / v \<le> real_of_int \<lceil>a / v\<rceil>" "real_of_int \<lceil>a / v\<rceil> < a / v + 1" by linarith+
  then have "v * (a / v) \<le> v * real_of_int \<lceil>a / v\<rceil>" "v * real_of_int \<lceil>a / v\<rceil> < v * (a / v + 1)"
    using v(1) by (simp_all only: mult_le_cancel_left_pos mult_less_cancel_left_pos)
  then have x: "a - v \<le> x0" "x0 < a" using v(1) by (simp_all add: x0_def distrib_left)
  have ba: "b - a = 5 * d" by (simp add: d_def)
  have "b - x0 \<le> 5 * d + v" "5 * d < b - x0" using x ba by linarith+
  then have "(b - x0) / v \<le> (5 * d + v) / v" "5 * d / v < (b - x0) / v"
    using v(1) by (simp_all only: divide_right_mono divide_strict_right_mono less_imp_le)
  moreover have "(5 * d + v) / v \<le> 9" "3 \<le> 5 * d / v" using v by (simp_all add: field_simps)
  ultimately have "3 < (b - x0) / v" "(b - x0) / v \<le> 9" by linarith+
  then have "4 \<le> nat \<lceil>(b - x0) / v\<rceil>" "nat \<lceil>(b - x0) / v\<rceil> \<le> 9" by linarith+
  then show "4 \<le> tick_count a b" "tick_count a b \<le> 9"
    using division_rounds [OF assms] by (simp_all add: tick_count_def Let_def d_def v_def x0_def)
qed

section \<open>Labels\<close>

lemma get_label_fold:
  fixes place :: "nat \<Rightarrow> real \<times> real" and number :: "nat \<Rightarrow> real"
  shows "\<exists>shown. fold (\<lambda>k. get_label (number k) (place k)) [0..<n] (unused, labels) = (drop n unused, labels @ shown) \<and>
    length shown = n \<and> (\<forall>j < n. shown ! j = \<lparr>hl_visible = True, hl_number = number j, hl_at = place j\<rparr>)"
proof (induction n)
  case (Suc n)
  then obtain shown where s: "fold (\<lambda>k. get_label (number k) (place k)) [0..<n] (unused, labels) = (drop n unused, labels @ shown)"
    "length shown = n" "\<forall>j < n. shown ! j = \<lparr>hl_visible = True, hl_number = number j, hl_at = place j\<rparr>" by blast
  let ?l = "\<lparr>hl_visible = True, hl_number = number n, hl_at = place n\<rparr>"
  have "get_label (number n) (place n) (drop n unused, labels @ shown) = (drop (Suc n) unused, labels @ shown @ [?l])"
  proof (cases "drop n unused")
    case Nil
    then show ?thesis by (simp add: get_label_def)
  next
    case (Cons l ls)
    then have "drop (Suc n) unused = ls" by (metis drop_Suc list.sel(3) tl_drop)
    then show ?thesis using Cons by (simp add: get_label_def show_label_def)
  qed
  then show ?case using s by (intro exI [of _ "shown @ [?l]"]) (auto simp: nth_append less_Suc_eq)
qed simp

text \<open>An axis: the base line, a tick and a visible label for each multiple of the distance.\<close>

lemma draw_axis_spec:
  assumes "a < b"
    and tick: "\<And>x path s. tick x (path, s) = (path @ [seg x], get_label x (place x) s)"
  shows "\<exists>path shown. draw_axis tick base a b (unused, labels) =
      Some (Inr (path, drop (tick_count a b) unused, labels @ shown)) \<and>
    length path = Suc (tick_count a b) \<and> length shown = tick_count a b \<and> (\<forall>l \<in> set shown. hl_visible l)"
proof -
  obtain x0 d where c: "compute_divisions a b = Inr (x0, d)" "0 < d"
    using division_rounds [OF assms(1)] division_size_bounds(1) [of "(b - a) / 5"] assms(1) by (auto simp: Let_def)
  let ?n = "nat \<lceil>(b - x0) / d\<rceil>"
  have n: "?n = tick_count a b" by (simp add: tick_count_def c)
  have "fold (\<lambda>k. tick (x0 + real k * d)) ks (path, s) =
      (path @ map (\<lambda>k. seg (x0 + real k * d)) ks, fold (\<lambda>k. get_label (x0 + real k * d) (place (x0 + real k * d))) ks s)" for ks path s
    by (induction ks arbitrary: path s) (simp_all add: tick)
  then have "tick_loop tick x0 b d ([base], (unused, labels)) = Some ([base] @ map (\<lambda>k. seg (x0 + real k * d)) [0..<?n],
      fold (\<lambda>k. get_label (x0 + real k * d) (place (x0 + real k * d))) [0..<?n] (unused, labels))"
    by (simp add: tick_loop_returns [OF c(2)])
  moreover obtain shown where "fold (\<lambda>k. get_label (x0 + real k * d) (place (x0 + real k * d))) [0..<?n] (unused, labels) =
      (drop ?n unused, labels @ shown)" "length shown = ?n" "\<forall>l \<in> set shown. hl_visible l"
    using get_label_fold [of "\<lambda>k. x0 + real k * d" "\<lambda>k. place (x0 + real k * d)" ?n unused labels]
    by (fastforce simp: in_set_conv_nth)
  ultimately show ?thesis
    by (intro exI [of _ "[base] @ map (\<lambda>k. seg (x0 + real k * d)) [0..<?n]"] exI [of _ shown]) (simp add: draw_axis_def c n)
qed



text \<open>A window without width or height raises, in the handler of the scroll bar.\<close>

lemma axes_empty_window: "x2 \<le> x1 \<Longrightarrow> axes_update_view (Some z) ((x1, y1), (x2, y2)) a = Some (Inl AssertionError)"
  by (simp add: axes_update_view_def draw_axis_def compute_divisions_def PIXELS_def Let_def divide_right_mono)

text \<open>Hidden axes that are shown again have lines, but no labels before the next change of a scroll bar.\<close>

lemma shown_again_without_labels:
  "ax_lines_visible (set_visible True (set_visible False a)) \<and>
   (\<forall>l \<in> set (ax_labels (set_visible True (set_visible False a))). \<not> hl_visible l)"
  by (simp add: set_visible_def)

end
