(* ===== verification/Viz_Wifi.thy ===== *)
theory Viz_Wifi
  imports Py_Prelude
begin

text \<open>
  \<^verbatim>\<open>src/src/visualizer/visualizer/plugins/wifi_intrastructure_link.py\<close>: the dashed lines from the
  WiFi stations to their access points.  A link is its place in the list of all links ever made;
  the lists \<open>Node.links\<close> are kept as far as they hold WiFi links.  What ns-3 says of the
  devices is a parameter.
\<close>

section \<open>State\<close>

record wifi_link =
  wf_node1 :: "nat option"
  wf_node2 :: "nat option"
  wf_visible :: bool
  wf_points :: "((rat \<times> rat) \<times> (rat \<times> rat)) option"
  wf_destroyed :: bool

type_synonym dev_id = "nat \<times> nat"

record monitor =
  mo_links :: "wifi_link list"
  mo_node_links :: "nat \<Rightarrow> nat list"
  mo_access_points :: "(string \<times> nat) list"
  mo_stations :: "(dev_id \<times> nat \<times> nat) list"

datatype mac_kind = Sta_Mac | Ap_Mac | Other_Mac

text \<open>A device is a WiFi device with a MAC and an address, or something else.\<close>

record wifi_device =
  wd_wifi :: bool
  wd_mac :: mac_kind
  wd_address :: string

type_synonym node_places = "nat \<Rightarrow> rat \<times> rat"

section \<open>Links\<close>

definition wifi_update_points :: "node_places \<Rightarrow> wifi_link \<Rightarrow> wifi_link" where
  "wifi_update_points pos l =
     (case (wf_node1 l, wf_node2 l) of
        (Some a, Some b) \<Rightarrow> l\<lparr>wf_points := Some (pos a, pos b)\<rparr>
      | _ \<Rightarrow> l)"

definition node_add_link :: "nat \<Rightarrow> nat \<Rightarrow> monitor \<Rightarrow> monitor" where
  "node_add_link n l m = m\<lparr>mo_node_links := (mo_node_links m)(n := mo_node_links m n @ [l])\<rparr>"

definition node_remove_link :: "nat \<Rightarrow> nat \<Rightarrow> monitor \<Rightarrow> monitor res" where
  "node_remove_link n l m =
     (if l \<in> set (mo_node_links m n) then Inr (m\<lparr>mo_node_links := (mo_node_links m)(n := remove1 l (mo_node_links m n))\<rparr>)
      else Inl ValueError)"

definition upd_link :: "nat \<Rightarrow> (wifi_link \<Rightarrow> wifi_link) \<Rightarrow> monitor \<Rightarrow> monitor" where
  "upd_link l f m = m\<lparr>mo_links := (mo_links m)[l := f (mo_links m ! l)]\<rparr>"

definition set_ap :: "node_places \<Rightarrow> nat \<Rightarrow> nat option \<Rightarrow> monitor \<Rightarrow> monitor res" where
  "set_ap pos l ap m =
     (let old = wf_node2 (mo_links m ! l) in
      if ap = old then Inr m
      else res_bind (case old of None \<Rightarrow> Inr m | Some n \<Rightarrow> node_remove_link n l m) (\<lambda>m.
        let m = upd_link l (\<lambda>k. k\<lparr>wf_node2 := ap\<rparr>) m;
            m = (case ap of
                   None \<Rightarrow> upd_link l (\<lambda>k. k\<lparr>wf_visible := False\<rparr>) m
                 | Some n \<Rightarrow> upd_link l (\<lambda>k. k\<lparr>wf_visible := True\<rparr>) (node_add_link n l m))
        in Inr (upd_link l (wifi_update_points pos) m)))"

text \<open>A new link has no access point; \<open>set_ap(None)\<close> in \<open>__init__\<close> returns at once, so its item stays visible.\<close>

definition new_link :: "nat \<Rightarrow> wifi_link" where
  "new_link n = \<lparr>wf_node1 = Some n, wf_node2 = None, wf_visible = True, wf_points = None, wf_destroyed = False\<rparr>"

definition destroy_link :: "nat \<Rightarrow> monitor \<Rightarrow> monitor" where
  "destroy_link l m = upd_link l (\<lambda>k. k\<lparr>wf_destroyed := True, wf_node1 := None, wf_node2 := None\<rparr>) m"

section \<open>The monitor\<close>

definition wifi_scan_device :: "nat \<Rightarrow> nat \<times> wifi_device \<Rightarrow> monitor \<Rightarrow> monitor" where
  "wifi_scan_device n d m =
     (if \<not> wd_wifi (snd d) then m
      else (case wd_mac (snd d) of
              Sta_Mac \<Rightarrow>
                m\<lparr>mo_links := mo_links m @ [new_link n], mo_stations := mo_stations m @ [((n, fst d), n, length (mo_links m))]\<rparr>
            | Ap_Mac \<Rightarrow> m\<lparr>mo_access_points := dict_set (wd_address (snd d)) n (mo_access_points m)\<rparr>
            | Other_Mac \<Rightarrow> m))"

definition scan_nodes :: "(nat \<times> wifi_device list) list \<Rightarrow> monitor \<Rightarrow> monitor" where
  "scan_nodes nodes m =
     (let m = fold (\<lambda>(_, _, l). destroy_link l) (mo_stations m) m;
          m = m\<lparr>mo_access_points := [], mo_stations := []\<rparr>
      in fold (\<lambda>(n, ds). fold (wifi_scan_device n) (enumerate 0 ds)) nodes m)"

definition NO_BSSID :: string where "NO_BSSID = ''00:00:00:00:00:00''"

text \<open>The access point of a station; \<open>None\<close> when its link is down or it is not associated.\<close>

definition station_ap :: "(dev_id \<Rightarrow> bool) \<Rightarrow> (dev_id \<Rightarrow> string) \<Rightarrow> dev_id \<Rightarrow> monitor \<Rightarrow> nat option res" where
  "station_ap up bssid d m =
     (if \<not> up d then Inr None
      else if bssid d = NO_BSSID then Inr None
      else (case map_of (mo_access_points m) (bssid d) of None \<Rightarrow> Inl KeyError | Some n \<Rightarrow> Inr (Some n)))"

text \<open>The stations one after the other; an exception leaves the later ones as they were.\<close>

fun update_stations ::
    "node_places \<Rightarrow> (dev_id \<Rightarrow> bool) \<Rightarrow> (dev_id \<Rightarrow> string) \<Rightarrow> (dev_id \<times> nat \<times> nat) list \<Rightarrow> monitor \<Rightarrow> exn option \<times> monitor" where
  "update_stations pos up bssid [] m = (None, m)"
| "update_stations pos up bssid ((d, _, l) # rest) m =
     (case res_bind (station_ap up bssid d m) (\<lambda>ap. set_ap pos l ap m) of
        Inl e \<Rightarrow> (Some e, m)
      | Inr m \<Rightarrow> update_stations pos up bssid rest m)"

definition simulation_periodic_update :: "node_places \<Rightarrow> (dev_id \<Rightarrow> bool) \<Rightarrow> (dev_id \<Rightarrow> string) \<Rightarrow> monitor \<Rightarrow> exn option \<times> monitor" where
  "simulation_periodic_update pos up bssid m = update_stations pos up bssid (mo_stations m) m"

definition monitor_update_view :: "node_places \<Rightarrow> monitor \<Rightarrow> monitor" where
  "monitor_update_view pos m = fold (\<lambda>(_, _, l). upd_link l (wifi_update_points pos)) (mo_stations m) m"

text \<open>What \<open>Node.set_position\<close> does for the links in the list of the node.\<close>

definition node_moved :: "node_places \<Rightarrow> nat \<Rightarrow> monitor \<Rightarrow> monitor" where
  "node_moved pos n m = fold (\<lambda>l. upd_link l (wifi_update_points pos)) (mo_node_links m n) m"

definition no_monitor :: monitor where
  "no_monitor = \<lparr>mo_links = [], mo_node_links = (\<lambda>_. []), mo_access_points = [], mo_stations = []\<rparr>"

section \<open>The invariant\<close>

text \<open>
  Each station has a link of its own, which is in the list of its access point, once, and in no
  other list.
\<close>

definition monitor_linked :: "monitor \<Rightarrow> bool" where
  "monitor_linked m \<longleftrightarrow> distinct (map (snd \<circ> snd) (mo_stations m)) \<and>
     (\<forall>d n l. (d, n, l) \<in> set (mo_stations m) \<longrightarrow> l < length (mo_links m) \<and> wf_node1 (mo_links m ! l) = Some n \<and>
       \<not> wf_destroyed (mo_links m ! l) \<and>
       (\<forall>k. count_list (mo_node_links m k) l = (if wf_node2 (mo_links m ! l) = Some k then 1 else 0))) \<and>
     (\<forall>k. \<forall>l \<in> set (mo_node_links m k). l < length (mo_links m))"

lemma linkedD:
  assumes "monitor_linked m" "(d, n, l) \<in> set (mo_stations m)"
  shows "l < length (mo_links m)" "wf_node1 (mo_links m ! l) = Some n" "\<not> wf_destroyed (mo_links m ! l)"
    "count_list (mo_node_links m k) l = (if wf_node2 (mo_links m ! l) = Some k then 1 else 0)"
  using assms unfolding monitor_linked_def by blast+

lemma linked_distinct: "monitor_linked m \<Longrightarrow> distinct (map (snd \<circ> snd) (mo_stations m))"
  by (simp add: monitor_linked_def)

lemma count_remove1: "count_list (remove1 x xs) y = count_list xs y - (if x = y then 1 else 0)"
  by (induction xs) (auto simp: count_list_0_iff)

lemma upd_link_fields [simp]:
  "mo_node_links (upd_link l f m) = mo_node_links m" "mo_access_points (upd_link l f m) = mo_access_points m"
  "mo_stations (upd_link l f m) = mo_stations m" "length (mo_links (upd_link l f m)) = length (mo_links m)"
  by (simp_all add: upd_link_def)

lemma upd_link_nth [simp]:
  "l < length (mo_links m) \<Longrightarrow> mo_links (upd_link l f m) ! j = (if j = l then f (mo_links m ! l) else mo_links m ! j)"
  by (simp add: upd_link_def nth_list_update)

lemma update_points_fields [simp]:
  "wf_node1 (wifi_update_points pos l) = wf_node1 l" "wf_node2 (wifi_update_points pos l) = wf_node2 l"
  "wf_visible (wifi_update_points pos l) = wf_visible l" "wf_destroyed (wifi_update_points pos l) = wf_destroyed l"
  by (auto simp: wifi_update_points_def split: option.splits)

lemma node_add_link_fields [simp]:
  "mo_links (node_add_link n l m) = mo_links m" "mo_access_points (node_add_link n l m) = mo_access_points m"
  "mo_stations (node_add_link n l m) = mo_stations m"
  "mo_node_links (node_add_link n l m) = (mo_node_links m)(n := mo_node_links m n @ [l])"
  by (simp_all add: node_add_link_def)

text \<open>\<open>set_ap\<close> on the link of a station never raises, and moves the link from one list to another.\<close>

lemma set_ap_ok:
  assumes "monitor_linked m" "(d, n, l) \<in> set (mo_stations m)"
  shows "\<exists>m'. set_ap pos l ap m = Inr m' \<and> monitor_linked m' \<and> mo_stations m' = mo_stations m \<and>
    mo_access_points m' = mo_access_points m \<and> wf_node2 (mo_links m' ! l) = ap \<and>
    (ap \<noteq> wf_node2 (mo_links m ! l) \<longrightarrow> (wf_visible (mo_links m' ! l) \<longleftrightarrow> ap \<noteq> None)) \<and>
    (ap = wf_node2 (mo_links m ! l) \<longrightarrow> m' = m) \<and> (\<forall>j. j \<noteq> l \<longrightarrow> mo_links m' ! j = mo_links m ! j)"
proof (cases "ap = wf_node2 (mo_links m ! l)")
  case True
  then show ?thesis using assms(1) by (simp add: set_ap_def)
next
  case False
  let ?old = "wf_node2 (mo_links m ! l)"
  have l: "l < length (mo_links m)" and c: "\<And>k. count_list (mo_node_links m k) l = (if ?old = Some k then 1 else 0)"
    using linkedD [OF assms] by simp_all
  obtain m1 where m1: "(case ?old of None \<Rightarrow> Inr m | Some n \<Rightarrow> node_remove_link n l m) = Inr m1"
    "mo_links m1 = mo_links m" "mo_access_points m1 = mo_access_points m" "mo_stations m1 = mo_stations m"
    "\<And>k. count_list (mo_node_links m1 k) l = 0" "\<And>j k. j \<noteq> l \<Longrightarrow> count_list (mo_node_links m1 k) j = count_list (mo_node_links m k) j"
    "\<And>k. set (mo_node_links m1 k) \<subseteq> set (mo_node_links m k)"
  proof (cases ?old)
    case None
    then show ?thesis using that [of m] c by simp
  next
    case (Some k)
    have "l \<in> set (mo_node_links m k)" using c [of k] Some by (metis count_notin zero_neq_one)
    then show ?thesis
      using that [of "m\<lparr>mo_node_links := (mo_node_links m)(k := remove1 l (mo_node_links m k))\<rparr>"] c Some set_remove1_subset [of l "mo_node_links m k"]
      by (auto simp: node_remove_link_def count_remove1)
  qed
  let ?m2 = "upd_link l (\<lambda>k. k\<lparr>wf_node2 := ap\<rparr>) m1"
  define m3 where "m3 = (case ap of None \<Rightarrow> upd_link l (\<lambda>k. k\<lparr>wf_visible := False\<rparr>) ?m2
      | Some n \<Rightarrow> upd_link l (\<lambda>k. k\<lparr>wf_visible := True\<rparr>) (node_add_link n l ?m2))"
  let ?m4 = "upd_link l (wifi_update_points pos) m3"
  have r: "set_ap pos l ap m = Inr ?m4" using False m1(1) by (simp add: set_ap_def m3_def Let_def)
  have l3: "length (mo_links m3) = length (mo_links m)" "mo_stations m3 = mo_stations m" "mo_access_points m3 = mo_access_points m"
    using m1 by (auto simp: m3_def split: option.splits)
  have links: "mo_links ?m4 ! j = (if j = l then wifi_update_points pos ((mo_links m ! l)\<lparr>wf_node2 := ap, wf_visible := (ap \<noteq> None)\<rparr>) else mo_links m ! j)" for j
    using l m1(2) l3(1) by (auto simp: m3_def split: option.splits)
  have lists: "count_list (mo_node_links ?m4 k) j = (if j = l then (if ap = Some k then 1 else 0) else count_list (mo_node_links m k) j)" for j k
    using m1(5,6) by (auto simp: m3_def split: option.splits)
  have "monitor_linked ?m4"
    unfolding monitor_linked_def
  proof (intro conjI allI impI ballI)
    show "distinct (map (snd \<circ> snd) (mo_stations ?m4))" using assms(1) l3 by (simp add: monitor_linked_def)
    fix d n j assume j: "(d, n, j) \<in> set (mo_stations ?m4)"
    then have jm: "(d, n, j) \<in> set (mo_stations m)" using l3 by simp
    note o = linkedD [OF assms(1) jm]
    show "j < length (mo_links ?m4)" "wf_node1 (mo_links ?m4 ! j) = Some n" "\<not> wf_destroyed (mo_links ?m4 ! j)"
      using o l3 by (auto simp: links)
    show "count_list (mo_node_links ?m4 k) j = (if wf_node2 (mo_links ?m4 ! j) = Some k then 1 else 0)" for k
      using o(4) [of k] by (simp only: lists links update_points_fields) simp
  next
    fix k j assume "j \<in> set (mo_node_links ?m4 k)"
    then have "j = l \<or> j \<in> set (mo_node_links m k)"
      using m1(7) [of k] by (auto simp: m3_def split: option.splits if_splits)
    then show "j < length (mo_links ?m4)" using assms(1) l l3 by (auto simp: monitor_linked_def)
  qed
  then show ?thesis using r l3 False by (intro exI [of _ ?m4]) (simp add: links)
qed

lemma scan_device_keeps:
  assumes "monitor_linked m"
  shows "monitor_linked (wifi_scan_device n d m)"
proof -
  have "count_list (mo_node_links m k) (length (mo_links m)) = 0" for k
    using assms by (auto simp: monitor_linked_def count_list_0_iff)
  then show ?thesis
    using assms by (auto simp: wifi_scan_device_def monitor_linked_def nth_append new_link_def split: mac_kind.splits) fastforce+
qed

lemma scan_nodes_linked:
  assumes "monitor_linked m"
  shows "monitor_linked (scan_nodes nodes m)"
proof -
  let ?m = "fold (\<lambda>(_, _, l). destroy_link l) (mo_stations m) m"
  have d: "length (mo_links (fold (\<lambda>(_, _, l). destroy_link l) xs u)) = length (mo_links u) \<and>
      mo_node_links (fold (\<lambda>(_, _, l). destroy_link l) xs u) = mo_node_links u" for xs :: "(dev_id \<times> nat \<times> nat) list" and u
    by (induction xs arbitrary: u) (auto simp: destroy_link_def)
  have s: "monitor_linked (?m\<lparr>mo_access_points := [], mo_stations := []\<rparr>)"
    using assms d [of "mo_stations m" m] by (simp add: monitor_linked_def)
  have f: "monitor_linked u \<Longrightarrow> monitor_linked (fold (wifi_scan_device n) ds u)" for n ds u
    by (induction ds arbitrary: u) (simp_all add: scan_device_keeps)
  have "monitor_linked u \<Longrightarrow> monitor_linked (fold (\<lambda>(n, ds). fold (wifi_scan_device n) (enumerate 0 ds)) nodes u)" for u
    by (induction nodes arbitrary: u) (auto simp: f)
  then show ?thesis using s by (simp add: scan_nodes_def Let_def)
qed

lemma update_stations_ok:
  assumes "monitor_linked m" "\<And>d n l. (d, n, l) \<in> set ss \<Longrightarrow> (d, n, l) \<in> set (mo_stations m)" "distinct (map (snd \<circ> snd) ss)"
    "update_stations pos up bssid ss m = (r, m')"
  shows "monitor_linked m' \<and> mo_stations m' = mo_stations m \<and> mo_access_points m' = mo_access_points m \<and>
    (\<forall>j. j \<notin> set (map (snd \<circ> snd) ss) \<longrightarrow> mo_links m' ! j = mo_links m ! j) \<and>
    (r = None \<longrightarrow> (\<forall>d n l. (d, n, l) \<in> set ss \<longrightarrow> station_ap up bssid d m = Inr (wf_node2 (mo_links m' ! l)))) \<and>
    (r \<noteq> None \<longrightarrow> r = Some KeyError \<and> (\<exists>d n l. (d, n, l) \<in> set ss \<and> station_ap up bssid d m = Inl KeyError))"
  using assms
proof (induction ss arbitrary: m)
  case (Cons s ss)
  obtain d n l where s: "s = (d, n, l)" by (cases s)
  show ?case
  proof (cases "station_ap up bssid d m")
    case (Inl e)
    then have "e = KeyError" by (auto simp: station_ap_def split: if_splits option.splits)
    moreover from this have "r = Some KeyError" "m' = m" using Cons.prems(4) Inl by (simp_all add: s)
    moreover have "(d, n, l) \<in> set (s # ss)" by (simp add: s)
    ultimately show ?thesis using Cons.prems(1) Inl by blast
  next
    case (Inr ap)
    obtain u where u: "set_ap pos l ap m = Inr u" "monitor_linked u" "mo_stations u = mo_stations m" "mo_access_points u = mo_access_points m"
      "wf_node2 (mo_links u ! l) = ap" "\<forall>j. j \<noteq> l \<longrightarrow> mo_links u ! j = mo_links m ! j"
    proof -
      have "(d, n, l) \<in> set (mo_stations m)" using Cons.prems(2) [of d n l] by (simp add: s)
      from set_ap_ok [OF Cons.prems(1) this, of pos ap] show ?thesis using that by blast
    qed
    have st: "station_ap up bssid x u = station_ap up bssid x m" for x by (simp add: station_ap_def u)
    have e: "update_stations pos up bssid ss u = (r, m')" using Cons.prems(4) Inr u(1) by (simp add: s)
    have IH: "monitor_linked m' \<and> mo_stations m' = mo_stations u \<and> mo_access_points m' = mo_access_points u \<and>
      (\<forall>j. j \<notin> set (map (snd \<circ> snd) ss) \<longrightarrow> mo_links m' ! j = mo_links u ! j) \<and>
      (r = None \<longrightarrow> (\<forall>d n l. (d, n, l) \<in> set ss \<longrightarrow> station_ap up bssid d u = Inr (wf_node2 (mo_links m' ! l)))) \<and>
      (r \<noteq> None \<longrightarrow> r = Some KeyError \<and> (\<exists>d n l. (d, n, l) \<in> set ss \<and> station_ap up bssid d u = Inl KeyError))"
      by (rule Cons.IH [OF u(2) _ _ e]) (use Cons.prems(2,3) u(3) in \<open>auto simp: s\<close>)
    moreover have "l \<notin> set (map (snd \<circ> snd) ss)" using Cons.prems(3) by (simp add: s)
    ultimately show ?thesis using u Inr st by (auto simp: s)
  qed
qed auto

inductive monitor_step :: "monitor \<Rightarrow> monitor \<Rightarrow> bool" where
  scan: "monitor_step m (scan_nodes nodes m)"
| period: "simulation_periodic_update pos up bssid m = (r, m') \<Longrightarrow> monitor_step m m'"
| view: "monitor_step m (monitor_update_view pos m)"
| moved: "monitor_step m (node_moved pos n m)"

lemma points_keep_linked: "monitor_linked m \<Longrightarrow> monitor_linked (fold (\<lambda>l. upd_link l (wifi_update_points pos)) ls m)"
proof (induction ls arbitrary: m)
  case (Cons l ls)
  have "monitor_linked (upd_link l (wifi_update_points pos) m)"
  proof (cases "l < length (mo_links m)")
    case True
    then show ?thesis using Cons.prems by (simp add: monitor_linked_def)
  next
    case False
    then have "upd_link l (wifi_update_points pos) m = m" by (simp add: upd_link_def list_update_beyond)
    then show ?thesis using Cons.prems by simp
  qed
  then show ?case using Cons.IH by simp
qed simp

lemma monitor_reachable_linked: "monitor_step\<^sup>*\<^sup>* no_monitor m \<Longrightarrow> monitor_linked m"
proof (induction rule: rtranclp_induct)
  case base
  then show ?case by (simp add: monitor_linked_def no_monitor_def)
next
  case (step m m')
  have v: "fold (\<lambda>(_, _, l). upd_link l (wifi_update_points pos)) xs u = fold (\<lambda>l. upd_link l (wifi_update_points pos)) (map (snd \<circ> snd) xs) u"
    for pos u and xs :: "(dev_id \<times> nat \<times> nat) list" by (induction xs arbitrary: u) auto
  show ?case
    using step.hyps(2)
  proof cases
    case (period pos up bssid r)
    then show ?thesis
      using update_stations_ok [of m "mo_stations m" pos up bssid r m'] step.IH
      by (simp add: simulation_periodic_update_def monitor_linked_def)
  qed (use step.IH in \<open>auto simp: scan_nodes_linked monitor_update_view_def node_moved_def v points_keep_linked\<close>)
qed


definition one_ap :: "(nat \<times> wifi_device list) list" where
  "one_ap = [(0, [\<lparr>wd_wifi = True, wd_mac = Ap_Mac, wd_address = ''ap''\<rparr>]), (1, [\<lparr>wd_wifi = True, wd_mac = Sta_Mac, wd_address = ''sta''\<rparr>])]"

lemma scan_one_ap: "scan_nodes one_ap no_monitor =
   no_monitor\<lparr>mo_links := [new_link 1], mo_access_points := [(''ap'', 0)], mo_stations := [((1, 0), 1, 0)]\<rparr>"
  by (simp add: scan_nodes_def one_ap_def no_monitor_def wifi_scan_device_def)


section \<open>Limits\<close>

text \<open>A station that names an access point the scan did not see stops the update of the stations after it.\<close>

lemma unknown_bssid_stops_update:
  assumes "up d" "bssid d \<noteq> NO_BSSID" "map_of (mo_access_points m) (bssid d) = None"
  shows "update_stations pos up bssid ((d, n, l) # ss) m = (Some KeyError, m)"
  using assms by (simp add: station_ap_def)

text \<open>A station's own node does not know the link: moving the station leaves the line where it was.\<close>

lemma station_moves_alone:
  assumes "monitor_linked m" "(d, n, l) \<in> set (mo_stations m)" "wf_node2 (mo_links m ! l) = Some k" "k \<noteq> n"
  shows "mo_links (node_moved pos n m) ! l = mo_links m ! l"
proof -
  have "count_list (mo_node_links m n) l = 0" using linkedD(4) [OF assms(1,2), of n] assms(3,4) by simp
  then have "l \<notin> set (mo_node_links m n)" by (simp add: count_list_0_iff)
  then have "mo_links (fold (\<lambda>j. upd_link j (wifi_update_points pos)) ls u) ! l = mo_links u ! l" if "set ls \<subseteq> set (mo_node_links m n)" for ls u
    using that
  proof (induction ls arbitrary: u)
    case (Cons a ls)
    then have "a \<noteq> l" using \<open>l \<notin> set (mo_node_links m n)\<close> by auto
    then show ?case using Cons by (simp add: upd_link_def)
  qed simp
  then show ?thesis by (simp add: node_moved_def)
qed

text \<open>A link that is destroyed at a new scan stays in the list of its access point, and does nothing there.\<close>

lemma destroyed_link_stays_listed:
  "mo_node_links (destroy_link l m) = mo_node_links m"
  "l < length (mo_links m) \<Longrightarrow> wifi_update_points pos (mo_links (destroy_link l m) ! l) = mo_links (destroy_link l m) ! l"
  by (simp_all add: destroy_link_def wifi_update_points_def)

end
