(* ===== verification/Version_Info.thy ===== *)
theory Version_Info
  imports Py_Prelude
begin

text \<open>
  \<^verbatim>\<open>src/waf-tools/versioning.py\<close>: the version of the build from the tags of git, or from the cache
  file.  A \<open>ConfigSet\<close> is a dictionary of strings, git is a parameter (what each command prints,
  or that it fails), and the file system holds the cache files.
\<close>

section \<open>Regular expressions\<close>

text \<open>\<open>.\<close> matches any character but the newline.\<close>

definition any_char :: "char \<Rightarrow> bool" where "any_char c \<longleftrightarrow> c \<noteq> NL"

text \<open>
  \<open>ns-(\d+)\.(\d+)(?:.(\d+))?(?:-(RC.+))?.*\<close> at the start: what follows the second number can be
  skipped, so the greedy choices are never taken back.
\<close>

definition re_patch :: "string \<Rightarrow> string option \<times> string" where
  "re_patch s =
     (case s of
        [] \<Rightarrow> (None, s)
      | c # t \<Rightarrow>
          if any_char c then (case re_plus is_digit t of Some (p, r) \<Rightarrow> (Some p, r) | None \<Rightarrow> (None, s))
          else (None, s))"

definition re_candidate :: "string \<Rightarrow> string option" where
  "re_candidate s =
     (case re_lit ''-RC'' s of
        None \<Rightarrow> None
      | Some t \<Rightarrow> (case takeWhile any_char t of [] \<Rightarrow> None | x # xs \<Rightarrow> Some (''RC'' @ x # xs)))"

definition re_version :: "string \<Rightarrow> (string \<times> string \<times> string option \<times> string option) option" where
  "re_version s =
     Option.bind (re_lit ''ns-'' s) (\<lambda>s.
     Option.bind (re_plus is_digit s) (\<lambda>(major, s).
     Option.bind (re_lit ''.'' s) (\<lambda>s.
     Option.bind (re_plus is_digit s) (\<lambda>(minor, s).
     let (patch, s) = re_patch s in Some (major, minor, patch, re_candidate s)))))"

text \<open>
  \<open>(.+)-(\d+)-(g[a-fA-F0-9]+)(?:-(dirty))?\<close>: the first group is greedy, so the longest prefix
  whose rest matches is taken.
\<close>

definition is_hex :: "char \<Rightarrow> bool" where
  "is_hex c \<longleftrightarrow> (let n = (of_char c :: nat) in (48 \<le> n \<and> n \<le> 57) \<or> (65 \<le> n \<and> n \<le> 70) \<or> (97 \<le> n \<and> n \<le> 102))"

definition re_distance :: "string \<Rightarrow> (string \<times> string \<times> bool) option" where
  "re_distance s =
     Option.bind (re_lit ''-'' s) (\<lambda>s.
     Option.bind (re_plus is_digit s) (\<lambda>(n, s).
     Option.bind (re_lit ''-g'' s) (\<lambda>s.
     Option.bind (re_plus is_hex s) (\<lambda>(h, s). Some (n, CHR ''g'' # h, re_lit ''-dirty'' s \<noteq> None)))))"

fun re_describe_at :: "string \<Rightarrow> nat \<Rightarrow> (string \<times> string \<times> string \<times> bool) option" where
  "re_describe_at s 0 = None"
| "re_describe_at s (Suc k) =
     (case re_distance (drop (Suc k) s) of
        Some (n, h, d) \<Rightarrow> Some (take (Suc k) s, n, h, d)
      | None \<Rightarrow> re_describe_at s k)"

definition re_describe :: "string \<Rightarrow> (string \<times> string \<times> string \<times> bool) option" where
  "re_describe s = re_describe_at s (length (takeWhile any_char s))"

section \<open>The version task\<close>

type_synonym fields = "(string \<times> string) list"

definition quoted :: "string \<Rightarrow> string" where
  "quoted s = DQ @ s @ DQ"

definition parse_version_tag :: "string \<Rightarrow> fields \<Rightarrow> bool \<times> fields" where
  "parse_version_tag tag f =
     (let safe = strip tag in
      (case re_version safe of
         None \<Rightarrow> (False, f)
       | Some (major, minor, patch, rc) \<Rightarrow>
           (True,
            dict_set ''VERSION_RELEASE_CANDIDATE'' (quoted (case rc of None \<Rightarrow> [] | Some r \<Rightarrow> r))
            (dict_set ''VERSION_PATCH'' (case patch of None \<Rightarrow> ''0'' | Some p \<Rightarrow> p)
            (dict_set ''VERSION_MINOR'' minor
            (dict_set ''VERSION_MAJOR'' major
            (dict_set ''VERSION_TAG'' (quoted safe) f)))))))"

text \<open>What git prints; an error carries what it wrote to its error output.\<close>

type_synonym git_output = "string + string"

record git =
  gt_describe :: git_output
  gt_ns3_tag :: git_output
  gt_match_tag :: git_output
  gt_toplevel :: git_output

definition git_find_closest_tag :: "git \<Rightarrow> fields \<Rightarrow> fields res" where
  "git_find_closest_tag g f =
     (case gt_describe g of
        Inl e \<Rightarrow> Inl (UserException (strip e))
      | Inr out \<Rightarrow>
          (case re_describe out of
             None \<Rightarrow> Inl ValueError
           | Some (tag, n, h, dirty) \<Rightarrow>
               let f = dict_set ''CLOSEST_TAG'' (quoted tag) f;
                   f = dict_set ''VERSION_TAG_DISTANCE'' n f;
                   f = dict_set ''VERSION_COMMIT_HASH'' (quoted h) f;
                   f = dict_set ''VERSION_DIRTY_FLAG'' (if dirty then ''1'' else ''0'') f
               in Inr (snd (parse_version_tag tag f))))"

definition git_find_closest_ns3_tag :: "git \<Rightarrow> fields \<Rightarrow> fields res" where
  "git_find_closest_ns3_tag g f =
     (case gt_ns3_tag g of
        Inl e \<Rightarrow> Inl (UserException (strip e))
      | Inr out \<Rightarrow> (let (ok, f) = parse_version_tag (strip out) f in if ok then Inr f else Inl ValueError))"

text \<open>The cache files of the tree, in the order \<open>ant_glob\<close> finds them, and the environment.\<close>

record build =
  bd_cache :: "(string \<times> fields) list"
  bd_env :: fields
  bd_log :: "exn list"

definition update_env :: "fields \<Rightarrow> fields \<Rightarrow> fields" where
  "update_env f env = fold (\<lambda>(k, v). dict_set k v) f env"

definition CACHE_FILE :: string where "CACHE_FILE = ''version.cache''"

definition run_version_task :: "git \<Rightarrow> string \<Rightarrow> build \<Rightarrow> nat \<times> build" where
  "run_version_task g dir b =
     (case res_bind (git_find_closest_tag g []) (\<lambda>f.
             if dict_has f ''VERSION_TAG'' then Inr f else git_find_closest_ns3_tag g f) of
        Inl e \<Rightarrow> (1, b\<lparr>bd_log := bd_log b @ [e]\<rparr>)
      | Inr f \<Rightarrow>
          (0, b\<lparr>bd_cache := dict_set (path_join (path_join dir ''model'') CACHE_FILE) f (bd_cache b),
                bd_env := update_env f (bd_env b)\<rparr>))"

section \<open>Configuration\<close>

text \<open>\<open>bool(root)\<close> and \<open>bool(tag)\<close>: an empty output is false.\<close>

definition check_git_repo :: "bool \<Rightarrow> git \<Rightarrow> bool" where
  "check_git_repo git_found g \<longleftrightarrow> git_found \<and> (case gt_toplevel g of Inl _ \<Rightarrow> False | Inr out \<Rightarrow> strip out \<noteq> [])"

definition check_git_repo_has_ns3_tags :: "git \<Rightarrow> bool" where
  "check_git_repo_has_ns3_tags g \<longleftrightarrow> (case gt_match_tag g of Inl _ \<Rightarrow> False | Inr out \<Rightarrow> strip out \<noteq> [])"

record repo_flags =
  rf_git :: bool
  rf_ns3 :: bool

text \<open>
  \<open>configure\<close>: the flags and the new environment; \<open>None\<close> when the option is off.  \<open>fatal\<close> raises.
\<close>

definition configure_version :: "bool \<Rightarrow> bool \<Rightarrow> git \<Rightarrow> build \<Rightarrow> (repo_flags \<times> build) option res" where
  "configure_version enabled git_found g b =
     (if \<not> enabled then Inr None
      else let repo = check_git_repo git_found g; tags = repo \<and> check_git_repo_has_ns3_tags g in
        if tags then Inr (Some (\<lparr>rf_git = repo, rf_ns3 = tags\<rparr>, b))
        else (case bd_cache b of
                [] \<Rightarrow> Inl (UserException ''Unable to find ns3 git repository or version.cache file containing version information'')
              | (_, f) # _ \<Rightarrow> Inr (Some (\<lparr>rf_git = repo, rf_ns3 = tags\<rparr>, b\<lparr>bd_env := update_env f (bd_env b)\<rparr>))))"

text \<open>\<open>generate_version_defines\<close>: the task that writes the header, after the version task if there is a repository.\<close>

definition generate_version_defines :: "repo_flags \<Rightarrow> string list" where
  "generate_version_defines r = (if rf_ns3 r then [''git_ns3_version_info'', ''subst''] else [''subst''])"

section \<open>Parsing what git prints\<close>

definition describe_output :: "string \<Rightarrow> nat \<Rightarrow> string \<Rightarrow> bool \<Rightarrow> string" where
  "describe_output tag n hash dirty = tag @ ''-'' @ str_nat n @ ''-g'' @ hash @ (if dirty then ''-dirty'' else []) @ nl"

lemma re_lit_Cons: "re_lit (c # ps) s = (case s of [] \<Rightarrow> None | x # xs \<Rightarrow> if c = x then re_lit ps xs else None)"
  by (cases s) auto

lemma digits_takeWhile: "takeWhile is_digit (str_nat n) = str_nat n" "dropWhile is_digit (str_nat n) = []"
  using str_nat_digits [of n] by (auto simp: list_all_iff)

lemma re_plus_str_nat [simp]: "re_plus is_digit (str_nat n) = Some (str_nat n, [])"
  by (cases "str_nat n") (use digits_takeWhile [of n] in \<open>auto simp: re_plus_def\<close>)

lemma re_plus_prefix:
  assumes "list_all P h" "h \<noteq> []" "s = [] \<or> \<not> P (hd s)"
  shows "re_plus P (h @ s) = Some (h, s)"
proof -
  have "takeWhile P (h @ s) = h" "dropWhile P (h @ s) = s"
    using assms(1,3) by (cases s; auto simp: list_all_iff takeWhile_append dropWhile_append)+
  then show ?thesis using assms(2) by (cases h) (auto simp: re_plus_def)
qed

definition hash_end :: "bool \<Rightarrow> string" where
  "hash_end dirty = (if dirty then ''-dirty'' else []) @ nl"

lemma re_distance_output:
  assumes "list_all is_hex hash" "hash \<noteq> []"
  shows "re_distance (''-'' @ str_nat n @ ''-g'' @ hash @ hash_end dirty) = Some (str_nat n, CHR ''g'' # hash, dirty)"
proof -
  have "re_plus is_hex (hash @ hash_end dirty) = Some (hash, hash_end dirty)"
    by (rule re_plus_prefix) (use assms in \<open>auto simp: hash_end_def is_hex_def\<close>)
  moreover have "re_plus is_digit (str_nat n @ CHR ''-'' # CHR ''g'' # hash @ hash_end dirty) =
      Some (str_nat n, CHR ''-'' # CHR ''g'' # hash @ hash_end dirty)"
    by (rule re_plus_digits) (simp add: is_digit_def)
  ultimately show ?thesis
    by (simp add: re_distance_def hash_end_def re_lit_Cons)
qed

text \<open>No later hyphen starts a match.\<close>

lemma re_distance_start: "re_distance s \<noteq> None \<Longrightarrow> \<exists>c t. s = CHR ''-'' # c # t \<and> is_digit c"
  by (auto simp: re_distance_def re_lit_eq_Some re_plus_def bind_eq_Some_conv split: list.splits)
     (metis list.exhaust takeWhile.simps list.distinct(1))+

fun no_distance :: "string \<Rightarrow> bool" where
  "no_distance [] = True"
| "no_distance (x # xs) = (no_distance xs \<and> (x = CHR ''-'' \<longrightarrow> (case xs of [] \<Rightarrow> True | c # _ \<Rightarrow> \<not> is_digit c)))"

lemma no_distance_drop: "no_distance s \<Longrightarrow> re_distance (drop i s) = None"
proof (induction s arbitrary: i)
  case Nil
  then show ?case using re_distance_start [of "[]"] by (cases "re_distance []") auto
next
  case (Cons x xs)
  show ?case
  proof (cases i)
    case 0
    have "re_distance (x # xs) = None"
    proof (rule ccontr)
      assume "re_distance (x # xs) \<noteq> None"
      from re_distance_start [OF this] obtain c t where "x = CHR ''-''" "xs = c # t" "is_digit c" by auto
      then show False using Cons.prems by simp
    qed
    then show ?thesis using 0 by simp
  next
    case (Suc j)
    then show ?thesis using Cons by simp
  qed
qed

lemma no_distance_append: "CHR ''-'' \<notin> set u \<Longrightarrow> no_distance v \<Longrightarrow> no_distance (u @ v)"
  by (induction u) auto

lemma no_distance_output:
  assumes "list_all is_hex hash"
  shows "no_distance (str_nat n @ ''-g'' @ hash @ hash_end dirty)"
proof -
  have d: "CHR ''-'' \<notin> set (str_nat n)" using str_nat_digits [of n] by (auto simp: list_all_iff is_digit_def)
  have h: "CHR ''-'' \<notin> set hash" using assms by (auto simp: list_all_iff is_hex_def)
  have e: "no_distance (hash_end dirty)" by (simp add: hash_end_def is_digit_def)
  have "no_distance (''-g'' @ hash @ hash_end dirty)" using no_distance_append [OF h e] by (simp add: is_digit_def)
  from no_distance_append [OF d this] show ?thesis .
qed

lemma re_describe_at_skip:
  assumes "\<And>j. m < j \<Longrightarrow> j \<le> k \<Longrightarrow> re_distance (drop j s) = None" "m \<le> k"
  shows "re_describe_at s k = re_describe_at s m"
  using assms
proof (induction k)
  case (Suc k)
  show ?case
  proof (cases "m = Suc k")
    case False
    then have "re_describe_at s k = re_describe_at s m" using Suc by (intro Suc.IH) auto
    moreover have "re_distance (drop (Suc k) s) = None" using Suc.prems False by auto
    ultimately show ?thesis by simp
  qed simp
qed simp

lemma describe_output_parts:
  assumes "tag \<noteq> []" "NL \<notin> set tag" "list_all is_hex hash" "hash \<noteq> []"
  shows "re_describe (describe_output tag n hash dirty) = Some (tag, str_nat n, CHR ''g'' # hash, dirty)"
proof -
  let ?rest = "str_nat n @ ''-g'' @ hash @ hash_end dirty"
  let ?out = "describe_output tag n hash dirty"
  have out: "?out = tag @ CHR ''-'' # ?rest" by (simp add: describe_output_def hash_end_def)
  have nh: "NL \<notin> set hash" using assms(3) by (auto simp: list_all_iff is_hex_def)
  have line: "takeWhile any_char (u @ nl) = u" if "NL \<notin> set u" for u
    using that by (induction u) (auto simp: any_char_def)
  let ?u = "tag @ ''-'' @ str_nat n @ ''-g'' @ hash @ (if dirty then ''-dirty'' else [])"
  have "?out = ?u @ nl" by (simp add: describe_output_def)
  moreover have "NL \<notin> set ?u" using assms(2) nh nl_notin_str_nat [of n] by auto
  ultimately have "length (takeWhile any_char ?out) = length ?out - 1"
    using line [of ?u] by (simp only: length_append) simp
  moreover have "re_distance (drop j ?out) = None" if j: "length tag < j" for j
  proof -
    obtain i where "j = length tag + Suc i" using j less_imp_Suc_add by auto
    then have "drop j ?out = drop i ?rest" by (simp add: out)
    then show ?thesis using no_distance_drop [OF no_distance_output [OF assms(3)]] by simp
  qed
  ultimately have "re_describe ?out = re_describe_at ?out (length tag)"
    unfolding re_describe_def by (intro re_describe_at_skip) (auto simp: out)
  moreover obtain k where k: "length tag = Suc k" using assms(1) by (cases tag) auto
  moreover have "re_distance (drop (length tag) ?out) = Some (str_nat n, CHR ''g'' # hash, dirty)"
    using re_distance_output [OF assms(3,4), of n dirty] by (simp add: out)
  moreover have "take (length tag) ?out = tag" by (simp add: out)
  ultimately show ?thesis by simp
qed

text \<open>What \<open>git describe --long\<close> prints is taken apart as it was put together, whatever hyphens and
  digits the tag itself holds.
\<close>

theorem describe_roundtrip:
  assumes "tag \<noteq> []" "NL \<notin> set tag" "list_all is_hex hash" "hash \<noteq> []"
  shows "re_describe (describe_output tag n hash dirty) = Some (tag, str_nat n, CHR ''g'' # hash, dirty)"
  using assms by (rule describe_output_parts)

theorem describe_roundtrip_witness:
  "re_describe (describe_output ''ns-3.33-2-gab'' 17 ''3ade'' True) = Some (''ns-3.33-2-gab'', ''17'', ''g3ade'', True)"
proof -
  have "str_nat 17 = ''17''" by code_simp
  then show ?thesis using describe_roundtrip [of "''ns-3.33-2-gab''" "''3ade''" 17 True] by (simp add: is_hex_def)
qed

section \<open>Versions\<close>

definition version_tag :: "nat \<Rightarrow> nat \<Rightarrow> nat option \<Rightarrow> string option \<Rightarrow> string" where
  "version_tag major minor patch rc =
     ''ns-'' @ str_nat major @ ''.'' @ str_nat minor @
     (case patch of None \<Rightarrow> [] | Some p \<Rightarrow> ''.'' @ str_nat p) @ (case rc of None \<Rightarrow> [] | Some r \<Rightarrow> ''-RC'' @ r)"

text \<open>The text after RC is a word.\<close>

definition rc_ok :: "string option \<Rightarrow> bool" where
  "rc_ok rc \<longleftrightarrow> (case rc of None \<Rightarrow> True | Some r \<Rightarrow> r \<noteq> [] \<and> list_all (\<lambda>c. \<not> is_space c) r)"

lemma nl_space [simp]: "is_space NL"
  by (simp add: is_space_def)

lemma str_nat_no_space: "list_all (\<lambda>c. \<not> is_space c) (str_nat n)"
proof -
  have "is_digit c \<Longrightarrow> \<not> is_space c" for c by (auto simp: is_digit_def is_space_def Let_def)
  then show ?thesis using str_nat_digits [of n] by (auto simp: list_all_iff)
qed

lemma strip_word: "list_all (\<lambda>c. \<not> is_space c) s \<Longrightarrow> strip s = s"
proof -
  have d: "dropWhile is_space u = u" if "list_all (\<lambda>c. \<not> is_space c) u" for u
    using that by (cases u) auto
  assume "list_all (\<lambda>c. \<not> is_space c) s"
  then show ?thesis using d [of s] d [of "rev s"] by (simp add: strip_def lstrip_def rstrip_def list_all_iff)
qed

lemma version_tag_word: "rc_ok rc \<Longrightarrow> list_all (\<lambda>c. \<not> is_space c) (version_tag major minor patch rc)"
proof -
  have "list_all (\<lambda>c. \<not> is_space c) ''ns-''" "list_all (\<lambda>c. \<not> is_space c) ''.''" "list_all (\<lambda>c. \<not> is_space c) ''-RC''"
    by code_simp+
  moreover assume "rc_ok rc"
  ultimately show ?thesis
    using str_nat_no_space unfolding version_tag_def rc_ok_def
    by (cases patch; cases rc) (simp_all only: list_all_append option.case list.pred_inject(1) simp_thms)
qed

lemma rc_no_newline: "list_all (\<lambda>c. \<not> is_space c) r \<Longrightarrow> takeWhile any_char r = r"
proof (induction r)
  case (Cons c r)
  have "c \<noteq> NL"
  proof
    assume "c = NL"
    then show False using Cons.prems nl_space by simp
  qed
  then show ?case using Cons by (simp add: any_char_def)
qed simp

lemma re_candidate_tag:
  "rc_ok rc \<Longrightarrow> re_candidate (case rc of None \<Rightarrow> [] | Some r \<Rightarrow> ''-RC'' @ r) = map_option (\<lambda>r. ''RC'' @ r) rc"
  by (cases rc) (auto simp: re_candidate_def rc_ok_def rc_no_newline re_lit_Cons split: list.splits)

lemma re_version_tag:
  assumes "rc_ok rc"
  shows "re_version (version_tag major minor patch rc) =
    Some (str_nat major, str_nat minor, map_option str_nat patch, map_option (\<lambda>r. ''RC'' @ r) rc)"
proof -
  let ?rc = "case rc of None \<Rightarrow> [] | Some r \<Rightarrow> ''-RC'' @ r"
  let ?t = "(case patch of None \<Rightarrow> [] | Some p \<Rightarrow> ''.'' @ str_nat p) @ ?rc"
  have d: "list_all is_digit (str_nat n)" for n by (rule str_nat_digits)
  have rc: "?rc = [] \<or> \<not> is_digit (hd ?rc)" by (cases rc) (auto simp: is_digit_def)
  have 1: "re_plus is_digit (str_nat major @ CHR ''.'' # str_nat minor @ ?t) = Some (str_nat major, CHR ''.'' # str_nat minor @ ?t)"
    by (rule re_plus_digits) (simp add: is_digit_def)
  have 2: "re_plus is_digit (str_nat minor @ ?t) = Some (str_nat minor, ?t)"
    by (rule re_plus_prefix [OF d]) (use rc in \<open>auto simp: is_digit_def split: option.splits\<close>)
  have 3: "re_patch ?t = (map_option str_nat patch, ?rc)"
  proof (cases patch)
    case None
    have "re_plus is_digit (CHR ''R'' # s) = None" for s by (simp add: re_plus_def is_digit_def)
    then show ?thesis using None by (cases rc) (auto simp: re_patch_def any_char_def)
  next
    case (Some p)
    have "re_plus is_digit (str_nat p @ ?rc) = Some (str_nat p, ?rc)"
      by (rule re_plus_prefix [OF d]) (use rc in auto)
    then show ?thesis using Some by (simp add: re_patch_def any_char_def)
  qed
  define u where "u = ?t"
  note 1 [folded u_def] and 2 [folded u_def] and 3 [folded u_def]
  moreover have "version_tag major minor patch rc = ''ns-'' @ str_nat major @ CHR ''.'' # str_nat minor @ u"
    by (simp add: version_tag_def u_def)
  ultimately show ?thesis
    by (simp add: re_version_def re_lit_Cons re_candidate_tag [OF assms])
qed

text \<open>The dot before the patch number is not quoted: any character will do, a hyphen too.\<close>

lemma patch_after_any_character:
  assumes "\<not> is_digit c" "c \<noteq> NL"
  shows "re_version (''ns-'' @ str_nat major @ ''.'' @ str_nat minor @ [c] @ str_nat p) = Some (str_nat major, str_nat minor, Some (str_nat p), None)"
proof -
  have 1: "re_plus is_digit (str_nat major @ CHR ''.'' # str_nat minor @ c # str_nat p) = Some (str_nat major, CHR ''.'' # str_nat minor @ c # str_nat p)"
    by (rule re_plus_digits) (simp add: is_digit_def)
  have 2: "re_plus is_digit (str_nat minor @ c # str_nat p) = Some (str_nat minor, c # str_nat p)"
    by (rule re_plus_digits) (rule assms)
  show ?thesis
    using assms 1 2 by (simp add: re_version_def re_lit_Cons re_patch_def any_char_def re_candidate_def)
qed

section \<open>From git to the build, and to a build without git\<close>

lemma map_of_update_env: "map_of (update_env f env) k = (case map_of (rev f) k of None \<Rightarrow> map_of env k | Some v \<Rightarrow> Some v)"
  by (induction f arbitrary: env) (auto simp: update_env_def map_add_def split: option.splits)

lemma map_of_rev_distinct: "distinct (map fst f) \<Longrightarrow> map_of (rev f) = map_of f"
  by (rule map_of_eqI) (auto simp: map_of_eq_Some_iff rev_map [symmetric] distinct_rev)

lemma parse_version_tag_distinct: "distinct (map fst f) \<Longrightarrow> distinct (map fst (snd (parse_version_tag tag f)))"
  by (auto simp: parse_version_tag_def Let_def split: option.splits)

text \<open>The fields the task writes, for a tag that names a version.\<close>

definition version_fields :: "nat \<Rightarrow> nat \<Rightarrow> nat option \<Rightarrow> string option \<Rightarrow> nat \<Rightarrow> string \<Rightarrow> bool \<Rightarrow> fields" where
  "version_fields major minor patch rc n hash dirty =
     [(''CLOSEST_TAG'', quoted (version_tag major minor patch rc)),
      (''VERSION_TAG_DISTANCE'', str_nat n),
      (''VERSION_COMMIT_HASH'', quoted (CHR ''g'' # hash)),
      (''VERSION_DIRTY_FLAG'', if dirty then ''1'' else ''0''),
      (''VERSION_TAG'', quoted (version_tag major minor patch rc)),
      (''VERSION_MAJOR'', str_nat major),
      (''VERSION_MINOR'', str_nat minor),
      (''VERSION_PATCH'', case patch of None \<Rightarrow> ''0'' | Some p \<Rightarrow> str_nat p),
      (''VERSION_RELEASE_CANDIDATE'', quoted (case rc of None \<Rightarrow> [] | Some r \<Rightarrow> ''RC'' @ r))]"

lemma find_closest_tag_fields:
  assumes "rc_ok rc" "list_all is_hex hash" "hash \<noteq> []" "gt_describe g = Inr (describe_output (version_tag major minor patch rc) n hash dirty)"
  shows "git_find_closest_tag g [] = Inr (version_fields major minor patch rc n hash dirty)"
proof -
  let ?tag = "version_tag major minor patch rc"
  have w: "list_all (\<lambda>c. \<not> is_space c) ?tag" by (rule version_tag_word [OF assms(1)])
  have "?tag \<noteq> []" by (simp add: version_tag_def)
  moreover have "NL \<notin> set ?tag" using w nl_space unfolding list_all_iff by blast
  ultimately have d: "re_describe (describe_output ?tag n hash dirty) = Some (?tag, str_nat n, CHR ''g'' # hash, dirty)"
    by (rule describe_output_parts) (rule assms)+
  show ?thesis
    by (simp add: git_find_closest_tag_def assms(4) d parse_version_tag_def strip_word [OF w] re_version_tag [OF assms(1)]
         version_fields_def Let_def case_map_option)
      (simp split: option.split)
qed

text \<open>C26: the version task of a checked out version succeeds: the environment and the cache file hold the
  numbers of the tag, its patch number or 0, its release candidate, the distance, the
  hash and whether the tree is dirty.
\<close>

theorem version_task_reads_tag:
  assumes "rc_ok rc" "list_all is_hex hash" "hash \<noteq> []" "gt_describe g = Inr (describe_output (version_tag major minor patch rc) n hash dirty)"
    and "run_version_task g dir b = (r, b')" "(k, x) \<in> set (version_fields major minor patch rc n hash dirty)"
  shows "r = 0 \<and> map_of (bd_env b') k = Some x \<and>
    map_of (bd_cache b') (path_join (path_join dir ''model'') CACHE_FILE) = Some (version_fields major minor patch rc n hash dirty)"
proof -
  let ?f = "version_fields major minor patch rc n hash dirty"
  have d: "distinct (map fst ?f)" by (simp add: version_fields_def)
  then have "map_of ?f k = Some x" using assms(6) by simp
  then have "map_of (update_env ?f (bd_env b)) k = Some x" using map_of_rev_distinct [OF d] by (simp add: map_of_update_env)
  moreover have "dict_has ?f ''VERSION_TAG''" by (simp add: version_fields_def)
  ultimately show ?thesis
    using assms(5) find_closest_tag_fields [OF assms(1-4)] by (auto simp: run_version_task_def)
qed

definition ns3_git :: git where
  "ns3_git = \<lparr>gt_describe = Inr (describe_output (version_tag 3 33 None (Some ''1'')) 17 ''3ade'' True),
     gt_ns3_tag = Inl ''no'', gt_match_tag = Inr ''ns-3.33'', gt_toplevel = Inr ''/ns3''\<rparr>"

theorem version_task_reads_tag_witness:
  "fst (run_version_task ns3_git ''src/core'' \<lparr>bd_cache = [], bd_env = [], bd_log = []\<rparr>) = 0 \<and>
   map_of (bd_env (snd (run_version_task ns3_git ''src/core'' \<lparr>bd_cache = [], bd_env = [], bd_log = []\<rparr>))) ''VERSION_MINOR'' = Some (str_nat 33)"
proof -
  obtain r b' where r: "run_version_task ns3_git ''src/core'' \<lparr>bd_cache = [], bd_env = [], bd_log = []\<rparr> = (r, b')" by fastforce
  have "r = 0 \<and> map_of (bd_env b') ''VERSION_MINOR'' = Some (str_nat 33)"
    using version_task_reads_tag [of "Some ''1''" "''3ade''" ns3_git 3 33 None 17 True "''src/core''" _ r b' "''VERSION_MINOR''" "str_nat 33", OF _ _ _ _ r]
    by (simp add: ns3_git_def rc_ok_def is_space_def is_hex_def version_fields_def)
  then show ?thesis using r by simp
qed

text \<open>A build of the same tree without git reads from the cache file what the task wrote there: the
  fields of the version are those of the build with git.
\<close>

theorem cache_reproduces_version:
  assumes "run_version_task g dir b = (0, b1)" "bd_cache b = []" "\<not> check_git_repo git_found g'"
    and "configure_version True git_found g' (b1\<lparr>bd_env := env\<rparr>) = Inr (Some (r, b2))"
    and "map_of (snd (hd (bd_cache b1))) k = Some x"
  shows "map_of (bd_env b2) k = Some x \<and> map_of (bd_env b1) k = Some x \<and> generate_version_defines r = [''subst'']"
proof -
  obtain f where f: "bd_cache b1 = [(path_join (path_join dir ''model'') CACHE_FILE, f)]" "bd_env b1 = update_env f (bd_env b)" "distinct (map fst f)"
  proof -
    have "distinct (map fst f)" if "git_find_closest_tag g [] = Inr f" for f
      using that by (auto simp: git_find_closest_tag_def parse_version_tag_distinct Let_def split: sum.splits option.splits)
    moreover have "distinct (map fst f')" if "git_find_closest_ns3_tag g f = Inr f'" "distinct (map fst f)" for f f'
      using that parse_version_tag_distinct [of f] by (auto simp: git_find_closest_ns3_tag_def Let_def split: sum.splits if_splits prod.splits) (metis snd_conv)
    ultimately show ?thesis
      using that assms(1,2) by (auto simp: run_version_task_def res_bind_eq_Inr split: sum.splits if_splits)
  qed
  have "map_of (rev f) k = Some x" using f assms(5) by (simp add: map_of_rev_distinct)
  then show ?thesis
    using assms(3,4) f by (auto simp: configure_version_def map_of_update_env generate_version_defines_def Let_def)
qed

definition no_git :: git where
  "no_git = \<lparr>gt_describe = Inl ''no'', gt_ns3_tag = Inl ''no'', gt_match_tag = Inl ''no'', gt_toplevel = Inl ''no''\<rparr>"

theorem cache_reproduces_version_witness:
  "\<exists>b1 r b2. run_version_task ns3_git ''src/core'' \<lparr>bd_cache = [], bd_env = [], bd_log = []\<rparr> = (0, b1) \<and>
     configure_version True True no_git (b1\<lparr>bd_env := []\<rparr>) = Inr (Some (r, b2)) \<and> map_of (bd_env b2) ''VERSION_MAJOR'' = Some (str_nat 3)"
proof -
  let ?b = "\<lparr>bd_cache = [], bd_env = [], bd_log = []\<rparr>" and ?f = "version_fields 3 33 None (Some ''1'') 17 ''3ade'' True"
  have f: "git_find_closest_tag ns3_git [] = Inr ?f"
    by (rule find_closest_tag_fields) (simp_all add: ns3_git_def rc_ok_def is_space_def is_hex_def)
  let ?b1 = "?b\<lparr>bd_cache := [(path_join (path_join ''src/core'' ''model'') CACHE_FILE, ?f)], bd_env := update_env ?f []\<rparr>"
  have 1: "run_version_task ns3_git ''src/core'' ?b = (0, ?b1)"
    by (simp add: run_version_task_def f) (simp add: version_fields_def)
  have g: "\<not> check_git_repo True no_git" by (simp add: check_git_repo_def no_git_def)
  have 2: "configure_version True True no_git (?b1\<lparr>bd_env := []\<rparr>) =
      Inr (Some (\<lparr>rf_git = False, rf_ns3 = False\<rparr>, ?b1\<lparr>bd_env := update_env ?f []\<rparr>))"
    using g by (simp add: configure_version_def Let_def)
  have 3: "map_of (snd (hd (bd_cache ?b1))) ''VERSION_MAJOR'' = Some (str_nat 3)" by (simp add: version_fields_def)
  from cache_reproduces_version [OF 1 _ g 2 3] show ?thesis using 1 2 by (auto intro!: exI)
qed

text \<open>A tag git knows nothing about: the task fails with 1 and leaves environment and cache alone.\<close>

lemma version_task_fails:
  assumes "run_version_task g dir b = (r, b')" "r \<noteq> 0"
  shows "r = 1 \<and> bd_cache b' = bd_cache b \<and> bd_env b' = bd_env b"
  using assms by (auto simp: run_version_task_def split: sum.splits)

end
