(* ===== verification/Binding_Types.thy ===== *)
theory Binding_Types
  imports Py_Prelude
begin

text \<open>
  \<^verbatim>\<open>bindings/python/ns3modulegen_core_customizations.py\<close>, what the generator of the bindings adds to
  pybindgen: the transformation of smart pointers, the handlers and classes of callbacks, and
  the customizations of objects and attributes.  The types pybindgen knows are parameters; what is
  asked of its code sinks is a list of calls.
\<close>

section \<open>Smart pointers\<close>

text \<open>The pattern \<open>(ns3::|::ns3::|)Ptr<([^>]+)>\s*$\<close>: its second group.\<close>

definition rx_ptr_at :: "string \<Rightarrow> string option" where
  "rx_ptr_at s =
     (case re_lit ''Ptr<'' s of
        None \<Rightarrow> None
      | Some t \<Rightarrow>
          let inner = takeWhile (\<lambda>c. c \<noteq> CHR ''>'') t; rest = dropWhile (\<lambda>c. c \<noteq> CHR ''>'') t in
          if inner \<noteq> [] \<and> rest \<noteq> [] \<and> list_all is_space (tl rest) then Some inner else None)"

definition rx_ptr :: "string \<Rightarrow> string option" where
  "rx_ptr s =
     (case Option.bind (re_lit ''ns3::'' s) rx_ptr_at of
        Some g \<Rightarrow> Some g
      | None \<Rightarrow>
          (case Option.bind (re_lit ''::ns3::'' s) rx_ptr_at of
             Some g \<Rightarrow> Some g
           | None \<Rightarrow> rx_ptr_at s))"

text \<open>A leading and a trailing \<open>const\<close> are both taken off.\<close>

definition strip_const :: "string \<Rightarrow> string \<times> bool" where
  "strip_const t =
     (let (t, is_const) = (if startswith t ''const '' then (drop 6 t, True) else (t, False)) in
      if endswith t '' const'' then (take (length t - 6) t, True) else (t, is_const))"

definition untransformed_type_traits :: "string \<Rightarrow> string option \<times> bool" where
  "untransformed_type_traits name =
     (case rx_ptr name of
        None \<Rightarrow> (None, False)
      | Some g \<Rightarrow>
          let (t, is_const) = strip_const (strip g);
              n = t @ '' *'';
              n = (if startswith n ''::'' then drop 2 n else n)
          in (Some n, is_const))"

definition get_untransformed_name :: "string \<Rightarrow> string option" where
  "get_untransformed_name name = fst (untransformed_type_traits name)"

text \<open>
  \<open>create_type_handler\<close>: the arguments and options with which the handler is made, and the type it
  is a transformation of.  Slicing a name that did not match raises.
\<close>

datatype handler_class = Parameter_Class | ReturnValue_Class | Other_Class

definition correct_ctype :: "string \<Rightarrow> (string \<times> string) res" where
  "correct_ctype name =
     (case untransformed_type_traits name of
        (None, _) \<Rightarrow> Inl TypeError
      | (Some orig, is_const) \<Rightarrow>
          let t = take (length orig - 2) orig in
          Inr (if is_const then ''ns3::Ptr< '' @ t @ '' const >'' else ''ns3::Ptr< '' @ t @ '' >'', orig))"

definition create_type_handler ::
    "handler_class \<Rightarrow> string list \<Rightarrow> (string \<times> bool) list \<Rightarrow> (string list \<times> (string \<times> bool) list \<times> string) res" where
  "create_type_handler cls args kwargs =
     res_bind (case cls of
         Parameter_Class \<Rightarrow> Inr (dict_set ''transfer_ownership'' False kwargs)
       | ReturnValue_Class \<Rightarrow> Inr (dict_set ''caller_owns_return'' False kwargs)
       | Other_Class \<Rightarrow> Inl AssertionError) (\<lambda>kwargs.
     (case args of
        [] \<Rightarrow> Inl IndexError
      | name # rest \<Rightarrow> res_bind (correct_ctype name) (\<lambda>(c, orig). Inr (c # rest, kwargs, orig))))"

definition untransform :: "string \<Rightarrow> string \<Rightarrow> string" where
  "untransform ctype expression = ''const_cast<'' @ ctype @ ''> (ns3::PeekPointer ('' @ expression @ ''))''"

definition transform :: "string \<Rightarrow> string \<Rightarrow> string res" where
  "transform ctype expression =
     (if ctype = [] then Inl IndexError
      else if last ctype \<noteq> CHR ''*'' then Inl AssertionError
      else Inr (''ns3::Ptr< '' @ butlast ctype @ '' > ('' @ expression @ '')''))"

section \<open>Handlers of callbacks\<close>

text \<open>What a wrapper asks of the code sinks of pybindgen.\<close>

datatype wrapper_call =
    Declare string string "string option"
  | Parse_Param string "string list" string bool
  | Error_Check string string
  | Write_Code string
  | Indent
  | Unindent
  | Call_Param string

record callback_handler =
  ch_ctype :: string
  ch_impl :: string
  ch_args :: "string list"
  ch_disabled :: bool

definition callback_class :: "string list \<Rightarrow> string" where
  "callback_class params = ''ns3::Callback< '' @ join '', '' params @ '' >''"

definition impl_name :: "nat \<Rightarrow> string" where
  "impl_name n = ''PythonCallbackImpl'' @ str_nat n"

definition register_callback_classes :: "string list list \<Rightarrow> callback_handler list" where
  "register_callback_classes callbacks =
     map (\<lambda>(n, params). \<lparr>ch_ctype = callback_class params, ch_impl = impl_name n, ch_args = params, ch_disabled = False\<rparr>)
       (enumerate 0 callbacks)"

text \<open>
  The name a declared variable gets is up to pybindgen: the parameter \<open>declared\<close>, from the calls so far
  and the name wanted.
\<close>

definition callable_check :: "string \<Rightarrow> string \<Rightarrow> wrapper_call" where
  "callable_check v name = Error_Check (''!PyCallable_Check('' @ v @ '')'')
     (''PyErr_SetString(PyExc_TypeError, '' @ DQ @ ''parameter '' @ [CHR 0x27] @ name @ [CHR 0x27] @ '' must be callbale'' @ DQ @ '');'')"

definition convert_python_to_c ::
    "(wrapper_call list \<Rightarrow> string \<Rightarrow> string) \<Rightarrow> callback_handler \<Rightarrow> string \<Rightarrow> string option \<Rightarrow> wrapper_call list res" where
  "convert_python_to_c declared h name dflt =
     (if ch_disabled h then Inl (UserException ''wrapper could not be generated'')
      else
        let args = join '', '' (ch_args h) in
        (case dflt of
           None \<Rightarrow>
             let v = declared [] name;
                 w = [Declare ''PyObject*'' name None, Parse_Param ''O'' [''&'' @ v] name False, callable_check v name];
                 impl = declared w (name @ ''_cb_impl'');
                 w = w @ [Declare (''ns3::Ptr<'' @ ch_impl h @ ''>'') (name @ ''_cb_impl'') None,
                   Write_Code (impl @ '' = ns3::Create<'' @ ch_impl h @ ''> ('' @ v @ '');''),
                   Call_Param (''ns3::Callback<'' @ args @ ''> ('' @ impl @ '')'')]
             in Inr w
         | Some d \<Rightarrow>
             let v = declared [] name;
                 w = [Declare ''PyObject*'' name (Some ''NULL''), Parse_Param ''O'' [''&'' @ v] name True];
                 val = declared w (name @ ''_value'');
                 w = w @ [Declare (''ns3::Callback<'' @ args @ ''>'') (name @ ''_value'') (Some d),
                   Write_Code (''if ('' @ v @ '') {''), Indent, callable_check v name,
                   Write_Code (val @ '' = ns3::Callback<'' @ args @ ''> (ns3::Create<'' @ ch_impl h @ ''> ('' @ v @ ''));''),
                   Unindent, Write_Code ''}'', Call_Param val]
             in Inr w))"

section \<open>Classes of callbacks\<close>

definition callback_class_text :: "string \<Rightarrow> string list \<Rightarrow> string" where
  "callback_class_text c params =
     concat (map (\<lambda>l. l @ nl)
       [[],
        ''class '' @ c @ '' : public ns3::CallbackImpl<'' @ join '', '' params @ ''>'',
        ''{'',
        ''public:'',
        ''    PyObject *m_callback;'',
        ''    '' @ c @ ''(PyObject *callback)'',
        ''    {'',
        ''        Py_INCREF(callback);'',
        ''        m_callback = callback;'',
        ''    }'',
        ''    virtual ~'' @ c @ ''()'',
        ''    {'',
        ''        PyGILState_STATE __py_gil_state;'',
        ''        __py_gil_state = (PyEval_ThreadsInitialized() ? PyGILState_Ensure() : (PyGILState_STATE) 0);'',
        ''        Py_DECREF(m_callback);'',
        ''        m_callback = NULL;'',
        ''        PyGILState_Release(__py_gil_state);'',
        ''    }'',
        [],
        ''    virtual bool IsEqual(ns3::Ptr<const ns3::CallbackImplBase> other_base) const'',
        ''    {'',
        ''        const '' @ c @ '' *other = dynamic_cast<const '' @ c @ ''*> (ns3::PeekPointer (other_base));'',
        ''        if (other != NULL)'',
        ''            return (other->m_callback == m_callback);'',
        ''        else'',
        ''            return false;'',
        ''    }'',
        []])"

text \<open>
  What pybindgen knows: whether a type can be returned or passed, the place of the handler of a type
  in the list of registered handlers, and the text of the method that calls the callback.
\<close>

record bindgen =
  bg_return :: "string \<Rightarrow> bool"
  bg_param :: "string \<Rightarrow> bool"
  bg_lookup :: "string \<Rightarrow> nat option"
  bg_method :: "string \<Rightarrow> (string \<times> string) list \<Rightarrow> string"

definition callback_parameters :: "string list \<Rightarrow> (string \<times> string) list" where
  "callback_parameters params =
     map (\<lambda>(n, a). (a, ''arg'' @ str_nat (n + 1))) (enumerate 0 (filter (\<lambda>a. a \<noteq> ''ns3::empty'') params))"

definition disable :: "nat option \<Rightarrow> callback_handler list \<Rightarrow> callback_handler list" where
  "disable k hs = (case k of None \<Rightarrow> hs | Some i \<Rightarrow> hs[i := (hs ! i)\<lparr>ch_disabled := True\<rparr>])"

definition generate_callback_class ::
    "bindgen \<Rightarrow> nat \<times> string list \<Rightarrow> callback_handler list \<times> (string \<times> string) list \<Rightarrow> (callback_handler list \<times> (string \<times> string) list) res" where
  "generate_callback_class b cb st =
     (let (n, params) = cb; (hs, out) = st in
      (case params of
         [] \<Rightarrow> Inl IndexError
       | ret # ps \<Rightarrow>
           if \<not> bg_return b ret then Inr (hs, out)
           else
             let args = callback_parameters ps in
             if list_all (\<lambda>(a, _). bg_param b a) args
             then Inr (hs, out @ [(impl_name n,
               callback_class_text (impl_name n) params @ nl @ bg_method b ret args @ ''};'' @ nl @ nl)])
             else Inr (disable (bg_lookup b (callback_class params)) hs, out)))"

fun generate_loop ::
    "bindgen \<Rightarrow> (nat \<times> string list) list \<Rightarrow> callback_handler list \<times> (string \<times> string) list \<Rightarrow> (callback_handler list \<times> (string \<times> string) list) res" where
  "generate_loop b [] st = Inr st"
| "generate_loop b (cb # cbs) st = res_bind (generate_callback_class b cb st) (generate_loop b cbs)"

definition generate_callback_classes ::
    "bindgen \<Rightarrow> string list list \<Rightarrow> callback_handler list \<Rightarrow> (callback_handler list \<times> (string \<times> string) list) res" where
  "generate_callback_classes b callbacks hs = generate_loop b (enumerate 0 callbacks) (hs, [])"

section \<open>Objects, attributes and open modes\<close>

record cpp_class =
  cc_full_name :: string
  cc_cannot_be_constructed :: bool
  cc_incomplete_type :: bool

text \<open>
  The code that makes an object.  The message for a class that cannot be constructed has two
  places for one name, so formatting it raises instead.
\<close>

definition instance_creation_function :: "cpp_class \<Rightarrow> string \<Rightarrow> string \<Rightarrow> string \<Rightarrow> string list res" where
  "instance_creation_function c lvalue parameters type =
     (if lvalue = [] \<or> startswith lvalue ''None'' then Inl AssertionError
      else if cc_cannot_be_constructed c then Inl TypeError
      else if cc_incomplete_type c then Inl (UserException (cc_full_name c @ '' cannot be constructed (incomplete type)''))
      else Inr [lvalue @ '' = new '' @ type @ ''('' @ parameters @ '');'', lvalue @ ''->Ref ();''])"

definition post_instance_creation_function :: "string \<Rightarrow> string list" where
  "post_instance_creation_function lvalue = [''ns3::CompleteConstruct('' @ lvalue @ '');'']"

definition helper_class_hook :: "string \<Rightarrow> string \<Rightarrow> string \<times> string" where
  "helper_class_hook name full_name =
     (join nl
       [[],
        ''static ns3::TypeId GetTypeId (void)'',
        ''{'',
        ''  static ns3::TypeId tid = ns3::TypeId ('' @ DQ @ name @ DQ @ '')'',
        ''    .SetParent< '' @ full_name @ '' > ()'',
        ''    ;'',
        ''  return tid;'',
        ''}''],
      ''NS_OBJECT_ENSURE_REGISTERED ('' @ name @ '');'')"

text \<open>A parameter of a method: the class it refers to, its default value and the type of that.\<close>

record method_param =
  mp_class :: "string option"
  mp_value :: "string option"
  mp_value_type :: "string option"

definition attribute_default :: "method_param \<Rightarrow> method_param" where
  "attribute_default p =
     (if mp_class p = Some ''AttributeValue'' \<and> mp_value p \<noteq> None \<and> mp_value_type p = None
      then p\<lparr>mp_value_type := Some ''ns3::EmptyAttributeValue''\<rparr> else p)"

definition Attribute_customizations :: "method_param list list list \<Rightarrow> method_param list list list" where
  "Attribute_customizations classes = map (map (map attribute_default)) classes"

definition upper_text :: "string \<Rightarrow> string" where
  "upper_text = map (\<lambda>c. let n = (of_char c :: nat) in if 97 \<le> n \<and> n \<le> 122 then char_of (n - 32) else c)"

definition add_std_ios_openmode :: "string list" where
  "add_std_ios_openmode =
     map (\<lambda>flag. ''PyModule_AddIntConstant(m, (char *) '' @ DQ @ ''STD_IOS_'' @ upper_text flag @ DQ @ '', std::ios::'' @ flag @ '');'')
       [''in'', ''out'', ''ate'', ''app'', ''trunc'', ''binary'']"

text \<open>\<open>IosOpenmodeParam\<close>: its conversion to Python names a class that is not imported.\<close>

definition openmode_python_to_c :: "(wrapper_call list \<Rightarrow> string \<Rightarrow> string) \<Rightarrow> string \<Rightarrow> string option \<Rightarrow> wrapper_call list" where
  "openmode_python_to_c declared name dflt =
     (let v = declared [] name in
      [Declare ''std::ios_base::openmode'' name dflt,
       Parse_Param ''i'' [''&'' @ v] name (dflt \<noteq> None \<and> dflt \<noteq> Some []), Call_Param v])"

definition openmode_c_to_python :: "wrapper_call list res" where
  "openmode_c_to_python = Inl NameError"

section \<open>Properties of the transformation\<close>

lemma endswith_iff: "endswith s p \<longleftrightarrow> (\<exists>t. s = t @ p)"
proof
  assume "endswith s p"
  then obtain t where "rev s = rev p @ t" by (auto simp: endswith_def startswith_iff)
  then have "s = rev t @ p" by (metis rev_append rev_rev_ident)
  then show "\<exists>t. s = t @ p" ..
qed (auto simp: endswith_def startswith_def)

lemma dropWhile_blank: "list_all is_space b \<Longrightarrow> s \<noteq> [] \<Longrightarrow> \<not> is_space (hd s) \<Longrightarrow> dropWhile is_space (b @ s) = s"
  by (induction b) (auto simp: neq_Nil_conv)

lemma strip_between:
  assumes "list_all is_space b1" "list_all is_space b2" "s \<noteq> []" "\<not> is_space (hd s)" "\<not> is_space (last s)"
  shows "strip (b1 @ s @ b2) = s"
proof -
  have "lstrip (b1 @ s @ b2) = s @ b2" using assms by (simp add: lstrip_def dropWhile_blank)
  moreover have "dropWhile is_space (rev b2 @ rev s) = rev s"
    by (rule dropWhile_blank) (use assms in \<open>simp_all add: hd_rev list_all_rev\<close>)
  ultimately show ?thesis by (simp add: strip_def rstrip_def)
qed

text \<open>A type and the ways in which its pointer may be spelled.\<close>

definition type_name :: "string \<Rightarrow> bool" where
  "type_name t \<longleftrightarrow> t \<noteq> [] \<and> CHR ''>'' \<notin> set t \<and> \<not> is_space (hd t) \<and> \<not> is_space (last t) \<and>
     t \<noteq> ''const'' \<and> \<not> startswith t ''const '' \<and> \<not> endswith t '' const'' \<and> \<not> startswith t ''::''"

datatype const_place = No_Const | Const_Before | Const_After

fun spelled :: "const_place \<Rightarrow> bool \<Rightarrow> string \<Rightarrow> string" where
  "spelled No_Const colons t = (if colons then ''::'' else []) @ t"
| "spelled Const_Before colons t = ''const '' @ (if colons then ''::'' else []) @ t"
| "spelled Const_After colons t = (if colons then ''::'' else []) @ t @ '' const''"

lemma rx_ptr_found:
  assumes "pre \<in> {[], ''ns3::'', ''::ns3::''}" "g \<noteq> []" "CHR ''>'' \<notin> set g" "list_all is_space b"
  shows "rx_ptr (pre @ ''Ptr<'' @ g @ ''>'' @ b) = Some g"
proof -
  have t: "takeWhile (\<lambda>c. c \<noteq> CHR ''>'') (g @ CHR ''>'' # b) = g" "dropWhile (\<lambda>c. c \<noteq> CHR ''>'') (g @ CHR ''>'' # b) = CHR ''>'' # b"
    using assms(3) by (simp_all add: takeWhile_append dropWhile_append)
  have "rx_ptr_at (''Ptr<'' @ g @ ''>'' @ b) = Some g"
    using assms by (simp add: rx_ptr_at_def t)
  then show ?thesis using assms(1) by (auto simp: rx_ptr_def rx_ptr_at_def)
qed

lemma type_name_const:
  assumes "type_name t"
  shows "\<not> startswith (t @ '' const'') ''const ''" "\<not> endswith (CHR '':'' # CHR '':'' # t) '' const''"
proof -
  have t: "t \<noteq> ''const''" "\<And>u. t \<noteq> ''const '' @ u" "\<And>u. t \<noteq> u @ '' const''"
    using assms by (auto simp: type_name_def startswith_iff endswith_iff)
  show "\<not> startswith (t @ '' const'') ''const ''"
    using t(1,2) by (auto simp: startswith_iff append_eq_Cons_conv)
  show "\<not> endswith (CHR '':'' # CHR '':'' # t) '' const''"
    using t(3) by (auto simp: endswith_iff Cons_eq_append_conv)
qed

lemma strip_const_spelled:
  assumes "type_name t"
  shows "strip_const (spelled p colons t) = ((if colons then ''::'' else []) @ t, p \<noteq> No_Const)"
proof -
  have t: "\<not> startswith t ''const ''" "\<not> endswith t '' const''" using assms by (simp_all add: type_name_def)
  have e: "endswith (u @ '' const'') '' const''" for u by (auto simp: endswith_iff)
  show ?thesis
    using t type_name_const [OF assms] e [of t] e [of "''::'' @ t"]
    by (cases p) (auto simp: strip_const_def startswith_def)
qed

lemma spelled_ends:
  assumes "type_name t"
  shows "spelled p colons t \<noteq> []" "CHR ''>'' \<notin> set (spelled p colons t)"
    "\<not> is_space (hd (spelled p colons t))" "\<not> is_space (last (spelled p colons t))"
  using assms by (cases p; auto simp: type_name_def is_space_def hd_append)+

text \<open>A smart pointer to a type, however it is spelled - with or without its name space, blanks, a
  leading \<open>::\<close>, \<open>const\<close> on either side - is handled under one name, \<open>ns3::Ptr< T >\<close> or \<open>ns3::Ptr< T const >\<close>,
  and stands for a plain pointer to the type; the one name is handled as itself.
\<close>

theorem pointer_spellings_agree:
  assumes "type_name t" "pre \<in> {[], ''ns3::'', ''::ns3::''}" "list_all is_space b1" "list_all is_space b2" "list_all is_space b3"
  shows "correct_ctype (pre @ ''Ptr<'' @ (b1 @ spelled p colons t @ b2) @ ''>'' @ b3) =
    Inr (''ns3::Ptr< '' @ t @ (if p = No_Const then [] else '' const'') @ '' >'', t @ '' *'')"
proof -
  have g: "b1 @ spelled p colons t @ b2 \<noteq> []" "CHR ''>'' \<notin> set (b1 @ spelled p colons t @ b2)"
    using spelled_ends(1,2) [OF assms(1), of p colons] assms(3,4) by (auto simp: list_all_iff is_space_def)
  have "\<not> startswith (t @ '' *'') ''::''"
    using assms(1) by (cases t) (auto simp: type_name_def startswith_def take_Cons' hd_append split: if_splits)
  then have "untransformed_type_traits (pre @ ''Ptr<'' @ (b1 @ spelled p colons t @ b2) @ ''>'' @ b3) = (Some (t @ '' *''), p \<noteq> No_Const)"
    unfolding untransformed_type_traits_def rx_ptr_found [OF assms(2) g assms(5)] option.case
      strip_between [OF assms(3,4) spelled_ends(1,3,4) [OF assms(1)]] strip_const_spelled [OF assms(1)]
    by (simp add: startswith_def)
  then show ?thesis unfolding correct_ctype_def by simp
qed

theorem pointer_spellings_agree_witness:
  "correct_ctype ''::ns3::Ptr< const ::ns3::Node>'' = Inr (''ns3::Ptr< ns3::Node const >'', ''ns3::Node *'')"
  using pointer_spellings_agree [of "''ns3::Node''" "''::ns3::''" "'' ''" "[]" "[]" Const_Before True]
  by (simp add: type_name_def is_space_def startswith_def endswith_def)

text \<open>A pointer to an instance of a template is not recognised.\<close>

lemma template_pointer_not_recognised:
  assumes "CHR ''>'' \<notin> set t"
  shows "correct_ctype (''ns3::Ptr< '' @ t @ ''> >'') = Inl TypeError"
proof -
  have "dropWhile (\<lambda>c. c \<noteq> CHR ''>'') (t @ ''> >'') = ''> >''" using assms by (simp add: dropWhile_append)
  then have "rx_ptr (''ns3::Ptr< '' @ t @ ''> >'') = None" by (simp add: rx_ptr_def rx_ptr_at_def is_space_def)
  then show ?thesis unfolding correct_ctype_def untransformed_type_traits_def by simp
qed

section \<open>Properties of the callbacks\<close>

definition usable :: "bindgen \<Rightarrow> string list \<Rightarrow> bool" where
  "usable b params \<longleftrightarrow> bg_return b (hd params) \<and> (\<forall>a \<in> set (tl params). a = ''ns3::empty'' \<or> bg_param b a)"

lemma params_known:
  "list_all (\<lambda>(a, _). bg_param b a) (callback_parameters ps) \<longleftrightarrow> (\<forall>a \<in> set ps. a = ''ns3::empty'' \<or> bg_param b a)"
proof -
  have "list_all (\<lambda>(a, _). bg_param b a) (callback_parameters ps) \<longleftrightarrow>
      (\<forall>a \<in> snd ` set (enumerate 0 (filter (\<lambda>a. a \<noteq> ''ns3::empty'') ps)). bg_param b a)"
    by (auto simp: callback_parameters_def list_all_iff)
  also have "snd ` set (enumerate 0 (filter (\<lambda>a. a \<noteq> ''ns3::empty'') ps)) = {a \<in> set ps. a \<noteq> ''ns3::empty''}"
    by (metis map_snd_enumerate set_filter set_map)
  finally show ?thesis by auto
qed

text \<open>
  The handler of a callback raises when it is used exactly if a class cannot be generated because of
  a parameter; if it is because of the returned type the handler stays enabled, and the code it
  writes names a class that does not exist.
\<close>

definition handler_off :: "bindgen \<Rightarrow> string list \<Rightarrow> bool" where
  "handler_off b params \<longleftrightarrow> bg_return b (hd params) \<and> \<not> usable b params"

lemma generate_class_cases:
  assumes "params \<noteq> []"
  shows "\<exists>body. generate_callback_class b (n, params) (hs, out) =
    Inr (if handler_off b params then disable (bg_lookup b (callback_class params)) hs else hs,
         if usable b params then out @ [(impl_name n, body)] else out)"
  using assms by (cases params) (auto simp: generate_callback_class_def handler_off_def usable_def params_known Let_def)

lemma generate_loop_result:
  assumes "\<And>n params. (n, params) \<in> set cbs \<Longrightarrow> params \<noteq> [] \<and> bg_lookup b (callback_class params) = Some n"
    and "distinct (map fst cbs)"
  shows "\<exists>hs' out'. generate_loop b cbs (hs, out) = Inr (hs', out @ out') \<and> length hs' = length hs \<and>
    map fst out' = map (impl_name \<circ> fst) (filter (usable b \<circ> snd) cbs) \<and>
    (\<forall>i < length hs. hs' ! i = (if \<exists>params. (i, params) \<in> set cbs \<and> handler_off b params then (hs ! i)\<lparr>ch_disabled := True\<rparr> else hs ! i))"
  using assms
proof (induction cbs arbitrary: hs out)
  case (Cons cb cbs)
  obtain n params where cb: "cb = (n, params)" by fastforce
  have p: "params \<noteq> []" "bg_lookup b (callback_class params) = Some n" using Cons.prems(1) [of n params] by (simp_all add: cb)
  obtain body where g: "generate_callback_class b cb (hs, out) =
      Inr (if handler_off b params then disable (Some n) hs else hs, if usable b params then out @ [(impl_name n, body)] else out)"
    using generate_class_cases [OF p(1), of b n hs out] unfolding p(2) cb by blast
  let ?hs = "if handler_off b params then disable (Some n) hs else hs" and ?new = "if usable b params then [(impl_name n, body)] else []"
  have prem: "\<And>n params. (n, params) \<in> set cbs \<Longrightarrow> params \<noteq> [] \<and> bg_lookup b (callback_class params) = Some n"
    "distinct (map fst cbs)"
    using Cons.prems by auto
  obtain hs' out' where r: "generate_loop b cbs (?hs, out @ ?new) = Inr (hs', (out @ ?new) @ out')" "length hs' = length ?hs"
    "map fst out' = map (impl_name \<circ> fst) (filter (usable b \<circ> snd) cbs)"
    "\<forall>i < length ?hs. hs' ! i = (if \<exists>params. (i, params) \<in> set cbs \<and> handler_off b params then (?hs ! i)\<lparr>ch_disabled := True\<rparr> else ?hs ! i)"
    using Cons.IH [OF prem, of ?hs "out @ ?new"] by blast
  have n: "(n, q) \<notin> set cbs" for q using Cons.prems(2) by (force simp: cb)
  have f1: "generate_loop b (cb # cbs) (hs, out) = Inr (hs', out @ (?new @ out'))"
    using g r(1) by (auto split: if_splits)
  have f2: "map fst (?new @ out') = map (impl_name \<circ> fst) (filter (usable b \<circ> snd) (cb # cbs))"
    using r(3) by (simp add: cb)
  have len: "length ?hs = length hs" by (simp add: disable_def)
  have f3: "\<forall>i < length hs. hs' ! i =
      (if \<exists>params. (i, params) \<in> set (cb # cbs) \<and> handler_off b params then (hs ! i)\<lparr>ch_disabled := True\<rparr> else hs ! i)"
  proof (intro allI impI)
    fix i assume i: "i < length hs"
    then have at_i: "hs' ! i = (if \<exists>params. (i, params) \<in> set cbs \<and> handler_off b params then (?hs ! i)\<lparr>ch_disabled := True\<rparr> else ?hs ! i)"
      using r(4) by (simp add: len)
    show "hs' ! i = (if \<exists>params. (i, params) \<in> set (cb # cbs) \<and> handler_off b params then (hs ! i)\<lparr>ch_disabled := True\<rparr> else hs ! i)"
    proof (cases "i = n")
      case True
      have "(\<exists>q. (i, q) \<in> set (cb # cbs) \<and> handler_off b q) \<longleftrightarrow> handler_off b params" using n by (auto simp: True cb)
      moreover have "hs' ! i = ?hs ! i" using at_i n by (simp only: True if_False simp_thms ex_simps)
      moreover have "disable (Some n) hs ! n = (hs ! n)\<lparr>ch_disabled := True\<rparr>" using i by (simp add: True disable_def)
      ultimately show ?thesis by (simp only: True simp_thms if_True if_False split: if_splits)
    next
      case False
      then have a: "?hs ! i = hs ! i" by (simp add: disable_def)
      have b: "(\<exists>q. (i, q) \<in> set (cb # cbs) \<and> handler_off b q) \<longleftrightarrow> (\<exists>q. (i, q) \<in> set cbs \<and> handler_off b q)"
        using False by (auto simp: cb)
      show ?thesis unfolding at_i a b by (rule refl)
    qed
  qed
  show ?case
    by (intro exI conjI) (rule f1, simp only: r(2) len, rule f2, rule f3)
qed auto

text \<open>For callbacks with different types, of which pybindgen finds the handlers: exactly those get a class
  whose types are all known, and exactly those handlers refuse to be used whose class is
  missing because of a parameter.
\<close>

theorem callback_classes_generated:
  assumes "\<And>n. n < length callbacks \<Longrightarrow> callbacks ! n \<noteq> [] \<and> bg_lookup b (callback_class (callbacks ! n)) = Some n"
  shows "\<exists>hs out. generate_callback_classes b callbacks (register_callback_classes callbacks) = Inr (hs, out) \<and>
    map fst out = map impl_name (filter (\<lambda>n. usable b (callbacks ! n)) [0..<length callbacks]) \<and>
    map ch_impl hs = map impl_name [0..<length callbacks] \<and>
    map ch_disabled hs = map (handler_off b) callbacks"
proof -
  let ?cbs = "enumerate 0 callbacks" and ?hs = "register_callback_classes callbacks"
  have mem: "(n, q) \<in> set ?cbs \<longleftrightarrow> n < length callbacks \<and> q = callbacks ! n" for n q
    by (auto simp: in_set_enumerate_eq)
  obtain hs out where r: "generate_loop b ?cbs (?hs, []) = Inr (hs, out)" "length hs = length ?hs"
    "map fst out = map (impl_name \<circ> fst) (filter (usable b \<circ> snd) ?cbs)"
    "\<forall>i < length ?hs. hs ! i = (if \<exists>params. (i, params) \<in> set ?cbs \<and> handler_off b params then (?hs ! i)\<lparr>ch_disabled := True\<rparr> else ?hs ! i)"
    using generate_loop_result [of ?cbs b ?hs "[]"] assms by (auto simp: mem)
  have len: "length ?hs = length callbacks" by (simp add: register_callback_classes_def)
  have e: "?cbs = map (\<lambda>n. (n, callbacks ! n)) [0..<length callbacks]"
    by (rule nth_equalityI) (simp_all add: nth_enumerate_eq)
  have hs: "hs ! i = (?hs ! i)\<lparr>ch_disabled := handler_off b (callbacks ! i)\<rparr>" if "i < length callbacks" for i
    using r(4) that len by (auto simp: mem register_callback_classes_def nth_enumerate_eq)
  have "map ch_disabled hs = map (handler_off b) callbacks" "map ch_impl hs = map impl_name [0..<length callbacks]"
    by (rule nth_equalityI; simp add: r(2) len hs; simp add: register_callback_classes_def nth_enumerate_eq)+
  moreover have "map fst out = map impl_name (filter (\<lambda>n. usable b (callbacks ! n)) [0..<length callbacks])"
    unfolding r(3) e filter_map by (simp add: o_def)
  ultimately show ?thesis using r(1) by (auto simp: generate_callback_classes_def)
qed

definition three_callbacks :: "string list list" where
  "three_callbacks = [[''void'', ''int'', ''ns3::empty''], [''void'', ''Odd''], [''Odd'', ''int'']]"

definition three_types :: bindgen where
  "three_types = \<lparr>bg_return = (\<lambda>t. t = ''void''), bg_param = (\<lambda>t. t = ''int''),
     bg_lookup = (\<lambda>t. map_of (zip (map callback_class three_callbacks) [0, 1, 2]) t), bg_method = (\<lambda>_ _. [])\<rparr>"

theorem callback_classes_generated_witness:
  "\<exists>hs out. generate_callback_classes three_types three_callbacks (register_callback_classes three_callbacks) = Inr (hs, out) \<and>
    map fst out = [''PythonCallbackImpl0''] \<and> map ch_disabled hs = [False, True, False]"
proof -
  have "three_callbacks ! n \<noteq> [] \<and> bg_lookup three_types (callback_class (three_callbacks ! n)) = Some n"
    if "n < length three_callbacks" for n
  proof -
    have "n = 0 \<or> n = 1 \<or> n = 2" using that by (auto simp: three_callbacks_def)
    then show ?thesis by (elim disjE; simp only:; code_simp)
  qed
  from callback_classes_generated [OF this]
  obtain hs out where "generate_callback_classes three_types three_callbacks (register_callback_classes three_callbacks) = Inr (hs, out)"
    "map fst out = map impl_name (filter (\<lambda>n. usable three_types (three_callbacks ! n)) [0..<length three_callbacks])"
    "map ch_disabled hs = map (handler_off three_types) three_callbacks"
    by blast
  moreover have "map impl_name (filter (\<lambda>n. usable three_types (three_callbacks ! n)) [0..<length three_callbacks]) = [''PythonCallbackImpl0'']"
    "map (handler_off three_types) three_callbacks = [False, True, False]"
    by code_simp+
  ultimately show ?thesis by simp
qed

text \<open>The third handler above: enabled, but without a class that its code could create.\<close>

lemma handler_without_class:
  assumes "\<not> bg_return b (hd params)"
  shows "\<not> usable b params \<and> \<not> handler_off b params"
  using assms by (simp add: usable_def handler_off_def)

lemma instance_creation_message:
  "cc_cannot_be_constructed c \<Longrightarrow> lvalue \<noteq> [] \<Longrightarrow> \<not> startswith lvalue ''None'' \<Longrightarrow>
   instance_creation_function c lvalue parameters type = Inl TypeError"
  by (simp add: instance_creation_function_def)

lemma Attribute_customizations_twice: "Attribute_customizations (Attribute_customizations cs) = Attribute_customizations cs"
  by (simp add: Attribute_customizations_def attribute_default_def)

end
