(* ===== verification/Binding_Generate.thy ===== *)
theory Binding_Generate
  imports Binding_Types
begin

text \<open>
  \<^verbatim>\<open>bindings/python/ns3modulegen-modular.py\<close>, the script that generates the code of a module: where it
  reports the errors of a wrapper, and the order of its steps.  The definitions of the module are
  generated code and the steps are calls of it, of pybindgen and of the customizations.
\<close>

section \<open>Errors\<close>

text \<open>The lines where a wrapper was defined, outermost first, when it has them.\<close>

type_synonym frames = "(string \<times> int) list"

datatype warning = Warn_At string int | Warn_Here

text \<open>\<open>handle_error\<close>: the list is the one of the wrapper and stays reversed.\<close>

fun first_frame :: "string \<Rightarrow> frames \<Rightarrow> warning" where
  "first_frame apidefs [] = Warn_Here"
| "first_frame apidefs ((f, n) # fs) = (if f = apidefs then Warn_At f n else first_frame apidefs fs)"

definition handle_error :: "string \<Rightarrow> frames option \<Rightarrow> warning \<times> frames option" where
  "handle_error apidefs stack =
     (case stack of
        None \<Rightarrow> (Warn_Here, None)
      | Some fs \<Rightarrow> (let fs = rev fs in (first_frame apidefs fs, Some fs)))"

text \<open>The warnings of several errors of one wrapper.\<close>

fun warnings_of :: "string \<Rightarrow> nat \<Rightarrow> frames option \<Rightarrow> warning list" where
  "warnings_of apidefs 0 stack = []"
| "warnings_of apidefs (Suc n) stack = (case handle_error apidefs stack of (w, s) \<Rightarrow> w # warnings_of apidefs n s)"

lemma first_frame_filter: "first_frame a fs = (case filter (\<lambda>l. fst l = a) fs of [] \<Rightarrow> Warn_Here | (f, n) # _ \<Rightarrow> Warn_At f n)"
  by (induction fs) auto

text \<open>Where the errors of a wrapper are reported.  The first, third and every other one is reported at the
  innermost line of the definitions, those between at the outermost one.
\<close>

theorem errors_alternate:
  assumes "apidefs \<notin> fst ` set pre \<union> fst ` set post"
  shows "warnings_of apidefs n (Some (pre @ (apidefs, outer) # mid @ (apidefs, inner) # post)) =
    map (\<lambda>k. Warn_At apidefs (if even k then inner else outer)) [0..<n]"
proof -
  let ?st = "pre @ (apidefs, outer) # mid @ (apidefs, inner) # post"
  have none: "filter (\<lambda>l. fst l = apidefs) pre = []" "filter (\<lambda>l. fst l = apidefs) (rev post) = []"
    using assms by (auto simp: filter_empty_conv)
  have "warnings_of apidefs n (Some (if b then ?st else rev ?st)) = map (\<lambda>k. Warn_At apidefs (if even k = b then inner else outer)) [0..<n]" for b
  proof (induction n arbitrary: b)
    case (Suc n)
    have "handle_error apidefs (Some (if b then ?st else rev ?st)) =
        (Warn_At apidefs (if b then inner else outer), Some (if \<not> b then ?st else rev ?st))"
      using none by (cases b) (simp_all add: handle_error_def first_frame_filter)
    then show ?case using Suc.IH [of "\<not> b"] by (cases b) (simp_all add: upt_conv_Cons map_Suc_upt [symmetric] comp_def del: upt_Suc)
  qed simp
  from this [of True] show ?thesis by simp
qed

theorem errors_alternate_witness:
  "warnings_of ''m.py'' 3 (Some [(''gen.py'', 131), (''m.py'', 20), (''m.py'', 700), (''cppclass.py'', 9)]) =
    [Warn_At ''m.py'' 700, Warn_At ''m.py'' 20, Warn_At ''m.py'' 700]"
  using errors_alternate [of "''m.py''" "[(''gen.py'', 131)]" "[(''cppclass.py'', 9)]" 3 20 "[]" 700]
  by (simp add: upt_conv_Cons)

section \<open>The steps\<close>

datatype gen_step =
    Module_Init
  | Set_Name string
  | Add_Include string
  | Add_Std_Ios_Openmode
  | Register_Types
  | Post_Hook string
  | Register_Callbacks "string list list"
  | Register_Methods
  | Object_Customizations
  | Attribute_Customizations_Step
  | Generate_Callbacks "string list list"
  | Register_Functions
  | Generate string

text \<open>
  What the imports find in the directory of the module: its definitions, the names its customizations
  have, if there are any, and the list of callbacks.
\<close>

record module_dir =
  md_apidefs :: "string \<Rightarrow> bool"
  md_hooks :: "string list option"
  md_callbacks :: "string list list option"

definition post_hook :: "module_dir \<Rightarrow> string \<Rightarrow> gen_step list" where
  "post_hook dir h = (case md_hooks dir of None \<Rightarrow> [] | Some hs \<Rightarrow> if h \<in> set hs then [Post_Hook h] else [])"

text \<open>The result has the steps done, the search path at the end, and whether the import of the definitions failed.\<close>

definition generate_module :: "(string \<Rightarrow> module_dir) \<Rightarrow> string list \<Rightarrow> string list \<Rightarrow> gen_step list \<times> string list \<times> exn option" where
  "generate_module dirs path argv =
     (case tl argv of
        [src, target, extension, output] \<Rightarrow>
          (let bindings = path_join src ''bindings''; path = bindings # path; dir = dirs bindings;
               callbacks = (case md_callbacks dir of None \<Rightarrow> [] | Some cs \<Rightarrow> cs)
           in if \<not> md_apidefs dir (''modulegen__'' @ target) then ([], tl path, Some (UserException ''ImportError''))
              else
                ([Module_Init, Set_Name extension, Add_Include (DQ @ ''ns3/'' @ basename src @ ''-module.h'' @ DQ), Add_Std_Ios_Openmode, Register_Types] @
                 post_hook dir ''post_register_types'' @ [Register_Callbacks callbacks, Register_Methods] @
                 post_hook dir ''post_register_methods'' @
                 [Object_Customizations, Attribute_Customizations_Step, Generate_Callbacks callbacks, Register_Functions] @
                 post_hook dir ''post_register_functions'' @ [Generate output], tl path, None))
      | _ \<Rightarrow> ([], path, Some ValueError))"

text \<open>The search path is as before, whatever is missing in the directory of the module.\<close>

lemma search_path_restored: "generate_module dirs path argv = (steps, path', e) \<Longrightarrow> path' = path"
  by (auto simp: generate_module_def Let_def split: list.splits if_splits)

end
