(* ===== verification/Flow_Monitor.thy ===== *)
theory Flow_Monitor
  imports Py_Prelude
begin

text \<open>
  \<^verbatim>\<open>src/flow-monitor/examples/flowmon-parse-results.py\<close>, which reads the file of a flow monitor and
  prints the statistics of its flows.  It is a program of Python 2.  The parser of XML is a library:
  the model starts from the tree.  Floats are exact rationals; the words for infinities and for
  what is not a number are no floats here.
\<close>

section \<open>The tree and the numbers in it\<close>

datatype xml_el = El (el_tag: string) (el_attrs: "(string \<times> string) list") (el_children: "xml_el list")

abbreviation el_get :: "xml_el \<Rightarrow> string \<Rightarrow> string option" where
  "el_get el k \<equiv> map_of (el_attrs el) k"

fun find_children :: "string list \<Rightarrow> xml_el \<Rightarrow> xml_el list" where
  "find_children [] el = [el]"
| "find_children (t # ts) el = concat (map (find_children ts) (filter (\<lambda>c. el_tag c = t) (el_children el)))"

text \<open>A sign, if there is one, and the rest.\<close>

fun sign_of :: "string \<Rightarrow> int \<times> string" where
  "sign_of (c # s) = (if c = CHR ''-'' then (- 1, s) else if c = CHR ''+'' then (1, s) else (1, c # s))"
| "sign_of [] = (1, [])"

text \<open>\<open>int\<close> and \<open>long\<close> of Python 2 on a string; the letter of a long literal is accepted by \<open>long\<close>.\<close>

definition digits_int :: "string \<Rightarrow> int res" where
  "digits_int s =
     (case sign_of s of (sg, ds) \<Rightarrow>
        if ds \<noteq> [] \<and> list_all is_digit ds then Inr (sg * int (nat_of_digits ds)) else Inl ValueError)"

fun int_of :: "string option \<Rightarrow> int res" where
  "int_of None = Inl TypeError"
| "int_of (Some s) = digits_int (strip s)"

fun long_of :: "string option \<Rightarrow> int res" where
  "long_of None = Inl TypeError"
| "long_of (Some s) =
     (let s = strip s in
      digits_int (if s \<noteq> [] \<and> (last s = CHR ''L'' \<or> last s = CHR ''l'') then butlast s else s))"

text \<open>\<open>float\<close> on a string: digits, a point, digits, an exponent.\<close>

definition exponent_of :: "string \<Rightarrow> int option" where
  "exponent_of s =
     (if s = [] then Some 0
      else if hd s = CHR ''e'' \<or> hd s = CHR ''E'' then (case digits_int (tl s) of Inl _ \<Rightarrow> None | Inr k \<Rightarrow> Some k)
      else None)"

definition ten_to :: "int \<Rightarrow> rat" where
  "ten_to k = (if 0 \<le> k then 10 ^ nat k else 1 / 10 ^ nat (- k))"

fun float_of :: "string option \<Rightarrow> rat res" where
  "float_of None = Inl TypeError"
| "float_of (Some s) =
     (case sign_of (strip s) of (sg, u) \<Rightarrow>
      let whole = takeWhile is_digit u; v = dropWhile is_digit u;
          point = v \<noteq> [] \<and> hd v = CHR ''.'';
          frac = (if point then takeWhile is_digit (tl v) else []);
          w = (if point then dropWhile is_digit (tl v) else v)
      in if whole = [] \<and> frac = [] then Inl ValueError
         else (case exponent_of w of
           None \<Rightarrow> Inl ValueError
         | Some k \<Rightarrow> Inr (of_int sg * of_nat (nat_of_digits (whole @ frac)) * ten_to (k - int (length frac)))))"

text \<open>\<open>s[:-4]\<close>; there is none of a missing attribute.\<close>

definition drop_last4 :: "string \<Rightarrow> string" where
  "drop_last4 s = take (length s - 4) s"

fun cut4 :: "string option \<Rightarrow> string res" where
  "cut4 None = Inl TypeError"
| "cut4 (Some s) = Inr (drop_last4 s)"

definition parse_time_ns :: "string option \<Rightarrow> int res" where
  "parse_time_ns tm =
     (case tm of
        None \<Rightarrow> Inl AttributeError
      | Some s \<Rightarrow> if endswith s ''ns'' then long_of (Some (drop_last4 s)) else Inl ValueError)"

section \<open>Flows\<close>

record five_tuple =
  ft_source :: "string option"
  ft_destination :: "string option"
  ft_source_port :: int
  ft_destination_port :: int
  ft_protocol :: int

definition FiveTuple :: "xml_el \<Rightarrow> five_tuple res" where
  "FiveTuple el =
     res_bind (int_of (el_get el ''sourcePort'')) (\<lambda>sp.
     res_bind (int_of (el_get el ''destinationPort'')) (\<lambda>dp.
     res_bind (int_of (el_get el ''protocol'')) (\<lambda>p.
       Inr \<lparr>ft_source = el_get el ''sourceAddress'', ft_destination = el_get el ''destinationAddress'',
            ft_source_port = sp, ft_destination_port = dp, ft_protocol = p\<rparr>)))"

type_synonym histogram = "(rat \<times> rat \<times> int) list"

fun Histogram_bins :: "xml_el list \<Rightarrow> histogram res" where
  "Histogram_bins [] = Inr []"
| "Histogram_bins (b # bs) =
     res_bind (float_of (el_get b ''start'')) (\<lambda>x.
     res_bind (float_of (el_get b ''width'')) (\<lambda>w.
     res_bind (int_of (el_get b ''count'')) (\<lambda>n.
     res_bind (Histogram_bins bs) (\<lambda>h. Inr ((x, w, n) # h)))))"

definition Histogram :: "xml_el \<Rightarrow> histogram res" where
  "Histogram el = Histogram_bins (find_children [''bin''] el)"

record probe_stats =
  ps_probe :: int
  ps_packets :: int
  ps_bytes :: int
  ps_delay :: rat

text \<open>A slot that is not set yet is \<open>None\<close>, as is the value \<open>None\<close> of the statistics.\<close>

record flow_stats =
  fl_id :: int
  fl_rx_duration :: rat
  fl_hops :: rat
  fl_delay_mean :: "rat option"
  fl_size_mean :: "rat option"
  fl_rx_bitrate :: "rat option"
  fl_tx_bitrate :: "rat option"
  fl_loss_ratio :: "rat option"
  fl_interruptions :: "histogram option"
  fl_tuple :: "five_tuple option"
  fl_probes :: "probe_stats list"

definition quotient :: "rat \<Rightarrow> rat \<Rightarrow> rat res" where
  "quotient a b = (if b = 0 then Inl ZeroDivisionError else Inr (a / b))"

text \<open>The difference of two times of the element, in seconds.\<close>

definition seconds_between :: "xml_el \<Rightarrow> string \<Rightarrow> string \<Rightarrow> rat res" where
  "seconds_between el fin start =
     res_bind (cut4 (el_get el fin)) (\<lambda>a. res_bind (long_of (Some a)) (\<lambda>a.
     res_bind (cut4 (el_get el start)) (\<lambda>b. res_bind (long_of (Some b)) (\<lambda>b.
       Inr (of_int (a - b) / 10 ^ 9)))))"

definition hop_count :: "xml_el \<Rightarrow> int \<Rightarrow> rat res" where
  "hop_count el rx = (if rx \<noteq> 0 then res_bind (float_of (el_get el ''timesForwarded'')) (\<lambda>t. Inr (t / of_int rx + 1)) else Inr (- 1000))"

definition means :: "xml_el \<Rightarrow> int \<Rightarrow> (rat option \<times> rat option) res" where
  "means el rx =
     (if rx \<noteq> 0 then
        res_bind (cut4 (el_get el ''delaySum'')) (\<lambda>d. res_bind (float_of (Some d)) (\<lambda>d.
        res_bind (float_of (el_get el ''rxBytes'')) (\<lambda>b.
          Inr (Some (d / of_int rx / 10 ^ 9), Some (b / of_int rx)))))
      else Inr (None, None))"

definition bitrate :: "xml_el \<Rightarrow> string \<Rightarrow> rat \<Rightarrow> rat option res" where
  "bitrate el k duration =
     (if duration > 0 then res_bind (long_of (el_get el k)) (\<lambda>b. Inr (Some (of_int (b * 8) / duration))) else Inr None)"

definition Flow :: "xml_el \<Rightarrow> flow_stats res" where
  "Flow el =
     res_bind (int_of (el_get el ''flowId'')) (\<lambda>i.
     res_bind (long_of (el_get el ''rxPackets'')) (\<lambda>rx.
     res_bind (long_of (el_get el ''txPackets'')) (\<lambda>tx.
     res_bind (seconds_between el ''timeLastTxPacket'' ''timeFirstTxPacket'') (\<lambda>txd.
     res_bind (seconds_between el ''timeLastRxPacket'' ''timeFirstRxPacket'') (\<lambda>rxd.
     res_bind (hop_count el rx) (\<lambda>hops.
     res_bind (means el rx) (\<lambda>(delay, size).
     res_bind (bitrate el ''rxBytes'' rxd) (\<lambda>rxb.
     res_bind (bitrate el ''txBytes'' txd) (\<lambda>txb.
     res_bind (float_of (el_get el ''lostPackets'')) (\<lambda>lost.
     res_bind (if rx = 0 then Inr None else res_bind (quotient lost (of_int rx + lost)) (\<lambda>q. Inr (Some q))) (\<lambda>loss.
     res_bind (case find_children [''flowInterruptionsHistogram''] el of [] \<Rightarrow> Inr None | h # _ \<Rightarrow> res_bind (Histogram h) (\<lambda>h. Inr (Some h))) (\<lambda>hist.
       Inr \<lparr>fl_id = i, fl_rx_duration = rxd, fl_hops = hops, fl_delay_mean = delay, fl_size_mean = size, fl_rx_bitrate = rxb,
            fl_tx_bitrate = txb, fl_loss_ratio = loss, fl_interruptions = hist, fl_tuple = None, fl_probes = []\<rparr>))))))))))))"

section \<open>Simulations\<close>

text \<open>The flows are shared by the list and the map: the map has places of the list.\<close>

fun read_flows :: "xml_el list \<Rightarrow> (int \<times> nat) list \<Rightarrow> flow_stats list \<Rightarrow> ((int \<times> nat) list \<times> flow_stats list) res" where
  "read_flows [] m fs = Inr (m, fs)"
| "read_flows (el # els) m fs =
     res_bind (Flow el) (\<lambda>f. read_flows els (dict_set (fl_id f) (length fs) m) (fs @ [f]))"

fun read_tuples :: "xml_el list \<Rightarrow> (int \<times> nat) list \<Rightarrow> flow_stats list \<Rightarrow> flow_stats list res" where
  "read_tuples [] m fs = Inr fs"
| "read_tuples (el # els) m fs =
     res_bind (int_of (el_get el ''flowId'')) (\<lambda>i.
     res_bind (FiveTuple el) (\<lambda>t.
       case map_of m i of None \<Rightarrow> Inl KeyError | Some k \<Rightarrow> read_tuples els m (fs[k := (fs ! k)\<lparr>fl_tuple := Some t\<rparr>])))"

fun read_stats :: "int \<Rightarrow> xml_el list \<Rightarrow> (int \<times> nat) list \<Rightarrow> flow_stats list \<Rightarrow> flow_stats list res" where
  "read_stats probe [] m fs = Inr fs"
| "read_stats probe (el # els) m fs =
     res_bind (int_of (el_get el ''flowId'')) (\<lambda>i.
     res_bind (int_of (el_get el ''packets'')) (\<lambda>n.
     res_bind (long_of (el_get el ''bytes'')) (\<lambda>b.
     res_bind (if n > 0 then res_bind (parse_time_ns (el_get el ''delayFromFirstProbeSum'')) (\<lambda>d. Inr (of_int d / of_int n)) else Inr 0) (\<lambda>d.
       case map_of m i of
         None \<Rightarrow> Inl KeyError
       | Some k \<Rightarrow> read_stats probe els m (fs[k := (fs ! k)\<lparr>fl_probes := fl_probes (fs ! k) @
           [\<lparr>ps_probe = probe, ps_packets = n, ps_bytes = b, ps_delay = d\<rparr>]\<rparr>])))))"

fun read_probes :: "xml_el list \<Rightarrow> (int \<times> nat) list \<Rightarrow> flow_stats list \<Rightarrow> flow_stats list res" where
  "read_probes [] m fs = Inr fs"
| "read_probes (el # els) m fs =
     res_bind (int_of (el_get el ''index'')) (\<lambda>p.
     res_bind (read_stats p (find_children [''FlowStats''] el) m fs) (\<lambda>fs. read_probes els m fs))"

definition Simulation :: "xml_el \<Rightarrow> flow_stats list res" where
  "Simulation el =
     (case find_children [''Ipv4FlowClassifier''] el of
        [c] \<Rightarrow>
          res_bind (read_flows (find_children [''FlowStats'', ''Flow''] el) [] []) (\<lambda>(m, fs).
          res_bind (read_tuples (find_children [''Flow''] c) m fs) (\<lambda>fs.
            read_probes (find_children [''FlowProbes'', ''FlowProbe''] el) m fs))
      | _ \<Rightarrow> Inl ValueError)"

section \<open>The report\<close>

definition fmt_f2 :: "rat \<Rightarrow> string" where
  "fmt_f2 x =
     (let a = nat (round_half_even (abs x * 100)) in
      (if x < 0 then ''-'' else []) @ str_nat (a div 100) @ ''.'' @ [char_of (48 + a div 10 mod 10), char_of (48 + a mod 10)])"

fun str_opt :: "string option \<Rightarrow> string" where
  "str_opt None = ''None''"
| "str_opt (Some s) = s"

definition rate_line :: "string \<Rightarrow> rat \<Rightarrow> string \<Rightarrow> rat option \<Rightarrow> string" where
  "rate_line title factor unit v =
     TAB # title @ '': '' @ (case v of None \<Rightarrow> ''None'' | Some x \<Rightarrow> fmt_f2 (x * factor) @ unit) @ nl"

fun report_flows :: "flow_stats list \<Rightarrow> string \<times> exn option" where
  "report_flows [] = ([], None)"
| "report_flows (f # fs) =
     (case fl_tuple f of
        None \<Rightarrow> ([], Some AttributeError)
      | Some t \<Rightarrow>
          (case map_of [(6, ''TCP''), (17, ''UDP'')] (ft_protocol t) of
             None \<Rightarrow> ([], Some KeyError)
           | Some proto \<Rightarrow>
               (case report_flows fs of (w, e) \<Rightarrow>
                 (''FlowID: '' @ str_int (fl_id f) @ '' ('' @ proto @ '' '' @ str_opt (ft_source t) @ ''/'' @ str_int (ft_source_port t) @
                    '' --> '' @ str_opt (ft_destination t) @ ''/'' @ str_int (ft_destination_port t) @ '')'' @ nl @
                  rate_line ''TX bitrate'' (1 / 1000) '' kbit/s'' (fl_tx_bitrate f) @
                  rate_line ''RX bitrate'' (1 / 1000) '' kbit/s'' (fl_rx_bitrate f) @
                  rate_line ''Mean Delay'' 1000 '' ms'' (fl_delay_mean f) @
                  rate_line ''Packet Loss Ratio'' 100 '' %'' (fl_loss_ratio f) @ w, e))))"

text \<open>The events of \<open>iterparse\<close>: an element starts, its children follow, it ends.\<close>

fun events :: "xml_el \<Rightarrow> (bool \<times> xml_el) list" where
  "events (El t as cs) = (True, El t as cs) # concat (map events cs) @ [(False, El t as cs)]"

fun main_loop :: "(bool \<times> xml_el) list \<Rightarrow> int \<Rightarrow> flow_stats list list \<Rightarrow> string \<Rightarrow> string \<times> (exn + flow_stats list list)" where
  "main_loop [] level sims w = (w, Inr sims)"
| "main_loop ((True, el) # evs) level sims w = main_loop evs (level + 1) sims w"
| "main_loop ((False, el) # evs) level sims w =
     (if level - 1 = 0 \<and> el_tag el = ''FlowMonitor'' then
        (case Simulation el of
           Inl e \<Rightarrow> (w, Inl e)
         | Inr fs \<Rightarrow> main_loop evs (level - 1) (sims @ [fs]) (w @ ''.''))
      else main_loop evs (level - 1) sims w)"

text \<open>\<open>print\<close> with a comma leaves a space due, which the next write of a dot takes back.\<close>

definition main :: "xml_el \<Rightarrow> string \<times> exn option" where
  "main doc =
     (case main_loop (events doc) 0 [] ''Reading XML file '' of
        (w, Inl e) \<Rightarrow> (w, Some e)
      | (w, Inr sims) \<Rightarrow>
          (case report_flows (concat sims) of (r, e) \<Rightarrow>
            (w @ (if sims = [] then '' '' else []) @ '' done.'' @ nl @ r, e)))"

section \<open>Times\<close>

lemma is_space_digit: "is_digit c \<Longrightarrow> \<not> is_space c"
  by (auto simp: is_digit_def is_space_def Let_def)

lemma plus_no_space: "\<not> is_space CHR ''+''" "\<not> is_digit CHR ''L''" "\<not> is_digit CHR ''l''"
  by code_simp+

lemma strip_number:
  assumes "list_all is_digit ds"
  shows "strip (CHR ''+'' # ds) = CHR ''+'' # ds"
proof (cases ds rule: rev_cases)
  case Nil
  then show ?thesis by (simp add: strip_def lstrip_def rstrip_def plus_no_space)
next
  case (snoc xs x)
  then show ?thesis using assms by (simp add: strip_def lstrip_def rstrip_def plus_no_space is_space_digit)
qed

lemma long_of_number:
  assumes "list_all is_digit ds"
  shows "long_of (Some (CHR ''+'' # ds)) = (if ds = [] then Inl ValueError else Inr (int (nat_of_digits ds)))"
proof (cases ds rule: rev_cases)
  case Nil
  then show ?thesis by (simp add: strip_number digits_int_def)
next
  case (snoc xs x)
  then have "x \<noteq> CHR ''L''" "x \<noteq> CHR ''l''" using assms plus_no_space by auto
  then show ?thesis using assms snoc by (simp add: strip_number digits_int_def)
qed

lemma str_nat_butlast2:
  "take (length (str_nat n) - 2) (str_nat n) = (if n < 100 then [] else str_nat (n div 100))"
proof -
  consider "n < 10" | "10 \<le> n" "n < 100" | "100 \<le> n" by linarith
  then show ?thesis
  proof cases
    case 2
    then show ?thesis by (simp add: str_nat.simps [of n] str_nat.simps [of "n div 10"])
  next
    case 3
    then have "str_nat n = str_nat (n div 100) @ [char_of (48 + n div 10 mod 10), char_of (48 + n mod 10)]"
      by (simp add: str_nat.simps [of n] str_nat.simps [of "n div 10"] div_mult2_eq [symmetric])
    then show ?thesis using 3 by simp
  qed (simp add: str_nat.simps [of n])
qed

text \<open>The times of the file.  Of a time with one decimal, as the manual shows it, the reader gets the
  nanoseconds.  The simulator prints a double, a whole number of up to six digits without decimals: of
  those the reader loses the last two digits, and fails below a hundred.
\<close>

theorem times_lose_two_digits:
  "parse_time_ns (Some (''+'' @ str_nat n @ ''.0ns'')) = Inr (int n) \<and>
   parse_time_ns (Some (''+'' @ str_nat n @ ''ns'')) = (if n < 100 then Inl ValueError else Inr (int (n div 100)))"
proof -
  have "drop_last4 (''+'' @ str_nat n @ ''.0ns'') = CHR ''+'' # str_nat n" by (simp add: drop_last4_def)
  moreover have "drop_last4 (''+'' @ str_nat n @ ''ns'') = CHR ''+'' # (if n < 100 then [] else str_nat (n div 100))"
    if "length (str_nat n) \<noteq> 1"
    using that str_nat_butlast2 [of n] by (cases "length (str_nat n)") (auto simp: drop_last4_def take_Cons' Suc_diff_le)
  moreover have "drop_last4 (''+'' @ str_nat n @ ''ns'') = [] \<and> n < 100" if "length (str_nat n) = 1"
    using that str_nat_butlast2 [of n] by (cases "n < 100") (auto simp: drop_last4_def str_nat_nonempty [THEN not_sym])
  moreover have "long_of (Some []) = Inl ValueError" by code_simp
  ultimately show ?thesis
    by (cases "length (str_nat n) = 1") (auto simp: parse_time_ns_def endswith_def startswith_def long_of_number str_nat_digits simp del: long_of.simps)
qed

section \<open>Five tuples\<close>

text \<open>The tuples of the classifier by the numbers of their flows.\<close>

fun tuples :: "xml_el list \<Rightarrow> (int \<times> five_tuple) list res" where
  "tuples [] = Inr []"
| "tuples (el # els) =
     res_bind (int_of (el_get el ''flowId'')) (\<lambda>i. res_bind (FiveTuple el) (\<lambda>t. res_bind (tuples els) (\<lambda>ts. Inr ((i, t) # ts))))"

text \<open>The map has the last place of each number in the list.\<close>

definition places :: "flow_stats list \<Rightarrow> int \<Rightarrow> nat option" where
  "places fs i = map_of (rev (zip (map fl_id fs) [0..<length fs])) i"

lemma places_snoc: "places (fs @ [f]) = (places fs)(fl_id f \<mapsto> length fs)"
  by (rule ext) (simp add: places_def)

lemma places_cong: "map fl_id fs = map fl_id gs \<Longrightarrow> places fs = places gs"
  using map_eq_imp_length_eq [of fl_id fs fl_id gs] by (simp add: places_def fun_eq_iff)

lemma places_lt: "places fs i = Some k \<Longrightarrow> k < length fs \<and> fl_id (fs ! k) = i"
  by (auto simp: places_def dest!: map_of_SomeD simp: set_zip)

lemma Flow_fresh: "Flow el = Inr f \<Longrightarrow> fl_tuple f = None \<and> fl_probes f = []"
  by (auto simp: Flow_def res_bind_eq_Inr split: prod.splits)

lemma read_flows_places:
  assumes "read_flows els m fs = Inr (m', fs')" "map_of m = places fs" "\<forall>f \<in> set fs. fl_tuple f = None"
  shows "map_of m' = places fs' \<and> (\<forall>f \<in> set fs'. fl_tuple f = None)"
  using assms
proof (induction els m fs rule: read_flows.induct)
  case (2 el els m fs)
  then obtain f where f: "Flow el = Inr f" "read_flows els (dict_set (fl_id f) (length fs) m) (fs @ [f]) = Inr (m', fs')"
    by (auto simp: res_bind_eq_Inr)
  show ?case by (rule 2(1) [OF f]) (use 2(3,4) Flow_fresh [OF f(1)] in \<open>auto simp: places_snoc\<close>)
qed auto

lemma read_tuples_spec:
  assumes "read_tuples els m fs = Inr fs'" "map_of m = places fs"
  shows "\<exists>ts. tuples els = Inr ts \<and> map fl_id fs' = map fl_id fs \<and>
    (\<forall>k < length fs. fl_tuple (fs' ! k) =
      (if places fs (fl_id (fs ! k)) = Some k \<and> dict_has (rev ts) (fl_id (fs ! k)) then map_of (rev ts) (fl_id (fs ! k)) else fl_tuple (fs ! k)))"
  using assms
proof (induction els arbitrary: fs)
  case (Cons el els)
  from Cons.prems(1) obtain i t k where step: "int_of (el_get el ''flowId'') = Inr i" "FiveTuple el = Inr t" "map_of m i = Some k"
      "read_tuples els m (fs[k := (fs ! k)\<lparr>fl_tuple := Some t\<rparr>]) = Inr fs'"
    by (auto simp: res_bind_eq_Inr split: option.splits)
  let ?fs = "fs[k := (fs ! k)\<lparr>fl_tuple := Some t\<rparr>]"
  have k: "k < length fs" "fl_id (fs ! k) = i" "places fs i = Some k" using places_lt step(3) Cons.prems(2) by simp_all
  have ids: "map fl_id ?fs = map fl_id fs" using k by (auto simp: map_update intro: nth_equalityI simp: nth_list_update)
  note pl = places_cong [OF ids]
  have id: "fl_id (?fs ! j) = fl_id (fs ! j)" if "j < length fs" for j using that k(1) by (simp add: nth_list_update)
  obtain ts where ts: "tuples els = Inr ts" "map fl_id fs' = map fl_id ?fs"
      "\<forall>j < length ?fs. fl_tuple (fs' ! j) =
        (if places ?fs (fl_id (?fs ! j)) = Some j \<and> dict_has (rev ts) (fl_id (?fs ! j)) then map_of (rev ts) (fl_id (?fs ! j)) else fl_tuple (?fs ! j))"
    using Cons.IH [OF step(4)] Cons.prems(2) pl by metis
  have "fl_tuple (fs' ! j) = (if places fs (fl_id (fs ! j)) = Some j \<and> dict_has (rev ((i, t) # ts)) (fl_id (fs ! j))
      then map_of (rev ((i, t) # ts)) (fl_id (fs ! j)) else fl_tuple (fs ! j))" if "j < length fs" for j
    using ts(3) that id [OF that] k pl by (cases "j = k") (auto simp: map_add_def split: option.splits)
  then show ?case using ts(1,2) ids step(1,2) by (intro exI [of _ "(i, t) # ts"]) simp
qed auto

lemma read_stats_keeps:
  assumes "read_stats p els m fs = Inr fs'"
  shows "map fl_id fs' = map fl_id fs \<and> map fl_tuple fs' = map fl_tuple fs"
  using assms
proof (induction els arbitrary: fs)
  case (Cons el els)
  have upd: "map fl_id (fs[k := (fs ! k)\<lparr>fl_probes := ps\<rparr>]) = map fl_id fs \<and> map fl_tuple (fs[k := (fs ! k)\<lparr>fl_probes := ps\<rparr>]) = map fl_tuple fs" for k ps
    by (cases "k < length fs") (auto simp: map_update intro!: nth_equalityI simp: nth_list_update)
  from Cons.prems obtain k ps where "read_stats p els m (fs[k := (fs ! k)\<lparr>fl_probes := ps\<rparr>]) = Inr fs'"
    by (auto simp: res_bind_eq_Inr split: option.splits)
  from Cons.IH [OF this] upd [of k ps] show ?case by simp
qed auto

lemma read_probes_keeps:
  assumes "read_probes els m fs = Inr fs'"
  shows "map fl_id fs' = map fl_id fs \<and> map fl_tuple fs' = map fl_tuple fs"
  using assms
proof (induction els arbitrary: fs)
  case (Cons el els)
  from Cons.prems obtain p gs where "read_stats p (find_children [''FlowStats''] el) m fs = Inr gs" "read_probes els m gs = Inr fs'"
    by (auto simp: res_bind_eq_Inr simp del: find_children.simps)
  with read_stats_keeps Cons.IH show ?case by metis
qed auto

text \<open>C35: the five tuple of a flow is the one the last entry of the classifier for its number has, when the
  flow is the last of its number; every other flow, and a flow without an entry, has none.
\<close>

theorem five_tuples_of_flows:
  assumes "Simulation el = Inr fs"
  shows "\<exists>c ts. find_children [''Ipv4FlowClassifier''] el = [c] \<and> tuples (find_children [''Flow''] c) = Inr ts \<and>
    list_all (\<lambda>k. fl_tuple (fs ! k) = (if places fs (fl_id (fs ! k)) = Some k then map_of (rev ts) (fl_id (fs ! k)) else None)) [0..<length fs]"
proof -
  from assms obtain c where c: "find_children [''Ipv4FlowClassifier''] el = [c]"
    by (auto simp: Simulation_def simp del: find_children.simps split: list.splits)
  with assms obtain m fs0 fs1 where parts: "read_flows (find_children [''FlowStats'', ''Flow''] el) [] [] = Inr (m, fs0)"
      "read_tuples (find_children [''Flow''] c) m fs0 = Inr fs1" "read_probes (find_children [''FlowProbes'', ''FlowProbe''] el) m fs1 = Inr fs"
    by (auto simp: Simulation_def res_bind_eq_Inr simp del: find_children.simps)
  have m: "map_of m = places fs0" and fresh: "\<forall>f \<in> set fs0. fl_tuple f = None"
    using read_flows_places [OF parts(1)] by (auto simp: places_def fun_eq_iff)
  obtain ts where ts: "tuples (find_children [''Flow''] c) = Inr ts" "map fl_id fs1 = map fl_id fs0"
      "\<forall>k < length fs0. fl_tuple (fs1 ! k) =
      (if places fs0 (fl_id (fs0 ! k)) = Some k \<and> dict_has (rev ts) (fl_id (fs0 ! k)) then map_of (rev ts) (fl_id (fs0 ! k)) else fl_tuple (fs0 ! k))"
    using read_tuples_spec [OF parts(2) m] by blast
  have ids: "map fl_id fs = map fl_id fs0" and tup: "map fl_tuple fs = map fl_tuple fs1"
    using read_probes_keeps [OF parts(3)] ts(2) by simp_all
  have len: "length fs = length fs0" "length fs1 = length fs0" using map_eq_imp_length_eq [OF ids] map_eq_imp_length_eq [OF ts(2)] by simp_all
  have "fl_tuple (fs ! k) = (if places fs (fl_id (fs ! k)) = Some k then map_of (rev ts) (fl_id (fs ! k)) else None)" if k: "k < length fs" for k
  proof -
    have "fl_tuple (fs ! k) = fl_tuple (fs1 ! k)" "fl_id (fs ! k) = fl_id (fs0 ! k)"
      using k len nth_map [of k fs fl_tuple] nth_map [of k fs1 fl_tuple] nth_map [of k fs fl_id] nth_map [of k fs0 fl_id] tup ids by simp_all
    moreover have "fl_tuple (fs0 ! k) = None" using fresh k len by simp
    ultimately show ?thesis using ts(3) k len places_cong [OF ids] by simp
  qed
  then have "list_all (\<lambda>k. fl_tuple (fs ! k) = (if places fs (fl_id (fs ! k)) = Some k then map_of (rev ts) (fl_id (fs ! k)) else None)) [0..<length fs]"
    by (simp add: list_all_iff)
  with c ts(1) show ?thesis by blast
qed

definition sample_flow :: "string \<Rightarrow> xml_el" where
  "sample_flow i = El ''Flow''
    [(''flowId'', i), (''timeFirstTxPacket'', ''+0.0ns''), (''timeFirstRxPacket'', ''+200.0ns''), (''timeLastTxPacket'', ''+1000.0ns''),
     (''timeLastRxPacket'', ''+1200.0ns''), (''delaySum'', ''+900.0ns''), (''txBytes'', ''250''), (''rxBytes'', ''150''), (''txPackets'', ''5''),
     (''rxPackets'', ''3''), (''lostPackets'', ''1''), (''timesForwarded'', ''6'')] []"

definition sample_monitor :: xml_el where
  "sample_monitor = El ''FlowMonitor'' []
    [El ''FlowStats'' [] [sample_flow ''1'', sample_flow ''2''],
     El ''Ipv4FlowClassifier'' []
      [El ''Flow'' [(''flowId'', ''1''), (''sourceAddress'', ''10.1.3.1''), (''destinationAddress'', ''10.1.2.2''), (''protocol'', ''6''),
         (''sourcePort'', ''49''), (''destinationPort'', ''80'')] []],
     El ''Ipv6FlowClassifier'' [] []]"

theorem five_tuples_of_flows_witness:
  "\<exists>fs. Simulation sample_monitor = Inr fs \<and> length fs = 2 \<and> places fs 1 = Some 0 \<and> fl_id (fs ! 1) = 2 \<and> fl_tuple (fs ! 1) = None"
proof -
  have "case Simulation sample_monitor of Inl _ \<Rightarrow> False | Inr fs \<Rightarrow> length fs = 2 \<and> places fs 1 = Some 0 \<and> places fs 2 = Some 1 \<and> fl_id (fs ! 1) = 2"
    by code_simp
  then obtain fs where fs: "Simulation sample_monitor = Inr fs" "length fs = 2" "places fs 1 = Some 0" "places fs 2 = Some 1" "fl_id (fs ! 1) = 2"
    by (auto split: sum.splits)
  obtain c ts where c: "find_children [''Ipv4FlowClassifier''] sample_monitor = [c]" "tuples (find_children [''Flow''] c) = Inr ts"
      "list_all (\<lambda>k. fl_tuple (fs ! k) = (if places fs (fl_id (fs ! k)) = Some k then map_of (rev ts) (fl_id (fs ! k)) else None)) [0..<length fs]"
    using five_tuples_of_flows [OF fs(1)] by blast
  have "case tuples (find_children [''Flow''] (hd (find_children [''Ipv4FlowClassifier''] sample_monitor))) of Inl _ \<Rightarrow> False | Inr ts \<Rightarrow> map_of (rev ts) 2 = None"
    by code_simp
  then have "map_of (rev ts) 2 = None" using c(1,2) by simp
  then show ?thesis using fs c(3) by (simp add: list_all_iff)
qed

text \<open>A flow without a tuple, as every flow of IPv6 is, ends the report; so does another protocol.\<close>

lemma report_without_tuple:
  "fl_tuple f = None \<Longrightarrow> report_flows (f # fs) = ([], Some AttributeError)"
  by simp

lemma reported_flow:
  "report_flows [\<lparr>fl_id = 1, fl_rx_duration = 1, fl_hops = 2, fl_delay_mean = Some (1 / 80), fl_size_mean = None, fl_rx_bitrate = None,
      fl_tx_bitrate = Some 1500, fl_loss_ratio = Some (1 / 4), fl_interruptions = None,
      fl_tuple = Some \<lparr>ft_source = Some ''10.1.3.1'', ft_destination = Some ''10.1.2.2'', ft_source_port = 49, ft_destination_port = 80, ft_protocol = 17\<rparr>,
      fl_probes = []\<rparr>] =
     (''FlowID: 1 (UDP 10.1.3.1/49 --> 10.1.2.2/80)'' @ nl @ (TAB # ''TX bitrate: 1.50 kbit/s'') @ nl @ (TAB # ''RX bitrate: None'') @ nl @
      (TAB # ''Mean Delay: 12.50 ms'') @ nl @ (TAB # ''Packet Loss Ratio: 25.00 %'') @ nl, None)"
  by code_simp

section \<open>Events\<close>

text \<open>Within an element the loop does nothing but count.\<close>

lemma main_loop_inner:
  "0 < level \<Longrightarrow> main_loop (events el @ evs) level sims w = main_loop evs level sims w"
proof (induction el arbitrary: level evs)
  case (El t as cs)
  have kids: "main_loop (concat (map events ds) @ evs) l sims w = main_loop evs l sims w" if "set ds \<subseteq> set cs" "0 < l" for ds l evs
    using that
  proof (induction ds)
    case (Cons d ds)
    then show ?case using El.IH [of d l "concat (map events ds) @ evs"] by simp
  qed simp
  show ?case using kids [of cs "level + 1"] El.prems by simp
qed

text \<open>The loop over the events finds the monitor at the root only: the file has one simulation when its root is
  \<open>FlowMonitor\<close>, and none, without an error, when the monitor lies deeper.
\<close>

theorem monitor_at_the_root:
  "main_loop (events doc) 0 [] w =
     (if el_tag doc = ''FlowMonitor'' then
        (case Simulation doc of Inl e \<Rightarrow> (w, Inl e) | Inr fs \<Rightarrow> (w @ ''.'', Inr [fs]))
      else (w, Inr []))"
proof (cases doc)
  case (El t as cs)
  have kids: "main_loop (concat (map events ds) @ evs) 1 [] w = main_loop evs 1 [] w" for ds evs
    by (induction ds) (simp_all add: main_loop_inner)
  show ?thesis by (simp add: El kids split: sum.splits)
qed

section \<open>Statistics\<close>

text \<open>What a monitor knows of a flow, and the element the manual shows for it.\<close>

record monitored =
  mo_id :: nat
  mo_first_tx :: nat
  mo_first_rx :: nat
  mo_last_tx :: nat
  mo_last_rx :: nat
  mo_delay :: nat
  mo_tx_bytes :: nat
  mo_rx_bytes :: nat
  mo_tx_packets :: nat
  mo_rx_packets :: nat
  mo_lost :: nat
  mo_forwarded :: nat

definition time_text :: "nat \<Rightarrow> string" where
  "time_text n = ''+'' @ str_nat n @ ''.0ns''"

definition flow_element :: "monitored \<Rightarrow> xml_el" where
  "flow_element m = El ''Flow''
    [(''flowId'', str_nat (mo_id m)), (''timeFirstTxPacket'', time_text (mo_first_tx m)), (''timeFirstRxPacket'', time_text (mo_first_rx m)),
     (''timeLastTxPacket'', time_text (mo_last_tx m)), (''timeLastRxPacket'', time_text (mo_last_rx m)), (''delaySum'', time_text (mo_delay m)),
     (''txBytes'', str_nat (mo_tx_bytes m)), (''rxBytes'', str_nat (mo_rx_bytes m)), (''txPackets'', str_nat (mo_tx_packets m)),
     (''rxPackets'', str_nat (mo_rx_packets m)), (''lostPackets'', str_nat (mo_lost m)), (''timesForwarded'', str_nat (mo_forwarded m))] []"

lemma digit_signs: "\<not> is_digit CHR ''-''" "\<not> is_digit CHR ''+''" by code_simp+

lemma strip_str_nat [simp]: "strip (str_nat n) = str_nat n"
proof -
  have digits: "list_all is_digit (str_nat n)" by (rule str_nat_digits)
  then have "lstrip (str_nat n) = str_nat n" by (cases "str_nat n") (auto simp: lstrip_def is_space_digit)
  moreover have "rstrip (str_nat n) = str_nat n" using digits
    by (cases "str_nat n" rule: rev_cases) (auto simp: rstrip_def is_space_digit)
  ultimately show ?thesis by (simp add: strip_def)
qed

lemma sign_of_str_nat [simp]: "sign_of (str_nat n) = (1, str_nat n)"
  using str_nat_digits [of n] digit_signs by (cases "str_nat n") auto

lemma takeWhile_digits: "list_all is_digit ds \<Longrightarrow> takeWhile is_digit ds = ds \<and> dropWhile is_digit ds = []"
  by (auto simp: list_all_iff)

lemma numbers_of_str_nat [simp]:
  "int_of (Some (str_nat n)) = Inr (int n)"
  "long_of (Some (str_nat n)) = Inr (int n)"
  "float_of (Some (str_nat n)) = Inr (of_nat n)"
  "long_of (Some (CHR ''+'' # str_nat n)) = Inr (int n)"
  "float_of (Some (CHR ''+'' # str_nat n)) = Inr (of_nat n)"
proof -
  have "last (str_nat n) \<noteq> CHR ''L''" "last (str_nat n) \<noteq> CHR ''l''"
    using plus_no_space last_in_set [OF str_nat_nonempty [of n]] str_nat_digits [of n] unfolding list_all_iff by metis+
  then show "long_of (Some (str_nat n)) = Inr (int n)" by (simp add: digits_int_def str_nat_digits)
  show "int_of (Some (str_nat n)) = Inr (int n)" by (simp add: digits_int_def str_nat_digits)
  show "float_of (Some (str_nat n)) = Inr (of_nat n)" "float_of (Some (CHR ''+'' # str_nat n)) = Inr (of_nat n)"
    by (simp_all add: exponent_of_def ten_to_def strip_number str_nat_digits Let_def
      takeWhile_digits [OF str_nat_digits [of n], THEN conjunct1] takeWhile_digits [OF str_nat_digits [of n], THEN conjunct2])
  show "long_of (Some (CHR ''+'' # str_nat n)) = Inr (int n)" by (simp add: long_of_number str_nat_digits del: long_of.simps)
qed

lemma drop_last4_time [simp]: "drop_last4 (time_text n) = CHR ''+'' # str_nat n"
  by (simp add: time_text_def drop_last4_def)

lemma flow_element_gets [simp]:
  "el_get (flow_element m) ''flowId'' = Some (str_nat (mo_id m))"
  "el_get (flow_element m) ''timeFirstTxPacket'' = Some (time_text (mo_first_tx m))"
  "el_get (flow_element m) ''timeFirstRxPacket'' = Some (time_text (mo_first_rx m))"
  "el_get (flow_element m) ''timeLastTxPacket'' = Some (time_text (mo_last_tx m))"
  "el_get (flow_element m) ''timeLastRxPacket'' = Some (time_text (mo_last_rx m))"
  "el_get (flow_element m) ''delaySum'' = Some (time_text (mo_delay m))"
  "el_get (flow_element m) ''txBytes'' = Some (str_nat (mo_tx_bytes m))"
  "el_get (flow_element m) ''rxBytes'' = Some (str_nat (mo_rx_bytes m))"
  "el_get (flow_element m) ''txPackets'' = Some (str_nat (mo_tx_packets m))"
  "el_get (flow_element m) ''rxPackets'' = Some (str_nat (mo_rx_packets m))"
  "el_get (flow_element m) ''lostPackets'' = Some (str_nat (mo_lost m))"
  "el_get (flow_element m) ''timesForwarded'' = Some (str_nat (mo_forwarded m))"
  "find_children [''flowInterruptionsHistogram''] (flow_element m) = []"
  by (simp_all add: flow_element_def)

lemma bitrate_between:
  fixes a b :: nat
  assumes "long_of (el_get el k) = Inr (int n)"
  shows "bitrate el k (of_int (int b - int a) / 10 ^ 9) =
    Inr (if a < b then Some (8 * of_nat n / (of_nat (b - a) / 10 ^ 9)) else None)"
proof (cases "a < b")
  case True
  then have "(of_int (int b - int a) :: rat) = of_nat (b - a)" by (simp add: of_nat_diff)
  then show ?thesis using True assms by (simp add: bitrate_def mult.commute)
next
  case False
  then have "\<not> (0 :: rat) < of_int (int b - int a) / 10 ^ 9" by (simp add: zero_less_divide_iff)
  then show ?thesis using False by (simp add: bitrate_def)
qed

text \<open>C36: the statistics of a flow are read back from an element as the manual shows it: reading never
  fails, and the flow has the number, the means per received packet, the rates in bits per second
  where the time between the first and the last packet is positive, and the share of lost packets.
\<close>

theorem flow_statistics:
  "\<exists>f. Flow (flow_element m) = Inr f \<and> fl_id f = int (mo_id m) \<and>
    fl_hops f = (if mo_rx_packets m = 0 then - 1000 else of_nat (mo_forwarded m) / of_nat (mo_rx_packets m) + 1) \<and>
    fl_delay_mean f = (if mo_rx_packets m = 0 then None else Some (of_nat (mo_delay m) / of_nat (mo_rx_packets m) / 10 ^ 9)) \<and>
    fl_loss_ratio f = (if mo_rx_packets m = 0 then None else Some (of_nat (mo_lost m) / of_nat (mo_rx_packets m + mo_lost m))) \<and>
    fl_tx_bitrate f = (if mo_first_tx m < mo_last_tx m
      then Some (8 * of_nat (mo_tx_bytes m) / (of_nat (mo_last_tx m - mo_first_tx m) / 10 ^ 9)) else None) \<and>
    fl_rx_bitrate f = (if mo_first_rx m < mo_last_rx m
      then Some (8 * of_nat (mo_rx_bytes m) / (of_nat (mo_last_rx m - mo_first_rx m) / 10 ^ 9)) else None)"
proof -
  have "seconds_between (flow_element m) ''timeLastTxPacket'' ''timeFirstTxPacket'' = Inr (of_int (int (mo_last_tx m) - int (mo_first_tx m)) / 10 ^ 9)"
    "seconds_between (flow_element m) ''timeLastRxPacket'' ''timeFirstRxPacket'' = Inr (of_int (int (mo_last_rx m) - int (mo_first_rx m)) / 10 ^ 9)"
    by (simp_all add: seconds_between_def del: long_of.simps float_of.simps)
  moreover have "bitrate (flow_element m) ''txBytes'' (of_int (int (mo_last_tx m) - int (mo_first_tx m)) / 10 ^ 9) = Inr (if mo_first_tx m < mo_last_tx m
      then Some (8 * of_nat (mo_tx_bytes m) / (of_nat (mo_last_tx m - mo_first_tx m) / 10 ^ 9)) else None)"
    "bitrate (flow_element m) ''rxBytes'' (of_int (int (mo_last_rx m) - int (mo_first_rx m)) / 10 ^ 9) = Inr (if mo_first_rx m < mo_last_rx m
      then Some (8 * of_nat (mo_rx_bytes m) / (of_nat (mo_last_rx m - mo_first_rx m) / 10 ^ 9)) else None)"
    by (rule bitrate_between; simp only: flow_element_gets numbers_of_str_nat)+
  moreover have "hop_count (flow_element m) (int (mo_rx_packets m)) =
      Inr (if mo_rx_packets m = 0 then - 1000 else of_nat (mo_forwarded m) / of_nat (mo_rx_packets m) + 1)"
    by (simp add: hop_count_def del: float_of.simps)
  moreover have "means (flow_element m) (int (mo_rx_packets m)) = Inr
      (if mo_rx_packets m = 0 then None else Some (of_nat (mo_delay m) / of_nat (mo_rx_packets m) / 10 ^ 9),
       if mo_rx_packets m = 0 then None else Some (of_nat (mo_rx_bytes m) / of_nat (mo_rx_packets m)))"
    by (simp add: means_def del: float_of.simps)
  moreover have "quotient (of_nat (mo_lost m)) (of_nat (mo_rx_packets m) + of_nat (mo_lost m)) =
      Inr (of_nat (mo_lost m) / of_nat (mo_rx_packets m + mo_lost m))" if "mo_rx_packets m \<noteq> 0"
    using that by (simp add: quotient_def of_nat_add [symmetric] del: of_nat_add)
  ultimately show ?thesis
    unfolding Flow_def by (simp only: flow_element_gets numbers_of_str_nat res_bind_Inr prod.case list.case) (cases "mo_rx_packets m = 0"; simp)
qed

end
