(* ===== verification/Build_Modules.thy ===== *)
theory Build_Modules
  imports Waf_Run
begin

text \<open>
  The modules of a build, in the main \<^verbatim>\<open>wscript\<close>: \<open>configure\<close> chooses the modules to enable, \<open>build\<close> adds
  those they depend on and leaves out the task generators of all others.  What waf knows of a task generator
  is a record; the name of a module has the prefix \<open>ns3-\<close>.
\<close>

section \<open>Choosing modules\<close>

definition ns3_name :: "string \<Rightarrow> string" where
  "ns3_name m = ''ns3-'' @ m"

text \<open>
  The lists of the configuration.  When all modules are enabled the list of the enabled ones is the list
  of all modules itself: \<open>ch_shared\<close>.
\<close>

record chosen =
  ch_modules :: "string list"
  ch_contrib :: "string list"
  ch_enabled :: "string list"
  ch_enabled_contrib :: "string list"
  ch_shared :: bool

definition pick_module :: "string \<Rightarrow> chosen \<Rightarrow> chosen" where
  "pick_module m c =
     (if m \<in> set (ch_modules c) \<and> startswith m ''ns3-'' then c\<lparr>ch_enabled := ch_enabled c @ [m]\<rparr>
      else if ns3_name m \<in> set (ch_modules c) then c\<lparr>ch_enabled := ch_enabled c @ [ns3_name m]\<rparr>
      else if m \<in> set (ch_contrib c) \<and> startswith m ''ns3-'' then c\<lparr>ch_enabled_contrib := ch_enabled_contrib c @ [m]\<rparr>
      else if ns3_name m \<in> set (ch_contrib c) then c\<lparr>ch_enabled_contrib := ch_enabled_contrib c @ [ns3_name m]\<rparr>
      else c)"

definition choose_modules :: "string option \<Rightarrow> string list \<Rightarrow> string list \<Rightarrow> string list \<Rightarrow> chosen res" where
  "choose_modules opt config mods contrib =
     (let none = \<lparr>ch_modules = mods, ch_contrib = contrib, ch_enabled = [], ch_enabled_contrib = [], ch_shared = False\<rparr> in
      if opt \<noteq> None \<and> opt \<noteq> Some [] then Inr (fold pick_module (split_on CHR '','' (the opt)) none)
      else (case config of
        [] \<Rightarrow> Inl IndexError
      | m # _ \<Rightarrow>
          if m = ''all_modules'' then Inr (none\<lparr>ch_enabled := mods, ch_enabled_contrib := contrib, ch_shared := True\<rparr>)
          else Inr (fold pick_module config none)))"

fun remove_not_built :: "string list \<Rightarrow> chosen \<Rightarrow> chosen res" where
  "remove_not_built [] c = Inr c"
| "remove_not_built (n # ns) c =
     (if ns3_name n \<in> set (ch_enabled c) then
        let e = remove1 (ns3_name n) (ch_enabled c) in
        if e = [] then Inl (UserException (''Exiting because the '' @ n @ '' module can not be built and it was the only one enabled.''))
        else remove_not_built ns (c\<lparr>ch_enabled := e, ch_modules := (if ch_shared c then e else ch_modules c)\<rparr>)
      else if ns3_name n \<in> set (ch_enabled_contrib c) then
        let e = remove1 (ns3_name n) (ch_enabled_contrib c) in
        remove_not_built ns (c\<lparr>ch_enabled_contrib := e, ch_contrib := (if ch_shared c then e else ch_contrib c)\<rparr>)
      else remove_not_built ns c)"

definition configure_modules :: "bool \<Rightarrow> bool \<Rightarrow> string list \<Rightarrow> string option \<Rightarrow> string list \<Rightarrow> string list \<Rightarrow> string list \<Rightarrow> chosen res" where
  "configure_modules static darwin not_built opt config mods contrib =
     res_bind (choose_modules opt config mods contrib)
       (remove_not_built (not_built @ (if static \<and> darwin then [''template''] else [])))"

section \<open>Dependencies\<close>

text \<open>
  What \<open>get_tgen_by_name\<close> gives for a module: the names its task generator uses, or nothing; waf raises in
  its place.
\<close>

type_synonym uses = "string \<Rightarrow> string list option res"

fun add_deps :: "string list \<Rightarrow> string list \<Rightarrow> string list \<Rightarrow> bool \<times> string list \<times> string list \<Rightarrow> (bool \<times> string list \<times> string list) res" where
  "add_deps mods contrib [] st = Inr st"
| "add_deps mods contrib (d # ds) (changed, ms, cs) =
     (if \<not> startswith d ''ns3-'' then add_deps mods contrib ds (changed, ms, cs)
      else if d \<in> set ms \<or> d \<in> set cs then add_deps mods contrib ds (changed, ms, cs)
      else if d \<in> set mods then add_deps mods contrib ds (True, ms @ [d], cs)
      else if d \<in> set contrib then add_deps mods contrib ds (True, ms, cs @ [d])
      else Inl (SystemExit 1))"

fun closure_pass ::
    "uses \<Rightarrow> string list \<Rightarrow> string list \<Rightarrow> string list \<Rightarrow> bool \<times> string list \<times> string list \<Rightarrow> (bool \<times> string list \<times> string list) res" where
  "closure_pass uses mods contrib [] st = Inr st"
| "closure_pass uses mods contrib (m # todo) st =
     (case uses m of
        Inl e \<Rightarrow> Inl e
      | Inr None \<Rightarrow> Inl ValueError
      | Inr (Some ds) \<Rightarrow> res_bind (add_deps mods contrib ds st) (closure_pass uses mods contrib todo))"

text \<open>The modules a module uses directly.\<close>

definition use_rel :: "uses \<Rightarrow> (string \<times> string) set" where
  "use_rel uses = {(a, b). \<exists>us. uses a = Inr (Some us) \<and> b \<in> set us \<and> startswith b ''ns3-''}"

lemma use_relI: "uses a = Inr (Some us) \<Longrightarrow> b \<in> set us \<Longrightarrow> startswith b ''ns3-'' \<Longrightarrow> (a, b) \<in> use_rel uses"
  by (auto simp: use_rel_def)

text \<open>What a pass adds: modules of the known lists that are not enabled yet.\<close>

definition extends :: "string list \<Rightarrow> string list \<Rightarrow> bool \<times> string list \<times> string list \<Rightarrow> bool \<times> string list \<times> string list \<Rightarrow> string set \<Rightarrow> bool" where
  "extends mods contrib st st' D \<longleftrightarrow>
     (case (st, st') of ((ch, ms, cs), (ch', ms', cs')) \<Rightarrow>
       \<exists>xs ys. ms' = ms @ xs \<and> cs' = cs @ ys \<and> set xs \<subseteq> set mods \<inter> D - (set ms \<union> set cs) \<and> set ys \<subseteq> set contrib \<inter> D - (set ms \<union> set cs) \<and>
         (ch' \<longleftrightarrow> ch \<or> xs \<noteq> [] \<or> ys \<noteq> []))"

lemma adds_refl: "extends mods contrib st st D"
  by (cases st) (auto simp: extends_def)

lemma extendsE:
  assumes "extends mods contrib (ch, ms, cs) st D"
  obtains xs ys where "st = (ch \<or> xs \<noteq> [] \<or> ys \<noteq> [], ms @ xs, cs @ ys)"
    "set xs \<subseteq> set mods \<inter> D - (set ms \<union> set cs)" "set ys \<subseteq> set contrib \<inter> D - (set ms \<union> set cs)"
proof -
  obtain ch' ms' cs' where st: "st = (ch', ms', cs')" by (cases st)
  show thesis using assms that unfolding extends_def st prod.case by (elim exE conjE) simp
qed

lemma adds_trans:
  assumes "extends mods contrib s t D" "extends mods contrib t u E"
  shows "extends mods contrib s u (D \<union> E)"
proof -
  obtain ch ms cs where s: "s = (ch, ms, cs)" by (cases s)
  obtain xs ys where t: "t = (ch \<or> xs \<noteq> [] \<or> ys \<noteq> [], ms @ xs, cs @ ys)"
      "set xs \<subseteq> set mods \<inter> D - (set ms \<union> set cs)" "set ys \<subseteq> set contrib \<inter> D - (set ms \<union> set cs)"
    using assms(1) unfolding s by (rule extendsE)
  obtain us vs where u: "u = ((ch \<or> xs \<noteq> [] \<or> ys \<noteq> []) \<or> us \<noteq> [] \<or> vs \<noteq> [], (ms @ xs) @ us, (cs @ ys) @ vs)"
      "set us \<subseteq> set mods \<inter> E - (set (ms @ xs) \<union> set (cs @ ys))" "set vs \<subseteq> set contrib \<inter> E - (set (ms @ xs) \<union> set (cs @ ys))"
    using assms(2) unfolding t(1) by (rule extendsE)
  have "set (xs @ us) \<subseteq> set mods \<inter> (D \<union> E) - (set ms \<union> set cs)" "set (ys @ vs) \<subseteq> set contrib \<inter> (D \<union> E) - (set ms \<union> set cs)"
    using t(2,3) u(2,3) unfolding set_append by blast+
  moreover have "((ch \<or> xs \<noteq> [] \<or> ys \<noteq> []) \<or> us \<noteq> [] \<or> vs \<noteq> []) \<longleftrightarrow> ch \<or> xs @ us \<noteq> [] \<or> ys @ vs \<noteq> []" by auto
  ultimately show ?thesis unfolding extends_def s u(1) prod.case append_assoc by blast
qed

lemma extends_mono: "extends mods contrib s t D \<Longrightarrow> D \<subseteq> E \<Longrightarrow> extends mods contrib s t E"
  using adds_trans [OF _ adds_refl, of mods contrib s t D E] by (simp add: Un_absorb1)

definition ns3_deps :: "string list \<Rightarrow> string set" where
  "ns3_deps ds = {d \<in> set ds. startswith d ''ns3-''}"

lemma ns3_deps_Cons: "ns3_deps (d # ds) = (if startswith d ''ns3-'' then insert d (ns3_deps ds) else ns3_deps ds)"
  by (auto simp: ns3_deps_def)

text \<open>A predicate of the names enabled so far.\<close>

abbreviation names_of :: "bool \<times> string list \<times> string list \<Rightarrow> string set" where
  "names_of st \<equiv> set (fst (snd st)) \<union> set (snd (snd st))"

lemma extends_names: "extends mods contrib s t D \<Longrightarrow> names_of s \<subseteq> names_of t"
  by (cases s; cases t) (auto simp: extends_def)

lemma add_deps_spec:
  assumes "add_deps mods contrib ds st = Inr st'"
  shows "extends mods contrib st st' (ns3_deps ds) \<and> ns3_deps ds \<subseteq> names_of st'"
  using assms
proof (induction mods contrib ds st rule: add_deps.induct)
  case (2 mods contrib d ds changed ms cs)
  have one: "extends mods contrib (changed, ms, cs) s {d}"
    if "d \<notin> set ms \<union> set cs" "s = (if d \<in> set mods then (True, ms @ [d], cs) else (True, ms, cs @ [d]))" "d \<in> set mods \<union> set contrib" for s
    using that by (auto simp: extends_def)
  have step: "extends mods contrib (changed, ms, cs) st' (ns3_deps (d # ds)) \<and> ns3_deps (d # ds) \<subseteq> names_of st'"
    if "extends mods contrib s st' (ns3_deps ds) \<and> ns3_deps ds \<subseteq> names_of st'" "startswith d ''ns3-''"
      "d \<in> names_of s" "extends mods contrib (changed, ms, cs) s {d}" for s
  proof -
    have "d \<in> names_of st'" using that(1,3) extends_names [of mods contrib s st'] by blast
    moreover have "ns3_deps (d # ds) = {d} \<union> ns3_deps ds" using that(2) by (simp add: ns3_deps_Cons)
    ultimately show ?thesis using adds_trans [OF that(4)] that(1) by (simp del: Un_insert_left)
  qed
  consider "\<not> startswith d ''ns3-''" | "startswith d ''ns3-''" "d \<in> set ms \<union> set cs"
    | "startswith d ''ns3-''" "d \<notin> set ms \<union> set cs" "d \<in> set mods"
    | "startswith d ''ns3-''" "d \<notin> set ms \<union> set cs" "d \<notin> set mods" "d \<in> set contrib"
    | "startswith d ''ns3-''" "d \<notin> set ms \<union> set cs" "d \<notin> set mods" "d \<notin> set contrib" by blast
  then show ?case
  proof cases
    case 1
    then show ?thesis using 2 by (simp add: ns3_deps_Cons)
  next
    case 2
    then show ?thesis using "2.IH"(2) "2.prems" by (intro step [of "(changed, ms, cs)"]) (auto intro: adds_refl)
  next
    case 3
    then show ?thesis using "2.IH"(3) "2.prems" by (intro step [of "(True, ms @ [d], cs)"] one) auto
  next
    case 4
    then show ?thesis using "2.IH"(4) "2.prems" by (intro step [of "(True, ms, cs @ [d])"] one) auto
  next
    case 5
    then show ?thesis using "2.prems" by simp
  qed
qed (simp add: adds_refl ns3_deps_def)

lemma closure_pass_spec:
  assumes "closure_pass uses mods contrib todo st = Inr st'"
  shows "extends mods contrib st st' (use_rel uses `` set todo) \<and> use_rel uses `` set todo \<subseteq> names_of st'"
  using assms
proof (induction todo arbitrary: st)
  case (Cons m todo)
  then obtain ds st1 where ds: "uses m = Inr (Some ds)" "add_deps mods contrib ds st = Inr st1" "closure_pass uses mods contrib todo st1 = Inr st'"
    by (auto simp: res_bind_eq_Inr split: sum.splits option.splits)
  have m: "use_rel uses `` {m} = ns3_deps ds" using ds(1) by (auto simp: use_rel_def ns3_deps_def)
  then have "use_rel uses `` set (m # todo) = ns3_deps ds \<union> use_rel uses `` set todo" by auto
  moreover have "extends mods contrib st st' (ns3_deps ds \<union> use_rel uses `` set todo)"
    using add_deps_spec [OF ds(2)] Cons.IH [OF ds(3)] by (blast intro: adds_trans)
  moreover have "ns3_deps ds \<subseteq> names_of st'" "use_rel uses `` set todo \<subseteq> names_of st'"
    using add_deps_spec [OF ds(2)] Cons.IH [OF ds(3)] extends_names [of mods contrib st1 st'] by blast+
  ultimately show ?case by simp
qed (simp add: adds_refl)

lemma pass_shrinks:
  assumes "closure_pass uses mods contrib todo (False, ms, cs) = Inr (True, ms', cs')"
  shows "card (set mods \<union> set contrib - (set ms' \<union> set cs')) < card (set mods \<union> set contrib - (set ms \<union> set cs))"
proof (rule psubset_card_mono)
  obtain xs ys where "ms' = ms @ xs" "cs' = cs @ ys" "xs \<noteq> [] \<or> ys \<noteq> []"
      "set xs \<subseteq> set mods - (set ms \<union> set cs)" "set ys \<subseteq> set contrib - (set ms \<union> set cs)"
    using closure_pass_spec [OF assms, THEN conjunct1] unfolding extends_def prod.case by (elim exE conjE) blast
  then show "set mods \<union> set contrib - (set ms' \<union> set cs') \<subset> set mods \<union> set contrib - (set ms \<union> set cs)"
    by (cases xs; cases ys) auto
qed simp

function enable_closure :: "uses \<Rightarrow> string list \<Rightarrow> string list \<Rightarrow> string list \<Rightarrow> string list \<Rightarrow> (string list \<times> string list) res" where
  "enable_closure uses mods contrib ms cs =
     (case closure_pass uses mods contrib (ms @ cs) (False, ms, cs) of
        Inl e \<Rightarrow> Inl e
      | Inr (changed, ms', cs') \<Rightarrow> if changed then enable_closure uses mods contrib ms' cs' else Inr (ms', cs'))"
  by pat_completeness auto
termination
  by (relation "measure (\<lambda>(uses, mods, contrib, ms, cs). card (set mods \<union> set contrib - (set ms \<union> set cs)))")
    (auto simp: pass_shrinks)

declare enable_closure.simps [simp del]

section \<open>The closure of the dependencies\<close>

abbreviation reached :: "uses \<Rightarrow> string set \<Rightarrow> string set" where
  "reached uses A \<equiv> (use_rel uses)\<^sup>* `` A"

lemma reached_between:
  assumes "A \<subseteq> B" "B \<subseteq> reached uses A"
  shows "reached uses B = reached uses A"
proof
  show "reached uses B \<subseteq> reached uses A" using assms(2) by (auto intro: rtrancl_trans)
  show "reached uses A \<subseteq> reached uses B" using assms(1) by blast
qed

lemma reached_once: "A \<subseteq> reached uses A" "use_rel uses `` A \<subseteq> reached uses A"
  by auto

lemma enable_closure_step:
  assumes "closure_pass uses mods contrib (ms @ cs) (False, ms, cs) = Inr (ch, ms', cs')"
  shows "reached uses (set ms' \<union> set cs') = reached uses (set ms \<union> set cs)"
    "\<exists>xs ys. ms' = ms @ xs \<and> cs' = cs @ ys \<and> set xs \<subseteq> set mods - (set ms \<union> set cs) \<and> set ys \<subseteq> set contrib - (set ms \<union> set cs)"
    "\<not> ch \<Longrightarrow> use_rel uses `` (set ms \<union> set cs) \<subseteq> set ms \<union> set cs \<and> ms' = ms \<and> cs' = cs"
proof -
  note spec = closure_pass_spec [OF assms]
  obtain xs ys where xs: "ch = (False \<or> xs \<noteq> [] \<or> ys \<noteq> [])" "ms' = ms @ xs" "cs' = cs @ ys"
      "set xs \<subseteq> set mods \<inter> (use_rel uses `` set (ms @ cs)) - (set ms \<union> set cs)" "set ys \<subseteq> set contrib \<inter> (use_rel uses `` set (ms @ cs)) - (set ms \<union> set cs)"
    using conjunct1 [OF spec] by (rule extendsE) simp
  show "\<exists>xs ys. ms' = ms @ xs \<and> cs' = cs @ ys \<and> set xs \<subseteq> set mods - (set ms \<union> set cs) \<and> set ys \<subseteq> set contrib - (set ms \<union> set cs)"
    using xs by blast
  have "set ms' \<union> set cs' \<subseteq> reached uses (set ms \<union> set cs)"
  proof -
    have "use_rel uses `` set (ms @ cs) \<subseteq> reached uses (set ms \<union> set cs)"
      using reached_once(2) [of uses "set ms \<union> set cs"] by simp
    then show ?thesis using xs(2-5) by auto
  qed
  then show "reached uses (set ms' \<union> set cs') = reached uses (set ms \<union> set cs)"
    using xs(2,3) by (intro reached_between) auto
  show "use_rel uses `` (set ms \<union> set cs) \<subseteq> set ms \<union> set cs \<and> ms' = ms \<and> cs' = cs" if "\<not> ch"
    using that xs(1-3) conjunct2 [OF spec] by simp
qed

lemma enable_closure_cases:
  obtains e where "closure_pass uses mods contrib (ms @ cs) (False, ms, cs) = Inl e" "enable_closure uses mods contrib ms cs = Inl e"
  | ms' cs' where "closure_pass uses mods contrib (ms @ cs) (False, ms, cs) = Inr (True, ms', cs')"
      "enable_closure uses mods contrib ms cs = enable_closure uses mods contrib ms' cs'"
  | ms' cs' where "closure_pass uses mods contrib (ms @ cs) (False, ms, cs) = Inr (False, ms', cs')"
      "enable_closure uses mods contrib ms cs = Inr (ms', cs')"
proof (cases "closure_pass uses mods contrib (ms @ cs) (False, ms, cs)")
  case (Inl e)
  then show thesis using that(1) by (simp add: enable_closure.simps [of uses mods contrib ms cs])
next
  case (Inr st)
  then show thesis using that(2,3) by (cases st) (auto simp: enable_closure.simps [of uses mods contrib ms cs] split: if_splits)
qed

lemma enable_closure_reached:
  assumes "enable_closure uses mods contrib ms cs = Inr (ms', cs')"
  shows "set ms' \<union> set cs' = reached uses (set ms \<union> set cs) \<and>
    (\<exists>xs ys. ms' = ms @ xs \<and> cs' = cs @ ys \<and> set xs \<subseteq> set mods - set ms \<and> set ys \<subseteq> set contrib - set cs)"
  using assms
proof (induction uses mods contrib ms cs rule: enable_closure.induct)
  case (1 uses mods contrib ms cs)
  show ?case
  proof (cases rule: enable_closure_cases [of uses mods contrib ms cs])
    case (1 e)
    then show ?thesis using "1.prems" by simp
  next
    case (2 ms1 cs1)
    note step = enable_closure_step [OF 2(1)]
    have IH: "set ms' \<union> set cs' = reached uses (set ms1 \<union> set cs1) \<and>
        (\<exists>xs ys. ms' = ms1 @ xs \<and> cs' = cs1 @ ys \<and> set xs \<subseteq> set mods - set ms1 \<and> set ys \<subseteq> set contrib - set cs1)"
      by (rule "1.IH" [OF 2(1) refl refl TrueI]) (use "1.prems" 2(2) in simp)
    obtain us vs where u: "ms1 = ms @ us" "cs1 = cs @ vs" "set us \<subseteq> set mods - (set ms \<union> set cs)" "set vs \<subseteq> set contrib - (set ms \<union> set cs)"
      using step(2) by blast
    obtain xs ys where x: "ms' = ms1 @ xs" "cs' = cs1 @ ys" "set xs \<subseteq> set mods - set ms1" "set ys \<subseteq> set contrib - set cs1"
      using conjunct2 [OF IH] by blast
    have "ms' = ms @ (us @ xs) \<and> cs' = cs @ (vs @ ys) \<and> set (us @ xs) \<subseteq> set mods - set ms \<and> set (vs @ ys) \<subseteq> set contrib - set cs"
      using u x by auto
    then show ?thesis using IH step(1) by blast
  next
    case (3 ms1 cs1)
    note step = enable_closure_step [OF 3(1)]
    have "ms' = ms \<and> cs' = cs" using step(3) "1.prems" 3(2) by simp
    moreover have "reached uses (set ms \<union> set cs) = set ms \<union> set cs"
      by (rule Image_closed_trancl) (use step(3) in simp)
    ultimately show ?thesis by simp
  qed
qed

text \<open>An error of a pass is the one of an unknown dependency, when every module is found.\<close>

lemma add_deps_error:
  "add_deps mods contrib ds st = Inl e \<Longrightarrow> e = SystemExit 1 \<and> (\<exists>d \<in> ns3_deps ds. d \<notin> names_of st \<union> set mods \<union> set contrib)"
proof (induction mods contrib ds st rule: add_deps.induct)
  case (2 mods contrib d ds changed ms cs)
  have sub: "e = SystemExit 1 \<and> (\<exists>x \<in> ns3_deps (d # ds). x \<notin> names_of (changed, ms, cs) \<union> set mods \<union> set contrib)"
    if "e = SystemExit 1 \<and> (\<exists>x \<in> ns3_deps ds. x \<notin> names_of s \<union> set mods \<union> set contrib)" "names_of (changed, ms, cs) \<subseteq> names_of s" for s
    using that by (auto simp: ns3_deps_Cons)
  consider "\<not> startswith d ''ns3-''" | "startswith d ''ns3-''" "d \<in> set ms \<union> set cs"
    | "startswith d ''ns3-''" "d \<notin> set ms \<union> set cs" "d \<in> set mods"
    | "startswith d ''ns3-''" "d \<notin> set ms \<union> set cs" "d \<notin> set mods" "d \<in> set contrib"
    | "startswith d ''ns3-''" "d \<notin> set ms \<union> set cs" "d \<notin> set mods" "d \<notin> set contrib" by blast
  then show ?case
  proof cases
    case 1
    then show ?thesis using "2.IH"(1) "2.prems" by (intro sub [of "(changed, ms, cs)"]) auto
  next
    case 2
    then show ?thesis using "2.IH"(2) "2.prems" by (intro sub [of "(changed, ms, cs)"]) auto
  next
    case 3
    then show ?thesis using "2.IH"(3) "2.prems" by (intro sub [of "(True, ms @ [d], cs)"]) auto
  next
    case 4
    then show ?thesis using "2.IH"(4) "2.prems" by (intro sub [of "(True, ms, cs @ [d])"]) auto
  next
    case 5
    then show ?thesis using "2.prems" by (auto simp: ns3_deps_Cons)
  qed
qed simp

lemma closure_pass_error:
  assumes "closure_pass uses mods contrib todo st = Inl e" "\<And>m. m \<in> set todo \<Longrightarrow> \<exists>us. uses m = Inr (Some us)"
  shows "e = SystemExit 1 \<and> (\<exists>d \<in> use_rel uses `` set todo. d \<notin> names_of st \<union> set mods \<union> set contrib)"
  using assms
proof (induction todo arbitrary: st)
  case (Cons m todo)
  obtain us where us: "uses m = Inr (Some us)" using Cons.prems(2) [of m] by auto
  have m: "ns3_deps us \<subseteq> use_rel uses `` set (m # todo)" using us by (auto simp: use_rel_def ns3_deps_def)
  show ?case
  proof (cases "add_deps mods contrib us st")
    case (Inl e')
    then have "e' = e" using Cons.prems(1) us by simp
    with add_deps_error [OF Inl] m show ?thesis by blast
  next
    case (Inr st1)
    then have "closure_pass uses mods contrib todo st1 = Inl e" using Cons.prems(1) us by simp
    from Cons.IH [OF this] Cons.prems(2) obtain d where d: "e = SystemExit 1" "d \<in> use_rel uses `` set todo" "d \<notin> names_of st1 \<union> set mods \<union> set contrib"
      by auto
    moreover have "names_of st \<subseteq> names_of st1" using add_deps_spec [OF Inr] by (blast dest: extends_names)
    ultimately show ?thesis by auto
  qed
qed simp

lemma enable_closure_error:
  assumes "enable_closure uses mods contrib ms cs = Inl e" "\<And>m. m \<in> reached uses (set ms \<union> set cs) \<Longrightarrow> \<exists>us. uses m = Inr (Some us)"
  shows "e = SystemExit 1 \<and> \<not> reached uses (set ms \<union> set cs) \<subseteq> set ms \<union> set cs \<union> set mods \<union> set contrib"
  using assms
proof (induction uses mods contrib ms cs rule: enable_closure.induct)
  case (1 uses mods contrib ms cs)
  show ?case
  proof (cases rule: enable_closure_cases [of uses mods contrib ms cs])
    case (1 e')
    have "\<exists>us. uses m = Inr (Some us)" if "m \<in> set (ms @ cs)" for m
      using "1.prems"(2) [of m] that reached_once(1) [of "set ms \<union> set cs" uses] by auto
    from closure_pass_error [OF 1(1) this] have "e' = SystemExit 1 \<and> (\<exists>d \<in> use_rel uses `` (set ms \<union> set cs). d \<notin> set ms \<union> set cs \<union> set mods \<union> set contrib)"
      by simp
    moreover have "e' = e" using 1(2) "1.prems"(1) by simp
    ultimately show ?thesis using reached_once(2) [of uses "set ms \<union> set cs"] by blast
  next
    case (2 ms1 cs1)
    note step = enable_closure_step [OF 2(1)]
    have "e = SystemExit 1 \<and> \<not> reached uses (set ms1 \<union> set cs1) \<subseteq> set ms1 \<union> set cs1 \<union> set mods \<union> set contrib"
      by (rule "1.IH" [OF 2(1) refl refl TrueI]) (use "1.prems" 2(2) step(1) in simp_all)
    moreover have "set ms1 \<union> set cs1 \<union> set mods \<union> set contrib = set ms \<union> set cs \<union> set mods \<union> set contrib"
      using step(2) by auto
    ultimately show ?thesis using step(1) by simp
  next
    case (3 ms1 cs1)
    then show ?thesis using "1.prems"(1) by simp
  qed
qed


fun demo_uses :: uses where
  "demo_uses m = Inr (map_of [(''ns3-internet'', [''ns3-network'', ''ns3-bridge'']), (''ns3-network'', [''ns3-core'', ''pthread'']),
     (''ns3-bridge'', [''ns3-network'']), (''ns3-core'', [])] m)"

lemma demo_reached:
  assumes "m \<in> reached demo_uses {''ns3-internet''}"
  shows "m \<in> {''ns3-internet'', ''ns3-network'', ''ns3-bridge'', ''ns3-core''}"
proof -
  let ?S = "{''ns3-internet'', ''ns3-network'', ''ns3-bridge'', ''ns3-core''}"
  have "b \<in> ?S" if b: "b \<in> use_rel demo_uses `` ?S" for b
  proof -
    obtain a us where a: "a \<in> ?S" "demo_uses a = Inr (Some us)" "b \<in> set us" "startswith b ''ns3-''"
      using b unfolding use_rel_def by blast
    from a(1) show ?thesis by (elim insertE emptyE) (use a(2-4) in \<open>auto simp: startswith_def\<close>)
  qed
  then have "use_rel demo_uses `` ?S \<subseteq> ?S" by (rule subsetI)
  then have "reached demo_uses ?S = ?S" by (rule Image_closed_trancl)
  moreover have "reached demo_uses {''ns3-internet''} \<subseteq> reached demo_uses ?S" by (rule Image_mono) simp_all
  ultimately show ?thesis using assms by (simp only: subset_iff)
qed


section \<open>Leaving out task generators\<close>

text \<open>
  A task generator: attributes it may lack are options.  \<open>tk_dir\<close> is the directory of its build relative to
  where waf was started.
\<close>

record taskgen =
  tk_name :: string
  tk_features :: "string list"
  tk_module :: "string option"
  tk_deps :: "string list option"
  tk_is_module :: bool
  tk_tests_of :: "string option"
  tk_mode :: string
  tk_dir :: string

text \<open>The groups hold places in the list of task generators, as an object is in a group by its identity.\<close>

record build_state =
  bs_gens :: "taskgen list"
  bs_groups :: "nat list list"
  bs_programs :: "string list"

fun exclude_taskgen :: "nat \<Rightarrow> nat list list \<Rightarrow> nat list list" where
  "exclude_taskgen i [] = []"
| "exclude_taskgen i (g # gs) = (if i \<in> set g then remove1 i g # gs else g # exclude_taskgen i gs)"

definition program_name :: "string \<Rightarrow> string \<Rightarrow> string \<Rightarrow> string" where
  "program_name version suffix name = ''ns'' @ version @ ''-'' @ name @ suffix"

text \<open>Whether the module a generator is for is enabled: a generator without one raises.\<close>

definition module_enabled :: "string set \<Rightarrow> taskgen \<Rightarrow> bool res" where
  "module_enabled enabled g = (case tk_module g of None \<Rightarrow> Inl AttributeError | Some m \<Rightarrow> Inr (ns3_name m \<in> enabled))"

definition remove_headers :: "string \<Rightarrow> string set \<Rightarrow> nat \<Rightarrow> build_state \<Rightarrow> build_state res" where
  "remove_headers feature enabled i b =
     (let g = bs_gens b ! i in
      if feature \<in> set (tk_features g) then
        res_bind (module_enabled enabled g) (\<lambda>e. Inr (if e then b else b\<lparr>bs_gens := (bs_gens b)[i := g\<lparr>tk_mode := ''remove''\<rparr>]\<rparr>))
      else Inr b)"

definition exclude_if :: "bool \<Rightarrow> nat \<Rightarrow> build_state \<Rightarrow> build_state" where
  "exclude_if c i b = (if c then b\<lparr>bs_groups := exclude_taskgen i (bs_groups b)\<rparr> else b)"

definition exclude_of_module :: "bool \<Rightarrow> string set \<Rightarrow> nat \<Rightarrow> build_state \<Rightarrow> build_state res" where
  "exclude_of_module applies enabled i b =
     (if applies then res_bind (module_enabled enabled (bs_gens b ! i)) (\<lambda>e. Inr (exclude_if (\<not> e) i b)) else Inr b)"

definition filter_program :: "string \<Rightarrow> string \<Rightarrow> string set \<Rightarrow> nat \<Rightarrow> build_state \<Rightarrow> build_state" where
  "filter_program version suffix enabled i b =
     (let g = bs_gens b ! i in
      (case tk_deps g of
         None \<Rightarrow> b
       | Some ds \<Rightarrow>
           if list_all (\<lambda>d. d \<in> enabled) ds
           then b\<lparr>bs_programs := bs_programs b @ [path_join (tk_dir g) (program_name version suffix (tk_name g))]\<rparr>
           else exclude_if True i b))"

definition filter_taskgen :: "string \<Rightarrow> string \<Rightarrow> bool \<Rightarrow> string set \<Rightarrow> nat \<Rightarrow> build_state \<Rightarrow> build_state res" where
  "filter_taskgen version suffix tests enabled i b =
     (let g = bs_gens b ! i in
      res_bind (remove_headers ''ns3moduleheader'' enabled i b) (\<lambda>b.
      let b = filter_program version suffix enabled i b;
          b = exclude_if (tk_is_module g \<and> tk_name g \<notin> enabled) i b;
          b = (case tk_tests_of g of None \<Rightarrow> b | Some m \<Rightarrow> exclude_if (\<not> tests \<or> m \<notin> enabled) i b)
      in
      res_bind (remove_headers ''ns3header'' enabled i b) (\<lambda>b.
      res_bind (remove_headers ''ns3privateheader'' enabled i b) (\<lambda>b.
      res_bind (if ''ns3pcfile'' \<in> set (tk_features g)
                then (case tk_module g of None \<Rightarrow> Inl AttributeError | Some m \<Rightarrow> Inr (exclude_if (m \<notin> enabled) i b)) else Inr b) (\<lambda>b.
      res_bind (exclude_of_module (substr_in ''pybindgen'' (tk_name g)) enabled i b) (\<lambda>b.
        exclude_of_module (''pyext'' \<in> set (tk_features g)) enabled i b))))))"

fun filter_taskgens :: "string \<Rightarrow> string \<Rightarrow> bool \<Rightarrow> string set \<Rightarrow> nat list \<Rightarrow> build_state \<Rightarrow> build_state res" where
  "filter_taskgens version suffix tests enabled [] b = Inr b"
| "filter_taskgens version suffix tests enabled (i # is) b =
     res_bind (filter_taskgen version suffix tests enabled i b) (filter_taskgens version suffix tests enabled is)"

section \<open>What is left\<close>

definition kept :: "bool \<Rightarrow> string set \<Rightarrow> taskgen \<Rightarrow> bool" where
  "kept tests enabled g \<longleftrightarrow>
     (\<forall>ds. tk_deps g = Some ds \<longrightarrow> set ds \<subseteq> enabled) \<and>
     (tk_is_module g \<longrightarrow> tk_name g \<in> enabled) \<and>
     (\<forall>m. tk_tests_of g = Some m \<longrightarrow> tests \<and> m \<in> enabled) \<and>
     (''ns3pcfile'' \<in> set (tk_features g) \<longrightarrow> (\<exists>m \<in> enabled. tk_module g = Some m)) \<and>
     (substr_in ''pybindgen'' (tk_name g) \<or> ''pyext'' \<in> set (tk_features g) \<longrightarrow> (\<exists>m. tk_module g = Some m \<and> ns3_name m \<in> enabled))"

definition header_features :: "string set" where
  "header_features = {''ns3moduleheader'', ''ns3header'', ''ns3privateheader''}"

definition headers_removed :: "string set \<Rightarrow> taskgen \<Rightarrow> bool" where
  "headers_removed enabled g \<longleftrightarrow> set (tk_features g) \<inter> header_features \<noteq> {} \<and> (\<exists>m. tk_module g = Some m \<and> ns3_name m \<notin> enabled)"

definition runnable_path :: "string \<Rightarrow> string \<Rightarrow> string set \<Rightarrow> taskgen \<Rightarrow> string list" where
  "runnable_path version suffix enabled g =
     (case tk_deps g of None \<Rightarrow> []
      | Some ds \<Rightarrow> if set ds \<subseteq> enabled then [path_join (tk_dir g) (program_name version suffix (tk_name g))] else [])"

lemma exclude_taskgen_filter:
  "distinct (concat gs) \<Longrightarrow> exclude_taskgen i gs = map (filter (\<lambda>j. j \<noteq> i)) gs"
proof (induction gs)
  case (Cons g gs)
  have none: "filter (\<lambda>j. j \<noteq> i) g' = g'" if "g' \<in> set gs" "i \<in> set g" for g'
    using Cons.prems that by (intro filter_True) auto
  have "g = filter (\<lambda>j. j \<noteq> i) g" if "i \<notin> set g" using that by (intro filter_True [symmetric]) auto
  then show ?case using Cons none by (auto simp: distinct_remove1_removeAll removeAll_filter_not_eq map_idI intro!: arg_cong2 [of _ _ _ _ "(#)"] filter_cong)
qed simp

lemma distinct_concat_filter: "distinct (concat gs) \<Longrightarrow> distinct (concat (map (filter P) gs))"
  by (induction gs) auto

lemma filter_groups_all [simp]: "map (filter (\<lambda>j. True)) gs = gs"
  by (induction gs) simp_all

lemma filter_groups_filter [simp]: "map (filter P) (map (filter Q) gs) = map (filter (\<lambda>j. Q j \<and> P j)) gs"
  by simp

text \<open>What one round does to the groups, the programs listed and the mode of the one task generator.\<close>

definition drop_unless :: "nat \<Rightarrow> bool \<Rightarrow> nat list list \<Rightarrow> nat list list" where
  "drop_unless i k gs = map (filter (\<lambda>j. j \<noteq> i \<or> k)) gs"

definition set_mode :: "nat \<Rightarrow> string \<Rightarrow> build_state \<Rightarrow> build_state" where
  "set_mode i md b = b\<lparr>bs_gens := (bs_gens b)[i := (bs_gens b ! i)\<lparr>tk_mode := md\<rparr>]\<rparr>"

lemma drop_unless_simps [simp]:
  "drop_unless i k (drop_unless i k' gs) = drop_unless i (k' \<and> k) gs"
  "distinct (concat gs) \<Longrightarrow> distinct (concat (drop_unless i k gs))"
  by (auto simp: drop_unless_def distinct_concat_filter intro!: filter_cong)

lemma drop_unless_True [simp]: "drop_unless i True gs = gs"
  by (induction gs) (simp_all add: drop_unless_def)

lemma set_mode_simps [simp]:
  "bs_groups (set_mode i md b) = bs_groups b" "bs_programs (set_mode i md b) = bs_programs b"
  "length (bs_gens (set_mode i md b)) = length (bs_gens b)"
  "i < length (bs_gens b) \<Longrightarrow> bs_gens (set_mode i md b) ! i = (bs_gens b ! i)\<lparr>tk_mode := md\<rparr>"
  "j \<noteq> i \<Longrightarrow> bs_gens (set_mode i md b) ! j = bs_gens b ! j"
  "i < length (bs_gens b) \<Longrightarrow> set_mode i md' (set_mode i md b) = set_mode i md' b"
  "(set_mode i md b)\<lparr>bs_groups := gs\<rparr> = set_mode i md (b\<lparr>bs_groups := gs\<rparr>)"
  "(set_mode i md b)\<lparr>bs_programs := ps\<rparr> = set_mode i md (b\<lparr>bs_programs := ps\<rparr>)"
  by (simp_all add: set_mode_def)

lemma runnable_path_mode [simp]: "runnable_path version suffix enabled (g\<lparr>tk_mode := md\<rparr>) = runnable_path version suffix enabled g"
  by (simp add: runnable_path_def split: option.split)

lemma set_mode_self [simp]: "set_mode i (tk_mode (bs_gens b ! i)) b = b"
  by (simp add: set_mode_def)

lemma exclude_if_drop:
  "distinct (concat (bs_groups b)) \<Longrightarrow> exclude_if c i b = b\<lparr>bs_groups := drop_unless i (\<not> c) (bs_groups b)\<rparr>"
  by (cases c) (simp_all add: exclude_if_def exclude_taskgen_filter drop_unless_def [of i False])

lemma remove_headers_mode:
  assumes "remove_headers f enabled i b = Inr b'"
  shows "b' = set_mode i (if f \<in> set (tk_features (bs_gens b ! i)) \<and> (\<exists>m. tk_module (bs_gens b ! i) = Some m \<and> ns3_name m \<notin> enabled)
    then ''remove'' else tk_mode (bs_gens b ! i)) b"
  using assms by (auto simp: remove_headers_def module_enabled_def set_mode_def Let_def split: if_splits option.splits)

lemma exclude_of_module_drop:
  assumes "exclude_of_module c enabled i b = Inr b'" "distinct (concat (bs_groups b))"
  shows "b' = b\<lparr>bs_groups := drop_unless i (c \<longrightarrow> (\<exists>m. tk_module (bs_gens b ! i) = Some m \<and> ns3_name m \<in> enabled)) (bs_groups b)\<rparr>"
  using assms by (auto simp: exclude_of_module_def module_enabled_def exclude_if_drop split: if_splits option.splits)

lemma filter_program_drop:
  assumes "distinct (concat (bs_groups b))"
  shows "filter_program version suffix enabled i b =
    b\<lparr>bs_programs := bs_programs b @ runnable_path version suffix enabled (bs_gens b ! i),
      bs_groups := drop_unless i (\<forall>ds. tk_deps (bs_gens b ! i) = Some ds \<longrightarrow> set ds \<subseteq> enabled) (bs_groups b)\<rparr>"
proof (cases "tk_deps (bs_gens b ! i)")
  case (Some ds)
  then show ?thesis using assms
    by (cases "set ds \<subseteq> enabled") (auto simp: filter_program_def runnable_path_def exclude_if_drop list_all_iff Let_def)
qed (simp add: filter_program_def runnable_path_def)

lemma filter_taskgen_spec:
  assumes "filter_taskgen version suffix tests enabled i b = Inr b'" "i < length (bs_gens b)" "distinct (concat (bs_groups b))"
  shows "b' = set_mode i (if headers_removed enabled (bs_gens b ! i) then ''remove'' else tk_mode (bs_gens b ! i))
    (b\<lparr>bs_programs := bs_programs b @ runnable_path version suffix enabled (bs_gens b ! i),
       bs_groups := drop_unless i (kept tests enabled (bs_gens b ! i)) (bs_groups b)\<rparr>)"
proof -
  let ?g = "bs_gens b ! i"
  let ?hm = "\<lambda>f. f \<in> set (tk_features ?g) \<and> (\<exists>m. tk_module ?g = Some m \<and> ns3_name m \<notin> enabled)"
  obtain b1 where b1: "remove_headers ''ns3moduleheader'' enabled i b = Inr b1" using assms(1) by (auto simp: filter_taskgen_def Let_def res_bind_eq_Inr)
  define b2 where "b2 = filter_program version suffix enabled i b1"
  define b3 where "b3 = exclude_if (tk_is_module ?g \<and> tk_name ?g \<notin> enabled) i b2"
  define b4 where "b4 = (case tk_tests_of ?g of None \<Rightarrow> b3 | Some m \<Rightarrow> exclude_if (\<not> tests \<or> m \<notin> enabled) i b3)"
  obtain b5 b6 b7 b8 where
      b5: "remove_headers ''ns3header'' enabled i b4 = Inr b5" and b6: "remove_headers ''ns3privateheader'' enabled i b5 = Inr b6"
    and b7: "(if ''ns3pcfile'' \<in> set (tk_features ?g)
        then (case tk_module ?g of None \<Rightarrow> Inl AttributeError | Some m \<Rightarrow> Inr (exclude_if (m \<notin> enabled) i b6)) else Inr b6) = Inr b7"
    and b8: "exclude_of_module (substr_in ''pybindgen'' (tk_name ?g)) enabled i b7 = Inr b8"
    and b9: "exclude_of_module (''pyext'' \<in> set (tk_features ?g)) enabled i b8 = Inr b'"
    using assms(1) b1 unfolding filter_taskgen_def Let_def res_bind_eq_Inr b2_def b3_def b4_def by auto
  define md1 where "md1 = (if ?hm ''ns3moduleheader'' then ''remove'' else tk_mode ?g)"
  have e1: "b1 = set_mode i md1 b" using remove_headers_mode [OF b1] by (simp add: md1_def)
  have g1: "bs_gens b1 ! i = ?g\<lparr>tk_mode := md1\<rparr>" using e1 assms(2) by simp
  let ?d2 = "drop_unless i (\<forall>ds. tk_deps ?g = Some ds \<longrightarrow> set ds \<subseteq> enabled) (bs_groups b)"
  have e2: "b2 = set_mode i md1 (b\<lparr>bs_programs := bs_programs b @ runnable_path version suffix enabled ?g, bs_groups := ?d2\<rparr>)"
    using assms(2,3) unfolding b2_def
    by (subst filter_program_drop) (simp_all add: e1)
  let ?P = "bs_programs b @ runnable_path version suffix enabled ?g"
  let ?st = "\<lambda>md k. set_mode i md (b\<lparr>bs_programs := ?P, bs_groups := drop_unless i k (bs_groups b)\<rparr>)"
  define k2 where "k2 \<longleftrightarrow> (\<forall>ds. tk_deps ?g = Some ds \<longrightarrow> set ds \<subseteq> enabled)"
  define k3 where "k3 \<longleftrightarrow> k2 \<and> (tk_is_module ?g \<longrightarrow> tk_name ?g \<in> enabled)"
  define k4 where "k4 \<longleftrightarrow> k3 \<and> (\<forall>m. tk_tests_of ?g = Some m \<longrightarrow> tests \<and> m \<in> enabled)"
  define k7 where "k7 \<longleftrightarrow> k4 \<and> (''ns3pcfile'' \<in> set (tk_features ?g) \<longrightarrow> (\<exists>m \<in> enabled. tk_module ?g = Some m))"
  define k8 where "k8 \<longleftrightarrow> k7 \<and> (substr_in ''pybindgen'' (tk_name ?g) \<longrightarrow> (\<exists>m. tk_module ?g = Some m \<and> ns3_name m \<in> enabled))"
  have dist: "distinct (concat (bs_groups (?st md k)))" for md k using assms(3) by simp
  have e3: "b3 = ?st md1 k3" unfolding b3_def e2 k2_def [symmetric] by (subst exclude_if_drop [OF dist]) (simp add: k3_def)
  have e4: "b4 = ?st md1 k4"
    unfolding b4_def e3 using exclude_if_drop [OF dist] by (cases "tk_tests_of ?g") (simp_all add: k4_def)
  define md5 where "md5 = (if ?hm ''ns3header'' then ''remove'' else md1)"
  have e5: "b5 = ?st md5 k4" using remove_headers_mode [OF b5 [unfolded e4]] assms(2) unfolding md5_def by (simp cong: if_cong)
  define md6 where "md6 = (if ?hm ''ns3privateheader'' then ''remove'' else md5)"
  have e6: "b6 = ?st md6 k4" using remove_headers_mode [OF b6 [unfolded e5]] assms(2) unfolding md6_def by (simp cong: if_cong)
  have e7: "b7 = ?st md6 k7"
    using b7 exclude_if_drop [OF dist] unfolding e6 by (cases "tk_module ?g") (auto simp: k7_def split: if_splits)
  have e8: "b8 = ?st md6 k8"
    using exclude_of_module_drop [OF b8 [unfolded e7] dist] assms(2) by (simp add: k8_def)
  have "b' = ?st md6 (k8 \<and> (''pyext'' \<in> set (tk_features ?g) \<longrightarrow> (\<exists>m. tk_module ?g = Some m \<and> ns3_name m \<in> enabled)))"
    using exclude_of_module_drop [OF b9 [unfolded e8] dist] assms(2) by simp
  moreover have "(k8 \<and> (''pyext'' \<in> set (tk_features ?g) \<longrightarrow> (\<exists>m. tk_module ?g = Some m \<and> ns3_name m \<in> enabled))) \<longleftrightarrow> kept tests enabled ?g"
    unfolding k8_def k7_def k4_def k3_def k2_def kept_def by blast
  moreover have "md6 = (if headers_removed enabled ?g then ''remove'' else tk_mode ?g)"
    unfolding md6_def md5_def md1_def headers_removed_def header_features_def by auto
  ultimately show ?thesis by simp
qed

lemma filter_taskgens_spec:
  assumes "filter_taskgens version suffix tests enabled is b = Inr b'" "distinct is" "\<forall>i \<in> set is. i < length (bs_gens b)"
    "distinct (concat (bs_groups b))"
  shows "bs_groups b' = map (filter (\<lambda>j. j \<notin> set is \<or> kept tests enabled (bs_gens b ! j))) (bs_groups b) \<and>
    bs_programs b' = bs_programs b @ concat (map (\<lambda>i. runnable_path version suffix enabled (bs_gens b ! i)) is) \<and>
    (\<forall>j. bs_gens b' ! j = (if j \<in> set is \<and> headers_removed enabled (bs_gens b ! j) then (bs_gens b ! j)\<lparr>tk_mode := ''remove''\<rparr> else bs_gens b ! j))"
  using assms
proof (induction "is" arbitrary: b)
  case (Cons i js)
  obtain b1 where b1: "filter_taskgen version suffix tests enabled i b = Inr b1" "filter_taskgens version suffix tests enabled js b1 = Inr b'"
    using Cons.prems(1) by (auto simp: res_bind_eq_Inr)
  have i: "i < length (bs_gens b)" "i \<notin> set js" using Cons.prems(2,3) by auto
  let ?md = "if headers_removed enabled (bs_gens b ! i) then ''remove'' else tk_mode (bs_gens b ! i)"
  note step = filter_taskgen_spec [OF b1(1) i(1) Cons.prems(4)]
  have len: "length (bs_gens b1) = length (bs_gens b)" by (simp add: step)
  have gi: "bs_gens b1 ! i = (bs_gens b ! i)\<lparr>tk_mode := ?md\<rparr>" using i(1) by (simp add: step)
  have gj: "bs_gens b1 ! j = bs_gens b ! j" if "j \<noteq> i" for j using that by (simp add: step)
  have groups: "bs_groups b1 = drop_unless i (kept tests enabled (bs_gens b ! i)) (bs_groups b)"
    and programs: "bs_programs b1 = bs_programs b @ runnable_path version suffix enabled (bs_gens b ! i)" by (simp_all add: step)
  have IH: "bs_groups b' = map (filter (\<lambda>j. j \<notin> set js \<or> kept tests enabled (bs_gens b1 ! j))) (bs_groups b1) \<and>
    bs_programs b' = bs_programs b1 @ concat (map (\<lambda>i. runnable_path version suffix enabled (bs_gens b1 ! i)) js) \<and>
    (\<forall>j. bs_gens b' ! j = (if j \<in> set js \<and> headers_removed enabled (bs_gens b1 ! j) then (bs_gens b1 ! j)\<lparr>tk_mode := ''remove''\<rparr> else bs_gens b1 ! j))"
    by (rule Cons.IH [OF b1(2)]) (use Cons.prems(2-4) len groups in auto)
  have "bs_groups b' = map (filter (\<lambda>j. j \<notin> set (i # js) \<or> kept tests enabled (bs_gens b ! j))) (bs_groups b)"
  proof -
    have "((j \<noteq> i \<or> kept tests enabled (bs_gens b ! i)) \<and> (j \<notin> set js \<or> kept tests enabled (bs_gens b1 ! j))) \<longleftrightarrow>
        (j \<notin> set (i # js) \<or> kept tests enabled (bs_gens b ! j))" for j
      using gj [of j] i(2) by (cases "j = i") auto
    then show ?thesis using conjunct1 [OF IH] unfolding groups drop_unless_def filter_groups_filter by simp
  qed
  moreover have "bs_programs b' = bs_programs b @ concat (map (\<lambda>i. runnable_path version suffix enabled (bs_gens b ! i)) (i # js))"
  proof -
    have eq: "map (\<lambda>i. runnable_path version suffix enabled (bs_gens b1 ! i)) js = map (\<lambda>i. runnable_path version suffix enabled (bs_gens b ! i)) js"
      by (rule map_cong [OF refl]) (use gj i(2) in metis)
    show ?thesis using conjunct1 [OF conjunct2 [OF IH]] unfolding programs eq by simp
  qed
  moreover have "bs_gens b' ! j = (if j \<in> set (i # js) \<and> headers_removed enabled (bs_gens b ! j) then (bs_gens b ! j)\<lparr>tk_mode := ''remove''\<rparr> else bs_gens b ! j)" for j
    using conjunct2 [OF conjunct2 [OF IH]] gi gj [of j] i(2) by (cases "j = i") simp_all
  ultimately show ?case by blast
qed simp

text \<open>The scripts that can be run; without an enabled module the names of the enabled ones are not bound.\<close>

fun runnable_scripts :: "string set option \<Rightarrow> (string \<times> string list) list \<Rightarrow> string list res" where
  "runnable_scripts enabled [] = Inr []"
| "runnable_scripts enabled ((script, deps) # rest) =
     (if deps = [] then res_bind (runnable_scripts enabled rest) (\<lambda>r. Inr (script # r))
      else (case enabled of
        None \<Rightarrow> Inl UnboundLocalError
      | Some es \<Rightarrow> if set deps \<subseteq> es then res_bind (runnable_scripts enabled rest) (\<lambda>r. Inr (script # r)) else runnable_scripts enabled rest))"

definition test_libraries :: "string set \<Rightarrow> (string \<times> string) list \<Rightarrow> string list" where
  "test_libraries enabled libs = map snd (filter (\<lambda>(m, _). m \<in> enabled) libs)"

text \<open>
  The part of \<open>build\<close> between the module directories and the bindings.  Examples and scratch programs have been
  added to the task generators by then.
\<close>

record build_config =
  bc_modules :: "string list"
  bc_contrib :: "string list"
  bc_enabled :: "string list"
  bc_enabled_contrib :: "string list"
  bc_tests :: bool
  bc_test_libraries :: "(string \<times> string) list"
  bc_scripts :: "(string \<times> string list) list"
  bc_version :: string
  bc_suffix :: string

record built =
  bt_state :: build_state
  bt_enabled :: "string list"
  bt_enabled_contrib :: "string list"
  bt_test_libraries :: "string list"
  bt_scripts :: "string list"

definition build_modules :: "uses \<Rightarrow> build_config \<Rightarrow> build_state \<Rightarrow> built res" where
  "build_modules uses c b =
     (if bc_enabled c = [] \<and> bc_enabled_contrib c = [] then
        res_bind (runnable_scripts None (bc_scripts c)) (\<lambda>scripts.
          Inr \<lparr>bt_state = b, bt_enabled = [], bt_enabled_contrib = [], bt_test_libraries = [], bt_scripts = scripts\<rparr>)
      else
        res_bind (enable_closure uses (bc_modules c) (bc_contrib c) (bc_enabled c) (bc_enabled_contrib c)) (\<lambda>(ms, cs).
          let enabled = set ms \<union> set cs in
          res_bind (filter_taskgens (bc_version c) (bc_suffix c) (bc_tests c) enabled (concat (bs_groups b)) b) (\<lambda>b'.
          res_bind (runnable_scripts (Some enabled) (bc_scripts c)) (\<lambda>scripts.
            Inr \<lparr>bt_state = b', bt_enabled = ms, bt_enabled_contrib = cs,
                 bt_test_libraries = (if bc_tests c then test_libraries enabled (bc_test_libraries c) else []), bt_scripts = scripts\<rparr>))))"

lemma build_without_modules_stops:
  "bc_enabled c = [] \<Longrightarrow> bc_enabled_contrib c = [] \<Longrightarrow> bc_scripts c = (script, d # ds) # rest \<Longrightarrow> build_modules uses c b = Inl UnboundLocalError"
  by (simp add: build_modules_def)

lemma build_modules_spec:
  assumes "build_modules uses c b = Inr r" "bc_enabled c \<noteq> [] \<or> bc_enabled_contrib c \<noteq> []"
    "distinct (concat (bs_groups b))" "\<forall>i \<in> set (concat (bs_groups b)). i < length (bs_gens b)"
  defines "enabled \<equiv> (use_rel uses)\<^sup>* `` (set (bc_enabled c) \<union> set (bc_enabled_contrib c))"
  shows "set (bt_enabled r) \<union> set (bt_enabled_contrib r) = enabled \<and>
    bs_groups (bt_state r) = map (filter (\<lambda>i. kept (bc_tests c) enabled (bs_gens b ! i))) (bs_groups b) \<and>
    bs_programs (bt_state r) = bs_programs b @
      concat (map (\<lambda>i. runnable_path (bc_version c) (bc_suffix c) enabled (bs_gens b ! i)) (concat (bs_groups b))) \<and>
    (\<forall>i \<in> set (concat (bs_groups (bt_state r))). \<forall>ds. tk_deps (bs_gens b ! i) = Some ds \<longrightarrow> (use_rel uses)\<^sup>* `` set ds \<subseteq> enabled)"
proof -
  obtain ms cs b' where parts: "enable_closure uses (bc_modules c) (bc_contrib c) (bc_enabled c) (bc_enabled_contrib c) = Inr (ms, cs)"
      "filter_taskgens (bc_version c) (bc_suffix c) (bc_tests c) (set ms \<union> set cs) (concat (bs_groups b)) b = Inr b'"
      "bt_state r = b'" "bt_enabled r = ms" "bt_enabled_contrib r = cs"
    using assms(1,2) by (auto simp: build_modules_def Let_def res_bind_eq_Inr split: if_splits)
  have en: "set ms \<union> set cs = enabled" using conjunct1 [OF enable_closure_reached [OF parts(1)]] by (simp add: enabled_def)
  note spec = filter_taskgens_spec [OF parts(2) assms(3,4,3), unfolded en]
  have groups: "bs_groups b' = map (filter (\<lambda>i. kept (bc_tests c) enabled (bs_gens b ! i))) (bs_groups b)"
    unfolding conjunct1 [OF spec] by (auto intro!: filter_cong)
  have "(use_rel uses)\<^sup>* `` set ds \<subseteq> enabled" if "i \<in> set (concat (bs_groups b'))" "tk_deps (bs_gens b ! i) = Some ds" for i ds
  proof -
    have "kept (bc_tests c) enabled (bs_gens b ! i)" using that(1) groups by auto
    then have "set ds \<subseteq> enabled" using that(2) by (simp add: kept_def)
    then show ?thesis unfolding enabled_def by (auto intro: rtrancl_trans)
  qed
  then show ?thesis using en groups conjunct1 [OF conjunct2 [OF spec]] by (simp add: parts(3-5))
qed

text \<open>C27: what a build leaves.  The task generators left in each group are, in their order, those that are for enabled
  modules only; the programs listed are those whose modules are all enabled; and the enabled modules
  are closed: whatever a module of a program that is left uses, directly or not, is enabled too, so
  its task generator is not left out.
\<close>

theorem build_leaves_enabled:
  assumes "build_modules uses c b = Inr r" "bc_enabled c \<noteq> [] \<or> bc_enabled_contrib c \<noteq> []"
    "distinct (concat (bs_groups b))" "\<forall>i \<in> set (concat (bs_groups b)). i < length (bs_gens b)"
  defines "enabled \<equiv> (use_rel uses)\<^sup>* `` (set (bc_enabled c) \<union> set (bc_enabled_contrib c))"
  shows "set (bt_enabled r) \<union> set (bt_enabled_contrib r) = enabled \<and>
    bs_groups (bt_state r) = map (filter (\<lambda>i. kept (bc_tests c) enabled (bs_gens b ! i))) (bs_groups b) \<and>
    bs_programs (bt_state r) = bs_programs b @
      concat (map (\<lambda>i. runnable_path (bc_version c) (bc_suffix c) enabled (bs_gens b ! i)) (concat (bs_groups b))) \<and>
    (\<forall>i \<in> set (concat (bs_groups (bt_state r))). \<forall>ds. tk_deps (bs_gens b ! i) = Some ds \<longrightarrow> (use_rel uses)\<^sup>* `` set ds \<subseteq> enabled)"
  unfolding enabled_def by (rule build_modules_spec [OF assms(1-4)])

definition demo_gens :: "taskgen list" where
  "demo_gens =
     map (\<lambda>(n, deps, m). \<lparr>tk_name = n, tk_features = [], tk_module = None, tk_deps = deps, tk_is_module = m, tk_tests_of = None,
         tk_mode = ''install'', tk_dir = ''build''\<rparr>)
       [(''ns3-internet'', None, True), (''ns3-wifi'', None, True), (''ns3-core'', None, True),
        (''first'', Some [''ns3-internet''], False), (''wifi-ap'', Some [''ns3-internet'', ''ns3-wifi''], False)]"

definition demo_build :: build_config where
  "demo_build = \<lparr>bc_modules = [''ns3-core'', ''ns3-network'', ''ns3-internet'', ''ns3-wifi''], bc_contrib = [''ns3-bridge''], bc_enabled = [''ns3-internet''],
     bc_enabled_contrib = [], bc_tests = True, bc_test_libraries = [], bc_scripts = [], bc_version = ''3.33'', bc_suffix = ''-debug''\<rparr>"

theorem build_leaves_enabled_witness:
  "\<exists>r. build_modules demo_uses demo_build \<lparr>bs_gens = demo_gens, bs_groups = [[0, 1, 2], [3, 4]], bs_programs = []\<rparr> = Inr r \<and>
    bs_groups (bt_state r) = [[0, 2], [3]] \<and> bs_programs (bt_state r) = [''build/ns3.33-first-debug''] \<and>
    set (bt_enabled r) \<union> set (bt_enabled_contrib r) =
      (use_rel demo_uses)\<^sup>* `` (set (bc_enabled demo_build) \<union> set (bc_enabled_contrib demo_build))"
proof -
  let ?b = "\<lparr>bs_gens = demo_gens, bs_groups = [[0, 1, 2], [3, 4]], bs_programs = []\<rparr>"
  have "case build_modules demo_uses demo_build ?b of Inl _ \<Rightarrow> False
      | Inr r \<Rightarrow> bs_groups (bt_state r) = [[0, 2], [3]] \<and> bs_programs (bt_state r) = [''build/ns3.33-first-debug'']"
    by code_simp
  then obtain r where r: "build_modules demo_uses demo_build ?b = Inr r" "bs_groups (bt_state r) = [[0, 2], [3]]"
      "bs_programs (bt_state r) = [''build/ns3.33-first-debug'']"
    by (auto split: sum.splits)
  have "bc_enabled demo_build \<noteq> [] \<or> bc_enabled_contrib demo_build \<noteq> []" "distinct (concat (bs_groups ?b))"
      "\<forall>i \<in> set (concat (bs_groups ?b)). i < length (bs_gens ?b)"
    by (auto simp: demo_build_def demo_gens_def)
  from build_leaves_enabled [OF r(1) this] r show ?thesis by blast
qed

section \<open>Configuration\<close>

text \<open>
  With all modules enabled, removing one that is not built removes it from the list of all modules,
  which is the same list; a module named twice is enabled twice, and removed once.
\<close>

lemma not_built_forgotten:
  assumes "configure_modules static darwin [n] None [''all_modules''] mods contrib = Inr c" "\<not> (static \<and> darwin)" "distinct mods" "ns3_name n \<in> set mods"
  shows "ns3_name n \<notin> set (ch_modules c)"
  using assms by (auto simp: configure_modules_def choose_modules_def Let_def split: if_splits)

lemma named_twice_stays:
  "configure_modules False False [''wifi''] (Some ''wifi,ns3-wifi'') [] [''ns3-core'', ''ns3-wifi''] [] =
     Inr \<lparr>ch_modules = [''ns3-core'', ''ns3-wifi''], ch_contrib = [], ch_enabled = [''ns3-wifi''], ch_enabled_contrib = [], ch_shared = False\<rparr>"
  by code_simp

text \<open>A name that is of no module is dropped without a message.\<close>

lemma unknown_name_dropped:
  "ns3_name m \<notin> set (ch_modules c) \<union> set (ch_contrib c) \<Longrightarrow> m \<notin> set (ch_modules c) \<union> set (ch_contrib c) \<Longrightarrow> pick_module m c = c"
  by (simp add: pick_module_def)

section \<open>The build profile\<close>

text \<open>\<open>get_build_profile\<close> looks for the profile in the options of the lock file, split at commas and colons.\<close>

fun profile_in :: "string list \<Rightarrow> string option res" where
  "profile_in [] = Inr None"
| "profile_in (x # xs) =
     (case split_on CHR '':'' x of
        [k, v] \<Rightarrow> if lstrip k = [CHR 0x27] @ ''build_profile'' @ [CHR 0x27] then Inr (Some (filter (\<lambda>c. c \<noteq> CHR 0x27) (lstrip v))) else profile_in xs
      | _ \<Rightarrow> Inl ValueError)"

fun profile_of_lines :: "string list \<Rightarrow> string res" where
  "profile_of_lines [] = Inr ''not found''"
| "profile_of_lines (l # ls) =
     (if startswith l ''options ='' then
        (case profile_in (split_on CHR '','' (last (split_once CHR ''='' l))) of
           Inl e \<Rightarrow> Inl e
         | Inr (Some v) \<Rightarrow> Inr v
         | Inr None \<Rightarrow> profile_of_lines ls)
      else profile_of_lines ls)"

text \<open>The lock file as waf prints it: a dictionary of names and strings.\<close>

definition quoted :: "string \<Rightarrow> string" where
  "quoted s = [CHR 0x27] @ s @ [CHR 0x27]"

definition printed_option :: "string \<times> string \<Rightarrow> string" where
  "printed_option kv = quoted (fst kv) @ '': '' @ quoted (snd kv)"

definition printed_options :: "(string \<times> string) list \<Rightarrow> string" where
  "printed_options d = ''options = {'' @ join '', '' (map printed_option d) @ ''}'' @ nl"

definition plain_text :: "string \<Rightarrow> bool" where
  "plain_text s \<longleftrightarrow> s \<noteq> [] \<and> list_all (\<lambda>c. c \<notin> {CHR '','', CHR '':'', CHR ''='', CHR 0x27}) s"

lemma split_on_none: "c \<notin> set s \<Longrightarrow> split_on c s = [s]"
  by (induction s) auto

lemma split_on_middle: "c \<notin> set a \<Longrightarrow> split_on c (a @ c # b) = a # split_on c b"
  by (induction a) auto

lemma plain_not: "plain_text s \<Longrightarrow> c \<in> {CHR '','', CHR '':'', CHR ''='', CHR 0x27} \<Longrightarrow> c \<notin> set s"
  by (auto simp: plain_text_def list_all_iff)

definition plain_option :: "string \<times> string \<Rightarrow> bool" where
  "plain_option kv \<longleftrightarrow> plain_text (fst kv) \<and> plain_text (snd kv)"

text \<open>A piece of the text between two commas: \<open>w\<close> comes before the option and \<open>z\<close> after it.\<close>

lemma option_piece:
  assumes "plain_option kv" "CHR '':'' \<notin> set w" "CHR '':'' \<notin> set z"
  shows "split_on CHR '':'' (w @ printed_option kv @ z) = [w @ quoted (fst kv), '' '' @ quoted (snd kv) @ z]"
proof -
  have "CHR '':'' \<notin> set (w @ quoted (fst kv))" "CHR '':'' \<notin> set ('' '' @ quoted (snd kv) @ z)"
    using assms plain_not [of "fst kv" "CHR '':''"] plain_not [of "snd kv" "CHR '':''"] by (auto simp: plain_option_def quoted_def)
  from split_on_middle [OF this(1), of "'' '' @ quoted (snd kv) @ z"] split_on_none [OF this(2)]
  show ?thesis by (simp add: printed_option_def)
qed

lemma option_no_comma: "plain_option kv \<Longrightarrow> CHR '','' \<notin> set (printed_option kv)"
  using plain_not [of "fst kv" "CHR '',''"] plain_not [of "snd kv" "CHR '',''"] by (auto simp: plain_option_def printed_option_def quoted_def)

lemma split_options:
  assumes "CHR '','' \<notin> set w" "CHR '','' \<notin> set x"
  shows "split_on CHR '','' (w @ join '', '' (x # y # ys) @ z) = (w @ x) # split_on CHR '','' ('' '' @ join '', '' (y # ys) @ z)"
  using split_on_middle [of "CHR '',''" "w @ x" "'' '' @ join '', '' (y # ys) @ z"] assms by simp

lemma lstrip_quoted: "lstrip ('' '' @ quoted s @ z) = quoted s @ z" "lstrip ('' {'' @ quoted s) = ''{'' @ quoted s"
proof -
  have "is_space CHR '' ''" "\<not> is_space CHR 0x27" "\<not> is_space CHR ''{''" by code_simp+
  then show "lstrip ('' '' @ quoted s @ z) = quoted s @ z" "lstrip ('' {'' @ quoted s) = ''{'' @ quoted s"
    by (simp_all add: lstrip_def quoted_def)
qed

lemma quoted_eq: "quoted s = quoted t \<longleftrightarrow> s = t"
  by (simp add: quoted_def)

lemma profile_in_piece:
  assumes "plain_option kv" "CHR '':'' \<notin> set w" "CHR '':'' \<notin> set z"
  shows "profile_in ((w @ printed_option kv @ z) # xs) =
    (if lstrip (w @ quoted (fst kv)) = quoted ''build_profile'' then Inr (Some (filter (\<lambda>c. c \<noteq> CHR 0x27) (lstrip ('' '' @ quoted (snd kv) @ z))))
     else profile_in xs)"
  unfolding profile_in.simps option_piece [OF assms] list.case by (simp only: quoted_def)

lemma profile_in_skip:
  assumes "plain_option kv" "fst kv \<noteq> ''build_profile''"
  shows "profile_in (('' '' @ printed_option kv) # xs) = profile_in xs"
  using profile_in_piece [OF assms(1), of "'' ''" "[]" xs] lstrip_quoted(1) [of "fst kv" "[]"] assms(2)
  by (simp only: quoted_eq append_Nil2) simp

lemma profile_in_skips:
  assumes "list_all plain_option pre" "''build_profile'' \<notin> fst ` set pre"
  shows "profile_in (split_on CHR '','' ('' '' @ join '', '' (map printed_option pre @ y # ys) @ z)) =
    profile_in (split_on CHR '','' ('' '' @ join '', '' (y # ys) @ z))"
  using assms
proof (induction pre)
  case (Cons kv pre)
  obtain q qs where q: "map printed_option pre @ y # ys = q # qs" by (cases "map printed_option pre @ y # ys") auto
  have plain: "plain_option kv" "fst kv \<noteq> ''build_profile''" using Cons.prems by auto
  have "split_on CHR '','' ('' '' @ join '', '' (map printed_option (kv # pre) @ y # ys) @ z) =
      ('' '' @ printed_option kv) # split_on CHR '','' ('' '' @ join '', '' (map printed_option pre @ y # ys) @ z)"
  proof -
    have e: "map printed_option (kv # pre) @ y # ys = printed_option kv # q # qs" by (simp add: q)
    show ?thesis unfolding e q by (rule split_options) (simp_all add: option_no_comma [OF plain(1)])
  qed
  then show ?case using Cons by (simp only: profile_in_skip [OF plain]) simp
qed simp

lemma no_colons: "CHR '':'' \<notin> set '' ''" "CHR '':'' \<notin> set '' {''" "CHR '':'' \<notin> set (''}'' @ nl)" "CHR '','' \<notin> set '' ''" "CHR '','' \<notin> set '' {''"
  by simp_all

lemma profile_of_line:
  "startswith l ''options ='' \<Longrightarrow> split_once CHR ''='' l = [a, t] \<Longrightarrow> profile_of_lines [l] =
    (case profile_in (split_on CHR '','' t) of Inl e \<Rightarrow> Inl e | Inr (Some v) \<Rightarrow> Inr v | Inr None \<Rightarrow> Inr ''not found'')"
  by (simp del: split_once.simps split: sum.split option.split)

text \<open>The options of a lock file up to the first comma.\<close>

lemma profile_of_options:
  assumes "plain_option o1"
  shows "profile_of_lines [printed_options (o1 # o2 # os)] =
    (case profile_in (split_on CHR '','' ('' '' @ join '', '' (map printed_option (o2 # os)) @ ''}'' @ nl)) of
       Inl e \<Rightarrow> Inl e | Inr (Some v) \<Rightarrow> Inr v | Inr None \<Rightarrow> Inr ''not found'')"
proof -
  let ?t = "'' {'' @ join '', '' (map printed_option (o1 # o2 # os)) @ ''}'' @ nl"
  have line: "printed_options (o1 # o2 # os) = ''options '' @ CHR ''='' # ?t" by (simp add: printed_options_def)
  have "split_once CHR ''='' (printed_options (o1 # o2 # os)) = [''options '', ?t]" unfolding line by simp
  moreover have "startswith (printed_options (o1 # o2 # os)) ''options =''" unfolding line by (simp add: startswith_def)
  moreover have "split_on CHR '','' ?t = ('' {'' @ printed_option o1) # split_on CHR '','' ('' '' @ join '', '' (map printed_option (o2 # os)) @ ''}'' @ nl)"
    unfolding list.map by (rule split_options) (simp_all add: option_no_comma [OF assms])
  moreover have "profile_in (('' {'' @ printed_option o1) # xs) = profile_in xs" for xs
  proof -
    have "lstrip ('' {'' @ quoted (fst o1)) \<noteq> quoted ''build_profile''" unfolding lstrip_quoted(2) by (simp add: quoted_def)
    then show ?thesis using profile_in_piece [OF assms no_colons(2), of "[]" xs] by (simp only: append_Nil2) simp
  qed
  ultimately show ?thesis using profile_of_line [of "printed_options (o1 # o2 # os)" "''options ''" ?t] by (simp only:)
qed

text \<open>The build profile is read back from the lock file, where its options have neither commas nor colons, quotes or
  equality signs and the profile is not the first or last of them.
\<close>

theorem build_profile_read:
  assumes "list_all plain_option (o1 # pre @ (''build_profile'', v) # o2 # post)" "''build_profile'' \<notin> fst ` set pre"
  shows "profile_of_lines [printed_options (o1 # pre @ (''build_profile'', v) # o2 # post)] = Inr v"
proof -
  let ?bp = "(''build_profile'', v)"
  have plain: "plain_option o1" "list_all plain_option pre" "plain_option ?bp" using assms(1) by simp_all
  have v: "CHR 0x27 \<notin> set v" using plain(3) plain_not [of v "CHR 0x27"] by (simp add: plain_option_def)
  obtain q qs where q: "pre @ ?bp # o2 # post = q # qs" by (cases "pre @ ?bp # o2 # post") auto
  let ?rest = "split_on CHR '','' ('' '' @ join '', '' (map printed_option (o2 # post)) @ ''}'' @ nl)"
  have "profile_in (split_on CHR '','' ('' '' @ join '', '' (map printed_option (q # qs)) @ ''}'' @ nl)) =
      profile_in (split_on CHR '','' ('' '' @ join '', '' (printed_option ?bp # map printed_option (o2 # post)) @ ''}'' @ nl))"
    unfolding q [symmetric] map_append list.map(2) by (rule profile_in_skips [OF plain(2) assms(2)])
  also have "\<dots> = profile_in (('' '' @ printed_option ?bp) # ?rest)"
    unfolding list.map by (rule arg_cong [of _ _ profile_in], rule split_options) (simp_all add: option_no_comma [OF plain(3)])
  also have "\<dots> = Inr (Some (filter (\<lambda>c. c \<noteq> CHR 0x27) (lstrip ('' '' @ quoted v @ []))))"
    using profile_in_piece [OF plain(3) no_colons(1), of "[]" ?rest] lstrip_quoted(1) [of "''build_profile''" "[]"] by (simp only: append_Nil2 fst_conv snd_conv) simp
  also have "\<dots> = Inr (Some v)"
  proof -
    have "filter (\<lambda>c. c \<noteq> CHR 0x27) v = v" using v by (auto simp: filter_id_conv)
    then show ?thesis unfolding lstrip_quoted(1) by (simp add: quoted_def)
  qed
  finally show ?thesis using profile_of_options [OF plain(1), of q qs] unfolding q by (simp only: sum.case option.case)
qed

theorem build_profile_read_witness:
  "profile_of_lines [printed_options [(''colors'', ''auto''), (''jobs'', ''4''), (''build_profile'', ''debug''), (''out'', ''build'')]] = Inr ''debug''"
proof -
  have "list_all plain_option ((''colors'', ''auto'') # [(''jobs'', ''4'')] @ (''build_profile'', ''debug'') # (''out'', ''build'') # [])" by code_simp
  from build_profile_read [OF this] show ?thesis by simp
qed

text \<open>An option of several modules before the profile has a comma, and reading the file raises.\<close>

lemma comma_hides_profile:
  "profile_of_lines [printed_options [(''colors'', ''auto''), (''enable_modules'', ''core,wifi''), (''build_profile'', ''debug''), (''out'', ''build'')]] = Inl ValueError"
  by code_simp

lemma last_profile_keeps_brace:
  "profile_of_lines [printed_options [(''colors'', ''auto''), (''build_profile'', ''debug'')]] = Inr (''debug}'' @ nl)"
  by code_simp

end
