(* ===== verification/Binding_Scan.thy ===== *)
theory Binding_Scan
  imports Topsort Module_Templates
begin

text \<open>
  \<^verbatim>\<open>bindings/python/ns3modulescan.py\<close> and \<^verbatim>\<open>ns3modulescan-modular.py\<close>, which scan the headers for the
  definitions to wrap: the path of a header within ns3, the annotations of a definition, the
  sections of the generated code and the list of callback classes.  The parsers pygccxml and
  pybindgen are parameters; of a definition the model has what the scripts look at.
\<close>

section \<open>Paths of headers\<close>

text \<open>\<open>os.path.split\<close>: the slashes at the end of the head are removed, unless it has nothing else.\<close>

definition split_path :: "string \<Rightarrow> string \<times> string" where
  "split_path p =
     (let head = rev (dropWhile (\<lambda>c. c \<noteq> CHR ''/'') (rev p)) in
      (if list_all (\<lambda>c. c = CHR ''/'') head then head else rev (dropWhile (\<lambda>c. c = CHR ''/'') (rev head)), basename p))"

definition join_paths :: "string list \<Rightarrow> string res" where
  "join_paths l = (case l of [] \<Rightarrow> Inl TypeError | x # xs \<Rightarrow> Inr (foldl path_join x xs))"

text \<open>
  \<open>get_ns3_relative_path\<close> of the first script does not end on an absolute path outside of ns3, whose
  last head is the root for ever; the one of the second raises there.
\<close>

partial_function (option) rel_loop :: "string \<Rightarrow> string list \<Rightarrow> string res option" where
  "rel_loop head l =
     (if head = [] then Some (Inl AssertionError)
      else (case split_path head of (h, tail) \<Rightarrow>
        if tail = ''ns3'' then Some (join_paths l) else rel_loop h (tail # l)))"

definition get_ns3_relative_path :: "string \<Rightarrow> string res option" where
  "get_ns3_relative_path path = rel_loop path []"

lemma split_path_parts:
  assumes "split_path p = (h, tail)"
  obtains w where "p = h @ w @ tail" "list_all (\<lambda>c. c = CHR ''/'') w" "w = [] \<longrightarrow> list_all (\<lambda>c. c = CHR ''/'') h" "h = [] \<longrightarrow> w = []" "tail = basename p"
proof -
  let ?head = "rev (dropWhile (\<lambda>c. c \<noteq> CHR ''/'') (rev p))" and ?w = "rev (takeWhile (\<lambda>c. c = CHR ''/'') (dropWhile (\<lambda>c. c \<noteq> CHR ''/'') (rev p)))"
  have p: "p = ?head @ basename p"
    unfolding basename_def rev_append [symmetric] takeWhile_dropWhile_id by simp
  have head: "?head = rev (dropWhile (\<lambda>c. c = CHR ''/'') (rev ?head)) @ ?w"
    unfolding rev_rev_ident rev_append [symmetric] takeWhile_dropWhile_id ..
  have w: "list_all (\<lambda>c. c = CHR ''/'') ?w" by (auto simp: list_all_iff dest: set_takeWhileD)
  show thesis
  proof (cases "list_all (\<lambda>c. c = CHR ''/'') ?head")
    case True
    then have "h = ?head" "tail = basename p" using assms by (simp_all add: split_path_def)
    then show thesis using that [of "[]"] p True by simp
  next
    case False
    then have h: "h = rev (dropWhile (\<lambda>c. c = CHR ''/'') (rev ?head))" "tail = basename p"
      using assms by (simp_all add: split_path_def)
    have "dropWhile (\<lambda>c. c \<noteq> CHR ''/'') (rev p) \<noteq> []"
      using False by (metis list.pred_inject(1) rev.simps(1))
    then have ne: "?w \<noteq> []" using hd_dropWhile [of "\<lambda>c. c \<noteq> CHR ''/''" "rev p"] by (cases "dropWhile (\<lambda>c. c \<noteq> CHR ''/'') (rev p)") auto
    have "h \<noteq> []" using False by (auto simp: h(1) dropWhile_eq_Nil_conv list_all_iff)
    moreover have "p = h @ ?w @ tail" unfolding append_assoc [symmetric] h head [symmetric] by (rule p)
    ultimately show thesis using that w ne h(2) by blast
  qed
qed

lemma split_path_shorter:
  assumes "split_path p = (h, tail)" "h \<noteq> p"
  shows "length h < length p"
proof -
  obtain w where w: "p = h @ w @ tail" using split_path_parts [OF assms(1)] by metis
  then have "w @ tail \<noteq> []" using assms(2) by auto
  then show ?thesis by (subst w) (auto simp: length_greater_0_conv [symmetric] simp del: length_greater_0_conv)
qed

function mod_loop :: "string \<Rightarrow> string list \<Rightarrow> string res" where
  "mod_loop head l =
     (if head = [] then Inl AssertionError
      else (case split_path head of (h, tail) \<Rightarrow>
        if h = head then Inl ValueError
        else if tail = ''ns3'' then join_paths l else mod_loop h (tail # l)))"
  by auto
termination
  by (relation "measure (\<lambda>(head, l). length head)") (auto dest: split_path_shorter [OF sym])

declare mod_loop.simps [simp del]

definition get_ns3_relative_path_modular :: "string \<Rightarrow> string option res" where
  "get_ns3_relative_path_modular path =
     (if path = [] then Inr None else res_bind (mod_loop path []) (\<lambda>h. Inr (Some h)))"

section \<open>The two versions\<close>

lemma split_path_fixed: "split_path p = (p, tail) \<Longrightarrow> tail = []"
proof -
  assume "split_path p = (p, tail)"
  then obtain w where "p = p @ w @ tail" using split_path_parts by metis
  then show ?thesis by (metis append_Nil2 append_is_Nil_conv same_append_eq)
qed

lemma rel_loop_diverges:
  assumes "split_path p = (p, tail)" "p \<noteq> []"
  shows "rel_loop p l = None"
proof -
  have "q \<noteq> p" if "rel_loop q l = Some r" for q l r
  proof (rule rel_loop.raw_induct [where P = "\<lambda>q l r. q \<noteq> p", OF _ that])
    fix f q l r
    assume IH: "\<And>q l r. f q l = Some r \<Longrightarrow> q \<noteq> p"
      and "(if q = [] then Some (Inl AssertionError)
        else case split_path q of (h, tail) \<Rightarrow> if tail = ''ns3'' then Some (join_paths l) else f h (tail # l)) = Some r"
    then show "q \<noteq> p" using assms split_path_fixed [OF assms(1)] by (auto dest: IH split: if_splits)
  qed
  then show ?thesis by (cases "rel_loop p l") auto
qed

lemma mod_loop_agrees:
  "mod_loop head l = (case rel_loop head l of None \<Rightarrow> Inl ValueError | Some r \<Rightarrow> r)"
proof (induction head l rule: mod_loop.induct)
  case (1 head l)
  obtain h tail where s: "split_path head = (h, tail)" by fastforce
  show ?case
  proof (cases "head \<noteq> [] \<and> h = head")
    case True
    then show ?thesis using rel_loop_diverges [of head tail] s by (subst mod_loop.simps) simp
  next
    case False
    then show ?thesis using 1 s by (subst mod_loop.simps, subst rel_loop.simps) auto
  qed
qed

text \<open>For every path that is not empty the second version returns or raises what the first does, and
  raises \<open>ValueError\<close> where the first never returns.
\<close>

theorem relative_paths_agree:
  assumes "path \<noteq> []"
  shows "get_ns3_relative_path_modular path = (case get_ns3_relative_path path of
      None \<Rightarrow> Inl ValueError | Some (Inl e) \<Rightarrow> Inl e | Some (Inr h) \<Rightarrow> Inr (Some h))"
  using assms
  by (auto simp: get_ns3_relative_path_modular_def get_ns3_relative_path_def mod_loop_agrees split: option.splits sum.splits)

section \<open>What the path of a header is\<close>

definition path_word :: "string \<Rightarrow> bool" where
  "path_word c \<longleftrightarrow> c \<noteq> [] \<and> CHR ''/'' \<notin> set c \<and> c \<noteq> ''ns3''"

lemma basename_append: "CHR ''/'' \<notin> set c \<Longrightarrow> basename (b @ CHR ''/'' # c) = c"
  by (auto simp: basename_def takeWhile_append)

lemma split_path_word:
  assumes "b \<noteq> []" "last b \<noteq> CHR ''/''" "CHR ''/'' \<notin> set c"
  shows "split_path (b @ CHR ''/'' # c) = (b, c)"
proof -
  obtain xs x where b: "b = xs @ [x]" "x \<noteq> CHR ''/''" using assms(1,2) by (cases b rule: rev_cases) auto
  have "dropWhile (\<lambda>c. c \<noteq> CHR ''/'') (rev c @ CHR ''/'' # rev b) = CHR ''/'' # rev b"
    using assms(3) by (auto simp: dropWhile_append)
  then show ?thesis using b basename_append [OF assms(3), of b] by (simp add: split_path_def)
qed

lemma rel_loop_words:
  assumes "b \<noteq> []" "last b \<noteq> CHR ''/''" "list_all path_word cs"
  shows "rel_loop (b @ concat (map ((#) CHR ''/'') cs)) l = rel_loop b (cs @ l)"
  using assms(3)
proof (induction cs arbitrary: l rule: rev_induct)
  case (snoc c cs)
  let ?b = "b @ concat (map ((#) CHR ''/'') cs)"
  have "?b \<noteq> []" "last ?b \<noteq> CHR ''/''"
    using assms(1,2) snoc.prems by (cases cs rule: rev_cases; auto simp: path_word_def; metis last_in_set)+
  then have "split_path (?b @ CHR ''/'' # c) = (?b, c)" using snoc.prems by (intro split_path_word) (auto simp: path_word_def)
  then have "rel_loop (?b @ CHR ''/'' # c) l = rel_loop ?b (c # l)"
    using snoc.prems by (subst rel_loop.simps) (auto simp: path_word_def)
  then show ?case using snoc by simp
qed simp

lemma path_join_words:
  assumes "x \<noteq> []" "last x \<noteq> CHR ''/''" "path_word y"
  shows "path_join x y = x @ CHR ''/'' # y"
proof -
  have "endswith x ''/'' = (last x = CHR ''/'')" using assms(1) by (cases x rule: rev_cases) (auto simp: endswith_def startswith_def)
  then show ?thesis using assms by (cases y) (auto simp: path_join_def startswith_def path_word_def)
qed

lemma foldl_path_join:
  "list_all path_word ys \<Longrightarrow> x \<noteq> [] \<Longrightarrow> last x \<noteq> CHR ''/'' \<Longrightarrow> foldl path_join x ys = x @ concat (map ((#) CHR ''/'') ys)"
proof (induction ys arbitrary: x)
  case (Cons y ys)
  then have "last y \<noteq> CHR ''/''" "y \<noteq> []" by (auto simp: path_word_def dest: last_in_set)
  then show ?case using Cons by (simp add: path_join_words)
qed simp

lemma join_slash: "join ''/'' (x # ys) = x @ concat (map ((#) CHR ''/'') ys)"
  by (induction ys arbitrary: x) auto

lemma join_paths_words: "cs \<noteq> [] \<Longrightarrow> list_all path_word cs \<Longrightarrow> join_paths cs = Inr (join ''/'' cs)"
  by (cases cs) (auto simp: join_paths_def join_slash path_word_def intro!: foldl_path_join dest: last_in_set)

text \<open>Both versions give a header of ns3 the path below the last directory of that name.\<close>

lemma header_path:
  assumes "pre = [] \<or> last pre = CHR ''/''" "cs \<noteq> []" "list_all path_word cs"
  shows "get_ns3_relative_path (pre @ ''ns3/'' @ join ''/'' cs) = Some (Inr (join ''/'' cs))"
proof -
  have b: "basename (pre @ ''ns3'') = ''ns3''"
    using assms(1) by (cases pre rule: rev_cases) (auto simp: basename_def)
  have "''/'' @ join ''/'' cs = concat (map ((#) CHR ''/'') cs)"
    using assms(2) by (cases cs) (simp_all add: join_slash)
  then have "rel_loop (pre @ ''ns3/'' @ join ''/'' cs) [] = rel_loop (pre @ ''ns3'') cs"
    using rel_loop_words [of "pre @ ''ns3''" cs "[]"] assms(3) by simp
  also have "\<dots> = Some (join_paths cs)"
    by (subst rel_loop.simps) (simp add: split_path_def Let_def b)
  finally show ?thesis using join_paths_words assms(2,3) by (simp add: get_ns3_relative_path_def)
qed

theorem relative_paths_agree_witness:
  "get_ns3_relative_path_modular ''/b/ns3/core/node.h'' = Inr (Some ''core/node.h'')"
proof -
  have "get_ns3_relative_path ''/b/ns3/core/node.h'' = Some (Inr ''core/node.h'')" 
    using header_path [of "''/b/''" "[''core'', ''node.h'']"] by (simp add: path_word_def)
  then show ?thesis using relative_paths_agree [of "''/b/ns3/core/node.h''"] by simp
qed

lemma split_on_append: "split_on c (a @ c # b) = split_on c a @ split_on c b"
proof (induction a)
  case (Cons x a)
  have "split_on c a \<noteq> []" by (cases a) (auto split: list.splits)
  then show ?case using Cons by (auto split: list.splits)
qed simp

lemma split_on_only: "list_all (\<lambda>x. x = c) s \<Longrightarrow> set (split_on c s) = {[]}"
  by (induction s) auto

lemma basename_component: "basename p \<in> set (split_on CHR ''/'' p)"
proof -
  have "basename p = last (split_on CHR ''/'' p) \<and> split_on CHR ''/'' p \<noteq> []"
  proof (cases "CHR ''/'' \<in> set p")
    case True
    then obtain a b where p: "p = a @ CHR ''/'' # b" "CHR ''/'' \<notin> set b" by (meson split_list_last)
    have "split_on CHR ''/'' b = [b]" using p(2) by (induction b) auto
    then show ?thesis using basename_append [OF p(2), of a] by (simp add: p(1) split_on_append)
  next
    case False
    then have "split_on CHR ''/'' p = [p]" by (induction p) auto
    moreover have "basename p = p" using False by (auto simp: basename_def takeWhile_eq_all_conv rev_swap)
    ultimately show ?thesis by simp
  qed
  then show ?thesis by (metis last_in_set)
qed

lemma split_path_absolute:
  assumes "split_path p = (h, tail)" "startswith p ''/''"
  shows "startswith h ''/'' \<and> set (split_on CHR ''/'' h) \<subseteq> insert [] (set (split_on CHR ''/'' p)) \<and> tail \<in> set (split_on CHR ''/'' p)"
proof -
  obtain w where w: "p = h @ w @ tail" "list_all (\<lambda>c. c = CHR ''/'') w" "w = [] \<longrightarrow> list_all (\<lambda>c. c = CHR ''/'') h" "h = [] \<longrightarrow> w = []" "tail = basename p"
    using split_path_parts [OF assms(1)] .
  have t: "tail \<in> set (split_on CHR ''/'' p)" unfolding w(5) by (rule basename_component)
  have n: "CHR ''/'' \<notin> set tail" unfolding w(5) by (auto simp: basename_def dest: set_takeWhileD)
  obtain q where q: "p = CHR ''/'' # q" using assms(2) by (auto simp: startswith_iff)
  show ?thesis
  proof (cases w)
    case Nil
    then have "list_all (\<lambda>c. c = CHR ''/'') h" using w(3) by simp
    moreover have "h \<noteq> []" using Nil n q w(1) by auto
    ultimately show ?thesis using t split_on_only [of "CHR ''/''" h] by (cases h) (auto simp: startswith_def)
  next
    case (Cons c w')
    then have p: "p = h @ CHR ''/'' # (w' @ tail)" using w(1,2) by simp
    have "h \<noteq> []" using w(4) Cons by auto
    then show ?thesis using t q p by (cases h) (auto simp: startswith_def split_on_append)
  qed
qed

text \<open>
  On an absolute path without a directory \<open>ns3\<close> the first script loops for ever; on a relative one both
  raise an assertion, which the second does not expect.
\<close>

lemma mod_loop_outside:
  assumes "startswith p ''/''" "''ns3'' \<notin> set (split_on CHR ''/'' p)"
  shows "mod_loop p l = Inl ValueError"
  using assms
proof (induction p l rule: mod_loop.induct)
  case (1 p l)
  obtain h tail where s: "split_path p = (h, tail)" by fastforce
  from split_path_absolute [OF s 1(2)] 1(3)
  have h: "startswith h ''/''" "''ns3'' \<notin> set (split_on CHR ''/'' h)" "tail \<noteq> ''ns3''" by auto
  have "p \<noteq> []" using 1(2) by (auto simp: startswith_def)
  then show ?case using h 1(1) [OF _ s [symmetric]] by (subst mod_loop.simps) (simp add: s)
qed

lemma outside_of_ns3:
  assumes "startswith p ''/''" "''ns3'' \<notin> set (split_on CHR ''/'' p)"
  shows "get_ns3_relative_path p = None" "get_ns3_relative_path_modular p = Inl ValueError"
proof -
  have "p \<noteq> []" using assms(1) by (auto simp: startswith_def)
  then show "get_ns3_relative_path_modular p = Inl ValueError"
    by (simp add: get_ns3_relative_path_modular_def mod_loop_outside [OF assms])
  have none: "r \<noteq> Inl ValueError" if "rel_loop q l = Some r" for q l r
  proof (rule rel_loop.raw_induct [where P = "\<lambda>q l r. r \<noteq> Inl ValueError", OF _ that])
    fix f q l r
    assume IH: "\<And>q l r. f q l = Some r \<Longrightarrow> r \<noteq> Inl ValueError"
      and "(if q = [] then Some (Inl AssertionError)
        else case split_path q of (h, tail) \<Rightarrow> if tail = ''ns3'' then Some (join_paths l) else f h (tail # l)) = Some r"
    then show "r \<noteq> Inl ValueError" by (cases "split_path q") (auto simp: join_paths_def dest: IH split: if_splits list.splits)
  qed
  have "rel_loop p [] = None \<or> rel_loop p [] = Some (Inl ValueError)"
    using mod_loop_outside [OF assms, of "[]"] by (auto simp: mod_loop_agrees split: option.splits)
  then show "get_ns3_relative_path p = None" by (auto simp: get_ns3_relative_path_def dest: none)
qed

end
