(* ===== verification/Binding_Hooks.thy ===== *)
theory Binding_Hooks
  imports Binding_Scan
begin

text \<open>
  The hooks that annotate the definitions found by the scans: \<open>pre_scan_hook\<close> of \<^verbatim>\<open>ns3modulescan.py\<close>
  and \<open>PreScanHook\<close> of \<^verbatim>\<open>ns3modulescan-modular.py\<close>, with the table of annotations both use and
  change.  Whether templates are instances and what their arguments are is asked of pygccxml.
\<close>

section \<open>The table\<close>

datatype annotation =
    Ann_Text string
  | Ann_None
  | Ann_True
  | Ann_Params "(string \<times> (string \<times> string) list) list"

type_synonym annotations = "(string \<times> annotation) list"

definition type_annotations :: "(string \<times> annotations) list" where
  "type_annotations =
    [
     (''::ns3::AttributeChecker'',
      [(''automatic_type_narrowing'', Ann_Text ''true''), (''allow_subclassing'', Ann_Text ''false'')]),
     (''::ns3::AttributeValue'',
      [(''automatic_type_narrowing'', Ann_Text ''true''), (''allow_subclassing'', Ann_Text ''false'')]),
     (''::ns3::CommandLine'',
      [(''allow_subclassing'', Ann_Text ''true'')]),
     (''::ns3::NscTcpL4Protocol'',
      [(''ignore'', Ann_Text ''true'')]),
     (''ns3::RandomVariable::RandomVariable(ns3::RandomVariableBase const & variable) [constructor]'',
      [(''ignore'', Ann_None)]),
     (''ns3::RandomVariableBase * ns3::RandomVariable::Peek() const [member function]'',
      [(''ignore'', Ann_None)]),
     (''void ns3::RandomVariable::GetSeed(uint32_t * seed) const [member function]'',
      [(''params'', Ann_Params [(''seed'', [(''direction'', ''out''), (''array_length'', ''6'')])])]),
     (''bool ns3::TypeId::LookupAttributeByName(std::string name, ns3::TypeId::AttributeInformation * info) const [member function]'',
      [(''params'', Ann_Params [(''info'', [(''transfer_ownership'', ''false'')])])]),
     (''static bool ns3::TypeId::LookupByNameFailSafe(std::string name, ns3::TypeId * tid) [member function]'',
      [(''ignore'', Ann_None)]),
     (''bool ns3::TraceSourceAccessor::ConnectWithoutContext(ns3::ObjectBase * obj, ns3::CallbackBase const & cb) const [member function]'',
      [(''params'', Ann_Params [(''obj'', [(''transfer_ownership'', ''false'')])])]),
     (''bool ns3::TraceSourceAccessor::Connect(ns3::ObjectBase * obj, std::string context, ns3::CallbackBase const & cb) const [member function]'',
      [(''params'', Ann_Params [(''obj'', [(''transfer_ownership'', ''false'')])])]),
     (''bool ns3::TraceSourceAccessor::DisconnectWithoutContext(ns3::ObjectBase * obj, ns3::CallbackBase const & cb) const [member function]'',
      [(''params'', Ann_Params [(''obj'', [(''transfer_ownership'', ''false'')])])]),
     (''bool ns3::TraceSourceAccessor::Disconnect(ns3::ObjectBase * obj, std::string context, ns3::CallbackBase const & cb) const [member function]'',
      [(''params'', Ann_Params [(''obj'', [(''transfer_ownership'', ''false'')])])]),
     (''bool ns3::AttributeAccessor::Set(ns3::ObjectBase * object, ns3::AttributeValue const & value) const [member function]'',
      [(''params'', Ann_Params [(''object'', [(''transfer_ownership'', ''false'')])])]),
     (''ns3::EmpiricalVariable::EmpiricalVariable(ns3::RandomVariableBase const & variable) [constructor]'',
      [(''ignore'', Ann_None)]),
     (''static ns3::AttributeList * ns3::AttributeList::GetGlobal() [member function]'',
      [(''caller_owns_return'', Ann_Text ''false'')]),
     (''void ns3::CommandLine::Parse(int argc, char * * argv) const [member function]'',
      [(''ignore'', Ann_None)]),
     (''extern void ns3::PythonCompleteConstruct(ns3::Ptr<ns3::Object> object, ns3::TypeId typeId, ns3::AttributeList const & attributes) [free function]'',
      [(''ignore'', Ann_None)]),
     (''ns3::Ptr<ns3::Ipv4RoutingProtocol> ns3::Ipv4ListRouting::GetRoutingProtocol(uint32_t index, int16_t & priority) const [member function]'',
      [(''params'', Ann_Params [(''priority'', [(''direction'', ''out'')])])]),
     (''ns3::Ipv4RoutingTableEntry * ns3::GlobalRouter::GetInjectedRoute(uint32_t i) [member function]'',
      [(''params'', Ann_Params [(''return'', [(''caller_owns_return'', ''false'')])])]),
     (''ns3::Ipv4RoutingTableEntry * ns3::Ipv4GlobalRouting::GetRoute(uint32_t i) const [member function]'',
      [(''params'', Ann_Params [(''return'', [(''caller_owns_return'', ''false'')])])]),
     (''::ns3::TestCase'',
      [(''ignore'', Ann_Text ''true'')]),
     (''::ns3::TestRunner'',
      [(''ignore'', Ann_Text ''true'')]),
     (''::ns3::TestSuite'',
      [(''ignore'', Ann_Text ''true'')])]"

section \<open>Definitions and hooks\<close>

text \<open>
  A definition by its class in pygccxml; \<open>de_full\<close> is what \<open>str\<close> gives.
\<close>

datatype decl_kind = Class_Decl | Enum_Decl | Member_Function | Constructor | Free_Function | Other_Callable | Other_Decl

record decl =
  de_kind :: decl_kind
  de_name :: string
  de_parent :: string
  de_decl_string :: string
  de_full :: string
  de_demangled :: string
  de_file :: string

definition is_callable :: "decl \<Rightarrow> bool" where
  "is_callable d \<longleftrightarrow> de_kind d \<in> {Member_Function, Constructor, Free_Function, Other_Callable}"

text \<open>\<open>tp_find\<close>: the file of the declaration of a name, when there is one with a location.\<close>

record templates =
  tp_args :: "string \<Rightarrow> string list"
  tp_is_instantiation :: "string \<Rightarrow> bool"
  tp_split :: "string \<Rightarrow> string list"
  tp_find :: "string \<Rightarrow> string option"

text \<open>What a hook changes: the table, the annotations of the definition, those of its parameters, and the default values of its arguments.\<close>

record hook_state =
  hk_table :: "(string \<times> annotations) list"
  hk_global :: annotations
  hk_params :: "(string \<times> (string \<times> string) list) list"
  hk_defaults :: "string option list"

definition annotations_update :: "('k \<times> 'v) list \<Rightarrow> ('k \<times> 'v) list \<Rightarrow> ('k \<times> 'v) list" where
  "annotations_update new d = fold (\<lambda>(k, v). dict_set k v) new d"

definition annotate :: "string \<Rightarrow> annotation \<Rightarrow> hook_state \<Rightarrow> hook_state" where
  "annotate k a s = s\<lparr>hk_global := dict_set k a (hk_global s)\<rparr>"

text \<open>\<open>Object::GetObject\<close> and the methods of \<open>Simulator\<close>; \<open>args\<close> are the arguments of the template.\<close>

definition member_rules :: "string list \<Rightarrow> decl \<Rightarrow> hook_state \<Rightarrow> hook_state" where
  "member_rules args d s =
     (if de_kind d \<noteq> Member_Function then s
      else
        let s = (if de_parent d = ''Object'' \<and> de_name d = ''GetObject'' \<and> args = [''ns3::Object'']
                 then annotate ''template_instance_names'' (Ann_Text ''ns3::Object=>GetObject'') s else s);
            s = (if de_parent d = ''Simulator'' \<and> startswith (de_name d) ''Schedule'' then annotate ''ignore'' Ann_None s else s)
        in if de_parent d = ''Simulator'' \<and> de_name d = ''Run'' then annotate ''ignore'' Ann_True s else s)"

definition fix_default :: "string option \<Rightarrow> string option" where
  "fix_default v =
     (if v = Some ''ns3::MilliSeconds( )'' then Some ''ns3::MilliSeconds(0)''
      else if v = Some ''ns3::Seconds( )'' then Some ''ns3::Seconds(0)'' else v)"

definition fix_defaults :: "decl \<Rightarrow> hook_state \<Rightarrow> hook_state" where
  "fix_defaults d s = (if is_callable d then s\<lparr>hk_defaults := map fix_default (hk_defaults s)\<rparr> else s)"

text \<open>The rules for classes; the flag tells whether the hook returns.\<close>

definition class_rules :: "decl \<Rightarrow> hook_state \<Rightarrow> bool \<times> hook_state" where
  "class_rules d s =
     (if startswith (de_decl_string d) ''::ns3::SimpleRefCount<'' then
        (True, annotate ''automatic_type_narrowing'' (Ann_Text ''true'') (annotate ''peekref_method'' (Ann_Text ''GetReferenceCount'')
          (annotate ''decref_method'' (Ann_Text ''Unref'') (annotate ''incref_method'' (Ann_Text ''Ref'') s))))
      else if startswith (de_decl_string d) ''::ns3::Callback<'' then (True, annotate ''ignore'' Ann_None s)
      else if startswith (de_decl_string d) ''::ns3::TracedCallback<'' then (True, annotate ''ignore'' Ann_None s)
      else if startswith (de_decl_string d) ''::ns3::Ptr<'' then (True, annotate ''ignore'' Ann_None s)
      else (False,
        case map_of (hk_table s) (de_decl_string d) of
          None \<Rightarrow> s
        | Some a \<Rightarrow> s\<lparr>hk_global := annotations_update a (hk_global s)\<rparr>))"

text \<open>
  The table for functions and methods.  \<open>params\<close> goes to the annotations of the parameters and is deleted
  from the table; deleting while iterating over the dictionary itself raises from Python 3 on.
\<close>

definition function_table :: "bool \<Rightarrow> decl \<Rightarrow> hook_state \<Rightarrow> hook_state res" where
  "function_table raises d s =
     (if de_kind d \<notin> {Free_Function, Member_Function, Constructor} then Inr s
      else (case map_of (hk_table s) (de_full d) of
        None \<Rightarrow> Inr s
      | Some a \<Rightarrow>
          (case map_of a ''params'' of
             None \<Rightarrow> Inr (s\<lparr>hk_global := annotations_update a (hk_global s)\<rparr>)
           | Some (Ann_Params ps) \<Rightarrow>
               let a = dict_del ''params'' a;
                   s = s\<lparr>hk_params := annotations_update ps (hk_params s), hk_table := dict_set (de_full d) a (hk_table s)\<rparr>
               in if raises then Inl RuntimeError else Inr (s\<lparr>hk_global := annotations_update a (hk_global s)\<rparr>)
           | Some (Ann_Text _) \<Rightarrow> Inl ValueError
           | Some _ \<Rightarrow> Inl TypeError)))"

definition pre_scan_hook :: "bool \<Rightarrow> templates \<Rightarrow> decl \<Rightarrow> hook_state \<Rightarrow> hook_state res option" where
  "pre_scan_hook python3 tp d s =
     (case get_ns3_relative_path (de_file d) of
        None \<Rightarrow> None
      | Some (Inl e) \<Rightarrow> Some (Inl e)
      | Some (Inr h) \<Rightarrow>
          Some (let s = annotate ''pygen_comment'' (Ann_Text (h @ '': '' @ de_full d)) s;
                    s = fix_defaults d (member_rules (tp_args tp (de_demangled d)) d s);
                    (done, s) = (if de_kind d = Class_Decl then class_rules d s else (False, s))
                in if done then Inr s
                   else if de_kind d = Free_Function \<and> de_name d = ''PeekPointer'' then Inr (annotate ''ignore'' Ann_None s)
                   else function_table python3 d s))"

section \<open>The hook of a module\<close>

definition underscores :: "string \<Rightarrow> string" where
  "underscores = map (\<lambda>c. if c = CHR ''-'' then CHR ''_'' else c)"

text \<open>
  The modules of the arguments of a template that have a place within ns3: a header that is not in
  the map raises, as does a place without a file.
\<close>

fun template_modules :: "templates \<Rightarrow> (string \<times> string) list \<Rightarrow> string list \<Rightarrow> string list res" where
  "template_modules tp headers [] = Inr []"
| "template_modules tp headers (p # ps) =
     (case tp_find tp p of
        None \<Rightarrow> template_modules tp headers ps
      | Some f \<Rightarrow>
          (case get_ns3_relative_path_modular f of
             Inl ValueError \<Rightarrow> template_modules tp headers ps
           | Inl e \<Rightarrow> Inl e
           | Inr None \<Rightarrow> Inl KeyError
           | Inr (Some h) \<Rightarrow>
               (case map_of headers h of
                  None \<Rightarrow> Inl KeyError
                | Some m \<Rightarrow> res_bind (template_modules tp headers ps) (\<lambda>ms. Inr (m # ms)))))"

definition class_module :: "templates \<Rightarrow> (string \<times> string) list \<Rightarrow> string \<Rightarrow> decl \<Rightarrow> string \<Rightarrow> string res" where
  "class_module tp headers own d m =
     (if tp_is_instantiation tp (de_decl_string d) then
        res_bind (template_modules tp headers (tp_split tp (de_name d))) (\<lambda>ms. Inr (if own \<in> set ms then own else m))
      else Inr m)"

definition PreScanHook :: "templates \<Rightarrow> (string \<times> string) list \<Rightarrow> string \<Rightarrow> decl \<Rightarrow> hook_state \<Rightarrow> hook_state res" where
  "PreScanHook tp headers own d s =
     (case get_ns3_relative_path_modular (de_file d) of
        Inl ValueError \<Rightarrow> Inr s
      | Inl e \<Rightarrow> Inl e
      | Inr None \<Rightarrow> Inr s
      | Inr (Some []) \<Rightarrow> Inr s
      | Inr (Some h) \<Rightarrow>
          (case map_of headers h of
             None \<Rightarrow> Inl KeyError
           | Some m \<Rightarrow>
               let s = annotate ''pygen_comment'' (Ann_Text (h @ '' (module '' @ repr m @ ''): '' @ de_full d)) s;
                   s = fix_defaults d (member_rules (tp_args tp (de_full d)) d s)
               in (case de_kind d of
                     Class_Decl \<Rightarrow> res_bind (class_module tp headers own d m) (\<lambda>m.
                       Inr (snd (class_rules d (if m \<noteq> own then annotate ''import_from_module'' (Ann_Text (''ns.'' @ underscores m)) s else s))))
                   | Enum_Decl \<Rightarrow> Inr (if m \<noteq> own then annotate ''import_from_module'' (Ann_Text (''ns.'' @ m)) s else s)
                   | Free_Function \<Rightarrow>
                       if m \<noteq> own \<or> de_name d = ''PeekPointer'' then Inr (annotate ''ignore'' Ann_None s)
                       else function_table False d s
                   | _ \<Rightarrow> function_table False d s)))"

section \<open>Definitions of other modules\<close>

lemma map_of_annotations_update: "map_of (annotations_update new d) k = (case map_of (rev new) k of None \<Rightarrow> map_of d k | Some v \<Rightarrow> Some v)"
proof (induction new arbitrary: d)
  case (Cons kv new)
  then show ?case by (cases kv) (auto simp: annotations_update_def split: option.splits)
qed (simp add: annotations_update_def)

lemma annotations_update_other: "\<not> dict_has new k \<Longrightarrow> map_of (annotations_update new d) k = map_of d k"
  by (auto simp: map_of_annotations_update map_of_eq_None_iff split: option.splits dest!: map_of_SomeD) force

lemma annotate_simps [simp]:
  "hk_table (annotate k a s) = hk_table s" "hk_params (annotate k a s) = hk_params s" "hk_defaults (annotate k a s) = hk_defaults s"
  "map_of (hk_global (annotate k a s)) = (map_of (hk_global s))(k \<mapsto> a)"
  by (simp_all add: annotate_def)

lemma rules_simps [simp]:
  "hk_table (member_rules args d s) = hk_table s" "hk_params (member_rules args d s) = hk_params s"
  "hk_table (fix_defaults d s) = hk_table s" "hk_params (fix_defaults d s) = hk_params s" "hk_global (fix_defaults d s) = hk_global s"
  "hk_table (snd (class_rules d s)) = hk_table s" "hk_params (snd (class_rules d s)) = hk_params s"
  by (simp_all add: member_rules_def fix_defaults_def class_rules_def Let_def split: option.splits)

lemma member_rules_import [simp]:
  "map_of (hk_global (member_rules args d s)) ''import_from_module'' = map_of (hk_global s) ''import_from_module''"
  by (simp add: member_rules_def Let_def)

text \<open>The table never says from which module to import, and its \<open>params\<close> are those of parameters.\<close>

definition annotations_ok :: "annotations \<Rightarrow> bool" where
  "annotations_ok a \<longleftrightarrow> distinct (map fst a) \<and> \<not> dict_has a ''import_from_module'' \<and>
     (case map_of a ''params'' of None \<Rightarrow> True | Some (Ann_Params _) \<Rightarrow> True | _ \<Rightarrow> False)"

definition table_ok :: "(string \<times> annotations) list \<Rightarrow> bool" where
  "table_ok t \<longleftrightarrow> list_all (\<lambda>(_, a). annotations_ok a) t"

lemma table_ok_table: "table_ok type_annotations"
  by code_simp

lemma table_okD: "table_ok t \<Longrightarrow> map_of t k = Some a \<Longrightarrow> annotations_ok a"
  by (auto simp: table_ok_def list_all_iff dest!: map_of_SomeD)

lemma annotations_ok_del: "annotations_ok a \<Longrightarrow> annotations_ok (dict_del ''params'' a)"
  by (auto simp: annotations_ok_def)

lemma table_ok_set: "table_ok t \<Longrightarrow> annotations_ok a \<Longrightarrow> table_ok (dict_set k a t)"
  by (induction t) (auto simp: table_ok_def)

definition imported_from :: "hook_state \<Rightarrow> annotation option" where
  "imported_from s = map_of (hk_global s) ''import_from_module''"

lemma imported_from_annotate [simp]:
  "imported_from (annotate k a s) = (if k = ''import_from_module'' then Some a else imported_from s)"
  "imported_from (fix_defaults d s) = imported_from s"
  "imported_from (member_rules args d s) = imported_from s"
  "annotations_ok as \<Longrightarrow> imported_from (s\<lparr>hk_global := annotations_update as (hk_global s)\<rparr>) = imported_from s"
  by (simp_all add: imported_from_def annotations_ok_def annotations_update_other)

lemma class_rules_imported:
  assumes "table_ok (hk_table s)"
  shows "imported_from (snd (class_rules d s)) = imported_from s"
  using table_okD [OF assms, of "de_decl_string d"] by (simp add: class_rules_def split: option.splits)

lemma function_table_ok:
  assumes "table_ok (hk_table s)"
  obtains s' where "function_table False d s = Inr s'" "imported_from s' = imported_from s" "table_ok (hk_table s')"
proof (cases "map_of (hk_table s) (de_full d)")
  case None
  then show thesis using that [of s] assms by (simp add: function_table_def)
next
  case (Some a)
  then have a: "annotations_ok a" by (rule table_okD [OF assms])
  then have del: "annotations_ok (dict_del ''params'' a)" by (rule annotations_ok_del)
  show thesis
  proof (cases "map_of a ''params''")
    case None
    then show thesis using that [of "s\<lparr>hk_global := annotations_update a (hk_global s)\<rparr>"] that [of s] Some a assms
      by (cases "de_kind d \<in> {Free_Function, Member_Function, Constructor}") (auto simp: function_table_def)
  next
    case ps: (Some p)
    then obtain ps where p: "p = Ann_Params ps" using a by (cases p) (auto simp: annotations_ok_def)
    let ?s = "s\<lparr>hk_params := annotations_update ps (hk_params s), hk_table := dict_set (de_full d) (dict_del ''params'' a) (hk_table s)\<rparr>"
    have "imported_from (?s\<lparr>hk_global := annotations_update (dict_del ''params'' a) (hk_global ?s)\<rparr>) = imported_from ?s"
      by (rule imported_from_annotate(4) [OF del])
    then show thesis using that [of "?s\<lparr>hk_global := annotations_update (dict_del ''params'' a) (hk_global ?s)\<rparr>"] that [of s] Some ps p assms table_ok_set [OF assms del]
      by (cases "de_kind d \<in> {Free_Function, Member_Function, Constructor}") (auto simp: function_table_def Let_def imported_from_def)
  qed
qed

text \<open>C38: where the hook of a module imports from.  For a header of ns3 in the map of headers and a sound table,
  a class is imported exactly when neither its module nor, for an instance of a template, the module
  of an argument is the one scanned, with underscores for the dashes of the name; an enumeration by the name of its
  module as it is, dashes included; functions and methods are not imported, and no call of the hook
  fails but for the arguments of a template.
\<close>

theorem imports_of_other_modules:
  assumes "get_ns3_relative_path_modular (de_file d) = Inr (Some h)" "h \<noteq> []" "map_of headers h = Some m"
    "table_ok (hk_table s)" "imported_from s = None"
  shows "res_bind (PreScanHook tp headers own d s) (\<lambda>s'. Inr (imported_from s')) =
    (case de_kind d of
       Class_Decl \<Rightarrow>
         res_bind (if tp_is_instantiation tp (de_decl_string d) then template_modules tp headers (tp_split tp (de_name d)) else Inr []) (\<lambda>ms.
           Inr (if m = own \<or> own \<in> set ms then None else Some (Ann_Text (''ns.'' @ underscores m))))
     | Enum_Decl \<Rightarrow> Inr (if m = own then None else Some (Ann_Text (''ns.'' @ m)))
     | _ \<Rightarrow> Inr None)"
proof -
  obtain c cs where h: "h = c # cs" using assms(2) by (cases h) auto
  let ?s = "fix_defaults d (member_rules (tp_args tp (de_full d)) d (annotate ''pygen_comment'' (Ann_Text (h @ '' (module '' @ repr m @ ''): '' @ de_full d)) s))"
  have tab: "table_ok (hk_table ?s)" using assms(4) by simp
  obtain s' where s': "function_table False d ?s = Inr s'" "imported_from s' = imported_from ?s"
    by (rule function_table_ok [OF tab])
  have cls: "imported_from (snd (class_rules d (annotate k a ?s))) = imported_from (annotate k a ?s)" for k a
    by (rule class_rules_imported) (simp add: assms(4))
  let ?ms = "if tp_is_instantiation tp (de_decl_string d) then template_modules tp headers (tp_split tp (de_name d)) else Inr []"
  have module: "class_module tp headers own d m = res_bind ?ms (\<lambda>ms. Inr (if own \<in> set ms then own else m))"
    by (simp add: class_module_def)
  show ?thesis
    using assms(1,3,5) s' cls class_rules_imported [OF tab]
    by (cases "de_kind d"; cases ?ms) (auto simp: PreScanHook_def h Let_def module)
qed

text \<open>An enumeration of the flow monitor seen from the core module is imported from a name with a dash.\<close>

definition no_templates :: templates where
  "no_templates = \<lparr>tp_args = \<lambda>_. [], tp_is_instantiation = \<lambda>_. False, tp_split = \<lambda>_. [], tp_find = \<lambda>_. None\<rparr>"

definition scanned_decl :: "decl_kind \<Rightarrow> string \<Rightarrow> decl" where
  "scanned_decl k n = \<lparr>de_kind = k, de_name = n, de_parent = ''ns3'', de_decl_string = ''::ns3::'' @ n, de_full = n, de_demangled = n, de_file = ''/b/ns3/a.h''\<rparr>"

definition fresh_hook :: "(string \<times> annotations) list \<Rightarrow> hook_state" where
  "fresh_hook t = \<lparr>hk_table = t, hk_global = [], hk_params = [], hk_defaults = []\<rparr>"

theorem imports_of_other_modules_witness:
  "res_bind (PreScanHook no_templates [(''a.h'', ''flow-monitor'')] ''core'' (scanned_decl Enum_Decl ''E'') (fresh_hook type_annotations))
     (\<lambda>s'. Inr (imported_from s')) = Inr (Some (Ann_Text ''ns.flow-monitor''))"
proof -
  have "get_ns3_relative_path_modular (de_file (scanned_decl Enum_Decl ''E'')) = Inr (Some ''a.h'')" by code_simp
  then show ?thesis
    using imports_of_other_modules [of "scanned_decl Enum_Decl ''E''" "''a.h''" "[(''a.h'', ''flow-monitor'')]" "''flow-monitor''"
        "fresh_hook type_annotations" no_templates "''core''"] table_ok_table
    by (simp add: scanned_decl_def fresh_hook_def imported_from_def)
qed

section \<open>Annotations of parameters\<close>

text \<open>The annotations of the parameters of a function are given once.  The table is shared by all
  calls and the hook deletes them from it: the first call passes them on, a second call of a hook
  for the same definition, with the table the first has left, gives none.
\<close>

theorem parameters_annotated_once:
  assumes "de_kind d \<in> {Member_Function, Constructor}" "get_ns3_relative_path_modular (de_file d) = Inr (Some h)"
    "h \<noteq> []" "map_of headers h = Some m" "table_ok (hk_table s)"
    "map_of (hk_table s) (de_full d) = Some a" "map_of a ''params'' = Some (Ann_Params ps)"
  shows "\<exists>s'. PreScanHook tp headers own d s = Inr s' \<and> hk_params s' = annotations_update ps (hk_params s) \<and>
    (\<exists>s''. PreScanHook tp headers own d (s'\<lparr>hk_global := g, hk_params := p\<rparr>) = Inr s'' \<and> hk_params s'' = p \<and> hk_table s'' = hk_table s')"
proof -
  obtain c cs where h: "h = c # cs" using assms(3) by (cases h) auto
  have a: "distinct (map fst a)" using table_okD [OF assms(5,6)] by (simp add: annotations_ok_def)
  have hook: "PreScanHook tp headers own d z = function_table False d (fix_defaults d (member_rules (tp_args tp (de_full d)) d
      (annotate ''pygen_comment'' (Ann_Text (h @ '' (module '' @ repr m @ ''): '' @ de_full d)) z)))" for z
    using assms(1,2,4) h by (auto simp: PreScanHook_def Let_def)
  have del: "map_of (dict_del ''params'' a) ''params'' = None" using a by simp
  show ?thesis
    using assms(1,6,7) del by (auto simp: hook function_table_def Let_def)
qed

theorem parameters_annotated_once_witness:
  "\<exists>s'. PreScanHook no_templates [(''a.h'', ''core'')] ''core''
      (scanned_decl Member_Function ''void ns3::RandomVariable::GetSeed(uint32_t * seed) const [member function]'') (fresh_hook type_annotations) = Inr s' \<and>
    hk_params s' = [(''seed'', [(''direction'', ''out''), (''array_length'', ''6'')])] \<and>
    (\<exists>s''. PreScanHook no_templates [(''a.h'', ''core'')] ''core''
      (scanned_decl Member_Function ''void ns3::RandomVariable::GetSeed(uint32_t * seed) const [member function]'')
      (s'\<lparr>hk_global := [], hk_params := []\<rparr>) = Inr s'' \<and> hk_params s'' = [] \<and> hk_table s'' = hk_table s')"
proof -
  let ?d = "scanned_decl Member_Function ''void ns3::RandomVariable::GetSeed(uint32_t * seed) const [member function]''"
  have h: "get_ns3_relative_path_modular (de_file ?d) = Inr (Some ''a.h'')" by code_simp
  let ?ps = "[(''seed'', [(''direction'', ''out''), (''array_length'', ''6'')])]"
  have t: "map_of (hk_table (fresh_hook type_annotations)) (de_full ?d) = Some [(''params'', Ann_Params ?ps)]"
    by code_simp
  have "annotations_update ?ps (hk_params (fresh_hook type_annotations)) = ?ps" by code_simp
  moreover have "de_kind ?d \<in> {Member_Function, Constructor}" "table_ok (hk_table (fresh_hook type_annotations))"
    using table_ok_table by (simp_all add: scanned_decl_def fresh_hook_def)
  ultimately show ?thesis
    using parameters_annotated_once [OF _ h _ _ _ t, of "[(''a.h'', ''core'')]" "''core''" ?ps no_templates "''core''" "[]" "[]"]
    by simp
qed

text \<open>The other hook, of the old script, raises under Python 3 for the very entries.\<close>

lemma old_hook_raises:
  assumes "de_kind d \<in> {Member_Function, Constructor}" "get_ns3_relative_path (de_file d) = Some (Inr h)"
    "map_of (hk_table s) (de_full d) = Some a" "map_of a ''params'' = Some (Ann_Params ps)"
  shows "pre_scan_hook True tp d s = Some (Inl RuntimeError)"
  using assms by (auto simp: pre_scan_hook_def function_table_def Let_def)

end
