(* ===== verification/Binding_Plan.thy ===== *)
theory Binding_Plan
  imports Binding_Hooks
begin

text \<open>
  \<open>ns3_module_scan\<close> of both scripts: the sections of the generated code, one for each module in the
  order of their dependencies, the classifier that puts definitions into sections, the header to scan
  and the list of callback classes.
\<close>

section \<open>Sections\<close>

text \<open>The modules as the first line of the input has them: a dictionary of dependencies and headers.\<close>

type_synonym ns3_modules = "(string \<times> string list \<times> string list) list"

definition module_graph :: "ns3_modules \<Rightarrow> (string \<times> string) list" where
  "module_graph mods =
     concat (map (\<lambda>n. map (\<lambda>dep. (dep, n)) (sort (case map_of mods n of None \<Rightarrow> [] | Some (deps, _) \<Rightarrow> deps))) (sort (map fst mods)))"

text \<open>A section by its name, the file of its code and the prefix of its local code.\<close>

record pygen_section =
  sec_name :: string
  sec_file :: string
  sec_local :: "string option"

record scan_plan =
  pl_sections :: "pygen_section list"
  pl_headers :: "(string \<times> string) list"
  pl_precedences :: "(string \<times> int) list"

definition section_name :: "string \<Rightarrow> string" where
  "section_name m = ''ns3_module_'' @ underscores m"

definition add_section :: "string \<Rightarrow> string \<Rightarrow> string list \<Rightarrow> int \<Rightarrow> scan_plan \<Rightarrow> scan_plan" where
  "add_section pygen m headers prec p =
     (let n = section_name m in
      \<lparr>pl_sections = pl_sections p @ [\<lparr>sec_name = n, sec_file = path_join (fst (split_path pygen)) (n @ ''.py''), sec_local = Some (n @ ''__local'')\<rparr>],
       pl_headers = fold (\<lambda>h. dict_set h n) headers (pl_headers p),
       pl_precedences = dict_set n prec (pl_precedences p)\<rparr>)"

text \<open>A dependency that is not a module of its own raises, after the file of its section is opened.\<close>

fun add_sections :: "string \<Rightarrow> ns3_modules \<Rightarrow> string list \<Rightarrow> int \<Rightarrow> scan_plan \<Rightarrow> scan_plan res" where
  "add_sections pygen mods [] prec p = Inr p"
| "add_sections pygen mods (m # ms) prec p =
     (case map_of mods m of
        None \<Rightarrow> Inl KeyError
      | Some (_, headers) \<Rightarrow> add_sections pygen mods ms (prec + 1) (add_section pygen m headers prec p))"

text \<open>\<open>keys()\<close> has no \<open>sort\<close> from Python 3 on.  The order of the keys in \<open>topsort\<close> is a parameter, as there.\<close>

definition ns3_module_scan :: "bool \<Rightarrow> (string counts \<Rightarrow> string list) \<Rightarrow> string \<Rightarrow> ns3_modules \<Rightarrow> (exn + string top_error) + scan_plan" where
  "ns3_module_scan python3 ord pygen mods =
     (if python3 then Inl (Inl AttributeError)
      else (case topsort ord (module_graph mods) of
        Inl e \<Rightarrow> Inl (Inr e)
      | Inr modules \<Rightarrow>
          (case add_sections pygen mods modules 0
             \<lparr>pl_sections = [\<lparr>sec_name = ''__main__'', sec_file = pygen, sec_local = None\<rparr>], pl_headers = [], pl_precedences = []\<rparr> of
             Inl e \<Rightarrow> Inl (Inl e)
           | Inr p \<Rightarrow> Inr p)))"

text \<open>\<open>MyPygenClassifier\<close>.\<close>

definition classify :: "scan_plan \<Rightarrow> decl \<Rightarrow> string" where
  "classify p d = (case map_of (pl_headers p) (basename (de_file d)) of None \<Rightarrow> ''__main__'' | Some n \<Rightarrow> n)"

definition get_section_precedence :: "scan_plan \<Rightarrow> string \<Rightarrow> int res" where
  "get_section_precedence p n =
     (if n = ''__main__'' then Inr (- 1)
      else (case map_of (pl_precedences p) n of None \<Rightarrow> Inl KeyError | Some k \<Rightarrow> Inr k))"

section \<open>Headers and callbacks\<close>

text \<open>The header \<open>ns3_module_scan\<close> of the second script scans; \<open>out\<close> is the file it writes.\<close>

definition scan_header :: "(string \<Rightarrow> bool) \<Rightarrow> string \<Rightarrow> string \<Rightarrow> string \<Rightarrow> string" where
  "scan_header exists builddir m out =
     (let h = path_join (fst (split_path out)) ''scan-header.h'' in
      if exists h then h else path_join (path_join builddir ''ns3'') (m @ ''-module.h''))"

text \<open>The classes of the module as pairs of their names and declarations; what was written before an assertion fails stays.\<close>

definition repr_list :: "string list \<Rightarrow> string" where
  "repr_list xs = ''['' @ join '', '' (map repr xs) @ '']''"

fun callback_lines :: "templates \<Rightarrow> (string \<times> string) list \<Rightarrow> string \<times> exn option" where
  "callback_lines tp [] = ([], None)"
| "callback_lines tp ((n, ds) # cs) =
     (if \<not> startswith n ''Callback<'' then callback_lines tp cs
      else if \<not> tp_is_instantiation tp ds then ([], Some AssertionError)
      else (case callback_lines tp cs of (w, e) \<Rightarrow> (''    '' @ repr_list (tp_split tp ds) @ '','' @ nl @ w, e)))"

definition scan_callback_classes :: "templates \<Rightarrow> (string \<times> string) list \<Rightarrow> string \<times> exn option" where
  "scan_callback_classes tp classes =
     (case callback_lines tp classes of
        (w, None) \<Rightarrow> (''callback_classes = ['' @ nl @ w @ '']'' @ nl, None)
      | (w, Some e) \<Rightarrow> (''callback_classes = ['' @ nl @ w, Some e))"

section \<open>The order of the sections\<close>

lemma module_graph_edges:
  assumes "map_of mods m = Some (deps, headers)" "dep \<in> set deps"
  shows "(dep, m) \<in> set (module_graph mods)"
proof -
  have "m \<in> set (sort (map fst mods))" using map_of_SomeD [OF assms(1)] by (auto simp: rev_image_eqI)
  then show ?thesis using assms unfolding module_graph_def set_concat set_map
    by (intro UN_I [OF imageI]) auto
qed

lemma add_sections_keeps:
  assumes "add_sections pygen mods ms prec p = Inr q" "n \<notin> section_name ` set ms"
  shows "map_of (pl_precedences q) n = map_of (pl_precedences p) n"
  using assms
proof (induction pygen mods ms prec p rule: add_sections.induct)
  case (2 pygen mods m ms prec p)
  then show ?case by (auto simp: add_section_def Let_def split: option.splits)
qed simp

lemma add_sections_modules:
  assumes "add_sections pygen mods ms prec p = Inr q" "m \<in> set ms"
  shows "map_of mods m \<noteq> None"
  using assms
  by (induction pygen mods ms prec p rule: add_sections.induct) (auto split: option.splits)

text \<open>The place of a module in the sorted list is the precedence of its section.\<close>

lemma add_sections_precedence:
  assumes "add_sections pygen mods ms prec p = Inr q" "ms = xs @ m # ys" "section_name m \<notin> section_name ` set ys"
  shows "map_of (pl_precedences q) (section_name m) = Some (prec + int (length xs))"
  using assms
proof (induction xs arbitrary: ms prec p)
  case Nil
  then obtain deps hs where "map_of mods m = Some (deps, hs)" "add_sections pygen mods ys (prec + 1) (add_section pygen m hs prec p) = Inr q"
    by (auto split: option.splits)
  then show ?case using add_sections_keeps Nil.prems(3) by (fastforce simp: add_section_def Let_def)
next
  case (Cons x xs)
  then obtain deps hs where "add_sections pygen mods (xs @ m # ys) (prec + 1) (add_section pygen x hs prec p) = Inr q"
    by (auto split: option.splits)
  from Cons.IH [OF this refl Cons.prems(3)] show ?case by (simp add: algebra_simps)
qed

lemma before_positions: "before xs a b \<Longrightarrow> \<exists>us vs ws. xs = us @ a # vs @ b # ws"
  unfolding before_def by (auto dest!: split_list) blast

lemma underscores_names: "section_name m = section_name n \<longleftrightarrow> underscores m = underscores n"
  by (simp add: section_name_def)

lemma ns3_module_scan_cases:
  assumes "ns3_module_scan False ord pygen mods = Inr p"
  obtains ms p0 where "topsort ord (module_graph mods) = Inr ms" "add_sections pygen mods ms 0 p0 = Inr p" "pl_precedences p0 = []" "pl_headers p0 = []"
  using assms by (auto simp: ns3_module_scan_def split: sum.splits)

lemma plan_modules:
  assumes keys: "\<And>np. mset (ord np) = mset (map fst np)"
    and plan: "ns3_module_scan False ord pygen mods = Inr p"
    and edge: "map_of mods m = Some (deps, headers)" "dep \<in> set deps"
  obtains us vs ws p0 where "add_sections pygen mods (us @ dep # vs @ m # ws) 0 p0 = Inr p" "distinct (us @ dep # vs @ m # ws)"
    "set (us @ dep # vs @ m # ws) \<subseteq> fst ` set mods"
proof -
  obtain ms p0 where ms: "topsort ord (module_graph mods) = Inr ms" "add_sections pygen mods ms 0 p0 = Inr p"
    using plan by (rule ns3_module_scan_cases)
  note ko = key_order.topsort_Inr [OF key_order.intro [OF keys] ms(1)]
  obtain us vs ws where "ms = us @ dep # vs @ m # ws"
    using before_positions [OF ko(3) [OF module_graph_edges [OF edge]]] by blast
  moreover have "set ms \<subseteq> fst ` set mods"
    using add_sections_modules [OF ms(2)] by (auto simp: map_of_eq_None_iff)
  ultimately show thesis using that ms(2) ko(1) by blast
qed



section \<open>Modules without a section\<close>

text \<open>
  A module that has no dependencies and that no module depends on is not in the graph: it gets no
  section, and definitions of its headers go to the main one.
\<close>

lemma unconnected_module:
  "case ns3_module_scan False (map fst) ''g.py'' [(''net'', [''core''], [''n.h'']), (''core'', [], [''c.h'']), (''stats'', [], [''s.h''])] of
     Inl _ \<Rightarrow> False
   | Inr p \<Rightarrow> map sec_name (pl_sections p) = [''__main__'', ''ns3_module_core'', ''ns3_module_net''] \<and>
       classify p ((scanned_decl Class_Decl ''N'')\<lparr>de_file := ''/b/ns3/n.h''\<rparr>) = ''ns3_module_net'' \<and>
       classify p ((scanned_decl Class_Decl ''S'')\<lparr>de_file := ''/b/ns3/s.h''\<rparr>) = ''__main__'' \<and>
       get_section_precedence p (section_name ''stats'') = Inl KeyError"
  by code_simp

text \<open>What the classifier answers has a precedence: its sections are those of the plan.\<close>

lemma ran_fold_dict_set: "ran (map_of (fold (\<lambda>h. dict_set h n) hs d)) \<subseteq> insert n (ran (map_of d))"
proof (induction hs arbitrary: d)
  case (Cons h hs)
  show ?case using Cons [of "dict_set h n d"] by (auto simp: ran_def split: if_splits)
qed auto

lemma add_sections_classified:
  assumes "add_sections pygen mods ms prec p = Inr q" "\<forall>n \<in> ran (map_of (pl_headers p)). dict_has (pl_precedences p) n"
  shows "\<forall>n \<in> ran (map_of (pl_headers q)). dict_has (pl_precedences q) n"
  using assms
proof (induction pygen mods ms prec p rule: add_sections.induct)
  case (2 pygen mods m ms prec p)
  obtain deps hs where m: "map_of mods m = Some (deps, hs)" "add_sections pygen mods ms (prec + 1) (add_section pygen m hs prec p) = Inr q"
    using 2(2) by (auto split: option.splits)
  show ?case
    using 2(1) [OF m(1) refl m(2)] 2(3) ran_fold_dict_set [of "section_name m" hs "pl_headers p"]
    by (fastforce simp: add_section_def Let_def)
qed simp

text \<open>The classifier and the precedences fit together.  Whatever definition is classified, the section it
  is put into has a precedence, so that asking for it does not raise.
\<close>

theorem classified_has_precedence:
  assumes "ns3_module_scan python3 ord pygen mods = Inr p"
  shows "\<exists>k. get_section_precedence p (classify p d) = Inr k"
proof -
  have "\<not> python3" using assms by (auto simp: ns3_module_scan_def)
  then obtain ms p0 where "add_sections pygen mods ms 0 p0 = Inr p" "pl_headers p0 = []"
    using assms by (auto elim: ns3_module_scan_cases)
  from add_sections_classified [OF this(1)] this(2) have "\<forall>n \<in> ran (map_of (pl_headers p)). dict_has (pl_precedences p) n" by simp
  then show ?thesis
    by (cases "map_of (pl_headers p) (basename (de_file d))") (auto simp: classify_def get_section_precedence_def ran_def split: option.splits)
qed

theorem classified_has_precedence_witness:
  "\<exists>p k. ns3_module_scan False (map fst) ''g.py'' [(''net'', [''core''], [''a.h'']), (''core'', [], [''c.h''])] = Inr p \<and>
    get_section_precedence p (classify p (scanned_decl Class_Decl ''N'')) = Inr k"
proof -
  let ?mods = "[(''net'', [''core''], [''a.h'']), (''core'', [], [''c.h''])]"
  obtain p where p: "ns3_module_scan False (map fst) ''g.py'' ?mods = Inr p"
  proof -
    have "case ns3_module_scan False (map fst) ''g.py'' ?mods of Inl _ \<Rightarrow> False | Inr _ \<Rightarrow> True" by code_simp
    then show thesis using that by (auto split: sum.splits)
  qed
  then show ?thesis using classified_has_precedence [OF p] by blast
qed

end
