(* ===== verification/Build_Files.thy ===== *)
theory Build_Files
  imports Build_Modules Binding_Plan
begin

text \<open>
  What a build writes: of \<^verbatim>\<open>src/wscript\<close> the header of a module and its package file, of
  \<^verbatim>\<open>bindings/python/wscript\<close> the tables for the scans of the bindings and the conversion of the bindings to
  32 bits, of \<^verbatim>\<open>contrib/wscript\<close> the search for modules, and of the main \<^verbatim>\<open>wscript\<close> the lists at the end.
\<close>

section \<open>Lists at the end of a build\<close>

definition ljust :: "nat \<Rightarrow> string \<Rightarrow> string" where
  "ljust w s = s @ replicate (w - length s) CHR '' ''"

fun columns :: "nat \<Rightarrow> nat \<Rightarrow> string list \<Rightarrow> string" where
  "columns n i [] = []"
| "columns n i (x # xs) = (if i mod 3 = 2 \<or> i + 1 = n then x @ nl else ljust 25 x @ '' '') @ columns n (i + 1) xs"

definition print_module_names :: "string list \<Rightarrow> string" where
  "print_module_names names = columns (length names) 0 (sort names)"

definition modules_built :: "string list \<Rightarrow> string list \<Rightarrow> string" where
  "modules_built enabled bindings =
     nl @ ''Modules built:'' @ nl @
     print_module_names (map (\<lambda>n. drop 4 n @ (if n \<in> set bindings then [] else '' (no Python)'')) enabled) @ nl"

definition modules_not_built :: "string list \<Rightarrow> string" where
  "modules_not_built names =
     (if names = [] then [] else ''Modules not built (see ns-3 tutorial for explanation):'' @ nl @ print_module_names names @ nl)"

text \<open>\<open>shutdown\<close>: what is printed, when a build was done, and the file that \<^verbatim>\<open>test.py\<close> reads.\<close>

definition shutdown_report :: "bool \<Rightarrow> string list \<Rightarrow> string list \<Rightarrow> string list \<Rightarrow> string" where
  "shutdown_report print_at_end enabled bindings not_built =
     (if print_at_end then modules_built enabled bindings @ modules_not_built not_built else [])"

definition build_status :: "string list \<Rightarrow> string list \<Rightarrow> string" where
  "build_status programs scripts =
     ''#! /usr/bin/env python3'' @ nl @ nl @ ''# Programs that are runnable.'' @ nl @
     ''ns3_runnable_programs = '' @ repr_list programs @ nl @ nl @ ''# Scripts that are runnable.'' @ nl @
     ''ns3_runnable_scripts = '' @ repr_list scripts @ nl @ nl"

section \<open>Headers\<close>

text \<open>A task generator for headers: its module and its files.  \<open>module_headers\<close> is \<open>apply_ns3moduleheader\<close>.\<close>

type_synonym header_gen = "string \<times> string list"

definition module_headers :: "string \<Rightarrow> header_gen list \<Rightarrow> string list res" where
  "module_headers m gens =
     (case filter (\<lambda>(m', _). m' = m) gens of
        [] \<Rightarrow> Inl (UserException (''error finding headers for module '' @ m))
      | gs \<Rightarrow> Inr (concat (map (\<lambda>(_, hs). map basename (sort hs)) gs)))"

definition upper_name :: "string \<Rightarrow> string" where
  "upper_name = map (\<lambda>c. let n = (of_char c :: nat) in if 97 \<le> n \<and> n \<le> 122 then char_of (n - 32) else c)"

definition module_header_text :: "string \<Rightarrow> string list \<Rightarrow> string" where
  "module_header_text m inputs =
     concat (map (\<lambda>l. l @ nl)
       ([[], ''#ifdef NS3_MODULE_COMPILATION'',
         ''# error '' @ DQ @ ''Do not include ns3 module aggregator headers from other modules; these are meant only for end user scripts.'' @ DQ,
         ''#endif'', [], ''#ifndef NS3_MODULE_'' @ underscores (upper_name m), ''    '', [], ''// Module headers:''] @
        map (\<lambda>h. ''#include '' @ DQ @ h @ DQ) (sort (map basename inputs)) @ [''#endif'']))"

text \<open>The table of headers for the scan of a module, and the one of modules for the scan of all.\<close>

definition add_headers :: "header_gen \<Rightarrow> (string \<times> string) list \<Rightarrow> (string \<times> string) list" where
  "add_headers g d = (case g of (m, hs) \<Rightarrow> if endswith m ''-test'' then d else fold (\<lambda>h. dict_set (basename h) m) hs d)"

definition get_headers_map :: "header_gen list \<Rightarrow> (string \<times> string) list" where
  "get_headers_map gens = fold add_headers gens []"

definition get_module_path :: "(string \<times> string) list \<Rightarrow> string \<Rightarrow> string res" where
  "get_module_path gens m = (case filter (\<lambda>(m', _). m' = m) gens of [] \<Rightarrow> Inl ValueError | (_, p) # _ \<Rightarrow> Inr p)"

definition add_module :: "header_gen list \<Rightarrow> string \<times> string list \<Rightarrow> ns3_modules \<Rightarrow> ns3_modules" where
  "add_module headers g d =
     (case g of (name, deps) \<Rightarrow>
        if \<not> startswith name ''ns3-'' \<or> endswith name ''-test'' then d
        else let m = drop 4 name in
          dict_set m (deps, concat (map (\<lambda>(_, hs). map basename hs) (filter (\<lambda>(m', _). m' = m) headers))) d)"

definition get_modules_and_headers :: "(string \<times> string list) list \<Rightarrow> header_gen list \<Rightarrow> ns3_modules" where
  "get_modules_and_headers gens headers = fold (add_module headers) gens []"

section \<open>Bindings for 32 bits\<close>

text \<open>\<open>re.sub("unsigned long(?!( long))", "unsigned long long", text)\<close>.\<close>

abbreviation ULONG :: string where "ULONG \<equiv> ''unsigned long''"

function lp64_to_ilp32 :: "string \<Rightarrow> string" where
  "lp64_to_ilp32 [] = []"
| "lp64_to_ilp32 (c # s) =
     (if startswith (c # s) ULONG \<and> \<not> startswith (drop 13 (c # s)) '' long'' then ''unsigned long long'' @ lp64_to_ilp32 (drop 13 (c # s))
      else c # lp64_to_ilp32 s)"
  by pat_completeness auto
termination by (relation "measure length") auto

section \<open>Package files\<close>

text \<open>The environment of waf: the templates of flags, and for a dependency its paths, flags and libraries.\<close>

record pc_env =
  pe_static :: bool
  pe_template :: "string \<Rightarrow> string"
  pe_marker :: "string \<Rightarrow> string"
  pe_list :: "string \<Rightarrow> string list"
  pe_libs :: "string list"
  pe_prefix :: string
  pe_libdir :: string
  pe_includedir :: string
  pe_version :: string
  pe_suffix :: string

fun map_res :: "('a \<Rightarrow> 'b res) \<Rightarrow> 'a list \<Rightarrow> 'b list res" where
  "map_res f [] = Inr []"
| "map_res f (x # xs) = res_bind (f x) (\<lambda>y. res_bind (map_res f xs) (\<lambda>ys. Inr (y # ys)))"

definition flag :: "pc_env \<Rightarrow> string \<Rightarrow> string \<Rightarrow> string res" where
  "flag e t x = percent_format (pe_template e t) x"

definition self_libs :: "pc_env \<Rightarrow> string \<Rightarrow> string \<Rightarrow> string list res" where
  "self_libs e name libdir =
     (let (path_st, lib_st, marker) = (if pe_static e then (''STLIBPATH_ST'', ''STLIB_ST'', ''STLIB_MARKER'') else (''LIBPATH_ST'', ''LIB_ST'', ''SHLIB_MARKER'')) in
      res_bind (flag e path_st libdir) (\<lambda>p.
      res_bind (flag e lib_st name) (\<lambda>l. Inr ([p] @ (if pe_marker e marker = [] then [] else [pe_marker e marker]) @ [l]))))"

definition dep_libs :: "pc_env \<Rightarrow> string \<Rightarrow> string list res" where
  "dep_libs e dep =
     res_bind (concat_res (\<lambda>p. res_bind (flag e ''LIBPATH_ST'' p) (\<lambda>f. Inr (f # pe_list e (''LINKFLAGS_'' @ dep)))) (pe_list e (''LIBPATH_'' @ dep))) (\<lambda>ps.
     res_bind (map_res (flag e ''LIB_ST'') (pe_list e (''LIB_'' @ dep))) (\<lambda>ls. Inr (ps @ ls)))"

text \<open>Adding a string to a list adds its characters.\<close>

definition env_libs :: "pc_env \<Rightarrow> string list res" where
  "env_libs e = concat_res (\<lambda>l. res_bind (flag e ''LIB_ST'' l) (\<lambda>f. Inr (map (\<lambda>c. [c]) f))) (pe_libs e)"

definition dep_flags :: "pc_env \<Rightarrow> string \<Rightarrow> string list res" where
  "dep_flags e dep =
     res_bind (map_res (flag e ''DEFINES_ST'') (pe_list e (''DEFINES_'' @ dep))) (\<lambda>ds.
     res_bind (map_res (flag e ''CPPPATH_ST'') (pe_list e (''INCLUDES_'' @ dep))) (\<lambda>is.
       Inr (pe_list e (''CFLAGS_'' @ dep) @ pe_list e (''CXXFLAGS_'' @ dep) @ ds @ is)))"

definition required :: "pc_env \<Rightarrow> string list \<Rightarrow> string list" where
  "required e deps = map (\<lambda>d. ''libns'' @ pe_version e @ ''-'' @ drop 4 d @ pe_suffix e) (filter (\<lambda>d. startswith d ''ns3-'') deps)"

definition generate_pcfile :: "pc_env \<Rightarrow> string \<Rightarrow> string list \<Rightarrow> string list \<Rightarrow> string res" where
  "generate_pcfile e name deps export_includes =
     res_bind (self_libs e (''ns'' @ pe_version e @ ''-'' @ drop 4 name @ pe_suffix e) ''${libdir}'') (\<lambda>self.
     res_bind (concat_res (dep_libs e) deps) (\<lambda>libs.
     res_bind (env_libs e) (\<lambda>extra.
     res_bind (flag e ''CPPPATH_ST'' ''${includedir}'') (\<lambda>inc.
     res_bind (map_res (flag e ''CPPPATH_ST'') export_includes) (\<lambda>exports.
     res_bind (concat_res (dep_flags e) deps) (\<lambda>flags.
       Inr (concat (map (\<lambda>l. l @ nl)
         [''prefix='' @ pe_prefix e, ''libdir='' @ pe_libdir e, ''includedir='' @ pe_includedir e, [],
          ''Name: lib'' @ name, ''Description: ns-3 module '' @ name, ''Version: '' @ pe_version e,
          ''Libs: '' @ join '' '' (self @ libs @ extra), ''Cflags: '' @ join '' '' (inc # exports @ flags),
          ''Requires: '' @ join '' '' (required e deps)]))))))))"

section \<open>Contributed modules\<close>

text \<open>
  The tree below \<^verbatim>\<open>contrib\<close>: a directory with a \<^verbatim>\<open>wscript\<close> is a module, of any other one the entries are
  searched.  \<open>find_contrib_modules\<close> keeps a queue of entries with the path of their directory.
\<close>

datatype entry = File | Dir "(string \<times> entry) list"

definition ignored :: "string \<Rightarrow> bool" where
  "ignored n \<longleftrightarrow> n = [] \<or> hd n = CHR ''.'' \<or> endswith n ''CVS''"

definition queue_size :: "(string \<times> string \<times> entry) list \<Rightarrow> nat" where
  "queue_size queue = sum_list (map (\<lambda>(_, _, e). Suc (size e)) queue)"

lemma queue_size_simps [simp]:
  "queue_size [] = 0" "queue_size ((p, n, e) # q) = Suc (size e) + queue_size q" "queue_size (q @ r) = queue_size q + queue_size r"
  by (simp_all add: queue_size_def)

lemma queue_size_kids: "queue_size (map (Pair p) kids) < size (Dir kids)"
  by (induction kids) auto

lemma kid_size: "(n, k) \<in> set kids \<Longrightarrow> size k < size (Dir kids)"
  by (induction kids) auto

function contrib_loop :: "(string \<times> string \<times> entry) list \<Rightarrow> string list \<Rightarrow> string list" where
  "contrib_loop [] mods = sort mods"
| "contrib_loop ((path, name, e) # queue) mods =
     (if ignored name then contrib_loop queue mods
      else (case e of
        File \<Rightarrow> contrib_loop queue mods
      | Dir kids \<Rightarrow>
          if dict_has kids ''wscript'' then contrib_loop queue (mods @ [path @ name])
          else contrib_loop (queue @ map (\<lambda>(n, k). (path @ name @ ''/'', n, k)) kids) mods))"
  by pat_completeness auto
termination
  by (relation "measure (\<lambda>(queue, _). queue_size queue)") (auto simp: less_SucI [OF queue_size_kids] simp del: entry.size)

definition find_contrib_modules :: "(string \<times> entry) list \<Rightarrow> string list" where
  "find_contrib_modules kids = contrib_loop (map (\<lambda>(n, k). ([], n, k)) kids) []"

text \<open>The modules in the order of a search in depth.\<close>

function contrib_paths :: "string \<Rightarrow> string \<Rightarrow> entry \<Rightarrow> string list" where
  "contrib_paths path name e =
     (if ignored name then []
      else (case e of
        File \<Rightarrow> []
      | Dir kids \<Rightarrow> if dict_has kids ''wscript'' then [path @ name]
          else concat (map (\<lambda>(n, k). contrib_paths (path @ name @ ''/'') n k) kids)))"
  by pat_completeness auto
termination
  by (relation "measure (\<lambda>(_, _, e). size e)") (auto dest: kid_size simp del: entry.size)

declare contrib_paths.simps [simp del]

lemma contrib_loop_paths:
  "contrib_loop queue mods = sort (mods @ concat (map (\<lambda>(p, n, e). contrib_paths p n e) queue))"
proof (induction queue mods rule: contrib_loop.induct)
  case (2 path name e queue mods)
  show ?case
  proof (cases "ignored name \<or> e = File")
    case True
    then have "contrib_paths path name e = []" by (auto simp: contrib_paths.simps [of path name])
    then show ?thesis using True 2(1,2) by (cases "ignored name") simp_all
  next
    case False
    then obtain kids where e: "e = Dir kids" by (cases e) auto
    show ?thesis
    proof (cases "dict_has kids ''wscript''")
      case True
      then have "contrib_paths path name e = [path @ name]" using False e by (simp add: contrib_paths.simps [of path name])
      then show ?thesis using True False 2(3) e by simp
    next
      case no: False
      have "contrib_loop ((path, name, e) # queue) mods =
          sort (mods @ concat (map (\<lambda>(p, n, e). contrib_paths p n e) (queue @ map (\<lambda>(n, k). (path @ name @ ''/'', n, k)) kids)))"
        using False no 2(4) e by simp
      also have "\<dots> = sort (mods @ contrib_paths path name e @ concat (map (\<lambda>(p, n, e). contrib_paths p n e) queue))"
        using False no e by (intro properties_for_sort) (simp_all add: contrib_paths.simps [of path name "Dir kids"] comp_def case_prod_unfold)
      finally show ?thesis by simp
    qed
  qed
qed simp

text \<open>C32: the search of \<^verbatim>\<open>contrib\<close> with a queue finds, sorted, what a search in depth finds: every directory with a
  \<^verbatim>\<open>wscript\<close> that is not below another one nor below an ignored name.
\<close>

theorem contrib_search:
  "find_contrib_modules kids = sort (concat (map (\<lambda>(n, e). contrib_paths [] n e) kids))"
proof -
  have "concat (map (\<lambda>(p, n, e). contrib_paths p n e) (map (\<lambda>(n, k). ([], n, k)) kids)) = concat (map (\<lambda>(n, e). contrib_paths [] n e) kids)"
    by (simp add: comp_def case_prod_unfold)
  then show ?thesis by (simp add: find_contrib_modules_def contrib_loop_paths)
qed

section \<open>Conversion of bindings\<close>

abbreviation short_long :: "string \<Rightarrow> bool" where
  "short_long s \<equiv> startswith s ULONG \<and> \<not> startswith (drop 13 s) '' long''"

lemma lp64_other: "\<not> short_long (c # s) \<Longrightarrow> lp64_to_ilp32 (c # s) = c # lp64_to_ilp32 s"
  unfolding lp64_to_ilp32.simps(2) [of c s] by (rule if_not_P)

lemma lp64_match: "short_long (c # s) \<Longrightarrow> lp64_to_ilp32 (c # s) = ''unsigned long long'' @ lp64_to_ilp32 (drop 13 (c # s))"
  unfolding lp64_to_ilp32.simps(2) [of c s] by (rule if_P)

declare lp64_to_ilp32.simps(2) [simp del]

lemma lp64_short: "\<not> startswith t '' long'' \<Longrightarrow> lp64_to_ilp32 (ULONG @ t) = ''unsigned long long'' @ lp64_to_ilp32 t"
  using lp64_match [of "CHR ''u''" "''nsigned long'' @ t"] by (simp add: startswith_iff)

lemma lp64_keeps: "CHR ''u'' \<notin> set w \<Longrightarrow> lp64_to_ilp32 (w @ t) = w @ lp64_to_ilp32 t"
proof (induction w)
  case (Cons c w)
  then show ?case using lp64_other [of c "w @ t"] by (auto simp: startswith_iff)
qed simp

lemma lp64_ull: "lp64_to_ilp32 (''unsigned long long'' @ t) = ''unsigned long long'' @ lp64_to_ilp32 t"
  using lp64_other [of "CHR ''u''" "''nsigned long long'' @ t"] lp64_keeps [of "''nsigned long long''" t]
  by (simp add: startswith_iff)

lemma lp64_prefix:
  assumes "CHR ''u'' \<notin> set w" "startswith (lp64_to_ilp32 s) w"
  shows "startswith s w"
  using assms
proof (induction w arbitrary: s)
  case (Cons x w)
  show ?case
  proof (cases s)
    case (Cons c s')
    show ?thesis
    proof (cases "short_long s")
      case True
      then show ?thesis using Cons.prems lp64_match [of c s'] \<open>s = c # s'\<close> by (auto simp: startswith_iff)
    next
      case False
      then show ?thesis using Cons.prems Cons.IH [of s'] lp64_other [of c s'] \<open>s = c # s'\<close> by (auto simp: startswith_iff)
    qed
  qed (use Cons.prems in \<open>simp add: startswith_iff\<close>)
qed (simp add: startswith_def)

lemma lp64_twice: "lp64_to_ilp32 (lp64_to_ilp32 s) = lp64_to_ilp32 s"
proof (induction s rule: lp64_to_ilp32.induct)
  case (2 c s)
  show ?case
  proof (cases "short_long (c # s)")
    case True
    then show ?thesis unfolding lp64_match [OF True] lp64_ull by (simp only: 2(1) [OF True])
  next
    case False
    have "\<not> short_long (c # lp64_to_ilp32 s)"
    proof
      assume short: "short_long (c # lp64_to_ilp32 s)"
      then have c: "c = CHR ''u''" "startswith (lp64_to_ilp32 s) ''nsigned long''" by (auto simp: startswith_iff)
      then have "startswith s ''nsigned long''" using lp64_prefix [of "''nsigned long''"] by simp
      then obtain t where t: "s = ''nsigned long'' @ t" by (auto simp: startswith_iff)
      then obtain r where "t = '' long'' @ r" using False c(1) by (auto simp: startswith_iff)
      then have "lp64_to_ilp32 s = ''nsigned long long'' @ lp64_to_ilp32 r" using t lp64_keeps [of "''nsigned long long''" r] by simp
      then show False using short by (simp add: startswith_iff)
    qed
    from lp64_other [OF this] show ?thesis unfolding lp64_other [OF False] by (simp only: 2(2) [OF False])
  qed
qed simp

lemma lp64_length: "length s \<le> length (lp64_to_ilp32 s)"
proof (induction s rule: lp64_to_ilp32.induct)
  case (2 c s)
  show ?case
  proof (cases "short_long (c # s)")
    case True
    then show ?thesis using 2(1) [OF True] by (simp add: lp64_match)
  next
    case False
    then show ?thesis using 2(2) [OF False] by (simp add: lp64_other)
  qed
qed simp

lemma length_ull: "length ''unsigned long long'' = 18"
  by simp

lemma lp64_fixed:
  assumes "lp64_to_ilp32 s = s" "s = a @ ULONG @ b"
  shows "startswith b '' long''"
  using assms
proof (induction a arbitrary: s)
  case Nil
  show ?case
  proof (rule ccontr)
    assume "\<not> startswith b '' long''"
    then have "length s = 18 + length (lp64_to_ilp32 b)" using Nil lp64_short [of b] by (metis append_Nil length_append length_ull)
    then show False using Nil(2) lp64_length [of b] by simp
  qed
next
  case (Cons c a)
  show ?case
  proof (cases "short_long s")
    case True
    then obtain t where t: "s = ULONG @ t" by (auto simp: startswith_iff)
    then have "lp64_to_ilp32 s = ''unsigned long long'' @ lp64_to_ilp32 t" using True lp64_short [of t] by (simp add: startswith_iff)
    then have "length s = 18 + length (lp64_to_ilp32 t)" using Cons.prems(1) by (metis length_append length_ull)
    then show ?thesis using t lp64_length [of t] by simp
  next
    case False
    then show ?thesis using Cons.prems Cons.IH [of "a @ ULONG @ b"] lp64_other [of c "a @ ULONG @ b"] by simp
  qed
qed

text \<open>Converting the bindings to 32 bits once is enough: converting again changes nothing, and no \<open>unsigned long\<close> is
  left that is not followed by \<open> long\<close>.
\<close>

theorem lp64_converted:
  "lp64_to_ilp32 (lp64_to_ilp32 s) = lp64_to_ilp32 s \<and>
   (\<nexists>a b. lp64_to_ilp32 s = a @ ''unsigned long'' @ b \<and> \<not> startswith b '' long'')"
  using lp64_twice lp64_fixed by blast

text \<open>The pattern does not ask for the end of a word.\<close>

lemma lp64_within_words: "lp64_to_ilp32 ''unsigned longitude'' = ''unsigned long longitude''"
  by code_simp

section \<open>Headers of modules\<close>

lemma added_headers:
  "map_of (fold (\<lambda>h. dict_set (basename h) m) hs d) b = (if b \<in> basename ` set hs then Some m else map_of d b)"
  by (induction hs arbitrary: d) auto

lemma add_headers_get:
  "map_of (add_headers (m, hs) d) b = (if \<not> endswith m ''-test'' \<and> b \<in> basename ` set hs then Some m else map_of d b)"
  by (simp add: add_headers_def added_headers)

lemma later_headers:
  assumes "list_all (\<lambda>(m, hs). endswith m ''-test'' \<or> b \<notin> basename ` set hs) gens"
  shows "map_of (fold add_headers gens d) b = map_of d b"
  using assms by (induction gens arbitrary: d) (auto simp: add_headers_get)

lemma modular_path:
  assumes "pre = [] \<or> last pre = CHR ''/''" "cs \<noteq> []" "list_all path_word cs"
  shows "get_ns3_relative_path_modular (pre @ ''ns3/'' @ join ''/'' cs) = Inr (Some (join ''/'' cs))"
  using header_path [OF assms] by (auto simp: get_ns3_relative_path_modular_def get_ns3_relative_path_def mod_loop_agrees split: option.splits sum.splits)



text \<open>A private header is installed below \<^verbatim>\<open>ns3/private\<close>, and nothing of the table has such a name.\<close>

lemma table_has_names: "map_of (get_headers_map gens) b = Some m \<Longrightarrow> CHR ''/'' \<notin> set b"
proof -
  have "map_of (fold add_headers gens d) b = map_of d b \<or> (\<exists>h. b = basename h)" for d
  proof (induction gens arbitrary: d)
    case (Cons g gens)
    obtain m hs where "g = (m, hs)" by (cases g)
    then show ?case using Cons [of "add_headers g d"] by (auto simp: add_headers_get)
  qed simp
  from this [of "[]"] show "map_of (get_headers_map gens) b = Some m \<Longrightarrow> CHR ''/'' \<notin> set b"
    by (auto simp: get_headers_map_def basename_def dest: set_takeWhileD)
qed

lemma private_header_raises:
  assumes "de_file d = dir @ ''ns3/private/'' @ h" "path_word h" "dir = [] \<or> last dir = CHR ''/''"
  shows "PreScanHook tp (get_headers_map gens) own d s = Inl KeyError"
proof -
  have "get_ns3_relative_path_modular (de_file d) = Inr (Some (''private/'' @ h))"
    using modular_path [OF assms(3), of "[''private'', h]"] assms(1,2) by (simp add: path_word_def)
  moreover have "map_of (get_headers_map gens) (''private/'' @ h) = None"
    using table_has_names [of gens "''private/'' @ h"] by (cases "map_of (get_headers_map gens) (''private/'' @ h)") auto
  ultimately show ?thesis by (simp add: PreScanHook_def)
qed

text \<open>\<open>apply_ns3moduleheader\<close> finds what the table has.\<close>

lemma module_headers_found:
  assumes "module_headers m gens = Inr bs" "(m, hs) \<in> set gens" "h \<in> set hs"
  shows "basename h \<in> set bs"
proof -
  let ?gs = "filter (\<lambda>(m', _). m' = m) gens"
  have g: "(m, hs) \<in> set ?gs" using assms(2) by simp
  then obtain x xs where "?gs = x # xs" by (cases ?gs) auto
  then have "bs = concat (map (\<lambda>(_, hs). map basename (sort hs)) ?gs)" using assms(1) unfolding module_headers_def by simp
  moreover have "basename h \<in> set (map basename (sort hs))" using assms(3) by simp
  ultimately show ?thesis using g by (auto simp del: set_filter intro!: bexI [of _ "(m, hs)"])
qed

section \<open>Flags of packages\<close>

text \<open>A library of the environment is put into the package file character by character.\<close>

lemma env_libs_characters:
  "pe_template e ''LIB_ST'' = ''-l%s'' \<Longrightarrow> pe_libs e = [''rt''] \<Longrightarrow> env_libs e = Inr [''-'', ''l'', ''r'', ''t'']"
  by (simp add: env_libs_def flag_def, code_simp)

end
