(* ===== verification/Build_Programs.thy ===== *)
theory Build_Programs
  imports Build_Modules
begin

text \<open>
  How the task generators of a build come about: \<open>create_ns3_module\<close>, its test library and the bindings of a
  module in \<^verbatim>\<open>src/wscript\<close>, programs, scripts and scratch programs in the main \<^verbatim>\<open>wscript\<close>, and the scan and the
  module \<open>ns3\<close> in \<^verbatim>\<open>bindings/python/wscript\<close>.  A task generator is its place in the order of creation.
\<close>

section \<open>Task generators\<close>

record build_env =
  be_static :: bool
  be_darwin :: bool
  be_elf :: bool
  be_version :: string
  be_suffix :: string
  be_cxx_name :: string
  be_cc_name :: string
  be_soname :: bool
  be_pattern :: string
  be_shlib_flags :: "string list"
  be_out_dir :: string

record tgen =
  tn_gen :: taskgen
  tn_use :: "string list"
  tn_target :: string
  tn_flags :: "(string \<times> string list) list"

record project =
  pj_gens :: "tgen list"
  pj_groups :: "nat list list"
  pj_current :: nat
  pj_test_libraries :: "(string \<times> string) list"
  pj_scripts :: "(string \<times> string list) list"

text \<open>A call of the build context: waf makes a group when there is none.\<close>

definition add_gen :: "tgen \<Rightarrow> project \<Rightarrow> project" where
  "add_gen g p =
     (let n = length (pj_gens p);
          p = (if pj_groups p = [] then p\<lparr>pj_groups := [[]], pj_current := 0\<rparr> else p) in
      p\<lparr>pj_gens := pj_gens p @ [g], pj_groups := (pj_groups p)[pj_current p := pj_groups p ! pj_current p @ [n]]\<rparr>)"

definition plain_gen :: "string list \<Rightarrow> string \<Rightarrow> taskgen" where
  "plain_gen features here =
     \<lparr>tk_name = [], tk_features = features, tk_module = None, tk_deps = None, tk_is_module = False, tk_tests_of = None,
      tk_mode = ''install'', tk_dir = here\<rparr>"

definition append_value :: "string \<Rightarrow> string list \<Rightarrow> (string \<times> string list) list \<Rightarrow> (string \<times> string list) list" where
  "append_value k vs d = dict_set k ((case map_of d k of None \<Rightarrow> [] | Some l \<Rightarrow> l) @ vs) d"

definition soname_flags :: "build_env \<Rightarrow> string \<Rightarrow> string list res" where
  "soname_flags e target =
     (if \<not> be_static e \<and> be_cxx_name e \<in> {''gcc'', ''icc''} \<and> be_soname e
      then res_bind (percent_format (be_pattern e) (basename target)) (\<lambda>n. Inr [''-Wl,--soname='' @ n]) else Inr [])"

definition module_target :: "build_env \<Rightarrow> string \<Rightarrow> string \<Rightarrow> string" where
  "module_target e up name = up @ ''/lib/ns'' @ be_version e @ ''-'' @ name @ be_suffix e"

definition module_gen :: "build_env \<Rightarrow> string \<Rightarrow> string \<Rightarrow> string \<Rightarrow> string list \<Rightarrow> string list \<Rightarrow> tgen" where
  "module_gen e here up name deps linkflags =
     (let shlib = (if be_static e then [] else be_shlib_flags e) in
      \<lparr>tn_gen = (plain_gen [''cxx'', if be_static e then ''cxxstlib'' else ''cxxshlib'', ''ns3module''] here)
         \<lparr>tk_name := ns3_name name, tk_is_module := True\<rparr>,
       tn_use = map ns3_name deps, tn_target = module_target e up name,
       tn_flags = [(''CXXFLAGS'', shlib), (''CCFLAGS'', shlib), (''LINKFLAGS'', linkflags), (''CXXDEFINES'', [''NS3_MODULE_COMPILATION'']),
         (''CCDEFINES'', [''NS3_MODULE_COMPILATION'']), (''INCLUDES'', [be_out_dir e])]\<rparr>)"

definition pcfile_gen :: "string \<Rightarrow> string \<Rightarrow> tgen" where
  "pcfile_gen here module_name =
     \<lparr>tn_gen = (plain_gen [''ns3pcfile''] here)\<lparr>tk_module := Some module_name\<rparr>, tn_use = [], tn_target = [], tn_flags = []\<rparr>"

text \<open>\<open>here\<close> is the directory of the wscript as a build directory, \<open>up\<close> the way from it to the top.\<close>

definition create_ns3_module :: "build_env \<Rightarrow> string \<Rightarrow> string \<Rightarrow> string \<Rightarrow> string list \<Rightarrow> project \<Rightarrow> project res" where
  "create_ns3_module e here up name deps p =
     res_bind (soname_flags e (module_target e up name)) (\<lambda>fs.
       Inr (add_gen (pcfile_gen here (ns3_name name)) (add_gen (module_gen e here up name deps fs) p)))"

definition as_test_library :: "string \<Rightarrow> string \<Rightarrow> tgen \<Rightarrow> tgen" where
  "as_test_library include_flag name g =
     g\<lparr>tn_gen := (tn_gen g)\<lparr>tk_features := tk_features (tn_gen g) @ [''ns3testlib''], tk_is_module := False, tk_tests_of := Some (ns3_name name)\<rparr>,
       tn_flags := append_value ''CCFLAGS'' [include_flag] (append_value ''CXXFLAGS'' [include_flag] (tn_flags g))\<rparr>"

definition create_ns3_module_test_library :: "build_env \<Rightarrow> string \<Rightarrow> string \<Rightarrow> string \<Rightarrow> string \<Rightarrow> project \<Rightarrow> project res" where
  "create_ns3_module_test_library e here up from_build name p =
     (let n = length (pj_gens p); library = name @ ''-test'' in
      res_bind (create_ns3_module e here up library [name] p) (\<lambda>p.
        Inr (p\<lparr>pj_gens := (pj_gens p)[n := as_test_library (''-I'' @ from_build) name (pj_gens p ! n)],
               pj_test_libraries := pj_test_libraries p @ [(ns3_name name, ns3_name library)]\<rparr>)))"

definition program_flags :: "build_env \<Rightarrow> (string \<times> string list) list" where
  "program_flags e =
     (if be_static e then
        (if be_darwin e then [(''STLIB_MARKER'', [''-Wl,-all_load''])]
         else [(''STLIB_MARKER'', [''-Wl,-Bstatic,--whole-archive'']), (''SHLIB_MARKER'', [''-Wl,-Bdynamic,--no-whole-archive''])])
      else if be_elf e \<and> ''gcc'' \<in> {be_cxx_name e, be_cc_name e} then [(''SHLIB_MARKER'', [''-Wl,--no-as-needed''])] else [])"

definition program_gen :: "build_env \<Rightarrow> string \<Rightarrow> string \<Rightarrow> string list \<Rightarrow> tgen" where
  "program_gen e here name deps =
     \<lparr>tn_gen = (plain_gen [''cxx'', ''cxxprogram''] here)\<lparr>tk_name := name, tk_deps := Some (map ns3_name deps)\<rparr>,
      tn_use = map ns3_name deps, tn_target = program_name (be_version e) (be_suffix e) name, tn_flags = program_flags e\<rparr>"

definition create_ns3_program :: "build_env \<Rightarrow> string \<Rightarrow> string \<Rightarrow> string list \<Rightarrow> project \<Rightarrow> project" where
  "create_ns3_program e here name deps = add_gen (program_gen e here name deps)"

text \<open>A program that is made suid has a group of its own, and the group from before is set again.\<close>

definition create_suid_program :: "build_env \<Rightarrow> string \<Rightarrow> string \<Rightarrow> project \<Rightarrow> project" where
  "create_suid_program e here name p =
     (let g = \<lparr>tn_gen = (plain_gen [''cxx'', ''cxxprogram''] here)\<lparr>tk_name := name\<rparr>, tn_use = [],
            tn_target = program_name (be_version e) (be_suffix e) name, tn_flags = []\<rparr>;
          grp = pj_current p;
          p = p\<lparr>pj_groups := pj_groups p @ [[]], pj_current := length (pj_groups p)\<rparr> in
      (add_gen g p)\<lparr>pj_current := grp\<rparr>)"

definition register_ns3_script :: "string \<Rightarrow> string list \<Rightarrow> project \<Rightarrow> project" where
  "register_ns3_script name deps p = p\<lparr>pj_scripts := pj_scripts p @ [(name, map ns3_name deps)]\<rparr>"

text \<open>What the entries of \<^verbatim>\<open>scratch\<close> are: a directory is a program of its files, a file ending in \<open>.cc\<close> one of itself.\<close>

definition scratch_program :: "string \<Rightarrow> string \<times> bool \<Rightarrow> (string \<times> string) option" where
  "scratch_program scratch entry =
     (let (f, is_dir) = entry in
      if startswith f ''.'' \<or> f = ''CVS'' then None
      else if is_dir then Some (f, path_join scratch f)
      else if endswith f ''.cc'' then Some (strip_cc f, scratch)
      else None)"

definition scratch_gen :: "build_env \<Rightarrow> string list \<Rightarrow> string \<times> string \<Rightarrow> tgen" where
  "scratch_gen e mods np =
     (let g = program_gen e (snd np) (fst np) mods in g\<lparr>tn_target := fst np\<rparr>)"

fun add_scratch_programs :: "build_env \<Rightarrow> string \<Rightarrow> string list \<Rightarrow> (string \<times> bool) list \<Rightarrow> project \<Rightarrow> project" where
  "add_scratch_programs e scratch enabled [] p = p"
| "add_scratch_programs e scratch enabled (f # fs) p =
     (case scratch_program scratch f of
        None \<Rightarrow> add_scratch_programs e scratch enabled fs p
      | Some np \<Rightarrow> add_scratch_programs e scratch enabled fs (add_gen (scratch_gen e (map (drop 4) enabled) np) p))"

section \<open>The build\<close>

definition state_of :: "project \<Rightarrow> build_state" where
  "state_of p = \<lparr>bs_gens = map tn_gen (pj_gens p), bs_groups = pj_groups p, bs_programs = []\<rparr>"

definition config_of :: "build_env \<Rightarrow> project \<Rightarrow> build_config \<Rightarrow> build_config" where
  "config_of e p c =
     c\<lparr>bc_version := be_version e, bc_suffix := be_suffix e, bc_test_libraries := pj_test_libraries p, bc_scripts := pj_scripts p\<rparr>"

text \<open>
  \<open>build\<close> enables what the modules use, adds the scratch programs with all that is enabled by then, and leaves out
  the rest.
\<close>

definition build_project :: "uses \<Rightarrow> build_env \<Rightarrow> build_config \<Rightarrow> string \<Rightarrow> (string \<times> bool) list \<Rightarrow> project \<Rightarrow> (project \<times> built) res" where
  "build_project uses e c scratch listing p =
     res_bind (if bc_enabled c = [] \<and> bc_enabled_contrib c = [] then Inr ([], [])
               else enable_closure uses (bc_modules c) (bc_contrib c) (bc_enabled c) (bc_enabled_contrib c)) (\<lambda>(ms, cs).
     let p = add_scratch_programs e scratch (ms @ cs) listing p in
     res_bind (build_modules uses (config_of e p c) (state_of p)) (\<lambda>r. Inr (p, r)))"

definition new_project :: project where
  "new_project = \<lparr>pj_gens = [], pj_groups = [], pj_current = 0, pj_test_libraries = [], pj_scripts = []\<rparr>"

text \<open>What the wscripts of the modules and examples do.\<close>

inductive project_step :: "build_env \<Rightarrow> project \<Rightarrow> project \<Rightarrow> bool" for e where
  Module: "create_ns3_module e here up name deps p = Inr p' \<Longrightarrow> project_step e p p'"
| Test_Library: "create_ns3_module_test_library e here up fb name p = Inr p' \<Longrightarrow> project_step e p p'"
| Program: "project_step e p (create_ns3_program e here name deps p)"
| Suid: "project_step e p (create_suid_program e here name p)"
| Script: "project_step e p (register_ns3_script name deps p)"

section \<open>Bindings\<close>

text \<open>What \<open>ns3_python_bindings\<close> finds in the directory of a module, and the lists it appends to.\<close>

record bindings_dir =
  bd_exists :: bool
  bd_customizations :: bool
  bd_local :: bool
  bd_frontend :: bool

record bindings_env =
  bn_modular :: "string list"
  bn_built :: "string list"

definition underscored :: "string \<Rightarrow> string" where
  "underscored = map (\<lambda>c. if c = CHR ''-'' then CHR ''_'' else c)"

definition binding_sources :: "string \<Rightarrow> bindings_dir \<Rightarrow> string list" where
  "binding_sources apidefs d =
     [''bindings/python/ns3modulegen-modular.py'', ''bindings/modulegen__'' @ apidefs @ ''.py''] @
     (if bd_customizations d then [''bindings/modulegen_customizations.py''] else []) @
     (if bd_local d then [''bindings/modulegen_local.py''] else [])"

definition binding_argv :: "string \<Rightarrow> string \<Rightarrow> string \<Rightarrow> string list" where
  "binding_argv src apidefs extension =
     [''NS3_ENABLED_FEATURES=${FEATURES}'', ''GCC_RTTI_ABI_COMPLETE=${GCC_RTTI_ABI_COMPLETE}'', ''${PYTHON}'', ''${SRC[0]}'', src, apidefs,
      extension, ''${TGT[0]}'', ''2>'', ''${TGT[2]}'']"

definition enabled_features :: "(string \<times> string \<times> bool \<times> string) list \<Rightarrow> string" where
  "enabled_features fs = join '','' (map fst (filter (\<lambda>(_, _, was, _). was) fs))"

record bindings_config =
  bg_apiscan :: bool
  bg_enabled :: bool
  bg_apidefs :: "string option"
  bg_static :: bool
  bg_darwin :: bool
  bg_win32 :: bool
  bg_defines :: "string list"
  bg_features :: "(string \<times> string \<times> bool \<times> string) list"

definition extension_linkflags :: "bindings_config \<Rightarrow> string list \<Rightarrow> string list res" where
  "extension_linkflags g uses =
     (if \<not> bg_static g then Inr []
      else if bg_darwin g then Inl AttributeError
      else Inr ([''-Wl,--whole-archive,-Bstatic''] @ map (\<lambda>m. ''-l'' @ m) uses @ [''-Wl,-Bdynamic,--no-whole-archive'']))"

definition extension_defines :: "bindings_config \<Rightarrow> string list" where
  "extension_defines g =
     (let ds = bg_defines g @ [''NS_DEPRECATED='', ''NS3_DEPRECATED_H'', ''NS_DEPRECATED_3_32='', ''NS3_DEPRECATED_H'',
            ''NS_DEPRECATED_3_31='', ''NS3_DEPRECATED_H'', ''NS_DEPRECATED_3_30='', ''NS3_DEPRECATED_H''] in
      if bg_win32 g then remove1 ''_DEBUG'' ds else ds)"

text \<open>
  The commands to generate and compile the bindings: sources, arguments and the two task generators, of which the first
  has three targets and the first of these is given.  The definitions of the module are taken to exist.
\<close>

definition ns3_python_bindings ::
    "bindings_config \<Rightarrow> bindings_dir \<Rightarrow> string \<Rightarrow> string \<Rightarrow> string \<Rightarrow> string \<Rightarrow> string list \<Rightarrow> bindings_env \<Rightarrow>
     bindings_env \<times> (string list \<times> string list \<times> tgen \<times> tgen) option res" where
  "ns3_python_bindings g d here target_dir out module_dir module_use n =
     (let m = basename module_dir; n = n\<lparr>bn_modular := bn_modular n @ [ns3_name m]\<rparr> in
      if bg_apiscan g \<or> \<not> bg_enabled g \<or> \<not> bd_exists d then (n, Inr None)
      else
        let n = n\<lparr>bn_built := bn_built n @ [m]\<rparr> in
        (case bg_apidefs g of
           None \<Rightarrow> (n, Inr None)
         | Some a \<Rightarrow>
             let a = underscored a; ext = (if bd_frontend d then ''_'' @ underscored m else underscored m); us = module_use @ [ns3_name m] in
             (n, res_bind (extension_linkflags g us) (\<lambda>ls. Inr (Some (binding_sources a d, binding_argv module_dir a ext,
               \<lparr>tn_gen = (plain_gen [''command''] here)\<lparr>tk_name := ''pybindgen(ns3 module '' @ m @ '')'', tk_module := Some m\<rparr>,
                tn_use = [], tn_target = ''bindings/ns3module.cc'', tn_flags = [(''FEATURES'', [enabled_features (bg_features g)])]\<rparr>,
               \<lparr>tn_gen = (plain_gen [''cxx'', ''cxxshlib'', ''pyext''] here)\<lparr>tk_name := ''ns3module_'' @ m, tk_module := Some m\<rparr>,
                tn_use = us, tn_target = target_dir @ ''/'' @ ext,
                tn_flags = [(''LINKFLAGS'', ls), (''DEFINES'', extension_defines g), (''includes'', [out, out @ ''/src/core/bindings''])]\<rparr>))))))"

definition compat_module :: "string list \<Rightarrow> string" where
  "compat_module built =
     concat (map (\<lambda>l. l @ nl)
       ([''import warnings'',
         ''warnings.warn('' @ DQ @ ''the ns3 module is a compatibility layer and should not be used in newly written code'' @ DQ @
           '', DeprecationWarning, stacklevel=2)'', []] @
        map (\<lambda>m. ''from ns.'' @ underscored m @ '' import *'') built))"

text \<open>The target of a scan by the sizes of int, long and pointers.\<close>

definition scan_target :: "bool \<Rightarrow> nat \<times> nat \<times> nat \<Rightarrow> (string \<times> string) res" where
  "scan_target cygwin sizes =
     (if cygwin then Inr (''gcc_cygwin'', [])
      else if sizes = (4, 8, 8) then Inr (''gcc_LP64'', ''-m64'')
      else if sizes = (4, 4, 4) then Inr (''gcc_ILP32'', [])
      else Inl (UserException ''Cannot scan python bindings for unsupported data model''))"

fun upto_word :: "string \<Rightarrow> string \<Rightarrow> string" where
  "upto_word w [] = []"
| "upto_word w (c # s) = (if startswith (c # s) w then [] else c # upto_word w s)"

definition scan_modules :: "(tgen \<Rightarrow> bool) \<Rightarrow> string list \<Rightarrow> string \<Rightarrow> tgen list \<Rightarrow> string list" where
  "scan_modules in_test modular apiscan gens =
     (if apiscan = ''all'' then
        map (\<lambda>n. upto_word ''ns3-'' (drop 4 n)) (filter (\<lambda>n. n \<in> set modular) (map (tk_name \<circ> tn_gen)
          (filter (\<lambda>g. startswith (tk_name (tn_gen g)) ''ns3-'' \<and> \<not> in_test g \<and> \<not> endswith (tk_name (tn_gen g)) ''-test'') gens)))
      else split_on CHR '','' apiscan)"


section \<open>Projects\<close>

text \<open>Every generator is in one group, and where the name of a program is its file is in the directory of its wscript.\<close>

definition program_ok :: "build_env \<Rightarrow> tgen \<Rightarrow> bool" where
  "program_ok e g \<longleftrightarrow>
     (\<forall>ds. tk_deps (tn_gen g) = Some ds \<longrightarrow>
        ds = tn_use g \<and> tn_target g = program_name (be_version e) (be_suffix e) (tk_name (tn_gen g)))"

definition groups_ok :: "project \<Rightarrow> bool" where
  "groups_ok p \<longleftrightarrow>
     distinct (concat (pj_groups p)) \<and> set (concat (pj_groups p)) = {..<length (pj_gens p)} \<and>
     (pj_groups p \<noteq> [] \<longrightarrow> pj_current p < length (pj_groups p)) \<and> (pj_groups p = [] \<longrightarrow> pj_current p = 0)"

definition project_ok :: "build_env \<Rightarrow> project \<Rightarrow> bool" where
  "project_ok e p \<longleftrightarrow> groups_ok p \<and> (\<forall>g \<in> set (pj_gens p). program_ok e g)"

lemma concat_update_append:
  assumes "k < length gs"
  shows "set (concat (gs[k := gs ! k @ [x]])) = insert x (set (concat gs))"
    "distinct (concat (gs[k := gs ! k @ [x]])) \<longleftrightarrow> distinct (concat gs) \<and> x \<notin> set (concat gs)"
proof -
  have gs: "gs = take k gs @ gs ! k # drop (Suc k) gs" using assms by (simp add: id_take_nth_drop)
  have c: "concat (gs[k := gs ! k @ [x]]) = concat (take k gs) @ gs ! k @ x # concat (drop (Suc k) gs)"
    using assms by (simp add: upd_conv_take_nth_drop)
  have "concat gs = concat (take k gs) @ gs ! k @ concat (drop (Suc k) gs)"
    using arg_cong [OF gs, of concat] by (simp only: concat_append concat.simps)
  then show "set (concat (gs[k := gs ! k @ [x]])) = insert x (set (concat gs))"
    "distinct (concat (gs[k := gs ! k @ [x]])) \<longleftrightarrow> distinct (concat gs) \<and> x \<notin> set (concat gs)"
    unfolding c by (auto simp del: set_concat)
qed

lemma groups_ok_add:
  assumes "groups_ok p"
  shows "groups_ok (add_gen g p)"
proof (cases "pj_groups p = []")
  case True
  then have "pj_gens p = []" "pj_current p = 0" using assms by (auto simp: groups_ok_def dest!: sym [of "{}"])
  then show ?thesis using True by (auto simp: groups_ok_def add_gen_def Let_def)
next
  case False
  then show ?thesis using assms concat_update_append [of "pj_current p" "pj_groups p" "length (pj_gens p)"]
    by (auto simp: groups_ok_def add_gen_def Let_def lessThan_Suc simp del: set_concat)
qed

lemma add_gen_gens [simp]:
  "pj_gens (add_gen g p) = pj_gens p @ [g]" "pj_test_libraries (add_gen g p) = pj_test_libraries p" "pj_scripts (add_gen g p) = pj_scripts p"
  by (simp_all add: add_gen_def Let_def)

lemma project_ok_add: "project_ok e p \<Longrightarrow> program_ok e g \<Longrightarrow> project_ok e (add_gen g p)"
  by (auto simp: project_ok_def groups_ok_add)

lemma gens_ok:
  "program_ok e (module_gen e here up name deps fs)" "program_ok e (pcfile_gen here m)" "program_ok e (program_gen e here name deps)"
  by (simp_all add: program_ok_def module_gen_def pcfile_gen_def program_gen_def plain_gen_def Let_def)

lemma groups_ok_cong:
  "pj_groups p = pj_groups q \<Longrightarrow> length (pj_gens p) = length (pj_gens q) \<Longrightarrow> pj_current p = pj_current q \<Longrightarrow> groups_ok p \<longleftrightarrow> groups_ok q"
  by (simp add: groups_ok_def)

lemma project_ok_module:
  assumes "create_ns3_module e here up name deps p = Inr p'" "project_ok e p"
  shows "project_ok e p' \<and> (\<exists>fs. pj_gens p' = pj_gens p @ [module_gen e here up name deps fs, pcfile_gen here (ns3_name name)])"
  using assms by (auto simp: create_ns3_module_def res_bind_eq_Inr intro!: project_ok_add gens_ok)

lemma project_ok_step:
  assumes "project_step e p p'" "project_ok e p"
  shows "project_ok e p'"
  using assms
proof cases
  case (Module here up name deps)
  then show ?thesis using project_ok_module assms(2) by blast
next
  case (Test_Library here up fb name)
  then obtain q where q: "create_ns3_module e here up (name @ ''-test'') [name] p = Inr q"
      "p' = q\<lparr>pj_gens := (pj_gens q)[length (pj_gens p) := as_test_library (''-I'' @ fb) name (pj_gens q ! length (pj_gens p))],
        pj_test_libraries := pj_test_libraries q @ [(ns3_name name, ns3_name (name @ ''-test''))]\<rparr>"
    by (auto simp: create_ns3_module_test_library_def Let_def res_bind_eq_Inr)
  obtain fs where g: "project_ok e q" "pj_gens q = pj_gens p @ [module_gen e here up (name @ ''-test'') [name] fs, pcfile_gen here (ns3_name (name @ ''-test''))]"
    using project_ok_module [OF q(1) assms(2)] by blast
  have "program_ok e (as_test_library x name (module_gen e here up (name @ ''-test'') [name] fs))" for x
    by (simp add: program_ok_def as_test_library_def module_gen_def plain_gen_def Let_def)
  then show ?thesis using g assms(2) gens_ok(2) unfolding q(2) project_ok_def
    by (auto simp: groups_ok_def nth_append list_update_append)
next
  case (Suid here name)
  let ?q = "p\<lparr>pj_groups := pj_groups p @ [[]], pj_current := length (pj_groups p)\<rparr>"
  have q: "groups_ok ?q" using assms(2) by (auto simp: project_ok_def groups_ok_def)
  have "groups_ok (r\<lparr>pj_current := pj_current p\<rparr>)" if "groups_ok r" "length (pj_groups r) = length (pj_groups p) + 1" for r
    using that assms(2) by (cases "pj_groups r = []") (auto simp: groups_ok_def project_ok_def)
  from this [OF groups_ok_add [OF q]] show ?thesis using Suid assms(2)
    by (auto simp: project_ok_def create_suid_program_def Let_def program_ok_def plain_gen_def add_gen_def)
next
  case (Program here name deps)
  then show ?thesis using assms(2) by (simp add: create_ns3_program_def project_ok_add gens_ok)
next
  case (Script name deps)
  then show ?thesis using assms(2) by (simp add: register_ns3_script_def project_ok_def groups_ok_def)
qed

lemma project_ok_reachable:
  assumes "(project_step e)\<^sup>*\<^sup>* new_project p"
  shows "project_ok e p"
  using assms
proof (induction rule: rtranclp_induct)
  case base
  then show ?case by (simp add: project_ok_def groups_ok_def new_project_def)
qed (rule project_ok_step)

section \<open>Scratch programs\<close>

definition scratch_programs :: "string \<Rightarrow> (string \<times> bool) list \<Rightarrow> (string \<times> string) list" where
  "scratch_programs scratch listing = map the (filter (\<lambda>x. x \<noteq> None) (map (scratch_program scratch) listing))"

lemma add_scratch_gens:
  "pj_gens (add_scratch_programs e scratch enabled listing p) = pj_gens p @ map (scratch_gen e (map (drop 4) enabled)) (scratch_programs scratch listing)"
  by (induction listing arbitrary: p) (auto simp: scratch_programs_def split: option.split)

lemma groups_ok_scratch: "groups_ok p \<Longrightarrow> groups_ok (add_scratch_programs e scratch enabled listing p)"
  by (induction listing arbitrary: p) (auto split: option.split intro: groups_ok_add)

lemma ns3_name_drop: "startswith m ''ns3-'' \<Longrightarrow> ns3_name (drop 4 m) = m"
  by (auto simp: startswith_iff ns3_name_def)

lemma scratch_gen_fields:
  "list_all (\<lambda>m. startswith m ''ns3-'') enabled \<Longrightarrow> tk_deps (tn_gen (scratch_gen e (map (drop 4) enabled) (n, d))) = Some enabled"
  "tk_name (tn_gen (scratch_gen e mods (n, d))) = n" "tk_dir (tn_gen (scratch_gen e mods (n, d))) = d" "tn_target (scratch_gen e mods (n, d)) = n"
  by (simp_all add: scratch_gen_def program_gen_def plain_gen_def Let_def comp_def list_all_iff ns3_name_drop map_idI)

text \<open>The programs of a build: those of the project whose modules are enabled, and all scratch programs.\<close>

lemma build_project_parts:
  assumes "build_project uses e c scratch listing p = Inr (q, r)" "bc_enabled c \<noteq> [] \<or> bc_enabled_contrib c \<noteq> []" "groups_ok p"
  obtains ms cs where "enable_closure uses (bc_modules c) (bc_contrib c) (bc_enabled c) (bc_enabled_contrib c) = Inr (ms, cs)"
    "q = add_scratch_programs e scratch (ms @ cs) listing p"
    "set ms \<union> set cs = (use_rel uses)\<^sup>* `` (set (bc_enabled c) \<union> set (bc_enabled_contrib c))"
    "set (bs_programs (bt_state r)) =
      (\<Union>g \<in> set (pj_gens q). set (runnable_path (be_version e) (be_suffix e) (set ms \<union> set cs) (tn_gen g)))"
proof -
  obtain ms cs where 1: "enable_closure uses (bc_modules c) (bc_contrib c) (bc_enabled c) (bc_enabled_contrib c) = Inr (ms, cs)"
      "q = add_scratch_programs e scratch (ms @ cs) listing p" "build_modules uses (config_of e q c) (state_of q) = Inr r"
    using assms(1,2) by (auto simp: build_project_def Let_def res_bind_eq_Inr split: if_splits)
  have en: "set ms \<union> set cs = (use_rel uses)\<^sup>* `` (set (bc_enabled c) \<union> set (bc_enabled_contrib c))"
    using conjunct1 [OF enable_closure_reached [OF 1(1)]] by simp
  have q: "groups_ok q" unfolding 1(2) by (rule groups_ok_scratch [OF assms(3)])
  then have idx: "set (concat (pj_groups q)) = {..<length (pj_gens q)}" "distinct (concat (pj_groups q))" by (simp_all add: groups_ok_def)
  have programs: "bs_programs (bt_state r) = concat (map (\<lambda>i. runnable_path (be_version e) (be_suffix e) (set ms \<union> set cs) (map tn_gen (pj_gens q) ! i)) (concat (pj_groups q)))"
    using build_modules_spec [OF 1(3)] assms(2) idx by (simp add: config_of_def state_of_def en del: set_concat)
  have nth_gens: "set (pj_gens q) = (\<lambda>i. pj_gens q ! i) ` {..<length (pj_gens q)}" by (auto simp: set_conv_nth)
  have "set (bs_programs (bt_state r)) = (\<Union>i < length (pj_gens q). set (runnable_path (be_version e) (be_suffix e) (set ms \<union> set cs) (map tn_gen (pj_gens q) ! i)))"
    unfolding programs by (simp only: set_concat set_map idx(1) [unfolded set_concat] image_image)
  also have "\<dots> = (\<Union>g \<in> set (pj_gens q). set (runnable_path (be_version e) (be_suffix e) (set ms \<union> set cs) (tn_gen g)))"
    unfolding nth_gens by (simp add: image_image)
  finally show thesis using that 1(1,2) en by blast
qed


definition demo_gcc_env :: build_env where
  "demo_gcc_env = \<lparr>be_static = False, be_darwin = False, be_elf = True, be_version = ''3.33'', be_suffix = ''-debug'', be_cxx_name = ''gcc'',
     be_cc_name = ''gcc'', be_soname = True, be_pattern = ''lib%s.so'', be_shlib_flags = [''-fPIC''], be_out_dir = ''build''\<rparr>"

definition demo_project :: project where
  "demo_project = create_ns3_program demo_gcc_env ''build/examples'' ''first'' [''internet''] new_project"


text \<open>A scratch program has the plain name, so what the list says of it is not its file.\<close>

lemma scratch_listed_elsewhere:
  "tn_target (scratch_gen e mods (n, d)) \<noteq> program_name (be_version e) (be_suffix e) (tk_name (tn_gen (scratch_gen e mods (n, d))))"
proof -
  have "length (program_name (be_version e) (be_suffix e) n) > length n" by (simp add: program_name_def)
  then show ?thesis by (metis less_irrefl scratch_gen_fields(2,4))
qed

section \<open>Test libraries and bindings\<close>

text \<open>The package file of a test library is for the library, which is never among the enabled modules by itself.\<close>

lemma test_library_created:
  assumes "create_ns3_module_test_library e here up fb name p = Inr p'"
  shows "\<exists>g. pj_gens p' = pj_gens p @ [g, pcfile_gen here (ns3_name (name @ ''-test''))] \<and> tk_tests_of (tn_gen g) = Some (ns3_name name) \<and>
    \<not> tk_is_module (tn_gen g) \<and> tn_use g = [ns3_name name]"
  using assms
  by (auto simp: create_ns3_module_test_library_def create_ns3_module_def Let_def res_bind_eq_Inr nth_append list_update_append as_test_library_def
      module_gen_def plain_gen_def)

lemma test_package_left_out: "ns3_name (name @ ''-test'') \<notin> enabled \<Longrightarrow> \<not> kept tests enabled (tn_gen (pcfile_gen here (ns3_name (name @ ''-test''))))"
  by (simp add: kept_def pcfile_gen_def plain_gen_def)

text \<open>A module counts as one with bindings before it is known whether there are any.\<close>

lemma listed_without_bindings:
  "\<not> bg_enabled g \<Longrightarrow> ns3_python_bindings g d here target_dir out dir us n = (n\<lparr>bn_modular := bn_modular n @ [ns3_name (basename dir)]\<rparr>, Inr None)"
  by (simp add: ns3_python_bindings_def Let_def)

text \<open>The module that imports all others imports each module whose bindings are made, under the name of its extension.\<close>

lemma bindings_made:
  assumes "bd_exists d" "bg_enabled g" "\<not> bg_apiscan g" "bg_apidefs g = Some a" "\<not> (bg_static g \<and> bg_darwin g)" "\<not> bd_frontend d"
  shows "\<exists>src argv bindgen pymod. ns3_python_bindings g d here target_dir out dir us n =
      (\<lparr>bn_modular = bn_modular n @ [ns3_name (basename dir)], bn_built = bn_built n @ [basename dir]\<rparr>, Inr (Some (src, argv, bindgen, pymod))) \<and>
    tn_target pymod = target_dir @ ''/'' @ underscored (basename dir) \<and> ns3_name (basename dir) \<in> set (tn_use pymod)"
  using assms by (auto simp: ns3_python_bindings_def extension_linkflags_def Let_def)

end
