(* ===== verification/Spec2Isabelle.thy ===== *)
theory Spec2Isabelle
  imports Waf_Run Waf_Command Topsort Find_Cycles Compiler_Flags Module_Success Check_Style Grid_View Test_Dispatch
    Viz_Thread Viz_User Viz_Windows Viz_Axes Viz_Wifi Version_Info
    Binding_Generate Flow_Monitor Build_Files Build_Programs
begin

text \<open>
  A verification library for the Python tools of the ns-3 repository.  It models what the
  programs compute, state by state and branch by branch, and proves what makes them correct.

  \<^bold>\<open>Parts of the program and their theories\<close>

  \<^item> \<open>Py_Prelude\<close>: the Python that all parts use.  Exceptions are values of \<open>exn\<close>; code that may raise
    returns \<open>exn + 'a\<close> (\<open>res_bind\<close> is sequencing, \<open>concat_res\<close> a loop that writes); strings are
    lists of characters; dictionaries are association lists in insertion order.
  \<^item> \<open>Check_Style\<close>: \<^verbatim>\<open>utils/check-style.py\<close>.  \<open>PatchChunkLine\<close>, \<open>PatchChunk\<close> and \<open>Patch\<close> are
    records; \<open>parse_patchset\<close> is a fold over the lines with a record of its variables;
    \<open>remove_trailing_whitespace_changes\<close> works on positions in a chunk, since source and
    destination lists share the line objects; \<open>indent\<close>, \<open>indent_files\<close> and \<open>run_as_main\<close> take the
    external programs (uncrustify, patch, git, difflib) as the record \<open>tools\<close> and the files
    as a partial function.
  \<^item> \<open>Py2_Num\<close>: the numbers of Python 2, ints and floats (as exact rationals), for the next part.
  \<^item> \<open>Grid_Data\<close>: \<^verbatim>\<open>utils/grid.py\<close>, from \<open>DataRange\<close> to \<open>Colors\<close>, and \<open>read_data\<close>.  \<open>Grid_Render\<close>: the
    renderers of legend, rows and scales; drawing is the list of calls on the cairo context, and
    cairo's measure of text is the parameter \<open>ext\<close>.  \<open>Grid_View\<close>: \<open>GraphicRenderer\<close>, the handlers
    of \<open>GtkGraphicRenderer\<close> as functions on the record \<open>widget\<close>, the step relation \<open>widget_step\<close>
    of everything a user can do, and \<open>main\<close>.
  \<^item> \<open>Build_Config\<close>: \<^verbatim>\<open>utils.py\<close>, which reads lists and booleans out of files of assignments.
  \<^item> \<open>Test_Report\<close>: of \<^verbatim>\<open>test.py\<close>, \<open>read_test\<close>, \<open>translate_to_text\<close> and \<open>translate_to_html\<close>; the XML file is
    a tree of \<open>xml\<close>, a report is the list of its writes.
  \<^item> \<open>Test_Jobs\<close>: options, configuration, \<open>run_job_synchronously\<close>, the class \<open>Job\<close>.  The shell is a parameter.
  \<^item> \<open>Test_Pool\<close>: \<open>worker_thread\<close> and the two queues as the step relation \<open>pool_step\<close> on the record
    \<open>pool\<close>; the rules are the actions another thread can see, in any order.
  \<^item> \<open>Test_Collect\<close>: what the main thread does with a received job, summary, reports and exit code.
  \<^item> \<open>Test_Run\<close> and \<open>Test_Dispatch\<close>: the waf configuration, environment, examples, choice of suites
    (with \<open>fnmatch\<close>), the jobs, and \<open>run_tests\<close> as a whole, given what the main thread receives.
    The machine is the record \<open>env\<close>; Python's \<open>eval\<close> and \<open>exec\<close> are fields of it.
  \<^item> \<open>Shell_Cmd\<close>: \<^verbatim>\<open>waf-tools/shellcmd.py\<close>.  The lexer (\<open>shlex.split\<close>), the parser as a step function on
    its states, and \<open>run\<close>, which starts the commands of a pipeline; files and processes are the oracle
    \<open>shell_os\<close>, and what the program asks of it is a trace of events.  \<open>Shell_Print\<close>: the round trip.
  \<^item> \<open>Waf_Run\<close>: \<^verbatim>\<open>wutils.py\<close>, which finds the program of \<^verbatim>\<open>waf --run\<close>, builds its command line (with the
    lexer of \<open>Shell_Cmd\<close>) and environment, and runs it; waf's state is a record, a process an oracle.
    \<open>Waf_Command\<close>: \<^verbatim>\<open>waf-tools/command.py\<close>, the task that substitutes \<open>${...}\<close> in a command line and
    runs it with \<open>Shell_Cmd\<close>; Python's \<open>eval\<close> is a parameter.
  \<^item> \<open>Rad_Util\<close>: the utilities of \<^verbatim>\<open>bindings/python/rad_util.py\<close>.  \<open>Topsort\<close> and \<open>Find_Cycles\<close>:
    \<^verbatim>\<open>bindings/python/topsort.py\<close>, with the order in which a dictionary gives its keys as a parameter.
  \<^item> \<open>Compiler_Flags\<close>: \<^verbatim>\<open>waf-tools/cflags.py\<close>, on the waf environment as a dictionary of lists.
  \<^item> \<open>Module_Templates\<close> and \<open>Create_Module\<close>: \<^verbatim>\<open>utils/create-module.py\<close>, its templates and the operations
    on a file system that may refuse a creation.  \<open>Module_Creation\<close> and \<open>Module_Success\<close>: their properties.
  \<^item> \<open>Viz_Thread\<close>: of the visualizer (\<^verbatim>\<open>visualizer/core.py\<close>), the thread that runs the simulator and the timer
    that updates the view: the lock, the go event and nested callbacks as the step relation \<open>viz_step\<close>.
    The simulator is a parameter.
  \<^item> \<open>Viz_Base\<close>: \<^verbatim>\<open>base.py\<close> (coordinates, device traits, loading of plugins) and the sizes of \<^verbatim>\<open>svgitem.py\<close>.
    \<open>Viz_Window\<close>: zoom, panning, autoscale.  \<open>Viz_Model\<close>: \<open>Node\<close>, \<open>Channel\<close>, \<open>WiredLink\<close>, the
    scanning of the topology, selection, following and dragging, on the record \<open>view\<close> and the record
    \<open>network\<close> of ns-3; links are numbers, as nodes and channels share them.  \<open>Viz_Follow\<close>: its
    invariant \<open>picture_ok\<close>; \<open>Viz_Scan\<close>: what scanning makes; \<open>Viz_User\<close>: the relation
    \<open>world_step\<close> of everything the user and the simulation do.
  \<^item> \<open>Viz_Traffic\<close>: transmissions and drops and the pools of arrows that show them, with the statistics
    of \<^verbatim>\<open>plugins/interface_statistics.py\<close>.  \<open>Viz_Windows\<close>: the windows of routes, last packets and statistics,
    the filter of packets, and \<open>update_view\<close> as a whole.  \<open>Viz_Axes\<close>: \<^verbatim>\<open>hud.py\<close>, the axes and their labels.
    \<open>Viz_Wifi\<close>: \<^verbatim>\<open>plugins/wifi_intrastructure_link.py\<close>, the links of stations to access points.
  \<^item> \<open>Version_Info\<close>: \<^verbatim>\<open>waf-tools/versioning.py\<close>, which reads version fields from the tags of git or from a cache.
  \<^item> \<open>Binding_Types\<close>: \<^verbatim>\<open>ns3modulegen_core_customizations.py\<close>, the types of smart pointers, the handlers and
    classes of callbacks, and what is done to objects and attributes; pybindgen is a record of answers.
    \<open>Binding_Scan\<close>: the paths of headers in \<^verbatim>\<open>ns3modulescan.py\<close> and \<^verbatim>\<open>ns3modulescan-modular.py\<close>;
    \<open>Binding_Hooks\<close>: their hooks, which annotate a definition out of a shared table; \<open>Binding_Plan\<close>: the
    sections in the order \<open>Topsort\<close> gives, and the classifier.  \<open>Binding_Generate\<close>: the steps and the
    errors of \<^verbatim>\<open>ns3modulegen-modular.py\<close>.
  \<^item> \<open>Flow_Monitor\<close>: \<^verbatim>\<open>flow-monitor/examples/flowmon-parse-results.py\<close>, from the tree of the file to the
    printed report; flows shared by a list and a map are places in the list.
  \<^item> \<open>Build_Modules\<close>: the main \<^verbatim>\<open>wscript\<close>: how \<open>configure\<close> chooses modules, the loop of \<open>build\<close> that enables what
    they use, the task generators it leaves out, and \<open>get_build_profile\<close>; what waf knows of a module is the
    parameter \<open>uses\<close>, and the groups of task generators hold places in their list.  \<open>Build_Programs\<close>: how the
    task generators are made, by \<open>create_ns3_module\<close> and the like, from scratch files and for bindings, as the
    relation \<open>project_step\<close>, and \<open>build\<close> over them.  \<open>Build_Files\<close>: the header
    and the package file of a module (\<^verbatim>\<open>src/wscript\<close>), the table of headers for the scan of the bindings and their
    conversion to 32 bits (\<^verbatim>\<open>bindings/python/wscript\<close>), the search for modules in \<^verbatim>\<open>contrib/wscript\<close>, and the lists
    printed at the end of a build.
  \<^item> This theory: the verdict of a whole run of \<^verbatim>\<open>test.py\<close>, over dispatch, threads and summary.

  \<^bold>\<open>Interfaces\<close>

  Locales state what one part relies on of another, and are interpreted on the model's own
  definitions: \<open>key_cmp\<close> (a three-way comparison, for sorting ranges and events), \<open>registry\<close> (lookup
  by name that adds a missing entry, for timelines, rows of ranges and of events), \<open>job_runner\<close> (a
  runner that keeps a job's identity, for \<open>run_job\<close>), \<open>key_order\<close> (the keys of a dictionary in some
  order, for the topological sort, interpreted on the order of insertion), \<open>arrow_painter\<close> (what drawing
  one arrow keeps, for the two pools of arrows of the visualizer).

  \<^bold>\<open>What the lemmas show\<close>

  \<^item> Round trips: printed patch sets, data lines, command lines and binary numerals are read back;
    configuration lists are found; the words of \<^verbatim>\<open>git describe\<close> are taken apart, and the cache of the
    version gives the fields back.
  \<^item> Types: a parsed command line is well formed, and a well formed one runs without getting stuck.
  \<^item> Functional specifications: both binary searches and the windows they select, stable sorting,
    what a data file's rows hold, which suites are run or skipped, the text report in preorder,
    topological order and levels, all simple cycles once up to rotation, the flags of a profile,
    the files of a new module; the sections, imports and pointer types of the bindings; the statistics and
    five tuples of flows; the modules and programs of a build and the headers its scan finds; the picture of a scanned topology, the arrows of the transmissions, the
    links of wireless stations, the ticks of the axes.
  \<^item> Invariants: the widget's selection under any sequence of events; the jobs in the queues and
    workers under any interleaving; unique names; links drawn between their ends and one selected node,
    whatever the user does.
  \<^item> Equivalence: the search for contributed modules with a queue and in depth; both versions of the paths of headers.
  \<^item> Refinement and liveness: the threaded run gives the summary of the sequential one; no
    reachable state is stuck; every schedule is finite (\<open>effort\<close> bounds its steps).  A command line
    with one kind of conditional returns what a POSIX shell returns.  The visualizer's lock can always
    be had, a go signal is served, and quitting ends the simulation thread.
  \<^item> Safety: opened files are closed; a failed creation of a module leaves no trace but directories
    above it; a run of \<^verbatim>\<open>create-module.py\<close> changes nothing that was there; the view and the simulation
    never use the model at once; a build leaves nothing of a module that is not enabled.
  \<^item> Errors: where the programs raise or misbehave is stated as exactly as what they do right.

  \<^bold>\<open>Recursion and bounds\<close>

  Definitions are total but for three.  Loops are structural or have a measure: the distance of the
  bounds of a binary search, the distance of \<open>closest\<close> to the span of a scale, the pattern and text
  of \<open>fnmatch\<close>, the modules not yet enabled, the entries still to search, the elements without a level,
  the paths of a graph not yet extended.  No fuel is used.  The unbounded loops of a worker and of the
  simulation thread are step relations.  Three loops are partial functions: the one over the ticks of an
  axis, which would not end with a step of 0, is proved to return; so is the walk up the types of ns-3, where
  no type is above itself; the path loop of the older scan is proved to return exactly where the later one
  does not raise \<open>ValueError\<close>.

  \<^bold>\<open>Not modelled\<close>

  Floating point rounding; verbose messages; creation and removal of temporary directories;
  windows and dialogs of \<open>MainWindow\<close>; the translation of undecodable output to its printed form.
  The formatting of floats, clock and module lookup of \<^verbatim>\<open>rad_util.py\<close>; the removal of a directory tree
  is taken to succeed; names of modules are ASCII.
  Numbers of the visualizer are rational, real in the logarithms; building its windows, painting, tooltips,
  screenshots, and its IPython shell are left out.
  What pybindgen and pygccxml do is a parameter of the binding generator, and the steps that only call
  them are left out; of an XML file the model starts with the tree.
  Of the repository: the C++ simulator; the generated bindings, which are nearly all of its Python and
  only list calls of pybindgen; and of the wscripts and waf extensions what probes the system, sets flags, writes the
  documentation or hands nodes to waf.
\<close>

section \<open>The verdict of a test run\<close>

text \<open>C1: a run of \<^verbatim>\<open>test.py\<close> that is not interrupted exits with 0 exactly when every job it decided to
  run was skipped or was run and returned 0 - whatever the number of workers and however the
  threads interleaved.\<close>

theorem test_py_verdict:
  assumes plan: "decide e c0 opts environ = Inr (Go p)"
    and reach: "(pool_step (run_job (en_sh e) (pn_config p) opts))\<^sup>*\<^sup>* (new_pool (pn_processors p) (pn_jobs p)) s"
    and left: "pl_left s = 0" and calm: "\<not> pl_exit s"
    and run: "run_tests e read_xml c0 opts environ color (\<lambda>_. pl_received s) fs = Inr (lines, files, code)"
  shows "main_status code = 0 \<longleftrightarrow>
    (\<forall>j \<in> set (pn_jobs p). is_skip j \<or> (\<exists>j'. run_job (en_sh e) (pn_config p) opts j = Inr j' \<and> returncode j' = 0))"
proof -
  let ?run = "run_job (en_sh e) (pn_config p) opts" and ?got = "pl_received s"
  have jobs: "\<forall>j \<in> set (pn_jobs p). \<not> is_break j" by (rule decide_plain [OF plan])
  have out: "image_mset Inr (mset ?got) = image_mset (outcome ?run) (mset (pn_jobs p))"
    by (rule received_outcomes_mset [OF jobs reach left calm])
  have len: "length ?got = length (pn_jobs p)" using arg_cong [OF out, of size] by simp
  obtain r where r: "collect_jobs opts color fs (length ?got) ?got new_summary = Inr r"
    and code: "code = Some (exit_code (length ?got) r)"
    using run by (auto simp: run_tests_def plan res_bind_eq_Inr Let_def len finish_tests_def)
  have img: "Inr ` set ?got = outcome ?run ` set (pn_jobs p)"
    using arg_cong [OF out, of set_mset] by simp
  have nb: "\<not> is_break j" if "j \<in> set ?got" for j
  proof -
    have "Inr j \<in> outcome ?run ` set (pn_jobs p)"
      unfolding img [symmetric] using that by (rule imageI)
    then obtain i where i: "Inr j = outcome ?run i" "i \<in> set (pn_jobs p)" by (rule imageE)
    from outcome_keeps(1) [OF i(1) [symmetric]] jobs i(2) show ?thesis by simp
  qed
  have "main_status code = 0 \<longleftrightarrow> (\<forall>j \<in> set ?got. is_skip j \<or> returncode j = 0)"
    using exit_code_zero_iff [OF r] nb by (auto simp: main_status_def code)
  also have "\<dots> \<longleftrightarrow> (\<forall>x \<in> (Inr :: job \<Rightarrow> job res) ` set ?got. \<exists>j. x = Inr j \<and> (is_skip j \<or> returncode j = 0))"
    by auto
  also have "\<dots> \<longleftrightarrow> (\<forall>i \<in> set (pn_jobs p). \<exists>j. outcome ?run i = Inr j \<and> (is_skip j \<or> returncode j = 0))"
    unfolding img by blast
  also have "\<dots> \<longleftrightarrow> (\<forall>j \<in> set (pn_jobs p). is_skip j \<or> (\<exists>j'. ?run j = Inr j' \<and> returncode j' = 0))"
    by (simp only: outcome_zero_iff)
  finally show ?thesis .
qed


definition verdict_env :: env where
  "verdict_env = demo_env\<lparr>en_nprocs := 1,
     en_fs := [''.lock-waf_linux_build'' \<mapsto> ''top_dir = /ns3'' @ nl @ ''out_dir = /ns3/build'' @ nl,
       ''/ns3/build/c4che/_cache.py'' \<mapsto> [], ''/ns3/build/build-status.py'' \<mapsto> []],
     en_sh := \<lambda>cmd dir. Inr \<lparr>sr_returncode = 0,
       sr_stdout = (if substr_in ''performance'' cmd then [] else ''nsc-tcp-loss'' @ nl), sr_stderr = [], sr_elapsed = 1\<rparr>\<rparr>"

definition verdict_options :: options where
  "verdict_options = default_options\<lparr>op_nowaf := True\<rparr>"

lemma verdict_config: "read_waf_config verdict_env demo_config = Inr demo_config"
  by code_simp

lemma verdict_lists:
  "exists_file verdict_env (path_join (cf_builddir demo_config) ''build-status.py'')"
  "get_list_from_file (en_eval_names verdict_env) (en_fs verdict_env)
     (path_join (cf_builddir demo_config) ''build-status.py'') nm = Inr []"
  by (simp_all add: verdict_env_def demo_env_def demo_config_def path_join_def startswith_def endswith_def get_list_from_file_def)

lemma verdict_examples:
  "find_examples verdict_env demo_config (example_places demo_config) \<lparr>ex_cpp = [], ex_names = [], ex_py = []\<rparr>
     = Inr \<lparr>ex_cpp = [], ex_names = [], ex_py = []\<rparr>"
  by code_simp

lemma verdict_suites: "suite_list verdict_env demo_config verdict_options = Inr [''nsc-tcp-loss'']"
  by code_simp

definition verdict_job :: job where
  "verdict_job = suite_job verdict_env demo_config verdict_options ''testpy-output/now'' ''nsc-tcp-loss''"

lemma verdict_job: "is_skip verdict_job" "\<not> is_break verdict_job" "\<not> is_example verdict_job" "\<not> is_pyexample verdict_job"
  by code_simp+

lemma verdict_jobs:
  "suite_jobs verdict_env demo_config verdict_options (path_join ''testpy-output'' (en_stamp verdict_env)) [''nsc-tcp-loss'']
     = [verdict_job]"
  by (simp add: suite_jobs_def verdict_job_def strip_def lstrip_def rstrip_def is_space_def path_join_def
      startswith_def endswith_def verdict_env_def demo_env_def)

definition verdict_plan :: plan where
  "verdict_plan = \<lparr>pn_config = demo_config, pn_environ = dict_set ''NS_LOG'' [] (make_paths demo_config (en_platform verdict_env) []),
     pn_outdir = path_join ''testpy-output'' (en_stamp verdict_env), pn_processors = 1, pn_jobs = [verdict_job]\<rparr>"

lemma verdict_decides: "decide verdict_env demo_config verdict_options [] = Inr (Go verdict_plan)"
proof -
  have o: "op_nowaf verdict_options" "\<not> op_kinds verdict_options" "\<not> op_list verdict_options" "no_single verdict_options"
    by code_simp+
  have w: "worker_count verdict_env verdict_options = 1" by code_simp
  show ?thesis
    by (simp add: decide_def verdict_config verdict_lists verdict_examples verdict_suites verdict_jobs o w Let_def
        example_jobs_def pyexample_jobs_def verdict_plan_def)
qed

lemma verdict_runs:
  "\<exists>lines files code. run_tests verdict_env (\<lambda>x. Inl ValueError) demo_config verdict_options [] False (\<lambda>_. [verdict_job]) Map.empty
     = Inr (lines, files, code)"
proof -
  have "op_html verdict_options = []" "op_text verdict_options = []" "op_xml verdict_options = []" by code_simp+
  then show ?thesis
    by (simp add: run_tests_def verdict_decides Let_def collect_job_def verdict_job job_xml_def finish_tests_def report_def)
qed

theorem test_py_verdict_witness:
  "\<exists>lines files code. run_tests verdict_env (\<lambda>x. Inl ValueError) demo_config verdict_options [] False
     (\<lambda>p. pn_jobs p) Map.empty = Inr (lines, files, code) \<and> main_status code = 0"
proof -
  obtain lines files code where run: "run_tests verdict_env (\<lambda>x. Inl ValueError) demo_config verdict_options [] False
      (\<lambda>_. [verdict_job]) Map.empty = Inr (lines, files, code)"
    using verdict_runs by blast
  define s where "s = \<lparr>pl_todo = [], pl_input = [break_job], pl_output = [], pl_workers = [Waiting],
     pl_exit = False, pl_left = 0, pl_received = [verdict_job]\<rparr>"
  have plan: "pn_processors verdict_plan = 1" "pn_jobs verdict_plan = [verdict_job]" by (simp_all add: verdict_plan_def)
  have reach: "(pool_step (run_job (en_sh verdict_env) (pn_config verdict_plan) verdict_options))\<^sup>*\<^sup>*
      (new_pool (pn_processors verdict_plan) (pn_jobs verdict_plan)) s"
    unfolding s_def plan by (rule single_skip_schedule [OF verdict_job(1,2)])
  have "run_tests verdict_env (\<lambda>x. Inl ValueError) demo_config verdict_options [] False
      (\<lambda>_. pl_received s) Map.empty = Inr (lines, files, code)"
    using run by (simp add: s_def)
  from test_py_verdict [OF verdict_decides reach _ _ this] have "main_status code = 0"
    by (simp add: s_def plan verdict_job)
  moreover have "run_tests verdict_env (\<lambda>x. Inl ValueError) demo_config verdict_options [] False
      (\<lambda>p. pn_jobs p) Map.empty = Inr (lines, files, code)"
    using run by (simp add: run_tests_def verdict_decides plan)
  ultimately show ?thesis by blast
qed

end
